(* ===== verification/Prelude.thy ===== *)
theory Prelude
  imports Main "HOL-Library.Word" "HOL-Library.List_Lexorder" "HOL-Library.Char_ord"
begin

text \<open>
  Shared vocabulary of the development: the machine integers of the Rust code as words of
  their width, instants as integral nanoseconds since the Unix epoch, ordered maps
  (\<open>BTreeMap\<close>, and \<open>HashMap\<close> with one admissible iteration order) as association lists with
  strictly increasing keys, decimal and hexadecimal rendering, and the lemma collections the
  component theories extend. Strings are byte lists: a \<open>char\<close> is one UTF-8 byte, as in a Rust
  \<open>String\<close>, and the lexicographic order of \<open>HOL-Library.List_Lexorder\<close> is Rust's \<open>Ord for str\<close>.
\<close>

named_theorems map_simps "look-up laws of the ordered maps"
named_theorems model_defs "definitions that open by rewriting"

unbundle bit_operations_syntax

type_synonym u8 = "8 word"
type_synonym u16 = "16 word"
type_synonym u32 = "32 word"
type_synonym u64 = "64 word"
type_synonym u128 = "128 word"

subsection \<open>Instants\<close>

text \<open>An \<open>OffsetDateTime\<close> is the number of nanoseconds since the epoch.\<close>

type_synonym instant = int

definition seconds :: "int \<Rightarrow> int" where
  "seconds s = s * 1000000000"

definition unix_epoch :: instant where
  "unix_epoch = 0"

lemma seconds_mono [simp]: "seconds a \<le> seconds b \<longleftrightarrow> a \<le> b"
  by (simp add: seconds_def)

lemma seconds_less [simp]: "seconds a < seconds b \<longleftrightarrow> a < b"
  by (simp add: seconds_def)

lemma seconds_zero [simp]: "seconds 0 = 0"
  by (simp add: seconds_def)

lemma seconds_nonneg [simp]: "0 \<le> seconds a \<longleftrightarrow> 0 \<le> a"
  by (simp add: seconds_def zero_le_mult_iff)

subsection \<open>Options\<close>

text \<open>\<open>Option::is_none_or\<close> and \<open>Option::is_some_and\<close>.\<close>

definition is_none_or :: "('a \<Rightarrow> bool) \<Rightarrow> 'a option \<Rightarrow> bool" where
  "is_none_or P x = (case x of None \<Rightarrow> True | Some a \<Rightarrow> P a)"

definition is_some_and :: "('a \<Rightarrow> bool) \<Rightarrow> 'a option \<Rightarrow> bool" where
  "is_some_and P x = (case x of None \<Rightarrow> False | Some a \<Rightarrow> P a)"

lemma is_none_or_simps [simp]: "is_none_or P None" "is_none_or P (Some a) = P a"
  by (simp_all add: is_none_or_def)

lemma is_some_and_simps [simp]: "\<not> is_some_and P None" "is_some_and P (Some a) = P a"
  by (simp_all add: is_some_and_def)

lemma is_some_and_iff: "is_some_and P x \<longleftrightarrow> (\<exists>a. x = Some a \<and> P a)"
  by (cases x) auto

subsection \<open>Ordered maps\<close>

text \<open>
  A \<open>BTreeMap<K, V>\<close> is the list of its entries in key order. \<open>bt_get\<close> is \<open>get\<close>,
  \<open>bt_insert\<close> is \<open>insert\<close>, \<open>bt_remove\<close> is \<open>remove\<close> and \<open>bt_modify\<close> is an update through
  \<open>get_mut\<close>, which does nothing where the key is absent.
\<close>

type_synonym ('k, 'v) btree = "('k \<times> 'v) list"

definition bt_get :: "('k, 'v) btree \<Rightarrow> 'k \<Rightarrow> 'v option" where
  "bt_get m k = map_of m k"

fun bt_insert :: "'k::linorder \<Rightarrow> 'v \<Rightarrow> ('k, 'v) btree \<Rightarrow> ('k, 'v) btree" where
  "bt_insert k v [] = [(k, v)]"
| "bt_insert k v ((a, b) # m) =
     (if k < a then (k, v) # (a, b) # m
      else if k = a then (k, v) # m
      else (a, b) # bt_insert k v m)"

fun bt_remove :: "'k \<Rightarrow> ('k, 'v) btree \<Rightarrow> ('k, 'v) btree" where
  "bt_remove k [] = []"
| "bt_remove k ((a, b) # m) = (if k = a then bt_remove k m else (a, b) # bt_remove k m)"

definition bt_modify :: "'k \<Rightarrow> ('v \<Rightarrow> 'v) \<Rightarrow> ('k, 'v) btree \<Rightarrow> ('k, 'v) btree" where
  "bt_modify k f m = map (\<lambda>(a, b). if a = k then (a, f b) else (a, b)) m"

definition bt_retain :: "('k \<Rightarrow> 'v \<Rightarrow> bool) \<Rightarrow> ('k, 'v) btree \<Rightarrow> ('k, 'v) btree" where
  "bt_retain P m = filter (\<lambda>(a, b). P a b) m"

definition bt_keys :: "('k, 'v) btree \<Rightarrow> 'k list" where
  "bt_keys m = map fst m"

definition bt_values :: "('k, 'v) btree \<Rightarrow> 'v list" where
  "bt_values m = map snd m"

definition bt_ok :: "('k::linorder, 'v) btree \<Rightarrow> bool" where
  "bt_ok m = sorted_wrt (<) (map fst m)"

text \<open>\<open>iter.collect::<BTreeMap<_, _>>()\<close>: a later entry replaces an earlier one.\<close>

definition bt_collect :: "('k::linorder \<times> 'v) list \<Rightarrow> ('k, 'v) btree" where
  "bt_collect kvs = foldl (\<lambda>m (k, v). bt_insert k v m) [] kvs"

lemma bt_get_Nil [simp, map_simps]: "bt_get [] k = None"
  by (simp add: bt_get_def)

lemma bt_get_Cons [simp]: "bt_get ((a, b) # m) k = (if a = k then Some b else bt_get m k)"
  by (simp add: bt_get_def)

lemma bt_get_insert [simp, map_simps]:
  "bt_get (bt_insert k v m) k' = (if k' = k then Some v else bt_get m k')"
  by (induction m) auto

lemma bt_get_remove [simp, map_simps]:
  "bt_get (bt_remove k m) k' = (if k' = k then None else bt_get m k')"
  by (induction m) auto

lemma bt_get_modify [simp, map_simps]:
  "bt_get (bt_modify k f m) k' = (if k' = k then map_option f (bt_get m k) else bt_get m k')"
  unfolding bt_modify_def by (induction m) auto

lemma bt_keys_modify [simp]: "map fst (bt_modify k f m) = map fst m"
  unfolding bt_modify_def by (induction m) auto

lemma set_keys_insert [simp]: "fst ` set (bt_insert k v m) = insert k (fst ` set m)"
  by (induction k v m rule: bt_insert.induct) (simp_all add: insert_commute)

lemma set_keys_remove [simp]: "fst ` set (bt_remove k m) = fst ` set m - {k}"
  by (induction k m rule: bt_remove.induct) (auto simp: insert_Diff_if)

lemma bt_ok_Nil [simp]: "bt_ok []"
  by (simp add: bt_ok_def)

lemma bt_ok_Cons: "bt_ok ((a, b) # m) \<longleftrightarrow> (\<forall>k \<in> fst ` set m. a < k) \<and> bt_ok m"
  by (simp add: bt_ok_def)

lemma bt_ok_insert [simp, intro]: "bt_ok m \<Longrightarrow> bt_ok (bt_insert k v m)"
proof (induction k v m rule: bt_insert.induct)
  case (1 k v)
  show ?case by (simp add: bt_ok_Cons)
next
  case (2 k v a b m)
  then have "bt_ok m" and above: "\<forall>x \<in> fst ` set m. a < x" by (auto simp: bt_ok_Cons)
  consider "k < a" | "k = a" | "a < k" by fastforce
  then show ?case
  proof cases
    case 1
    then show ?thesis using \<open>bt_ok m\<close> above by (auto simp: bt_ok_Cons intro: less_trans)
  next
    case 2
    then show ?thesis using \<open>bt_ok m\<close> above by (simp add: bt_ok_Cons)
  next
    case 3
    then have "\<not> k < a" "k \<noteq> a" by auto
    with 2 3 \<open>bt_ok m\<close> above have "bt_ok (bt_insert k v m)" by simp
    with 3 \<open>\<not> k < a\<close> \<open>k \<noteq> a\<close> above show ?thesis
      by (simp only: bt_insert.simps if_False bt_ok_Cons set_keys_insert) simp
  qed
qed

lemma bt_ok_remove [simp, intro]: "bt_ok m \<Longrightarrow> bt_ok (bt_remove k m)"
proof (induction k m rule: bt_remove.induct)
  case (1 k)
  show ?case by simp
next
  case (2 k a b m)
  then have "bt_ok (bt_remove k m)" and "\<forall>x \<in> fst ` set m. a < x"
    by (auto simp: bt_ok_Cons)
  then show ?case
    by (cases "k = a") (simp_all only: bt_remove.simps if_True if_False bt_ok_Cons
        set_keys_remove simp_thms Diff_iff Ball_def, blast)
qed

lemma bt_ok_modify [simp]: "bt_ok (bt_modify k f m) = bt_ok m"
  by (simp add: bt_ok_def)

lemma bt_ok_retain [simp, intro]: "bt_ok m \<Longrightarrow> bt_ok (bt_retain P m)"
  by (induction m) (auto simp: bt_ok_Cons bt_retain_def)

lemma bt_ok_distinct: "bt_ok m \<Longrightarrow> distinct (map fst m)"
  by (induction m) (fastforce simp: bt_ok_Cons)+

lemma bt_get_in_set: "bt_get m k = Some v \<Longrightarrow> (k, v) \<in> set m"
  by (simp add: bt_get_def map_of_SomeD)

lemma bt_in_set_get: "bt_ok m \<Longrightarrow> (k, v) \<in> set m \<Longrightarrow> bt_get m k = Some v"
  by (simp add: bt_get_def bt_ok_distinct)

lemma bt_get_None_iff: "bt_get m k = None \<longleftrightarrow> k \<notin> fst ` set m"
  by (simp add: bt_get_def map_of_eq_None_iff)

lemma bt_get_dom: "(\<exists>v. bt_get m k = Some v) \<longleftrightarrow> k \<in> fst ` set m"
  by (metis bt_get_None_iff option.exhaust option.distinct(1))

lemma bt_values_all:
  "bt_ok m \<Longrightarrow> (\<forall>v \<in> set (bt_values m). P v) \<longleftrightarrow> (\<forall>k v. bt_get m k = Some v \<longrightarrow> P v)"
proof
  assume "bt_ok m" and "\<forall>v \<in> set (bt_values m). P v"
  then show "\<forall>k v. bt_get m k = Some v \<longrightarrow> P v"
    by (force simp: bt_values_def dest: bt_get_in_set)
next
  assume "bt_ok m" and all: "\<forall>k v. bt_get m k = Some v \<longrightarrow> P v"
  show "\<forall>v \<in> set (bt_values m). P v"
  proof
    fix v
    assume "v \<in> set (bt_values m)"
    then obtain k where "(k, v) \<in> set m" by (auto simp: bt_values_def)
    with \<open>bt_ok m\<close> have "bt_get m k = Some v" by (rule bt_in_set_get)
    with all show "P v" by blast
  qed
qed

lemma bt_collect_snoc: "bt_collect (kvs @ [(k, v)]) = bt_insert k v (bt_collect kvs)"
  by (simp add: bt_collect_def)

lemma bt_ok_collect [simp, intro]: "bt_ok (bt_collect kvs)"
proof (induction kvs rule: rev_induct)
  case Nil
  show ?case by (simp add: bt_collect_def)
next
  case (snoc kv kvs)
  then show ?case by (cases kv) (simp add: bt_collect_snoc)
qed

lemma set_keys_collect [simp]: "fst ` set (bt_collect kvs) = fst ` set kvs"
proof (induction kvs rule: rev_induct)
  case Nil
  show ?case by (simp add: bt_collect_def)
next
  case (snoc kv kvs)
  then show ?case by (cases kv) (simp add: bt_collect_snoc)
qed

lemma bt_get_collect: "bt_get (bt_collect kvs) k = map_of (rev kvs) k"
proof (induction kvs rule: rev_induct)
  case Nil
  show ?case by (simp add: bt_collect_def)
next
  case (snoc kv kvs)
  then show ?case by (cases kv) (simp add: bt_collect_snoc)
qed

subsection \<open>The interface of an ordered map\<close>

text \<open>
  The laws the stores and the folds rely on, stated once over the operations they call and
  discharged below for the association lists.
\<close>

locale table =
  fixes get :: "'m \<Rightarrow> 'k \<Rightarrow> 'v option"
    and put :: "'k \<Rightarrow> 'v \<Rightarrow> 'm \<Rightarrow> 'm"
    and del :: "'k \<Rightarrow> 'm \<Rightarrow> 'm"
    and alter :: "'k \<Rightarrow> ('v \<Rightarrow> 'v) \<Rightarrow> 'm \<Rightarrow> 'm"
    and ok :: "'m \<Rightarrow> bool"
  assumes get_put: "get (put k v m) k' = (if k' = k then Some v else get m k')"
    and get_del: "get (del k m) k' = (if k' = k then None else get m k')"
    and get_alter: "get (alter k f m) k' = (if k' = k then map_option f (get m k) else get m k')"
    and ok_put: "ok m \<Longrightarrow> ok (put k v m)"
    and ok_del: "ok m \<Longrightarrow> ok (del k m)"
    and ok_alter: "ok m \<Longrightarrow> ok (alter k f m)"
begin

lemma put_put: "get (put k v (put k w m)) = get (put k v m)"
  by (rule ext) (simp add: get_put)

lemma put_commute: "k \<noteq> l \<Longrightarrow> get (put k v (put l w m)) = get (put l w (put k v m))"
  by (rule ext) (simp add: get_put)

lemma del_idem: "get (del k (del k m)) = get (del k m)"
  by (rule ext) (simp add: get_del)

lemma frame: "k' \<noteq> k \<Longrightarrow> get (put k v m) k' = get m k'"
  "k' \<noteq> k \<Longrightarrow> get (del k m) k' = get m k'"
  "k' \<noteq> k \<Longrightarrow> get (alter k f m) k' = get m k'"
  by (simp_all add: get_put get_del get_alter)

end

interpretation btree: table bt_get bt_insert bt_remove bt_modify bt_ok
  by unfold_locales auto

subsection \<open>Rendering\<close>

definition dec_digit :: "nat \<Rightarrow> char" where
  "dec_digit d = ''0123456789'' ! d"

text \<open>\<open>Display\<close> of an unsigned integer.\<close>

fun show_nat :: "nat \<Rightarrow> string" where
  "show_nat n = (if n < 10 then [dec_digit n] else show_nat (n div 10) @ [dec_digit (n mod 10)])"

declare show_nat.simps [simp del]

lemma dec_digit_inj: "a < 10 \<Longrightarrow> b < 10 \<Longrightarrow> dec_digit a = dec_digit b \<Longrightarrow> a = b"
  unfolding dec_digit_def
  by (subst (asm) nth_eq_iff_index_eq) auto

lemma show_nat_nonempty [simp]: "show_nat n \<noteq> []"
  by (subst show_nat.simps) simp

lemma dec_digit_in: "d < 10 \<Longrightarrow> dec_digit d \<in> set ''0123456789''"
  unfolding dec_digit_def by (rule nth_mem) simp

lemma show_nat_digits: "set (show_nat n) \<subseteq> set ''0123456789''"
proof (induction n rule: show_nat.induct)
  case (1 n)
  show ?case
  proof (cases "n < 10")
    case True
    then show ?thesis using dec_digit_in [of n] by (subst show_nat.simps) simp
  next
    case False
    have "dec_digit (n mod 10) \<in> set ''0123456789''" by (rule dec_digit_in) simp
    with 1 False show ?thesis by (subst show_nat.simps) simp
  qed
qed

lemma show_nat_inj: "show_nat a = show_nat b \<Longrightarrow> a = b"
proof (induction a arbitrary: b rule: show_nat.induct)
  case (1 a)
  have len: "length (show_nat n) = 1 \<longleftrightarrow> n < 10" for n
    by (subst show_nat.simps) simp
  show ?case
  proof (cases "a < 10")
    case True
    with "1.prems" len [of a] len [of b] have "b < 10" by simp
    with True "1.prems" show ?thesis by (auto simp: show_nat.simps intro: dec_digit_inj)
  next
    case False
    with "1.prems" len [of a] len [of b] have b: "\<not> b < 10" by simp
    from False b "1.prems" have
      "show_nat (a div 10) = show_nat (b div 10)" "dec_digit (a mod 10) = dec_digit (b mod 10)"
      by (simp_all add: show_nat.simps [of a] show_nat.simps [of b])
    with "1.IH" [OF False] have "a div 10 = b div 10" "a mod 10 = b mod 10"
      by (auto intro: dec_digit_inj)
    then show ?thesis by (metis div_mult_mod_eq)
  qed
qed

text \<open>A separator that no digit is splits a rendered pair uniquely.\<close>

lemma append_sep_inj:
  assumes "xs @ [c] @ ys = xs' @ [c] @ ys'" and "c \<notin> set ys" and "c \<notin> set ys'"
  shows "xs = xs' \<and> ys = ys'"
  using assms
proof (induction ys arbitrary: ys' rule: rev_induct)
  case Nil
  then show ?case by (cases ys' rule: rev_cases) auto
next
  case (snoc y ys)
  then show ?case by (cases ys' rule: rev_cases) auto
qed

lemma slash_not_digit [simp]: "CHR ''/'' \<notin> set (show_nat n)"
  using show_nat_digits [of n] by auto

text \<open>\<open>Vec::join\<close> and the \<open>join\<close> of a list of strings.\<close>

fun join_with :: "string \<Rightarrow> string list \<Rightarrow> string" where
  "join_with sep [] = []"
| "join_with sep [x] = x"
| "join_with sep (x # y # zs) = x @ sep @ join_with sep (y # zs)"

subsection \<open>Lists\<close>

lemma find_Some_mem: "List.find P xs = Some x \<Longrightarrow> x \<in> set xs \<and> P x"
  by (induction xs) (auto split: if_splits)

lemma find_None_iff': "List.find P xs = None \<longleftrightarrow> (\<forall>x \<in> set xs. \<not> P x)"
  by (induction xs) auto

lemma find_map_Some: "(\<exists>x. List.find P xs = Some x) \<longleftrightarrow> (\<exists>x \<in> set xs. P x)"
  by (metis find_None_iff' not_None_eq)

end
