(* ===== verification/Ids.thy ===== *)
theory Ids
  imports Prelude
begin

text \<open>
  The ids of \<open>crates/aiwatcher-core/src/ids.rs\<close>: the FNV-1a hashes, the MurmurHash3
  finalizers that spread their output, the derived W3C trace and span ids and their
  hexadecimal text form. The lemmas show that both finalizers are bijections that fix zero
  (so they change how ids are distributed and never which inputs collide), that a derived id
  is never the invalid all-zero id, and that \<open>parse\<close> inverts \<open>to_hex\<close>.
\<close>

subsection \<open>FNV-1a\<close>

definition FNV64_OFFSET :: u64 where "FNV64_OFFSET = 0xcbf29ce484222325"
definition FNV64_PRIME :: u64 where "FNV64_PRIME = 0x00000100000001b3"
definition FNV128_OFFSET :: u128 where "FNV128_OFFSET = 0x6c62272e07bb014262b821756295c58d"
definition FNV128_PRIME :: u128 where "FNV128_PRIME = 0x0000000001000000000000000000013b"

text \<open>The bytes of a Rust string.\<close>

definition as_bytes :: "string \<Rightarrow> u8 list" where
  "as_bytes s = map (\<lambda>c. of_nat (of_char c)) s"

definition fnv1a_64 :: "u8 list \<Rightarrow> u64" where
  "fnv1a_64 bytes =
     foldl (\<lambda>hash byte. (hash XOR ucast byte) * FNV64_PRIME) FNV64_OFFSET bytes"

definition fnv1a_128 :: "u8 list \<Rightarrow> u128" where
  "fnv1a_128 bytes =
     foldl (\<lambda>hash byte. (hash XOR ucast byte) * FNV128_PRIME) FNV128_OFFSET bytes"

subsection \<open>The finalizers\<close>

definition fmix64 :: "u64 \<Rightarrow> u64" where
  "fmix64 z0 =
     (let z1 = z0 XOR drop_bit 33 z0;
          z2 = z1 * 0xff51afd7ed558ccd;
          z3 = z2 XOR drop_bit 33 z2;
          z4 = z3 * 0xc4ceb9fe1a85ec53
      in z4 XOR drop_bit 33 z4)"

definition avalanche_128 :: "u128 \<Rightarrow> u128" where
  "avalanche_128 raw =
     (let high0 = ucast (drop_bit 64 raw) :: u64;
          low0 = ucast raw :: u64;
          high1 = high0 + low0;
          low1 = low0 + high1;
          high2 = fmix64 high1;
          low2 = fmix64 low1;
          high3 = high2 + low2;
          low3 = low2 + high3
      in push_bit 64 (ucast high3) OR ucast low3)"

subsection \<open>Hexadecimal text\<close>

text \<open>
  \<open>CoreError::InvalidId\<close> with its three reasons, and the panic of a slice that cuts a UTF-8
  character: \<open>decode_hex\<close> slices the text by byte offsets after checking only its byte length.
\<close>

datatype id_error =
    WrongLength string string
  | NotHexadecimal string string
  | AllZero string string
  | SlicePanic

definition is_continuation_byte :: "char \<Rightarrow> bool" where
  "is_continuation_byte c = (128 \<le> (of_char c :: nat) \<and> (of_char c :: nat) < 192)"

definition hex_digit :: "nat \<Rightarrow> char" where
  "hex_digit d = ''0123456789abcdef'' ! d"

definition encode_hex :: "u8 list \<Rightarrow> string" where
  "encode_hex bytes =
     concat (map (\<lambda>byte. [hex_digit (unat (drop_bit 4 byte)), hex_digit (unat (byte AND 0x0f))])
                 bytes)"

text \<open>The value \<open>char::to_digit(16)\<close> gives one character: digits and letters of either case.\<close>

definition hex_value :: "char \<Rightarrow> nat option" where
  "hex_value c =
     (let n = of_char c :: nat
      in if 48 \<le> n \<and> n \<le> 57 then Some (n - 48)
         else if 97 \<le> n \<and> n \<le> 102 then Some (n - 87)
         else if 65 \<le> n \<and> n \<le> 70 then Some (n - 55)
         else None)"

text \<open>
  \<open>u8::from_str_radix(pair, 16)\<close> on two bytes: two digits, or a plus sign and one digit, which
  the standard library accepts for an unsigned type.
\<close>

definition from_str_radix_16 :: "char \<Rightarrow> char \<Rightarrow> u8 option" where
  "from_str_radix_16 a b =
     (if a = CHR ''+'' then map_option of_nat (hex_value b)
      else case (hex_value a, hex_value b) of
             (Some h, Some l) \<Rightarrow> Some (of_nat (16 * h + l))
           | _ \<Rightarrow> None)"

text \<open>
  The loop of \<open>decode_hex\<close>. The slice \<open>value[2 * index..2 * index + 2]\<close> panics unless both ends
  are character boundaries; the argument \<open>e\<close> is the error for a pair that is not hexadecimal.
\<close>

fun decode_pairs :: "id_error \<Rightarrow> string \<Rightarrow> id_error + u8 list" where
  "decode_pairs e [] = Inr []"
| "decode_pairs e [c] = Inl e"
| "decode_pairs e (a # b # rest) =
     (if is_continuation_byte a \<or> (rest \<noteq> [] \<and> is_continuation_byte (hd rest)) then Inl SlicePanic
      else case from_str_radix_16 a b of
             None \<Rightarrow> Inl e
           | Some byte \<Rightarrow>
               (case decode_pairs e rest of
                  Inl err \<Rightarrow> Inl err
                | Inr bytes \<Rightarrow> Inr (byte # bytes)))"

definition decode_hex :: "nat \<Rightarrow> string \<Rightarrow> string \<Rightarrow> id_error + u8 list" where
  "decode_hex n kind value =
     (if length value \<noteq> n * 2 then Inl (WrongLength kind value)
      else decode_pairs (NotHexadecimal kind value) value)"

subsection \<open>Trace and span ids\<close>

datatype trace_id = TraceId "u8 list"
datatype span_id = SpanId "u8 list"

text \<open>\<open>to_be_bytes\<close> of the two widths used: the most significant byte first.\<close>

definition be_bytes :: "nat \<Rightarrow> 'a::len word \<Rightarrow> u8 list" where
  "be_bytes n w = map (\<lambda>i. ucast (drop_bit (8 * i) w)) (rev [0..<n])"

definition trace_derive :: "string \<Rightarrow> trace_id" where
  "trace_derive run_id =
     (let raw = avalanche_128 (fnv1a_128 (as_bytes (''aiwatcher/run/'' @ run_id)));
          raw = (if raw = 0 then 1 else raw)
      in TraceId (be_bytes 16 raw))"

definition trace_parse :: "string \<Rightarrow> id_error + trace_id" where
  "trace_parse value =
     (case decode_hex 16 ''trace'' value of
        Inl e \<Rightarrow> Inl e
      | Inr bytes \<Rightarrow>
          if bytes = replicate 16 0 then Inl (AllZero ''trace'' value) else Inr (TraceId bytes))"

definition trace_to_hex :: "trace_id \<Rightarrow> string" where
  "trace_to_hex t = (case t of TraceId bytes \<Rightarrow> encode_hex bytes)"

definition span_derive :: "trace_id \<Rightarrow> string \<Rightarrow> span_id" where
  "span_derive trace key =
     (let raw = fmix64 (fnv1a_64 (as_bytes (trace_to_hex trace @ ''|'' @ key)));
          raw = (if raw = 0 then 1 else raw)
      in SpanId (be_bytes 8 raw))"

definition span_parse :: "string \<Rightarrow> id_error + span_id" where
  "span_parse value =
     (case decode_hex 8 ''span'' value of
        Inl e \<Rightarrow> Inl e
      | Inr bytes \<Rightarrow>
          if bytes = replicate 8 0 then Inl (AllZero ''span'' value) else Inr (SpanId bytes))"

definition span_to_hex :: "span_id \<Rightarrow> string" where
  "span_to_hex s = (case s of SpanId bytes \<Rightarrow> encode_hex bytes)"

subsection \<open>The finalizers are bijections that fix zero\<close>

definition xorshift33 :: "u64 \<Rightarrow> u64" where
  "xorshift33 z = z XOR drop_bit 33 z"

lemma xorshift33_involution [simp]: "xorshift33 (xorshift33 z) = z"
proof (rule bit_word_eqI)
  fix n
  assume n: "n < LENGTH(64)"
  have "\<not> bit z (66 + n)"
    using bit_imp_le_length [of z "66 + n"] by auto
  then show "bit (xorshift33 (xorshift33 z)) n = bit z n"
    by (auto simp: xorshift33_def bit_xor_iff bit_drop_bit_eq add.assoc [symmetric])
qed

lemma xorshift33_inj: "xorshift33 a = xorshift33 b \<Longrightarrow> a = b"
  by (metis xorshift33_involution)

lemma odd_mult_inj:
  fixes a b m i :: u64
  assumes "m * i = 1" and "a * m = b * m"
  shows "a = b"
proof -
  have "a * (m * i) = b * (m * i)" using assms(2) by (simp add: mult.assoc [symmetric])
  then show ?thesis using assms(1) by simp
qed

lemma fmix64_stages:
  "fmix64 z = xorshift33 (xorshift33 (xorshift33 z * 0xff51afd7ed558ccd) * 0xc4ceb9fe1a85ec53)"
  by (simp add: fmix64_def xorshift33_def Let_def)

lemma fmix64_inj: "fmix64 a = fmix64 b \<Longrightarrow> a = b"
proof -
  assume "fmix64 a = fmix64 b"
  then have "xorshift33 (xorshift33 a * 0xff51afd7ed558ccd) * 0xc4ceb9fe1a85ec53
      = xorshift33 (xorshift33 b * 0xff51afd7ed558ccd) * 0xc4ceb9fe1a85ec53"
    unfolding fmix64_stages by (rule xorshift33_inj)
  then have "xorshift33 (xorshift33 a * 0xff51afd7ed558ccd)
      = xorshift33 (xorshift33 b * 0xff51afd7ed558ccd)"
    by (rule odd_mult_inj [where i = "0x9cb4b2f8129337db", rotated]) simp
  then have "xorshift33 a * 0xff51afd7ed558ccd = xorshift33 b * 0xff51afd7ed558ccd"
    by (rule xorshift33_inj)
  then have "xorshift33 a = xorshift33 b"
    by (rule odd_mult_inj [where i = "0x4f74430c22a54005", rotated]) simp
  then show "a = b" by (rule xorshift33_inj)
qed

lemma fmix64_zero [simp]: "fmix64 0 = 0"
  by (simp add: fmix64_def)

lemma fmix64_eq_zero [simp]: "fmix64 z = 0 \<longleftrightarrow> z = 0"
  using fmix64_inj [of z 0] by auto

lemma halves_high: "ucast (drop_bit 64 (push_bit 64 (ucast h) OR ucast (l :: u64) :: u128)) = (h :: u64)"
  by (rule bit_word_eqI)
    (auto simp: bit_ucast_iff bit_drop_bit_eq bit_or_iff bit_push_bit_iff dest: bit_imp_le_length)

lemma halves_low: "ucast (push_bit 64 (ucast h) OR ucast (l :: u64) :: u128) = l"
  by (rule bit_word_eqI)
    (auto simp: bit_ucast_iff bit_or_iff bit_push_bit_iff dest: bit_imp_le_length)

lemma halves_join:
  "push_bit 64 (ucast (ucast (drop_bit 64 raw) :: u64)) OR ucast (ucast raw :: u64) = (raw :: u128)"
  by (rule bit_word_eqI)
    (auto simp: bit_ucast_iff bit_drop_bit_eq bit_or_iff bit_push_bit_iff not_less)

lemma avalanche_128_inj: "avalanche_128 a = avalanche_128 b \<Longrightarrow> a = b"
proof -
  assume eq: "avalanche_128 a = avalanche_128 b"
  define h where "h x = (ucast (drop_bit 64 x) :: u64)" for x :: u128
  define l where "l x = (ucast x :: u64)" for x :: u128
  define H where "H x = fmix64 (h x + l x)" for x
  define L where "L x = fmix64 (l x + (h x + l x))" for x
  have form: "avalanche_128 x = push_bit 64 (ucast (H x + L x)) OR ucast (L x + (H x + L x))" for x
    by (simp add: avalanche_128_def Let_def H_def L_def h_def l_def)
  from eq have hi: "H a + L a = H b + L b"
    unfolding form by (metis halves_high)
  from eq have "L a + (H a + L a) = L b + (H b + L b)"
    unfolding form by (metis halves_low)
  with hi have L: "L a = L b" by simp
  with hi have H: "H a = H b" by simp
  from H have sum: "h a + l a = h b + l b" unfolding H_def by (rule fmix64_inj)
  from L have "l a + (h a + l a) = l b + (h b + l b)" unfolding L_def by (rule fmix64_inj)
  with sum have "l a = l b" by simp
  with sum have "h a = h b" by simp
  with \<open>l a = l b\<close> show "a = b"
    unfolding h_def l_def by (metis halves_join)
qed

lemma avalanche_128_zero [simp]: "avalanche_128 0 = 0"
  by (simp add: avalanche_128_def)

lemma avalanche_128_eq_zero [simp]: "avalanche_128 z = 0 \<longleftrightarrow> z = 0"
  using avalanche_128_inj [of z 0] by auto

subsection \<open>Hexadecimal round trip\<close>

lemma hex_value_digit: "d < 16 \<Longrightarrow> hex_value (hex_digit d) = Some d \<and> hex_digit d \<noteq> CHR ''+''
    \<and> \<not> is_continuation_byte (hex_digit d)"
proof -
  assume "d < 16"
  then have "d \<in> set [0..<16]" by simp
  then show ?thesis
    by (auto simp: upt_rec hex_digit_def hex_value_def Let_def is_continuation_byte_def)
qed

lemma nibbles:
  fixes byte :: u8
  shows "unat (drop_bit 4 byte) < 16" and "unat (byte AND 15) < 16"
    and "of_nat (16 * unat (drop_bit 4 byte) + unat (byte AND 15)) = byte"
proof -
  have lt: "unat byte < 256" using unsigned_less [of byte] by simp
  have hi: "unat (drop_bit 4 byte) = unat byte div 16"
    by (simp add: drop_bit_eq_div unat_div)
  have lo: "unat (byte AND 15) = unat byte mod 16"
  proof -
    have "byte AND 15 = take_bit 4 byte" by (simp add: take_bit_eq_mask mask_eq_exp_minus_1)
    then show ?thesis by (simp add: take_bit_eq_mod unat_mod)
  qed
  from lt hi show "unat (drop_bit 4 byte) < 16" by simp
  from lo show "unat (byte AND 15) < 16" by simp
  show "of_nat (16 * unat (drop_bit 4 byte) + unat (byte AND 15)) = byte"
    by (simp only: hi lo mult_div_mod_eq) simp
qed

lemma decode_encode_pairs: "decode_pairs e (encode_hex bytes) = Inr bytes"
proof (induction bytes)
  case Nil
  show ?case by (simp add: encode_hex_def)
next
  case (Cons byte bytes)
  define h l where "h = unat (drop_bit 4 byte)" and "l = unat (byte AND 15)"
  have hl: "h < 16" "l < 16" "of_nat (16 * h + l) = byte"
    using nibbles [of byte] by (auto simp: h_def l_def)
  have enc: "encode_hex (byte # bytes) = hex_digit h # hex_digit l # encode_hex bytes"
    by (simp add: encode_hex_def h_def l_def)
  have next_ok: "encode_hex bytes \<noteq> [] \<Longrightarrow> \<not> is_continuation_byte (hd (encode_hex bytes))"
    by (cases bytes) (auto simp: encode_hex_def hex_value_digit nibbles)
  have "from_str_radix_16 (hex_digit h) (hex_digit l) = Some byte"
    using hl hex_value_digit [of h] hex_value_digit [of l] by (simp add: from_str_radix_16_def)
  with Cons next_ok hex_value_digit [of h] hl show ?case
    by (auto simp: enc)
qed

lemma length_encode_hex [simp]: "length (encode_hex bytes) = 2 * length bytes"
  by (induction bytes) (simp_all add: encode_hex_def)

lemma decode_encode_hex: "length bytes = n \<Longrightarrow> decode_hex n kind (encode_hex bytes) = Inr bytes"
  by (simp add: decode_hex_def decode_encode_pairs)

lemma byte_of_char_inj: "inj (\<lambda>c. of_nat (of_char c) :: u8)"
proof (rule injI)
  fix a b
  assume "(of_nat (of_char a) :: u8) = of_nat (of_char b)"
  then have "unat (of_nat (of_char a) :: u8) = unat (of_nat (of_char b) :: u8)" by simp
  moreover have "(of_char c :: nat) < 256" for c by (rule nat_of_char_less_256)
  ultimately show "a = b" by (simp add: unsigned_of_nat take_bit_eq_mod)
qed

lemma as_bytes_inj: "inj as_bytes"
  by (rule injI) (simp add: as_bytes_def inj_map_eq_map [OF byte_of_char_inj])

lemma length_be_bytes [simp]: "length (be_bytes n w) = n"
  by (simp add: be_bytes_def)

lemma be_bytes_zero_bits:
  assumes "be_bytes n w = replicate n 0" and "k < 8 * n"
  shows "\<not> bit w k"
proof -
  define i where "i = k div 8"
  have i: "i < n" using assms(2) by (simp add: i_def)
  have "\<forall>b \<in> set (be_bytes n w). b = 0" using assms(1) by simp
  moreover have "ucast (drop_bit (8 * i) w) \<in> set (be_bytes n w)"
    using i by (auto simp: be_bytes_def)
  ultimately have "(ucast (drop_bit (8 * i) w) :: u8) = 0" by blast
  then have "\<not> bit (ucast (drop_bit (8 * i) w) :: u8) (k mod 8)" by simp
  then show ?thesis
    by (auto simp: bit_ucast_iff bit_drop_bit_eq i_def dest: bit_imp_le_length)
qed

lemma be_bytes_nonzero:
  fixes w :: "'a::len word"
  assumes "w \<noteq> 0" and "LENGTH('a) = 8 * n"
  shows "be_bytes n w \<noteq> replicate n 0"
proof
  assume z: "be_bytes n w = replicate n 0"
  have "w = 0"
    by (rule bit_word_eqI) (use be_bytes_zero_bits [OF z] assms(2) in simp)
  with assms(1) show False by simp
qed

subsection \<open>Properties\<close>

text \<open>The derivation reaches the exact trace and span ids the repository pins as a contract.\<close>

theorem derived_ids_pinned:
  "trace_to_hex (trace_derive ''run-1'') = ''7b2e77b06a0816e61d5d3f929ef3f45c'' \<and>
   trace_to_hex (trace_derive ''run-42'') = ''4b2aa2cec81978113b3de4ae8cc285c9'' \<and>
   span_to_hex (span_derive (trace_derive ''run-1'') ''agent:researcher'') = ''dc84bd03055c2c44''"
  by code_simp

text \<open>Both finalizers are bijections that fix zero, so the all-zero guard after mixing
  catches exactly the hash that is zero, and mixing never merges two hashes.\<close>

theorem finalizers_bijective:
  "bij fmix64 \<and> bij avalanche_128 \<and> fmix64 0 = 0 \<and> avalanche_128 0 = 0"
proof -
  have "inj fmix64" by (rule injI) (rule fmix64_inj)
  then have "bij fmix64" by (simp add: bij_def finite_UNIV_inj_surj)
  have "inj avalanche_128" by (rule injI) (rule avalanche_128_inj)
  then have "bij avalanche_128" by (simp add: bij_def finite_UNIV_inj_surj)
  with \<open>bij fmix64\<close> show ?thesis by simp
qed

text \<open>Every derived trace and span id survives its text form: \<open>parse\<close> accepts what
  \<open>to_hex\<close> writes and returns the same id, so no derived id is the invalid all-zero one.\<close>

theorem derived_id_roundtrip:
  "trace_parse (trace_to_hex (trace_derive run)) = Inr (trace_derive run) \<and>
   span_parse (span_to_hex (span_derive t key)) = Inr (span_derive t key)"
proof
  define raw where "raw = avalanche_128 (fnv1a_128 (as_bytes (''aiwatcher/run/'' @ run)))"
  define w where "w = (if raw = 0 then 1 else raw)"
  have "w \<noteq> 0" by (simp add: w_def)
  then have nz: "be_bytes 16 w \<noteq> replicate 16 0" by (rule be_bytes_nonzero) simp
  have d: "trace_derive run = TraceId (be_bytes 16 w)"
    by (simp add: trace_derive_def raw_def w_def Let_def)
  show "trace_parse (trace_to_hex (trace_derive run)) = Inr (trace_derive run)"
    unfolding d trace_to_hex_def trace_parse_def trace_id.case
    by (simp only: decode_encode_hex [OF length_be_bytes] sum.case nz if_False)
next
  define raw where "raw = fmix64 (fnv1a_64 (as_bytes (trace_to_hex t @ ''|'' @ key)))"
  define w where "w = (if raw = 0 then 1 else raw)"
  have "w \<noteq> 0" by (simp add: w_def)
  then have nz: "be_bytes 8 w \<noteq> replicate 8 0" by (rule be_bytes_nonzero) simp
  have d: "span_derive t key = SpanId (be_bytes 8 w)"
    unfolding span_derive_def raw_def w_def Let_def ..
  show "span_parse (span_to_hex (span_derive t key)) = Inr (span_derive t key)"
    unfolding d span_to_hex_def span_parse_def span_id.case
    by (simp only: decode_encode_hex [OF length_be_bytes] sum.case nz if_False)
qed

text \<open>\<open>parse\<close> is not total on untrusted text: thirty-two bytes whose second character is a
  two-byte UTF-8 character make the byte slice panic, and a plus sign in front of a single digit
  is taken for a hexadecimal pair.\<close>

theorem trace_parse_hazards:
  "trace_parse (''a'' @ [char_of (0xC3 :: nat), char_of (0xA9 :: nat)] @ replicate 29 CHR ''0'')
     = Inl SlicePanic \<and>
   trace_parse (''+1'' @ replicate 30 CHR ''0'') = Inr (TraceId (1 # replicate 15 0))"
  by code_simp

end
