(* ===== verification/Json.thy ===== *)
theory Json
  imports Ids
begin

text \<open>
  \<open>serde_json::Value\<close>, whose object is a \<open>BTreeMap\<close> in this workspace, and the two functions
  of third-party crates the addressing rules are built on: the SHA-256 of the \<open>sha2\<close> crate and
  the text form \<open>serde_json::to_string\<close> gives a value. Both are the fields of one parameter
  record that every definition using them takes. On top of them stand the content digest of
  \<open>aiwatcher-jobs\<close>, the canonical text of \<open>plan.rs\<close> and the derived UUID of
  \<open>aiwatcher-execution\<close>.
\<close>

datatype json =
    JNull
  | JBool bool
  | JInt int
  | JFloat string
  | JString string
  | JArray "json list"
  | JObject "(string \<times> json) list"

fun as_str :: "json \<Rightarrow> string option" where
  "as_str (JString s) = Some s"
| "as_str _ = None"

text \<open>\<open>Value::as_u64\<close>: an integral number in the unsigned 64-bit range.\<close>

fun as_u64 :: "json \<Rightarrow> u64 option" where
  "as_u64 (JInt n) = (if 0 \<le> n \<and> n < 2 ^ 64 then Some (word_of_int n) else None)"
| "as_u64 _ = None"

fun json_get :: "json \<Rightarrow> string \<Rightarrow> json option" where
  "json_get (JObject m) k = bt_get m k"
| "json_get _ k = None"

text \<open>\<open>as_object_mut\<close> followed by \<open>insert\<close>, a no-op on anything but an object.\<close>

fun json_insert :: "string \<Rightarrow> json \<Rightarrow> json \<Rightarrow> json" where
  "json_insert k v (JObject m) = JObject (bt_insert k v m)"
| "json_insert k v j = j"

text \<open>The object the \<open>json!\<close> macro builds from its entries.\<close>

definition json_object :: "(string \<times> json) list \<Rightarrow> json" where
  "json_object kvs = JObject (bt_collect kvs)"

definition json_opt :: "('a \<Rightarrow> json) \<Rightarrow> 'a option \<Rightarrow> json" where
  "json_opt f x = (case x of None \<Rightarrow> JNull | Some a \<Rightarrow> f a)"

definition json_u32 :: "u32 \<Rightarrow> json" where
  "json_u32 n = JInt (uint n)"

record crates =
  sha256 :: "string \<Rightarrow> u8 list"
  json_text :: "json \<Rightarrow> string"

subsection \<open>Content digests and derived ids\<close>

text \<open>\<open>hex\<close> of \<open>aiwatcher-jobs\<close>: two lower-case digits per byte.\<close>

definition jobs_hex :: "u8 list \<Rightarrow> string" where
  "jobs_hex bytes =
     foldl (\<lambda>out byte. out @ [hex_digit (unat byte div 16), hex_digit (unat byte mod 16)]) [] bytes"

definition digest :: "crates \<Rightarrow> string \<Rightarrow> string" where
  "digest C bytes = jobs_hex (sha256 C bytes)"

text \<open>\<open>canonical\<close> of \<open>plan.rs\<close>: the text of the value, whose object keys are sorted.\<close>

definition canonical :: "crates \<Rightarrow> json \<Rightarrow> string" where
  "canonical C value = json_text C value"

text \<open>\<open>Uuid::to_string\<close>: the hyphenated lower-case form of sixteen bytes.\<close>

definition uuid_text :: "u8 list \<Rightarrow> string" where
  "uuid_text b =
     encode_hex (take 4 b) @ ''-'' @ encode_hex (take 2 (drop 4 b)) @ ''-'' @
     encode_hex (take 2 (drop 6 b)) @ ''-'' @ encode_hex (take 2 (drop 8 b)) @ ''-'' @
     encode_hex (take 6 (drop 10 b))"

definition derive_uuid :: "crates \<Rightarrow> string \<Rightarrow> string" where
  "derive_uuid C name =
     (let hash = sha256 C (''aiwatcher/execution/uuid8/'' @ name);
          bytes0 = take 16 hash;
          bytes1 = bytes0[6 := (bytes0 ! 6 AND 0x0f) OR 0x80];
          bytes2 = bytes1[8 := (bytes1 ! 8 AND 0x3f) OR 0x80]
      in uuid_text bytes2)"

lemma nibble_high: "unat (drop_bit 4 (b :: u8)) = unat b div 16"
  by (simp add: drop_bit_eq_div unat_div)

lemma nibble_low: "unat ((b :: u8) AND 0x0f) = unat b mod 16"
proof -
  have "b AND 15 = take_bit 4 b" by (simp add: take_bit_eq_mask mask_eq_exp_minus_1)
  then show ?thesis by (simp add: take_bit_eq_mod unat_mod)
qed

lemma encode_hex_Cons:
  "encode_hex (b # bytes) = [hex_digit (unat b div 16), hex_digit (unat b mod 16)] @ encode_hex bytes"
  by (simp only: encode_hex_def list.map concat.simps nibble_high nibble_low)

lemma encode_hex_Nil [simp]: "encode_hex [] = []"
  by (simp add: encode_hex_def)

lemma jobs_hex_acc:
  "foldl (\<lambda>out byte. out @ [hex_digit (unat byte div 16), hex_digit (unat byte mod 16)]) acc bytes
     = acc @ encode_hex bytes"
proof (induction bytes arbitrary: acc)
  case Nil
  show ?case by simp
next
  case (Cons b bytes)
  show ?case by (simp only: foldl_Cons Cons encode_hex_Cons append_assoc)
qed

lemma jobs_hex_encode: "jobs_hex bytes = encode_hex bytes"
  by (simp only: jobs_hex_def jobs_hex_acc append_Nil)

lemma encode_hex_inj: "encode_hex a = encode_hex b \<Longrightarrow> a = b"
  by (metis decode_encode_pairs Inr_inject)

lemma digest_eq_iff: "digest C a = digest C b \<longleftrightarrow> sha256 C a = sha256 C b"
  by (auto simp: digest_def jobs_hex_encode dest: encode_hex_inj)

lemma hex_digit_range: "d < 16 \<Longrightarrow> hex_digit d \<in> set ''0123456789abcdef''"
  unfolding hex_digit_def by (rule nth_mem) simp

lemma encode_hex_alphabet: "set (encode_hex bytes) \<subseteq> set ''0123456789abcdef''"
proof (induction bytes)
  case Nil
  show ?case by (simp add: encode_hex_def)
next
  case (Cons b bytes)
  have "encode_hex (b # bytes) =
      hex_digit (unat (drop_bit 4 b)) # hex_digit (unat (b AND 0x0f)) # encode_hex bytes"
    by (simp add: encode_hex_def)
  with Cons hex_digit_range [OF nibbles(1), of b] hex_digit_range [OF nibbles(2), of b]
  show ?case by simp
qed

lemma digest_alphabet: "set (digest C s) \<subseteq> set ''0123456789abcdef''"
  by (simp only: digest_def jobs_hex_encode encode_hex_alphabet)

lemma length_derive_uuid:
  assumes "\<And>s. length (sha256 C s) = 32"
  shows "length (derive_uuid C name) = 36"
  using assms by (simp add: derive_uuid_def uuid_text_def Let_def)

lemma high_nibble_version: "drop_bit 4 ((b AND 0x0f) OR 0x80 :: u8) = 8"
  by (simp add: drop_bit_and drop_bit_or)

end
