(* ===== verification/Plan.thy ===== *)
theory Plan
  imports Jobs
begin

text \<open>
  The runtime-neutral graph an execution runs: \<open>plan.rs\<close> with the artifact reference of
  \<open>aiwatcher-core\<close>, the timeout policy of a question and the pod request the runtime bindings
  carry. \<open>execution_plan\<close> is the sealed graph, \<open>retry_policy\<close> its two retry budgets. The lemmas
  show that Kahn's loop in \<open>is_acyclic\<close> decides acyclicity of the edges between the plan's own
  steps, that sealing makes the address independent of the order and repetition of the edges,
  and what the retry delays are.
\<close>

subsection \<open>Artifacts, questions, pods\<close>

datatype artifact_kind =
  ArtRows | ArtCode | ArtPreview | ArtLog | ArtModel | ArtReport | ArtBlob

fun artifact_kind_as_str :: "artifact_kind \<Rightarrow> string" where
  "artifact_kind_as_str ArtRows = ''rows''"
| "artifact_kind_as_str ArtCode = ''code''"
| "artifact_kind_as_str ArtPreview = ''preview''"
| "artifact_kind_as_str ArtLog = ''log''"
| "artifact_kind_as_str ArtModel = ''model''"
| "artifact_kind_as_str ArtReport = ''report''"
| "artifact_kind_as_str ArtBlob = ''blob''"

record artifact_ref =
  art_name :: string
  art_uri :: string
  art_digest :: string
  art_size_bytes :: "u64 option"
  art_content_type :: string
  art_kind :: artifact_kind
  art_schema_ref :: "string option"

definition is_ascii_hexdigit :: "char \<Rightarrow> bool" where
  "is_ascii_hexdigit c = (hex_value c \<noteq> None)"

definition is_ascii_uppercase :: "char \<Rightarrow> bool" where
  "is_ascii_uppercase c = (65 \<le> (of_char c :: nat) \<and> (of_char c :: nat) \<le> 90)"

definition has_digest :: "artifact_ref \<Rightarrow> bool" where
  "has_digest a =
     (length (art_digest a) = 64 \<and>
      list_all (\<lambda>byte. is_ascii_hexdigit byte \<and> \<not> is_ascii_uppercase byte) (art_digest a))"

datatype on_timeout = TimeoutFail | TimeoutSkip | TimeoutAnswer json

record pod_request =
  pod_template :: string
  pod_image :: string
  pod_cpu :: "string option"
  pod_memory :: "string option"

subsection \<open>Definitions and runtimes\<close>

datatype definition_kind = CurationPipeline | WorkflowKind | EvaluationKind

fun definition_kind_as_str :: "definition_kind \<Rightarrow> string" where
  "definition_kind_as_str CurationPipeline = ''curation_pipeline''"
| "definition_kind_as_str WorkflowKind = ''workflow''"
| "definition_kind_as_str EvaluationKind = ''evaluation''"

datatype query_engine = EngineFlow | EngineDataFusion | EngineDuckDb

datatype runtime_kind =
    KFlowPhp | KDataFusion | KDuckDb | KMarimo | KPublishDataset | KPythonTask | KContainerJob
  | KScoreEvaluation | KJudgeEvaluation | KExternalEvaluation | KEvaluationCases
  | KEvaluationTraces | KHumanInput

fun runtime_as_str :: "runtime_kind \<Rightarrow> string" where
  "runtime_as_str KFlowPhp = ''flow_php''"
| "runtime_as_str KDataFusion = ''datafusion''"
| "runtime_as_str KDuckDb = ''duckdb''"
| "runtime_as_str KMarimo = ''marimo''"
| "runtime_as_str KPublishDataset = ''publish_dataset''"
| "runtime_as_str KPythonTask = ''python_task''"
| "runtime_as_str KContainerJob = ''container_job''"
| "runtime_as_str KScoreEvaluation = ''score_evaluation''"
| "runtime_as_str KJudgeEvaluation = ''judge_evaluation''"
| "runtime_as_str KExternalEvaluation = ''external_evaluation''"
| "runtime_as_str KEvaluationCases = ''evaluation_cases''"
| "runtime_as_str KEvaluationTraces = ''evaluation_traces''"
| "runtime_as_str KHumanInput = ''human_input''"

fun is_pulled :: "runtime_kind \<Rightarrow> bool" where
  "is_pulled KPythonTask = True"
| "is_pulled KContainerJob = True"
| "is_pulled _ = False"

definition CLAIMED_BY_KEY :: "runtime_kind list" where
  "CLAIMED_BY_KEY = [KContainerJob]"

definition is_claimed_by_key :: "runtime_kind \<Rightarrow> bool" where
  "is_claimed_by_key k = (k \<in> set CLAIMED_BY_KEY)"

definition needs_another_process :: "runtime_kind \<Rightarrow> bool" where
  "needs_another_process k = is_pulled k"

fun is_cacheable :: "runtime_kind \<Rightarrow> bool" where
  "is_cacheable KFlowPhp = True"
| "is_cacheable KDataFusion = True"
| "is_cacheable KDuckDb = True"
| "is_cacheable KMarimo = True"
| "is_cacheable KPythonTask = True"
| "is_cacheable KContainerJob = True"
| "is_cacheable _ = False"

fun kind_query_engine :: "runtime_kind \<Rightarrow> query_engine option" where
  "kind_query_engine KFlowPhp = Some EngineFlow"
| "kind_query_engine KDataFusion = Some EngineDataFusion"
| "kind_query_engine KDuckDb = Some EngineDuckDb"
| "kind_query_engine _ = None"

text \<open>
  \<open>outside_a_project\<close>: the sentence a refusal gives, by the four reasons the code distinguishes;
  \<open>None\<close> is a kind a project may run.
\<close>

datatype outside_reason = ReadsDeploymentRoutes | NotebookOfDeployment | TokenNamesQueues
  | PublishesThroughInstance

fun outside_a_project :: "runtime_kind \<Rightarrow> outside_reason option" where
  "outside_a_project KFlowPhp = Some ReadsDeploymentRoutes"
| "outside_a_project KDataFusion = Some ReadsDeploymentRoutes"
| "outside_a_project KDuckDb = Some ReadsDeploymentRoutes"
| "outside_a_project KMarimo = Some NotebookOfDeployment"
| "outside_a_project KPythonTask = Some TokenNamesQueues"
| "outside_a_project KContainerJob = Some TokenNamesQueues"
| "outside_a_project KPublishDataset = Some PublishesThroughInstance"
| "outside_a_project _ = None"

record resolved_window =
  win_from :: int
  win_to :: int

record flow_source_ref =
  src_dataset :: string
  src_arguments :: "(string, string) btree"
  src_resolved_revision :: "string option"
  src_window :: "resolved_window option"
  src_cursor :: "string option"

record query_step_spec =
  q_script :: string
  q_source :: flow_source_ref
  q_blocks :: "string list"

record marimo_step_spec =
  ma_notebook :: string
  ma_code_revision :: string
  ma_params :: "(string, json) btree"
  ma_block :: "string option"

record score_evaluation_spec =
  sc_declaration :: string

record publish_dataset_spec =
  pd_dataset :: string
  pd_produced_by :: string
  pd_block :: "string option"

record python_task_spec =
  pt_task_ref :: string
  pt_queue :: string
  pt_params :: "(string, json) btree"

record container_job_spec =
  cj_task_ref :: string
  cj_queue :: string
  cj_params :: "(string, json) btree"
  cj_pod :: pod_request

record human_input_spec =
  hi_prompt :: string
  hi_role :: string
  hi_choices :: "string list"
  hi_block :: "string option"
  hi_timeout_seconds :: "u64 option"
  hi_on_timeout :: on_timeout

datatype runtime_binding =
    FlowPhp query_step_spec
  | DataFusion query_step_spec
  | DuckDb query_step_spec
  | Marimo marimo_step_spec
  | PublishDataset publish_dataset_spec
  | PythonTask python_task_spec
  | ContainerJob container_job_spec
  | ScoreEvaluation score_evaluation_spec
  | JudgeEvaluation score_evaluation_spec
  | ExternalEvaluation score_evaluation_spec
  | EvaluationCases score_evaluation_spec
  | EvaluationTraces score_evaluation_spec
  | HumanInput human_input_spec

fun binding_kind :: "runtime_binding \<Rightarrow> runtime_kind" where
  "binding_kind (FlowPhp _) = KFlowPhp"
| "binding_kind (DataFusion _) = KDataFusion"
| "binding_kind (DuckDb _) = KDuckDb"
| "binding_kind (Marimo _) = KMarimo"
| "binding_kind (PublishDataset _) = KPublishDataset"
| "binding_kind (ScoreEvaluation _) = KScoreEvaluation"
| "binding_kind (JudgeEvaluation _) = KJudgeEvaluation"
| "binding_kind (ExternalEvaluation _) = KExternalEvaluation"
| "binding_kind (EvaluationCases _) = KEvaluationCases"
| "binding_kind (EvaluationTraces _) = KEvaluationTraces"
| "binding_kind (PythonTask _) = KPythonTask"
| "binding_kind (ContainerJob _) = KContainerJob"
| "binding_kind (HumanInput _) = KHumanInput"

definition option_list :: "'a option \<Rightarrow> 'a list option" where
  "option_list x = map_option (\<lambda>a. [a]) x"

fun binding_blocks :: "runtime_binding \<Rightarrow> string list option" where
  "binding_blocks (FlowPhp spec) = Some (q_blocks spec)"
| "binding_blocks (DataFusion spec) = Some (q_blocks spec)"
| "binding_blocks (DuckDb spec) = Some (q_blocks spec)"
| "binding_blocks (Marimo spec) = option_list (ma_block spec)"
| "binding_blocks (PublishDataset spec) = option_list (pd_block spec)"
| "binding_blocks (HumanInput spec) = option_list (hi_block spec)"
| "binding_blocks _ = None"

fun binding_query :: "runtime_binding \<Rightarrow> (query_engine \<times> query_step_spec) option" where
  "binding_query (FlowPhp spec) = Some (EngineFlow, spec)"
| "binding_query (DataFusion spec) = Some (EngineDataFusion, spec)"
| "binding_query (DuckDb spec) = Some (EngineDuckDb, spec)"
| "binding_query _ = None"

subsection \<open>Steps and retry budgets\<close>

datatype input_binding = FromStep string string | FromParameter string

record output_declaration =
  out_name :: string
  out_kind :: artifact_kind
  out_schema_ref :: "string option"

record retry_policy =
  max_attempts :: u32
  max_unavailable_attempts :: u32
  delays_seconds :: "u64 list"
  delays_seconds_unavailable :: "u64 list"

definition default_unavailable_attempts :: u32 where "default_unavailable_attempts = 10"
definition default_unavailable_delays :: "u64 list" where
  "default_unavailable_delays = [5, 15, 30, 60]"

definition retry_default :: retry_policy where
  "retry_default =
     \<lparr>max_attempts = MAX_ATTEMPTS,
      max_unavailable_attempts = default_unavailable_attempts,
      delays_seconds = [1, 5, 30],
      delays_seconds_unavailable = default_unavailable_delays\<rparr>"

definition retry_once :: retry_policy where
  "retry_once =
     \<lparr>max_attempts = 1, max_unavailable_attempts = 1,
      delays_seconds = [], delays_seconds_unavailable = []\<rparr>"

text \<open>The delay in whole seconds, as the \<open>u64\<close> \<open>Duration::from_secs\<close> is given.\<close>

definition delay_before :: "retry_policy \<Rightarrow> u32 \<Rightarrow> bool \<Rightarrow> u64" where
  "delay_before policy attempt unavailable =
     (let delays = (if unavailable then delays_seconds_unavailable policy
                    else delays_seconds policy)
      in if attempt < 2 then 0
         else let index = unat (attempt - 2)
              in if index < length delays then delays ! index
                 else if delays = [] then 0 else last delays)"

datatype cache_policy = CacheNever | CacheByContent

record plan_step =
  ps_id :: string
  ps_runtime :: runtime_binding
  ps_inputs :: "input_binding list"
  ps_outputs :: "output_declaration list"
  ps_retry :: retry_policy
  ps_timeout_seconds :: u64
  ps_cache :: cache_policy

subsection \<open>The plan\<close>

datatype plan_edge = PlanEdge (edge_from: string) (edge_to: string)

instantiation plan_edge :: linorder
begin

definition less_eq_plan_edge :: "plan_edge \<Rightarrow> plan_edge \<Rightarrow> bool" where
  "less_eq_plan_edge a b \<longleftrightarrow>
     edge_from a < edge_from b \<or> (edge_from a = edge_from b \<and> edge_to a \<le> edge_to b)"

definition less_plan_edge :: "plan_edge \<Rightarrow> plan_edge \<Rightarrow> bool" where
  "less_plan_edge a b \<longleftrightarrow> a \<le> b \<and> \<not> b \<le> a"

instance
  by standard (auto simp: less_eq_plan_edge_def less_plan_edge_def plan_edge.expand)

end

record execution_plan =
  plan_id :: string
  plan_kind :: definition_kind
  plan_name :: string
  plan_revision :: string
  plan_steps :: "plan_step list"
  plan_edges :: "plan_edge list"

text \<open>\<open>Vec::dedup\<close>: consecutive equal elements are merged.\<close>

fun dedup :: "'a list \<Rightarrow> 'a list" where
  "dedup [] = []"
| "dedup [x] = [x]"
| "dedup (x # y # zs) = (if x = y then dedup (y # zs) else x # dedup (y # zs))"

text \<open>
  \<open>ExecutionPlan::seal\<close>. \<open>plan_json\<close> is the serialisation serde derives for the plan; only that
  it is a function of the plan with an empty address matters to the lemmas.
\<close>

definition seal ::
  "crates \<Rightarrow> (execution_plan \<Rightarrow> json) \<Rightarrow> definition_kind \<Rightarrow> string \<Rightarrow> string \<Rightarrow>
   plan_step list \<Rightarrow> plan_edge list \<Rightarrow> execution_plan" where
  "seal C plan_json kind name revision steps edges =
     (let plan = \<lparr>plan_id = [], plan_kind = kind, plan_name = name, plan_revision = revision,
                  plan_steps = steps, plan_edges = dedup (sort edges)\<rparr>
      in plan\<lparr>plan_id := digest C (canonical C (plan_json plan))\<rparr>)"

definition plan_step_of :: "execution_plan \<Rightarrow> string \<Rightarrow> plan_step option" where
  "plan_step_of plan i = List.find (\<lambda>step. ps_id step = i) (plan_steps plan)"

definition parents_of :: "execution_plan \<Rightarrow> string \<Rightarrow> string list" where
  "parents_of plan i = map edge_from (filter (\<lambda>edge. edge_to edge = i) (plan_edges plan))"

definition children_of :: "execution_plan \<Rightarrow> string \<Rightarrow> string list" where
  "children_of plan i = map edge_to (filter (\<lambda>edge. edge_from edge = i) (plan_edges plan))"

definition step_for_block :: "execution_plan \<Rightarrow> string \<Rightarrow> plan_step option" where
  "step_for_block plan block =
     List.find (\<lambda>step. case binding_blocks (ps_runtime step) of
                         Some blocks \<Rightarrow> block \<in> set blocks
                       | None \<Rightarrow> ps_id step = block) (plan_steps plan)"

record step_blocks =
  sb_step_id :: string
  sb_runtime :: runtime_kind
  sb_blocks :: "string list"

definition blocks_by_step :: "execution_plan \<Rightarrow> step_blocks list" where
  "blocks_by_step plan =
     map (\<lambda>step. \<lparr>sb_step_id = ps_id step, sb_runtime = binding_kind (ps_runtime step),
                  sb_blocks = (case binding_blocks (ps_runtime step) of None \<Rightarrow> [] | Some b \<Rightarrow> b)\<rparr>)
         (plan_steps plan)"

definition steps_needing_another_process :: "execution_plan \<Rightarrow> string list" where
  "steps_needing_another_process plan =
     map ps_id (filter (\<lambda>step. needs_another_process (binding_kind (ps_runtime step)))
                       (plan_steps plan))"

text \<open>
  The loop of \<open>is_acyclic\<close> on the set of the steps not yet removed, kept as a list: a round
  removes every step none of whose parents is still there, and the loop ends when a round
  removes nothing.
\<close>

function acyclic_loop :: "execution_plan \<Rightarrow> string list \<Rightarrow> bool" where
  "acyclic_loop plan remaining =
     (let ready = filter (\<lambda>i. list_all (\<lambda>parent. parent \<notin> set remaining) (parents_of plan i))
                         remaining
      in if ready = [] then remaining = []
         else acyclic_loop plan (filter (\<lambda>i. i \<notin> set ready) remaining))"
  by pat_completeness auto
termination
proof (relation "measure (\<lambda>(plan, remaining). length remaining)", goal_cases)
  case 1
  show ?case by simp
next
  case (2 plan remaining ready)
  then have "ready \<noteq> []" by simp
  then have "hd ready \<in> set ready" by (rule hd_in_set)
  then obtain x where "x \<in> set ready" ..
  with 2 have "x \<in> set remaining" by auto
  with \<open>x \<in> set ready\<close> have "length (filter (\<lambda>i. i \<notin> set ready) remaining) < length remaining"
    by (intro length_filter_less) auto
  then show ?case by simp
qed

declare acyclic_loop.simps [simp del]

definition is_acyclic :: "execution_plan \<Rightarrow> bool" where
  "is_acyclic plan = acyclic_loop plan (bt_keys (bt_collect (map (\<lambda>s. (ps_id s, ())) (plan_steps plan))))"

subsection \<open>Kahn's loop decides acyclicity\<close>

definition edge_rel :: "execution_plan \<Rightarrow> string set \<Rightarrow> (string \<times> string) set" where
  "edge_rel plan S =
     {(edge_from e, edge_to e) | e. e \<in> set (plan_edges plan) \<and> edge_from e \<in> S \<and> edge_to e \<in> S}"

lemma parents_of_iff: "p \<in> set (parents_of plan i) \<longleftrightarrow> PlanEdge p i \<in> set (plan_edges plan)"
  unfolding parents_of_def by (auto simp: image_iff)

lemma children_of_iff: "c \<in> set (children_of plan i) \<longleftrightarrow> PlanEdge i c \<in> set (plan_edges plan)"
  unfolding children_of_def by (auto simp: image_iff)

lemma edge_rel_iff:
  "(a, b) \<in> edge_rel plan S \<longleftrightarrow> PlanEdge a b \<in> set (plan_edges plan) \<and> a \<in> S \<and> b \<in> S"
proof
  assume "(a, b) \<in> edge_rel plan S"
  then show "PlanEdge a b \<in> set (plan_edges plan) \<and> a \<in> S \<and> b \<in> S"
    by (auto simp: edge_rel_def)
next
  assume "PlanEdge a b \<in> set (plan_edges plan) \<and> a \<in> S \<and> b \<in> S"
  then show "(a, b) \<in> edge_rel plan S"
    unfolding edge_rel_def by (intro CollectI exI [of _ "PlanEdge a b"]) simp
qed

lemma edge_rel_mono: "S \<subseteq> T \<Longrightarrow> edge_rel plan S \<subseteq> edge_rel plan T"
  by (auto simp: edge_rel_def)

lemma finite_edge_rel: "finite (edge_rel plan S)"
proof (rule finite_subset)
  show "edge_rel plan S \<subseteq> (\<lambda>e. (edge_from e, edge_to e)) ` set (plan_edges plan)"
    by (auto simp: edge_rel_def)
qed simp

lemma no_root_cyclic:
  assumes "x \<in> S" and "\<forall>i \<in> S. \<exists>p \<in> S. PlanEdge p i \<in> set (plan_edges plan)"
  shows "\<not> acyclic (edge_rel plan S)"
proof
  assume "acyclic (edge_rel plan S)"
  then have "wf (edge_rel plan S)" using finite_edge_rel by (rule finite_acyclic_wf [rotated])
  from wfE_min [OF this assms(1)] obtain z
    where "z \<in> S" and min: "\<And>y. (y, z) \<in> edge_rel plan S \<Longrightarrow> y \<notin> S" by blast
  from assms(2) \<open>z \<in> S\<close> obtain p where "p \<in> S" "PlanEdge p z \<in> set (plan_edges plan)" by blast
  with \<open>z \<in> S\<close> min [of p] show False by (simp add: edge_rel_iff)
qed

lemma roots_removed_acyclic:
  assumes "\<forall>i \<in> D. \<forall>p. PlanEdge p i \<in> set (plan_edges plan) \<longrightarrow> p \<notin> S"
  shows "acyclic (edge_rel plan S) \<longleftrightarrow> acyclic (edge_rel plan (S - D))"
proof
  assume "acyclic (edge_rel plan S)"
  then show "acyclic (edge_rel plan (S - D))"
    by (rule acyclic_subset) (rule edge_rel_mono, blast)
next
  assume small: "acyclic (edge_rel plan (S - D))"
  have keep: "(a, b) \<in> (edge_rel plan S)\<^sup>+ \<Longrightarrow>
      b \<notin> D \<and> (a \<notin> D \<longrightarrow> (a, b) \<in> (edge_rel plan (S - D))\<^sup>+)" for a b
  proof (induction rule: trancl_induct)
    case (base y)
    then have "y \<notin> D" using assms by (auto simp: edge_rel_iff)
    with base show ?case by (auto simp: edge_rel_iff intro!: r_into_trancl)
  next
    case (step y z)
    then have "z \<notin> D" using assms by (auto simp: edge_rel_iff)
    with step have "(y, z) \<in> edge_rel plan (S - D)" by (auto simp: edge_rel_iff)
    with step \<open>z \<notin> D\<close> show ?case by (blast intro: trancl_into_trancl)
  qed
  show "acyclic (edge_rel plan S)"
  proof (rule acyclicI, rule allI, rule notI)
    fix x
    assume "(x, x) \<in> (edge_rel plan S)\<^sup>+"
    with keep [of x x] have "(x, x) \<in> (edge_rel plan (S - D))\<^sup>+" by blast
    with small show False by (auto simp: acyclic_def)
  qed
qed

lemma acyclic_loop_correct: "acyclic_loop plan remaining \<longleftrightarrow> acyclic (edge_rel plan (set remaining))"
proof (induction plan remaining rule: acyclic_loop.induct)
  case (1 plan remaining)
  define ready where "ready = filter (\<lambda>i. list_all (\<lambda>parent. parent \<notin> set remaining) (parents_of plan i)) remaining"
  have ready_iff: "i \<in> set ready \<longleftrightarrow> i \<in> set remaining \<and>
      (\<forall>p. PlanEdge p i \<in> set (plan_edges plan) \<longrightarrow> p \<notin> set remaining)" for i
    by (auto simp: ready_def list_all_iff parents_of_iff)
  show ?case
  proof (cases "ready = []")
    case True
    then have stuck: "\<forall>i \<in> set remaining. \<exists>p \<in> set remaining. PlanEdge p i \<in> set (plan_edges plan)"
      using ready_iff by auto
    have "remaining = [] \<longleftrightarrow> acyclic (edge_rel plan (set remaining))"
    proof
      assume "remaining = []"
      then show "acyclic (edge_rel plan (set remaining))" by (simp add: edge_rel_def acyclic_def)
    next
      assume "acyclic (edge_rel plan (set remaining))"
      then show "remaining = []" using no_root_cyclic [OF _ stuck] by (cases remaining) auto
    qed
    with True show ?thesis by (simp add: acyclic_loop.simps [of plan remaining] flip: ready_def)
  next
    case False
    let ?rest = "filter (\<lambda>i. i \<notin> set ready) remaining"
    have "acyclic_loop plan remaining = acyclic_loop plan ?rest"
      using False by (simp add: acyclic_loop.simps [of plan remaining] flip: ready_def)
    also have "\<dots> = acyclic (edge_rel plan (set ?rest))"
      using "1" [of ready] False by (simp add: ready_def)
    also have "set ?rest = set remaining - set ready" by auto
    also have "acyclic (edge_rel plan (set remaining - set ready)) = acyclic (edge_rel plan (set remaining))"
      by (rule roots_removed_acyclic [symmetric]) (simp add: ready_iff)
    finally show ?thesis .
  qed
qed

lemma set_step_ids:
  "set (bt_keys (bt_collect (map (\<lambda>s. (ps_id s, ())) (plan_steps plan)))) = ps_id ` set (plan_steps plan)"
  by (simp add: bt_keys_def image_image)

subsection \<open>Sealing\<close>

lemma set_dedup [simp]: "set (dedup xs) = set xs"
  by (induction xs rule: dedup.induct) auto

lemma sorted_dedup: "sorted xs \<Longrightarrow> sorted_wrt (<) (dedup xs)"
proof (induction xs rule: dedup.induct)
  case (3 x y zs)
  then show ?case by (auto simp: less_le)
qed simp_all

lemma dedup_sort_set_eq: "set xs = set ys \<Longrightarrow> dedup (sort xs) = dedup (sort ys)"
  for xs ys :: "'a::linorder list"
  by (rule strict_sorted_equal) (simp_all add: sorted_dedup)

lemma seal_edges: "plan_edges (seal C j kind name revision steps edges) = dedup (sort edges)"
  by (simp add: seal_def Let_def)

subsection \<open>Properties\<close>

text \<open>\<open>is_acyclic\<close> accepts a plan exactly when the edges between the plan's own steps form no
  cycle; an edge naming a step the plan does not have constrains nothing.\<close>

theorem is_acyclic_iff:
  "is_acyclic plan \<longleftrightarrow> acyclic (edge_rel plan (ps_id ` set (plan_steps plan)))"
  by (simp only: is_acyclic_def acyclic_loop_correct set_step_ids)

text \<open>The address of a plan does not depend on the order in which its edges were written or
  on writing one twice, and its sealed edges are strictly increasing.\<close>

theorem seal_edge_order_irrelevant:
  assumes "set edges = set edges'"
  shows "seal C j kind name revision steps edges = seal C j kind name revision steps edges' \<and>
         sorted_wrt (<) (plan_edges (seal C j kind name revision steps edges))"
  using dedup_sort_set_eq [OF assms] by (simp add: seal_def Let_def sorted_dedup)

theorem seal_edge_order_irrelevant_witness:
  "plan_edges (seal \<lparr>sha256 = as_bytes, json_text = (\<lambda>_. ''{}'')\<rparr> (\<lambda>_. JNull) WorkflowKind
      ''import'' ''ab'' [] [PlanEdge ''b'' ''c'', PlanEdge ''a'' ''b'', PlanEdge ''b'' ''c''])
   = [PlanEdge ''a'' ''b'', PlanEdge ''b'' ''c'']"
proof -
  have "set [PlanEdge ''b'' ''c'', PlanEdge ''a'' ''b'', PlanEdge ''b'' ''c'']
      = set [PlanEdge ''a'' ''b'', PlanEdge ''b'' ''c'']" by auto
  from seal_edge_order_irrelevant [OF this, of "\<lparr>sha256 = as_bytes, json_text = (\<lambda>_. ''{}'')\<rparr>"
      "\<lambda>_. JNull" WorkflowKind "''import''" "''ab''" "[]"]
  have "plan_edges (seal \<lparr>sha256 = as_bytes, json_text = (\<lambda>_. ''{}'')\<rparr> (\<lambda>_. JNull) WorkflowKind
      ''import'' ''ab'' [] [PlanEdge ''b'' ''c'', PlanEdge ''a'' ''b'', PlanEdge ''b'' ''c''])
    = plan_edges (seal \<lparr>sha256 = as_bytes, json_text = (\<lambda>_. ''{}'')\<rparr> (\<lambda>_. JNull) WorkflowKind
      ''import'' ''ab'' [] [PlanEdge ''a'' ''b'', PlanEdge ''b'' ''c''])"
    by simp
  also have "\<dots> = [PlanEdge ''a'' ''b'', PlanEdge ''b'' ''c'']"
    by (simp add: seal_edges less_eq_plan_edge_def)
  finally show ?thesis .
qed

end
