(* ===== verification/State.thy ===== *)
theory State
  imports Plan
begin

text \<open>
  Where an execution is and where each of its steps is: \<open>state.rs\<close>, with the payload policy of
  \<open>message.rs\<close> that an execution records. A run's \<open>steps\<close> map is a \<open>BTreeMap\<close>, so it is kept in
  the order of the step ids.
\<close>

datatype state_type = Scheduled | Pending | Running | AwaitingInput | Completed | Failed | Crashed
  | Cancelled | Paused

fun state_as_str :: "state_type \<Rightarrow> string" where
  "state_as_str Scheduled = ''scheduled''"
| "state_as_str Pending = ''pending''"
| "state_as_str Running = ''running''"
| "state_as_str AwaitingInput = ''awaiting_input''"
| "state_as_str Completed = ''completed''"
| "state_as_str Failed = ''failed''"
| "state_as_str Crashed = ''crashed''"
| "state_as_str Cancelled = ''cancelled''"
| "state_as_str Paused = ''paused''"

definition is_terminal :: "state_type \<Rightarrow> bool" where
  "is_terminal s = (case s of Completed \<Rightarrow> True | Failed \<Rightarrow> True | Crashed \<Rightarrow> True
                    | Cancelled \<Rightarrow> True | _ \<Rightarrow> False)"

definition TERMINAL :: "state_type list" where
  "TERMINAL = [Completed, Failed, Crashed, Cancelled]"

record run_state =
  state_type :: state_type
  state_name :: string

definition state_of :: "state_type \<Rightarrow> run_state" where
  "state_of t = \<lparr>state_type = t, state_name = []\<rparr>"

definition state_named :: "state_type \<Rightarrow> string \<Rightarrow> run_state" where
  "state_named t name = \<lparr>state_type = t, state_name = name\<rparr>"

definition CANCELLING :: string where "CANCELLING = ''Cancelling''"

definition state_cancelling :: run_state where
  "state_cancelling = state_named Running CANCELLING"

definition is_cancelling :: "run_state \<Rightarrow> bool" where
  "is_cancelling s = (state_type s = Running \<and> state_name s = CANCELLING)"

definition state_label :: "run_state \<Rightarrow> string" where
  "state_label s = (if state_name s = [] then state_as_str (state_type s) else state_name s)"

datatype execution_owner = OwnerLocal | OwnerWorker | OwnerUnknown string

fun owner_as_string :: "execution_owner \<Rightarrow> string" where
  "owner_as_string OwnerLocal = ''local''"
| "owner_as_string OwnerWorker = ''worker''"
| "owner_as_string (OwnerUnknown text) = text"

definition owner_parse :: "string \<Rightarrow> execution_owner" where
  "owner_parse value =
     (if value = ''local'' then OwnerLocal
      else if value = ''worker'' then OwnerWorker
      else OwnerUnknown value)"

datatype execution_mode = Compiled | Hosted

datatype payload_policy = External | Sealed

fun payload_as_str :: "payload_policy \<Rightarrow> string" where
  "payload_as_str External = ''external''"
| "payload_as_str Sealed = ''sealed''"

definition needs_archive :: "payload_policy \<Rightarrow> bool" where
  "needs_archive p = (p = Sealed)"

subsection \<open>Failures\<close>

datatype failure_class = FValidation | FUserCode | FTransient | FTimeout | FInfrastructure | FPolicy

fun failure_as_str :: "failure_class \<Rightarrow> string" where
  "failure_as_str FValidation = ''validation''"
| "failure_as_str FUserCode = ''user_code''"
| "failure_as_str FTransient = ''transient''"
| "failure_as_str FTimeout = ''timeout''"
| "failure_as_str FInfrastructure = ''infrastructure''"
| "failure_as_str FPolicy = ''policy''"

definition is_retryable :: "failure_class \<Rightarrow> bool" where
  "is_retryable c = (case c of FTransient \<Rightarrow> True | FTimeout \<Rightarrow> True | FInfrastructure \<Rightarrow> True
                     | _ \<Rightarrow> False)"

definition may_have_run :: "failure_class \<Rightarrow> bool" where
  "may_have_run c = (c \<noteq> FTransient)"

definition failed_state :: "failure_class \<Rightarrow> state_type" where
  "failed_state c = (if c = FInfrastructure then Crashed else Failed)"

record step_error =
  err_class :: failure_class
  err_message :: string

subsection \<open>Steps and attempts\<close>

record input_request =
  rq_prompt :: string
  rq_role :: string
  rq_choices :: "string list"
  rq_deadline :: "instant option"
  rq_on_timeout :: "on_timeout option"

record input_answer =
  an_attempt :: u32
  an_answered_by :: string
  an_response :: json

record attempt_record =
  at_attempt :: u32
  at_state :: run_state
  at_error :: "step_error option"
  at_not_before :: "instant option"

record step_state =
  ss_step_id :: string
  ss_runtime :: runtime_kind
  ss_state :: run_state
  ss_current_attempt :: u32
  ss_attempts :: "attempt_record list"
  ss_outputs :: "artifact_ref list"
  ss_awaiting :: "input_request option"
  ss_answers :: "input_answer list"
  ss_cache_key :: "string option"

definition step_fresh :: "string \<Rightarrow> runtime_kind \<Rightarrow> step_state" where
  "step_fresh i runtime =
     \<lparr>ss_step_id = i, ss_runtime = runtime, ss_state = state_of Scheduled,
      ss_current_attempt = 0, ss_attempts = [], ss_outputs = [], ss_awaiting = None,
      ss_answers = [], ss_cache_key = None\<rparr>"

text \<open>The update \<open>iter_mut().find(|r| r.attempt == attempt)\<close>: the first record of that number.\<close>

fun update_attempt ::
  "u32 \<Rightarrow> (attempt_record \<Rightarrow> attempt_record) \<Rightarrow> attempt_record list \<Rightarrow> attempt_record list" where
  "update_attempt n f [] = []"
| "update_attempt n f (r # rs) = (if at_attempt r = n then f r # rs else r # update_attempt n f rs)"

definition step_attempt :: "step_state \<Rightarrow> u32 \<Rightarrow> attempt_record option" where
  "step_attempt s n = List.find (\<lambda>r. at_attempt r = n) (ss_attempts s)"

subsection \<open>Executions\<close>

record execution =
  ex_id :: string
  ex_plan :: execution_plan
  ex_owner :: execution_owner
  ex_mode :: execution_mode
  ex_payloads :: payload_policy
  ex_requested_by :: string
  ex_input :: "(string, json) btree"
  ex_state :: run_state
  ex_steps :: "(string, step_state) btree"
  ex_cancelling :: bool
  ex_created_at :: instant

datatype execution_state = Empty | Active execution

fun active :: "execution_state \<Rightarrow> execution option" where
  "active Empty = None"
| "active (Active e) = Some e"

definition ex_step :: "execution \<Rightarrow> string \<Rightarrow> step_state option" where
  "ex_step e i = bt_get (ex_steps e) i"

text \<open>\<open>step_mut\<close> and an update of what it returns.\<close>

definition ex_step_mut :: "string \<Rightarrow> (step_state \<Rightarrow> step_state) \<Rightarrow> execution \<Rightarrow> execution" where
  "ex_step_mut i f e = e\<lparr>ex_steps := bt_modify i f (ex_steps e)\<rparr>"

definition set_attempt_state :: "string \<Rightarrow> u32 \<Rightarrow> run_state \<Rightarrow> execution \<Rightarrow> execution" where
  "set_attempt_state i n st =
     ex_step_mut i (\<lambda>s. s\<lparr>ss_attempts := update_attempt n (\<lambda>r. r\<lparr>at_state := st\<rparr>) (ss_attempts s)\<rparr>)"

definition resolved_inputs :: "execution \<Rightarrow> string \<Rightarrow> artifact_ref list" where
  "resolved_inputs e i =
     (case plan_step_of (ex_plan e) i of
        None \<Rightarrow> []
      | Some step \<Rightarrow>
          List.map_filter
            (\<lambda>binding. case binding of
               FromStep parent output \<Rightarrow>
                 (case ex_step e parent of
                    None \<Rightarrow> None
                  | Some produced \<Rightarrow> List.find (\<lambda>a. art_name a = output) (ss_outputs produced))
             | FromParameter _ \<Rightarrow> None)
            (ps_inputs step))"

definition is_settled :: "execution \<Rightarrow> bool" where
  "is_settled e = list_all (\<lambda>s. is_terminal (state_type (ss_state s))) (bt_values (ex_steps e))"

definition has_failure :: "execution \<Rightarrow> bool" where
  "has_failure e =
     list_ex (\<lambda>s. state_type (ss_state s) \<in> {Failed, Crashed}) (bt_values (ex_steps e))"

subsection \<open>Lemmas\<close>

lemma is_terminal_iff: "is_terminal s \<longleftrightarrow> s \<in> set TERMINAL"
  by (cases s) (simp_all add: is_terminal_def TERMINAL_def)

lemma is_terminal_simps [simp]:
  "\<not> is_terminal Scheduled" "\<not> is_terminal Pending" "\<not> is_terminal Running"
  "\<not> is_terminal AwaitingInput" "\<not> is_terminal Paused"
  "is_terminal Completed" "is_terminal Failed" "is_terminal Crashed" "is_terminal Cancelled"
  by (simp_all add: is_terminal_def)

lemma state_of_simps [simp]: "state_type (state_of t) = t" "state_name (state_of t) = []"
  by (simp_all add: state_of_def)

lemma state_named_simps [simp]:
  "state_type (state_named t n) = t" "state_name (state_named t n) = n"
  by (simp_all add: state_named_def)

lemma state_cancelling_simps [simp]: "state_type state_cancelling = Running"
  by (simp add: state_cancelling_def)

lemma failed_state_terminal [simp]: "is_terminal (failed_state c)"
  by (simp add: failed_state_def)

lemma failed_state_not_completed [simp]:
  "failed_state c \<noteq> Completed" "failed_state c \<noteq> Scheduled" "failed_state c \<noteq> Pending"
  by (simp_all add: failed_state_def)

lemma owner_parse_as_string: "owner_parse (owner_as_string (owner_parse t)) = owner_parse t"
  by (simp add: owner_parse_def)

lemma update_attempt_numbers [simp]:
  "(\<And>r. at_attempt (f r) = at_attempt r) \<Longrightarrow>
     map at_attempt (update_attempt n f rs) = map at_attempt rs"
  by (induction rs) auto

lemma length_update_attempt [simp]: "length (update_attempt n f rs) = length rs"
  by (induction rs) auto

lemma ex_step_mut_get [simp]:
  "ex_step (ex_step_mut i f e) j = (if j = i then map_option f (ex_step e i) else ex_step e j)"
  by (simp add: ex_step_def ex_step_mut_def)

lemma ex_step_mut_frame [simp]:
  "ex_plan (ex_step_mut i f e) = ex_plan e" "ex_id (ex_step_mut i f e) = ex_id e"
  "ex_mode (ex_step_mut i f e) = ex_mode e" "ex_state (ex_step_mut i f e) = ex_state e"
  "ex_cancelling (ex_step_mut i f e) = ex_cancelling e" "ex_owner (ex_step_mut i f e) = ex_owner e"
  "ex_payloads (ex_step_mut i f e) = ex_payloads e" "ex_input (ex_step_mut i f e) = ex_input e"
  "ex_requested_by (ex_step_mut i f e) = ex_requested_by e"
  "ex_created_at (ex_step_mut i f e) = ex_created_at e"
  "map fst (ex_steps (ex_step_mut i f e)) = map fst (ex_steps e)"
  by (simp_all add: ex_step_mut_def)

text \<open>An owner written by any build reads back as it was written: parsing is inverted by the
  text form, and the text form by parsing unless an unknown owner carries a known name.\<close>

theorem owner_text_roundtrip:
  "owner_as_string (owner_parse t) = t \<and>
   (owner_parse (owner_as_string w) = w) = (w \<notin> {OwnerUnknown ''local'', OwnerUnknown ''worker''})"
  by (cases w) (auto simp: owner_parse_def)

end
