(* ===== verification/Message.thy ===== *)
theory Message
  imports State
begin

text \<open>
  The commands, events and hosted messages of \<open>message.rs\<close>, their metadata and direction, and
  the records a decision writes beside them. A command may be refused, an event has happened,
  and a hosted message is neither: \<open>message_event\<close> and \<open>message_command\<close> are both \<open>None\<close> on it.
\<close>

definition SCHEMA_VERSION :: u16 where "SCHEMA_VERSION = 1"
definition MAX_PAYLOAD_BYTES :: nat where "MAX_PAYLOAD_BYTES = 256 * 1024"

record message_metadata =
  md_schema_version :: u16
  md_message_id :: string
  md_occurred_at :: instant
  md_correlation_id :: string
  md_causation_id :: string
  md_trace_id :: "trace_id option"
  md_span_id :: "span_id option"
  md_step_id :: "string option"
  md_attempt :: "u32 option"

definition caused_by :: "string \<Rightarrow> string \<Rightarrow> string \<Rightarrow> instant \<Rightarrow> message_metadata" where
  "caused_by execution cause message_id occurred_at =
     \<lparr>md_schema_version = SCHEMA_VERSION, md_message_id = message_id,
      md_occurred_at = occurred_at, md_correlation_id = execution, md_causation_id = cause,
      md_trace_id = None, md_span_id = None, md_step_id = None, md_attempt = None\<rparr>"

record start_request =
  st_execution_id :: string
  st_plan :: execution_plan
  st_owner :: execution_owner
  st_mode :: execution_mode
  st_payloads :: payload_policy
  st_requested_by :: string
  st_input :: "(string, json) btree"

datatype workflow_command =
    StartExecution start_request
  | RetryStep string
  | CancelExecution string
  | PauseExecution
  | ResumeExecution
  | ProvideInput string u32 string json
  | ExecuteStep string u32 runtime_kind string
  | RequestInput string u32
  | TimeoutInput string u32

fun command_name :: "workflow_command \<Rightarrow> string" where
  "command_name (StartExecution _) = ''start_execution''"
| "command_name (RetryStep _) = ''retry_step''"
| "command_name (CancelExecution _) = ''cancel_execution''"
| "command_name PauseExecution = ''pause_execution''"
| "command_name ResumeExecution = ''resume_execution''"
| "command_name (ProvideInput _ _ _ _) = ''provide_input''"
| "command_name (ExecuteStep _ _ _ _) = ''execute_step''"
| "command_name (RequestInput _ _) = ''request_input''"
| "command_name (TimeoutInput _ _) = ''timeout_input''"

fun is_effect :: "workflow_command \<Rightarrow> bool" where
  "is_effect (ExecuteStep _ _ _ _) = True"
| "is_effect (RequestInput _ _) = True"
| "is_effect (TimeoutInput _ _) = True"
| "is_effect _ = False"

text \<open>\<open>ExecutionRequested\<close> carries the same seven fields as \<open>StartExecution\<close>.\<close>

datatype workflow_event =
    ExecutionRequested start_request
  | ExecutionStarted
  | StepScheduled string u32 runtime_kind "string option"
  | StepRetryScheduled string u32 instant
  | StepStarted string u32
  | StepCompleted string u32 "artifact_ref list" "json option"
  | StepFailed string u32 step_error
  | StepCacheHit string u32 string "artifact_ref list"
  | StepSkipped string string
  | InputRequested string u32 input_request
  | InputProvided string u32 string json
  | ExecutionPaused
  | ExecutionResumed
  | ExecutionCancelling string
  | ExecutionCancelled
  | ExecutionCompleted
  | ExecutionFailed string

fun event_name :: "workflow_event \<Rightarrow> string" where
  "event_name (ExecutionRequested _) = ''execution_requested''"
| "event_name ExecutionStarted = ''execution_started''"
| "event_name (StepScheduled _ _ _ _) = ''step_scheduled''"
| "event_name (StepRetryScheduled _ _ _) = ''step_retry_scheduled''"
| "event_name (StepStarted _ _) = ''step_started''"
| "event_name (StepCompleted _ _ _ _) = ''step_completed''"
| "event_name (StepFailed _ _ _) = ''step_failed''"
| "event_name (StepCacheHit _ _ _ _) = ''step_cache_hit''"
| "event_name (StepSkipped _ _) = ''step_skipped''"
| "event_name (InputRequested _ _ _) = ''input_requested''"
| "event_name (InputProvided _ _ _ _) = ''input_provided''"
| "event_name ExecutionPaused = ''execution_paused''"
| "event_name ExecutionResumed = ''execution_resumed''"
| "event_name (ExecutionCancelling _) = ''execution_cancelling''"
| "event_name ExecutionCancelled = ''execution_cancelled''"
| "event_name ExecutionCompleted = ''execution_completed''"
| "event_name (ExecutionFailed _) = ''execution_failed''"

record payload_default =
  pd_policy :: payload_policy
  pd_locked :: bool

text \<open>The refusal is the sentence of the code, with the pinned policy in it.\<close>

definition payload_resolve :: "payload_default \<Rightarrow> payload_policy option \<Rightarrow> string + payload_policy" where
  "payload_resolve d asked =
     (case asked of
        None \<Rightarrow> Inr (pd_policy d)
      | Some p \<Rightarrow>
          if p = pd_policy d then Inr p
          else if pd_locked d then
            Inl (''this instance pins every hosted run to `'' @ payload_as_str (pd_policy d) @
                 ''` (AIWATCHER_EXECUTION_PAYLOADS_LOCKED=true)'')
          else Inr p)"

record payload_ref =
  pr_reference :: string
  pr_digest :: string
  pr_size :: nat
  pr_policy :: payload_policy

record hosted_message =
  hm_message_type :: string
  hm_metadata :: json
  hm_payload :: "payload_ref option"

datatype workflow_message =
    Command workflow_command
  | Event workflow_event
  | HostedMsg hosted_message

fun message_name :: "workflow_message \<Rightarrow> string" where
  "message_name (Command c) = command_name c"
| "message_name (Event e) = event_name e"
| "message_name (HostedMsg h) = hm_message_type h"

fun message_kind :: "workflow_message \<Rightarrow> string" where
  "message_kind (Command _) = ''command''"
| "message_kind (Event _) = ''event''"
| "message_kind (HostedMsg _) = ''hosted''"

fun message_event :: "workflow_message \<Rightarrow> workflow_event option" where
  "message_event (Event e) = Some e"
| "message_event _ = None"

fun message_command :: "workflow_message \<Rightarrow> workflow_command option" where
  "message_command (Command c) = Some c"
| "message_command _ = None"

datatype direction = Input | Output

record recorded_message =
  rm_stream_version :: nat
  rm_direction :: direction
  rm_message :: workflow_message
  rm_metadata :: message_metadata
  rm_recorded_at :: instant

record pending_message =
  pm_direction :: direction
  pm_message :: workflow_message
  pm_metadata :: message_metadata

definition pending_input :: "workflow_message \<Rightarrow> message_metadata \<Rightarrow> pending_message" where
  "pending_input m md = \<lparr>pm_direction = Input, pm_message = m, pm_metadata = md\<rparr>"

definition pending_output :: "workflow_message \<Rightarrow> message_metadata \<Rightarrow> pending_message" where
  "pending_output m md = \<lparr>pm_direction = Output, pm_message = m, pm_metadata = md\<rparr>"

text \<open>The events among a decision's messages, in order.\<close>

definition events_of :: "pending_message list \<Rightarrow> workflow_event list" where
  "events_of ms = List.map_filter (\<lambda>m. message_event (pm_message m)) ms"

definition commands_of :: "pending_message list \<Rightarrow> workflow_command list" where
  "commands_of ms = List.map_filter (\<lambda>m. message_command (pm_message m)) ms"

record outbox_message =
  ob_message_id :: string
  ob_event_type :: string
  ob_partition_key :: string
  ob_payload :: json
  ob_available_at :: instant
  ob_attempts :: u32
  ob_published_at :: "instant option"
  ob_last_error :: "string option"

record run_projection =
  rp_execution_id :: string
  rp_plan_id :: string
  rp_definition_name :: string
  rp_owner :: execution_owner
  rp_mode :: execution_mode
  rp_payloads :: payload_policy
  rp_state :: run_state
  rp_requested_by :: string
  rp_steps :: "step_state list"
  rp_last_message_version :: nat
  rp_created_at :: instant

lemma events_of_simps [simp]:
  "events_of [] = []"
  "events_of (a @ b) = events_of a @ events_of b"
  "events_of (m # ms) =
     (case message_event (pm_message m) of None \<Rightarrow> events_of ms | Some e \<Rightarrow> e # events_of ms)"
  by (simp_all add: events_of_def map_filter_def split: option.splits)

lemma commands_of_simps [simp]:
  "commands_of [] = []"
  "commands_of (a @ b) = commands_of a @ commands_of b"
  "commands_of (m # ms) =
     (case message_command (pm_message m) of None \<Rightarrow> commands_of ms | Some c \<Rightarrow> c # commands_of ms)"
  by (simp_all add: commands_of_def map_filter_def split: option.splits)

text \<open>A run that asks for a payload policy gets that policy or a refusal, never another one;
  it is refused exactly when the deployment locked a different choice.\<close>

theorem payload_never_downgraded:
  "(\<exists>e. payload_resolve d (Some p) = Inl e) = (pd_locked d \<and> p \<noteq> pd_policy d) \<and>
   (\<forall>q. payload_resolve d (Some p) = Inr q \<longrightarrow> q = p) \<and>
   payload_resolve d None = Inr (pd_policy d)"
  by (auto simp: payload_resolve_def)

theorem payload_never_downgraded_witness:
  "payload_resolve \<lparr>pd_policy = Sealed, pd_locked = False\<rparr> (Some External) = Inr External \<and>
   (\<exists>e. payload_resolve \<lparr>pd_policy = Sealed, pd_locked = True\<rparr> (Some External) = Inl e)"
  using payload_never_downgraded [of "\<lparr>pd_policy = Sealed, pd_locked = True\<rparr>" External]
    payload_never_downgraded [of "\<lparr>pd_policy = Sealed, pd_locked = False\<rparr>" External]
  by (simp add: payload_resolve_def)

end
