(* ===== verification/Strings.thy ===== *)
theory Strings
  imports Plan
begin

text \<open>
  What the checks of the program read of a text. A Rust string is a list of its UTF-8 bytes:
  \<open>len()\<close> counts them, a predicate on ASCII bytes is one on bytes, and the functions that read
  characters (\<open>trim\<close>, \<open>char::is_control\<close>) go through \<open>utf8_chars\<close>. The lemmas say that reading
  characters loses nothing and that trimming twice is trimming once.
\<close>

subsection \<open>Bytes\<close>

definition is_ascii_lowercase :: "char \<Rightarrow> bool" where
  "is_ascii_lowercase c = (97 \<le> (of_char c :: nat) \<and> (of_char c :: nat) \<le> 122)"

definition is_ascii_digit :: "char \<Rightarrow> bool" where
  "is_ascii_digit c = (48 \<le> (of_char c :: nat) \<and> (of_char c :: nat) \<le> 57)"

definition is_ascii_alphanumeric :: "char \<Rightarrow> bool" where
  "is_ascii_alphanumeric c = (is_ascii_lowercase c \<or> is_ascii_uppercase c \<or> is_ascii_digit c)"

definition is_ascii_space_or_control :: "char \<Rightarrow> bool" where
  "is_ascii_space_or_control c = ((of_char c :: nat) \<le> 32 \<or> (of_char c :: nat) = 127)"

definition to_ascii_lowercase :: "string \<Rightarrow> string" where
  "to_ascii_lowercase s =
     map (\<lambda>c. if is_ascii_uppercase c then char_of ((of_char c :: nat) + 32) else c) s"

text \<open>\<open>str::split_once\<close>, \<open>str::split\<close> and a split at the last occurrence.\<close>

fun split_once :: "char \<Rightarrow> string \<Rightarrow> (string \<times> string) option" where
  "split_once c [] = None"
| "split_once c (x # xs) =
     (if x = c then Some ([], xs)
      else map_option (\<lambda>(a, b). (x # a, b)) (split_once c xs))"

fun split_on :: "char \<Rightarrow> string \<Rightarrow> string list" where
  "split_on c [] = [[]]"
| "split_on c (x # xs) =
     (if x = c then [] # split_on c xs
      else case split_on c xs of [] \<Rightarrow> [[x]] | y # ys \<Rightarrow> (x # y) # ys)"

fun rsplit_once :: "char \<Rightarrow> string \<Rightarrow> (string \<times> string) option" where
  "rsplit_once c [] = None"
| "rsplit_once c (x # xs) =
     (case rsplit_once c xs of
        Some (a, b) \<Rightarrow> Some (x # a, b)
      | None \<Rightarrow> if x = c then Some ([], xs) else None)"

subsection \<open>Characters\<close>

text \<open>
  The characters of a UTF-8 string: a lead byte with the continuation bytes after it. Control
  characters are the C0 and C1 sets and DEL; white space is the Unicode property \<open>White_Space\<close>
  that \<open>str::trim\<close> strips.
\<close>

definition is_continuation :: "char \<Rightarrow> bool" where
  "is_continuation c \<longleftrightarrow> 128 \<le> (of_char c :: nat) \<and> (of_char c :: nat) < 192"

function utf8_chars :: "string \<Rightarrow> string list" where
  "utf8_chars [] = []"
| "utf8_chars (c # cs) =
     (c # takeWhile is_continuation cs) # utf8_chars (dropWhile is_continuation cs)"
  by pat_completeness auto
termination
  by (relation "measure length") (auto simp: le_imp_less_Suc length_dropWhile_le)

definition codes :: "string \<Rightarrow> nat list" where
  "codes s = map of_char s"

definition is_control :: "string \<Rightarrow> bool" where
  "is_control ch =
     (case codes ch of
        [b] \<Rightarrow> b < 32 \<or> b = 127
      | [b, c] \<Rightarrow> b = 194 \<and> c < 160
      | _ \<Rightarrow> False)"

definition is_white :: "string \<Rightarrow> bool" where
  "is_white ch =
     (case codes ch of
        [b] \<Rightarrow> (9 \<le> b \<and> b \<le> 13) \<or> b = 32
      | [b, c] \<Rightarrow> b = 194 \<and> (c = 133 \<or> c = 160)
      | [b, c, d] \<Rightarrow>
          (b = 225 \<and> c = 154 \<and> d = 128)
          \<or> (b = 226 \<and> c = 128 \<and> (d \<le> 138 \<or> d = 168 \<or> d = 169 \<or> d = 175))
          \<or> (b = 226 \<and> c = 129 \<and> d = 159)
          \<or> (b = 227 \<and> c = 128 \<and> d = 128)
      | _ \<Rightarrow> False)"

definition str_trim :: "string \<Rightarrow> string" where
  "str_trim s = concat (rev (dropWhile is_white (rev (dropWhile is_white (utf8_chars s)))))"

lemma concat_utf8_chars [simp]: "concat (utf8_chars s) = s"
  by (induction s rule: utf8_chars.induct) auto

definition chunks_ok :: "string list \<Rightarrow> bool" where
  "chunks_ok cs \<longleftrightarrow>
     (\<forall>c \<in> set cs. c \<noteq> [] \<and> list_all is_continuation (tl c))
     \<and> (\<forall>c \<in> set (tl cs). \<not> is_continuation (hd c))"

lemma chunks_ok_suffix: "chunks_ok (xs @ ys) \<Longrightarrow> chunks_ok ys"
  by (cases xs; cases ys) (auto simp: chunks_ok_def)

lemma chunks_ok_prefix: "chunks_ok (xs @ ys) \<Longrightarrow> chunks_ok xs"
  by (cases xs) (auto simp: chunks_ok_def)

lemma hd_after: "c \<in> set (utf8_chars s) \<Longrightarrow> (s \<noteq> [] \<Longrightarrow> \<not> is_continuation (hd s)) \<Longrightarrow> \<not> is_continuation (hd c)"
proof (induction s rule: utf8_chars.induct)
  case (2 b bs)
  have "\<not> is_continuation (hd (dropWhile is_continuation bs))" if "dropWhile is_continuation bs \<noteq> []"
    using hd_dropWhile [OF that] .
  with 2 show ?case by auto
qed simp

lemma chunks_ok_chars: "chunks_ok (utf8_chars s)"
proof (induction s rule: utf8_chars.induct)
  case (2 b bs)
  have "\<not> is_continuation (hd c)" if "c \<in> set (utf8_chars (dropWhile is_continuation bs))" for c
    using that by (rule hd_after) (rule hd_dropWhile)
  moreover have "list_all is_continuation (takeWhile is_continuation bs)"
    by (simp add: list_all_iff) (meson set_takeWhileD)
  ultimately show ?case using 2 by (auto simp: chunks_ok_def)
qed (simp add: chunks_ok_def)

lemma while_stops:
  "xs = [] \<or> \<not> P (hd xs) \<Longrightarrow> takeWhile P xs = []"
  "xs = [] \<or> \<not> P (hd xs) \<Longrightarrow> dropWhile P xs = xs"
  by (cases xs; simp)+

lemma chars_concat: "chunks_ok cs \<Longrightarrow> utf8_chars (concat cs) = cs"
proof (induction cs)
  case (Cons c cs)
  then obtain b bs where c: "c = b # bs" "list_all is_continuation bs"
    by (cases c) (auto simp: chunks_ok_def)
  have rest: "chunks_ok cs" using chunks_ok_suffix [of "[c]" cs] Cons.prems by simp
  have stop: "concat cs = [] \<or> \<not> is_continuation (hd (concat cs))"
    using Cons.prems by (cases cs) (auto simp: chunks_ok_def)
  from stop have "takeWhile is_continuation (concat cs) = []"
    "dropWhile is_continuation (concat cs) = concat cs"
    by (simp_all only: while_stops)
  with c(2) have "takeWhile is_continuation (bs @ concat cs) = bs"
    "dropWhile is_continuation (bs @ concat cs) = concat cs"
    by (simp_all add: list_all_iff takeWhile_append2 dropWhile_append2)
  with Cons.IH [OF rest] show ?case by (simp add: c(1))
qed simp

definition trimmed :: "string list \<Rightarrow> string list" where
  "trimmed cs = rev (dropWhile is_white (rev (dropWhile is_white cs)))"

lemma trimmed_split: "\<exists>xs zs. cs = xs @ trimmed cs @ zs"
proof -
  let ?d = "dropWhile is_white cs"
  have "cs = takeWhile is_white cs @ ?d" by simp
  moreover have "rev ?d = takeWhile is_white (rev ?d) @ dropWhile is_white (rev ?d)" by simp
  then have "?d = trimmed cs @ rev (takeWhile is_white (rev ?d))"
    unfolding trimmed_def by (metis rev_append rev_rev_ident)
  ultimately show ?thesis by metis
qed

lemma trimmed_idem: "trimmed (trimmed cs) = trimmed cs"
proof (cases "trimmed cs = []")
  case True
  then show ?thesis by (simp only: True) (simp add: trimmed_def)
next
  case False
  let ?d = "dropWhile is_white cs"
  have "rev ?d = takeWhile is_white (rev ?d) @ dropWhile is_white (rev ?d)" by simp
  then have d: "?d = trimmed cs @ rev (takeWhile is_white (rev ?d))"
    unfolding trimmed_def by (metis rev_append rev_rev_ident)
  with False have "?d \<noteq> []" by (metis Nil_is_append_conv)
  then have "\<not> is_white (hd ?d)" by (rule hd_dropWhile)
  with d False have "\<not> is_white (hd (trimmed cs))" by (metis hd_append2)
  then have "dropWhile is_white (trimmed cs) = trimmed cs" using False
    by (cases "trimmed cs") auto
  moreover have "dropWhile is_white (rev (trimmed cs)) = rev (trimmed cs)"
    unfolding trimmed_def by simp
  ultimately show ?thesis by (simp add: trimmed_def [of "trimmed cs"])
qed

lemma str_trim_idem [simp]: "str_trim (str_trim s) = str_trim s"
proof -
  have t: "str_trim s = concat (trimmed (utf8_chars s))" for s
    by (simp add: str_trim_def trimmed_def)
  obtain xs zs where "utf8_chars s = xs @ trimmed (utf8_chars s) @ zs"
    using trimmed_split by blast
  then have "chunks_ok (trimmed (utf8_chars s))"
    using chunks_ok_chars [of s] by (metis chunks_ok_prefix chunks_ok_suffix)
  then show ?thesis by (simp add: t chars_concat trimmed_idem)
qed

end
