(* ===== verification/Images.thy ===== *)
theory Images
  imports Message Strings
begin

text \<open>
  The image references of \<open>pods.rs\<close>: Docker's grammar with its defaults written out. The parser's
  refusals carry a sentence in the code; here a refused text is \<open>None\<close>, which is all its callers
  in the cache key read. A byte outside ASCII is refused by every component's alphabet, so the
  code's Unicode whitespace test changes only the words of a refusal.
\<close>

definition is_host :: "string \<Rightarrow> bool" where
  "is_host value =
     (let (host, port) = (case split_once CHR '':'' value of None \<Rightarrow> (value, ''1'') | Some p \<Rightarrow> p)
      in host \<noteq> [] \<and>
         list_all (\<lambda>b. is_ascii_alphanumeric b \<or> b = CHR ''.'' \<or> b = CHR ''-'') host \<and>
         port \<noteq> [] \<and> length port \<le> 5 \<and> list_all is_ascii_digit port)"

definition path_alnum :: "char \<Rightarrow> bool" where
  "path_alnum b = (is_ascii_lowercase b \<or> is_ascii_digit b)"

text \<open>The loop of \<open>is_path_component\<close>, with the separator run read so far.\<close>

fun path_scan :: "string \<Rightarrow> string \<Rightarrow> bool" where
  "path_scan separator [] = True"
| "path_scan separator (b # bs) =
     (if path_alnum b then
        (if separator = [] \<or> separator \<in> {''.'', ''_'', ''__''} \<or>
            list_all (\<lambda>s. s = CHR ''-'') separator
         then path_scan [] bs else False)
      else if b = CHR ''.'' \<or> b = CHR ''_'' \<or> b = CHR ''-'' then path_scan (separator @ [b]) bs
      else False)"

definition is_path_component :: "string \<Rightarrow> bool" where
  "is_path_component value =
     (value \<noteq> [] \<and> path_alnum (hd value) \<and> path_alnum (last value) \<and> path_scan [] value)"

definition is_tag :: "string \<Rightarrow> bool" where
  "is_tag value =
     (1 \<le> length value \<and> length value \<le> 128 \<and>
      (is_ascii_alphanumeric (hd value) \<or> hd value = CHR ''_'') \<and>
      list_all (\<lambda>b. is_ascii_alphanumeric b \<or> b = CHR ''_'' \<or> b = CHR ''.'' \<or> b = CHR ''-'') value)"

definition is_image_digest :: "string \<Rightarrow> bool" where
  "is_image_digest value =
     (case split_once CHR '':'' value of
        None \<Rightarrow> False
      | Some (algorithm, encoded) \<Rightarrow>
          algorithm \<noteq> [] \<and>
          list_all (\<lambda>b. is_ascii_lowercase b \<or> is_ascii_digit b \<or> b = CHR ''+'' \<or> b = CHR ''.''
                        \<or> b = CHR ''_'' \<or> b = CHR ''-'') algorithm \<and>
          length encoded \<ge> 32 \<and>
          list_all (\<lambda>b. is_ascii_alphanumeric b \<or> b = CHR ''='' \<or> b = CHR ''_'' \<or> b = CHR ''-'') encoded)"

record image_ref =
  im_registry :: string
  im_repository :: string
  im_tag :: "string option"
  im_digest :: "string option"

definition split_tag :: "string \<Rightarrow> string \<times> string option" where
  "split_tag rest =
     (case rsplit_once CHR '':'' rest of
        Some (name, tag) \<Rightarrow> if CHR ''/'' \<in> set tag then (rest, None) else (name, Some tag)
      | None \<Rightarrow> (rest, None))"

text \<open>The registry the first path component names, and the components that are left.\<close>

definition split_registry :: "string list \<Rightarrow> (string \<times> string list) option" where
  "split_registry components =
     (case components of
        first # others \<Rightarrow>
          if others \<noteq> [] \<and> (CHR ''.'' \<in> set first \<or> CHR '':'' \<in> set first \<or> first = ''localhost'')
          then let host = to_ascii_lowercase first
               in if \<not> is_host host then None
                  else Some (if host = ''index.docker.io'' then ''docker.io'' else host, others)
          else Some (''docker.io'', components)
      | [] \<Rightarrow> Some (''docker.io'', components))"

definition image_parse :: "string \<Rightarrow> image_ref option" where
  "image_parse reference =
     (if reference = [] \<or> length reference > 512 then None
      else if list_ex is_ascii_space_or_control reference then None
      else
        let (rest, digest) = (case split_once CHR ''@'' reference of
                                Some (r, d) \<Rightarrow> (r, Some d) | None \<Rightarrow> (reference, None))
        in if \<not> is_none_or is_image_digest digest then None
           else
             let (name, tag) = split_tag rest
             in if \<not> is_none_or is_tag tag then None
                else case split_registry (split_on CHR ''/'' name) of
                       None \<Rightarrow> None
                     | Some (registry, components) \<Rightarrow>
                         if \<not> list_all is_path_component components then None
                         else
                           let repository = join_with ''/'' components
                           in Some \<lparr>im_registry = registry,
                                    im_repository =
                                      (if registry = ''docker.io'' \<and> length components = 1
                                       then ''library/'' @ repository else repository),
                                    im_tag = tag, im_digest = digest\<rparr>)"

definition image_name :: "image_ref \<Rightarrow> string" where
  "image_name i = im_registry i @ ''/'' @ im_repository i"

definition same_repository :: "image_ref \<Rightarrow> image_ref \<Rightarrow> bool" where
  "same_repository a b =
     (im_registry a = im_registry b \<and> im_repository a = im_repository b)"

text \<open>Docker's defaults are written out: the spellings of one image that its tooling treats
  alike parse to one repository, and a port is not taken for a tag.\<close>

theorem image_spellings_agree:
  "map_option image_name (image_parse ''python:3.13'') = Some ''docker.io/library/python'' \<and>
   map_option image_name (image_parse ''index.docker.io/library/python'') = Some ''docker.io/library/python'' \<and>
   map_option (\<lambda>i. (im_registry i, im_repository i, im_tag i)) (image_parse ''localhost:5000/planner/import'')
     = Some (''localhost:5000'', ''planner/import'', None) \<and>
   image_parse ''Upper/Case'' = None \<and> image_parse ''a b'' = None"
  by code_simp

end
