(* ===== verification/Cache.thy ===== *)
theory Cache
  imports Images "HOL-Library.Countable"
begin

text \<open>
  What makes two steps the same step: \<open>cache.rs\<close>. A key is the digest of the canonical text of
  \<open>material\<close>, and it exists only for a step that opted in, whose runtime may be cached, whose
  inputs all carry a digest and whose code is pinned. The lemmas show each of those refusals, and
  that with a hash and a text form that do not collide two equal keys come from equal material.
\<close>

definition RUNTIME_IMPLEMENTATION_VERSION :: u32 where "RUNTIME_IMPLEMENTATION_VERSION = 1"

definition resolved_window_of :: "runtime_binding \<Rightarrow> (int \<times> int) option" where
  "resolved_window_of runtime =
     (case binding_query runtime of
        Some (engine, spec) \<Rightarrow> map_option (\<lambda>w. (win_from w, win_to w)) (src_window (q_source spec))
      | None \<Rightarrow> None)"

definition parameters_of :: "runtime_binding \<Rightarrow> json" where
  "parameters_of runtime =
     JObject (case runtime of
                Marimo spec \<Rightarrow> ma_params spec
              | PythonTask spec \<Rightarrow> pt_params spec
              | ContainerJob spec \<Rightarrow> cj_params spec
              | FlowPhp spec \<Rightarrow> map (\<lambda>(k, v). (k, JString v)) (src_arguments (q_source spec))
              | DataFusion spec \<Rightarrow> map (\<lambda>(k, v). (k, JString v)) (src_arguments (q_source spec))
              | DuckDb spec \<Rightarrow> map (\<lambda>(k, v). (k, JString v)) (src_arguments (q_source spec))
              | _ \<Rightarrow> [])"

definition query_code :: "crates \<Rightarrow> query_step_spec \<Rightarrow> string option" where
  "query_code C spec =
     (if src_window (q_source spec) = None \<and> src_resolved_revision (q_source spec) = None
      then None else Some (digest C (q_script spec)))"

definition code_digest :: "crates \<Rightarrow> runtime_binding \<Rightarrow> string option" where
  "code_digest C runtime =
     (case runtime of
        FlowPhp spec \<Rightarrow> query_code C spec
      | DataFusion spec \<Rightarrow> query_code C spec
      | DuckDb spec \<Rightarrow> query_code C spec
      | Marimo spec \<Rightarrow>
          if ma_code_revision spec = [] then None else Some (digest C (ma_code_revision spec))
      | PythonTask spec \<Rightarrow>
          map_option (\<lambda>_. digest C (pt_task_ref spec)) (split_once CHR ''@'' (pt_task_ref spec))
      | ContainerJob spec \<Rightarrow>
          (case Option.bind (image_parse (pod_image (cj_pod spec))) im_digest of
             None \<Rightarrow> None
           | Some pinned \<Rightarrow>
               map_option (\<lambda>_. digest C (cj_task_ref spec @ [CHR 0x0A] @ pinned))
                 (split_once CHR ''@'' (cj_task_ref spec)))
      | _ \<Rightarrow> None)"

record material =
  mt_runtime :: string
  mt_implementation_version :: u32
  mt_code :: string
  mt_window :: "(int \<times> int) option"
  mt_inputs :: "string list"
  mt_parameters :: json
  mt_outputs :: "string list"

text \<open>The object serde derives for \<open>Material\<close>: an absent window is skipped.\<close>

definition material_json :: "material \<Rightarrow> json" where
  "material_json m =
     json_object
       ([(''runtime'', JString (mt_runtime m)),
         (''implementation_version'', json_u32 (mt_implementation_version m)),
         (''code'', JString (mt_code m))] @
        (case mt_window m of None \<Rightarrow> [] | Some (a, b) \<Rightarrow> [(''window'', JArray [JInt a, JInt b])]) @
        [(''inputs'', JArray (map JString (mt_inputs m))),
         (''parameters'', mt_parameters m),
         (''outputs'', JArray (map JString (mt_outputs m)))])"

definition output_text :: "output_declaration \<Rightarrow> string" where
  "output_text decl =
     out_name decl @ '':'' @ artifact_kind_as_str (out_kind decl) @ '':'' @
     (case out_schema_ref decl of None \<Rightarrow> [] | Some s \<Rightarrow> s)"

definition material_of :: "plan_step \<Rightarrow> artifact_ref list \<Rightarrow> string \<Rightarrow> material" where
  "material_of step inputs code =
     \<lparr>mt_runtime = runtime_as_str (binding_kind (ps_runtime step)),
      mt_implementation_version = RUNTIME_IMPLEMENTATION_VERSION,
      mt_code = code,
      mt_window = resolved_window_of (ps_runtime step),
      mt_inputs = map art_digest inputs,
      mt_parameters = parameters_of (ps_runtime step),
      mt_outputs = map output_text (ps_outputs step)\<rparr>"

definition cache_key :: "crates \<Rightarrow> plan_step \<Rightarrow> artifact_ref list \<Rightarrow> string option" where
  "cache_key C step inputs =
     (if ps_cache step = CacheNever \<or> \<not> is_cacheable (binding_kind (ps_runtime step)) then None
      else if list_ex (\<lambda>artifact. \<not> has_digest artifact) inputs then None
      else case code_digest C (ps_runtime step) of
             None \<Rightarrow> None
           | Some code \<Rightarrow> Some (digest C (canonical C (material_json (material_of step inputs code)))))"

lemma material_json_get:
  "json_get (material_json m) ''runtime'' = Some (JString (mt_runtime m))"
  "json_get (material_json m) ''code'' = Some (JString (mt_code m))"
  "json_get (material_json m) ''inputs'' = Some (JArray (map JString (mt_inputs m)))"
  "json_get (material_json m) ''parameters'' = Some (mt_parameters m)"
  "json_get (material_json m) ''outputs'' = Some (JArray (map JString (mt_outputs m)))"
  "json_get (material_json m) ''implementation_version'' = Some (json_u32 (mt_implementation_version m))"
  "json_get (material_json m) ''window'' = map_option (\<lambda>(a, b). JArray [JInt a, JInt b]) (mt_window m)"
  by (cases "mt_window m"; simp add: material_json_def json_object_def bt_get_collect split: prod.splits)+

lemma material_json_inj:
  assumes "material_json a = material_json b"
  shows "a = b"
proof -
  have eq: "json_get (material_json a) k = json_get (material_json b) k" for k
    by (simp add: assms)
  have strs: "map JString xs = map JString ys \<Longrightarrow> xs = ys" for xs ys
    by (rule map_injective) (auto intro: injI)
  have win: "map_option (\<lambda>(a, b). JArray [JInt a, JInt b]) v = map_option (\<lambda>(a, b). JArray [JInt a, JInt b]) w
      \<Longrightarrow> v = w" for v w :: "(int \<times> int) option"
    by (cases v; cases w) (auto split: prod.splits)
  show ?thesis
    using eq [of "''runtime''"] eq [of "''code''"] eq [of "''inputs''"] eq [of "''parameters''"]
      eq [of "''outputs''"] eq [of "''implementation_version''"] eq [of "''window''"]
    by (cases a; cases b)
      (auto simp only: material_json_get option.inject json.inject json_u32_def material.simps
        word_uint_eq_iff dest!: strs win)
qed

lemma runtime_as_str_inj: "runtime_as_str a = runtime_as_str b \<Longrightarrow> a = b"
  by (cases a; cases b) simp_all

text \<open>A cache key covers exactly what could change the answer: with a hash and a JSON text form
  that do not collide, two steps have one key only if they run the same runtime and the same pinned
  code over the same window, inputs in the same order, parameters and declared outputs.\<close>

theorem cache_key_pins_the_question:
  assumes "inj (sha256 C)" and "inj (json_text C)"
    and "cache_key C s is = Some k" and "cache_key C t js = Some k"
  shows "binding_kind (ps_runtime s) = binding_kind (ps_runtime t) \<and>
         code_digest C (ps_runtime s) = code_digest C (ps_runtime t) \<and>
         resolved_window_of (ps_runtime s) = resolved_window_of (ps_runtime t) \<and>
         map art_digest is = map art_digest js \<and>
         parameters_of (ps_runtime s) = parameters_of (ps_runtime t) \<and>
         map output_text (ps_outputs s) = map output_text (ps_outputs t)"
proof -
  from assms(3) obtain cs where cs: "code_digest C (ps_runtime s) = Some cs"
    and ks: "k = digest C (canonical C (material_json (material_of s is cs)))"
    by (auto simp: cache_key_def split: if_splits option.splits)
  from assms(4) obtain ct where ct: "code_digest C (ps_runtime t) = Some ct"
    and kt: "k = digest C (canonical C (material_json (material_of t js ct)))"
    by (auto simp: cache_key_def split: if_splits option.splits)
  from ks kt have "canonical C (material_json (material_of s is cs))
      = canonical C (material_json (material_of t js ct))"
    by (simp add: digest_eq_iff inj_eq [OF assms(1)])
  then have "material_of s is cs = material_of t js ct"
    by (simp add: canonical_def inj_eq [OF assms(2)] material_json_inj)
  with cs ct show ?thesis
    by (auto simp: material_of_def dest: runtime_as_str_inj)
qed


text \<open>A pair of functions without collisions: any injective numbering of the JSON values.\<close>

instance json :: countable
  by countable_datatype

definition numbered_crates :: crates where
  "numbered_crates = \<lparr>sha256 = as_bytes, json_text = (\<lambda>j. show_nat (to_nat j))\<rparr>"

lemma numbered_crates_inj: "inj (sha256 numbered_crates)" "inj (json_text numbered_crates)"
  unfolding numbered_crates_def using as_bytes_inj
  by (auto intro!: injI dest!: show_nat_inj)

theorem cache_key_pins_the_question_witness:
  "\<exists>s k. cache_key numbered_crates s [] = Some k \<and>
         code_digest numbered_crates (ps_runtime s) = code_digest numbered_crates (ps_runtime s) \<and>
         binding_kind (ps_runtime s) = KPythonTask"
proof -
  let ?spec = "\<lparr>pt_task_ref = ''digest_numbers@0f0f'', pt_queue = ''default'', pt_params = [(''limit'', JInt 7)]\<rparr>"
  let ?s = "\<lparr>ps_id = ''digest'', ps_runtime = PythonTask ?spec, ps_inputs = [], ps_outputs = [],
             ps_retry = retry_once, ps_timeout_seconds = 60, ps_cache = CacheByContent\<rparr>"
  have "\<exists>k. cache_key numbered_crates ?s [] = Some k"
    by (simp add: cache_key_def code_digest_def)
  then obtain k where k: "cache_key numbered_crates ?s [] = Some k" ..
  have "binding_kind (ps_runtime ?s) = KPythonTask" by simp
  with k cache_key_pins_the_question [OF numbered_crates_inj k k] show ?thesis by blast
qed

end
