(* ===== verification/Decide.thy ===== *)
theory Decide
  imports Cache
begin

text \<open>
  The pure part of the engine, \<open>decide.rs\<close>: \<open>evolve\<close> folds one event into the state of an
  execution, \<open>decide\<close> turns one input into the events and commands it causes. Each arm of the
  code's \<open>match\<close> is a definition of its own. Messages are collected by an emitter that derives
  their ids from the execution, the cause, the name of the message and its ordinal in the
  decision. \<open>time::OffsetDateTime\<close> has a bounded range that a deadline could leave; instants here
  are integers and do not.
\<close>

subsection \<open>Refusals\<close>

datatype decision_error =
    NotStarted string
  | AlreadyStarted
  | AlreadyFinished state_type
  | NotPaused
  | CancellingInProgress
  | NoSuchStep string
  | NotRetryable string state_type
  | StaleAttempt string u32 u32
  | NotWaiting string
  | DeadlinePassed string
  | NotOneOfTheChoices string "string list"
  | EmptyPlan
  | CyclicPlan
  | Unhandled string

type_synonym decision = "pending_message list"

subsection \<open>Folding events\<close>

definition attempt_pending :: "u32 \<Rightarrow> run_state \<Rightarrow> instant option \<Rightarrow> attempt_record" where
  "attempt_pending n st not_before =
     \<lparr>at_attempt = n, at_state = st, at_error = None, at_not_before = not_before\<rparr>"

definition awaiting_retry :: run_state where
  "awaiting_retry = state_named Pending ''AwaitingRetry''"

definition state_cached :: run_state where
  "state_cached = state_named Completed ''Cached''"

text \<open>What \<open>apply\<close> does to the step an event names.\<close>

definition apply_scheduled :: "u32 \<Rightarrow> string option \<Rightarrow> step_state \<Rightarrow> step_state" where
  "apply_scheduled n key s =
     s\<lparr>ss_state := state_of Pending, ss_current_attempt := n, ss_cache_key := key,
       ss_attempts := ss_attempts s @ [attempt_pending n (state_of Pending) None]\<rparr>"

definition apply_retry_scheduled :: "u32 \<Rightarrow> instant \<Rightarrow> step_state \<Rightarrow> step_state" where
  "apply_retry_scheduled n not_before s =
     s\<lparr>ss_state := awaiting_retry, ss_current_attempt := n,
       ss_attempts := ss_attempts s @ [attempt_pending n awaiting_retry (Some not_before)]\<rparr>"

definition apply_started :: "u32 \<Rightarrow> step_state \<Rightarrow> step_state" where
  "apply_started n s =
     s\<lparr>ss_state := state_of Running,
       ss_attempts := update_attempt n (\<lambda>r. r\<lparr>at_state := state_of Running\<rparr>) (ss_attempts s)\<rparr>"

definition apply_completed :: "u32 \<Rightarrow> artifact_ref list \<Rightarrow> step_state \<Rightarrow> step_state" where
  "apply_completed n outputs s =
     s\<lparr>ss_state := state_of Completed, ss_outputs := outputs, ss_awaiting := None,
       ss_attempts := update_attempt n (\<lambda>r. r\<lparr>at_state := state_of Completed\<rparr>) (ss_attempts s)\<rparr>"

definition apply_cache_hit :: "u32 \<Rightarrow> string \<Rightarrow> artifact_ref list \<Rightarrow> step_state \<Rightarrow> step_state" where
  "apply_cache_hit n key outputs s =
     s\<lparr>ss_state := state_cached, ss_cache_key := Some key, ss_outputs := outputs,
       ss_attempts := update_attempt n (\<lambda>r. r\<lparr>at_state := state_cached\<rparr>) (ss_attempts s)\<rparr>"

definition apply_failed :: "u32 \<Rightarrow> step_error \<Rightarrow> step_state \<Rightarrow> step_state" where
  "apply_failed n error s =
     (let st = state_of (failed_state (err_class error))
      in s\<lparr>ss_state := st, ss_awaiting := None,
           ss_attempts := update_attempt n (\<lambda>r. r\<lparr>at_state := st, at_error := Some error\<rparr>)
                            (ss_attempts s)\<rparr>)"

definition apply_skipped :: "string \<Rightarrow> step_state \<Rightarrow> step_state" where
  "apply_skipped reason s = s\<lparr>ss_state := state_named Cancelled reason\<rparr>"

definition apply_input_requested :: "u32 \<Rightarrow> input_request \<Rightarrow> step_state \<Rightarrow> step_state" where
  "apply_input_requested n request s =
     s\<lparr>ss_state := state_of AwaitingInput, ss_awaiting := Some request,
       ss_attempts := update_attempt n (\<lambda>r. r\<lparr>at_state := state_of AwaitingInput\<rparr>) (ss_attempts s)\<rparr>"

definition apply_input_provided :: "u32 \<Rightarrow> string \<Rightarrow> json \<Rightarrow> step_state \<Rightarrow> step_state" where
  "apply_input_provided n by_whom response s =
     s\<lparr>ss_awaiting := None,
       ss_answers := ss_answers s @ [\<lparr>an_attempt = n, an_answered_by = by_whom, an_response = response\<rparr>]\<rparr>"

fun apply_event :: "execution \<Rightarrow> workflow_event \<Rightarrow> execution" where
  "apply_event e (ExecutionRequested _) = e"
| "apply_event e ExecutionStarted = e\<lparr>ex_state := state_of Running\<rparr>"
| "apply_event e (StepScheduled i n _ key) = ex_step_mut i (apply_scheduled n key) e"
| "apply_event e (StepRetryScheduled i n not_before) = ex_step_mut i (apply_retry_scheduled n not_before) e"
| "apply_event e (StepStarted i n) = ex_step_mut i (apply_started n) e"
| "apply_event e (StepCompleted i n outputs _) = ex_step_mut i (apply_completed n outputs) e"
| "apply_event e (StepCacheHit i n key outputs) = ex_step_mut i (apply_cache_hit n key outputs) e"
| "apply_event e (StepFailed i n error) = ex_step_mut i (apply_failed n error) e"
| "apply_event e (StepSkipped i reason) = ex_step_mut i (apply_skipped reason) e"
| "apply_event e (InputRequested i n request) = ex_step_mut i (apply_input_requested n request) e"
| "apply_event e (InputProvided i n by_whom response) =
     ex_step_mut i (apply_input_provided n by_whom response) e"
| "apply_event e ExecutionPaused = e\<lparr>ex_state := state_of Paused\<rparr>"
| "apply_event e ExecutionResumed = e\<lparr>ex_state := state_of Running\<rparr>"
| "apply_event e (ExecutionCancelling reason) = e\<lparr>ex_cancelling := True, ex_state := state_cancelling\<rparr>"
| "apply_event e ExecutionCancelled = e\<lparr>ex_state := state_of Cancelled\<rparr>"
| "apply_event e ExecutionCompleted = e\<lparr>ex_state := state_of Completed\<rparr>"
| "apply_event e (ExecutionFailed reason) = e\<lparr>ex_state := state_named Failed reason\<rparr>"

definition execution_requested :: "start_request \<Rightarrow> execution" where
  "execution_requested r =
     \<lparr>ex_id = st_execution_id r, ex_plan = st_plan r, ex_owner = st_owner r, ex_mode = st_mode r,
      ex_payloads = st_payloads r, ex_requested_by = st_requested_by r, ex_input = st_input r,
      ex_state = state_named Scheduled ''Queued'',
      ex_steps = bt_collect (map (\<lambda>step. (ps_id step, step_fresh (ps_id step) (binding_kind (ps_runtime step))))
                                 (plan_steps (st_plan r))),
      ex_cancelling = False, ex_created_at = unix_epoch\<rparr>"

fun evolve :: "execution_state \<Rightarrow> workflow_event \<Rightarrow> execution_state" where
  "evolve Empty (ExecutionRequested r) = Active (execution_requested r)"
| "evolve Empty _ = Empty"
| "evolve (Active e) event = Active (apply_event e event)"

definition initial_state :: execution_state where
  "initial_state = Empty"

definition replay :: "workflow_event list \<Rightarrow> execution_state" where
  "replay events = foldl evolve initial_state events"

subsection \<open>The emitter\<close>

record emitter =
  em_execution :: string
  em_cause :: string
  em_now :: instant
  em_step :: "(string \<times> u32) option"
  em_out :: "pending_message list"

definition emitter_new :: "string \<Rightarrow> string \<Rightarrow> instant \<Rightarrow> emitter" where
  "emitter_new execution cause now =
     \<lparr>em_execution = execution, em_cause = cause, em_now = now, em_step = None, em_out = []\<rparr>"

definition about_step :: "string \<Rightarrow> u32 \<Rightarrow> emitter \<Rightarrow> emitter" where
  "about_step i n em = em\<lparr>em_step := Some (i, n)\<rparr>"

definition emitted_name :: "string \<Rightarrow> string \<Rightarrow> string \<Rightarrow> nat \<Rightarrow> string" where
  "emitted_name execution cause name ordinal =
     ''aiwatcher/execution/'' @ execution @ ''/'' @ cause @ ''/'' @ name @ ''/'' @ show_nat ordinal"

definition emit_push :: "crates \<Rightarrow> string \<Rightarrow> workflow_message \<Rightarrow> emitter \<Rightarrow> emitter" where
  "emit_push C name message em =
     (let message_id = derive_uuid C (emitted_name (em_execution em) (em_cause em) name (length (em_out em)));
          metadata = \<lparr>md_schema_version = SCHEMA_VERSION, md_message_id = message_id,
                      md_occurred_at = em_now em, md_correlation_id = em_execution em,
                      md_causation_id = em_cause em, md_trace_id = None, md_span_id = None,
                      md_step_id = map_option fst (em_step em),
                      md_attempt = map_option snd (em_step em)\<rparr>
      in em\<lparr>em_out := em_out em @ [\<lparr>pm_direction = Output, pm_message = message, pm_metadata = metadata\<rparr>]\<rparr>)"

definition emit_event :: "crates \<Rightarrow> workflow_event \<Rightarrow> emitter \<Rightarrow> emitter" where
  "emit_event C event em = emit_push C (event_name event) (Event event) em"

definition emit_command :: "crates \<Rightarrow> workflow_command \<Rightarrow> emitter \<Rightarrow> emitter" where
  "emit_command C command em = emit_push C (command_name command) (Command command) em"

definition ANSWERED_BY_TIMEOUT :: string where
  "ANSWERED_BY_TIMEOUT = ''aiwatcher/timeout''"

definition idempotency_key :: "string \<Rightarrow> string \<Rightarrow> u32 \<Rightarrow> string" where
  "idempotency_key execution step attempt = execution @ ''/'' @ step @ ''/'' @ show_nat (unat attempt)"

subsection \<open>Scheduling\<close>

text \<open>The key \<open>StepScheduled\<close> carries: none for a step somebody has answered.\<close>

definition scheduled_key :: "crates \<Rightarrow> execution \<Rightarrow> plan_step \<Rightarrow> string \<Rightarrow> string option" where
  "scheduled_key C e step i =
     (if is_none_or (\<lambda>s. ss_answers s = []) (ex_step e i)
      then cache_key C step (resolved_inputs e i) else None)"

definition gate_request :: "human_input_spec \<Rightarrow> instant \<Rightarrow> input_request" where
  "gate_request spec now =
     \<lparr>rq_prompt = hi_prompt spec, rq_role = hi_role spec, rq_choices = hi_choices spec,
      rq_deadline = map_option (\<lambda>secs. now + seconds (sint secs)) (hi_timeout_seconds spec),
      rq_on_timeout = Some (hi_on_timeout spec)\<rparr>"

definition schedule_attempt ::
  "crates \<Rightarrow> execution \<Rightarrow> string \<Rightarrow> u32 \<Rightarrow> instant \<Rightarrow> emitter \<Rightarrow> emitter" where
  "schedule_attempt C e i n now em =
     (case plan_step_of (ex_plan e) i of
        None \<Rightarrow> em
      | Some step \<Rightarrow>
          let kind = binding_kind (ps_runtime step);
              em1 = emit_event C (StepScheduled i n kind (scheduled_key C e step i)) (about_step i n em)
          in case ps_runtime step of
               HumanInput spec \<Rightarrow>
                 emit_command C (RequestInput i n)
                   (emit_event C (InputRequested i n (gate_request spec now)) em1)
             | _ \<Rightarrow> emit_command C (ExecuteStep i n kind (idempotency_key (ex_id e) i n)) em1)"

definition parents_completed :: "execution \<Rightarrow> string \<Rightarrow> bool" where
  "parents_completed e i =
     list_all (\<lambda>parent. is_some_and (\<lambda>s. state_type (ss_state s) = Completed) (ex_step e parent))
              (parents_of (ex_plan e) i)"

definition step_ready :: "execution \<Rightarrow> string \<Rightarrow> bool" where
  "step_ready e i =
     (case ex_step e i of
        None \<Rightarrow> False
      | Some current \<Rightarrow> state_type (ss_state current) = Scheduled \<and> parents_completed e i)"

definition dispatch_ready :: "crates \<Rightarrow> execution \<Rightarrow> instant \<Rightarrow> emitter \<Rightarrow> emitter" where
  "dispatch_ready C e now em =
     (if ex_mode e = Hosted then em
      else if state_type (ex_state e) = Paused \<or> ex_cancelling e then em
      else foldl (\<lambda>em step. if step_ready e (ps_id step)
                            then schedule_attempt C e (ps_id step) 1 now em else em)
                 em (plan_steps (ex_plan e)))"

subsection \<open>Skipping what is downstream\<close>

definition step_unfinished :: "execution \<Rightarrow> string \<Rightarrow> bool" where
  "step_unfinished e i = is_some_and (\<lambda>s. \<not> is_terminal (state_type (ss_state s))) (ex_step e i)"

definition skip_event :: "string \<Rightarrow> string \<Rightarrow> workflow_event" where
  "skip_event child current = StepSkipped child (current @ '' did not succeed'')"

definition emit_skip :: "crates \<Rightarrow> execution \<Rightarrow> string \<Rightarrow> string \<Rightarrow> emitter \<Rightarrow> emitter" where
  "emit_skip C e current child em =
     (if step_unfinished e child then emit_event C (skip_event child current) em else em)"

text \<open>
  One pass of the loop over the children of \<open>current\<close>, and the loop itself. The frontier is the
  code's \<open>Vec\<close> used as a stack; its top, which \<open>pop\<close> takes, is the head of the list here.
\<close>

fun skip_children ::
  "crates \<Rightarrow> execution \<Rightarrow> string \<Rightarrow> string list \<Rightarrow>
   string list \<times> (string, unit) btree \<times> emitter \<Rightarrow> string list \<times> (string, unit) btree \<times> emitter" where
  "skip_children C e current [] acc = acc"
| "skip_children C e current (child # children) (frontier, seen, em) =
     (if bt_get seen child \<noteq> None then skip_children C e current children (frontier, seen, em)
      else skip_children C e current children
             (child # frontier, bt_insert child () seen, emit_skip C e current child em))"

definition unseen :: "execution_plan \<Rightarrow> (string, unit) btree \<Rightarrow> string set" where
  "unseen plan seen = edge_to ` set (plan_edges plan) - fst ` set seen"

lemma finite_unseen [simp]: "finite (unseen plan seen)"
  by (simp add: unseen_def)

lemma skip_children_measure:
  assumes "skip_children C e current children (frontier, seen, em) = (frontier', seen', em')"
    and "set children \<subseteq> edge_to ` set (plan_edges plan)"
  shows "2 * card (unseen plan seen') + length frontier' \<le> 2 * card (unseen plan seen) + length frontier"
  using assms
proof (induction C e current children "(frontier, seen, em)" arbitrary: frontier seen em
    rule: skip_children.induct)
  case (1 C e current frontier seen em)
  then show ?case by simp
next
  case (2 C e current child children frontier seen em)
  show ?case
  proof (cases "bt_get seen child = None")
    case False
    with 2 show ?thesis by simp
  next
    case True
    then have "child \<in> unseen plan seen"
      using "2.prems" by (auto simp: unseen_def bt_get_None_iff)
    moreover have "unseen plan (bt_insert child () seen) = unseen plan seen - {child}"
      by (auto simp: unseen_def)
    ultimately have "Suc (card (unseen plan (bt_insert child () seen))) = card (unseen plan seen)"
      by (simp only: card_Suc_Diff1 [OF finite_unseen])
    moreover from 2 True
    have "2 * card (unseen plan seen') + length frontier'
        \<le> 2 * card (unseen plan (bt_insert child () seen)) + length (child # frontier)"
      by simp
    ultimately show ?thesis by simp
  qed
qed

function skip_loop ::
  "crates \<Rightarrow> execution \<Rightarrow> string list \<Rightarrow> (string, unit) btree \<Rightarrow> emitter \<Rightarrow> emitter" where
  "skip_loop C e [] seen em = em"
| "skip_loop C e (current # frontier) seen em =
     (case skip_children C e current (children_of (ex_plan e) current) (frontier, seen, em) of
        (frontier', seen', em') \<Rightarrow> skip_loop C e frontier' seen' em')"
  by pat_completeness auto
termination
proof (relation "measure (\<lambda>(C, e, frontier, seen, em). 2 * card (unseen (ex_plan e) seen) + length frontier)",
    goal_cases)
  case 1
  show ?case by simp
next
  case (2 C e current frontier seen em frontier' r seen' em')
  then have eq: "skip_children C e current (children_of (ex_plan e) current) (frontier, seen, em)
      = (frontier', seen', em')" by simp
  have "set (children_of (ex_plan e) current) \<subseteq> edge_to ` set (plan_edges (ex_plan e))"
    by (auto simp: children_of_def)
  from skip_children_measure [OF eq this] eq show ?case by simp
qed

definition skip_downstream :: "crates \<Rightarrow> execution \<Rightarrow> string \<Rightarrow> emitter \<Rightarrow> emitter" where
  "skip_downstream C e i em = skip_loop C e [i] [] em"

subsection \<open>What follows an answer, a completion and a failure\<close>

definition continue_after :: "crates \<Rightarrow> execution \<Rightarrow> string \<Rightarrow> instant \<Rightarrow> emitter \<Rightarrow> emitter" where
  "continue_after C e i now em =
     (let after = ex_step_mut i (\<lambda>s. s\<lparr>ss_state := state_of Completed, ss_awaiting := None\<rparr>) e
      in if ex_cancelling after then
           (if list_all (\<lambda>s. state_type (ss_state s) \<noteq> Running) (bt_values (ex_steps after))
            then emit_event C ExecutionCancelled em else em)
         else
           let em1 = dispatch_ready C after now em
           in if list_all (\<lambda>s. state_type (ss_state s) = Completed) (bt_values (ex_steps after))
              then emit_event C ExecutionCompleted em1 else em1)"

definition plan_human_input :: "execution \<Rightarrow> string \<Rightarrow> human_input_spec option" where
  "plan_human_input e i =
     (case plan_step_of (ex_plan e) i of
        Some step \<Rightarrow> (case ps_runtime step of HumanInput spec \<Rightarrow> Some spec | _ \<Rightarrow> None)
      | None \<Rightarrow> None)"

definition answer_lands ::
  "crates \<Rightarrow> execution \<Rightarrow> string \<Rightarrow> u32 \<Rightarrow> string \<Rightarrow> json \<Rightarrow> instant \<Rightarrow> emitter \<Rightarrow> emitter" where
  "answer_lands C e i n by_whom response now em =
     (let em1 = emit_event C (InputProvided i n by_whom response) em
      in if plan_human_input e i \<noteq> None then
           continue_after C e i now (emit_event C (StepCompleted i n [] (Some response)) em1)
         else if ex_mode e = Hosted then em1
         else
           let resumed = ex_step_mut i (apply_input_provided n by_whom response) e
           in schedule_attempt C resumed i (n + 1) now em1)"

definition settle_failure ::
  "crates \<Rightarrow> execution \<Rightarrow> string \<Rightarrow> u32 \<Rightarrow> step_error \<Rightarrow> emitter \<Rightarrow> emitter" where
  "settle_failure C e i n error em =
     (let st = state_of (failed_state (err_class error));
          settled = ex_step_mut i (\<lambda>s. s\<lparr>ss_state := st\<rparr>) (set_attempt_state i n st e);
          em1 = skip_downstream C settled i em
      in if ex_cancelling e then emit_event C ExecutionCancelled em1
         else emit_event C (ExecutionFailed (i @ '' failed: '' @ err_message error)) em1)"

subsection \<open>The arms of \<open>decide_active\<close>\<close>

definition step_of :: "execution \<Rightarrow> string \<Rightarrow> decision_error + step_state" where
  "step_of e i = (case ex_step e i of None \<Rightarrow> Inl (NoSuchStep i) | Some s \<Rightarrow> Inr s)"

definition decide_pause :: "crates \<Rightarrow> execution \<Rightarrow> emitter \<Rightarrow> decision_error + decision" where
  "decide_pause C e em =
     (if is_terminal (state_type (ex_state e)) then Inl (AlreadyFinished (state_type (ex_state e)))
      else if state_type (ex_state e) = Paused then Inr []
      else Inr (em_out (emit_event C ExecutionPaused em)))"

definition decide_resume :: "crates \<Rightarrow> execution \<Rightarrow> instant \<Rightarrow> emitter \<Rightarrow> decision_error + decision" where
  "decide_resume C e now em =
     (if state_type (ex_state e) \<noteq> Paused then Inl NotPaused
      else Inr (em_out (dispatch_ready C (e\<lparr>ex_state := state_of Running\<rparr>) now
                          (emit_event C ExecutionResumed em))))"

text \<open>One turn of the loop over the steps in \<open>CancelExecution\<close>: whether anything runs, and the skips.\<close>

definition cancel_step :: "crates \<Rightarrow> bool \<times> emitter \<Rightarrow> step_state \<Rightarrow> bool \<times> emitter" where
  "cancel_step C acc s =
     (case acc of (running, em) \<Rightarrow>
        if state_type (ss_state s) = Running \<or> state_type (ss_state s) = AwaitingInput then (True, em)
        else if state_type (ss_state s) = Scheduled \<or> state_type (ss_state s) = Pending
        then (running, emit_event C (StepSkipped (ss_step_id s) ''the execution was cancelled'') em)
        else (running, em))"

definition decide_cancel :: "crates \<Rightarrow> execution \<Rightarrow> string \<Rightarrow> emitter \<Rightarrow> decision_error + decision" where
  "decide_cancel C e reason em =
     (if is_terminal (state_type (ex_state e)) then Inl (AlreadyFinished (state_type (ex_state e)))
      else if ex_cancelling e then Inr []
      else case foldl (cancel_step C) (False, emit_event C (ExecutionCancelling reason) em)
                      (bt_values (ex_steps e)) of
             (running, em1) \<Rightarrow>
               Inr (em_out (if running then em1 else emit_event C ExecutionCancelled em1)))"

definition decide_retry ::
  "crates \<Rightarrow> execution \<Rightarrow> string \<Rightarrow> instant \<Rightarrow> emitter \<Rightarrow> decision_error + decision" where
  "decide_retry C e i now em =
     (case step_of e i of
        Inl err \<Rightarrow> Inl err
      | Inr s \<Rightarrow>
          if state_type (ss_state s) \<noteq> Failed \<and> state_type (ss_state s) \<noteq> Crashed
          then Inl (NotRetryable i (state_type (ss_state s)))
          else if ex_cancelling e then Inl CancellingInProgress
          else Inr (em_out (schedule_attempt C e i (ss_current_attempt s + 1) now em)))"

definition answer_allowed :: "input_request \<Rightarrow> json \<Rightarrow> bool" where
  "answer_allowed request response =
     (rq_choices request = [] \<or>
      is_some_and (\<lambda>value. value \<in> set (rq_choices request)) (as_str response))"

definition decide_provide ::
  "crates \<Rightarrow> execution \<Rightarrow> string \<Rightarrow> u32 \<Rightarrow> string \<Rightarrow> json \<Rightarrow> instant \<Rightarrow> emitter \<Rightarrow>
   decision_error + decision" where
  "decide_provide C e i n by_whom response now em =
     (case step_of e i of
        Inl err \<Rightarrow> Inl err
      | Inr s \<Rightarrow>
          (case ss_awaiting s of
             None \<Rightarrow> Inl (NotWaiting i)
           | Some request \<Rightarrow>
               if ss_current_attempt s \<noteq> n then Inl (StaleAttempt i n (ss_current_attempt s))
               else if is_some_and (\<lambda>deadline. now > deadline) (rq_deadline request)
               then Inl (DeadlinePassed i)
               else if \<not> answer_allowed request response
               then Inl (NotOneOfTheChoices i (rq_choices request))
               else Inr (em_out (answer_lands C e i n by_whom response now (about_step i n em)))))"

definition timeout_policy :: "execution \<Rightarrow> string \<Rightarrow> input_request \<Rightarrow> on_timeout option" where
  "timeout_policy e i request =
     (case rq_on_timeout request of
        Some policy \<Rightarrow> Some policy
      | None \<Rightarrow> map_option hi_on_timeout (plan_human_input e i))"

definition nobody_answered :: "string \<Rightarrow> step_error" where
  "nobody_answered i =
     \<lparr>err_class = FPolicy, err_message = ''nobody answered '' @ i @ '' before its deadline''\<rparr>"

definition decide_timeout ::
  "crates \<Rightarrow> execution \<Rightarrow> string \<Rightarrow> u32 \<Rightarrow> instant \<Rightarrow> emitter \<Rightarrow> decision_error + decision" where
  "decide_timeout C e i n now em =
     (case step_of e i of
        Inl err \<Rightarrow> Inl err
      | Inr s \<Rightarrow>
          (case ss_awaiting s of
             None \<Rightarrow> Inl (NotWaiting i)
           | Some request \<Rightarrow>
               if ss_current_attempt s \<noteq> n then Inl (StaleAttempt i n (ss_current_attempt s))
               else case timeout_policy e i request of
                      None \<Rightarrow> Inl (NoSuchStep i)
                    | Some TimeoutFail \<Rightarrow>
                        Inr (em_out (settle_failure C e i n (nobody_answered i)
                          (emit_event C (StepFailed i n (nobody_answered i)) (about_step i n em))))
                    | Some TimeoutSkip \<Rightarrow>
                        Inr (em_out (continue_after C e i now
                          (emit_event C (StepCompleted i n [] None) (about_step i n em))))
                    | Some (TimeoutAnswer response) \<Rightarrow>
                        Inr (em_out (answer_lands C e i n ANSWERED_BY_TIMEOUT response now
                          (about_step i n em)))))"

definition decide_started ::
  "crates \<Rightarrow> execution \<Rightarrow> string \<Rightarrow> u32 \<Rightarrow> emitter \<Rightarrow> decision_error + decision" where
  "decide_started C e i n em =
     (case step_of e i of
        Inl err \<Rightarrow> Inl err
      | Inr s \<Rightarrow>
          if ss_current_attempt s \<noteq> n then Inl (StaleAttempt i n (ss_current_attempt s))
          else Inr (em_out (emit_event C (StepStarted i n) (about_step i n em))))"

definition decide_input_requested ::
  "crates \<Rightarrow> execution \<Rightarrow> string \<Rightarrow> u32 \<Rightarrow> input_request \<Rightarrow> emitter \<Rightarrow> decision_error + decision" where
  "decide_input_requested C e i n request em =
     (case step_of e i of
        Inl err \<Rightarrow> Inl err
      | Inr s \<Rightarrow>
          if ss_current_attempt s \<noteq> n then Inl (StaleAttempt i n (ss_current_attempt s))
          else if is_terminal (state_type (ss_state s)) then Inl (NotRetryable i (state_type (ss_state s)))
          else Inr (em_out (emit_event C (InputRequested i n request) (about_step i n em))))"

definition decide_cache_hit ::
  "crates \<Rightarrow> execution \<Rightarrow> string \<Rightarrow> u32 \<Rightarrow> string \<Rightarrow> artifact_ref list \<Rightarrow> instant \<Rightarrow> emitter \<Rightarrow>
   decision_error + decision" where
  "decide_cache_hit C e i n key outputs now em =
     (case step_of e i of
        Inl err \<Rightarrow> Inl err
      | Inr s \<Rightarrow>
          if state_type (ss_state s) = Completed then Inr []
          else if ss_current_attempt s \<noteq> n then Inl (StaleAttempt i n (ss_current_attempt s))
          else Inr (em_out (continue_after C e i now
                 (emit_event C (StepCacheHit i n key outputs) (about_step i n em)))))"

definition decide_completed ::
  "crates \<Rightarrow> execution \<Rightarrow> string \<Rightarrow> u32 \<Rightarrow> artifact_ref list \<Rightarrow> json option \<Rightarrow> instant \<Rightarrow> emitter \<Rightarrow>
   decision_error + decision" where
  "decide_completed C e i n outputs result now em =
     (case step_of e i of
        Inl err \<Rightarrow> Inl err
      | Inr s \<Rightarrow>
          if state_type (ss_state s) = Completed then Inr []
          else if ss_current_attempt s \<noteq> n then Inl (StaleAttempt i n (ss_current_attempt s))
          else Inr (em_out (continue_after C e i now
                 (emit_event C (StepCompleted i n outputs result) (about_step i n em)))))"

text \<open>The attempts of a step that failed on the same side of \<open>may_have_run\<close>, this one included.\<close>

definition attempts_spent :: "step_state \<Rightarrow> step_error \<Rightarrow> u32" where
  "attempts_spent s error =
     1 + of_nat (length (filter (\<lambda>failed. may_have_run (err_class failed) = may_have_run (err_class error))
                                (List.map_filter at_error (ss_attempts s))))"

definition retry_budget :: "plan_step \<Rightarrow> step_error \<Rightarrow> u32" where
  "retry_budget step error =
     (if may_have_run (err_class error) then max_attempts (ps_retry step)
      else max_unavailable_attempts (ps_retry step))"

definition may_retry :: "execution \<Rightarrow> plan_step \<Rightarrow> step_state \<Rightarrow> step_error \<Rightarrow> bool" where
  "may_retry e step s error =
     (is_retryable (err_class error) \<and> attempts_spent s error < retry_budget step error \<and>
      \<not> ex_cancelling e)"

text \<open>\<open>time::Duration::try_from\<close> refuses more than \<open>i64::MAX\<close> seconds; the delay is zero then.\<close>

definition retry_not_before :: "plan_step \<Rightarrow> u32 \<Rightarrow> step_error \<Rightarrow> instant \<Rightarrow> instant" where
  "retry_not_before step next error now =
     (let delay = uint (delay_before (ps_retry step) next (\<not> may_have_run (err_class error)))
      in now + (if delay < 2 ^ 63 then seconds delay else 0))"

definition decide_failed ::
  "crates \<Rightarrow> execution \<Rightarrow> string \<Rightarrow> u32 \<Rightarrow> step_error \<Rightarrow> instant \<Rightarrow> emitter \<Rightarrow>
   decision_error + decision" where
  "decide_failed C e i n error now em =
     (case step_of e i of
        Inl err \<Rightarrow> Inl err
      | Inr s \<Rightarrow>
          if is_terminal (state_type (ss_state s)) \<and> ss_current_attempt s \<noteq> n
          then Inl (StaleAttempt i n (ss_current_attempt s))
          else
            (case plan_step_of (ex_plan e) i of
               None \<Rightarrow> Inl (NoSuchStep i)
             | Some step \<Rightarrow>
                 let em1 = emit_event C (StepFailed i n error) (about_step i n em);
                     next = n + 1
                 in if may_retry e step s error then
                      Inr (em_out (emit_command C
                        (ExecuteStep i next (binding_kind (ps_runtime step)) (idempotency_key (ex_id e) i next))
                        (emit_event C (StepRetryScheduled i next (retry_not_before step next error now)) em1)))
                    else Inr (em_out (settle_failure C e i n error em1))))"

fun decide_active ::
  "crates \<Rightarrow> execution \<Rightarrow> workflow_message \<Rightarrow> string \<Rightarrow> instant \<Rightarrow> decision_error + decision" where
  "decide_active C e (Command (StartExecution _)) cause now = Inl AlreadyStarted"
| "decide_active C e (Command PauseExecution) cause now =
     decide_pause C e (emitter_new (ex_id e) cause now)"
| "decide_active C e (Command ResumeExecution) cause now =
     decide_resume C e now (emitter_new (ex_id e) cause now)"
| "decide_active C e (Command (CancelExecution reason)) cause now =
     decide_cancel C e reason (emitter_new (ex_id e) cause now)"
| "decide_active C e (Command (RetryStep i)) cause now =
     decide_retry C e i now (emitter_new (ex_id e) cause now)"
| "decide_active C e (Command (ProvideInput i n by_whom response)) cause now =
     decide_provide C e i n by_whom response now (emitter_new (ex_id e) cause now)"
| "decide_active C e (Command (TimeoutInput i n)) cause now =
     decide_timeout C e i n now (emitter_new (ex_id e) cause now)"
| "decide_active C e (Event (StepStarted i n)) cause now =
     decide_started C e i n (emitter_new (ex_id e) cause now)"
| "decide_active C e (Event (InputRequested i n request)) cause now =
     decide_input_requested C e i n request (emitter_new (ex_id e) cause now)"
| "decide_active C e (Event (StepCacheHit i n key outputs)) cause now =
     decide_cache_hit C e i n key outputs now (emitter_new (ex_id e) cause now)"
| "decide_active C e (Event (StepCompleted i n outputs result)) cause now =
     decide_completed C e i n outputs result now (emitter_new (ex_id e) cause now)"
| "decide_active C e (Event (StepFailed i n error)) cause now =
     decide_failed C e i n error now (emitter_new (ex_id e) cause now)"
| "decide_active C e other cause now = Inl (Unhandled (message_name other))"

definition decide_start ::
  "crates \<Rightarrow> start_request \<Rightarrow> string \<Rightarrow> instant \<Rightarrow> decision_error + decision" where
  "decide_start C r cause now =
     (if plan_steps (st_plan r) = [] then Inl EmptyPlan
      else if \<not> is_acyclic (st_plan r) then Inl CyclicPlan
      else
        let em = emit_event C ExecutionStarted
                   (emit_event C (ExecutionRequested r) (emitter_new (st_execution_id r) cause now));
            started = evolve (evolve initial_state (ExecutionRequested r)) ExecutionStarted
        in Inr (em_out (case active started of
                          Some e \<Rightarrow> dispatch_ready C e now em
                        | None \<Rightarrow> em)))"

fun decide ::
  "crates \<Rightarrow> execution_state \<Rightarrow> workflow_message \<Rightarrow> string \<Rightarrow> instant \<Rightarrow> decision_error + decision" where
  "decide C Empty (Command (StartExecution r)) cause now = decide_start C r cause now"
| "decide C Empty message cause now = Inl (NotStarted (message_name message))"
| "decide C (Active e) message cause now = decide_active C e message cause now"

definition validation_error :: "string \<Rightarrow> step_error" where
  "validation_error message = \<lparr>err_class = FValidation, err_message = message\<rparr>"

end
