(* ===== verification/Evolve.thy ===== *)
theory Evolve
  imports Decide
begin

text \<open>
  The lemma library of the decider. The locale \<open>emission\<close> proves once that whatever a decision
  does keeps a property of the emitter that every single emission keeps; it is interpreted for
  the derived metadata of the outputs. The events a decision emits are then computed as lists,
  independently of the emitter, so that the properties reason about \<open>evolve\<close> over those lists.
\<close>

subsection \<open>What every emission keeps, every decision keeps\<close>

locale event_emission =
  fixes C :: crates
    and P :: "emitter \<Rightarrow> bool"
  assumes event: "P em \<Longrightarrow> P (emit_event C ev em)"
begin

lemma skip_children:
  "skip_children C e current children (frontier, seen, em) = (frontier', seen', em') \<Longrightarrow> P em \<Longrightarrow> P em'"
  by (induction children arbitrary: frontier seen em)
    (auto simp: emit_skip_def split: if_splits dest: event)

lemma skip_loop_aux: "C' = C \<Longrightarrow> P em \<Longrightarrow> P (skip_loop C' e frontier seen em)"
proof (induction C' e frontier seen em rule: skip_loop.induct)
  case (1 C' e seen em)
  then show ?case by simp
next
  case (2 C' e current frontier seen em)
  obtain frontier' seen' em' where step:
    "skip_children C' e current (children_of (ex_plan e) current) (frontier, seen, em)
      = (frontier', seen', em')" by (rule prod_cases3)
  with 2 have "P em'" using skip_children by simp
  with 2 step show ?case by simp
qed

lemmas skip_loop = skip_loop_aux [OF refl]

lemma skip_downstream: "P em \<Longrightarrow> P (skip_downstream C e i em)"
  unfolding skip_downstream_def by (rule skip_loop)

lemma settle: "P em \<Longrightarrow> P (settle_failure C e i n error em)"
  unfolding settle_failure_def Let_def by (auto intro!: event skip_downstream)

lemma cancel_fold:
  "P em \<Longrightarrow> P (snd (foldl (cancel_step C) (b, em) ss))"
  by (induction ss arbitrary: b em) (auto simp: cancel_step_def intro!: event)

end

locale emission = event_emission +
  assumes command: "P em \<Longrightarrow> P (emit_command C cmd em)"
    and about: "P em \<Longrightarrow> P (about_step i n em)"
begin

lemma schedule: "P em \<Longrightarrow> P (schedule_attempt C e i n now em)"
  unfolding schedule_attempt_def Let_def
  by (auto split: option.splits runtime_binding.splits intro!: event command about)

lemma foldl_keeps: "(\<And>em x. P em \<Longrightarrow> P (f em x)) \<Longrightarrow> P em \<Longrightarrow> P (foldl f em xs)"
  by (induction xs arbitrary: em) auto

lemma dispatch: "P em \<Longrightarrow> P (dispatch_ready C e now em)"
  unfolding dispatch_ready_def by (auto intro!: foldl_keeps schedule)

lemma continue: "P em \<Longrightarrow> P (continue_after C e i now em)"
  unfolding continue_after_def Let_def by (auto intro!: event dispatch)

lemma answer: "P em \<Longrightarrow> P (answer_lands C e i n w r now em)"
  unfolding answer_lands_def Let_def by (auto intro!: event continue schedule)

lemmas keeps = event command about schedule dispatch continue answer settle

definition ends_in :: "decision_error + decision \<Rightarrow> bool" where
  "ends_in r = (case r of Inl _ \<Rightarrow> True | Inr out \<Rightarrow> out = [] \<or> (\<exists>em. P em \<and> out = em_out em))"

lemma ends_in_simps [simp]: "ends_in (Inl err)" "ends_in (Inr [])"
  by (simp_all add: ends_in_def)

lemma ends_in_out: "P em \<Longrightarrow> ends_in (Inr (em_out em))"
  by (auto simp: ends_in_def)

lemma ends_in_cancel: "P em \<Longrightarrow> ends_in (decide_cancel C e reason em)"
proof -
  assume "P em"
  then have "P (emit_event C (ExecutionCancelling reason) em)" by (rule event)
  then have "P (snd (foldl (cancel_step C) (False, emit_event C (ExecutionCancelling reason) em)
      (bt_values (ex_steps e))))" by (rule cancel_fold)
  then show ?thesis
    unfolding decide_cancel_def by (auto split: prod.splits intro!: ends_in_out event)
qed

lemma arms_end_in:
  assumes "P em"
  shows "ends_in (decide_pause C e em)" "ends_in (decide_resume C e now em)"
    "ends_in (decide_retry C e i now em)" "ends_in (decide_provide C e i n w r now em)"
    "ends_in (decide_timeout C e i n now em)" "ends_in (decide_started C e i n em)"
    "ends_in (decide_input_requested C e i n q em)" "ends_in (decide_cache_hit C e i n k os now em)"
    "ends_in (decide_completed C e i n os res now em)" "ends_in (decide_failed C e i n err now em)"
  using assms
  by (auto simp: decide_pause_def decide_resume_def decide_retry_def decide_provide_def
      decide_timeout_def decide_started_def decide_input_requested_def decide_cache_hit_def
      decide_completed_def decide_failed_def Let_def
      split: sum.splits option.splits on_timeout.splits intro!: ends_in_out keeps)

lemma active_ends_in:
  assumes "P (emitter_new (ex_id e) cause now)"
  shows "ends_in (decide_active C e input cause now)"
proof (cases input)
  case (Command c)
  with assms show ?thesis by (cases c) (simp_all add: arms_end_in ends_in_cancel)
next
  case (Event ev)
  with assms show ?thesis by (cases ev) (simp_all add: arms_end_in)
qed simp

lemma start_ends_in:
  "P (emitter_new (st_execution_id r) cause now) \<Longrightarrow> ends_in (decide_start C r cause now)"
  unfolding decide_start_def Let_def
  by (auto split: option.splits intro!: ends_in_out keeps)

end

subsection \<open>The metadata of an output\<close>

definition output_derived ::
  "crates \<Rightarrow> string \<Rightarrow> string \<Rightarrow> instant \<Rightarrow> nat \<Rightarrow> pending_message \<Rightarrow> bool" where
  "output_derived C execution cause now k m =
     (pm_direction m = Output \<and>
      md_message_id (pm_metadata m)
        = derive_uuid C (emitted_name execution cause (message_name (pm_message m)) k) \<and>
      md_causation_id (pm_metadata m) = cause \<and>
      md_correlation_id (pm_metadata m) = execution \<and>
      md_occurred_at (pm_metadata m) = now \<and>
      md_schema_version (pm_metadata m) = SCHEMA_VERSION)"

definition emitter_derived :: "crates \<Rightarrow> string \<Rightarrow> string \<Rightarrow> instant \<Rightarrow> emitter \<Rightarrow> bool" where
  "emitter_derived C execution cause now em =
     (em_execution em = execution \<and> em_cause em = cause \<and> em_now em = now \<and>
      (\<forall>k < length (em_out em). output_derived C execution cause now k (em_out em ! k)))"

lemma push_derived:
  assumes "emitter_derived C x cause now em" and "name = message_name message"
  shows "emitter_derived C x cause now (emit_push C name message em)"
  using assms
  by (auto simp: emitter_derived_def emit_push_def Let_def output_derived_def nth_append less_Suc_eq)

interpretation derived: emission C "emitter_derived C execution cause now" for C execution cause now
  by unfold_locales
    (simp_all add: emit_event_def emit_command_def push_derived,
      simp add: emitter_derived_def about_step_def)

definition ordered :: "emitter \<Rightarrow> workflow_command list" where
  "ordered em = commands_of (em_out em)"

lemma ordered_simps [simp]:
  "ordered (emitter_new x cause now) = []"
  "ordered (about_step i n em) = ordered em"
  "ordered (emit_event C ev em) = ordered em"
  "ordered (emit_command C cmd em) = ordered em @ [cmd]"
  "commands_of (em_out em) = ordered em"
  by (simp_all add: ordered_def emitter_new_def about_step_def emit_event_def emit_command_def
      emit_push_def Let_def)

interpretation unordered: event_emission C "\<lambda>em. ordered em = cmds" for C cmds
  by unfold_locales simp

lemma new_derived: "emitter_derived C x cause now (emitter_new x cause now)"
  by (simp add: emitter_derived_def emitter_new_def)

subsection \<open>The events of an emission\<close>

definition emitted :: "emitter \<Rightarrow> workflow_event list" where
  "emitted em = events_of (em_out em)"

lemma emitted_simps [simp]:
  "emitted (emitter_new x cause now) = []"
  "emitted (about_step i n em) = emitted em"
  "emitted (emit_event C ev em) = emitted em @ [ev]"
  "emitted (emit_command C cmd em) = emitted em"
  by (simp_all add: emitted_def emitter_new_def about_step_def emit_event_def emit_command_def
      emit_push_def Let_def)

lemma events_of_out [simp]: "events_of (em_out em) = emitted em"
  by (simp add: emitted_def)

definition schedule_events ::
  "crates \<Rightarrow> execution \<Rightarrow> string \<Rightarrow> u32 \<Rightarrow> instant \<Rightarrow> workflow_event list" where
  "schedule_events C e i n now =
     (case plan_step_of (ex_plan e) i of
        None \<Rightarrow> []
      | Some step \<Rightarrow>
          StepScheduled i n (binding_kind (ps_runtime step)) (scheduled_key C e step i) #
          (case ps_runtime step of
             HumanInput spec \<Rightarrow> [InputRequested i n (gate_request spec now)]
           | _ \<Rightarrow> []))"

lemma emitted_schedule [simp]:
  "emitted (schedule_attempt C e i n now em) = emitted em @ schedule_events C e i n now"
  by (auto simp: schedule_attempt_def schedule_events_def Let_def
      split: option.splits runtime_binding.splits)

definition dispatch_held :: "execution \<Rightarrow> bool" where
  "dispatch_held e = (ex_mode e = Hosted \<or> state_type (ex_state e) = Paused \<or> ex_cancelling e)"

definition ready_ids :: "execution \<Rightarrow> string list" where
  "ready_ids e =
     (if dispatch_held e then [] else filter (step_ready e) (map ps_id (plan_steps (ex_plan e))))"

definition dispatch_events :: "crates \<Rightarrow> execution \<Rightarrow> instant \<Rightarrow> workflow_event list" where
  "dispatch_events C e now = concat (map (\<lambda>i. schedule_events C e i 1 now) (ready_ids e))"

lemma emitted_dispatch_foldl:
  "emitted (foldl (\<lambda>em step. if step_ready e (ps_id step) then schedule_attempt C e (ps_id step) 1 now em
                             else em) em steps)
     = emitted em @ concat (map (\<lambda>i. schedule_events C e i 1 now) (filter (step_ready e) (map ps_id steps)))"
  by (induction steps arbitrary: em) auto

lemma emitted_dispatch [simp]:
  "emitted (dispatch_ready C e now em) = emitted em @ dispatch_events C e now"
  by (auto simp: dispatch_ready_def dispatch_events_def ready_ids_def dispatch_held_def
      emitted_dispatch_foldl)

subsection \<open>The steps downstream\<close>

definition plan_rel :: "execution_plan \<Rightarrow> (string \<times> string) set" where
  "plan_rel plan = {(a, b). PlanEdge a b \<in> set (plan_edges plan)}"

definition skip_events_of :: "execution \<Rightarrow> (string \<times> string) list \<Rightarrow> workflow_event list" where
  "skip_events_of e vs = map (\<lambda>(child, parent). skip_event child parent)
                             (filter (\<lambda>(child, parent). step_unfinished e child) vs)"

lemma skip_events_append: "skip_events_of e (a @ b) = skip_events_of e a @ skip_events_of e b"
  by (simp add: skip_events_of_def)

lemma skip_children_visits:
  assumes "skip_children C e current children (frontier, seen, em) = (frontier', seen', em')"
  shows "\<exists>vs. emitted em' = emitted em @ skip_events_of e (map (\<lambda>c. (c, current)) vs) \<and> distinct vs \<and>
           set vs \<inter> fst ` set seen = {} \<and> set vs \<subseteq> set children \<and>
           set children \<subseteq> fst ` set seen \<union> set vs \<and>
           fst ` set seen' = fst ` set seen \<union> set vs \<and> set frontier' = set frontier \<union> set vs"
  using assms
proof (induction children arbitrary: frontier seen em)
  case Nil
  then show ?case by (intro exI [of _ "[]"]) (auto simp: skip_events_of_def)
next
  case (Cons child children)
  show ?case
  proof (cases "bt_get seen child = None")
    case False
    then have mem: "child \<in> fst ` set seen" by (auto simp: bt_get_None_iff)
    from Cons.IH [of frontier seen em] Cons.prems False obtain vs where
      "emitted em' = emitted em @ skip_events_of e (map (\<lambda>c. (c, current)) vs)" "distinct vs"
      "set vs \<inter> fst ` set seen = {}" "set vs \<subseteq> set children"
      "set children \<subseteq> fst ` set seen \<union> set vs" "fst ` set seen' = fst ` set seen \<union> set vs"
      "set frontier' = set frontier \<union> set vs" by auto
    with mem show ?thesis by (intro exI [of _ vs]) auto
  next
    case True
    then have new: "child \<notin> fst ` set seen" by (simp add: bt_get_None_iff)
    from Cons.IH [of "child # frontier" "bt_insert child () seen" "emit_skip C e current child em"]
      Cons.prems True obtain vs where vs:
      "emitted em' = emitted (emit_skip C e current child em) @ skip_events_of e (map (\<lambda>c. (c, current)) vs)"
      "distinct vs" "set vs \<inter> insert child (fst ` set seen) = {}" "set vs \<subseteq> set children"
      "set children \<subseteq> insert child (fst ` set seen) \<union> set vs"
      "fst ` set seen' = insert child (fst ` set seen) \<union> set vs"
      "set frontier' = insert child (set frontier) \<union> set vs" by auto
    have "emitted em' = emitted em @ skip_events_of e (map (\<lambda>c. (c, current)) (child # vs))"
      using vs(1) by (simp add: emit_skip_def skip_events_of_def)
    with vs new show ?thesis by (intro exI [of _ "child # vs"]) auto
  qed
qed

lemma skip_loop_visits:
  "\<exists>vs. emitted (skip_loop C e frontier seen em) = emitted em @ skip_events_of e vs \<and>
        distinct (map fst vs) \<and> fst ` set vs \<inter> fst ` set seen = {} \<and>
        fst ` set vs \<subseteq> (plan_rel (ex_plan e))\<^sup>+ `` set frontier \<and>
        (\<forall>x \<in> set frontier \<union> fst ` set vs. plan_rel (ex_plan e) `` {x} \<subseteq> fst ` set seen \<union> fst ` set vs)
        \<and> (\<forall>(c, p) \<in> set vs. (p, c) \<in> plan_rel (ex_plan e))"
proof (induction C e frontier seen em rule: skip_loop.induct)
  case (1 C e seen em)
  then show ?case by (intro exI [of _ "[]"]) (simp add: skip_events_of_def)
next
  case (2 C e current frontier seen em)
  let ?R = "plan_rel (ex_plan e)"
  have kids: "set (children_of (ex_plan e) current) = ?R `` {current}"
    by (auto simp: children_of_iff plan_rel_def)
  obtain frontier' seen' em' where step:
    "skip_children C e current (children_of (ex_plan e) current) (frontier, seen, em)
      = (frontier', seen', em')" by (rule prod_cases3)
  from skip_children_visits [OF step] kids obtain vs where vs:
    "emitted em' = emitted em @ skip_events_of e (map (\<lambda>c. (c, current)) vs)" "distinct vs"
    "set vs \<inter> fst ` set seen = {}" "set vs \<subseteq> ?R `` {current}"
    "?R `` {current} \<subseteq> fst ` set seen \<union> set vs"
    "fst ` set seen' = fst ` set seen \<union> set vs" "set frontier' = set frontier \<union> set vs" by auto
  from "2.IH" [OF step [symmetric] refl] obtain ws where ws:
    "emitted (skip_loop C e frontier' seen' em') = emitted em' @ skip_events_of e ws"
    "distinct (map fst ws)" "fst ` set ws \<inter> fst ` set seen' = {}"
    "fst ` set ws \<subseteq> ?R\<^sup>+ `` set frontier'"
    "\<forall>x \<in> set frontier' \<union> fst ` set ws. ?R `` {x} \<subseteq> fst ` set seen' \<union> fst ` set ws"
    "\<forall>(c, p) \<in> set ws. (p, c) \<in> ?R" by blast
  let ?us = "map (\<lambda>c. (c, current)) vs @ ws"
  have fst_us: "fst ` set ?us = set vs \<union> fst ` set ws" by force
  have reach: "fst ` set ?us \<subseteq> ?R\<^sup>+ `` set (current # frontier)"
  proof -
    have "set vs \<subseteq> ?R\<^sup>+ `` {current}" using vs(4) by blast
    moreover from this have "?R\<^sup>+ `` set vs \<subseteq> ?R\<^sup>+ `` {current}"
      by (blast intro: trancl_trans)
    moreover have "fst ` set ws \<subseteq> ?R\<^sup>+ `` set frontier \<union> ?R\<^sup>+ `` set vs"
      using ws(4) vs(7) by (simp add: Image_Un)
    ultimately have "set vs \<union> fst ` set ws \<subseteq> ?R\<^sup>+ `` {current} \<union> ?R\<^sup>+ `` set frontier"
      by blast
    then show ?thesis unfolding fst_us by (auto simp: Image_Un)
  qed
  have closed: "\<forall>x \<in> set (current # frontier) \<union> fst ` set ?us.
      ?R `` {x} \<subseteq> fst ` set seen \<union> fst ` set ?us"
    using vs(5-7) ws(5) unfolding fst_us by auto
  have dist: "distinct (map fst ?us)"
    using vs(2) ws(2,3) vs(6) by (auto simp: comp_def)
  have out: "emitted (skip_loop C e (current # frontier) seen em) = emitted em @ skip_events_of e ?us"
    using step vs(1) ws(1) by (simp add: skip_events_append)
  have fresh: "fst ` set ?us \<inter> fst ` set seen = {}"
    unfolding fst_us using vs(3,6) ws(3) by (simp only: Int_Un_distrib2) blast
  have parents: "\<forall>(c, p) \<in> set ?us. (p, c) \<in> ?R"
    using vs(4) ws(6) by auto
  from out dist fresh reach closed parents show ?case by blast
qed

lemma trancl_closed_Image:
  assumes "\<And>x. x \<in> insert i V \<Longrightarrow> R `` {x} \<subseteq> V"
  shows "R\<^sup>+ `` {i} \<subseteq> V"
proof
  fix y
  assume "y \<in> R\<^sup>+ `` {i}"
  then have "(i, y) \<in> R\<^sup>+" by simp
  then show "y \<in> V"
    by (induction rule: trancl_induct) (use assms in blast)+
qed

lemma skip_downstream_visits:
  "\<exists>vs. emitted (skip_downstream C e i em) = emitted em @ skip_events_of e vs \<and>
        distinct (map fst vs) \<and> fst ` set vs = (plan_rel (ex_plan e))\<^sup>+ `` {i} \<and>
        (\<forall>(c, p) \<in> set vs. (p, c) \<in> plan_rel (ex_plan e))"
proof -
  from skip_loop_visits [of C e "[i]" "[]" em] obtain vs where vs:
    "emitted (skip_loop C e [i] [] em) = emitted em @ skip_events_of e vs"
    "distinct (map fst vs)" "fst ` set vs \<subseteq> (plan_rel (ex_plan e))\<^sup>+ `` {i}"
    "\<forall>x \<in> {i} \<union> fst ` set vs. plan_rel (ex_plan e) `` {x} \<subseteq> fst ` set vs"
    "\<forall>(c, p) \<in> set vs. (p, c) \<in> plan_rel (ex_plan e)" by auto
  from vs(4) have "(plan_rel (ex_plan e))\<^sup>+ `` {i} \<subseteq> fst ` set vs"
    by (intro trancl_closed_Image) auto
  with vs show ?thesis by (auto simp: skip_downstream_def)
qed

section \<open>Folding a history\<close>

text \<open>
  What folding events preserves: the steps of a run are the steps of its plan, in key order,
  each under its own id and at the number of its last attempt; the identity of the run (its
  plan, owner, mode, payload policy and input) is what its first \<open>ExecutionRequested\<close> said and
  nothing changes it afterwards.
\<close>

definition apply_all :: "execution \<Rightarrow> workflow_event list \<Rightarrow> execution" where
  "apply_all e evs = foldl apply_event e evs"

lemma apply_all_simps [simp]:
  "apply_all e [] = e"
  "apply_all e (ev # evs) = apply_all (apply_event e ev) evs"
  "apply_all e (evs @ evs') = apply_all (apply_all e evs) evs'"
  by (simp_all add: apply_all_def)

lemma foldl_evolve_Active: "foldl evolve (Active e) evs = Active (apply_all e evs)"
  by (induction evs arbitrary: e) simp_all

subsection \<open>The step an event touches\<close>

fun touched :: "workflow_event \<Rightarrow> string option" where
  "touched (StepScheduled i _ _ _) = Some i"
| "touched (StepRetryScheduled i _ _) = Some i"
| "touched (StepStarted i _) = Some i"
| "touched (StepCompleted i _ _ _) = Some i"
| "touched (StepCacheHit i _ _ _) = Some i"
| "touched (StepFailed i _ _) = Some i"
| "touched (StepSkipped i _) = Some i"
| "touched (InputRequested i _ _) = Some i"
| "touched (InputProvided i _ _ _) = Some i"
| "touched _ = None"

fun touch :: "workflow_event \<Rightarrow> step_state \<Rightarrow> step_state" where
  "touch (StepScheduled _ n _ key) = apply_scheduled n key"
| "touch (StepRetryScheduled _ n not_before) = apply_retry_scheduled n not_before"
| "touch (StepStarted _ n) = apply_started n"
| "touch (StepCompleted _ n outputs _) = apply_completed n outputs"
| "touch (StepCacheHit _ n key outputs) = apply_cache_hit n key outputs"
| "touch (StepFailed _ n error) = apply_failed n error"
| "touch (StepSkipped _ reason) = apply_skipped reason"
| "touch (InputRequested _ n request) = apply_input_requested n request"
| "touch (InputProvided _ n w r) = apply_input_provided n w r"
| "touch _ = id"

lemma apply_event_step:
  "ex_step (apply_event e ev) j =
     (if touched ev = Some j then map_option (touch ev) (ex_step e j) else ex_step e j)"
  by (cases ev) (auto simp: ex_step_def ex_step_mut_def)

lemma apply_event_touched: "touched ev = Some i \<Longrightarrow> apply_event e ev = ex_step_mut i (touch ev) e"
  by (cases ev) simp_all

lemma apply_event_untouched: "touched ev = None \<Longrightarrow> ex_steps (apply_event e ev) = ex_steps e"
  by (cases ev) simp_all

lemma apply_event_frame [simp]:
  "ex_plan (apply_event e ev) = ex_plan e" "ex_id (apply_event e ev) = ex_id e"
  "ex_mode (apply_event e ev) = ex_mode e" "ex_owner (apply_event e ev) = ex_owner e"
  "ex_payloads (apply_event e ev) = ex_payloads e" "ex_input (apply_event e ev) = ex_input e"
  "ex_requested_by (apply_event e ev) = ex_requested_by e"
  "ex_created_at (apply_event e ev) = ex_created_at e"
  by (cases ev; simp)+

lemma apply_all_frame [simp]:
  "ex_plan (apply_all e evs) = ex_plan e" "ex_id (apply_all e evs) = ex_id e"
  "ex_mode (apply_all e evs) = ex_mode e" "ex_owner (apply_all e evs) = ex_owner e"
  "ex_payloads (apply_all e evs) = ex_payloads e" "ex_input (apply_all e evs) = ex_input e"
  "ex_requested_by (apply_all e evs) = ex_requested_by e"
  "ex_created_at (apply_all e evs) = ex_created_at e"
  by (induction evs arbitrary: e) simp_all

lemma apply_event_run:
  "touched ev = Some i \<Longrightarrow> ex_state (apply_event e ev) = ex_state e"
  "touched ev = Some i \<Longrightarrow> ex_cancelling (apply_event e ev) = ex_cancelling e"
  by (cases ev; simp)+

subsection \<open>Well-formed executions\<close>

definition step_wf :: "string \<Rightarrow> step_state \<Rightarrow> bool" where
  "step_wf i s \<longleftrightarrow>
     ss_step_id s = i \<and>
     ss_current_attempt s = (if ss_attempts s = [] then 0 else at_attempt (last (ss_attempts s)))"

definition execution_wf :: "execution \<Rightarrow> bool" where
  "execution_wf e \<longleftrightarrow>
     bt_ok (ex_steps e) \<and>
     fst ` set (ex_steps e) = ps_id ` set (plan_steps (ex_plan e)) \<and>
     (\<forall>i s. ex_step e i = Some s \<longrightarrow> step_wf i s)"

lemma last_update_attempt:
  assumes "\<And>r. at_attempt (f r) = at_attempt r" and "rs \<noteq> []"
  shows "at_attempt (last (update_attempt n f rs)) = at_attempt (last rs)"
proof -
  have ne: "update_attempt n f rs \<noteq> []"
    using assms(2) length_update_attempt [of n f rs] by fastforce
  have "at_attempt (last (update_attempt n f rs)) = last (map at_attempt (update_attempt n f rs))"
    using ne by (simp add: last_map)
  also have "map at_attempt (update_attempt n f rs) = map at_attempt rs"
    using assms(1) by simp
  also have "last (map at_attempt rs) = at_attempt (last rs)" using assms(2) by (simp add: last_map)
  finally show ?thesis .
qed

lemma update_attempt_Nil [simp]: "update_attempt n f rs = [] \<longleftrightarrow> rs = []"
  by (cases rs) simp_all

lemma touch_wf: "step_wf i s \<Longrightarrow> step_wf i (touch ev s)"
  by (cases ev)
    (simp_all add: step_wf_def apply_scheduled_def apply_retry_scheduled_def apply_started_def
      apply_completed_def apply_cache_hit_def apply_failed_def apply_skipped_def
      apply_input_requested_def apply_input_provided_def attempt_pending_def Let_def
      last_update_attempt)

lemma apply_event_keys: "map fst (ex_steps (apply_event e ev)) = map fst (ex_steps e)"
  by (cases "touched ev") (simp_all add: apply_event_touched apply_event_untouched)

lemma apply_event_wf:
  assumes "execution_wf e"
  shows "execution_wf (apply_event e ev)"
proof -
  have "bt_ok (ex_steps (apply_event e ev))"
    using assms apply_event_keys [of e ev] by (simp add: execution_wf_def bt_ok_def)
  moreover have "fst ` set (ex_steps (apply_event e ev)) = ps_id ` set (plan_steps (ex_plan e))"
    using assms arg_cong [OF apply_event_keys [of e ev], of set] by (simp add: execution_wf_def)
  moreover have "ex_step (apply_event e ev) i = Some s \<longrightarrow> step_wf i s" for i s
    using assms by (auto simp: execution_wf_def apply_event_step intro!: touch_wf split: if_splits)
  ultimately show ?thesis by (simp add: execution_wf_def)
qed

lemma apply_all_wf: "execution_wf e \<Longrightarrow> execution_wf (apply_all e evs)"
  by (induction evs arbitrary: e) (simp_all add: apply_event_wf)

lemma requested_step:
  "ex_step (execution_requested r) i = Some s \<Longrightarrow>
     \<exists>step \<in> set (plan_steps (st_plan r)). ps_id step = i \<and>
        s = step_fresh i (binding_kind (ps_runtime step))"
  by (auto simp: execution_requested_def ex_step_def bt_get_collect dest!: map_of_SomeD)

lemma requested_wf: "execution_wf (execution_requested r)"
proof -
  have "ex_step (execution_requested r) i = Some s \<Longrightarrow> step_wf i s" for i s
    by (drule requested_step) (auto simp: step_wf_def step_fresh_def)
  then show ?thesis
    by (simp add: execution_wf_def) (simp add: execution_requested_def image_image)
qed

lemma wf_values:
  "execution_wf e \<Longrightarrow> (\<forall>s \<in> set (bt_values (ex_steps e)). P s) \<longleftrightarrow> (\<forall>i s. ex_step e i = Some s \<longrightarrow> P s)"
  by (simp add: execution_wf_def ex_step_def bt_values_all)

lemma wf_step_id: "execution_wf e \<Longrightarrow> ex_step e i = Some s \<Longrightarrow> ss_step_id s = i"
  by (simp add: execution_wf_def step_wf_def)

lemma wf_has_step: "execution_wf e \<Longrightarrow> (\<exists>s. ex_step e i = Some s) \<longleftrightarrow> i \<in> ps_id ` set (plan_steps (ex_plan e))"
  by (simp add: execution_wf_def ex_step_def bt_get_dom)

lemma plan_step_of_mem: "(\<exists>step. plan_step_of plan i = Some step) \<longleftrightarrow> i \<in> ps_id ` set (plan_steps plan)"
  unfolding plan_step_of_def find_map_Some by auto

subsection \<open>The identity of a run\<close>

fun requested :: "workflow_event list \<Rightarrow> start_request option" where
  "requested [] = None"
| "requested (ExecutionRequested r # evs) = Some r"
| "requested (ev # evs) = requested evs"

lemma foldl_evolve_Empty:
  "foldl evolve Empty evs = Empty \<longleftrightarrow> requested evs = None"
  "foldl evolve Empty evs = Active e \<Longrightarrow>
     \<exists>r rest. requested evs = Some r \<and> e = apply_all (execution_requested r) rest"
proof (induction evs rule: requested.induct)
  case 1
  { case 1 show ?case by simp next case 2 then show ?case by simp }
next
  case (2 r evs)
  { case 1 show ?case by (simp add: foldl_evolve_Active)
  next case 2 then show ?case by (auto simp: foldl_evolve_Active) }
qed simp_all

text \<open>C21: Replaying any stream gives either no run or a well-formed one: its steps are exactly the
  plan's, each at the number of its last attempt, and its id, plan, owner, mode, payload policy and
  input are those of the first request in the stream, whatever followed it.\<close>

theorem replay_well_formed:
  assumes "replay evs = Active e"
  shows "execution_wf e \<and>
         (\<exists>r. requested evs = Some r \<and> ex_id e = st_execution_id r \<and> ex_plan e = st_plan r \<and>
              ex_owner e = st_owner r \<and> ex_mode e = st_mode r \<and> ex_payloads e = st_payloads r \<and>
              ex_input e = st_input r)"
proof -
  from assms foldl_evolve_Empty(2) [of evs e] obtain r rest where
    "requested evs = Some r" "e = apply_all (execution_requested r) rest"
    by (auto simp: replay_def initial_state_def)
  then show ?thesis
    by (simp add: apply_all_wf requested_wf) (simp add: execution_requested_def)
qed

definition demo_step :: "string \<Rightarrow> plan_step" where
  "demo_step i =
     \<lparr>ps_id = i,
      ps_runtime = PythonTask \<lparr>pt_task_ref = ''digest@0f0f'', pt_queue = ''default'', pt_params = []\<rparr>,
      ps_inputs = [], ps_outputs = [], ps_retry = retry_default, ps_timeout_seconds = 60,
      ps_cache = CacheNever\<rparr>"

definition demo_plan :: "string list \<Rightarrow> plan_edge list \<Rightarrow> execution_plan" where
  "demo_plan ids edges =
     \<lparr>plan_id = ''p'', plan_kind = WorkflowKind, plan_name = ''demo'', plan_revision = ''r'',
      plan_steps = map demo_step ids, plan_edges = edges\<rparr>"

definition demo_request :: "execution_plan \<Rightarrow> start_request" where
  "demo_request plan =
     \<lparr>st_execution_id = ''x1'', st_plan = plan, st_owner = OwnerLocal, st_mode = Compiled,
      st_payloads = External, st_requested_by = ''ada'', st_input = []\<rparr>"

theorem replay_well_formed_witness:
  "\<exists>e. replay [ExecutionPaused, ExecutionRequested (demo_request (demo_plan [''b'', ''a''] [])),
               StepStarted ''a'' 3] = Active e \<and> execution_wf e \<and> ex_owner e = OwnerLocal"
proof -
  let ?evs = "[ExecutionPaused, ExecutionRequested (demo_request (demo_plan [''b'', ''a''] [])),
               StepStarted ''a'' 3]"
  obtain e where e: "replay ?evs = Active e" by (simp add: replay_def initial_state_def)
  from replay_well_formed [OF e] show ?thesis using e by (auto simp: demo_request_def)
qed

end
