(* ===== verification/Decide_Props.thy ===== *)
theory Decide_Props
  imports Evolve
begin

text \<open>
  What one decision promises: every output is caused by the input and carries an id derived from
  it, the ids of one decision are distinct, a redelivered completion changes nothing, a cancel
  stops everything that has not started, a failure is retried exactly within its budget, an
  answer is taken exactly when the question allows it. The last property shows what the decision
  does not refuse: a late failure report that reopens a completed step.
\<close>

subsection \<open>The events of the composite operations\<close>

definition completed_after :: "string \<Rightarrow> execution \<Rightarrow> execution" where
  "completed_after i e = ex_step_mut i (\<lambda>s. s\<lparr>ss_state := state_of Completed, ss_awaiting := None\<rparr>) e"

definition all_completed :: "execution \<Rightarrow> bool" where
  "all_completed e = list_all (\<lambda>s. state_type (ss_state s) = Completed) (bt_values (ex_steps e))"

definition nothing_running :: "execution \<Rightarrow> bool" where
  "nothing_running e = list_all (\<lambda>s. state_type (ss_state s) \<noteq> Running) (bt_values (ex_steps e))"

definition continue_events :: "crates \<Rightarrow> execution \<Rightarrow> string \<Rightarrow> instant \<Rightarrow> workflow_event list" where
  "continue_events C e i now =
     (if ex_cancelling e
      then (if nothing_running (completed_after i e) then [ExecutionCancelled] else [])
      else dispatch_events C (completed_after i e) now @
           (if all_completed (completed_after i e) then [ExecutionCompleted] else []))"

lemma emitted_continue [simp]:
  "emitted (continue_after C e i now em) = emitted em @ continue_events C e i now"
  by (simp add: continue_after_def continue_events_def Let_def completed_after_def
      nothing_running_def all_completed_def)

definition answer_events ::
  "crates \<Rightarrow> execution \<Rightarrow> string \<Rightarrow> u32 \<Rightarrow> string \<Rightarrow> json \<Rightarrow> instant \<Rightarrow> workflow_event list" where
  "answer_events C e i n w response now =
     InputProvided i n w response #
     (if plan_human_input e i \<noteq> None
      then StepCompleted i n [] (Some response) # continue_events C e i now
      else if ex_mode e = Hosted then []
      else schedule_events C (ex_step_mut i (apply_input_provided n w response) e) i (n + 1) now)"

lemma emitted_answer [simp]:
  "emitted (answer_lands C e i n w response now em) = emitted em @ answer_events C e i n w response now"
  by (simp add: answer_lands_def answer_events_def Let_def)

definition settled_execution :: "execution \<Rightarrow> string \<Rightarrow> u32 \<Rightarrow> step_error \<Rightarrow> execution" where
  "settled_execution e i n error =
     (let st = state_of (failed_state (err_class error))
      in ex_step_mut i (\<lambda>s. s\<lparr>ss_state := st\<rparr>) (set_attempt_state i n st e))"

definition run_ending :: "execution \<Rightarrow> string \<Rightarrow> step_error \<Rightarrow> workflow_event" where
  "run_ending e i error =
     (if ex_cancelling e then ExecutionCancelled
      else ExecutionFailed (i @ '' failed: '' @ err_message error))"

lemma emitted_settle_skips:
  "emitted (settle_failure C e i n error em)
     = emitted (skip_downstream C (settled_execution e i n error) i em) @ [run_ending e i error]"
  by (simp add: settle_failure_def settled_execution_def run_ending_def Let_def)

lemma settled_frame [simp]:
  "ex_plan (settled_execution e i n error) = ex_plan e"
  by (simp add: settled_execution_def Let_def set_attempt_state_def)

lemma settled_unfinished:
  "step_unfinished (settled_execution e i n error) c \<longleftrightarrow> c \<noteq> i \<and> step_unfinished e c"
  by (auto simp: settled_execution_def Let_def step_unfinished_def set_attempt_state_def is_some_and_iff)

definition skippable :: "execution \<Rightarrow> string \<Rightarrow> string set" where
  "skippable e i = {c. c \<noteq> i \<and> (i, c) \<in> (plan_rel (ex_plan e))\<^sup>+ \<and> step_unfinished e c}"

lemma skip_event_list:
  "\<exists>vs. emitted (skip_downstream C e i em) = emitted em @ map (\<lambda>(c, p). skip_event c p) vs \<and>
        distinct (map fst vs) \<and>
        fst ` set vs = {c. (i, c) \<in> (plan_rel (ex_plan e))\<^sup>+ \<and> step_unfinished e c} \<and>
        set vs \<subseteq> {(c, p). (p, c) \<in> plan_rel (ex_plan e)}"
proof -
  from skip_downstream_visits [of C e i em] obtain vs where vs:
    "emitted (skip_downstream C e i em) = emitted em @ skip_events_of e vs"
    "distinct (map fst vs)" "fst ` set vs = (plan_rel (ex_plan e))\<^sup>+ `` {i}"
    "\<forall>(c, p) \<in> set vs. (p, c) \<in> plan_rel (ex_plan e)" by blast
  let ?ws = "filter (\<lambda>(c, p). step_unfinished e c) vs"
  have "fst ` set ?ws = {c \<in> fst ` set vs. step_unfinished e c}" by force
  with vs(3) have "fst ` set ?ws = {c. (i, c) \<in> (plan_rel (ex_plan e))\<^sup>+ \<and> step_unfinished e c}" by auto
  moreover have "distinct (map fst ?ws)" using vs(2) by (rule distinct_map_filter)
  moreover have "set ?ws \<subseteq> {(c, p). (p, c) \<in> plan_rel (ex_plan e)}" using vs(4) by auto
  moreover have "emitted (skip_downstream C e i em) = emitted em @ map (\<lambda>(c, p). skip_event c p) ?ws"
    using vs(1) by (simp add: skip_events_of_def)
  ultimately show ?thesis by blast
qed

lemma settle_event_list:
  "\<exists>vs. emitted (settle_failure C e i n error em)
          = emitted em @ map (\<lambda>(c, p). skip_event c p) vs @ [run_ending e i error] \<and>
        distinct (map fst vs) \<and> fst ` set vs = skippable e i \<and>
        set vs \<subseteq> {(c, p). (p, c) \<in> plan_rel (ex_plan e)}"
  using skip_event_list [of C "settled_execution e i n error" i em]
  by (simp add: emitted_settle_skips skippable_def settled_unfinished conj_ac)

subsection \<open>Outputs and their ids\<close>

fun decided_execution :: "execution_state \<Rightarrow> workflow_message \<Rightarrow> string" where
  "decided_execution (Active e) _ = ex_id e"
| "decided_execution Empty (Command (StartExecution r)) = st_execution_id r"
| "decided_execution Empty _ = []"

lemma decide_out_derived:
  assumes "decide C st input cause now = Inr out" and "k < length out"
  shows "output_derived C (decided_execution st input) cause now k (out ! k)"
proof -
  have "derived.ends_in C (decided_execution st input) cause now (decide C st input cause now)"
  proof (cases st)
    case (Active e)
    have "emitter_derived C (ex_id e) cause now (emitter_new (ex_id e) cause now)"
      by (rule new_derived)
    from derived.active_ends_in [OF this] Active show ?thesis by simp
  next
    case Empty
    show ?thesis
    proof (cases "\<exists>r. input = Command (StartExecution r)")
      case True
      then obtain r where "input = Command (StartExecution r)" ..
      with Empty derived.start_ends_in [OF new_derived] show ?thesis by simp
    next
      case False
      then have "decide C Empty input cause now = Inl (NotStarted (message_name input))"
        by (cases input rule: workflow_message.exhaust; (simp; fail)?)
          (metis decide.simps(2-10) workflow_command.exhaust)
      with Empty show ?thesis by simp
    qed
  qed
  with assms show ?thesis by (auto simp: derived.ends_in_def emitter_derived_def)
qed

lemma emitted_name_inj:
  "emitted_name x c n k = emitted_name x c m l \<Longrightarrow> k = l"
proof -
  assume "emitted_name x c n k = emitted_name x c m l"
  then have "(n @ [CHR ''/''] @ show_nat k) = (m @ [CHR ''/''] @ show_nat l)"
    by (simp add: emitted_name_def)
  from append_sep_inj [OF this] have "show_nat k = show_nat l" by simp
  then show "k = l" by (rule show_nat_inj)
qed

subsection \<open>Untouched steps\<close>

lemma apply_all_untouched:
  "(\<And>ev. ev \<in> set evs \<Longrightarrow> touched ev \<noteq> Some i) \<Longrightarrow> ex_step (apply_all e evs) i = ex_step e i"
  by (induction evs arbitrary: e) (simp_all add: apply_event_step)

lemma touched_schedule: "ev \<in> set (schedule_events C e i n now) \<Longrightarrow> touched ev = Some i"
  by (auto simp: schedule_events_def split: option.splits runtime_binding.splits)

lemma touched_dispatch:
  "ev \<in> set (dispatch_events C e now) \<Longrightarrow> \<exists>j. touched ev = Some j \<and> step_ready e j"
  by (auto simp: dispatch_events_def ready_ids_def dest: touched_schedule split: if_splits)

lemma completed_not_ready [simp]: "\<not> step_ready (completed_after i e) i"
  by (auto simp: step_ready_def completed_after_def split: option.splits)

lemma touched_continue: "ev \<in> set (continue_events C e i now) \<Longrightarrow> touched ev \<noteq> Some i"
  by (auto simp: continue_events_def dest!: touched_dispatch split: if_splits)

lemma completion_out:
  assumes "decide_active C e (Event (StepCompleted i n outs res)) cause now = Inr out"
  shows "\<exists>s. ex_step (apply_all e (events_of out)) i = Some s \<and> state_type (ss_state s) = Completed"
proof -
  from assms obtain s where s: "ex_step e i = Some s"
    by (auto simp: decide_completed_def step_of_def split: option.splits)
  show ?thesis
  proof (cases "state_type (ss_state s) = Completed")
    case True
    with assms s show ?thesis by (simp add: decide_completed_def step_of_def)
  next
    case False
    with assms s have "events_of out = StepCompleted i n outs res # continue_events C e i now"
      by (auto simp: decide_completed_def step_of_def split: if_splits)
    moreover have "ex_step (apply_all (apply_event e (StepCompleted i n outs res))
        (continue_events C e i now)) i = ex_step (apply_event e (StepCompleted i n outs res)) i"
      by (rule apply_all_untouched) (rule touched_continue)
    ultimately show ?thesis using s by (simp add: apply_completed_def)
  qed
qed

subsection \<open>Cancelling\<close>

definition not_started :: "step_state \<Rightarrow> bool" where
  "not_started s = (state_type (ss_state s) = Scheduled \<or> state_type (ss_state s) = Pending)"

definition in_hand :: "step_state \<Rightarrow> bool" where
  "in_hand s = (state_type (ss_state s) = Running \<or> state_type (ss_state s) = AwaitingInput)"

definition cancel_skips :: "step_state list \<Rightarrow> workflow_event list" where
  "cancel_skips ss =
     map (\<lambda>s. StepSkipped (ss_step_id s) ''the execution was cancelled'') (filter not_started ss)"

lemma cancel_step_fold:
  "fst (foldl (cancel_step C) (b, em) ss) = (b \<or> list_ex in_hand ss)"
  "emitted (snd (foldl (cancel_step C) (b, em) ss)) = emitted em @ cancel_skips ss"
  by (induction ss arbitrary: b em)
    (auto simp: cancel_step_def in_hand_def not_started_def cancel_skips_def)

lemma cancel_out:
  assumes "decide_cancel C e reason em = Inr out" and "\<not> ex_cancelling e" and "emitted em = []"
  shows "events_of out = ExecutionCancelling reason # cancel_skips (bt_values (ex_steps e)) @
           (if list_ex in_hand (bt_values (ex_steps e)) then [] else [ExecutionCancelled])"
proof -
  obtain running em1 where f: "foldl (cancel_step C) (False, emit_event C (ExecutionCancelling reason) em)
      (bt_values (ex_steps e)) = (running, em1)" by fastforce
  have "running = list_ex in_hand (bt_values (ex_steps e))"
    "emitted em1 = ExecutionCancelling reason # cancel_skips (bt_values (ex_steps e))"
    using cancel_step_fold [of C False "emit_event C (ExecutionCancelling reason) em"
        "bt_values (ex_steps e)"] f assms(3) by simp_all
  with assms f show ?thesis by (auto simp: decide_cancel_def split: if_splits)
qed

lemma apply_skips_step:
  assumes "\<And>ev. ev \<in> set evs \<Longrightarrow> \<exists>j. ev = StepSkipped j why"
  shows "ex_step (apply_all e evs) i =
     (if StepSkipped i why \<in> set evs then map_option (apply_skipped why) (ex_step e i) else ex_step e i)"
  using assms
proof (induction evs arbitrary: e)
  case (Cons ev evs)
  then obtain j where ev: "ev = StepSkipped j why" by auto
  have "apply_skipped why (apply_skipped why s) = apply_skipped why s" for s
    by (simp add: apply_skipped_def)
  then have "map_option (apply_skipped why) (map_option (apply_skipped why) x) = map_option (apply_skipped why) x"
    for x by (cases x) simp_all
  with Cons ev show ?case by (auto simp: apply_event_step)
qed simp

lemma cancel_skips_mem:
  assumes "execution_wf e"
  shows "StepSkipped i ''the execution was cancelled'' \<in> set (cancel_skips (bt_values (ex_steps e)))
     \<longleftrightarrow> (\<exists>s. ex_step e i = Some s \<and> not_started s)"
proof
  assume "StepSkipped i ''the execution was cancelled'' \<in> set (cancel_skips (bt_values (ex_steps e)))"
  then obtain s where s: "s \<in> set (bt_values (ex_steps e))" "not_started s" "ss_step_id s = i"
    by (auto simp: cancel_skips_def)
  then obtain k where "(k, s) \<in> set (ex_steps e)" by (auto simp: bt_values_def)
  with assms have "ex_step e k = Some s" by (simp add: execution_wf_def ex_step_def bt_in_set_get)
  with assms s show "\<exists>s. ex_step e i = Some s \<and> not_started s" using wf_step_id by blast
next
  assume "\<exists>s. ex_step e i = Some s \<and> not_started s"
  then obtain s where s: "ex_step e i = Some s" "not_started s" by blast
  then have "s \<in> set (bt_values (ex_steps e))"
    by (force simp: ex_step_def bt_values_def dest: bt_get_in_set)
  with s assms show "StepSkipped i ''the execution was cancelled'' \<in> set (cancel_skips (bt_values (ex_steps e)))"
    using wf_step_id [OF assms s(1)] by (force simp: cancel_skips_def)
qed

lemma cancel_applied:
  assumes "execution_wf e" and "\<not> ex_cancelling e" and "decide_cancel C e reason em = Inr out"
    and "emitted em = []"
  defines "e' \<equiv> apply_all e (events_of out)"
  shows "ex_cancelling e'"
    and "ex_step e' i = map_option (\<lambda>s. if not_started s
           then apply_skipped ''the execution was cancelled'' s else s) (ex_step e i)"
    and "ex_state e' = (if list_ex in_hand (bt_values (ex_steps e)) then state_cancelling
                        else state_of Cancelled)"
proof -
  let ?why = "''the execution was cancelled''"
  let ?skips = "cancel_skips (bt_values (ex_steps e))"
  let ?tail = "if list_ex in_hand (bt_values (ex_steps e)) then [] else [ExecutionCancelled]"
  define c where "c = apply_event e (ExecutionCancelling reason)"
  have c: "ex_step c j = ex_step e j" "ex_cancelling c" "ex_state c = state_cancelling" for j
    by (simp_all add: c_def ex_step_def)
  have skip: "ev \<in> set ?skips \<Longrightarrow> \<exists>j. ev = StepSkipped j ?why" for ev
    by (auto simp: cancel_skips_def)
  have run: "ex_cancelling (apply_all c evs) \<and> ex_state (apply_all c evs) = state_cancelling"
    if "\<And>ev. ev \<in> set evs \<Longrightarrow> \<exists>j. ev = StepSkipped j ?why" for evs
    using that c(2,3)
  proof (induction evs arbitrary: c)
    case (Cons ev evs)
    then obtain j where "ev = StepSkipped j ?why" by auto
    with Cons show ?case by simp
  qed simp
  have e': "e' = apply_all (apply_all c ?skips) ?tail"
    using cancel_out [OF assms(3,2,4)] by (simp add: e'_def c_def)
  show "ex_cancelling e'" using run [OF skip] by (simp add: e')
  show "ex_state e' = (if list_ex in_hand (bt_values (ex_steps e)) then state_cancelling
                        else state_of Cancelled)"
    using run [OF skip] by (simp add: e')
  have "ex_step e' i = ex_step (apply_all c ?skips) i"
    by (auto simp: e' ex_step_def)
  also have "\<dots> = (if \<exists>s. ex_step e i = Some s \<and> not_started s
      then map_option (apply_skipped ?why) (ex_step e i) else ex_step e i)"
    using apply_skips_step [where e = c and i = i, OF skip] by (simp only: c cancel_skips_mem [OF assms(1)])
  also have "\<dots> = map_option (\<lambda>s. if not_started s then apply_skipped ?why s else s) (ex_step e i)"
    by (cases "ex_step e i") auto
  finally show "ex_step e' i = map_option (\<lambda>s. if not_started s then apply_skipped ?why s else s) (ex_step e i)" .
qed

subsection \<open>Properties\<close>

text \<open>Every output of a decision is caused by its input: it is an output, its causation is the
  input's id, its correlation is the run, its time is the time handed in, and its id is derived from
  the run, the cause, its own name and its ordinal.\<close>

theorem outputs_are_caused_and_derived:
  assumes "decide C st input cause now = Inr out" and "k < length out"
  shows "pm_direction (out ! k) = Output \<and>
         md_causation_id (pm_metadata (out ! k)) = cause \<and>
         md_correlation_id (pm_metadata (out ! k)) = decided_execution st input \<and>
         md_occurred_at (pm_metadata (out ! k)) = now \<and>
         md_message_id (pm_metadata (out ! k)) =
           derive_uuid C (emitted_name (decided_execution st input) cause
                            (message_name (pm_message (out ! k))) k)"
  using decide_out_derived [OF assms] by (simp add: output_derived_def)

definition demo_execution :: "string list \<Rightarrow> plan_edge list \<Rightarrow> execution" where
  "demo_execution ids edges =
     apply_event (execution_requested (demo_request (demo_plan ids edges))) ExecutionStarted"

theorem outputs_are_caused_and_derived_witness:
  "\<exists>m. decide numbered_crates (Active (demo_execution [''a''] [])) (Command PauseExecution) ''m1'' 7 = Inr [m] \<and>
       md_causation_id (pm_metadata m) = ''m1'' \<and> md_occurred_at (pm_metadata m) = 7"
proof -
  let ?e = "demo_execution [''a''] []"
  let ?em = "emit_event numbered_crates ExecutionPaused (emitter_new (ex_id ?e) ''m1'' 7)"
  have out: "decide numbered_crates (Active ?e) (Command PauseExecution) ''m1'' 7 = Inr (em_out ?em)"
    by (simp add: decide_pause_def demo_execution_def)
  have len: "\<exists>m. em_out ?em = [m]" by (simp add: emit_event_def emit_push_def Let_def emitter_new_def)
  then obtain m where m: "em_out ?em = [m]" ..
  from outputs_are_caused_and_derived [OF out, of 0] m out show ?thesis by simp
qed

text \<open>The ids of the outputs of one decision are distinct, and no output takes another's id on a
  replay, as long as the derivation does not collide on the names of that decision.\<close>

theorem output_ids_distinct:
  assumes "decide C st input cause now = Inr out"
    and "inj_on (derive_uuid C)
           ((\<lambda>k. emitted_name (decided_execution st input) cause (message_name (pm_message (out ! k))) k)
              ` {..< length out})"
  shows "distinct (map (\<lambda>m. md_message_id (pm_metadata m)) out)"
proof -
  let ?name = "\<lambda>k. emitted_name (decided_execution st input) cause (message_name (pm_message (out ! k))) k"
  have id: "k < length out \<Longrightarrow> md_message_id (pm_metadata (out ! k)) = derive_uuid C (?name k)" for k
    using decide_out_derived [OF assms(1)] by (simp add: output_derived_def)
  have "k = l" if "k < length out" "l < length out"
    "md_message_id (pm_metadata (out ! k)) = md_message_id (pm_metadata (out ! l))" for k l
  proof -
    from that have "derive_uuid C (?name k) = derive_uuid C (?name l)" by (simp add: id)
    with that have "?name k = ?name l"
      using inj_onD [OF assms(2), of "?name k" "?name l"] by blast
    then show "k = l" by (rule emitted_name_inj)
  qed
  then show ?thesis by (auto simp: distinct_conv_nth)
qed

text \<open>A completion may be delivered any number of times: once it is folded, delivering it again,
  under any cause, at any time and with any outputs, decides nothing.\<close>

theorem completion_idempotent:
  assumes "decide C (Active e) (Event (StepCompleted i n outs res)) cause now = Inr out"
  shows "decide C (Active (apply_all e (events_of out))) (Event (StepCompleted i n' outs' res')) cause' now'
           = Inr []"
proof -
  from assms have "decide_active C e (Event (StepCompleted i n outs res)) cause now = Inr out" by simp
  from completion_out [OF this] obtain s where
    "ex_step (apply_all e (events_of out)) i = Some s" "state_type (ss_state s) = Completed" by blast
  then show ?thesis by (simp add: decide_completed_def step_of_def)
qed

text \<open>A cancel leaves no step waiting to start: in the state it reaches every step that had not
  started is cancelled, every other step is as it was, the run is cancelling, and it is cancelled
  already exactly when nothing was running or waiting for an answer.\<close>

theorem cancel_stops_what_has_not_started:
  assumes "execution_wf e" and "\<not> ex_cancelling e"
    and "decide C (Active e) (Command (CancelExecution reason)) cause now = Inr out"
  defines "e' \<equiv> apply_all e (events_of out)"
  shows "ex_step e' i = map_option (\<lambda>s. if not_started s
           then s\<lparr>ss_state := state_named Cancelled ''the execution was cancelled''\<rparr> else s) (ex_step e i)
         \<and> ex_cancelling e' \<and>
         (state_type (ex_state e') = Cancelled \<longleftrightarrow> \<not> list_ex in_hand (bt_values (ex_steps e)))"
  using cancel_applied [OF assms(1,2), of C reason "emitter_new (ex_id e) cause now" out] assms(3)
  by (simp add: e'_def apply_skipped_def cong: if_cong)

lemma failure_cases:
  assumes "ex_step e i = Some s" and "plan_step_of (ex_plan e) i = Some step"
    and "decide C (Active e) (Event (StepFailed i n err)) cause now = Inr out"
  shows "if is_retryable (err_class err) \<and> attempts_spent s err < retry_budget step err \<and> \<not> ex_cancelling e
         then events_of out = [StepFailed i n err,
                StepRetryScheduled i (n + 1) (retry_not_before step (n + 1) err now)] \<and>
              commands_of out = [ExecuteStep i (n + 1) (binding_kind (ps_runtime step))
                                   (idempotency_key (ex_id e) i (n + 1))]
         else commands_of out = [] \<and>
              (\<exists>vs. events_of out = StepFailed i n err # map (\<lambda>(c, p). skip_event c p) vs @ [run_ending e i err] \<and>
                    distinct (map fst vs) \<and> fst ` set vs = skippable e i)"
proof (cases "may_retry e step s err")
  case True
  then have cond: "is_retryable (err_class err) \<and> attempts_spent s err < retry_budget step err
      \<and> \<not> ex_cancelling e" by (simp add: may_retry_def)
  from True assms show ?thesis
    unfolding if_P [OF cond] by (auto simp: decide_failed_def step_of_def Let_def split: if_splits)
next
  case False
  let ?em = "emit_event C (StepFailed i n err) (about_step i n (emitter_new (ex_id e) cause now))"
  from False have cond: "\<not> (is_retryable (err_class err) \<and> attempts_spent s err < retry_budget step err
      \<and> \<not> ex_cancelling e)" by (simp add: may_retry_def)
  from False assms have out: "out = em_out (settle_failure C e i n err ?em)"
    by (auto simp: decide_failed_def step_of_def Let_def split: if_splits)
  have "ordered (settle_failure C e i n err ?em) = []" by (rule unordered.settle) simp
  with settle_event_list [of C e i n err ?em] show ?thesis
    unfolding if_not_P [OF cond] out by auto
qed

text \<open>A failed attempt is retried exactly when its class may be retried, the attempts already spent
  on that kind of failure are below the step's budget for it and the run is not being cancelled; the
  retry is the next attempt after the policy's delay and is dispatched once. Otherwise the run ends
  and every unfinished step downstream is skipped once.\<close>

theorem failure_retried_within_budget:
  assumes "ex_step e i = Some s" and "plan_step_of (ex_plan e) i = Some step"
    and "decide C (Active e) (Event (StepFailed i n err)) cause now = Inr out"
  shows "if is_retryable (err_class err) \<and> attempts_spent s err < retry_budget step err \<and> \<not> ex_cancelling e
         then events_of out = [StepFailed i n err,
                StepRetryScheduled i (n + 1) (retry_not_before step (n + 1) err now)] \<and>
              commands_of out = [ExecuteStep i (n + 1) (binding_kind (ps_runtime step))
                                   (idempotency_key (ex_id e) i (n + 1))]
         else commands_of out = [] \<and>
              (\<exists>vs. events_of out = StepFailed i n err # map (\<lambda>(c, p). skip_event c p) vs @ [run_ending e i err] \<and>
                    distinct (map fst vs) \<and> fst ` set vs = skippable e i)"
  using assms by (rule failure_cases)

definition demo_running :: "string \<Rightarrow> u32 \<Rightarrow> run_state \<Rightarrow> step_state" where
  "demo_running i n st =
     (step_fresh i KPythonTask)\<lparr>ss_state := st, ss_current_attempt := n,
        ss_attempts := [attempt_pending n st None]\<rparr>"

definition demo_at :: "string \<Rightarrow> u32 \<Rightarrow> run_state \<Rightarrow> execution \<Rightarrow> execution" where
  "demo_at i n st = ex_step_mut i (\<lambda>_. demo_running i n st)"

definition demo_error :: "failure_class \<Rightarrow> step_error" where
  "demo_error c = \<lparr>err_class = c, err_message = ''lost''\<rparr>"

lemma demo_plan_step: "plan_step_of (demo_plan ids edges) i = (if i \<in> set ids then Some (demo_step i) else None)"
proof (induction ids)
  case (Cons a ids)
  then show ?case by (auto simp: plan_step_of_def demo_plan_def demo_step_def)
qed (simp add: plan_step_of_def demo_plan_def)

lemma demo_execution_frame [simp]:
  "ex_plan (demo_execution ids edges) = demo_plan ids edges"
  "\<not> ex_cancelling (demo_execution ids edges)" "ex_mode (demo_execution ids edges) = Compiled"
  "ex_state (demo_execution ids edges) = state_of Running"
  by (simp_all add: demo_execution_def execution_requested_def demo_request_def)

lemma demo_at_simps [simp]:
  "ex_step (demo_at i n st e) j = (if j = i then map_option (\<lambda>_. demo_running i n st) (ex_step e i) else ex_step e j)"
  "ex_plan (demo_at i n st e) = ex_plan e" "ex_cancelling (demo_at i n st e) = ex_cancelling e"
  "ex_mode (demo_at i n st e) = ex_mode e" "ex_state (demo_at i n st e) = ex_state e"
  "ex_id (demo_at i n st e) = ex_id e"
  by (simp_all add: demo_at_def)

lemma demo_running_simps [simp]:
  "ss_state (demo_running i n st) = st" "ss_current_attempt (demo_running i n st) = n"
  "ss_attempts (demo_running i n st) = [attempt_pending n st None]"
  "ss_awaiting (demo_running i n st) = None"
  by (simp_all add: demo_running_def step_fresh_def)

lemma demo_execution_step:
  "i \<in> set ids \<Longrightarrow> ex_step (demo_execution ids edges) i = Some (step_fresh i KPythonTask)"
proof -
  assume "i \<in> set ids"
  let ?r = "demo_request (demo_plan ids edges)"
  have step: "ex_step (execution_requested ?r) j = Some s \<Longrightarrow> s = step_fresh j KPythonTask" for j s
    by (drule requested_step) (auto simp: demo_request_def demo_plan_def demo_step_def)
  have "ps_id ` set (plan_steps (ex_plan (execution_requested ?r))) = set ids"
    by (simp add: execution_requested_def demo_request_def demo_plan_def demo_step_def image_image)
  then have "\<exists>s. ex_step (execution_requested ?r) i = Some s"
    using wf_has_step [OF requested_wf, of ?r i] \<open>i \<in> set ids\<close> by simp
  with step show ?thesis by (auto simp: demo_execution_def ex_step_def)
qed

lemma demo_budget [simp]:
  "retry_budget (demo_step i) (demo_error FTimeout) = 3" "is_retryable FTimeout"
  "attempts_spent (demo_running i n st) err = 1"
  by (simp_all add: retry_budget_def demo_step_def demo_error_def may_have_run_def is_retryable_def
      retry_default_def MAX_ATTEMPTS_def attempts_spent_def attempt_pending_def map_filter_def)

theorem failure_retried_within_budget_witness:
  "\<exists>out. decide numbered_crates (Active (demo_at ''a'' 1 (state_of Running) (demo_execution [''a'', ''b''] [])))
           (Event (StepFailed ''a'' 1 (demo_error FTimeout))) ''m1'' 0 = Inr out \<and>
         events_of out = [StepFailed ''a'' 1 (demo_error FTimeout), StepRetryScheduled ''a'' 2 (seconds 1)]"
proof -
  let ?e = "demo_at ''a'' 1 (state_of Running) (demo_execution [''a'', ''b''] [])"
  have s: "ex_step ?e ''a'' = Some (demo_running ''a'' 1 (state_of Running))"
    by (simp add: demo_execution_step)
  have p: "plan_step_of (ex_plan ?e) ''a'' = Some (demo_step ''a'')" by (simp add: demo_plan_step)
  have "\<exists>out. decide numbered_crates (Active ?e) (Event (StepFailed ''a'' 1 (demo_error FTimeout))) ''m1'' 0 = Inr out"
    by (simp add: decide_failed_def step_of_def demo_execution_step demo_plan_step Let_def)
  then obtain out where out:
    "decide numbered_crates (Active ?e) (Event (StepFailed ''a'' 1 (demo_error FTimeout))) ''m1'' 0 = Inr out" ..
  have nb: "retry_not_before (demo_step ''a'') 2 (demo_error FTimeout) 0 = seconds 1"
    by (simp add: retry_not_before_def delay_before_def demo_step_def retry_default_def
        demo_error_def may_have_run_def Let_def)
  have "err_class (demo_error FTimeout) = FTimeout" by (simp add: demo_error_def)
  with failure_retried_within_budget [OF s p out] nb have
    "events_of out = [StepFailed ''a'' 1 (demo_error FTimeout), StepRetryScheduled ''a'' 2 (seconds 1)]"
    by simp
  with out show ?thesis by blast
qed

text \<open>The guard on a failure report lets through what the guards on the other reports refuse. A
  step that has completed is reopened by a late retryable failure of its last attempt: the run may
  have ended as completed and the step is scheduled again under it.\<close>

theorem late_failure_reopens_a_completed_step:
  assumes "ex_step e i = Some s" and "plan_step_of (ex_plan e) i = Some step"
    and "state_type (ss_state s) = Completed" and "ss_current_attempt s = n"
    and "may_retry e step s err"
  shows "\<exists>out. decide C (Active e) (Event (StepFailed i n err)) cause now = Inr out \<and>
           map_option (\<lambda>s. state_type (ss_state s)) (ex_step (apply_all e (events_of out)) i) = Some Pending \<and>
           ex_state (apply_all e (events_of out)) = ex_state e"
proof -
  have "\<exists>out. decide C (Active e) (Event (StepFailed i n err)) cause now = Inr out \<and>
      events_of out = [StepFailed i n err,
        StepRetryScheduled i (n + 1) (retry_not_before step (n + 1) err now)]"
    using assms by (simp add: decide_failed_def step_of_def Let_def)
  then obtain out where out: "decide C (Active e) (Event (StepFailed i n err)) cause now = Inr out"
    "events_of out = [StepFailed i n err,
        StepRetryScheduled i (n + 1) (retry_not_before step (n + 1) err now)]" by blast
  then show ?thesis
    using assms(1) by (intro exI [of _ out]) (simp add: apply_retry_scheduled_def awaiting_retry_def)
qed

theorem late_failure_reopens_a_completed_step_witness:
  "let e = (demo_at ''a'' 1 (state_of Completed) (demo_execution [''a''] []))\<lparr>ex_state := state_of Completed\<rparr>
   in \<exists>out. decide numbered_crates (Active e) (Event (StepFailed ''a'' 1 (demo_error FTimeout))) ''m9'' 0 = Inr out \<and>
            map_option (\<lambda>s. state_type (ss_state s)) (ex_step (apply_all e (events_of out)) ''a'') = Some Pending \<and>
            ex_state (apply_all e (events_of out)) = state_of Completed"
proof -
  let ?e0 = "demo_at ''a'' 1 (state_of Completed) (demo_execution [''a''] [])"
  let ?e = "?e0\<lparr>ex_state := state_of Completed\<rparr>"
  have s: "ex_step ?e ''a'' = Some (demo_running ''a'' 1 (state_of Completed))"
    using demo_execution_step [of "''a''" "[''a'']"] by (simp add: ex_step_def demo_at_def ex_step_mut_def)
  have p: "plan_step_of (ex_plan ?e) ''a'' = Some (demo_step ''a'')" by (simp add: demo_plan_step)
  have "may_retry ?e (demo_step ''a'') (demo_running ''a'' 1 (state_of Completed)) (demo_error FTimeout)"
    by (simp add: may_retry_def) (simp add: demo_error_def)
  from late_failure_reopens_a_completed_step [OF s p _ _ this, of 1 numbered_crates "''m9''" 0]
  show ?thesis by (simp add: Let_def)
qed

text \<open>A stale report: one about an attempt that is not the step's current one.\<close>

fun reports :: "workflow_event \<Rightarrow> (string \<times> u32) option" where
  "reports (StepStarted i n) = Some (i, n)"
| "reports (InputRequested i n _) = Some (i, n)"
| "reports (StepCacheHit i n _ _) = Some (i, n)"
| "reports (StepCompleted i n _ _) = Some (i, n)"
| "reports (StepFailed i n _) = Some (i, n)"
| "reports _ = None"

text \<open>A report about an attempt whose lease was lost is refused, naming the attempt that took the
  work over, once the step has reached an end; before that, every such report is refused except a
  failure, which is taken as if it were the current attempt's.\<close>

theorem stale_reports:
  assumes "reports ev = Some (i, n)" and "ex_step e i = Some s" and "ss_current_attempt s \<noteq> n"
    and "state_type (ss_state s) \<noteq> Completed" and "plan_step_of (ex_plan e) i = Some step"
  shows "(decide C (Active e) (Event ev) cause now = Inl (StaleAttempt i n (ss_current_attempt s))) =
         (is_terminal (state_type (ss_state s)) \<or> (\<forall>err. ev \<noteq> StepFailed i n err))"
  using assms
  by (cases ev) (auto simp: decide_started_def decide_input_requested_def decide_cache_hit_def
      decide_completed_def decide_failed_def step_of_def Let_def)

theorem stale_reports_witness:
  "decide numbered_crates (Active (demo_at ''a'' 2 (state_of Running) (demo_execution [''a''] [])))
     (Event (StepCompleted ''a'' 1 [] None)) ''m1'' 0 = Inl (StaleAttempt ''a'' 1 2) \<and>
   decide numbered_crates (Active (demo_at ''a'' 2 (state_of Running) (demo_execution [''a''] [])))
     (Event (StepFailed ''a'' 1 (demo_error FUserCode))) ''m1'' 0 \<noteq> Inl (StaleAttempt ''a'' 1 2)"
proof -
  let ?e = "demo_at ''a'' 2 (state_of Running) (demo_execution [''a''] [])"
  let ?s = "demo_running ''a'' 2 (state_of Running)"
  have s: "ex_step ?e ''a'' = Some ?s" by (simp add: demo_execution_step)
  have p: "plan_step_of (ex_plan ?e) ''a'' = Some (demo_step ''a'')" by (simp add: demo_plan_step)
  have st: "ss_current_attempt ?s \<noteq> 1" "state_type (ss_state ?s) \<noteq> Completed" by simp_all
  have r: "reports (StepCompleted ''a'' 1 [] None) = Some (''a'', 1)"
    "reports (StepFailed ''a'' 1 (demo_error FUserCode)) = Some (''a'', 1)" by simp_all
  from stale_reports [OF r(1) s st p, of numbered_crates "''m1''" 0]
    stale_reports [OF r(2) s st p, of numbered_crates "''m1''" 0]
  show ?thesis by auto
qed

text \<open>An answer is taken exactly when the step is waiting, the answer is for its current attempt,
  the deadline has not passed and the answer is one of the choices, where the question has any.\<close>

theorem answer_taken_iff:
  "(\<exists>out. decide C (Active e) (Command (ProvideInput i n w r)) cause now = Inr out) \<longleftrightarrow>
     (\<exists>s q. ex_step e i = Some s \<and> ss_awaiting s = Some q \<and> ss_current_attempt s = n \<and>
            (rq_deadline q = None \<or> (\<exists>d. rq_deadline q = Some d \<and> now \<le> d)) \<and>
            (rq_choices q = [] \<or> (\<exists>v. r = JString v \<and> v \<in> set (rq_choices q))))"
proof -
  have str: "is_some_and P (as_str r) \<longleftrightarrow> (\<exists>v. r = JString v \<and> P v)" for P
    by (cases r) auto
  have dl: "\<not> is_some_and (\<lambda>d. now > d) x \<longleftrightarrow> x = None \<or> (\<exists>d. x = Some d \<and> now \<le> d)" for x :: "int option"
    by (cases x) auto
  show ?thesis
    by (cases "ex_step e i")
      (auto simp: decide_provide_def step_of_def answer_allowed_def str dl [symmetric]
        split: option.splits)
qed

lemma schedule_no_answer:
  "InputProvided j m w r \<notin> set (schedule_events C e i n now)"
  "StepRetryScheduled j m t \<notin> set (schedule_events C e i n now)"
  by (auto simp: schedule_events_def split: option.splits runtime_binding.splits)

lemma continue_no_answer:
  "InputProvided j m w r \<notin> set (continue_events C e i now)"
  "StepRetryScheduled j m t \<notin> set (continue_events C e i now)"
  by (auto simp: continue_events_def dispatch_events_def schedule_no_answer)

lemma settle_no_answer:
  assumes "emitted em = evs"
  shows "\<exists>rest. emitted (settle_failure C e i n err em) = evs @ rest \<and>
     (\<forall>j m w r t. InputProvided j m w r \<notin> set rest \<and> StepRetryScheduled j m t \<notin> set rest)"
  using settle_event_list [of C e i n err em] assms
  by (fastforce simp: skip_event_def run_ending_def)

text \<open>A deadline that passes unanswered never schedules a retry and never records a person: the
  only answer it can record is attributed to the timeout itself, and with the policy that fails
  the gate the step fails by policy whatever its retry budget.\<close>

theorem timeout_answers_for_nobody:
  assumes "decide C (Active e) (Command (TimeoutInput i n)) cause now = Inr out"
  shows "(InputProvided j m w r \<in> set (events_of out) \<longrightarrow> w = ANSWERED_BY_TIMEOUT) \<and>
         StepRetryScheduled j m t \<notin> set (events_of out) \<and>
         (\<forall>s q. ex_step e i = Some s \<longrightarrow> ss_awaiting s = Some q \<longrightarrow> rq_on_timeout q = Some TimeoutFail \<longrightarrow>
            (\<exists>rest. events_of out = StepFailed i n (nobody_answered i) # rest) \<and>
            err_class (nobody_answered i) = FPolicy)"
proof -
  from assms obtain s q p where sq: "ex_step e i = Some s" "ss_awaiting s = Some q"
    "ss_current_attempt s = n" "timeout_policy e i q = Some p"
    by (auto simp: decide_timeout_def step_of_def split: option.splits if_splits)
  let ?em = "about_step i n (emitter_new (ex_id e) cause now)"
  show ?thesis
  proof (cases p)
    case TimeoutFail
    with assms sq have out: "events_of out = emitted (settle_failure C e i n (nobody_answered i)
        (emit_event C (StepFailed i n (nobody_answered i)) ?em))"
      by (auto simp: decide_timeout_def step_of_def)
    have "emitted (emit_event C (StepFailed i n (nobody_answered i)) ?em) = [StepFailed i n (nobody_answered i)]"
      by simp
    from settle_no_answer [OF this, of C e i n "nobody_answered i"] out sq show ?thesis
      by (auto simp: nobody_answered_def)
  next
    case TimeoutSkip
    with assms sq show ?thesis
      by (auto simp: decide_timeout_def step_of_def continue_no_answer timeout_policy_def)
  next
    case (TimeoutAnswer x)
    with assms sq show ?thesis
      by (auto simp: decide_timeout_def step_of_def answer_events_def continue_no_answer
          schedule_no_answer timeout_policy_def split: if_splits)
  qed
qed

definition demo_question :: "on_timeout \<Rightarrow> input_request" where
  "demo_question policy =
     \<lparr>rq_prompt = ''Publish?'', rq_role = ''editor'', rq_choices = [''yes'', ''no''],
      rq_deadline = Some 5, rq_on_timeout = Some policy\<rparr>"

definition demo_waiting :: "on_timeout \<Rightarrow> execution" where
  "demo_waiting policy =
     ex_step_mut ''a'' (\<lambda>s. s\<lparr>ss_awaiting := Some (demo_question policy)\<rparr>)
       (demo_at ''a'' 1 (state_of AwaitingInput) (demo_execution [''a'', ''b''] [PlanEdge ''a'' ''b'']))"

lemma demo_waiting_step:
  "ex_step (demo_waiting policy) ''a''
     = Some ((demo_running ''a'' 1 (state_of AwaitingInput))\<lparr>ss_awaiting := Some (demo_question policy)\<rparr>)"
  by (simp add: demo_waiting_def demo_execution_step)

theorem timeout_answers_for_nobody_witness:
  "\<exists>out rest. decide numbered_crates (Active (demo_waiting TimeoutFail)) (Command (TimeoutInput ''a'' 1)) ''m1'' 9 = Inr out \<and>
     events_of out = StepFailed ''a'' 1 (nobody_answered ''a'') # rest"
proof -
  have "\<exists>out. decide numbered_crates (Active (demo_waiting TimeoutFail)) (Command (TimeoutInput ''a'' 1)) ''m1'' 9 = Inr out"
    by (simp add: decide_timeout_def step_of_def demo_waiting_step timeout_policy_def demo_question_def)
  then obtain out where out:
    "decide numbered_crates (Active (demo_waiting TimeoutFail)) (Command (TimeoutInput ''a'' 1)) ''m1'' 9 = Inr out" ..
  from timeout_answers_for_nobody [OF out] demo_waiting_step [of TimeoutFail] out show ?thesis
    by (auto simp: demo_question_def)
qed

text \<open>C17: A final failure skips what can no longer run: for every step reachable over the plan's edges
  that has not ended, exactly one skip, naming a step on an edge into it; no other step is skipped.\<close>

theorem skips_exactly_the_downstream:
  "\<exists>vs. events_of (em_out (skip_downstream C e i em))
          = events_of (em_out em) @ map (\<lambda>(c, p). StepSkipped c (p @ '' did not succeed'')) vs \<and>
        distinct (map fst vs) \<and>
        fst ` set vs = {c. (i, c) \<in> {(a, b). PlanEdge a b \<in> set (plan_edges (ex_plan e))}\<^sup>+ \<and> step_unfinished e c} \<and>
        set vs \<subseteq> {(c, p). PlanEdge p c \<in> set (plan_edges (ex_plan e))}"
  using skip_event_list [of C e i em] by (simp add: plan_rel_def skip_event_def [abs_def])

theorem completion_idempotent_witness:
  "\<exists>out. decide numbered_crates (Active (demo_at ''a'' 1 (state_of Running) (demo_execution [''a'', ''b''] [])))
           (Event (StepCompleted ''a'' 1 [] None)) ''m1'' 0 = Inr out \<and>
         decide numbered_crates (Active (apply_all (demo_at ''a'' 1 (state_of Running) (demo_execution [''a'', ''b''] []))
             (events_of out))) (Event (StepCompleted ''a'' 1 [] None)) ''m2'' 5 = Inr []"
proof -
  let ?e = "demo_at ''a'' 1 (state_of Running) (demo_execution [''a'', ''b''] [])"
  have "\<exists>out. decide numbered_crates (Active ?e) (Event (StepCompleted ''a'' 1 [] None)) ''m1'' 0 = Inr out"
    by (simp add: decide_completed_def step_of_def demo_execution_step)
  then obtain out where out:
    "decide numbered_crates (Active ?e) (Event (StepCompleted ''a'' 1 [] None)) ''m1'' 0 = Inr out" ..
  from completion_idempotent [OF out] out show ?thesis by blast
qed

lemma demo_execution_wf: "execution_wf (demo_execution ids edges)"
  unfolding demo_execution_def by (intro apply_event_wf requested_wf)

theorem cancel_stops_what_has_not_started_witness:
  "\<exists>out. decide numbered_crates (Active (demo_execution [''a'', ''b''] [])) (Command (CancelExecution ''enough'')) ''m1'' 0 = Inr out \<and>
         ex_cancelling (apply_all (demo_execution [''a'', ''b''] []) (events_of out)) \<and>
         map_option (\<lambda>s. state_type (ss_state s))
           (ex_step (apply_all (demo_execution [''a'', ''b''] []) (events_of out)) ''b'') = Some Cancelled"
proof -
  let ?e = "demo_execution [''a'', ''b''] []"
  have "\<exists>out. decide numbered_crates (Active ?e) (Command (CancelExecution ''enough'')) ''m1'' 0 = Inr out"
    by (auto simp: decide_cancel_def split: prod.splits)
  then obtain out where out:
    "decide numbered_crates (Active ?e) (Command (CancelExecution ''enough'')) ''m1'' 0 = Inr out" ..
  have "not_started (step_fresh ''b'' KPythonTask)" by (simp add: not_started_def step_fresh_def)
  with cancel_stops_what_has_not_started [OF demo_execution_wf _ out, of "''b''"] out
  show ?thesis by (auto simp: demo_execution_step)
qed

text \<open>A hash that ends up in the first bytes of the id, so that two ordinals never share one.\<close>

definition reversed_crates :: crates where
  "reversed_crates = \<lparr>sha256 = (\<lambda>s. rev (as_bytes s)), json_text = (\<lambda>j. show_nat (to_nat j))\<rparr>"

lemma reversed_derives_apart:
  "derive_uuid reversed_crates (emitted_name ''x1'' ''m1'' ''execution_cancelling'' 0)
     \<noteq> derive_uuid reversed_crates (emitted_name ''x1'' ''m1'' ''execution_cancelled'' 1)"
proof -
  have "uuid_text [0x30, 0x2f, 0x67, 0x6e, 0x69, 0x6c, 0x8c, 0x65, 0xa3, 0x6e, 0x61, 0x63, 0x5f, 0x6e, 0x6f, 0x69]
      \<noteq> uuid_text [0x31, 0x2f, 0x64, 0x65, 0x6c, 0x6c, 0x85, 0x63, 0xae, 0x61, 0x63, 0x5f, 0x6e, 0x6f, 0x69, 0x74]"
    by code_simp
  then show ?thesis
    by (simp add: derive_uuid_def emitted_name_def reversed_crates_def as_bytes_def Let_def
        show_nat.simps dec_digit_def)
qed

theorem output_ids_distinct_witness:
  "\<exists>out. decide reversed_crates (Active (demo_execution [] [])) (Command (CancelExecution ''stop'')) ''m1'' 0 = Inr out \<and>
         length out = 2 \<and> distinct (map (\<lambda>m. md_message_id (pm_metadata m)) out)"
proof -
  let ?e = "demo_execution [] []"
  let ?em = "emit_event reversed_crates ExecutionCancelled
    (emit_event reversed_crates (ExecutionCancelling ''stop'') (emitter_new ''x1'' ''m1'' 0))"
  have id: "ex_id ?e = ''x1''" "ex_steps ?e = []"
    by (simp_all add: demo_execution_def execution_requested_def demo_request_def demo_plan_def bt_collect_def)
  have out: "decide reversed_crates (Active ?e) (Command (CancelExecution ''stop'')) ''m1'' 0 = Inr (em_out ?em)"
    by (simp add: decide_cancel_def id bt_values_def)
  have "\<exists>a b. em_out ?em = [a, b] \<and> message_name (pm_message a) = ''execution_cancelling'' \<and>
      message_name (pm_message b) = ''execution_cancelled''"
    by (simp add: emit_event_def emit_push_def Let_def emitter_new_def)
  then obtain a b where ab: "em_out ?em = [a, b]" "message_name (pm_message a) = ''execution_cancelling''"
    "message_name (pm_message b) = ''execution_cancelled''" by blast
  have "inj_on (derive_uuid reversed_crates)
      ((\<lambda>k. emitted_name (decided_execution (Active ?e) (Command (CancelExecution ''stop''))) ''m1''
              (message_name (pm_message ([a, b] ! k))) k) ` {0, 1})"
    using reversed_derives_apart ab(2,3) by (auto simp: inj_on_def id)
  moreover have "{..< length [a, b]} = {0, 1}" by auto
  ultimately have "inj_on (derive_uuid reversed_crates)
      ((\<lambda>k. emitted_name (decided_execution (Active ?e) (Command (CancelExecution ''stop''))) ''m1''
              (message_name (pm_message (em_out ?em ! k))) k) ` {..< length (em_out ?em)})"
    unfolding ab(1) by simp
  from output_ids_distinct [OF out this] out ab show ?thesis by auto
qed

end
