(* ===== verification/Reach.thy ===== *)
theory Reach
  imports Decide_Props
begin

text \<open>
  Runs as a state machine: the states a run reaches from a started plan by deciding inputs and
  folding what the decisions emit. \<open>input_fresh\<close> is what the decider relies on its reporters for: a
  report comes from the attempt that is current and has not ended. The lease alone does not give
  it (\<open>late_start_reopens_an_ended_step\<close> of \<open>Reactor_Props\<close>). Under it the causal order of the
  plan holds in every reachable state: a step that was dispatched has all its parents completed,
  and a run that says it completed has completed every step.
\<close>

definition state_at :: "execution \<Rightarrow> string \<Rightarrow> state_type option" where
  "state_at e i = map_option (\<lambda>s. state_type (ss_state s)) (ex_step e i)"

definition report_fresh :: "execution \<Rightarrow> string \<Rightarrow> u32 \<Rightarrow> bool" where
  "report_fresh e i n =
     is_some_and (\<lambda>s. ss_current_attempt s = n \<and> ss_attempts s \<noteq> [] \<and>
                      \<not> is_terminal (state_type (ss_state s))) (ex_step e i)"

definition not_waiting :: "execution \<Rightarrow> string \<Rightarrow> bool" where
  "not_waiting e i = is_none_or (\<lambda>s. ss_awaiting s = None) (ex_step e i)"

fun input_fresh :: "execution \<Rightarrow> workflow_message \<Rightarrow> bool" where
  "input_fresh e (Event (StepStarted i n)) = report_fresh e i n"
| "input_fresh e (Event (InputRequested i n _)) = report_fresh e i n"
| "input_fresh e (Event (StepCompleted i n _ _)) = report_fresh e i n"
| "input_fresh e (Event (StepFailed i n _)) = report_fresh e i n"
| "input_fresh e (Event (StepCacheHit i n _ _)) = (report_fresh e i n \<and> not_waiting e i)"
| "input_fresh e _ = True"

inductive reachable :: "crates \<Rightarrow> execution \<Rightarrow> bool" for C where
  start: "decide C Empty (Command (StartExecution r)) cause now = Inr out \<Longrightarrow>
          distinct (map ps_id (plan_steps (st_plan r))) \<Longrightarrow>
          replay (events_of out) = Active e \<Longrightarrow> reachable C e"
| step: "reachable C e \<Longrightarrow> input_fresh e m \<Longrightarrow> decide C (Active e) m cause now = Inr out \<Longrightarrow>
         reachable C (apply_all e (events_of out))"

subsection \<open>The causal invariant\<close>

definition step_causal :: "execution \<Rightarrow> string \<Rightarrow> step_state \<Rightarrow> bool" where
  "step_causal e i s \<longleftrightarrow>
     (state_type (ss_state s) \<notin> {Scheduled, Cancelled} \<longrightarrow> parents_completed e i) \<and>
     (ss_awaiting s \<noteq> None \<longrightarrow> state_type (ss_state s) \<in> {AwaitingInput, Running}) \<and>
     (state_type (ss_state s) = Scheduled \<longrightarrow> ss_attempts s = [])"

definition causal :: "execution \<Rightarrow> bool" where
  "causal e \<longleftrightarrow>
     execution_wf e \<and> (\<forall>i s. ex_step e i = Some s \<longrightarrow> step_causal e i s) \<and>
     (state_type (ex_state e) = Completed \<longrightarrow> (\<forall>i s. ex_step e i = Some s \<longrightarrow> state_type (ss_state s) = Completed))"

lemma causalD:
  "causal e \<Longrightarrow> execution_wf e"
  "causal e \<Longrightarrow> ex_step e i = Some s \<Longrightarrow> step_causal e i s"
  "causal e \<Longrightarrow> state_type (ex_state e) = Completed \<Longrightarrow> ex_step e i = Some s \<Longrightarrow> state_type (ss_state s) = Completed"
  by (simp_all add: causal_def)

lemma parents_completed_iff:
  "parents_completed e i \<longleftrightarrow> (\<forall>p \<in> set (parents_of (ex_plan e) i). state_at e p = Some Completed)"
  by (auto simp: parents_completed_def list_all_iff is_some_and_iff state_at_def)

lemma parents_completed_cong:
  "state_at e = state_at e' \<Longrightarrow> ex_plan e = ex_plan e' \<Longrightarrow> parents_completed e i = parents_completed e' i"
  by (simp add: parents_completed_iff)

lemma parents_completed_mono:
  "(\<And>p. state_at e p = Some Completed \<Longrightarrow> state_at e' p = Some Completed) \<Longrightarrow> ex_plan e' = ex_plan e \<Longrightarrow>
     parents_completed e i \<Longrightarrow> parents_completed e' i"
  by (auto simp: parents_completed_iff)

lemma all_completed_iff:
  "execution_wf e \<Longrightarrow> all_completed e \<longleftrightarrow> (\<forall>i s. ex_step e i = Some s \<longrightarrow> state_type (ss_state s) = Completed)"
  by (simp add: all_completed_def list_all_iff wf_values)

subsection \<open>The events the invariant admits\<close>

definition may_start :: "execution \<Rightarrow> string \<Rightarrow> bool" where
  "may_start e i \<longleftrightarrow> (\<forall>s. ex_step e i = Some s \<longrightarrow>
     parents_completed e i \<and> state_type (ss_state s) \<noteq> Completed \<and> ss_awaiting s = None)"

definition may_report :: "execution \<Rightarrow> string \<Rightarrow> bool" where
  "may_report e i \<longleftrightarrow> (\<forall>s. ex_step e i = Some s \<longrightarrow>
     parents_completed e i \<and> state_type (ss_state s) \<noteq> Completed)"

definition may_skip :: "execution \<Rightarrow> string \<Rightarrow> bool" where
  "may_skip e i \<longleftrightarrow> (\<forall>s. ex_step e i = Some s \<longrightarrow>
     state_type (ss_state s) \<noteq> Completed \<and> ss_awaiting s = None)"

fun ev_ok :: "execution \<Rightarrow> workflow_event \<Rightarrow> bool" where
  "ev_ok e (StepScheduled i _ _ _) = may_start e i"
| "ev_ok e (StepRetryScheduled i _ _) = may_start e i"
| "ev_ok e (StepStarted i _) = may_report e i"
| "ev_ok e (InputRequested i _ _) = may_report e i"
| "ev_ok e (StepFailed i _ _) = may_report e i"
| "ev_ok e (StepCompleted i _ _ _) = may_report e i"
| "ev_ok e (StepCacheHit i _ _ _) = may_start e i"
| "ev_ok e (StepSkipped i _) = may_skip e i"
| "ev_ok e ExecutionCompleted = (\<forall>i s. ex_step e i = Some s \<longrightarrow> state_type (ss_state s) = Completed)"
| "ev_ok e _ = True"

fun evs_ok :: "execution \<Rightarrow> workflow_event list \<Rightarrow> bool" where
  "evs_ok e [] = True"
| "evs_ok e (ev # evs) = (ev_ok e ev \<and> evs_ok (apply_event e ev) evs)"

lemma evs_ok_append: "evs_ok e (xs @ ys) \<longleftrightarrow> evs_ok e xs \<and> evs_ok (apply_all e xs) ys"
  by (induction xs arbitrary: e) auto

lemmas touch_defs = apply_scheduled_def apply_retry_scheduled_def apply_started_def
  apply_completed_def apply_cache_hit_def apply_failed_def apply_skipped_def
  apply_input_requested_def apply_input_provided_def attempt_pending_def Let_def
  awaiting_retry_def state_cached_def

lemma state_at_apply:
  "state_at (apply_event e ev) j =
     (if touched ev = Some j then map_option (\<lambda>s. state_type (ss_state (touch ev s))) (ex_step e j)
      else state_at e j)"
  by (simp add: state_at_def apply_event_step option.map_comp comp_def)

lemma ex_step_run [simp]:
  "ex_step (e\<lparr>ex_state := st\<rparr>) i = ex_step e i" "ex_step (e\<lparr>ex_cancelling := b\<rparr>) i = ex_step e i"
  by (simp_all add: ex_step_def)

lemma ev_ok_keeps:
  assumes "ev_ok e ev" and "state_at e p = Some Completed"
  shows "state_at (apply_event e ev) p = Some Completed"
  using assms
  by (cases ev) (auto simp: state_at_apply state_at_def may_start_def may_report_def may_skip_def touch_defs)

lemma touched_step_causal:
  assumes "causal e" and "ev_ok e ev" and "touched ev = Some i" and "ex_step e i = Some s"
  shows "step_causal (apply_event e ev) i (touch ev s)"
proof -
  have keep: "parents_completed e i \<Longrightarrow> parents_completed (apply_event e ev) i"
    by (rule parents_completed_mono [OF ev_ok_keeps [OF assms(2)]]) simp_all
  have "step_causal e i s" using assms(1,4) by (rule causalD)
  with assms keep show ?thesis
    by (cases ev) (auto simp: step_causal_def may_start_def may_report_def may_skip_def touch_defs
        failed_state_def)
qed

lemma ev_ok_causal:
  assumes "causal e" and "ev_ok e ev"
  shows "causal (apply_event e ev)"
proof -
  let ?e = "apply_event e ev"
  have keep: "parents_completed e i \<Longrightarrow> parents_completed ?e i" for i
    by (rule parents_completed_mono [OF ev_ok_keeps [OF assms(2)]]) simp_all
  have "step_causal ?e i s" if "ex_step ?e i = Some s" for i s
  proof (cases "touched ev = Some i")
    case True
    with that obtain s0 where "ex_step e i = Some s0" "s = touch ev s0"
      by (auto simp: apply_event_step)
    with touched_step_causal [OF assms True] show ?thesis by simp
  next
    case False
    with that have "ex_step e i = Some s" by (simp add: apply_event_step)
    with causalD(2) [OF assms(1)] keep show ?thesis by (auto simp: step_causal_def)
  qed
  moreover have "state_type (ss_state s) = Completed"
    if run: "state_type (ex_state ?e) = Completed" and s: "ex_step ?e i = Some s" for i s
  proof (cases "ev = ExecutionCompleted")
    case True
    with assms(2) s show ?thesis by (simp add: ex_step_def)
  next
    case False
    with run have old: "state_type (ex_state e) = Completed" by (cases ev) simp_all
    from s obtain s0 where s0: "ex_step e i = Some s0"
      by (cases "touched ev = Some i") (auto simp: apply_event_step)
    from causalD(3) [OF assms(1) old this] have "state_at e i = Some Completed"
      using s0 by (simp add: state_at_def)
    from ev_ok_keeps [OF assms(2) this] s show ?thesis by (simp add: state_at_def)
  qed
  ultimately show ?thesis
    using causalD(1) [OF assms(1)] by (simp add: causal_def apply_event_wf)
qed

lemma evs_ok_causal: "causal e \<Longrightarrow> evs_ok e evs \<Longrightarrow> causal (apply_all e evs)"
  by (induction evs arbitrary: e) (simp_all add: ev_ok_causal)

lemma evs_ok_keeps:
  "evs_ok e evs \<Longrightarrow> state_at e p = Some Completed \<Longrightarrow> state_at (apply_all e evs) p = Some Completed"
  by (induction evs arbitrary: e) (simp_all add: ev_ok_keeps)

subsection \<open>What the operations emit is admitted\<close>

lemma state_at_all:
  "(\<And>ev. ev \<in> set evs \<Longrightarrow> touched ev \<noteq> Some i) \<Longrightarrow> state_at (apply_all e evs) i = state_at e i"
  by (simp add: state_at_def apply_all_untouched)

lemma may_start_start: "may_start e i \<Longrightarrow> may_report (apply_event e (StepScheduled i n k key)) i"
proof -
  assume ok: "may_start e i"
  then have "ev_ok e (StepScheduled i n k key)" by simp
  from parents_completed_mono [OF ev_ok_keeps [OF this]]
  have "parents_completed e i \<Longrightarrow> parents_completed (apply_event e (StepScheduled i n k key)) i" by simp
  with ok show ?thesis by (auto simp: may_start_def may_report_def touch_defs)
qed

lemma schedule_ok: "may_start e i \<Longrightarrow> evs_ok e (schedule_events C e0 i n now)"
  by (auto simp: schedule_events_def split: option.splits runtime_binding.splits
      intro: may_start_start [simplified])

lemma may_start_other:
  assumes "may_start e j" and "evs_ok e evs" and "\<And>ev. ev \<in> set evs \<Longrightarrow> touched ev \<noteq> Some j"
  shows "may_start (apply_all e evs) j"
  using assms parents_completed_mono [OF evs_ok_keeps [OF assms(2)]]
  by (auto simp: may_start_def apply_all_untouched)

lemma schedule_many_ok:
  assumes "distinct is" and "\<And>i. i \<in> set is \<Longrightarrow> may_start e i"
  shows "evs_ok e (concat (map (\<lambda>i. schedule_events C e0 i n now) is))"
  using assms
proof (induction "is" arbitrary: e)
  case (Cons i "is")
  let ?evs = "schedule_events C e0 i n now"
  have ok: "evs_ok e ?evs" using Cons.prems by (intro schedule_ok) simp
  have "may_start (apply_all e ?evs) j" if "j \<in> set is" for j
    using that Cons.prems by (intro may_start_other [OF _ ok]) (auto dest: touched_schedule)
  with Cons ok show ?case by (simp add: evs_ok_append)
qed simp

lemma ready_may_start:
  assumes "causal e" and "step_ready e i"
  shows "may_start e i"
  using assms causalD(2) [OF assms(1), of i]
  by (auto simp: step_ready_def may_start_def step_causal_def split: option.splits)

lemma step_ready_iff: "step_ready e i \<longleftrightarrow> state_at e i = Some Scheduled \<and> parents_completed e i"
  by (auto simp: step_ready_def state_at_def split: option.splits)

lemma step_ready_cong:
  "state_at e = state_at e' \<Longrightarrow> ex_plan e = ex_plan e' \<Longrightarrow> step_ready e i = step_ready e' i"
  by (simp add: step_ready_iff parents_completed_cong [of e e'])

lemma dispatch_ok:
  assumes "causal e" and "distinct (map ps_id (plan_steps (ex_plan e)))"
    and "state_at e0 = state_at e" and "ex_plan e0 = ex_plan e"
  shows "evs_ok e (dispatch_events C e0 now)"
  unfolding dispatch_events_def
proof (rule schedule_many_ok)
  show "distinct (ready_ids e0)" using assms(2,4) by (simp add: ready_ids_def)
  show "may_start e i" if "i \<in> set (ready_ids e0)" for i
    using that step_ready_cong [OF assms(3,4), of i] ready_may_start [OF assms(1), of i]
    by (auto simp: ready_ids_def split: if_splits)
qed

lemma skips_ok:
  assumes "\<And>ev. ev \<in> set evs \<Longrightarrow> \<exists>i why. ev = StepSkipped i why \<and> may_skip e i"
  shows "evs_ok e evs"
  using assms
proof (induction evs arbitrary: e)
  case (Cons ev evs)
  then obtain i why where ev: "ev = StepSkipped i why" "may_skip e i" by force
  have "may_skip (apply_event e ev) j" if "may_skip e j" for j
    using that ev by (auto simp: may_skip_def apply_event_step touch_defs)
  with Cons.prems have "\<exists>j why. ev' = StepSkipped j why \<and> may_skip (apply_event e ev) j" if "ev' \<in> set evs" for ev'
    using that by fastforce
  then have "evs_ok (apply_event e ev) evs" by (rule Cons.IH)
  with ev show ?case by simp
qed simp

lemma all_completed_state:
  "execution_wf e \<Longrightarrow> execution_wf e' \<Longrightarrow> state_at e = state_at e' \<Longrightarrow> all_completed e = all_completed e'"
proof -
  assume wf: "execution_wf e" "execution_wf e'" and eq: "state_at e = state_at e'"
  have "(\<forall>i s. ex_step x i = Some s \<longrightarrow> state_type (ss_state s) = Completed)
      \<longleftrightarrow> (\<forall>i c. state_at x i = Some c \<longrightarrow> c = Completed)" for x
    unfolding state_at_def by auto
  with wf eq show ?thesis by (simp add: all_completed_iff)
qed

lemma completed_after_wf: "execution_wf e \<Longrightarrow> execution_wf (completed_after i e)"
proof -
  assume wf: "execution_wf e"
  then have "step_wf j s" if "ex_step (completed_after i e) j = Some s" for j s
  proof -
    have keep: "step_wf k (z\<lparr>ss_state := st, ss_awaiting := None\<rparr>) = step_wf k z" for k z st
      by (simp add: step_wf_def)
    have "ex_step e k = Some z \<Longrightarrow> step_wf k z" for k z
      using wf by (simp add: execution_wf_def)
    with that keep show ?thesis by (auto simp: completed_after_def split: if_splits)
  qed
  moreover have "map fst (ex_steps (completed_after i e)) = map fst (ex_steps e)"
    by (simp add: completed_after_def)
  then have "bt_ok (ex_steps (completed_after i e))"
    "fst ` set (ex_steps (completed_after i e)) = fst ` set (ex_steps e)"
    using wf by (simp_all add: bt_ok_def execution_wf_def) (metis list.set_map)
  ultimately show ?thesis using wf by (simp add: execution_wf_def completed_after_def)
qed

lemma continue_ok:
  assumes "causal e1" and "distinct (map ps_id (plan_steps (ex_plan e1)))" and "execution_wf e"
    and "state_at (completed_after i e) = state_at e1" and "ex_plan e = ex_plan e1"
  shows "evs_ok e1 (continue_events C e i now)"
proof (cases "ex_cancelling e")
  case True
  then show ?thesis by (simp add: continue_events_def)
next
  case False
  let ?a = "completed_after i e"
  have plan: "ex_plan ?a = ex_plan e1" using assms(5) by (simp add: completed_after_def)
  have disp: "evs_ok e1 (dispatch_events C ?a now)"
    using assms(1,2,4) plan by (rule dispatch_ok)
  show ?thesis
  proof (cases "all_completed ?a")
    case all: True
    then have completed: "all_completed e1"
      using all_completed_state [OF completed_after_wf [OF assms(3)] causalD(1) [OF assms(1)] assms(4)]
      by simp
    have "\<not> step_ready ?a j" for j
      using all completed_after_wf [OF assms(3), of i]
      by (auto simp: all_completed_iff step_ready_def split: option.splits)
    then have "dispatch_events C ?a now = []" by (simp add: dispatch_events_def ready_ids_def)
    with all completed False show ?thesis
      by (simp add: continue_events_def all_completed_iff [OF causalD(1) [OF assms(1)]])
  next
    case not_all: False
    with disp False show ?thesis by (simp add: continue_events_def)
  qed
qed

lemma downstream_idle:
  assumes "causal e" and "(i, c) \<in> (plan_rel (ex_plan e))\<^sup>+" and "state_at e i \<noteq> Some Completed"
    and "ex_step e c = Some s"
  shows "state_type (ss_state s) \<in> {Scheduled, Cancelled}"
proof -
  have idle: "state_at e d \<noteq> Some Completed \<and> (\<forall>s. ex_step e d = Some s \<longrightarrow> state_type (ss_state s) \<in> {Scheduled, Cancelled})"
    if "(p, d) \<in> plan_rel (ex_plan e)" "state_at e p \<noteq> Some Completed" for p d
  proof -
    from that have "\<not> parents_completed e d"
      by (auto simp: parents_completed_iff parents_of_iff plan_rel_def)
    with causalD(2) [OF assms(1), of d] show ?thesis by (auto simp: step_causal_def state_at_def)
  qed
  from assms(2) have "state_at e c \<noteq> Some Completed \<and>
      (\<forall>s. ex_step e c = Some s \<longrightarrow> state_type (ss_state s) \<in> {Scheduled, Cancelled})"
    by (induction rule: trancl_induct) (use idle assms(3) in blast)+
  with assms(4) show ?thesis by blast
qed

lemma settle_ok:
  assumes "causal e" and "state_at e i \<noteq> Some Completed" and "fst ` set vs = skippable e i"
    and "run_end = ExecutionCancelled \<or> (\<exists>why. run_end = ExecutionFailed why)"
  shows "evs_ok (apply_event e (StepFailed i n err)) (map (\<lambda>(c, p). skip_event c p) vs @ [run_end])"
proof -
  let ?e = "apply_event e (StepFailed i n err)"
  have "may_skip ?e c" if "c \<in> skippable e i" for c
  proof -
    from that have c: "c \<noteq> i" "(i, c) \<in> (plan_rel (ex_plan e))\<^sup>+" by (auto simp: skippable_def)
    have "state_type (ss_state s) \<noteq> Completed \<and> ss_awaiting s = None" if s: "ex_step e c = Some s" for s
      using downstream_idle [OF assms(1) c(2) assms(2) s] causalD(2) [OF assms(1) s]
      by (auto simp: step_causal_def)
    with c(1) show ?thesis by (simp add: may_skip_def)
  qed
  moreover have "c \<in> skippable e i" if "(c, p) \<in> set vs" for c p
    using that assms(3) by force
  ultimately have "evs_ok ?e (map (\<lambda>(c, p). skip_event c p) vs)"
    by (intro skips_ok) (auto simp: skip_event_def simp del: apply_event.simps)
  moreover have "evs_ok x [run_end]" for x using assms(4) by auto
  ultimately show ?thesis by (simp only: evs_ok_append simp_thms)
qed

lemma run_ending_cases: "run_ending e i err = ExecutionCancelled \<or> (\<exists>why. run_ending e i err = ExecutionFailed why)"
  by (simp add: run_ending_def)

lemma completed_state:
  assumes "ev = StepCompleted i n outs res \<or> ev = StepCacheHit i n key outs"
  shows "state_at (apply_event e ev) = state_at (completed_after i e)"
proof (rule ext)
  fix j
  show "state_at (apply_event e ev) j = state_at (completed_after i e) j"
    using assms by (cases "ex_step e j") (auto simp: state_at_def completed_after_def touch_defs)
qed

lemma complete_ok:
  assumes "causal e" and "distinct (map ps_id (plan_steps (ex_plan e)))"
    and "ev = StepCompleted i n outs res \<or> ev = StepCacheHit i n key outs" and "ev_ok e ev"
    and "execution_wf e0" "state_at e0 = state_at e" "ex_plan e0 = ex_plan e"
  shows "evs_ok e (ev # continue_events C e0 i now)"
proof -
  have eq: "state_at (completed_after i e0) j = state_at (completed_after i e) j" for j
    using fun_cong [OF assms(6), of j]
    by (cases "ex_step e0 j"; cases "ex_step e j") (auto simp: state_at_def completed_after_def)
  have "evs_ok (apply_event e ev) (continue_events C e0 i now)"
  proof (rule continue_ok)
    show "causal (apply_event e ev)" using assms(1,4) by (rule ev_ok_causal)
    show "state_at (completed_after i e0) = state_at (apply_event e ev)"
      using eq completed_state [OF assms(3), of e] by auto
  qed (use assms in simp_all)
  with assms(4) show ?thesis by simp
qed

lemma waiting_may_report:
  assumes "causal e" and "ex_step e i = Some s" and "ss_awaiting s = Some q"
  shows "may_report e i"
  using causalD(2) [OF assms(1,2)] assms by (auto simp: may_report_def step_causal_def)

lemma answer_ok:
  assumes "causal e" and "distinct (map ps_id (plan_steps (ex_plan e)))"
    and "ex_step e i = Some s" and "ss_awaiting s = Some q"
  shows "evs_ok e (answer_events C e i n w r now)"
proof -
  let ?e = "apply_event e (InputProvided i n w r)"
  have causal: "causal ?e" using assms(1) by (rule ev_ok_causal) simp
  have st: "state_at ?e = state_at e"
  proof (rule ext)
    fix j
    show "state_at ?e j = state_at e j"
      by (cases "ex_step e j") (auto simp: state_at_def touch_defs)
  qed
  have rep: "may_report e i" using assms(1,3,4) by (rule waiting_may_report)
  have par: "parents_completed ?e i = parents_completed e i"
    by (rule parents_completed_cong [OF st]) simp
  have "may_start ?e i"
    using rep assms(3) par by (auto simp: may_report_def may_start_def touch_defs)
  then have again: "evs_ok ?e (schedule_events C e0 i (n + 1) now)" for e0 by (rule schedule_ok)
  have "ev_ok ?e (StepCompleted i n [] (Some r))"
    using rep assms(3) par by (auto simp: may_report_def touch_defs)
  then have over: "evs_ok ?e (StepCompleted i n [] (Some r) # continue_events C e i now)"
    by (intro complete_ok [OF causal _ disjI1 [OF refl] _ causalD(1) [OF assms(1)] st [symmetric]])
      (simp_all only: apply_event_frame assms(2))
  from again over show ?thesis by (simp add: answer_events_def)
qed

lemma fresh_may_report:
  assumes "causal e" and "report_fresh e i n"
  shows "may_report e i"
proof -
  from assms(2) obtain s where s: "ex_step e i = Some s" "ss_attempts s \<noteq> []"
    "\<not> is_terminal (state_type (ss_state s))"
    by (auto simp: report_fresh_def is_some_and_iff)
  with causalD(2) [OF assms(1) s(1)] have "parents_completed e i"
    by (auto simp: step_causal_def)
  with s show ?thesis by (auto simp: may_report_def)
qed


lemma cancel_ok:
  assumes "causal e" and "decide_cancel C e reason (emitter_new (ex_id e) cause now) = Inr out"
  shows "evs_ok e (events_of out)"
proof (cases "ex_cancelling e")
  case True
  with assms(2) show ?thesis by (auto simp: decide_cancel_def split: if_splits)
next
  case False
  let ?c = "apply_event e (ExecutionCancelling reason)"
  let ?skips = "cancel_skips (bt_values (ex_steps e))"
  have "may_skip ?c i" if "StepSkipped i why \<in> set ?skips" for i why
  proof -
    from that have "StepSkipped i ''the execution was cancelled'' \<in> set ?skips"
      by (auto simp: cancel_skips_def)
    then obtain s where s: "ex_step e i = Some s" "not_started s"
      using cancel_skips_mem [OF causalD(1) [OF assms(1)]] by blast
    with causalD(2) [OF assms(1) s(1)] show ?thesis
      by (auto simp: may_skip_def step_causal_def not_started_def)
  qed
  then have skips: "evs_ok ?c ?skips"
    by (intro skips_ok) (auto simp: cancel_skips_def image_iff simp del: apply_event.simps)
  have tail: "evs_ok x (if b then [] else [ExecutionCancelled])" for x b by simp
  from cancel_out [OF assms(2) False] skips tail show ?thesis
    by (simp del: apply_event.simps add: evs_ok_append)
qed

lemma failed_ok:
  assumes "causal e" and "report_fresh e i n"
    and "decide_failed C e i n err now (emitter_new (ex_id e) cause now) = Inr out"
  shows "evs_ok e (events_of out)"
proof -
  have rep: "may_report e i" using assms(1,2) by (rule fresh_may_report)
  from assms(2) obtain s where s: "ex_step e i = Some s" by (auto simp: report_fresh_def is_some_and_iff)
  from assms(3) obtain step where p: "plan_step_of (ex_plan e) i = Some step"
    by (auto simp: decide_failed_def step_of_def split: option.splits if_splits)
  let ?ev = "StepFailed i n err"
  have ok: "ev_ok e ?ev" using rep by simp
  have start: "may_start (apply_event e ?ev) i"
    using rep s parents_completed_mono [OF ev_ok_keeps [OF ok]]
    by (auto simp: may_report_def may_start_def touch_defs)
  have not: "state_at e i \<noteq> Some Completed" using rep s by (auto simp: may_report_def state_at_def)
  have out: "decide C (Active e) (Event ?ev) cause now = Inr out" using assms(3) by simp
  note cases = failure_cases [OF s p out]
  show ?thesis
  proof (cases "is_retryable (err_class err) \<and> attempts_spent s err < retry_budget step err \<and> \<not> ex_cancelling e")
    case True
    with cases ok start show ?thesis by (simp del: apply_event.simps)
  next
    case False
    from cases [unfolded if_not_P [OF False]] obtain vs where
      "events_of out = ?ev # map (\<lambda>(c, p). skip_event c p) vs @ [run_ending e i err]"
      "fst ` set vs = skippable e i" by blast
    with settle_ok [OF assms(1) not _ run_ending_cases] ok show ?thesis
      by (simp del: apply_event.simps)
  qed
qed

lemma timeout_ok:
  assumes "causal e" and "distinct (map ps_id (plan_steps (ex_plan e)))"
    and "decide_timeout C e i n now (emitter_new (ex_id e) cause now) = Inr out"
  shows "evs_ok e (events_of out)"
proof -
  from assms(3) obtain s q p where sq: "ex_step e i = Some s" "ss_awaiting s = Some q"
    "ss_current_attempt s = n" "timeout_policy e i q = Some p"
    by (auto simp: decide_timeout_def step_of_def split: option.splits if_splits)
  have rep: "may_report e i" using assms(1) sq(1,2) by (rule waiting_may_report)
  let ?em = "about_step i n (emitter_new (ex_id e) cause now)"
  show ?thesis
  proof (cases p)
    case TimeoutFail
    let ?ev = "StepFailed i n (nobody_answered i)"
    from TimeoutFail assms(3) sq have out: "events_of out
        = emitted (settle_failure C e i n (nobody_answered i) (emit_event C ?ev ?em))"
      by (auto simp: decide_timeout_def step_of_def)
    from settle_event_list [of C e i n "nobody_answered i" "emit_event C ?ev ?em"] obtain vs where
      "events_of out = ?ev # map (\<lambda>(c, p). skip_event c p) vs @ [run_ending e i (nobody_answered i)]"
      "fst ` set vs = skippable e i" unfolding out by auto
    moreover have "state_at e i \<noteq> Some Completed" using rep sq by (auto simp: may_report_def state_at_def)
    ultimately show ?thesis
      using settle_ok [OF assms(1) _ _ run_ending_cases] rep by (simp del: apply_event.simps)
  next
    case TimeoutSkip
    with assms(3) sq have "events_of out = StepCompleted i n [] None # continue_events C e i now"
      by (auto simp: decide_timeout_def step_of_def)
    then show ?thesis
      using complete_ok [OF assms(1,2) disjI1 [OF refl], of i n "[]" None e C now] rep
        causalD(1) [OF assms(1)] by simp
  next
    case (TimeoutAnswer r)
    with assms(3) sq have "events_of out = answer_events C e i n ANSWERED_BY_TIMEOUT r now"
      by (auto simp: decide_timeout_def step_of_def)
    with answer_ok [OF assms(1,2) sq(1,2)] show ?thesis by simp
  qed
qed

lemma completed_ok:
  assumes "causal e" and "distinct (map ps_id (plan_steps (ex_plan e)))" and "report_fresh e i n"
  shows "decide_completed C e i n outs res now (emitter_new (ex_id e) cause now) = Inr out \<Longrightarrow> evs_ok e (events_of out)"
    and "not_waiting e i \<Longrightarrow>
      decide_cache_hit C e i n key outs now (emitter_new (ex_id e) cause now) = Inr out \<Longrightarrow> evs_ok e (events_of out)"
proof -
  have rep: "may_report e i" using assms(1,3) by (rule fresh_may_report)
  note both = complete_ok [OF assms(1,2) _ _ causalD(1) [OF assms(1)] refl refl]
  assume out: "decide_completed C e i n outs res now (emitter_new (ex_id e) cause now) = Inr out"
  then have "out = [] \<or> events_of out = StepCompleted i n outs res # continue_events C e i now"
    by (auto simp: decide_completed_def step_of_def split: option.splits if_splits)
  then show "evs_ok e (events_of out)"
    using both [OF disjI1 [OF refl]] rep by auto
next
  have rep: "may_report e i" using assms(1,3) by (rule fresh_may_report)
  note both = complete_ok [OF assms(1,2) _ _ causalD(1) [OF assms(1)] refl refl]
  assume "not_waiting e i"
    and out: "decide_cache_hit C e i n key outs now (emitter_new (ex_id e) cause now) = Inr out"
  then have "may_start e i" using rep by (auto simp: may_report_def may_start_def not_waiting_def)
  moreover from out have "out = [] \<or> events_of out = StepCacheHit i n key outs # continue_events C e i now"
    by (auto simp: decide_cache_hit_def step_of_def split: option.splits if_splits)
  ultimately show "evs_ok e (events_of out)"
    using both [OF disjI2 [OF refl]] by auto
qed



lemma arm_ok:
  assumes "causal e" and "distinct (map ps_id (plan_steps (ex_plan e)))"
  shows "decide_pause C e em = Inr out \<Longrightarrow> emitted em = [] \<Longrightarrow> evs_ok e (events_of out)"
    and "decide_resume C e now em = Inr out \<Longrightarrow> emitted em = [] \<Longrightarrow> evs_ok e (events_of out)"
    and "decide_retry C e i now em = Inr out \<Longrightarrow> emitted em = [] \<Longrightarrow> evs_ok e (events_of out)"
    and "decide_provide C e i n w r now em = Inr out \<Longrightarrow> emitted em = [] \<Longrightarrow> evs_ok e (events_of out)"
    and "decide_started C e i n em = Inr out \<Longrightarrow> report_fresh e i n \<Longrightarrow> emitted em = [] \<Longrightarrow> evs_ok e (events_of out)"
    and "decide_input_requested C e i n q em = Inr out \<Longrightarrow> report_fresh e i n \<Longrightarrow> emitted em = [] \<Longrightarrow> evs_ok e (events_of out)"
proof -
  show "decide_pause C e em = Inr out \<Longrightarrow> emitted em = [] \<Longrightarrow> evs_ok e (events_of out)"
    by (auto simp: decide_pause_def split: if_splits)
  show "evs_ok e (events_of out)" if "decide_resume C e now em = Inr out" "emitted em = []"
  proof -
    let ?r = "e\<lparr>ex_state := state_of Running\<rparr>"
    have "causal (apply_event e ExecutionResumed)" by (rule ev_ok_causal [OF assms(1)]) simp
    then have "evs_ok ?r (dispatch_events C ?r now)"
      using assms(2) by (intro dispatch_ok) simp_all
    with that show ?thesis by (auto simp: decide_resume_def split: if_splits)
  qed
  show "evs_ok e (events_of out)" if out: "decide_retry C e i now em = Inr out" "emitted em = []"
  proof -
    from out obtain s where s: "ex_step e i = Some s" "state_type (ss_state s) \<in> {Failed, Crashed}"
      "events_of out = schedule_events C e i (ss_current_attempt s + 1) now"
      by (auto simp: decide_retry_def step_of_def split: option.splits if_splits)
    with causalD(2) [OF assms(1) s(1)] have "may_start e i"
      by (auto simp: may_start_def step_causal_def)
    with s(3) show ?thesis by (simp add: schedule_ok)
  qed
  show "evs_ok e (events_of out)" if out: "decide_provide C e i n w r now em = Inr out" "emitted em = []"
  proof -
    from out obtain s q where s: "ex_step e i = Some s" "ss_awaiting s = Some q"
      "events_of out = answer_events C e i n w r now"
      by (auto simp: decide_provide_def step_of_def split: option.splits if_splits)
    with answer_ok [OF assms s(1,2)] show ?thesis by simp
  qed
  show "decide_started C e i n em = Inr out \<Longrightarrow> report_fresh e i n \<Longrightarrow> emitted em = [] \<Longrightarrow> evs_ok e (events_of out)"
    using fresh_may_report [OF assms(1)]
    by (auto simp: decide_started_def step_of_def split: option.splits if_splits)
  show "decide_input_requested C e i n q em = Inr out \<Longrightarrow> report_fresh e i n \<Longrightarrow> emitted em = [] \<Longrightarrow> evs_ok e (events_of out)"
    using fresh_may_report [OF assms(1)]
    by (auto simp: decide_input_requested_def step_of_def split: option.splits if_splits)
qed

lemma decide_ok:
  assumes "causal e" and "distinct (map ps_id (plan_steps (ex_plan e)))"
    and "input_fresh e m" and "decide C (Active e) m cause now = Inr out"
  shows "evs_ok e (events_of out)"
proof (cases m)
  case (Command c)
  with assms(4) show ?thesis
    using arm_ok(1-4) [OF assms(1,2)] cancel_ok [OF assms(1)] timeout_ok [OF assms(1,2)]
    by (cases c) auto
next
  case (Event ev)
  with assms(3,4) show ?thesis
    using arm_ok(5,6) [OF assms(1,2)] failed_ok [OF assms(1)] completed_ok [OF assms(1,2)]
    by (cases ev) auto
next
  case (HostedMsg h)
  with assms(4) show ?thesis by simp
qed

subsection \<open>The start\<close>

lemma requested_causal: "causal (execution_requested r)"
proof -
  have "step_causal (execution_requested r) i s" if "ex_step (execution_requested r) i = Some s" for i s
    using requested_step [OF that] by (auto simp: step_causal_def step_fresh_def)
  moreover have "state_type (ex_state (execution_requested r)) \<noteq> Completed"
    by (simp add: execution_requested_def)
  ultimately show ?thesis by (simp add: causal_def requested_wf)
qed

definition started_execution :: "start_request \<Rightarrow> execution" where
  "started_execution r = apply_event (execution_requested r) ExecutionStarted"

lemma start_out:
  assumes "decide C Empty (Command (StartExecution r)) cause now = Inr out"
  shows "events_of out = ExecutionRequested r # ExecutionStarted # dispatch_events C (started_execution r) now"
    and "is_acyclic (st_plan r)"
  using assms
  by (auto simp: decide_start_def initial_state_def started_execution_def Let_def split: if_splits)

lemma start_replay:
  assumes "decide C Empty (Command (StartExecution r)) cause now = Inr out"
  shows "replay (events_of out) = Active (apply_all (started_execution r) (dispatch_events C (started_execution r) now))"
  using start_out(1) [OF assms]
  by (simp add: replay_def initial_state_def foldl_evolve_Active started_execution_def)

lemma started_plan [simp]: "ex_plan (started_execution r) = st_plan r" "ex_mode (started_execution r) = st_mode r"
  by (simp_all add: started_execution_def execution_requested_def)

lemma started_causal: "causal (started_execution r)"
  unfolding started_execution_def by (rule ev_ok_causal [OF requested_causal]) simp

lemma reachable_plan: "reachable C e \<Longrightarrow> distinct (map ps_id (plan_steps (ex_plan e)))"
  by (induction rule: reachable.induct) (auto simp: start_replay)

lemma reachable_is_causal: "reachable C e \<Longrightarrow> causal e"
proof (induction rule: reachable.induct)
  case (start r cause now out e)
  have "evs_ok (started_execution r) (dispatch_events C (started_execution r) now)"
    using start(2) by (intro dispatch_ok started_causal) simp_all
  from evs_ok_causal [OF started_causal this] start_replay [OF start(1)] start(3) show ?case by simp
next
  case (step e m cause now out)
  then have "evs_ok e (events_of out)" using reachable_plan by (intro decide_ok) auto
  with step.IH show ?case by (rule evs_ok_causal)
qed


end
