(* ===== verification/Progress.thy ===== *)
theory Progress
  imports Reach
begin

text \<open>
  No run stands still. A compiled run whose plan has no cycle and no edge from an unknown step,
  that is running and not being cancelled, always has a step in hand: the decider dispatches a
  step in the very decision that completes its last parent, and declares the run completed in the
  one that completes its last step. The proof classifies what a decision can emit and keeps three
  facts over every shape.
\<close>

fun completes :: "workflow_event \<Rightarrow> bool" where
  "completes (StepCompleted _ _ _ _) = True"
| "completes (StepCacheHit _ _ _ _) = True"
| "completes _ = False"

fun in_motion :: "workflow_event \<Rightarrow> bool" where
  "in_motion (StepScheduled _ _ _ _) = True"
| "in_motion (StepRetryScheduled _ _ _) = True"
| "in_motion (StepStarted _ _) = True"
| "in_motion (InputRequested _ _ _) = True"
| "in_motion (InputProvided _ _ _ _) = True"
| "in_motion _ = False"

subsection \<open>The shapes of a decision\<close>

inductive shape :: "crates \<Rightarrow> execution \<Rightarrow> workflow_event list \<Rightarrow> bool" for C e where
  idle: "shape C e []"
| paused: "\<not> is_terminal (state_type (ex_state e)) \<Longrightarrow> shape C e [ExecutionPaused]"
| resumed: "state_type (ex_state e) = Paused \<Longrightarrow>
    shape C e (ExecutionResumed # dispatch_events C (e\<lparr>ex_state := state_of Running\<rparr>) now)"
| cancelled: "tail = [] \<or> tail = [ExecutionCancelled] \<Longrightarrow>
    shape C e (ExecutionCancelling reason # cancel_skips ss @ tail)"
| moved: "evs \<noteq> [] \<Longrightarrow> (\<And>ev. ev \<in> set evs \<Longrightarrow> in_motion ev \<and> touched ev = Some i) \<Longrightarrow>
    ex_step e i = Some s \<Longrightarrow> state_type (ss_state s) \<noteq> Completed \<Longrightarrow> shape C e evs"
| retried: "ex_step e i = Some s \<Longrightarrow> state_type (ss_state s) \<noteq> Completed \<Longrightarrow>
    shape C e [StepFailed i n err, StepRetryScheduled i (n + 1) t]"
| settled: "ex_step e i = Some s \<Longrightarrow> state_type (ss_state s) \<noteq> Completed \<Longrightarrow>
    shape C e (StepFailed i n err # map (\<lambda>(c, p). skip_event c p) vs @ [run_ending e i err])"
| completed: "completes ev \<Longrightarrow> touched ev = Some i \<Longrightarrow>
    ex_step e i = Some s \<Longrightarrow> state_type (ss_state s) \<noteq> Completed \<Longrightarrow>
    pre = [] \<or> (\<exists>n w r. pre = [InputProvided i n w r]) \<Longrightarrow>
    shape C e (pre @ ev # continue_events C e i now)"

lemma schedule_in_motion: "ev \<in> set (schedule_events C e i n now) \<Longrightarrow> in_motion ev \<and> touched ev = Some i"
  by (auto simp: schedule_events_def split: option.splits runtime_binding.splits)

lemma schedule_nonempty: "i \<in> ps_id ` set (plan_steps (ex_plan e)) \<Longrightarrow> schedule_events C e i n now \<noteq> []"
  using plan_step_of_mem [of "ex_plan e" i] by (auto simp: schedule_events_def split: option.splits)

lemma dispatch_in_motion: "ev \<in> set (dispatch_events C e now) \<Longrightarrow> in_motion ev"
  by (auto simp: dispatch_events_def dest: schedule_in_motion)

lemma answer_shape:
  assumes "causal e" and "ex_mode e \<noteq> Hosted" and "ex_step e i = Some s" and "ss_awaiting s = Some q"
  shows "shape C e (answer_events C e i n w r now)"
proof -
  have not: "state_type (ss_state s) \<noteq> Completed"
    using waiting_may_report [OF assms(1,3,4)] assms(3) by (auto simp: may_report_def)
  show ?thesis
  proof (cases "plan_human_input e i = None")
    case True
    with assms(2) have "answer_events C e i n w r now = InputProvided i n w r #
        schedule_events C (ex_step_mut i (apply_input_provided n w r) e) i (n + 1) now"
      by (simp add: answer_events_def)
    then show ?thesis using assms(3) not
      by (auto intro!: moved [of _ i] dest: schedule_in_motion)
  next
    case False
    then have "answer_events C e i n w r now = [InputProvided i n w r] @
        StepCompleted i n [] (Some r) # continue_events C e i now"
      by (simp add: answer_events_def)
    then show ?thesis using assms(3) not by (auto intro!: completed simp del: append_Cons append_Nil)
  qed
qed


lemma fresh_unfinished:
  "report_fresh e i n \<Longrightarrow> \<exists>s. ex_step e i = Some s \<and> state_type (ss_state s) \<noteq> Completed"
  by (auto simp: report_fresh_def is_some_and_iff)

lemma failed_shape:
  assumes "report_fresh e i n"
    and "decide_failed C e i n err now (emitter_new (ex_id e) cause now) = Inr out"
  shows "shape C e (events_of out)"
proof -
  from fresh_unfinished [OF assms(1)] obtain s where s: "ex_step e i = Some s"
    "state_type (ss_state s) \<noteq> Completed" by blast
  from assms(2) obtain step where p: "plan_step_of (ex_plan e) i = Some step"
    by (auto simp: decide_failed_def step_of_def split: option.splits if_splits)
  have out: "decide C (Active e) (Event (StepFailed i n err)) cause now = Inr out" using assms(2) by simp
  note cases = failure_cases [OF s(1) p out]
  show ?thesis
  proof (cases "is_retryable (err_class err) \<and> attempts_spent s err < retry_budget step err \<and> \<not> ex_cancelling e")
    case True
    with cases retried [OF s] show ?thesis by simp
  next
    case False
    with cases settled [OF s] show ?thesis unfolding if_not_P [OF False] by auto
  qed
qed

lemma timeout_shape:
  assumes "causal e" and "ex_mode e \<noteq> Hosted"
    and "decide_timeout C e i n now (emitter_new (ex_id e) cause now) = Inr out"
  shows "shape C e (events_of out)"
proof -
  from assms(3) obtain s q p where sq: "ex_step e i = Some s" "ss_awaiting s = Some q"
    "ss_current_attempt s = n" "timeout_policy e i q = Some p"
    by (auto simp: decide_timeout_def step_of_def split: option.splits if_splits)
  have not: "state_type (ss_state s) \<noteq> Completed"
    using waiting_may_report [OF assms(1) sq(1,2)] sq(1) by (auto simp: may_report_def)
  let ?em = "about_step i n (emitter_new (ex_id e) cause now)"
  show ?thesis
  proof (cases p)
    case TimeoutFail
    let ?ev = "StepFailed i n (nobody_answered i)"
    from TimeoutFail assms(3) sq have out: "events_of out
        = emitted (settle_failure C e i n (nobody_answered i) (emit_event C ?ev ?em))"
      by (auto simp: decide_timeout_def step_of_def)
    from settle_event_list [of C e i n "nobody_answered i" "emit_event C ?ev ?em"] obtain vs where
      "events_of out = ?ev # map (\<lambda>(c, p). skip_event c p) vs @ [run_ending e i (nobody_answered i)]"
      unfolding out by auto
    with settled [OF sq(1) not] show ?thesis by simp
  next
    case TimeoutSkip
    with assms(3) sq have "events_of out = [] @ StepCompleted i n [] None # continue_events C e i now"
      by (auto simp: decide_timeout_def step_of_def)
    with completed [OF _ _ sq(1) not, where pre = "[]"] show ?thesis by simp
  next
    case (TimeoutAnswer r)
    with assms(3) sq have "events_of out = answer_events C e i n ANSWERED_BY_TIMEOUT r now"
      by (auto simp: decide_timeout_def step_of_def)
    with answer_shape [OF assms(1,2) sq(1,2)] show ?thesis by simp
  qed
qed

lemma report_shapes:
  assumes "report_fresh e i n"
  shows "decide_completed C e i n outs res now em = Inr out \<Longrightarrow> emitted em = [] \<Longrightarrow> shape C e (events_of out)"
    and "decide_cache_hit C e i n key outs now em = Inr out \<Longrightarrow> emitted em = [] \<Longrightarrow> shape C e (events_of out)"
    and "decide_started C e i n em = Inr out \<Longrightarrow> emitted em = [] \<Longrightarrow> shape C e (events_of out)"
    and "decide_input_requested C e i n q em = Inr out \<Longrightarrow> emitted em = [] \<Longrightarrow> shape C e (events_of out)"
proof -
  from fresh_unfinished [OF assms] obtain s where s: "ex_step e i = Some s"
    "state_type (ss_state s) \<noteq> Completed" by blast
  show "decide_completed C e i n outs res now em = Inr out \<Longrightarrow> emitted em = [] \<Longrightarrow> shape C e (events_of out)"
    using completed [OF _ _ s, where pre = "[]"] s(2)
    by (auto simp: decide_completed_def step_of_def s(1) split: if_splits)
  show "decide_cache_hit C e i n key outs now em = Inr out \<Longrightarrow> emitted em = [] \<Longrightarrow> shape C e (events_of out)"
    using completed [OF _ _ s, where pre = "[]"] s(2)
    by (auto simp: decide_cache_hit_def step_of_def s(1) split: if_splits)
  show "decide_started C e i n em = Inr out \<Longrightarrow> emitted em = [] \<Longrightarrow> shape C e (events_of out)"
    using s by (auto simp: decide_started_def step_of_def split: if_splits intro!: moved [of _ i])
  show "decide_input_requested C e i n q em = Inr out \<Longrightarrow> emitted em = [] \<Longrightarrow> shape C e (events_of out)"
    using s by (auto simp: decide_input_requested_def step_of_def split: if_splits intro!: moved [of _ i])
qed

lemma command_shapes:
  assumes "causal e" and "ex_mode e \<noteq> Hosted"
  shows "decide_pause C e em = Inr out \<Longrightarrow> emitted em = [] \<Longrightarrow> shape C e (events_of out)"
    and "decide_resume C e now em = Inr out \<Longrightarrow> emitted em = [] \<Longrightarrow> shape C e (events_of out)"
    and "decide_cancel C e reason em = Inr out \<Longrightarrow> emitted em = [] \<Longrightarrow> shape C e (events_of out)"
    and "decide_retry C e i now em = Inr out \<Longrightarrow> emitted em = [] \<Longrightarrow> shape C e (events_of out)"
    and "decide_provide C e i n w r now em = Inr out \<Longrightarrow> emitted em = [] \<Longrightarrow> shape C e (events_of out)"
proof -
  show "decide_pause C e em = Inr out \<Longrightarrow> emitted em = [] \<Longrightarrow> shape C e (events_of out)"
    by (auto simp: decide_pause_def split: if_splits intro: paused idle)
  show "decide_resume C e now em = Inr out \<Longrightarrow> emitted em = [] \<Longrightarrow> shape C e (events_of out)"
    using resumed [of e C now] by (auto simp: decide_resume_def split: if_splits)
  show "shape C e (events_of out)" if out: "decide_cancel C e reason em = Inr out" "emitted em = []"
  proof (cases "ex_cancelling e")
    case True
    with out idle show ?thesis by (auto simp: decide_cancel_def split: if_splits)
  next
    case False
    from cancel_out [OF out(1) False out(2)] cancelled show ?thesis by simp
  qed
  show "shape C e (events_of out)" if out: "decide_retry C e i now em = Inr out" "emitted em = []"
  proof -
    from out obtain s where s: "ex_step e i = Some s" "state_type (ss_state s) \<in> {Failed, Crashed}"
      "events_of out = schedule_events C e i (ss_current_attempt s + 1) now"
      by (auto simp: decide_retry_def step_of_def split: option.splits if_splits)
    then have "i \<in> ps_id ` set (plan_steps (ex_plan e))"
      using wf_has_step [OF causalD(1) [OF assms(1)]] by blast
    with s show ?thesis
      by (auto intro!: moved [of _ i] dest: schedule_in_motion simp: schedule_nonempty)
  qed
  show "shape C e (events_of out)" if out: "decide_provide C e i n w r now em = Inr out" "emitted em = []"
  proof -
    from out obtain s q where s: "ex_step e i = Some s" "ss_awaiting s = Some q"
      "events_of out = answer_events C e i n w r now"
      by (auto simp: decide_provide_def step_of_def split: option.splits if_splits)
    with answer_shape [OF assms s(1,2)] show ?thesis by simp
  qed
qed

lemma decide_shape:
  assumes "causal e" and "ex_mode e \<noteq> Hosted" and "input_fresh e m"
    and "decide C (Active e) m cause now = Inr out"
  shows "shape C e (events_of out)"
proof (cases m)
  case (Command c)
  with assms(4) show ?thesis
    using command_shapes [OF assms(1,2)] timeout_shape [OF assms(1,2)] by (cases c) auto
next
  case (Event ev)
  with assms(3,4) show ?thesis
    using report_shapes failed_shape by (cases ev) auto
next
  case (HostedMsg h)
  with assms(4) show ?thesis by simp
qed


subsection \<open>What events leave alone\<close>

lemma scheduled_back:
  "state_at (apply_all e evs) j = Some Scheduled \<Longrightarrow>
     state_at e j = Some Scheduled \<and>
     (\<forall>ev \<in> set evs. touched ev = Some j \<longrightarrow> (\<exists>n w r. ev = InputProvided j n w r))"
proof (induction evs arbitrary: e)
  case (Cons ev evs)
  then have next_: "state_at (apply_event e ev) j = Some Scheduled"
    "\<forall>ev \<in> set evs. touched ev = Some j \<longrightarrow> (\<exists>n w r. ev = InputProvided j n w r)" by auto
  then have "state_at e j = Some Scheduled \<and> (touched ev = Some j \<longrightarrow> (\<exists>n w r. ev = InputProvided j n w r))"
    by (cases ev) (auto simp: state_at_def touch_defs split: if_splits)
  with next_(2) show ?case by simp
qed simp

lemma completed_back:
  "\<forall>ev \<in> set evs. \<not> completes ev \<Longrightarrow> state_at (apply_all e evs) p = Some Completed \<Longrightarrow>
     state_at e p = Some Completed"
proof (induction evs arbitrary: e)
  case (Cons ev evs)
  then have "state_at (apply_event e ev) p = Some Completed" "\<not> completes ev" by auto
  then show ?case by (cases ev) (auto simp: state_at_def touch_defs split: if_splits)
qed simp

lemma run_kept:
  "\<forall>ev \<in> set evs. touched ev \<noteq> None \<Longrightarrow>
     ex_state (apply_all e evs) = ex_state e \<and> ex_cancelling (apply_all e evs) = ex_cancelling e"
  by (induction evs arbitrary: e) (auto simp: apply_event_run)

lemma cancelling_kept: "ex_cancelling e \<Longrightarrow> ex_cancelling (apply_all e evs)"
proof (induction evs arbitrary: e)
  case (Cons ev evs)
  then have "ex_cancelling (apply_event e ev)" by (cases ev) simp_all
  with Cons show ?case by simp
qed simp

definition good_states :: "execution \<Rightarrow> bool" where
  "good_states e \<longleftrightarrow> (\<forall>i c. state_at e i = Some c \<longrightarrow> c \<in> {Scheduled, Pending, Running, AwaitingInput, Completed})"

lemma good_kept:
  "\<forall>ev \<in> set evs. in_motion ev \<or> completes ev \<Longrightarrow> good_states e \<Longrightarrow> good_states (apply_all e evs)"
proof (induction evs arbitrary: e)
  case (Cons ev evs)
  have "good_states (apply_event e ev)"
    unfolding good_states_def
  proof (intro allI impI)
    fix i c
    assume new: "state_at (apply_event e ev) i = Some c"
    have old: "ex_step e i = Some s \<Longrightarrow> state_type (ss_state s) \<in> {Scheduled, Pending, Running, AwaitingInput, Completed}"
      for s using Cons.prems(2) by (auto simp: good_states_def state_at_def)
    have "in_motion ev \<or> completes ev" using Cons.prems(1) by simp
    with new old show "c \<in> {Scheduled, Pending, Running, AwaitingInput, Completed}"
      by (cases ev) (auto simp: state_at_def touch_defs split: if_splits)
  qed
  with Cons show ?case by simp
qed simp

definition all_at_end :: "execution \<Rightarrow> bool" where
  "all_at_end e \<longleftrightarrow> (\<forall>i c. state_at e i = Some c \<longrightarrow> c = Completed)"

lemma all_at_end_iff: "execution_wf e \<Longrightarrow> all_completed e \<longleftrightarrow> all_at_end e"
  unfolding all_at_end_def state_at_def by (auto simp: all_completed_iff)

lemma state_at_dom: "(state_at (apply_all e evs) i = None) = (state_at e i = None)"
proof (induction evs arbitrary: e)
  case (Cons ev evs)
  have "(state_at (apply_event e ev) i = None) = (state_at e i = None)"
    by (simp add: state_at_apply) (simp add: state_at_def)
  with Cons show ?case by simp
qed simp

lemma all_at_end_back:
  assumes "\<forall>ev \<in> set evs. \<not> completes ev" and "all_at_end (apply_all e evs)"
  shows "all_at_end e"
  unfolding all_at_end_def
proof (intro allI impI)
  fix i c
  assume c: "state_at e i = Some c"
  then obtain d where "state_at (apply_all e evs) i = Some d"
    using state_at_dom [of e evs i] by auto
  with assms(2) have "state_at (apply_all e evs) i = Some Completed" by (auto simp: all_at_end_def)
  with completed_back [OF assms(1)] c show "c = Completed" by fastforce
qed

lemma ready_back:
  assumes "\<forall>ev \<in> set evs. \<not> completes ev" and "step_ready (apply_all e evs) j"
  shows "step_ready e j" and "\<forall>ev \<in> set evs. touched ev = Some j \<longrightarrow> (\<exists>n w r. ev = InputProvided j n w r)"
proof -
  from assms(2) have s: "state_at (apply_all e evs) j = Some Scheduled"
    and p: "\<forall>p \<in> set (parents_of (ex_plan e) j). state_at (apply_all e evs) p = Some Completed"
    by (simp_all add: step_ready_iff parents_completed_iff)
  from p completed_back [OF assms(1), of e] have
    "\<forall>p \<in> set (parents_of (ex_plan e) j). state_at e p = Some Completed" by blast
  with scheduled_back [OF s] show "step_ready e j"
    by (simp add: step_ready_iff parents_completed_iff)
  from scheduled_back [OF s] show "\<forall>ev \<in> set evs. touched ev = Some j \<longrightarrow> (\<exists>n w r. ev = InputProvided j n w r)"
    by simp
qed

lemma in_motion_not_completes: "in_motion ev \<Longrightarrow> \<not> completes ev"
  by (cases ev) simp_all

lemma in_motion_touched: "in_motion ev \<Longrightarrow> touched ev \<noteq> None"
  by (cases ev) simp_all

lemma dispatch_exhausts:
  assumes "execution_wf e" and "state_at a = state_at e" and "ex_plan a = ex_plan e"
    and "\<not> dispatch_held a"
  shows "\<not> step_ready (apply_all e (dispatch_events C a now)) j"
proof
  let ?evs = "dispatch_events C a now"
  assume ready: "step_ready (apply_all e ?evs) j"
  have nc: "\<forall>ev \<in> set ?evs. \<not> completes ev"
    using dispatch_in_motion in_motion_not_completes by blast
  from ready_back(1) [OF nc ready] have here: "step_ready e j" .
  then obtain s where "ex_step e j = Some s" by (auto simp: step_ready_def split: option.splits)
  then have j: "j \<in> ps_id ` set (plan_steps (ex_plan a))"
    using wf_has_step [OF assms(1)] assms(3) by auto
  have "step_ready a j" using here step_ready_cong [OF assms(2,3)] by simp
  with j assms(4) have mem: "j \<in> set (ready_ids a)" by (auto simp: ready_ids_def)
  from j obtain step where "plan_step_of (ex_plan a) j = Some step" using plan_step_of_mem by metis
  then have "\<exists>k key. StepScheduled j 1 k key \<in> set (schedule_events C a j 1 now)"
    by (auto simp: schedule_events_def)
  with mem have "\<exists>k key. StepScheduled j 1 k key \<in> set ?evs" by (auto simp: dispatch_events_def)
  with ready_back(2) [OF nc ready] show False by fastforce
qed



subsection \<open>The lively invariant\<close>

definition lively :: "execution \<Rightarrow> bool" where
  "lively e \<longleftrightarrow>
     ex_cancelling e \<or>
     ((state_type (ex_state e) = Running \<longrightarrow> (\<forall>i. \<not> step_ready e i)) \<and>
      (\<not> is_terminal (state_type (ex_state e)) \<longrightarrow> good_states e) \<and>
      (all_at_end e \<longrightarrow> state_type (ex_state e) = Completed))"

text \<open>A list of events that moves steps, completes none and leaves the run's own state alone.\<close>

lemma quiet_lively:
  assumes "lively e" and "\<forall>ev \<in> set evs. \<not> completes ev \<and> touched ev \<noteq> None"
    and "good_states e \<Longrightarrow> \<not> is_terminal (state_type (ex_state e)) \<Longrightarrow> good_states (apply_all e evs)"
  shows "lively (apply_all e evs)"
proof -
  have nc: "\<forall>ev \<in> set evs. \<not> completes ev" and tc: "\<forall>ev \<in> set evs. touched ev \<noteq> None"
    using assms(2) by auto
  have "step_ready (apply_all e evs) i \<Longrightarrow> step_ready e i" for i by (rule ready_back(1) [OF nc])
  moreover have "all_at_end (apply_all e evs) \<Longrightarrow> all_at_end e" by (rule all_at_end_back [OF nc])
  ultimately show ?thesis
    using assms(1,3) run_kept [OF tc, of e] by (auto simp: lively_def)
qed

lemma retried_good:
  "good_states e \<Longrightarrow> good_states (apply_all e [StepFailed i n err, StepRetryScheduled i m t])"
  by (auto simp: good_states_def state_at_def touch_defs)

lemma not_at_end:
  "ex_step e i = Some s \<Longrightarrow> state_type (ss_state s) \<noteq> Completed \<Longrightarrow> \<not> all_at_end e"
  by (auto simp: all_at_end_def state_at_def)

lemma completed_lively:
  assumes "lively e" and "execution_wf e" and "ex_mode e \<noteq> Hosted" and "completes ev" and "touched ev = Some i"
    and "pre = [] \<or> (\<exists>n w r. pre = [InputProvided i n w r])"
  shows "lively (apply_all e (pre @ ev # continue_events C e i now))"
proof (cases "ex_cancelling e")
  case True
  then show ?thesis by (simp only: lively_def cancelling_kept simp_thms)
next
  case False
  let ?a = "completed_after i e"
  let ?D = "dispatch_events C ?a now"
  define e1 where "e1 = apply_all e (pre @ [ev])"
  have tc: "\<forall>x \<in> set (pre @ [ev]). touched x \<noteq> None" using assms(5,6) by auto
  have st: "state_at ?a j = state_at e1 j" for j
    using assms(4-6) by (cases "ex_step e j"; cases ev)
      (auto simp: e1_def state_at_def completed_after_def touch_defs)
  then have eq: "state_at ?a = state_at e1" by (rule ext)
  have wf: "execution_wf e1" unfolding e1_def using assms(2) by (rule apply_all_wf)
  have plan: "ex_plan ?a = ex_plan e1" by (simp add: e1_def completed_after_def)
  have run: "ex_state e1 = ex_state e" "\<not> ex_cancelling e1"
    using run_kept [OF tc, of e] False by (simp_all add: e1_def)
  have dm: "\<forall>x \<in> set ?D. in_motion x" using dispatch_in_motion by blast
  then have dt: "\<forall>x \<in> set ?D. touched x \<noteq> None" and dn: "\<forall>x \<in> set ?D. \<not> completes x"
    using in_motion_touched in_motion_not_completes by blast+
  have run2: "ex_state (apply_all e1 ?D) = ex_state e" "\<not> ex_cancelling (apply_all e1 ?D)"
    using run_kept [OF dt, of e1] run by simp_all
  have split: "apply_all e (pre @ ev # continue_events C e i now)
      = apply_all (apply_all e1 ?D) (if all_completed ?a then [ExecutionCompleted] else [])"
    using False by (simp add: e1_def continue_events_def)
  show ?thesis
  proof (cases "all_completed ?a")
    case True
    then show ?thesis unfolding split by (simp add: lively_def)
  next
    case not_all: False
    have not_end: "\<not> all_at_end e1"
      using not_all all_at_end_iff [OF completed_after_wf [OF assms(2)], of i] eq by (simp add: all_at_end_def)
    have "\<not> all_at_end (apply_all e1 ?D)" using all_at_end_back [OF dn] not_end by blast
    moreover have "\<not> step_ready (apply_all e1 ?D) j" if "state_type (ex_state e) = Running" for j
    proof (rule dispatch_exhausts [OF wf eq plan])
      show "\<not> dispatch_held ?a"
        using that False assms(3) by (simp add: dispatch_held_def completed_after_def)
    qed
    moreover have "good_states (apply_all e1 ?D)" if "\<not> is_terminal (state_type (ex_state e))"
    proof -
      from that assms(1) False have "good_states e" by (simp add: lively_def)
      then have "good_states e1" unfolding e1_def
        using assms(4,6) by (intro good_kept) auto
      then show ?thesis by (intro good_kept) (use dm in auto)
    qed
    ultimately show ?thesis unfolding split using not_all run2 by (simp add: lively_def)
  qed
qed

lemma settled_lively:
  assumes "\<not> ex_cancelling e" and "ex_step e i = Some s" and "state_type (ss_state s) \<noteq> Completed"
  shows "lively (apply_all e (StepFailed i n err # map (\<lambda>(c, p). skip_event c p) vs @ [run_ending e i err]))"
proof -
  let ?evs = "StepFailed i n err # map (\<lambda>(c, p). skip_event c p) vs"
  have nc: "\<forall>ev \<in> set ?evs. \<not> completes ev" by (auto simp: skip_event_def)
  have "\<not> all_at_end (apply_all e ?evs)"
    using all_at_end_back [OF nc, of e] not_at_end [OF assms(2,3)] by blast
  moreover have "apply_all e (?evs @ [run_ending e i err])
      = (apply_all e ?evs)\<lparr>ex_state := state_named Failed (i @ '' failed: '' @ err_message err)\<rparr>"
    using assms(1) by (simp add: run_ending_def)
  ultimately show ?thesis by (simp add: lively_def all_at_end_def state_at_def)
qed

lemma resumed_lively:
  assumes "lively e" and "execution_wf e" and "ex_mode e \<noteq> Hosted" and "state_type (ex_state e) = Paused"
  defines "r \<equiv> e\<lparr>ex_state := state_of Running\<rparr>"
  shows "lively (apply_all r (dispatch_events C r now))"
proof (cases "ex_cancelling e")
  case True
  then have "ex_cancelling r" by (simp add: r_def)
  then show ?thesis by (simp only: lively_def cancelling_kept simp_thms)
next
  case False
  let ?D = "dispatch_events C r now"
  have dm: "\<forall>x \<in> set ?D. in_motion x" using dispatch_in_motion by blast
  then have dt: "\<forall>x \<in> set ?D. touched x \<noteq> None" and dn: "\<forall>x \<in> set ?D. \<not> completes x"
    using in_motion_touched in_motion_not_completes by blast+
  have wf: "execution_wf r" using assms(2) by (simp add: execution_wf_def r_def)
  have same: "state_at r = state_at e" by (rule ext) (simp add: state_at_def r_def)
  have "\<not> step_ready (apply_all r ?D) j" for j
    by (rule dispatch_exhausts [OF wf refl refl]) (use False assms(3) in \<open>simp add: dispatch_held_def r_def\<close>)
  moreover have "good_states (apply_all r ?D)"
  proof (rule good_kept)
    show "\<forall>ev \<in> set ?D. in_motion ev \<or> completes ev" using dm by blast
    show "good_states r" using assms(1,4) False same by (simp add: lively_def good_states_def)
  qed
  moreover have "\<not> all_at_end (apply_all r ?D)"
  proof
    assume "all_at_end (apply_all r ?D)"
    then have "all_at_end r" by (rule all_at_end_back [OF dn])
    then have "all_at_end e" by (simp add: all_at_end_def same)
    with assms(1,4) False show False by (simp add: lively_def)
  qed
  ultimately show ?thesis by (simp add: lively_def)
qed

lemma shape_lively:
  assumes "shape C e evs" and "lively e" and "execution_wf e" and "ex_mode e \<noteq> Hosted"
  shows "lively (apply_all e evs)"
  using assms(1)
proof cases
  case idle
  with assms(2) show ?thesis by simp
next
  case paused
  have "\<not> all_at_end e" if "\<not> ex_cancelling e"
    using that assms(2) paused(2) by (auto simp: lively_def)
  with paused assms(2) show ?thesis
    by (auto simp: lively_def good_states_def all_at_end_def state_at_def)
next
  case (resumed now)
  with resumed_lively [OF assms(2-4)] show ?thesis by simp
next
  case (cancelled tail reason ss)
  then show ?thesis by (simp add: lively_def cancelling_kept)
next
  case (moved i s)
  show ?thesis
  proof (rule quiet_lively [OF assms(2)])
    show "\<forall>ev \<in> set evs. \<not> completes ev \<and> touched ev \<noteq> None"
      using moved(2) in_motion_not_completes by fastforce
    show "good_states (apply_all e evs)" if "good_states e"
      using moved(2) that by (intro good_kept) auto
  qed
next
  case (retried i s n err t)
  show ?thesis unfolding retried(1)
    by (rule quiet_lively [OF assms(2)]) (simp, rule retried_good)
next
  case (settled i s n err vs)
  show ?thesis
  proof (cases "ex_cancelling e")
    case True
    then show ?thesis by (simp only: lively_def cancelling_kept simp_thms)
  next
    case False
    from settled_lively [OF this settled(2,3)] show ?thesis unfolding settled(1) .
  qed
next
  case (completed ev i s pre now)
  from completed_lively [OF assms(2-4) completed(2,3) completed(6)] show ?thesis
    unfolding completed(1) .
qed



lemma start_nonempty:
  "decide C Empty (Command (StartExecution r)) cause now = Inr out \<Longrightarrow> plan_steps (st_plan r) \<noteq> []"
  by (auto simp: decide_start_def split: if_splits)

lemma started_lively:
  assumes "decide C Empty (Command (StartExecution r)) cause now = Inr out" and "st_mode r \<noteq> Hosted"
  defines "e0 \<equiv> started_execution r"
  shows "lively (apply_all e0 (dispatch_events C e0 now))"
proof -
  let ?D = "dispatch_events C e0 now"
  have dm: "\<forall>x \<in> set ?D. in_motion x" using dispatch_in_motion by blast
  then have dt: "\<forall>x \<in> set ?D. touched x \<noteq> None" and dn: "\<forall>x \<in> set ?D. \<not> completes x"
    using in_motion_touched in_motion_not_completes by blast+
  have wf: "execution_wf e0" unfolding e0_def using started_causal by (rule causalD)
  have run: "ex_state e0 = state_of Running" "\<not> ex_cancelling e0"
    by (simp_all add: e0_def started_execution_def execution_requested_def)
  have fresh: "state_at e0 i = Some c \<Longrightarrow> c = Scheduled" for i c
    using requested_step [of r i] by (auto simp: e0_def started_execution_def state_at_def step_fresh_def)
  have "\<not> step_ready (apply_all e0 ?D) j" for j
    by (rule dispatch_exhausts [OF wf refl refl])
      (use run assms(2) in \<open>simp add: dispatch_held_def e0_def\<close>)
  moreover have "good_states (apply_all e0 ?D)"
    by (rule good_kept) (use dm fresh in \<open>auto simp: good_states_def\<close>)
  moreover have "\<not> all_at_end e0"
  proof -
    from start_nonempty [OF assms(1)] obtain step where "step \<in> set (plan_steps (st_plan r))"
      by (meson list.set_sel(1))
    then obtain s where "ex_step e0 (ps_id step) = Some s"
      using wf_has_step [OF wf, of "ps_id step"] by (auto simp: e0_def)
    then have "state_at e0 (ps_id step) \<noteq> None" by (simp add: state_at_def)
    then show ?thesis using fresh by (fastforce simp: all_at_end_def)
  qed
  then have "\<not> all_at_end (apply_all e0 ?D)" using all_at_end_back [OF dn] by blast
  ultimately show ?thesis using run_kept [OF dt, of e0] run by (simp add: lively_def)
qed

lemma reachable_lively: "reachable C e \<Longrightarrow> ex_mode e \<noteq> Hosted \<Longrightarrow> lively e"
proof (induction rule: reachable.induct)
  case (start r cause now out e)
  have e: "e = apply_all (started_execution r) (dispatch_events C (started_execution r) now)"
    using start_replay [OF start.hyps(1)] start.hyps(3) by simp
  with start.prems have "st_mode r \<noteq> Hosted" by simp
  from started_lively [OF start.hyps(1) this] show ?case by (simp add: e)
next
  case (step e m cause now out)
  from step.prems have mode: "ex_mode e \<noteq> Hosted" by simp
  have causal: "causal e" using step.hyps(1) by (rule reachable_is_causal)
  from decide_shape [OF causal mode step.hyps(2,3)] step.IH [OF mode] causalD(1) [OF causal] mode
  show ?case by (rule shape_lively)
qed

lemma reachable_acyclic: "reachable C e \<Longrightarrow> is_acyclic (ex_plan e)"
  by (induction rule: reachable.induct) (auto simp: start_replay decide_start_def split: if_splits)

lemma is_acyclic_edges: "is_acyclic plan \<longleftrightarrow> acyclic (edge_rel plan (ps_id ` set (plan_steps plan)))"
  by (simp only: is_acyclic_def acyclic_loop_correct set_step_ids)

definition edges_known :: "execution_plan \<Rightarrow> bool" where
  "edges_known plan = list_all (\<lambda>edge. edge_from edge \<in> ps_id ` set (plan_steps plan)) (plan_edges plan)"

lemma running_has_work:
  assumes "reachable C e" and "ex_mode e = Compiled" and "\<not> ex_cancelling e"
    and "state_type (ex_state e) = Running" and "edges_known (ex_plan e)"
  shows "\<exists>i s. ex_step e i = Some s \<and> state_type (ss_state s) \<in> {Pending, Running, AwaitingInput}"
proof (rule ccontr)
  assume none: "\<not> ?thesis"
  let ?ids = "ps_id ` set (plan_steps (ex_plan e))"
  define S where "S = {i. state_at e i = Some Scheduled}"
  have live: "lively e" using assms(1,2) by (intro reachable_lively) simp_all
  have wf: "execution_wf e" using reachable_is_causal [OF assms(1)] by (rule causalD)
  from live assms(3,4) have idle: "\<not> step_ready e i" and good: "good_states e" and "\<not> all_at_end e" for i
    by (auto simp: lively_def)
  then obtain i c where ic: "state_at e i = Some c" "c \<noteq> Completed" by (auto simp: all_at_end_def)
  have two: "d = Scheduled \<or> d = Completed" if "state_at e j = Some d" for j d
    using that good none by (auto simp: good_states_def state_at_def)
  from two [OF ic(1)] ic have "i \<in> S" by (simp add: S_def)
  moreover have ids: "S \<subseteq> ?ids"
    using wf_has_step [OF wf] by (auto simp: S_def state_at_def)
  ultimately have i: "i \<in> S" "i \<in> ?ids" by auto
  have "wf (edge_rel (ex_plan e) ?ids)"
    using reachable_acyclic [OF assms(1)] finite_edge_rel
    by (simp add: is_acyclic_edges finite_acyclic_wf)
  from wfE_min [OF this i(1)] obtain z where z: "z \<in> S"
    and min: "\<And>p. (p, z) \<in> edge_rel (ex_plan e) ?ids \<Longrightarrow> p \<notin> S" by blast
  have "state_at e p = Some Completed" if "p \<in> set (parents_of (ex_plan e) z)" for p
  proof -
    from that have edge: "PlanEdge p z \<in> set (plan_edges (ex_plan e))" by (simp add: parents_of_iff)
    with assms(5) have p: "p \<in> ?ids" by (force simp: edges_known_def list_all_iff)
    with edge z ids min have "p \<notin> S" by (auto simp: edge_rel_iff)
    from p obtain s where "ex_step e p = Some s" using wf_has_step [OF wf] by blast
    then obtain d where "state_at e p = Some d" by (auto simp: state_at_def)
    with two \<open>p \<notin> S\<close> show ?thesis by (auto simp: S_def)
  qed
  with z have "step_ready e z" by (simp add: step_ready_iff parents_completed_iff S_def)
  with idle show False by blast
qed

text \<open>C2: A run does not stand still: of a run in compiled mode whose plan has no edge from an unknown step,
  and whose reports all came from current attempts of steps that had not ended, every state in which
  the run says it is running and is not being cancelled has some step that is pending, running or
  waiting for an answer. So when the last of its work ends, the same decision ends the run or hands
  out more.\<close>

theorem running_run_has_work:
  assumes "reachable C e" and "ex_mode e = Compiled" and "\<not> ex_cancelling e"
    and "state_type (ex_state e) = Running" and "edges_known (ex_plan e)"
  shows "\<exists>i s. ex_step e i = Some s \<and> state_type (ss_state s) \<in> {Pending, Running, AwaitingInput}"
  using assms by (rule running_has_work)



definition chain_request :: start_request where
  "chain_request = demo_request (demo_plan [''a'', ''b''] [PlanEdge ''a'' ''b''])"

definition chain_first :: execution where
  "chain_first = apply_all (started_execution chain_request)
     (dispatch_events numbered_crates (started_execution chain_request) 0)"

lemma chain_plan [simp]: "st_plan chain_request = demo_plan [''a'', ''b''] [PlanEdge ''a'' ''b'']"
  by (simp add: chain_request_def demo_request_def)

lemma chain_acyclic: "is_acyclic (demo_plan [''a'', ''b''] [PlanEdge ''a'' ''b''])"
  by (simp add: is_acyclic_edges demo_plan_def demo_step_def edge_rel_def acyclic_def)
    (auto elim!: tranclE)

lemma chain_reachable: "reachable numbered_crates chain_first"
proof -
  have "\<exists>out. decide numbered_crates Empty (Command (StartExecution chain_request)) ''m0'' 0 = Inr out"
    using chain_acyclic by (simp add: decide_start_def chain_request_def demo_request_def)
      (simp add: demo_plan_def Let_def)
  then obtain out where out:
    "decide numbered_crates Empty (Command (StartExecution chain_request)) ''m0'' 0 = Inr out" ..
  have "distinct (map ps_id (plan_steps (st_plan chain_request)))"
    by (simp add: chain_request_def demo_request_def demo_plan_def demo_step_def)
  from reachable.start [OF out this] start_replay [OF out] show ?thesis by (simp add: chain_first_def)
qed

lemma chain_steps:
  "ex_step chain_first ''a'' = Some (apply_scheduled 1 None (step_fresh ''a'' KPythonTask))"
  "ex_step chain_first ''b'' = Some (step_fresh ''b'' KPythonTask)"
  "ex_mode chain_first = Compiled" "\<not> ex_cancelling chain_first"
  "ex_state chain_first = state_of Running"
  "ex_plan chain_first = demo_plan [''a'', ''b''] [PlanEdge ''a'' ''b'']"
proof -
  have key: "scheduled_key numbered_crates e (demo_step ''a'') ''a'' = None" for e
    by (simp add: scheduled_key_def cache_key_def demo_step_def)
  have s: "ex_step (started_execution chain_request) ''a'' = Some (step_fresh ''a'' KPythonTask)"
    "ex_step (started_execution chain_request) ''b'' = Some (step_fresh ''b'' KPythonTask)"
    using demo_execution_step by (simp_all add: started_execution_def chain_request_def demo_execution_def)
  have frame: "ex_plan (started_execution chain_request) = demo_plan [''a'', ''b''] [PlanEdge ''a'' ''b'']"
    "\<not> dispatch_held (started_execution chain_request)"
    by simp (simp add: chain_request_def dispatch_held_def demo_request_def started_execution_def
        execution_requested_def)
  have par: "parents_of (demo_plan [''a'', ''b''] [PlanEdge ''a'' ''b'']) ''a'' = []"
    "parents_of (demo_plan [''a'', ''b''] [PlanEdge ''a'' ''b'']) ''b'' = [''a'']"
    by (simp_all add: demo_plan_def parents_of_def)
  have "step_ready (started_execution chain_request) ''a''" "\<not> step_ready (started_execution chain_request) ''b''"
    by (simp_all add: step_ready_iff state_at_def s parents_completed_iff frame(1) par step_fresh_def)
  with frame have "ready_ids (started_execution chain_request) = [''a'']"
    by (simp add: ready_ids_def) (simp add: demo_plan_def demo_step_def)
  then have "dispatch_events numbered_crates (started_execution chain_request) 0
      = [StepScheduled ''a'' 1 KPythonTask None]"
    by (simp add: dispatch_events_def schedule_events_def frame(1) demo_plan_step key)
      (simp add: demo_step_def)
  then have first: "chain_first = ex_step_mut ''a'' (apply_scheduled 1 None) (started_execution chain_request)"
    by (simp add: chain_first_def)
  show "ex_step chain_first ''a'' = Some (apply_scheduled 1 None (step_fresh ''a'' KPythonTask))"
    "ex_step chain_first ''b'' = Some (step_fresh ''b'' KPythonTask)"
    by (simp_all add: first s)
  show "ex_plan chain_first = demo_plan [''a'', ''b''] [PlanEdge ''a'' ''b'']"
    by (simp add: first frame)
  show "ex_mode chain_first = Compiled" "\<not> ex_cancelling chain_first" "ex_state chain_first = state_of Running"
    by (simp_all add: first chain_request_def demo_request_def started_execution_def execution_requested_def)
qed

theorem running_run_has_work_witness:
  "reachable numbered_crates chain_first \<and>
   (\<exists>i s. ex_step chain_first i = Some s \<and> state_type (ss_state s) \<in> {Pending, Running, AwaitingInput})"
proof -
  have known: "edges_known (ex_plan chain_first)"
    by (simp add: chain_steps edges_known_def demo_plan_def demo_step_def)
  have run: "state_type (ex_state chain_first) = Running" by (simp add: chain_steps)
  from running_run_has_work [OF chain_reachable chain_steps(3,4) run known] chain_reachable
  show ?thesis by blast
qed

definition chain_completion :: workflow_message where
  "chain_completion = Event (StepCompleted ''a'' 1 [] None)"


end
