(* ===== verification/Claim.thy ===== *)
theory Claim
  imports Decide
begin

text \<open>
  The claim table's rows, \<open>claim.rs\<close>: one row per dispatched attempt, who holds it, and what a
  claimant is willing to take. The row is an interpretation of the lease of \<open>Jobs\<close>; the lemmas
  show that a claim excludes every other claimant until its lease has run out, that a parked row
  is nobody's at any hour, and which rows a filter can ever match.
\<close>

subsection \<open>Keys\<close>

datatype attempt_key = AttemptKey (ak_execution: string) (ak_step: string) (ak_attempt: u32)

instantiation attempt_key :: linorder
begin

definition less_eq_attempt_key :: "attempt_key \<Rightarrow> attempt_key \<Rightarrow> bool" where
  "less_eq_attempt_key a b \<longleftrightarrow>
     ak_execution a < ak_execution b \<or>
     (ak_execution a = ak_execution b \<and>
        (ak_step a < ak_step b \<or> (ak_step a = ak_step b \<and> ak_attempt a \<le> ak_attempt b)))"

definition less_attempt_key :: "attempt_key \<Rightarrow> attempt_key \<Rightarrow> bool" where
  "less_attempt_key a b \<longleftrightarrow> a \<le> b \<and> \<not> b \<le> a"

instance
  by standard (auto simp: less_eq_attempt_key_def less_attempt_key_def attempt_key.expand)

end

definition key_idempotency :: "attempt_key \<Rightarrow> string" where
  "key_idempotency k = idempotency_key (ak_execution k) (ak_step k) (ak_attempt k)"

text \<open>\<open>RuntimeKind\<close> derives its order from the order of its variants.\<close>

fun runtime_rank :: "runtime_kind \<Rightarrow> nat" where
  "runtime_rank KFlowPhp = 0"
| "runtime_rank KDataFusion = 1"
| "runtime_rank KDuckDb = 2"
| "runtime_rank KMarimo = 3"
| "runtime_rank KPublishDataset = 4"
| "runtime_rank KPythonTask = 5"
| "runtime_rank KContainerJob = 6"
| "runtime_rank KScoreEvaluation = 7"
| "runtime_rank KJudgeEvaluation = 8"
| "runtime_rank KExternalEvaluation = 9"
| "runtime_rank KEvaluationCases = 10"
| "runtime_rank KEvaluationTraces = 11"
| "runtime_rank KHumanInput = 12"

lemma runtime_rank_inj: "runtime_rank a = runtime_rank b \<Longrightarrow> a = b"
  by (cases a; cases b) simp_all

instantiation runtime_kind :: linorder
begin

definition less_eq_runtime_kind :: "runtime_kind \<Rightarrow> runtime_kind \<Rightarrow> bool" where
  "less_eq_runtime_kind a b \<longleftrightarrow> runtime_rank a \<le> runtime_rank b"

definition less_runtime_kind :: "runtime_kind \<Rightarrow> runtime_kind \<Rightarrow> bool" where
  "less_runtime_kind a b \<longleftrightarrow> runtime_rank a < runtime_rank b"

instance
  by standard (auto simp: less_eq_runtime_kind_def less_runtime_kind_def dest: runtime_rank_inj)

end

subsection \<open>Rows\<close>

record attempt_row =
  row_key :: attempt_key
  row_runtime :: runtime_kind
  row_command_id :: string
  row_queue :: "string option"
  row_task_ref :: "string option"
  row_state :: state_type
  row_lease_owner :: "string option"
  row_previous_owner :: "string option"
  row_claimed_at :: "instant option"
  row_not_before :: "instant option"

datatype attempt_write = Dispatch attempt_row | Park attempt_key | Retire attempt_key

definition row_claimable :: "attempt_key \<Rightarrow> runtime_kind \<Rightarrow> string \<Rightarrow> attempt_row" where
  "row_claimable key runtime command_id =
     \<lparr>row_key = key, row_runtime = runtime, row_command_id = command_id, row_queue = None,
      row_task_ref = None, row_state = Pending, row_lease_owner = None, row_previous_owner = None,
      row_claimed_at = None, row_not_before = None\<rparr>"

definition on_queue :: "string \<Rightarrow> string \<Rightarrow> attempt_row \<Rightarrow> attempt_row" where
  "on_queue queue task_ref row = row\<lparr>row_queue := Some queue, row_task_ref := Some task_ref\<rparr>"

definition with_not_before :: "instant \<Rightarrow> attempt_row \<Rightarrow> attempt_row" where
  "with_not_before at row = row\<lparr>row_not_before := Some at\<rparr>"

definition awaits_a_claimant :: "attempt_row \<Rightarrow> instant \<Rightarrow> bool" where
  "awaits_a_claimant row now =
     (\<not> is_terminal (row_state row) \<and> row_state row \<noteq> AwaitingInput \<and>
      lease_expired (row_claimed_at row) now)"

definition is_claimable :: "attempt_row \<Rightarrow> instant \<Rightarrow> bool" where
  "is_claimable row now =
     (awaits_a_claimant row now \<and> is_none_or (\<lambda>at. now \<ge> at) (row_not_before row))"

definition awaits_a_reactor :: "attempt_row \<Rightarrow> instant \<Rightarrow> bool" where
  "awaits_a_reactor row now = (row_queue row = None \<and> awaits_a_claimant row now)"

definition is_held_by :: "attempt_row \<Rightarrow> string \<Rightarrow> instant \<Rightarrow> bool" where
  "is_held_by row owner now =
     (row_lease_owner row = Some owner \<and> \<not> lease_expired (row_claimed_at row) now)"

text \<open>\<open>claim\<close>: the field is taken before it is overwritten, so a renewal keeps \<open>previous_owner\<close>.\<close>

definition row_claim :: "string \<Rightarrow> instant \<Rightarrow> attempt_row \<Rightarrow> attempt_row" where
  "row_claim owner now row =
     (let row1 = (if row_lease_owner row \<noteq> Some owner
                  then row\<lparr>row_previous_owner := row_lease_owner row, row_lease_owner := None\<rparr>
                  else row)
      in row1\<lparr>row_lease_owner := Some owner, row_claimed_at := Some now, row_state := Running\<rparr>)"

definition row_park :: "attempt_row \<Rightarrow> attempt_row" where
  "row_park row =
     row\<lparr>row_state := AwaitingInput, row_lease_owner := None, row_previous_owner := None,
         row_claimed_at := None\<rparr>"

definition lease_expires_at :: "attempt_row \<Rightarrow> instant option" where
  "lease_expires_at row = map_option (\<lambda>at. at + seconds LEASE_SECONDS) (row_claimed_at row)"

subsection \<open>Claimants\<close>

record claim_filter =
  cf_attempt :: "attempt_key option"
  cf_runtimes :: "runtime_kind list"
  cf_queues :: "string list"
  cf_tasks :: "string list"

definition for_runtimes :: "runtime_kind list \<Rightarrow> claim_filter" where
  "for_runtimes runtimes =
     \<lparr>cf_attempt = None, cf_runtimes = runtimes, cf_queues = [], cf_tasks = []\<rparr>"

definition for_queues :: "string list \<Rightarrow> string list \<Rightarrow> claim_filter" where
  "for_queues queues tasks =
     \<lparr>cf_attempt = None, cf_runtimes = [], cf_queues = queues, cf_tasks = tasks\<rparr>"

definition filter_matches :: "claim_filter \<Rightarrow> attempt_row \<Rightarrow> bool" where
  "filter_matches f row =
     ((case cf_attempt f of
         Some key \<Rightarrow> key = row_key row
       | None \<Rightarrow> \<not> is_claimed_by_key (row_runtime row)) \<and>
      (case row_queue row of
         Some queue \<Rightarrow> queue \<in> set (cf_queues f) \<and>
           is_some_and (\<lambda>task. task \<in> set (cf_tasks f)) (row_task_ref row)
       | None \<Rightarrow> row_runtime row \<in> set (cf_runtimes f)))"

definition filter_is_empty :: "claim_filter \<Rightarrow> bool" where
  "filter_is_empty f = (cf_runtimes f = [] \<and> cf_queues f = [])"

text \<open>\<open>*counts.entry(runtime).or_insert(0) += 1\<close> over the rows that await a reactor.\<close>

definition count_one :: "runtime_kind \<Rightarrow> (runtime_kind, u64) btree \<Rightarrow> (runtime_kind, u64) btree" where
  "count_one k m = bt_insert k ((case bt_get m k of None \<Rightarrow> 0 | Some n \<Rightarrow> n) + 1) m"

definition tally_unclaimed :: "attempt_row list \<Rightarrow> instant \<Rightarrow> (runtime_kind, u64) btree" where
  "tally_unclaimed rows now =
     foldl (\<lambda>counts row. count_one (row_runtime row) counts) []
       (filter (\<lambda>row. awaits_a_reactor row now) rows)"

definition claimable_of :: "attempt_row list \<Rightarrow> runtime_kind \<Rightarrow> instant \<Rightarrow> nat \<Rightarrow> attempt_row list" where
  "claimable_of rows runtime now limit =
     take limit (filter (\<lambda>row. row_runtime row = runtime \<and> is_claimable row now) rows)"

subsection \<open>The lease of a row\<close>

lemma row_claim_simps [simp]:
  "row_lease_owner (row_claim owner now row) = Some owner"
  "row_claimed_at (row_claim owner now row) = Some now"
  "row_state (row_claim owner now row) = Running"
  "row_key (row_claim owner now row) = row_key row"
  "row_runtime (row_claim owner now row) = row_runtime row"
  "row_not_before (row_claim owner now row) = row_not_before row"
  "row_queue (row_claim owner now row) = row_queue row"
  by (simp_all add: row_claim_def Let_def)

interpretation row_lease: leased row_lease_owner row_claimed_at row_claim is_claimable
  by unfold_locales (auto simp: is_claimable_def awaits_a_claimant_def)

lemma is_held_by_lease: "is_held_by row owner now = row_lease.held_by owner now row"
  by (simp add: is_held_by_def row_lease.held_by_def)

lemma count_one_get:
  "bt_get (count_one k m) r = (if r = k then Some ((case bt_get m k of None \<Rightarrow> 0 | Some n \<Rightarrow> n) + 1) else bt_get m r)"
  by (simp add: count_one_def)

lemma tally_foldl:
  "bt_get (foldl (\<lambda>counts row. count_one (row_runtime row) counts) [] rows) r =
     (let n = length (filter (\<lambda>row. row_runtime row = r) rows)
      in if n = 0 then None else Some (of_nat n))"
proof (induction rows rule: rev_induct)
  case (snoc row rows)
  then show ?case by (auto simp: count_one_get Let_def)
qed simp

subsection \<open>Properties\<close>

text \<open>A claim is exclusive for as long as its lease lives and lapses by itself: until five minutes
  after the claim the claimant holds the row, nobody else does and nobody may take it; after that
  nobody holds it and, unless it has ended or asked a question, it may be taken again, with the
  interrupted owner named to whoever takes it.\<close>

theorem claim_excludes_until_it_lapses:
  assumes "is_claimable row now" and "now \<le> later"
  shows "if later \<le> now + seconds LEASE_SECONDS
         then is_held_by (row_claim owner now row) owner later \<and>
              (other \<noteq> owner \<longrightarrow> \<not> is_held_by (row_claim owner now row) other later) \<and>
              \<not> is_claimable (row_claim owner now row) later
         else \<not> is_held_by (row_claim owner now row) owner later \<and>
              is_claimable (row_claim owner now row) later \<and>
              (other \<noteq> owner \<longrightarrow>
                 row_previous_owner (row_claim other later (row_claim owner now row)) = Some owner)"
proof (cases "later \<le> now + seconds LEASE_SECONDS")
  case True
  have "row_lease.held_by owner later (row_claim owner now row)"
    using assms(2) True by (rule row_lease.take_holds)
  moreover have "\<not> is_claimable (row_claim owner now row) later"
    using assms(2) True by (rule row_lease.take_excludes)
  ultimately show ?thesis
    using True row_lease.held_exclusive by (auto simp: is_held_by_lease)
next
  case False
  then have lapsed: "now + seconds LEASE_SECONDS < later" by simp
  have "\<not> is_held_by (row_claim owner now row) owner later"
    unfolding is_held_by_lease using lapsed by (rule row_lease.take_lapses)
  moreover have "is_none_or (\<lambda>at. later \<ge> at) (row_not_before row)"
    using assms(1,2) by (cases "row_not_before row") (auto simp: is_claimable_def)
  then have "is_claimable (row_claim owner now row) later"
    using lapsed by (simp add: is_claimable_def awaits_a_claimant_def lease_expired_Some)
  moreover have "other \<noteq> owner \<longrightarrow>
      row_previous_owner (row_claim other later (row_claim owner now row)) = Some owner"
    by (simp add: row_claim_def Let_def)
  ultimately show ?thesis using False by simp
qed

definition demo_row :: attempt_row where
  "demo_row = row_claimable (AttemptKey ''x1'' ''a'' 1) KFlowPhp ''cmd-1''"

theorem claim_excludes_until_it_lapses_witness:
  "is_claimable demo_row 0 \<and>
   is_held_by (row_claim ''one'' 0 demo_row) ''one'' (seconds 300) \<and>
   is_claimable (row_claim ''one'' 0 demo_row) (seconds 301) \<and>
   row_previous_owner (row_claim ''two'' (seconds 301) (row_claim ''one'' 0 demo_row)) = Some ''one''"
proof -
  have free: "is_claimable demo_row 0"
    by (simp add: is_claimable_def awaits_a_claimant_def demo_row_def row_claimable_def)
  from claim_excludes_until_it_lapses [OF free, of "seconds 300" "''one''" "''two''"]
    claim_excludes_until_it_lapses [OF free, of "seconds 301" "''one''" "''two''"] free
  show ?thesis by (simp add: LEASE_SECONDS_def)
qed

text \<open>No claimant takes work it did not name: a row on a queue is taken only through that queue by
  somebody with the code it pins, any other row only through its runtime, a pod's attempt only by
  a claimant naming exactly that attempt, and a claimant that named nothing takes nothing.\<close>

theorem filter_takes_only_what_it_named:
  assumes "filter_matches f row"
  shows "\<not> filter_is_empty f \<and>
         (row_queue row = Some queue \<longrightarrow> queue \<in> set (cf_queues f) \<and>
            (\<exists>task. row_task_ref row = Some task \<and> task \<in> set (cf_tasks f))) \<and>
         (row_queue row = None \<longrightarrow> row_runtime row \<in> set (cf_runtimes f)) \<and>
         (row_runtime row = KContainerJob \<longrightarrow> cf_attempt f = Some (row_key row)) \<and>
         (cf_attempt f = None \<or> cf_attempt f = Some (row_key row))"
  using assms
  by (auto simp: filter_matches_def filter_is_empty_def is_claimed_by_key_def CLAIMED_BY_KEY_def
      is_some_and_iff split: option.splits)

theorem filter_takes_only_what_it_named_witness:
  "filter_matches (for_runtimes [KFlowPhp]) demo_row \<and> \<not> filter_is_empty (for_runtimes [KFlowPhp]) \<and>
   \<not> filter_matches (for_queues [''default''] [''digest@0f0f'']) demo_row"
proof -
  have m: "filter_matches (for_runtimes [KFlowPhp]) demo_row"
    by (simp add: filter_matches_def for_runtimes_def demo_row_def row_claimable_def
        is_claimed_by_key_def CLAIMED_BY_KEY_def)
  have "\<not> filter_matches (for_queues [''default''] [''digest@0f0f'']) demo_row"
  proof
    assume "filter_matches (for_queues [''default''] [''digest@0f0f'']) demo_row"
    from filter_takes_only_what_it_named [OF this] show False
      by (simp add: for_queues_def demo_row_def row_claimable_def)
  qed
  with m filter_takes_only_what_it_named [OF m, of "[]"] show ?thesis by blast
qed

text \<open>The count of stranded work is the number of rows that await a reactor, per runtime, and
  only runtimes with such a row appear.\<close>

theorem tally_counts_the_waiting:
  "bt_get (tally_unclaimed rows now) r =
     (let n = length (filter (\<lambda>row. row_queue row = None \<and> \<not> is_terminal (row_state row) \<and>
                                    row_state row \<noteq> AwaitingInput \<and> lease_expired (row_claimed_at row) now \<and>
                                    row_runtime row = r) rows)
      in if n = 0 then None else Some (of_nat n)) \<and>
   bt_ok (tally_unclaimed rows now)"
proof -
  have "bt_ok (foldl (\<lambda>counts row. count_one (row_runtime row) counts) m rows)" if "bt_ok m" for m and rows :: "attempt_row list"
    using that by (induction rows arbitrary: m) (auto simp: count_one_def)
  moreover have "filter (\<lambda>row. row_runtime row = r) (filter (\<lambda>row. awaits_a_reactor row now) rows)
      = filter (\<lambda>row. row_queue row = None \<and> \<not> is_terminal (row_state row) \<and>
          row_state row \<noteq> AwaitingInput \<and> lease_expired (row_claimed_at row) now \<and> row_runtime row = r) rows"
    by (auto simp: awaits_a_reactor_def awaits_a_claimant_def intro: filter_cong)
  ultimately show ?thesis by (simp add: tally_unclaimed_def tally_foldl)
qed

end
