(* ===== verification/Scope.thy ===== *)
theory Scope
  imports Decide
begin

text \<open>
  Which project an execution belongs to and the one rule every store applies about it: \<open>scope.rs\<close>,
  with the store's refusals from \<open>error.rs\<close>. The lemmas show that every execution that exists is
  reached through exactly one binding, that ownership is written only by the append that creates
  the execution, and that a scope's text names one scope.
\<close>

subsection \<open>What a store refuses\<close>

datatype store_error =
    VersionConflict nat nat
  | PayloadTooLarge nat nat
  | SingleProcessOnly
  | OwnershipConflict string string
  | NotInThisScope string
  | Backend string
  | OutOfScope string
  | IoError string
  | EncodingError string

fun store_same_next_time :: "store_error \<Rightarrow> bool" where
  "store_same_next_time (VersionConflict _ _) = False"
| "store_same_next_time (Backend _) = False"
| "store_same_next_time (IoError _) = False"
| "store_same_next_time _ = True"

subsection \<open>Scopes and owners\<close>

text \<open>The two halves are UUIDs, sixteen bytes each, compared as big-endian numbers.\<close>

datatype project_scope = ProjectScope (sc_organization: u128) (sc_project: u128)

instantiation project_scope :: linorder
begin

definition less_eq_project_scope :: "project_scope \<Rightarrow> project_scope \<Rightarrow> bool" where
  "less_eq_project_scope a b \<longleftrightarrow>
     sc_organization a < sc_organization b \<or>
     (sc_organization a = sc_organization b \<and> sc_project a \<le> sc_project b)"

definition less_project_scope :: "project_scope \<Rightarrow> project_scope \<Rightarrow> bool" where
  "less_project_scope a b \<longleftrightarrow> a \<le> b \<and> \<not> b \<le> a"

instance
  by standard (auto simp: less_eq_project_scope_def less_project_scope_def project_scope.expand)

end

datatype execution_scope = Global | Project project_scope

fun scope_project :: "execution_scope \<Rightarrow> project_scope option" where
  "scope_project Global = None"
| "scope_project (Project scope) = Some scope"

fun scope_is_global :: "execution_scope \<Rightarrow> bool" where
  "scope_is_global Global = True"
| "scope_is_global (Project _) = False"

definition uuid_display :: "u128 \<Rightarrow> string" where
  "uuid_display w = uuid_text (be_bytes 16 w)"

fun scope_key :: "execution_scope \<Rightarrow> string" where
  "scope_key Global = []"
| "scope_key (Project scope) = uuid_display (sc_organization scope) @ ''/'' @ uuid_display (sc_project scope)"

fun scope_label :: "execution_scope \<Rightarrow> string" where
  "scope_label Global = ''the unscoped path''"
| "scope_label (Project scope) =
     ''project '' @ uuid_display (sc_project scope) @ '' of organization '' @ uuid_display (sc_organization scope)"

record principal =
  pn_provider :: string
  pn_subject :: string

record project_start =
  pj_scope :: project_scope
  pj_principal :: principal

record owned_definition =
  od_kind :: definition_kind
  od_name :: string
  od_revision :: string
  od_plan_id :: string

definition owned_definition_of :: "execution_plan \<Rightarrow> owned_definition" where
  "owned_definition_of plan =
     \<lparr>od_kind = plan_kind plan, od_name = plan_name plan,
      od_revision = plan_revision plan, od_plan_id = plan_id plan\<rparr>"

record execution_ownership =
  ow_scope :: project_scope
  ow_principal :: principal
  ow_definition :: owned_definition

definition ownership_of :: "project_start \<Rightarrow> execution_plan \<Rightarrow> execution_ownership" where
  "ownership_of start plan =
     \<lparr>ow_scope = pj_scope start, ow_principal = pj_principal start,
      ow_definition = owned_definition_of plan\<rparr>"

definition ow_execution_scope :: "execution_ownership \<Rightarrow> execution_scope" where
  "ow_execution_scope owner = Project (ow_scope owner)"

definition ow_label :: "execution_ownership \<Rightarrow> string" where
  "ow_label owner = scope_label (ow_execution_scope owner)"

subsection \<open>Bindings\<close>

datatype scope_binding = ScopeBinding (bound_scope: execution_scope)

definition binding_global :: scope_binding where
  "binding_global = ScopeBinding Global"

definition binding_bind :: "scope_binding \<Rightarrow> project_scope \<Rightarrow> store_error + scope_binding" where
  "binding_bind b scope =
     (case bound_scope b of
        Global \<Rightarrow> Inr (ScopeBinding (Project scope))
      | Project held \<Rightarrow>
          if held = scope then Inr b
          else Inl (NotInThisScope (''bind to '' @ scope_label (Project scope) @
                 '': it is already bound to '' @ scope_label (Project held))))"

fun admits_scope :: "execution_scope \<Rightarrow> execution_ownership option \<Rightarrow> bool \<Rightarrow> bool" where
  "admits_scope Global None ex = True"
| "admits_scope Global (Some _) ex = False"
| "admits_scope (Project bound) (Some owner) ex = (ow_scope owner = bound)"
| "admits_scope (Project _) None ex = (\<not> ex)"

definition binding_admits :: "scope_binding \<Rightarrow> execution_ownership option \<Rightarrow> bool \<Rightarrow> bool" where
  "binding_admits b recorded ex = admits_scope (bound_scope b) recorded ex"

definition binding_refuse :: "scope_binding \<Rightarrow> string \<Rightarrow> execution_ownership option \<Rightarrow> store_error" where
  "binding_refuse b execution recorded =
     OutOfScope (execution @ '' belongs to '' @
       (case recorded of None \<Rightarrow> scope_label Global | Some owner \<Rightarrow> ow_label owner) @
       '' and this workflow store is bound to '' @ scope_label (bound_scope b) @
       ''; a project's execution is never handled by another scope's path'')"

definition binding_check ::
  "scope_binding \<Rightarrow> string \<Rightarrow> execution_ownership option \<Rightarrow> bool \<Rightarrow> store_error + unit" where
  "binding_check b execution recorded ex =
     (if binding_admits b recorded ex then Inr () else Inl (binding_refuse b execution recorded))"

definition binding_appending ::
  "scope_binding \<Rightarrow> string \<Rightarrow> execution_ownership option \<Rightarrow> execution_ownership option \<Rightarrow> bool \<Rightarrow>
   store_error + execution_ownership option" where
  "binding_appending b execution establishing recorded stream_is_empty =
     (case binding_check b execution recorded (\<not> stream_is_empty) of
        Inl err \<Rightarrow> Inl err
      | Inr _ \<Rightarrow>
          (case establishing of
             None \<Rightarrow> Inr None
           | Some wanted \<Rightarrow>
               (case bound_scope b of
                  Global \<Rightarrow> Inl (NotInThisScope ''establish project ownership: it is bound to the unscoped path'')
                | Project bound \<Rightarrow>
                    if ow_scope wanted \<noteq> bound then Inl (binding_refuse b execution (Some wanted))
                    else (case recorded of
                            Some held \<Rightarrow>
                              if held = wanted then Inr None
                              else Inl (OwnershipConflict execution (ow_label held))
                          | None \<Rightarrow>
                              if stream_is_empty then Inr (Some wanted)
                              else Inl (binding_refuse b execution None)))))"

subsection \<open>Texts of scopes\<close>

lemma uuid_text_inj:
  assumes "uuid_text a = uuid_text b" and "length a = 16" and "length b = 16"
  shows "a = b"
proof -
  have chunk: "drop m c = take n (drop m c) @ drop (n + m) c" for m n and c :: "u8 list"
    by (metis append_take_drop_id drop_drop)
  have parts: "c = take 4 c @ take 2 (drop 4 c) @ take 2 (drop 6 c) @ take 2 (drop 8 c) @ take 6 (drop 10 c)"
    if "length c = 16" for c :: "u8 list"
    using that chunk [of 0 c 4] chunk [of 4 c 2] chunk [of 6 c 2] chunk [of 8 c 2] by simp
  from assms show ?thesis
    by (subst parts [OF assms(2)], subst parts [OF assms(3)])
      (auto simp: uuid_text_def append_eq_append_conv dest: encode_hex_inj)
qed

lemma uuid_text_no_slash: "CHR ''/'' \<notin> set (uuid_text b)"
  using encode_hex_alphabet by (fastforce simp: uuid_text_def)

lemma be_bytes_inj:
  fixes v w :: u128
  assumes "be_bytes 16 v = be_bytes 16 w"
  shows "v = w"
proof (rule bit_word_eqI)
  fix k
  assume "k < LENGTH(128)"
  then have i: "k div 8 < 16" by simp
  have "(\<lambda>i. ucast (drop_bit (8 * i) v) :: u8) (k div 8) = ucast (drop_bit (8 * (k div 8)) w)"
    using assms i by (auto simp: be_bytes_def)
  then have "bit (ucast (drop_bit (8 * (k div 8)) v) :: u8) (k mod 8)
      = bit (ucast (drop_bit (8 * (k div 8)) w) :: u8) (k mod 8)" by simp
  then show "bit v k = bit w k" by (simp add: bit_ucast_iff bit_drop_bit_eq)
qed

lemma uuid_display_no_slash: "CHR ''/'' \<notin> set (uuid_display w)"
  by (simp add: uuid_display_def uuid_text_no_slash)

lemma uuid_display_inj: "uuid_display a = uuid_display b \<Longrightarrow> a = b"
  by (auto simp: uuid_display_def dest!: uuid_text_inj intro: be_bytes_inj)

subsection \<open>Properties\<close>

text \<open>Every execution that exists is reached through exactly one binding: the unscoped store for a
  run nobody owns, the owning project's store otherwise. There is no second door.\<close>

theorem exactly_one_door:
  "binding_admits b recorded True \<longleftrightarrow>
     b = ScopeBinding (case recorded of None \<Rightarrow> Global | Some owner \<Rightarrow> Project (ow_scope owner))"
  by (cases b; cases "bound_scope b"; cases recorded) (auto simp: binding_admits_def)

text \<open>An append writes an ownership record in exactly one case: through a store bound to the
  record's own project, onto an empty stream that has no record. Every other append that names an
  owner either finds that very owner recorded or is refused, and no append ever replaces one.\<close>

theorem ownership_written_once:
  "(binding_appending b execution establishing recorded fresh = Inr (Some owner) \<longleftrightarrow>
      establishing = Some owner \<and> b = ScopeBinding (Project (ow_scope owner)) \<and> recorded = None \<and> fresh) \<and>
   (binding_appending b execution (Some wanted) recorded fresh = Inr None \<longleftrightarrow>
      b = ScopeBinding (Project (ow_scope wanted)) \<and> recorded = Some wanted)"
  by (cases b; cases "bound_scope b"; cases recorded; cases establishing)
    (auto simp: binding_appending_def binding_check_def binding_admits_def)

text \<open>The text a scope is stored under names one scope.\<close>

theorem scope_key_names_one_scope: "scope_key a = scope_key b \<longleftrightarrow> a = b"
proof
  assume eq: "scope_key a = scope_key b"
  show "a = b"
  proof (cases a; cases b)
    fix x y
    assume ab: "a = Project x" "b = Project y"
    with eq have "uuid_display (sc_organization x) @ ''/'' @ uuid_display (sc_project x)
        = uuid_display (sc_organization y) @ ''/'' @ uuid_display (sc_project y)" by simp
    then have sep: "uuid_display (sc_organization x) @ [CHR ''/''] @ uuid_display (sc_project x)
        = uuid_display (sc_organization y) @ [CHR ''/''] @ uuid_display (sc_project y)" by simp
    from append_sep_inj [OF sep uuid_display_no_slash uuid_display_no_slash] ab show ?thesis
      by (auto dest!: uuid_display_inj simp: project_scope.expand)
  qed (use eq in auto)
qed simp

end
