(* ===== verification/Timers.thy ===== *)
theory Timers
  imports Decide
begin

text \<open>
  The data of a hosted run's append side, \<open>hosted.rs\<close>: the decider's lease, deferred appends and
  the batch a worker sends. The lease is an interpretation of the lease of \<open>Jobs\<close>.
\<close>

subsection \<open>The decider's lease\<close>

record decider_lease =
  dl_execution :: string
  dl_holder :: string
  dl_claimed_at :: instant
  dl_previous_holder :: "string option"

definition taken_by :: "string \<Rightarrow> string \<Rightarrow> instant \<Rightarrow> decider_lease" where
  "taken_by execution owner now =
     \<lparr>dl_execution = execution, dl_holder = owner, dl_claimed_at = now, dl_previous_holder = None\<rparr>"

definition dl_expires_at :: "decider_lease \<Rightarrow> instant" where
  "dl_expires_at lease = dl_claimed_at lease + seconds LEASE_SECONDS"

definition dl_expired :: "decider_lease \<Rightarrow> instant \<Rightarrow> bool" where
  "dl_expired lease now = lease_expired (Some (dl_claimed_at lease)) now"

definition dl_held_by :: "decider_lease \<Rightarrow> string \<Rightarrow> instant \<Rightarrow> bool" where
  "dl_held_by lease owner now = (dl_holder lease = owner \<and> \<not> dl_expired lease now)"

definition dl_take :: "string \<Rightarrow> instant \<Rightarrow> decider_lease \<Rightarrow> decider_lease" where
  "dl_take owner now lease =
     (let lease1 = (if dl_holder lease \<noteq> owner
                    then lease\<lparr>dl_previous_holder := Some (dl_holder lease), dl_holder := owner\<rparr>
                    else lease)
      in lease1\<lparr>dl_claimed_at := now\<rparr>)"

datatype lease_outcome = LeaseTaken decider_lease | LeaseHeldBy string instant

fun outcome_taken :: "lease_outcome \<Rightarrow> decider_lease option" where
  "outcome_taken (LeaseTaken lease) = Some lease"
| "outcome_taken (LeaseHeldBy _ _) = None"

lemma dl_take_simps [simp]:
  "dl_holder (dl_take owner now lease) = owner"
  "dl_claimed_at (dl_take owner now lease) = now"
  "dl_execution (dl_take owner now lease) = dl_execution lease"
  by (simp_all add: dl_take_def Let_def)

interpretation decider: leased "\<lambda>l. Some (dl_holder l)" "\<lambda>l. Some (dl_claimed_at l)" dl_take dl_expired
  by unfold_locales (simp_all add: dl_expired_def)

lemma dl_held_by_lease: "dl_held_by lease owner now = decider.held_by owner now lease"
  by (simp add: dl_held_by_def decider.held_by_def dl_expired_def)

subsection \<open>Deferred appends\<close>

record timer =
  tm_execution :: string
  tm_timer_id :: string
  tm_due_at :: instant
  tm_message :: hosted_message

definition fired_id :: "crates \<Rightarrow> timer \<Rightarrow> string" where
  "fired_id C t = derive_uuid C (''hosted-timer/'' @ tm_execution t @ ''/'' @ tm_timer_id t)"

definition is_due :: "timer \<Rightarrow> instant \<Rightarrow> bool" where
  "is_due t now = (tm_due_at t \<le> now)"

datatype timer_write = ScheduleTimer timer | CancelTimer string | FireTimer string

fun write_timer_id :: "timer_write \<Rightarrow> string" where
  "write_timer_id (ScheduleTimer t) = tm_timer_id t"
| "write_timer_id (CancelTimer i) = i"
| "write_timer_id (FireTimer i) = i"

definition TIMERS_PER_TICK :: nat where "TIMERS_PER_TICK = 100"
definition DEADLINE_TIMER :: string where "DEADLINE_TIMER = ''input_deadline''"
definition HOSTED_APPEND :: string where "HOSTED_APPEND = ''HostedAppend''"
definition HOSTED_TIMER :: string where "HOSTED_TIMER = ''HostedTimerFired''"
definition MAX_BATCH :: nat where "MAX_BATCH = 256"

record fired =
  fd_execution :: string
  fd_timer_id :: string
  fd_delivered :: bool

definition fired_of :: "timer \<Rightarrow> bool \<Rightarrow> fired" where
  "fired_of t delivered =
     \<lparr>fd_execution = tm_execution t, fd_timer_id = tm_timer_id t, fd_delivered = delivered\<rparr>"

subsection \<open>What a worker appends\<close>

record hosted_append =
  ha_expected_version :: nat
  ha_idempotency_key :: string
  ha_holder :: string
  ha_messages :: "hosted_message list"
  ha_timers :: "timer_write list"

definition append_input_id :: "crates \<Rightarrow> hosted_append \<Rightarrow> string \<Rightarrow> string" where
  "append_input_id C a execution =
     derive_uuid C (''hosted-append/'' @ execution @ ''/'' @ ha_idempotency_key a)"

definition append_message_id :: "crates \<Rightarrow> hosted_append \<Rightarrow> string \<Rightarrow> nat \<Rightarrow> string" where
  "append_message_id C a execution index =
     derive_uuid C (''hosted-message/'' @ execution @ ''/'' @ ha_idempotency_key a @ ''/'' @ show_nat index)"

text \<open>\<open>check_payload\<close>: the type of the offending message with the policies found and expected.\<close>

definition check_payload ::
  "hosted_message \<Rightarrow> payload_policy \<Rightarrow> (string \<times> payload_policy \<times> payload_policy) + unit" where
  "check_payload m expected =
     (case hm_payload m of
        None \<Rightarrow> Inr ()
      | Some payload \<Rightarrow>
          if pr_policy payload = expected then Inr ()
          else Inl (hm_message_type m, pr_policy payload, expected))"

definition scheduled_message :: "timer_write \<Rightarrow> hosted_message option" where
  "scheduled_message w = (case w of ScheduleTimer t \<Rightarrow> Some (tm_message t) | _ \<Rightarrow> None)"

end
