(* ===== verification/Slot.thy ===== *)
theory Slot
  imports Plan
begin

text \<open>
  One schedule slot and what the tick decided about it: \<open>schedule/slot.rs\<close> with the overlap policy
  of \<open>schedule/rule.rs\<close>. A slot is an interpretation of the lease of \<open>Jobs\<close>.
\<close>

fun definition_rank :: "definition_kind \<Rightarrow> nat" where
  "definition_rank CurationPipeline = 0"
| "definition_rank WorkflowKind = 1"
| "definition_rank EvaluationKind = 2"

lemma definition_rank_inj: "definition_rank a = definition_rank b \<Longrightarrow> a = b"
  by (cases a; cases b) simp_all

datatype slot_key = SlotKey (sk_kind: definition_kind) (sk_name: string) (sk_slot: instant)

instantiation slot_key :: linorder
begin

definition less_eq_slot_key :: "slot_key \<Rightarrow> slot_key \<Rightarrow> bool" where
  "less_eq_slot_key a b \<longleftrightarrow>
     definition_rank (sk_kind a) < definition_rank (sk_kind b) \<or>
     (sk_kind a = sk_kind b \<and>
        (sk_name a < sk_name b \<or> (sk_name a = sk_name b \<and> sk_slot a \<le> sk_slot b)))"

definition less_slot_key :: "slot_key \<Rightarrow> slot_key \<Rightarrow> bool" where
  "less_slot_key a b \<longleftrightarrow> a \<le> b \<and> \<not> b \<le> a"

instance
proof
  fix x y z :: slot_key
  show "x < y \<longleftrightarrow> x \<le> y \<and> \<not> y \<le> x" by (simp add: less_slot_key_def)
  show "x \<le> x" by (simp add: less_eq_slot_key_def)
  show "x \<le> y \<Longrightarrow> y \<le> z \<Longrightarrow> x \<le> z" by (auto simp: less_eq_slot_key_def)
  show "x \<le> y \<Longrightarrow> y \<le> x \<Longrightarrow> x = y" by (auto simp: less_eq_slot_key_def slot_key.expand)
  have "definition_rank (sk_kind x) < definition_rank (sk_kind y) \<or>
      definition_rank (sk_kind y) < definition_rank (sk_kind x) \<or> sk_kind x = sk_kind y"
    using definition_rank_inj by (metis linorder_neqE)
  then show "x \<le> y \<or> y \<le> x" by (auto simp: less_eq_slot_key_def)
qed

end

datatype overlap_policy = OverlapSkip | OverlapAllow

datatype slot_outcome = SlotStarted | SlotSkipped | SlotRefused

datatype slot_settlement =
    SettleStarted string
  | SettleSkipped string
  | SettleRefused string
  | SettleTryAgain string

fun settlement_outcome :: "slot_settlement \<Rightarrow> slot_outcome option" where
  "settlement_outcome (SettleStarted _) = Some SlotStarted"
| "settlement_outcome (SettleSkipped _) = Some SlotSkipped"
| "settlement_outcome (SettleRefused _) = Some SlotRefused"
| "settlement_outcome (SettleTryAgain _) = None"

fun settlement_execution :: "slot_settlement \<Rightarrow> string option" where
  "settlement_execution (SettleStarted execution) = Some execution"
| "settlement_execution (SettleSkipped execution) = Some execution"
| "settlement_execution (SettleRefused _) = None"
| "settlement_execution (SettleTryAgain _) = None"

fun settlement_detail :: "slot_settlement \<Rightarrow> string option" where
  "settlement_detail (SettleRefused detail) = Some detail"
| "settlement_detail (SettleTryAgain detail) = Some detail"
| "settlement_detail (SettleStarted _) = None"
| "settlement_detail (SettleSkipped _) = None"

record slot_record =
  sl_key :: slot_key
  sl_outcome :: "slot_outcome option"
  sl_execution_id :: "string option"
  sl_detail :: "string option"
  sl_lease_owner :: "string option"
  sl_leased_at :: "instant option"
  sl_updated_at :: instant

definition is_available :: "slot_record \<Rightarrow> instant \<Rightarrow> bool" where
  "is_available r now = (sl_outcome r = None \<and> lease_expired (sl_leased_at r) now)"

record slot_request =
  sq_key :: slot_key
  sq_owner :: string
  sq_overlap :: overlap_policy
  sq_now :: instant

datatype slot_admission =
    Admitted
  | SlotSettled slot_outcome
  | SlotHeld string
  | SlotBlocked string

text \<open>The record \<open>admit_slot\<close> inserts: everything is fresh but the detail of the last attempt.\<close>

definition slot_admitted :: "slot_key \<Rightarrow> string \<Rightarrow> instant \<Rightarrow> string option \<Rightarrow> slot_record" where
  "slot_admitted key owner now detail =
     \<lparr>sl_key = key, sl_outcome = None, sl_execution_id = None, sl_detail = detail,
      sl_lease_owner = Some owner, sl_leased_at = Some now, sl_updated_at = now\<rparr>"

definition slot_take :: "string \<Rightarrow> instant \<Rightarrow> slot_record \<Rightarrow> slot_record" where
  "slot_take owner now r = slot_admitted (sl_key r) owner now (sl_detail r)"

text \<open>What \<open>settle_slot\<close> writes on the record it found.\<close>

definition slot_settled :: "slot_settlement \<Rightarrow> instant \<Rightarrow> slot_record \<Rightarrow> slot_record" where
  "slot_settled settlement now r =
     (case settlement of
        SettleTryAgain detail \<Rightarrow>
          r\<lparr>sl_lease_owner := None, sl_leased_at := None, sl_detail := Some detail, sl_updated_at := now\<rparr>
      | decided \<Rightarrow>
          r\<lparr>sl_outcome := settlement_outcome decided, sl_execution_id := settlement_execution decided,
            sl_detail := settlement_detail decided, sl_lease_owner := None, sl_leased_at := None,
            sl_updated_at := now\<rparr>)"

interpretation slot: leased sl_lease_owner sl_leased_at slot_take is_available
  by unfold_locales (simp_all add: slot_take_def slot_admitted_def is_available_def)

end
