(* ===== verification/Checkpoint.thy ===== *)
theory Checkpoint
  imports Ids
begin

text \<open>
  The resumable cursors of \<open>aiwatcher-core/src/checkpoint.rs\<close>: an opaque string whose
  lexicographic order is the numeric order of the positions it stands for. The lemmas relate the
  decimal digits of a string to its value; the properties are the order and the round trip.
\<close>

type_synonym checkpoint = string

datatype checkpoint_error = NotDecimal string | DoesNotFit string

definition PADDED_WIDTH :: nat where "PADDED_WIDTH = 20"

text \<open>\<open>u64::from_str\<close>: an optional plus sign, then at least one digit, within the width.\<close>

definition is_digit :: "char \<Rightarrow> bool" where
  "is_digit c = (48 \<le> (of_char c :: nat) \<and> (of_char c :: nat) \<le> 57)"

definition dec_value :: "string \<Rightarrow> nat" where
  "dec_value s = foldl (\<lambda>n c. 10 * n + (of_char c - 48)) 0 s"

definition u64_from_str :: "string \<Rightarrow> u64 option" where
  "u64_from_str value =
     (let digits = (case value of c # rest \<Rightarrow> if c = CHR ''+'' then rest else value | [] \<Rightarrow> value)
      in if digits \<noteq> [] \<and> list_all is_digit digits \<and> dec_value digits < 2 ^ 64
         then Some (of_nat (dec_value digits)) else None)"

text \<open>\<open>format!("{position:020}")\<close>.\<close>

definition from_global_position :: "u64 \<Rightarrow> checkpoint" where
  "from_global_position p =
     (let digits = show_nat (unat p) in replicate (PADDED_WIDTH - length digits) (CHR ''0'') @ digits)"

definition checkpoint_beginning :: checkpoint where
  "checkpoint_beginning = from_global_position 0"

definition checkpoint_parse :: "string \<Rightarrow> checkpoint_error + checkpoint" where
  "checkpoint_parse value =
     (if value = [] then Inr checkpoint_beginning
      else if \<not> list_all is_digit value then Inl (NotDecimal value)
      else case u64_from_str value of
             None \<Rightarrow> Inl (DoesNotFit value)
           | Some position \<Rightarrow> Inr (from_global_position position))"

definition global_position :: "checkpoint \<Rightarrow> u64 option" where
  "global_position c = u64_from_str c"

definition is_beginning :: "checkpoint \<Rightarrow> bool" where
  "is_beginning c = (global_position c = Some 0)"

subsection \<open>Digits and values\<close>

lemma is_digit_dec_digit: "d < 10 \<Longrightarrow> is_digit (dec_digit d) \<and> (of_char (dec_digit d) :: nat) = 48 + d"
proof -
  assume "d < 10"
  then have "d \<in> set [0..<10]" by simp
  then show ?thesis by (auto simp: upt_rec dec_digit_def is_digit_def)
qed

lemma dec_value_snoc: "dec_value (s @ [c]) = 10 * dec_value s + (of_char c - 48)"
  by (simp add: dec_value_def)

lemma dec_value_Nil [simp]: "dec_value [] = 0"
  by (simp add: dec_value_def)

lemma dec_value_Cons: "dec_value (c # s) = (of_char c - 48) * 10 ^ length s + dec_value s"
proof (induction s rule: rev_induct)
  case Nil
  show ?case by (simp add: dec_value_def)
next
  case (snoc x s)
  have "dec_value (c # s @ [x]) = 10 * dec_value (c # s) + (of_char x - 48)"
    using dec_value_snoc [of "c # s" x] by simp
  with snoc show ?case by (simp add: dec_value_snoc algebra_simps)
qed

lemma dec_value_bound: "list_all is_digit s \<Longrightarrow> dec_value s < 10 ^ length s"
proof (induction s rule: rev_induct)
  case (snoc c s)
  then have "(of_char c :: nat) - 48 \<le> 9" "dec_value s < 10 ^ length s" by (auto simp: is_digit_def)
  then show ?case by (simp add: dec_value_snoc)
qed simp

lemma dec_value_show_nat: "list_all is_digit (show_nat n) \<and> dec_value (show_nat n) = n"
proof (induction n rule: show_nat.induct)
  case (1 n)
  show ?case
  proof (cases "n < 10")
    case True
    then show ?thesis by (simp add: is_digit_dec_digit dec_value_def show_nat.simps [of n])
  next
    case False
    with 1 have ih: "list_all is_digit (show_nat (n div 10))" "dec_value (show_nat (n div 10)) = n div 10"
      by auto
    have "show_nat n = show_nat (n div 10) @ [dec_digit (n mod 10)]" using False by (subst show_nat.simps) simp
    with ih is_digit_dec_digit [of "n mod 10"] show ?thesis
      by (simp add: dec_value_snoc del: show_nat.simps)
  qed
qed

lemma show_nat_length: "length (show_nat n) \<le> k \<longleftrightarrow> n < 10 ^ k" if "0 < k"
  using that
proof (induction n arbitrary: k rule: show_nat.induct)
  case (1 n)
  show ?case
  proof (cases "n < 10")
    case True
    then have "n < 10 ^ k" using 1(2) by (metis less_le_trans one_le_numeral power_increasing power_one_right Suc_leI One_nat_def)
    with True 1(2) show ?thesis by (simp add: show_nat.simps [of n])
  next
    case False
    have len: "length (show_nat n) = Suc (length (show_nat (n div 10)))" using False by (subst show_nat.simps) simp
    show ?thesis
    proof (cases k)
      case (Suc j)
      show ?thesis
      proof (cases "j = 0")
        case True
        have "show_nat (n div 10) \<noteq> []" by simp
        with True Suc False len show ?thesis by (auto simp del: show_nat.simps)
      next
        case nz: False
        with 1(1) [OF False, of j] len Suc show ?thesis
          by (simp add: less_mult_imp_div_less div_less_iff_less_mult mult.commute del: show_nat.simps)
      qed
    qed (use 1(2) in simp)
  qed
qed

lemma dec_value_zeros: "dec_value (replicate k (CHR ''0'') @ s) = dec_value s"
  by (induction k) (simp_all add: dec_value_Cons)

lemma digits_zeros: "list_all is_digit (replicate k (CHR ''0''))"
  by (induction k) (simp_all add: is_digit_def)

lemma unat_u64_less: "unat (p :: u64) < 10 ^ 20"
  using unsigned_less [of p, where 'a = nat] by simp

lemma from_global_position_facts:
  "length (from_global_position p) = PADDED_WIDTH"
  "list_all is_digit (from_global_position p)"
  "dec_value (from_global_position p) = unat p"
proof -
  have "length (show_nat (unat p)) \<le> 20"
    using show_nat_length [of 20 "unat p"] unat_u64_less by simp
  then show "length (from_global_position p) = PADDED_WIDTH"
    by (simp add: from_global_position_def Let_def PADDED_WIDTH_def del: show_nat.simps)
qed (simp_all add: from_global_position_def Let_def digits_zeros dec_value_zeros dec_value_show_nat
       del: show_nat.simps)

lemma digits_order:
  assumes "length s = length t" and "list_all is_digit s" and "list_all is_digit t"
  shows "s < t \<longleftrightarrow> dec_value s < dec_value t"
  using assms
proof (induction s t rule: list_induct2)
  case (Cons a s b t)
  let ?a = "of_char a - 48 :: nat" and ?b = "of_char b - 48 :: nat"
  have bounds: "dec_value s < 10 ^ length t" "dec_value t < 10 ^ length t"
    using dec_value_bound Cons by fastforce+
  have ab: "48 \<le> (of_char a :: nat)" "48 \<le> (of_char b :: nat)" using Cons.prems by (auto simp: is_digit_def)
  have "(of_char a :: nat) = of_char b \<longleftrightarrow> ?a = ?b" "(of_char a :: nat) < of_char b \<longleftrightarrow> ?a < ?b"
    using ab by arith+
  then have order: "a < b \<longleftrightarrow> ?a < ?b" "a = b \<longleftrightarrow> ?a = ?b"
    by (simp_all add: less_char_def)
  have step: "x * 10 ^ n + v < y * 10 ^ n + w" if "x < y" "v < 10 ^ n" for x y v w n :: nat
  proof -
    have "Suc x * 10 ^ n \<le> y * 10 ^ n" using that(1) by (intro mult_right_mono) auto
    with that(2) show ?thesis by simp
  qed
  show ?case
    using Cons step [of ?a ?b "dec_value s" "length t" "dec_value t"]
      step [of ?b ?a "dec_value t" "length t" "dec_value s"] bounds order
    by (auto simp: dec_value_Cons)
qed simp

subsection \<open>Properties\<close>

text \<open>The string order of two cursors is the numeric order of the positions they stand for.\<close>

theorem checkpoint_order_is_numeric:
  "from_global_position p < from_global_position q \<longleftrightarrow> p < q"
  using digits_order [of "from_global_position p" "from_global_position q"]
  by (simp add: from_global_position_facts word_less_nat_alt)

text \<open>A cursor reads back as the position it was made from, through the wire and as a number, and
  what \<open>parse\<close> accepts it normalises: parsing its result changes nothing.\<close>

theorem checkpoint_roundtrip:
  "global_position (from_global_position p) = Some p \<and>
   checkpoint_parse (from_global_position p) = Inr (from_global_position p) \<and>
   (case checkpoint_parse value of
      Inr c \<Rightarrow> checkpoint_parse c = Inr c \<and> length c = PADDED_WIDTH
    | Inl e \<Rightarrow> value \<noteq> [] \<and> (if list_all is_digit value then 2 ^ 64 \<le> dec_value value else True))"
proof -
  have reads: "u64_from_str (from_global_position q) = Some q" for q
  proof -
    have "from_global_position q \<noteq> []"
      using from_global_position_facts(1) [of q] by (auto simp: PADDED_WIDTH_def)
    then obtain c rest where c: "from_global_position q = c # rest" by (cases "from_global_position q") auto
    then have "c \<noteq> CHR ''+''" using from_global_position_facts(2) [of q] by (auto simp: is_digit_def)
    moreover have "dec_value (c # rest) = unat q" "list_all is_digit (c # rest)"
      using from_global_position_facts [of q] c by simp_all
    ultimately show ?thesis using c unsigned_less [of q] by (simp add: u64_from_str_def)
  qed
  have again: "checkpoint_parse (from_global_position q) = Inr (from_global_position q)" for q
    using from_global_position_facts [of q] reads [of q]
    by (auto simp: checkpoint_parse_def PADDED_WIDTH_def)
  have plain: "u64_from_str value = (if dec_value value < 2 ^ 64 then Some (of_nat (dec_value value)) else None)"
    if "value \<noteq> []" "list_all is_digit value"
    using that by (cases "value") (auto simp: u64_from_str_def is_digit_def)
  show ?thesis
    using reads [of p] again from_global_position_facts(1) plain
    by (auto simp: checkpoint_parse_def global_position_def checkpoint_beginning_def split: option.splits)
qed

end
