(* ===== verification/Store.thy ===== *)
theory Store
  imports Claim Scope Timers Slot Checkpoint "HOL-Library.Product_Lexorder"
begin

text \<open>
  The transactional workflow store: the port's data of \<open>store/mod.rs\<close> and the adapter of
  \<open>store/memory.rs\<close>, whose transaction is one lock. \<open>inner\<close> is what the lock guards; an operation
  takes the binding of the handle it is called through and the state, and returns its answer with
  the state it leaves. The size of an encoded message is \<open>serde_json\<close>'s and is a parameter. A
  \<open>HashMap\<close> is kept in key order, one of the orders its iteration may take.
\<close>

subsection \<open>What a decision writes\<close>

datatype expected_version = AnyVersion | NoStream | Exact nat

record append_request =
  ar_expected_version :: expected_version
  ar_input :: pending_message
  ar_outputs :: "pending_message list"
  ar_projection :: run_projection
  ar_outbox :: "outbox_message list"
  ar_checkpoint :: "(string \<times> checkpoint) option"
  ar_timers :: "timer_write list"
  ar_attempts :: "attempt_write list"
  ar_ownership :: "execution_ownership option"

definition payload_size :: "(workflow_message \<Rightarrow> nat) \<Rightarrow> pending_message \<Rightarrow> nat" where
  "payload_size sz m = sz (pm_message m)"

definition check_payloads :: "(workflow_message \<Rightarrow> nat) \<Rightarrow> append_request \<Rightarrow> store_error + unit" where
  "check_payloads sz req =
     (case List.find (\<lambda>m. payload_size sz m > MAX_PAYLOAD_BYTES) (ar_input req # ar_outputs req) of
        Some m \<Rightarrow> Inl (PayloadTooLarge (payload_size sz m) MAX_PAYLOAD_BYTES)
      | None \<Rightarrow> Inr ())"

datatype append_outcome = Appended nat | Duplicate nat

fun outcome_version :: "append_outcome \<Rightarrow> nat" where
  "outcome_version (Appended version) = version"
| "outcome_version (Duplicate version) = version"

fun is_duplicate :: "append_outcome \<Rightarrow> bool" where
  "is_duplicate (Appended _) = False"
| "is_duplicate (Duplicate _) = True"

record stream_slice =
  ss_version :: nat
  ss_messages :: "recorded_message list"

text \<open>The facts of a history: the events among its outputs.\<close>

definition history_events :: "recorded_message list \<Rightarrow> workflow_event list" where
  "history_events ms =
     List.map_filter (\<lambda>m. if rm_direction m = Output then message_event (rm_message m) else None) ms"

definition slice_events :: "stream_slice \<Rightarrow> workflow_event list" where
  "slice_events sl = history_events (ss_messages sl)"

definition slice_is_empty :: "stream_slice \<Rightarrow> bool" where
  "slice_is_empty sl = (ss_messages sl = [])"

record store_capabilities =
  cap_multi_process :: bool
  cap_claimable :: bool

record pruned =
  pruned_executions :: nat
  pruned_attempts :: nat

definition pruned_is_empty :: "pruned \<Rightarrow> bool" where
  "pruned_is_empty p = (pruned_executions p = 0 \<and> pruned_attempts p = 0)"

fun settles :: "workflow_event \<Rightarrow> string \<Rightarrow> u32 \<Rightarrow> bool" where
  "settles (StepCompleted i recorded _ _) step attempt = (i = step \<and> recorded = attempt)"
| "settles (StepFailed i recorded _) step attempt = (i = step \<and> recorded = attempt)"
| "settles _ step attempt = False"

definition prunable :: "run_projection \<Rightarrow> instant \<Rightarrow> instant \<Rightarrow> bool" where
  "prunable run last_activity before =
     (is_terminal (state_type (rp_state run)) \<and> last_activity < before)"

subsection \<open>What the lock guards\<close>

record inner =
  in_streams :: "(string, recorded_message list) btree"
  in_seen :: "(string, (string, nat) btree) btree"
  in_projections :: "(string, run_projection) btree"
  in_outbox :: "outbox_message list"
  in_checkpoints :: "(string, checkpoint) btree"
  in_attempts :: "(attempt_key, attempt_row) btree"
  in_slots :: "(slot_key, slot_record) btree"
  in_decider_leases :: "(string, decider_lease) btree"
  in_timers :: "(string \<times> string, timer) btree"
  in_ownership :: "(string, execution_ownership) btree"

definition inner_empty :: inner where
  "inner_empty =
     \<lparr>in_streams = [], in_seen = [], in_projections = [], in_outbox = [], in_checkpoints = [],
      in_attempts = [], in_slots = [], in_decider_leases = [], in_timers = [], in_ownership = []\<rparr>"

definition memory_capabilities :: store_capabilities where
  "memory_capabilities = \<lparr>cap_multi_process = True, cap_claimable = True\<rparr>"

definition owner_of :: "inner \<Rightarrow> string \<Rightarrow> execution_ownership option" where
  "owner_of s execution = bt_get (in_ownership s) execution"

definition stream_of :: "inner \<Rightarrow> string \<Rightarrow> recorded_message list" where
  "stream_of s execution = (case bt_get (in_streams s) execution of None \<Rightarrow> [] | Some ms \<Rightarrow> ms)"

definition holds :: "inner \<Rightarrow> string \<Rightarrow> bool" where
  "holds s execution = is_some_and (\<lambda>stream. stream \<noteq> []) (bt_get (in_streams s) execution)"

definition inner_admits :: "inner \<Rightarrow> scope_binding \<Rightarrow> string \<Rightarrow> bool" where
  "inner_admits s b execution = binding_admits b (owner_of s execution) (holds s execution)"

definition inner_check :: "inner \<Rightarrow> scope_binding \<Rightarrow> string \<Rightarrow> store_error + unit" where
  "inner_check s b execution = binding_check b execution (owner_of s execution) (holds s execution)"

definition strip_prefix :: "string \<Rightarrow> string \<Rightarrow> string option" where
  "strip_prefix p s = (if take (length p) s = p then Some (drop (length p) s) else None)"

definition admits_partition :: "inner \<Rightarrow> scope_binding \<Rightarrow> string \<Rightarrow> bool" where
  "admits_partition s b partition_key =
     is_some_and (inner_admits s b) (strip_prefix ''workflow:'' partition_key)"

definition refuse_instance_wide :: "scope_binding \<Rightarrow> string \<Rightarrow> store_error + unit" where
  "refuse_instance_wide b what =
     (if scope_is_global (bound_scope b) then Inr ()
      else Inl (NotInThisScope (what @ '' while bound to '' @ scope_label (bound_scope b))))"

text \<open>Every operation on one execution answers under this check.\<close>

definition guarded :: "store_error + unit \<Rightarrow> 'a \<Rightarrow> store_error + 'a" where
  "guarded check answer = (case check of Inl err \<Rightarrow> Inl err | Inr _ \<Rightarrow> Inr answer)"

subsection \<open>Reads\<close>

definition store_for_project :: "scope_binding \<Rightarrow> project_scope \<Rightarrow> store_error + scope_binding" where
  "store_for_project b scope = binding_bind b scope"

definition store_ownership :: "scope_binding \<Rightarrow> string \<Rightarrow> inner \<Rightarrow> store_error + execution_ownership option" where
  "store_ownership b execution s = guarded (inner_check s b execution) (owner_of s execution)"

definition store_load :: "scope_binding \<Rightarrow> string \<Rightarrow> inner \<Rightarrow> store_error + stream_slice" where
  "store_load b execution s =
     guarded (inner_check s b execution)
       \<lparr>ss_version = length (stream_of s execution), ss_messages = stream_of s execution\<rparr>"

definition store_load_page ::
  "scope_binding \<Rightarrow> string \<Rightarrow> nat \<Rightarrow> nat \<Rightarrow> inner \<Rightarrow> store_error + stream_slice" where
  "store_load_page b execution after limit s =
     guarded (inner_check s b execution)
       \<lparr>ss_version = length (stream_of s execution),
        ss_messages = take limit (filter (\<lambda>m. rm_stream_version m > after) (stream_of s execution))\<rparr>"

definition store_due_timers :: "scope_binding \<Rightarrow> instant \<Rightarrow> nat \<Rightarrow> inner \<Rightarrow> timer list" where
  "store_due_timers b now limit s =
     take limit (sort_key tm_due_at
       (filter (\<lambda>t. is_due t now \<and> inner_admits s b (tm_execution t)) (bt_values (in_timers s))))"

definition store_timers_of :: "scope_binding \<Rightarrow> string \<Rightarrow> inner \<Rightarrow> store_error + timer list" where
  "store_timers_of b execution s =
     guarded (inner_check s b execution)
       (sort_key tm_due_at (filter (\<lambda>t. tm_execution t = execution) (bt_values (in_timers s))))"

definition store_recorded_outcome ::
  "scope_binding \<Rightarrow> attempt_key \<Rightarrow> inner \<Rightarrow> store_error + workflow_event option" where
  "store_recorded_outcome b key s =
     guarded (inner_check s b (ak_execution key))
       (List.find (\<lambda>event. settles event (ak_step key) (ak_attempt key))
          (history_events (stream_of s (ak_execution key))))"

definition store_projection :: "scope_binding \<Rightarrow> string \<Rightarrow> inner \<Rightarrow> store_error + run_projection option" where
  "store_projection b execution s =
     guarded (inner_check s b execution) (bt_get (in_projections s) execution)"

definition store_pending_outbox :: "scope_binding \<Rightarrow> nat \<Rightarrow> inner \<Rightarrow> outbox_message list" where
  "store_pending_outbox b limit s =
     take limit (filter (\<lambda>row. ob_published_at row = None \<and> admits_partition s b (ob_partition_key row))
                        (in_outbox s))"

definition store_attempt :: "scope_binding \<Rightarrow> attempt_key \<Rightarrow> inner \<Rightarrow> store_error + attempt_row option" where
  "store_attempt b key s = guarded (inner_check s b (ak_execution key)) (bt_get (in_attempts s) key)"

definition admitted_rows :: "scope_binding \<Rightarrow> inner \<Rightarrow> attempt_row list" where
  "admitted_rows b s =
     filter (\<lambda>row. inner_admits s b (ak_execution (row_key row))) (bt_values (in_attempts s))"

definition store_unclaimed_attempts :: "scope_binding \<Rightarrow> instant \<Rightarrow> inner \<Rightarrow> (runtime_kind, u64) btree" where
  "store_unclaimed_attempts b now s = tally_unclaimed (admitted_rows b s) now"

definition store_claimable_attempts ::
  "scope_binding \<Rightarrow> runtime_kind \<Rightarrow> instant \<Rightarrow> nat \<Rightarrow> inner \<Rightarrow> attempt_row list" where
  "store_claimable_attempts b runtime now limit s = claimable_of (admitted_rows b s) runtime now limit"

definition store_decider_lease :: "scope_binding \<Rightarrow> string \<Rightarrow> inner \<Rightarrow> store_error + decider_lease option" where
  "store_decider_lease b execution s =
     guarded (inner_check s b execution) (bt_get (in_decider_leases s) execution)"

definition store_recent_slots ::
  "scope_binding \<Rightarrow> definition_kind \<Rightarrow> string \<Rightarrow> nat \<Rightarrow> inner \<Rightarrow> store_error + slot_record list" where
  "store_recent_slots b kind name limit s =
     guarded (refuse_instance_wide b ''read schedule slots'')
       (take limit (sort_key (\<lambda>r. - sk_slot (sl_key r))
          (filter (\<lambda>r. sk_kind (sl_key r) = kind \<and> sk_name (sl_key r) = name) (bt_values (in_slots s)))))"

definition store_project_scopes :: "scope_binding \<Rightarrow> nat \<Rightarrow> inner \<Rightarrow> store_error + project_scope list" where
  "store_project_scopes b limit s =
     guarded (refuse_instance_wide b ''list the projects that have run here'')
       (take limit (bt_keys (bt_collect (map (\<lambda>owner. (ow_scope owner, ())) (bt_values (in_ownership s))))))"

definition store_checkpoint :: "scope_binding \<Rightarrow> string \<Rightarrow> inner \<Rightarrow> store_error + checkpoint option" where
  "store_checkpoint b processor s =
     guarded (refuse_instance_wide b ''read a processor checkpoint'') (bt_get (in_checkpoints s) processor)"

subsection \<open>The append\<close>

text \<open>\<open>entry(key).or_default()\<close>: what it leaves behind even when the append is refused.\<close>

definition entry_or_default :: "'k::linorder \<Rightarrow> 'v \<Rightarrow> ('k, 'v) btree \<Rightarrow> ('k, 'v) btree" where
  "entry_or_default k d m = (case bt_get m k of None \<Rightarrow> bt_insert k d m | Some _ \<Rightarrow> m)"

definition touch_stream :: "string \<Rightarrow> inner \<Rightarrow> inner" where
  "touch_stream execution s = s\<lparr>in_streams := entry_or_default execution [] (in_streams s)\<rparr>"

fun push_messages :: "nat \<Rightarrow> instant \<Rightarrow> pending_message list \<Rightarrow> recorded_message list" where
  "push_messages version now [] = []"
| "push_messages version now (m # ms) =
     \<lparr>rm_stream_version = Suc version, rm_direction = pm_direction m, rm_message = pm_message m,
      rm_metadata = pm_metadata m, rm_recorded_at = now\<rparr> # push_messages (Suc version) now ms"

fun apply_attempt_write :: "attempt_write \<Rightarrow> (attempt_key, attempt_row) btree \<Rightarrow> (attempt_key, attempt_row) btree" where
  "apply_attempt_write (Dispatch row) m = bt_insert (row_key row) row m"
| "apply_attempt_write (Park key) m = bt_modify key row_park m"
| "apply_attempt_write (Retire key) m = bt_remove key m"

fun apply_timer_write :: "string \<Rightarrow> timer_write \<Rightarrow> (string \<times> string, timer) btree \<Rightarrow> (string \<times> string, timer) btree" where
  "apply_timer_write execution (ScheduleTimer t) m = bt_insert (tm_execution t, tm_timer_id t) t m"
| "apply_timer_write execution (CancelTimer i) m = bt_remove (execution, i) m"
| "apply_timer_write execution (FireTimer i) m = bt_remove (execution, i) m"

text \<open>The six writes of one decision, once nothing refused it.\<close>

definition commit :: "instant \<Rightarrow> string \<Rightarrow> execution_ownership option \<Rightarrow> append_request \<Rightarrow> inner \<Rightarrow> inner" where
  "commit now execution establishing req s =
     (let stream = stream_of s execution; version = length stream;
          seen = (case bt_get (in_seen s) execution of None \<Rightarrow> [] | Some m \<Rightarrow> m)
      in s\<lparr>in_ownership := (case establishing of None \<Rightarrow> in_ownership s
                            | Some owner \<Rightarrow> bt_insert execution owner (in_ownership s)),
           in_streams := bt_insert execution
                           (stream @ push_messages version now (ar_input req # ar_outputs req)) (in_streams s),
           in_seen := bt_insert execution
                        (bt_insert (md_message_id (pm_metadata (ar_input req))) (Suc version) seen) (in_seen s),
           in_projections := bt_insert execution (ar_projection req) (in_projections s),
           in_attempts := foldl (\<lambda>m w. apply_attempt_write w m) (in_attempts s) (ar_attempts req),
           in_timers := foldl (\<lambda>m w. apply_timer_write execution w m) (in_timers s) (ar_timers req),
           in_outbox := in_outbox s @ ar_outbox req,
           in_checkpoints := (case ar_checkpoint req of None \<Rightarrow> in_checkpoints s
                              | Some (processor, c) \<Rightarrow> bt_insert processor c (in_checkpoints s))\<rparr>)"

fun version_refused :: "expected_version \<Rightarrow> nat \<Rightarrow> nat option" where
  "version_refused AnyVersion version = None"
| "version_refused NoStream version = (if version \<noteq> 0 then Some 0 else None)"
| "version_refused (Exact expected) version = (if expected \<noteq> version then Some expected else None)"

definition seen_at :: "inner \<Rightarrow> string \<Rightarrow> string \<Rightarrow> nat option" where
  "seen_at s execution message_id =
     (case bt_get (in_seen s) execution of None \<Rightarrow> None | Some m \<Rightarrow> bt_get m message_id)"

definition store_append ::
  "(workflow_message \<Rightarrow> nat) \<Rightarrow> scope_binding \<Rightarrow> instant \<Rightarrow> string \<Rightarrow> append_request \<Rightarrow> inner \<Rightarrow>
   (store_error + append_outcome) \<times> inner" where
  "store_append sz b now execution req s =
     (case check_payloads sz req of
        Inl err \<Rightarrow> (Inl err, s)
      | Inr _ \<Rightarrow>
          let s1 = touch_stream execution s; version = length (stream_of s1 execution)
          in case binding_appending b execution (ar_ownership req) (owner_of s1 execution) (version = 0) of
               Inl err \<Rightarrow> (Inl err, s1)
             | Inr establishing \<Rightarrow>
                 (case seen_at s1 execution (md_message_id (pm_metadata (ar_input req))) of
                    Some seen \<Rightarrow> (Inr (Duplicate seen), s1)
                  | None \<Rightarrow>
                      (case version_refused (ar_expected_version req) version of
                         Some expected \<Rightarrow> (Inl (VersionConflict expected version), s1)
                       | None \<Rightarrow> (Inr (Appended (version + Suc (length (ar_outputs req)))),
                                  commit now execution establishing req s1))))"

definition store_advance_checkpoint ::
  "scope_binding \<Rightarrow> string \<Rightarrow> checkpoint \<Rightarrow> inner \<Rightarrow> (store_error + unit) \<times> inner" where
  "store_advance_checkpoint b processor c s =
     (case refuse_instance_wide b ''advance a processor checkpoint'' of
        Inl err \<Rightarrow> (Inl err, s)
      | Inr _ \<Rightarrow> (Inr (), s\<lparr>in_checkpoints := bt_insert processor c (in_checkpoints s)\<rparr>))"

definition store_mark_published :: "scope_binding \<Rightarrow> string list \<Rightarrow> inner \<Rightarrow> inner" where
  "store_mark_published b ids s =
     (let doomed = map ob_message_id
            (filter (\<lambda>row. ob_message_id row \<in> set ids \<and> admits_partition s b (ob_partition_key row)) (in_outbox s))
      in s\<lparr>in_outbox := filter (\<lambda>row. ob_message_id row \<notin> set doomed) (in_outbox s)\<rparr>)"

subsection \<open>Claims and leases\<close>

definition store_claim_attempt ::
  "scope_binding \<Rightarrow> claim_filter \<Rightarrow> string \<Rightarrow> instant \<Rightarrow> inner \<Rightarrow> attempt_row option \<times> inner" where
  "store_claim_attempt b f owner now s =
     (case List.find (\<lambda>row. is_claimable row now \<and> filter_matches f row \<and>
                            inner_admits s b (ak_execution (row_key row))) (bt_values (in_attempts s)) of
        None \<Rightarrow> (None, s)
      | Some row \<Rightarrow>
          let attempts = bt_modify (row_key row) (row_claim owner now) (in_attempts s)
          in (bt_get attempts (row_key row), s\<lparr>in_attempts := attempts\<rparr>))"

definition store_heartbeat ::
  "scope_binding \<Rightarrow> attempt_key \<Rightarrow> string \<Rightarrow> instant \<Rightarrow> inner \<Rightarrow> (store_error + bool) \<times> inner" where
  "store_heartbeat b key owner now s =
     (case inner_check s b (ak_execution key) of
        Inl err \<Rightarrow> (Inl err, s)
      | Inr _ \<Rightarrow>
          (case bt_get (in_attempts s) key of
             None \<Rightarrow> (Inr False, s)
           | Some row \<Rightarrow>
               if \<not> is_held_by row owner now then (Inr False, s)
               else (Inr True, s\<lparr>in_attempts :=
                       bt_modify key (\<lambda>row. row\<lparr>row_claimed_at := Some now\<rparr>) (in_attempts s)\<rparr>)))"

definition store_take_decider_lease ::
  "scope_binding \<Rightarrow> string \<Rightarrow> string \<Rightarrow> instant \<Rightarrow> inner \<Rightarrow> (store_error + lease_outcome) \<times> inner" where
  "store_take_decider_lease b execution owner now s =
     (case inner_check s b execution of
        Inl err \<Rightarrow> (Inl err, s)
      | Inr _ \<Rightarrow>
          (case bt_get (in_decider_leases s) execution of
             Some lease \<Rightarrow>
               if dl_held_by lease owner now \<or> dl_expired lease now
               then (Inr (LeaseTaken (dl_take owner now lease)),
                     s\<lparr>in_decider_leases := bt_modify execution (dl_take owner now) (in_decider_leases s)\<rparr>)
               else (Inr (LeaseHeldBy (dl_holder lease) (dl_expires_at lease)), s)
           | None \<Rightarrow>
               (Inr (LeaseTaken (taken_by execution owner now)),
                s\<lparr>in_decider_leases := bt_insert execution (taken_by execution owner now) (in_decider_leases s)\<rparr>)))"

definition store_release_decider_lease ::
  "scope_binding \<Rightarrow> string \<Rightarrow> string \<Rightarrow> instant \<Rightarrow> inner \<Rightarrow> (store_error + bool) \<times> inner" where
  "store_release_decider_lease b execution owner now s =
     (case inner_check s b execution of
        Inl err \<Rightarrow> (Inl err, s)
      | Inr _ \<Rightarrow>
          (case bt_get (in_decider_leases s) execution of
             None \<Rightarrow> (Inr False, s)
           | Some lease \<Rightarrow>
               if \<not> dl_held_by lease owner now then (Inr False, s)
               else (Inr True, s\<lparr>in_decider_leases := bt_remove execution (in_decider_leases s)\<rparr>)))"

subsection \<open>Schedule slots\<close>

text \<open>The run that blocks a slot: the least id among the unfinished runs of the definition's name.\<close>

definition unfinished_runs :: "slot_key \<Rightarrow> inner \<Rightarrow> string list" where
  "unfinished_runs key s =
     map rp_execution_id (filter (\<lambda>run. rp_definition_name run = sk_name key \<and>
                                        \<not> is_terminal (state_type (rp_state run))) (bt_values (in_projections s)))"

definition blocking_run :: "slot_key \<Rightarrow> inner \<Rightarrow> string option" where
  "blocking_run key s =
     (case unfinished_runs key s of [] \<Rightarrow> None | x # xs \<Rightarrow> Some (foldl min x xs))"

definition store_admit_slot ::
  "scope_binding \<Rightarrow> slot_request \<Rightarrow> inner \<Rightarrow> (store_error + slot_admission) \<times> inner" where
  "store_admit_slot b req s =
     (case refuse_instance_wide b ''admit a schedule slot'' of
        Inl err \<Rightarrow> (Inl err, s)
      | Inr _ \<Rightarrow>
          let held = bt_get (in_slots s) (sq_key req);
              fresh = (case sq_overlap req of
                         OverlapSkip \<Rightarrow> blocking_run (sq_key req) s
                       | OverlapAllow \<Rightarrow> None);
              admit = (case fresh of
                         Some running \<Rightarrow> (Inr (SlotBlocked running), s)
                       | None \<Rightarrow>
                           (Inr Admitted,
                            s\<lparr>in_slots := bt_insert (sq_key req)
                                (slot_admitted (sq_key req) (sq_owner req) (sq_now req)
                                   (case held of None \<Rightarrow> None | Some record \<Rightarrow> sl_detail record)) (in_slots s)\<rparr>))
          in (case held of
                None \<Rightarrow> admit
              | Some record \<Rightarrow>
                  (case sl_outcome record of
                     Some outcome \<Rightarrow> (Inr (SlotSettled outcome), s)
                   | None \<Rightarrow>
                       if \<not> is_available record (sq_now req)
                       then (Inr (SlotHeld (case sl_lease_owner record of None \<Rightarrow> [] | Some owner \<Rightarrow> owner)), s)
                       else admit)))"

definition store_settle_slot ::
  "scope_binding \<Rightarrow> slot_key \<Rightarrow> string \<Rightarrow> slot_settlement \<Rightarrow> instant \<Rightarrow> inner \<Rightarrow> (store_error + unit) \<times> inner" where
  "store_settle_slot b key owner settlement now s =
     (case refuse_instance_wide b ''settle a schedule slot'' of
        Inl err \<Rightarrow> (Inl err, s)
      | Inr _ \<Rightarrow>
          (case bt_get (in_slots s) key of
             None \<Rightarrow> (Inr (), s)
           | Some record \<Rightarrow>
               if sl_lease_owner record \<noteq> Some owner then (Inr (), s)
               else (Inr (), s\<lparr>in_slots := bt_modify key (slot_settled settlement now) (in_slots s)\<rparr>)))"

subsection \<open>Retention\<close>

definition last_activity :: "recorded_message list option \<Rightarrow> instant" where
  "last_activity stream =
     (case stream of
        None \<Rightarrow> unix_epoch
      | Some messages \<Rightarrow> if messages = [] then unix_epoch else rm_recorded_at (last messages))"

definition doomed_executions :: "scope_binding \<Rightarrow> instant \<Rightarrow> nat \<Rightarrow> inner \<Rightarrow> string list" where
  "doomed_executions b before limit s =
     (let unpublished = map ob_partition_key (filter (\<lambda>row. ob_published_at row = None) (in_outbox s))
      in take limit (map fst
           (filter (\<lambda>(execution, run). inner_admits s b execution \<and>
                      prunable run (last_activity (bt_get (in_streams s) execution)) before \<and>
                      ''workflow:'' @ execution \<notin> set unpublished) (in_projections s))))"

definition forget_execution :: "string \<Rightarrow> inner \<Rightarrow> inner" where
  "forget_execution execution s =
     s\<lparr>in_streams := bt_remove execution (in_streams s), in_seen := bt_remove execution (in_seen s),
       in_projections := bt_remove execution (in_projections s),
       in_ownership := bt_remove execution (in_ownership s)\<rparr>"

definition store_prune :: "scope_binding \<Rightarrow> instant \<Rightarrow> nat \<Rightarrow> inner \<Rightarrow> pruned \<times> inner" where
  "store_prune b before limit s =
     (let doomed = doomed_executions b before limit s;
          s1 = foldl (\<lambda>s execution. forget_execution execution s) s doomed;
          attempts = bt_retain (\<lambda>key _. ak_execution key \<notin> set doomed) (in_attempts s1)
      in (\<lparr>pruned_executions = length doomed,
           pruned_attempts = length (in_attempts s1) - length attempts\<rparr>,
          s1\<lparr>in_attempts := attempts\<rparr>))"

definition outputs_at :: "stream_slice \<Rightarrow> nat \<Rightarrow> recorded_message list" where
  "outputs_at sl after =
     filter (\<lambda>m. rm_stream_version m > after \<and> rm_direction m = Output) (ss_messages sl)"

end
