(* ===== verification/Store_Inv.thy ===== *)
theory Store_Inv
  imports Store
begin

text \<open>
  The log behind the store as an interface: what an append promises the caller that folds the
  history, stated once as a locale and discharged for the store in memory. A client sees a
  message without its version and its clock; the laws say what an accepted append adds, that a
  refused one and a redelivery add nothing, and that no other execution is touched.
\<close>

definition pending_of :: "recorded_message \<Rightarrow> pending_message" where
  "pending_of m = \<lparr>pm_direction = rm_direction m, pm_message = rm_message m, pm_metadata = rm_metadata m\<rparr>"

definition request_ok :: "append_request \<Rightarrow> bool" where
  "request_ok req \<longleftrightarrow>
     pm_direction (ar_input req) = Input \<and> list_all (\<lambda>m. pm_direction m = Output) (ar_outputs req)"

lemma history_events_append [simp]: "history_events (a @ b) = history_events a @ history_events b"
  by (simp add: history_events_def map_filter_def)

lemma history_events_Cons:
  "history_events (m # ms) =
     (case (if rm_direction m = Output then message_event (rm_message m) else None) of
        None \<Rightarrow> history_events ms | Some e \<Rightarrow> e # history_events ms)"
  by (simp add: history_events_def map_filter_def split: option.splits)

lemma history_events_Nil [simp]: "history_events [] = []"
  by (simp add: history_events_def map_filter_def)

lemma history_events_pending:
  "map pending_of ms = ps \<Longrightarrow>
     history_events ms = List.map_filter (\<lambda>m. if pm_direction m = Output then message_event (pm_message m) else None) ps"
  by (auto simp: history_events_def pending_of_def map_filter_def comp_def filter_map
      split: if_splits option.splits)

lemma pending_outputs:
  "list_all (\<lambda>m. pm_direction m = Output) ps \<Longrightarrow>
     List.map_filter (\<lambda>m. if pm_direction m = Output then message_event (pm_message m) else None) ps = events_of ps"
  by (induction ps) (auto simp: map_filter_def split: option.splits)

subsection \<open>The interface\<close>

locale event_log =
  fixes log :: "'s \<Rightarrow> string \<Rightarrow> recorded_message list"
    and append_to :: "string \<Rightarrow> append_request \<Rightarrow> 's \<Rightarrow> (store_error + append_outcome) \<times> 's"
  assumes appended: "append_to x req s = (Inr (Appended v), s') \<Longrightarrow>
      map pending_of (log s' x) = map pending_of (log s x) @ ar_input req # ar_outputs req"
    and appended_at: "append_to x req s = (Inr (Appended v), s') \<Longrightarrow>
      v = length (log s' x) \<and> version_refused (ar_expected_version req) (length (log s x)) = None"
    and not_appended: "append_to x req s = (r, s') \<Longrightarrow> (\<And>v. r \<noteq> Inr (Appended v)) \<Longrightarrow> log s' y = log s y"
    and elsewhere: "append_to x req s = (r, s') \<Longrightarrow> y \<noteq> x \<Longrightarrow> log s' y = log s y"
begin

lemma appended_length:
  "append_to x req s = (Inr (Appended v), s') \<Longrightarrow>
     length (log s' x) = length (log s x) + Suc (length (ar_outputs req))"
  using arg_cong [OF appended, of x req s v s' length] by simp

lemma appended_events:
  assumes "append_to x req s = (Inr (Appended v), s')" and "request_ok req"
  shows "history_events (log s' x) = history_events (log s x) @ events_of (ar_outputs req)"
  using history_events_pending [OF appended [OF assms(1)]] history_events_pending [OF refl, of "log s x"]
    pending_outputs assms(2)
  by (simp add: request_ok_def map_filter_def)

text \<open>The state a reader folds after an append is the one the decider folded before it wrote.\<close>

lemma appended_state:
  "append_to x req s = (Inr (Appended v), s') \<Longrightarrow> request_ok req \<Longrightarrow>
     replay (history_events (log s' x)) =
       foldl evolve (replay (history_events (log s x))) (events_of (ar_outputs req))"
  by (simp add: appended_events replay_def)

text \<open>Of two decisions made on the same version at most one is accepted.\<close>

lemma lost_race:
  assumes "append_to x req s = (Inr (Appended v), s')"
    and "ar_expected_version req' \<in> {NoStream, Exact (length (log s x))}"
    and "ar_expected_version req' = NoStream \<Longrightarrow> log s x = []"
  shows "fst (append_to x req' s') \<noteq> Inr (Appended w)"
proof
  assume "fst (append_to x req' s') = Inr (Appended w)"
  then obtain s'' where "append_to x req' s' = (Inr (Appended w), s'')" by (cases "append_to x req' s'") auto
  from appended_at [OF this] assms(2) appended_length [OF assms(1)] show False
    by (auto split: if_splits)
qed

end

subsection \<open>The store in memory is such a log\<close>

lemma stream_of_touch [simp]: "stream_of (touch_stream x s) y = stream_of s y"
  by (auto simp: stream_of_def touch_stream_def entry_or_default_def split: option.splits)

lemma touch_stream_frame [simp]:
  "in_seen (touch_stream x s) = in_seen s" "in_projections (touch_stream x s) = in_projections s"
  "in_outbox (touch_stream x s) = in_outbox s" "in_checkpoints (touch_stream x s) = in_checkpoints s"
  "in_attempts (touch_stream x s) = in_attempts s" "in_slots (touch_stream x s) = in_slots s"
  "in_decider_leases (touch_stream x s) = in_decider_leases s" "in_timers (touch_stream x s) = in_timers s"
  "in_ownership (touch_stream x s) = in_ownership s" "owner_of (touch_stream x s) y = owner_of s y"
  "seen_at (touch_stream x s) y i = seen_at s y i"
  by (simp_all add: touch_stream_def owner_of_def seen_at_def)

lemma holds_stream_of: "holds s x \<longleftrightarrow> stream_of s x \<noteq> []"
  by (auto simp: holds_def stream_of_def split: option.splits)

lemma holds_touch [simp]: "holds (touch_stream x s) y = holds s y"
  by (simp add: holds_stream_of)

lemma length_push_messages [simp]: "length (push_messages v now ms) = length ms"
  by (induction ms arbitrary: v) simp_all

lemma pending_push_messages [simp]: "map pending_of (push_messages v now ms) = ms"
  by (induction ms arbitrary: v) (simp_all add: pending_of_def)

lemma push_messages_versions:
  "map rm_stream_version (push_messages v now ms) = [Suc v..<Suc (v + length ms)]"
  by (induction ms arbitrary: v) (simp_all add: upt_conv_Cons del: upt_Suc)

lemma stream_of_commit:
  "stream_of (commit now x establishing req s) y =
     (if y = x then stream_of s x @ push_messages (length (stream_of s x)) now (ar_input req # ar_outputs req)
      else stream_of s y)"
  by (simp add: commit_def stream_of_def Let_def)

text \<open>An append either commits, with every guard passed, or leaves at most an empty stream behind.\<close>

lemma store_append_cases:
  assumes "store_append sz b now x req s = (r, s')"
  obtains (committed) establishing where
      "r = Inr (Appended (length (stream_of s x) + Suc (length (ar_outputs req))))"
      "s' = commit now x establishing req (touch_stream x s)"
      "check_payloads sz req = Inr ()"
      "binding_appending b x (ar_ownership req) (owner_of s x) (stream_of s x = []) = Inr establishing"
      "seen_at s x (md_message_id (pm_metadata (ar_input req))) = None"
      "version_refused (ar_expected_version req) (length (stream_of s x)) = None"
  | (duplicate) seen establishing where
      "r = Inr (Duplicate seen)" "s' = touch_stream x s"
      "seen_at s x (md_message_id (pm_metadata (ar_input req))) = Some seen"
      "binding_appending b x (ar_ownership req) (owner_of s x) (stream_of s x = []) = Inr establishing"
  | (refused) err where "r = Inl err" "s' = s \<or> s' = touch_stream x s"
proof (cases "check_payloads sz req")
  case (Inl err)
  with assms show thesis by (intro refused [of err]) (auto simp: store_append_def)
next
  case paid: (Inr u)
  then have u: "check_payloads sz req = Inr ()" by simp
  show thesis
  proof (cases "binding_appending b x (ar_ownership req) (owner_of s x) (stream_of s x = [])")
    case (Inl err)
    with assms u show thesis by (intro refused [of err]) (auto simp: store_append_def Let_def)
  next
    case est: (Inr establishing)
    show thesis
    proof (cases "seen_at s x (md_message_id (pm_metadata (ar_input req)))")
      case (Some seen)
      with assms u est show thesis by (intro duplicate [of seen establishing]) (auto simp: store_append_def Let_def)
    next
      case new: None
      show thesis
      proof (cases "version_refused (ar_expected_version req) (length (stream_of s x))")
        case (Some v)
        with assms u est new show thesis
          by (intro refused [of "VersionConflict v (length (stream_of s x))"]) (auto simp: store_append_def Let_def)
      next
        case None
        with assms u est new show thesis by (intro committed [of establishing]) (auto simp: store_append_def Let_def)
      qed
    qed
  qed
qed

lemma store_appended:
  assumes "store_append sz b now x req s = (Inr (Appended v), s')"
  obtains establishing where
    "v = length (stream_of s x) + Suc (length (ar_outputs req))"
    "s' = commit now x establishing req (touch_stream x s)"
    "check_payloads sz req = Inr ()"
    "binding_appending b x (ar_ownership req) (owner_of s x) (stream_of s x = []) = Inr establishing"
    "seen_at s x (md_message_id (pm_metadata (ar_input req))) = None"
    "version_refused (ar_expected_version req) (length (stream_of s x)) = None"
  by (rule store_append_cases [OF assms]) (auto intro: that)

lemma store_not_appended:
  assumes "store_append sz b now x req s = (r, s')" and "\<And>v. r \<noteq> Inr (Appended v)"
  shows "s' = s \<or> s' = touch_stream x s"
  by (rule store_append_cases [OF assms(1)]) (use assms(2) in auto)

interpretation memory_log: event_log stream_of "store_append sz b now" for sz b now
proof
  fix x req s v s'
  assume a: "store_append sz b now x req s = (Inr (Appended v), s')"
  show "map pending_of (stream_of s' x) = map pending_of (stream_of s x) @ ar_input req # ar_outputs req"
    by (rule store_appended [OF a]) (simp add: stream_of_commit del: push_messages.simps)
  show "v = length (stream_of s' x) \<and> version_refused (ar_expected_version req) (length (stream_of s x)) = None"
    by (rule store_appended [OF a]) (simp add: stream_of_commit del: push_messages.simps)
next
  fix x req s r s' y
  assume a: "store_append sz b now x req s = (r, s')"
  show "stream_of s' y = stream_of s y" if "\<And>v. r \<noteq> Inr (Appended v)"
    using store_not_appended [OF a that] by auto
  show "stream_of s' y = stream_of s y" if "y \<noteq> x"
    by (rule store_append_cases [OF a]) (use that in \<open>auto simp: stream_of_commit\<close>)
qed

section \<open>The invariant of the store\<close>

text \<open>
  Every operation of the store as a step, and the invariant all of them keep: versions count the
  stream from one, the inbox is exactly the inputs of the stream, ownership and projections stand
  only beside a history, and the rows of the claim and timer tables stand under their own keys.
\<close>

subsection \<open>Steps\<close>

fun write_execution :: "attempt_write \<Rightarrow> string" where
  "write_execution (Dispatch row) = ak_execution (row_key row)"
| "write_execution (Park key) = ak_execution key"
| "write_execution (Retire key) = ak_execution key"

fun timer_about :: "string \<Rightarrow> timer_write \<Rightarrow> bool" where
  "timer_about x (ScheduleTimer t) = (tm_execution t = x)"
| "timer_about x (CancelTimer i) = True"
| "timer_about x (FireTimer i) = True"

text \<open>A request that writes about the execution it is appended to, and about no other.\<close>

definition request_about :: "string \<Rightarrow> append_request \<Rightarrow> bool" where
  "request_about x req \<longleftrightarrow>
     request_ok req \<and> list_all (\<lambda>w. write_execution w = x) (ar_attempts req) \<and>
     list_all (timer_about x) (ar_timers req) \<and>
     list_all (\<lambda>row. ob_partition_key row = ''workflow:'' @ x) (ar_outbox req)"

text \<open>One operation through a handle with the binding \<open>b\<close>.\<close>

inductive store_step :: "(workflow_message \<Rightarrow> nat) \<Rightarrow> scope_binding \<Rightarrow> inner \<Rightarrow> inner \<Rightarrow> bool" for sz b where
  append: "request_about x req \<Longrightarrow> store_append sz b now x req s = (r, s') \<Longrightarrow> store_step sz b s s'"
| claim: "store_claim_attempt b f owner now s = (row, s') \<Longrightarrow> store_step sz b s s'"
| heartbeat: "store_heartbeat b key owner now s = (ok, s') \<Longrightarrow> store_step sz b s s'"
| take_lease: "store_take_decider_lease b x owner now s = (lease, s') \<Longrightarrow> store_step sz b s s'"
| release_lease: "store_release_decider_lease b x owner now s = (ok, s') \<Longrightarrow> store_step sz b s s'"
| admit: "store_admit_slot b sreq s = (admission, s') \<Longrightarrow> store_step sz b s s'"
| settle: "store_settle_slot b skey owner settlement now s = (ok, s') \<Longrightarrow> store_step sz b s s'"
| publish: "store_step sz b s (store_mark_published b ids s)"
| advance: "store_advance_checkpoint b processor c s = (ok, s') \<Longrightarrow> store_step sz b s s'"

text \<open>Any number of operations, through any handles, with no retention sweep among them.\<close>

inductive store_steps :: "(workflow_message \<Rightarrow> nat) \<Rightarrow> inner \<Rightarrow> inner \<Rightarrow> bool" for sz s where
  stay: "store_steps sz s s"
| step: "store_steps sz s s' \<Longrightarrow> store_step sz b s' s'' \<Longrightarrow> store_steps sz s s''"

inductive store_reachable :: "(workflow_message \<Rightarrow> nat) \<Rightarrow> inner \<Rightarrow> bool" for sz where
  empty: "store_reachable sz inner_empty"
| step: "store_reachable sz s \<Longrightarrow> store_step sz b s s' \<Longrightarrow> store_reachable sz s'"
| prune: "store_reachable sz s \<Longrightarrow> store_prune b before limit s = (p, s') \<Longrightarrow> store_reachable sz s'"

subsection \<open>The invariant\<close>

definition versions_ok :: "recorded_message list \<Rightarrow> bool" where
  "versions_ok ms \<longleftrightarrow> map rm_stream_version ms = [1..<Suc (length ms)]"

definition input_at :: "recorded_message list \<Rightarrow> string \<Rightarrow> nat \<Rightarrow> bool" where
  "input_at ms i v \<longleftrightarrow>
     1 \<le> v \<and> v \<le> length ms \<and> rm_direction (ms ! (v - 1)) = Input \<and>
     md_message_id (rm_metadata (ms ! (v - 1))) = i"

definition inbox_ok :: "inner \<Rightarrow> string \<Rightarrow> bool" where
  "inbox_ok s x \<longleftrightarrow> (\<forall>i v. seen_at s x i = Some v \<longleftrightarrow> input_at (stream_of s x) i v)"

definition rows_ok :: "(attempt_key, attempt_row) btree \<Rightarrow> bool" where
  "rows_ok m \<longleftrightarrow> bt_ok m \<and> (\<forall>k row. bt_get m k = Some row \<longrightarrow> row_key row = k)"

definition timers_ok :: "(string \<times> string, timer) btree \<Rightarrow> bool" where
  "timers_ok m \<longleftrightarrow> bt_ok m \<and> (\<forall>x i t. bt_get m (x, i) = Some t \<longrightarrow> tm_execution t = x \<and> tm_timer_id t = i)"

definition tables_ok :: "inner \<Rightarrow> bool" where
  "tables_ok s \<longleftrightarrow> rows_ok (in_attempts s) \<and> timers_ok (in_timers s) \<and> bt_ok (in_projections s) \<and>
     bt_ok (in_slots s) \<and> bt_ok (in_ownership s) \<and> bt_ok (in_streams s)"

definition history_ok :: "inner \<Rightarrow> string \<Rightarrow> bool" where
  "history_ok s x \<longleftrightarrow>
     versions_ok (stream_of s x) \<and> inbox_ok s x \<and>
     (owner_of s x \<noteq> None \<longrightarrow> holds s x) \<and> (bt_get (in_projections s) x \<noteq> None \<longrightarrow> holds s x)"

definition store_ok :: "inner \<Rightarrow> bool" where
  "store_ok s \<longleftrightarrow> tables_ok s \<and> (\<forall>x. history_ok s x)"

lemma versions_push:
  "versions_ok ms \<Longrightarrow> versions_ok (ms @ push_messages (length ms) now ps)"
  by (simp add: versions_ok_def push_messages_versions upt_add_eq_append [symmetric] del: upt_Suc)
    (metis Suc_le_mono add_Suc le0 le_add1 plus_1_eq_Suc upt_add_eq_append)

lemma rows_ok_write: "rows_ok m \<Longrightarrow> rows_ok (apply_attempt_write w m)"
  by (cases w) (auto simp: rows_ok_def row_park_def split: if_splits)

lemma rows_ok_writes: "rows_ok m \<Longrightarrow> rows_ok (foldl (\<lambda>m w. apply_attempt_write w m) m ws)"
  by (induction ws arbitrary: m) (simp_all add: rows_ok_write)

lemma timers_ok_write: "timers_ok m \<Longrightarrow> timers_ok (apply_timer_write x w m)"
  by (cases w) (auto simp: timers_ok_def split: if_splits)

lemma timers_ok_writes: "timers_ok m \<Longrightarrow> timers_ok (foldl (\<lambda>m w. apply_timer_write x w m) m ws)"
  by (induction ws arbitrary: m) (simp_all add: timers_ok_write)

lemma rows_ok_modify: "rows_ok m \<Longrightarrow> (\<And>row. row_key (f row) = row_key row) \<Longrightarrow> rows_ok (bt_modify k f m)"
  by (auto simp: rows_ok_def split: if_splits)

lemma input_at_append:
  "input_at (ms @ ns) i v \<longleftrightarrow> input_at ms i v \<or> (length ms < v \<and> input_at ns i (v - length ms))"
  by (auto simp: input_at_def nth_append)

lemma input_at_push:
  assumes "request_ok req"
  shows "input_at (push_messages n now (ar_input req # ar_outputs req)) i v \<longleftrightarrow>
           v = 1 \<and> i = md_message_id (pm_metadata (ar_input req))"
proof -
  have dir: "rm_direction (push_messages n now ps ! k) = pm_direction (ps ! k)" if "k < length ps" for n ps k
    using that by (induction ps arbitrary: n k) (auto simp: nth_Cons split: nat.splits)
  have out: "pm_direction (ar_outputs req ! k) = Output" if "k < length (ar_outputs req)" for k
    using assms that by (auto simp: request_ok_def list_all_length)
  show ?thesis
    using assms
    by (cases "v - 1") (auto simp: input_at_def request_ok_def dir out)
qed

lemma push_messages_nonempty: "push_messages n now (m # ms) \<noteq> []"
  by simp

lemma history_commit:
  assumes "request_ok req" and "\<forall>y. history_ok s y"
    and new: "seen_at s x (md_message_id (pm_metadata (ar_input req))) = None"
  shows "history_ok (commit now x establishing req s) y"
proof -
  let ?s' = "commit now x establishing req s"
  have seen: "seen_at ?s' z i = (if z = x \<and> i = md_message_id (pm_metadata (ar_input req))
      then Some (Suc (length (stream_of s x))) else seen_at s z i)" for z i
    by (auto simp: seen_at_def commit_def Let_def split: option.splits)
  have frame: "z \<noteq> x \<Longrightarrow> owner_of ?s' z = owner_of s z"
    "z \<noteq> x \<Longrightarrow> bt_get (in_projections ?s') z = bt_get (in_projections s) z" for z
    by (auto simp: commit_def Let_def owner_of_def split: option.splits)
  from assms(2) have old: "history_ok s y" ..
  show ?thesis
  proof (cases "y = x")
    case False
    with old show ?thesis
      by (simp add: history_ok_def inbox_ok_def seen frame holds_stream_of stream_of_commit)
  next
    case True
    have "input_at (stream_of s x) i v \<Longrightarrow> v \<le> length (stream_of s x)" for i v
      by (simp add: input_at_def)
    moreover have "\<not> input_at (stream_of s x) (md_message_id (pm_metadata (ar_input req))) v" for v
      using new assms(2) by (metis history_ok_def inbox_ok_def option.distinct(1))
    ultimately show ?thesis
      using old True
      by (auto simp: history_ok_def inbox_ok_def seen holds_stream_of stream_of_commit versions_push
          input_at_append input_at_push [OF assms(1)] push_messages_nonempty simp del: push_messages.simps)
  qed
qed

lemma commit_tables:
  "tables_ok s \<Longrightarrow> tables_ok (commit now x establishing req s)"
  by (auto simp: tables_ok_def commit_def Let_def rows_ok_writes timers_ok_writes split: option.splits)

lemma store_ok_touch:
  assumes "store_ok s"
  shows "store_ok (touch_stream x s)"
proof -
  have "history_ok (touch_stream x s) y = history_ok s y" for y
    by (simp add: history_ok_def inbox_ok_def)
  moreover have "tables_ok s \<Longrightarrow> tables_ok (touch_stream x s)"
    by (auto simp: tables_ok_def touch_stream_def entry_or_default_def split: option.splits)
  ultimately show ?thesis using assms by (simp add: store_ok_def)
qed

lemma append_ok:
  assumes "store_ok s" and "request_ok req" and "store_append sz b now x req s = (r, s')"
  shows "store_ok s'"
  using assms(3)
proof (cases rule: store_append_cases)
  case (committed establishing)
  have touched: "store_ok (touch_stream x s)" using assms(1) by (rule store_ok_touch)
  then have "history_ok (commit now x establishing req (touch_stream x s)) y" for y
    using assms(2) committed(5) by (intro history_commit) (auto simp: store_ok_def)
  with touched committed(2) show ?thesis
    by (simp add: store_ok_def commit_tables)
qed (use assms(1) store_ok_touch in auto)

text \<open>The other steps leave the histories, the inbox, the owners and the projections alone.\<close>

definition same_history :: "inner \<Rightarrow> inner \<Rightarrow> bool" where
  "same_history s s' \<longleftrightarrow>
     in_streams s' = in_streams s \<and> in_seen s' = in_seen s \<and> in_projections s' = in_projections s \<and>
     in_ownership s' = in_ownership s"

lemma same_history_refl [simp]: "same_history s s"
  by (simp add: same_history_def)

lemma same_history_frame:
  assumes "same_history s s'"
  shows "stream_of s' x = stream_of s x" "holds s' x = holds s x" "owner_of s' x = owner_of s x"
    "seen_at s' x i = seen_at s x i" "inner_admits s' b x = inner_admits s b x"
    "inner_check s' b x = inner_check s b x"
  using assms by (simp_all add: same_history_def stream_of_def holds_def owner_of_def seen_at_def
      inner_admits_def inner_check_def)

lemma same_history_ok:
  assumes "same_history s s'" and "store_ok s" and "tables_ok s'"
  shows "store_ok s'"
proof -
  have "in_projections s' = in_projections s" using assms(1) by (simp add: same_history_def)
  with assms(2,3) show ?thesis
    by (simp add: store_ok_def history_ok_def inbox_ok_def same_history_frame [OF assms(1)])
qed

lemma tables_ok_updates:
  "tables_ok s \<Longrightarrow> rows_ok m \<Longrightarrow> tables_ok (s\<lparr>in_attempts := m\<rparr>)"
  "tables_ok s \<Longrightarrow> bt_ok sl \<Longrightarrow> tables_ok (s\<lparr>in_slots := sl\<rparr>)"
  "tables_ok s \<Longrightarrow> tables_ok (s\<lparr>in_decider_leases := l\<rparr>)"
  "tables_ok s \<Longrightarrow> rows_ok (in_attempts s)" "tables_ok s \<Longrightarrow> bt_ok (in_slots s)"
  by (simp_all add: tables_ok_def)

definition quiet :: "inner \<Rightarrow> inner \<Rightarrow> bool" where
  "quiet s s' \<longleftrightarrow> same_history s s' \<and> (tables_ok s \<longrightarrow> tables_ok s')"

lemma quiet_refl [simp]: "quiet s s"
  by (simp add: quiet_def)

lemma quiet_updates:
  "(\<And>row. row_key (f row) = row_key row) \<Longrightarrow> quiet s (s\<lparr>in_attempts := bt_modify k f (in_attempts s)\<rparr>)"
  "quiet s (s\<lparr>in_slots := bt_insert sk r (in_slots s)\<rparr>)"
  "quiet s (s\<lparr>in_slots := bt_modify sk g (in_slots s)\<rparr>)"
  "quiet s (s\<lparr>in_decider_leases := l\<rparr>)" "quiet s (s\<lparr>in_outbox := ob\<rparr>)"
  "quiet s (s\<lparr>in_checkpoints := cs\<rparr>)"
  by (simp_all add: quiet_def same_history_def tables_ok_def rows_ok_modify)

lemma claim_step: "store_claim_attempt b f owner now s = (row, s') \<Longrightarrow> quiet s s'"
  by (auto simp: store_claim_attempt_def Let_def split: option.splits intro!: quiet_updates)

lemma heartbeat_step: "store_heartbeat b key owner now s = (ok, s') \<Longrightarrow> quiet s s'"
  by (auto simp: store_heartbeat_def split: option.splits sum.splits if_splits intro!: quiet_updates)

lemma take_lease_step: "store_take_decider_lease b x owner now s = (r, s') \<Longrightarrow> quiet s s'"
  by (auto simp: store_take_decider_lease_def split: option.splits sum.splits if_splits intro!: quiet_updates)

lemma release_lease_step: "store_release_decider_lease b x owner now s = (r, s') \<Longrightarrow> quiet s s'"
  by (auto simp: store_release_decider_lease_def split: option.splits sum.splits if_splits intro!: quiet_updates)

lemma settle_step: "store_settle_slot b skey owner settlement now s = (r, s') \<Longrightarrow> quiet s s'"
  by (auto simp: store_settle_slot_def split: option.splits sum.splits if_splits intro!: quiet_updates)

text \<open>An admission takes the slot with every guard passed or changes nothing.\<close>

lemma store_admit_cases:
  assumes "store_admit_slot b req s = (r, s')"
  obtains (admitted) detail where "r = Inr Admitted"
      "s' = s\<lparr>in_slots := bt_insert (sq_key req) (slot_admitted (sq_key req) (sq_owner req) (sq_now req) detail) (in_slots s)\<rparr>"
      "\<And>record. bt_get (in_slots s) (sq_key req) = Some record \<Longrightarrow> is_available record (sq_now req)"
      "sq_overlap req = OverlapSkip \<Longrightarrow> blocking_run (sq_key req) s = None" "bound_scope b = Global"
  | (unchanged) "s' = s" "r \<noteq> Inr Admitted"
proof (cases "refuse_instance_wide b ''admit a schedule slot''")
  case (Inl err)
  with assms show thesis by (intro unchanged) (auto simp: store_admit_slot_def)
next
  case ok: (Inr u)
  then have "bound_scope b = Global" by (cases "bound_scope b") (auto simp: refuse_instance_wide_def)
  with assms ok show thesis
    by (cases "bt_get (in_slots s) (sq_key req)"; cases "sq_overlap req"; cases "blocking_run (sq_key req) s")
      (force simp: store_admit_slot_def Let_def is_available_def split: option.splits if_splits
        intro: admitted unchanged)+
qed

lemma admit_step: "store_admit_slot b sreq s = (r, s') \<Longrightarrow> quiet s s'"
  by (erule store_admit_cases) (auto intro: quiet_updates)

lemma publish_step: "quiet s (store_mark_published b ids s)"
  by (simp add: store_mark_published_def Let_def quiet_updates)

lemma advance_step: "store_advance_checkpoint b processor c s = (ok, s') \<Longrightarrow> quiet s s'"
  by (auto simp: store_advance_checkpoint_def split: sum.splits intro!: quiet_updates)

lemmas quiet_steps = claim_step heartbeat_step take_lease_step release_lease_step admit_step settle_step
  publish_step advance_step

lemma quiet_ok: "quiet s s' \<Longrightarrow> store_ok s \<Longrightarrow> store_ok s'"
  by (auto simp: quiet_def store_ok_def [of s] intro: same_history_ok)

lemma store_step_ok:
  assumes "store_step sz b s s'" and "store_ok s"
  shows "store_ok s'"
  using assms
proof (cases rule: store_step.cases)
  case (append x req now r)
  with assms(2) show ?thesis by (auto simp: request_about_def intro: append_ok)
qed (use assms(2) in \<open>auto intro: quiet_steps quiet_ok\<close>)

subsection \<open>Retention\<close>

lemma forget_executions:
  "foldl (\<lambda>s x. forget_execution x s) s xs =
     s\<lparr>in_streams := foldl (\<lambda>m x. bt_remove x m) (in_streams s) xs,
       in_seen := foldl (\<lambda>m x. bt_remove x m) (in_seen s) xs,
       in_projections := foldl (\<lambda>m x. bt_remove x m) (in_projections s) xs,
       in_ownership := foldl (\<lambda>m x. bt_remove x m) (in_ownership s) xs\<rparr>"
  by (induction xs arbitrary: s) (simp_all add: forget_execution_def)

lemma bt_get_removes: "bt_get (foldl (\<lambda>m x. bt_remove x m) m xs) k = (if k \<in> set xs then None else bt_get m k)"
  by (induction xs arbitrary: m) auto

lemma bt_ok_removes: "bt_ok m \<Longrightarrow> bt_ok (foldl (\<lambda>m x. bt_remove x m) m xs)"
  by (induction xs arbitrary: m) auto

lemma bt_get_retain:
  "bt_ok m \<Longrightarrow> bt_get (bt_retain P m) k = (case bt_get m k of None \<Rightarrow> None | Some v \<Rightarrow> if P k v then Some v else None)"
proof (induction m)
  case (Cons kv m)
  then show ?case
    by (cases kv) (auto simp: bt_retain_def bt_ok_Cons bt_get_None_iff split: option.splits dest!: bt_get_in_set)
qed (simp add: bt_retain_def)

text \<open>What a sweep leaves of every table, by execution.\<close>

lemma prune_tables:
  assumes "store_prune b before limit s = (p, s')"
  defines "gone \<equiv> set (doomed_executions b before limit s)"
  shows "stream_of s' x = (if x \<in> gone then [] else stream_of s x)"
    and "owner_of s' x = (if x \<in> gone then None else owner_of s x)"
    and "seen_at s' x i = (if x \<in> gone then None else seen_at s x i)"
    and "bt_get (in_projections s') x = (if x \<in> gone then None else bt_get (in_projections s) x)"
    and "in_attempts s' = bt_retain (\<lambda>key _. ak_execution key \<notin> gone) (in_attempts s)"
    and "in_timers s' = in_timers s" and "in_decider_leases s' = in_decider_leases s"
    and "in_outbox s' = in_outbox s" and "in_slots s' = in_slots s"
  using assms
  by (auto simp: store_prune_def Let_def forget_executions stream_of_def owner_of_def seen_at_def bt_get_removes)

lemma prune_ok:
  assumes "store_prune b before limit s = (p, s')" and "store_ok s"
  shows "store_ok s'"
proof -
  have "rows_ok (in_attempts s')"
    using assms(2) by (auto simp: prune_tables [OF assms(1)] store_ok_def tables_ok_def rows_ok_def
        bt_get_retain split: option.splits if_splits)
  moreover have "bt_ok (in_projections s')" "bt_ok (in_ownership s')" "bt_ok (in_streams s')"
    using assms by (auto simp: store_prune_def Let_def forget_executions store_ok_def tables_ok_def bt_ok_removes)
  ultimately have "tables_ok s'"
    using assms(2) by (simp add: tables_ok_def store_ok_def prune_tables [OF assms(1)])
  moreover have "history_ok s' x" for x
  proof (cases "x \<in> set (doomed_executions b before limit s)")
    case True
    then show ?thesis
      by (simp add: history_ok_def inbox_ok_def holds_stream_of prune_tables [OF assms(1)]
          versions_ok_def input_at_def)
  next
    case False
    with assms(2) show ?thesis
      by (simp add: store_ok_def history_ok_def inbox_ok_def holds_stream_of prune_tables [OF assms(1)])
  qed
  ultimately show ?thesis by (simp add: store_ok_def)
qed

lemma store_reachable_ok: "store_reachable sz s \<Longrightarrow> store_ok s"
proof (induction rule: store_reachable.induct)
  case empty
  show ?case
    by (auto simp: store_ok_def tables_ok_def history_ok_def inner_empty_def rows_ok_def timers_ok_def
        versions_ok_def inbox_ok_def stream_of_def seen_at_def owner_of_def input_at_def)
qed (auto intro: store_step_ok prune_ok)

end
