(* ===== verification/Store_Props.thy ===== *)
theory Store_Props
  imports Store_Inv
begin

text \<open>
  The properties of the store: what an append adds and that nothing else changes, that a
  redelivery is recognised for ever, that histories and owners are never rewritten, that a claim,
  a slot and a decider's lease have one holder, that no operation crosses its binding, what a
  retention sweep forgets, and how pages cover a stream.
\<close>

subsection \<open>What every step keeps\<close>

definition keeps :: "inner \<Rightarrow> inner \<Rightarrow> string \<Rightarrow> bool" where
  "keeps s s' x \<longleftrightarrow>
     (\<exists>ms. stream_of s' x = stream_of s x @ ms) \<and>
     (\<forall>i v. seen_at s x i = Some v \<longrightarrow> seen_at s' x i = Some v) \<and>
     (holds s x \<longrightarrow> owner_of s' x = owner_of s x)"

lemma keeps_trans: "keeps s s' x \<Longrightarrow> keeps s' s'' x \<Longrightarrow> keeps s s'' x"
  by (auto simp: keeps_def holds_stream_of)

lemma same_history_keeps: "same_history s s' \<Longrightarrow> keeps s s' x"
  by (simp add: keeps_def same_history_frame)

lemma established_is_new:
  "binding_appending b x wanted (owner_of s x) fresh = Inr (Some owner) \<Longrightarrow> fresh"
  by (cases b; cases "bound_scope b"; cases "owner_of s x"; cases wanted)
    (auto simp: binding_appending_def binding_check_def binding_admits_def split: if_splits)

lemma touch_stream_rest: "(touch_stream x s)\<lparr>in_streams := in_streams s\<rparr> = s"
  by (simp add: touch_stream_def)

lemma appending_establishes:
  "binding_appending b x wanted recorded fresh = Inr establishing \<Longrightarrow>
     (if establishing \<noteq> None then establishing else recorded) =
     (if fresh \<and> wanted \<noteq> None then wanted else recorded)"
  by (cases "bound_scope b"; cases recorded; cases wanted)
    (auto simp: binding_appending_def binding_check_def binding_admits_def split: if_splits)

lemma owner_of_commit:
  "owner_of (commit now x establishing req s) y =
     (if y = x \<and> establishing \<noteq> None then establishing else owner_of s y)"
  by (auto simp: commit_def owner_of_def Let_def split: option.splits)

lemma seen_at_commit:
  "seen_at (commit now x establishing req s) y i =
     (if y = x \<and> i = md_message_id (pm_metadata (ar_input req)) then Some (Suc (length (stream_of s x)))
      else seen_at s y i)"
  by (auto simp: seen_at_def commit_def Let_def split: option.splits)

lemma append_keeps:
  assumes "store_append sz b now x req s = (r, s')"
  shows "keeps s s' y"
  using assms
proof (cases rule: store_append_cases)
  case (committed establishing)
  have "owner_of s' y = owner_of s y" if "holds s y"
    using committed(2,4) that
    by (cases establishing) (auto simp: owner_of_commit holds_stream_of dest: established_is_new)
  with committed(2,5) show ?thesis
    by (auto simp: keeps_def stream_of_commit seen_at_commit)
qed (auto simp: keeps_def)

lemma step_keeps:
  assumes "store_step sz b s s'"
  shows "keeps s s' x"
  using assms
proof (cases rule: store_step.cases)
  case (append x req now r)
  then show ?thesis by (blast intro: append_keeps)
qed (use quiet_steps in \<open>auto simp: quiet_def intro!: same_history_keeps\<close>)

lemma steps_keep: "store_steps sz s s' \<Longrightarrow> keeps s s' x"
proof (induction rule: store_steps.induct)
  case stay
  show ?case by (simp add: keeps_def)
next
  case (step s' b s'')
  then show ?case by (blast intro: keeps_trans step_keeps)
qed

lemma steps_reachable: "store_steps sz s s' \<Longrightarrow> store_reachable sz s \<Longrightarrow> store_reachable sz s'"
  by (induction rule: store_steps.induct) (auto intro: store_reachable.step)

text \<open>C12: An append is all or nothing. Accepted, it adds exactly its input and its outputs to the one
  stream and with them the projection, the inbox entry, the outbox rows, the claim and timer rows and
  the checkpoint the request carries, and no table holds anything else that is new; refused or
  recognised as a redelivery it leaves every table as it was, but for an empty stream entry the look-up
  may leave.\<close>

theorem append_is_all_or_nothing:
  assumes "store_append sz b now x req s = (r, s')"
  shows "case r of
           Inr (Appended v) \<Rightarrow>
             map pending_of (stream_of s' x) = map pending_of (stream_of s x) @ ar_input req # ar_outputs req \<and>
             v = length (stream_of s' x) \<and>
             seen_at s' x (md_message_id (pm_metadata (ar_input req))) = Some (Suc (length (stream_of s x))) \<and>
             (\<forall>y i. (y, i) \<noteq> (x, md_message_id (pm_metadata (ar_input req))) \<longrightarrow> seen_at s' y i = seen_at s y i) \<and>
             in_projections s' = bt_insert x (ar_projection req) (in_projections s) \<and>
             in_outbox s' = in_outbox s @ ar_outbox req \<and>
             in_attempts s' = foldl (\<lambda>m w. apply_attempt_write w m) (in_attempts s) (ar_attempts req) \<and>
             in_timers s' = foldl (\<lambda>m w. apply_timer_write x w m) (in_timers s) (ar_timers req) \<and>
             in_checkpoints s' = (case ar_checkpoint req of None \<Rightarrow> in_checkpoints s
                                  | Some (processor, c) \<Rightarrow> bt_insert processor c (in_checkpoints s)) \<and>
             in_slots s' = in_slots s \<and> in_decider_leases s' = in_decider_leases s \<and>
             owner_of s' x = (if stream_of s x = [] \<and> ar_ownership req \<noteq> None then ar_ownership req else owner_of s x) \<and>
             (\<forall>y. y \<noteq> x \<longrightarrow> stream_of s' y = stream_of s y \<and> owner_of s' y = owner_of s y)
         | _ \<Rightarrow> (s' = s \<or> s' = touch_stream x s) \<and> s'\<lparr>in_streams := in_streams s\<rparr> = s \<and>
             (\<forall>y. stream_of s' y = stream_of s y \<and> holds s' y = holds s y)"
  using assms
proof (cases rule: store_append_cases)
  case (committed establishing)
  from memory_log.appended [OF assms [unfolded committed(1)]]
  have stream: "map pending_of (stream_of s' x) = map pending_of (stream_of s x) @ ar_input req # ar_outputs req" .
  have owner: "owner_of s' x = (if stream_of s x = [] \<and> ar_ownership req \<noteq> None then ar_ownership req else owner_of s x)"
    using appending_establishes [OF committed(4)] unfolding committed(2)
    by (auto simp: owner_of_commit holds_stream_of)
  have tables: "in_projections s' = bt_insert x (ar_projection req) (in_projections s)"
    "in_outbox s' = in_outbox s @ ar_outbox req"
    "in_attempts s' = foldl (\<lambda>m w. apply_attempt_write w m) (in_attempts s) (ar_attempts req)"
    "in_timers s' = foldl (\<lambda>m w. apply_timer_write x w m) (in_timers s) (ar_timers req)"
    "in_checkpoints s' = (case ar_checkpoint req of None \<Rightarrow> in_checkpoints s
                          | Some (processor, c) \<Rightarrow> bt_insert processor c (in_checkpoints s))"
    "in_slots s' = in_slots s" "in_decider_leases s' = in_decider_leases s"
    unfolding committed(2) by (simp_all add: commit_def Let_def cong: option.case_cong)
  show ?thesis
    using stream owner tables committed(1,2)
    by (simp add: seen_at_commit stream_of_commit owner_of_commit del: push_messages.simps)
qed (auto simp: touch_stream_rest)

text \<open>An input the store has decided on is recognised for ever after: whatever happens between, by
  whom and through which handle, the same message id is never appended again, and the answer to
  its redelivery names the version it landed at.\<close>

theorem redelivery_is_recognised:
  assumes "store_append sz b now x req s = (Inr (Appended v), s1)" and "store_steps sz s1 s2"
    and "md_message_id (pm_metadata (ar_input again)) = md_message_id (pm_metadata (ar_input req))"
  shows "(\<forall>w. fst (store_append sz b2 later x again s2) \<noteq> Inr (Appended w)) \<and>
         (inner_admits s1 b2 x \<and> check_payloads sz again = Inr () \<and> ar_ownership again = None \<longrightarrow>
            fst (store_append sz b2 later x again s2) = Inr (Duplicate (v - length (ar_outputs req))))"
proof -
  let ?id = "md_message_id (pm_metadata (ar_input req))"
  obtain establishing where c: "v = length (stream_of s x) + Suc (length (ar_outputs req))"
      "s1 = commit now x establishing req (touch_stream x s)"
      "binding_appending b x (ar_ownership req) (owner_of s x) (stream_of s x = []) = Inr establishing"
    by (rule store_appended [OF assms(1)]) blast
  have s1: "holds s1 x" "seen_at s1 x ?id = Some (Suc (length (stream_of s x)))"
    by (simp_all add: c(2) holds_stream_of stream_of_commit seen_at_commit)
  from steps_keep [OF assms(2), of x] s1 have s2: "holds s2 x" "owner_of s2 x = owner_of s1 x"
      "seen_at s2 x ?id = Some (Suc (length (stream_of s x)))"
    by (auto simp: keeps_def holds_stream_of)
  show ?thesis
  proof (intro conjI allI impI)
    fix w
    show "fst (store_append sz b2 later x again s2) \<noteq> Inr (Appended w)"
    proof
      assume "fst (store_append sz b2 later x again s2) = Inr (Appended w)"
      then obtain s3 where "store_append sz b2 later x again s2 = (Inr (Appended w), s3)"
        by (cases "store_append sz b2 later x again s2") auto
      then show False by (rule store_appended) (use s2(3) assms(3) in simp)
    qed
  next
    assume "inner_admits s1 b2 x \<and> check_payloads sz again = Inr () \<and> ar_ownership again = None"
    then show "fst (store_append sz b2 later x again s2) = Inr (Duplicate (v - length (ar_outputs req)))"
      using s1(1) s2 assms(3) c(1)
      by (simp add: inner_admits_def store_append_def Let_def binding_appending_def binding_check_def holds_stream_of)
  qed
qed

text \<open>Nothing but a retention sweep rewrites history: over any operations a stream only grows at its
  end, and who owns an execution that exists never changes.\<close>

theorem history_only_grows:
  assumes "store_steps sz s s'"
  shows "(\<exists>ms. stream_of s' x = stream_of s x @ ms) \<and> (holds s x \<longrightarrow> owner_of s' x = owner_of s x)"
  using steps_keep [OF assms, of x] by (auto simp: keeps_def)

subsection \<open>Operations as values\<close>

text \<open>
  Every call of the store that may change something, as a value that can be put into a list: what
  happened between two moments is the list of the calls that were made, by anybody and through any
  handle. Nothing is asked of an append's request here.
\<close>

datatype operation =
    OpAppend scope_binding instant string append_request
  | OpClaim scope_binding claim_filter string instant
  | OpHeartbeat scope_binding attempt_key string instant
  | OpTakeLease scope_binding string string instant
  | OpReleaseLease scope_binding string string instant
  | OpAdmit scope_binding slot_request
  | OpSettle scope_binding slot_key string slot_settlement instant
  | OpPublish scope_binding "string list"
  | OpAdvance scope_binding string checkpoint
  | OpPrune scope_binding instant nat

fun operate :: "(workflow_message \<Rightarrow> nat) \<Rightarrow> operation \<Rightarrow> inner \<Rightarrow> inner" where
  "operate sz (OpAppend b now x req) s = snd (store_append sz b now x req s)"
| "operate sz (OpClaim b f owner now) s = snd (store_claim_attempt b f owner now s)"
| "operate sz (OpHeartbeat b key owner now) s = snd (store_heartbeat b key owner now s)"
| "operate sz (OpTakeLease b x owner now) s = snd (store_take_decider_lease b x owner now s)"
| "operate sz (OpReleaseLease b x owner now) s = snd (store_release_decider_lease b x owner now s)"
| "operate sz (OpAdmit b req) s = snd (store_admit_slot b req s)"
| "operate sz (OpSettle b key owner settlement now) s = snd (store_settle_slot b key owner settlement now s)"
| "operate sz (OpPublish b ids) s = store_mark_published b ids s"
| "operate sz (OpAdvance b processor c) s = snd (store_advance_checkpoint b processor c s)"
| "operate sz (OpPrune b before limit) s = snd (store_prune b before limit s)"

definition operate_all :: "(workflow_message \<Rightarrow> nat) \<Rightarrow> operation list \<Rightarrow> inner \<Rightarrow> inner" where
  "operate_all sz ops s = fold (operate sz) ops s"

fun op_binding :: "operation \<Rightarrow> scope_binding" where
  "op_binding (OpAppend b now x req) = b"
| "op_binding (OpClaim b f owner now) = b"
| "op_binding (OpHeartbeat b key owner now) = b"
| "op_binding (OpTakeLease b x owner now) = b"
| "op_binding (OpReleaseLease b x owner now) = b"
| "op_binding (OpAdmit b req) = b"
| "op_binding (OpSettle b key owner settlement now) = b"
| "op_binding (OpPublish b ids) = b"
| "op_binding (OpAdvance b processor c) = b"
| "op_binding (OpPrune b before limit) = b"

text \<open>The executions the rows of an append's request name.\<close>

definition request_names :: "append_request \<Rightarrow> string \<Rightarrow> bool" where
  "request_names req y \<longleftrightarrow>
     list_ex (\<lambda>w. write_execution w = y) (ar_attempts req) \<or>
     list_ex (\<lambda>w. case w of ScheduleTimer t \<Rightarrow> tm_execution t = y | _ \<Rightarrow> False) (ar_timers req) \<or>
     list_ex (\<lambda>row. ob_partition_key row = ''workflow:'' @ y) (ar_outbox req)"

fun op_names :: "operation \<Rightarrow> string \<Rightarrow> bool" where
  "op_names (OpAppend b now x req) y = request_names req y"
| "op_names _ y = False"

text \<open>A request about one execution names no other.\<close>

lemma request_about_names:
  assumes "request_about x req" and "request_names req y"
  shows "y = x"
proof -
  from assms(1) have about: "\<forall>w \<in> set (ar_attempts req). write_execution w = x"
    "\<forall>w \<in> set (ar_timers req). timer_about x w" "\<forall>row \<in> set (ar_outbox req). ob_partition_key row = ''workflow:'' @ x"
    by (simp_all only: request_about_def list_all_iff simp_thms) blast+
  from assms(2) consider "\<exists>w \<in> set (ar_attempts req). write_execution w = y"
    | "\<exists>w \<in> set (ar_timers req). case w of ScheduleTimer t \<Rightarrow> tm_execution t = y | _ \<Rightarrow> False"
    | "\<exists>row \<in> set (ar_outbox req). ob_partition_key row = ''workflow:'' @ y"
    by (simp only: request_names_def list_ex_iff) blast
  then show ?thesis
  proof cases
    case 2
    then obtain w where w: "w \<in> set (ar_timers req)" "case w of ScheduleTimer t \<Rightarrow> tm_execution t = y | _ \<Rightarrow> False" by blast
    with about(2) have "timer_about x w" by blast
    with w(2) show ?thesis by (cases w) auto
  qed (use about in auto)
qed

lemma rows_ok_get: "rows_ok m \<Longrightarrow> bt_get m k = Some row \<Longrightarrow> row_key row = k"
  by (simp add: rows_ok_def)

lemma operate_attempts:
  "in_attempts (operate sz (OpTakeLease b x owner now) s) = in_attempts s"
  "in_attempts (operate sz (OpReleaseLease b x owner now) s) = in_attempts s"
  "in_attempts (operate sz (OpAdmit b req) s) = in_attempts s"
  "in_attempts (operate sz (OpSettle b skey owner settlement now) s) = in_attempts s"
  "in_attempts (operate sz (OpPublish b ids) s) = in_attempts s"
  "in_attempts (operate sz (OpAdvance b processor c) s) = in_attempts s"
proof -
  show "in_attempts (operate sz (OpAdmit b req) s) = in_attempts s"
    by (cases "store_admit_slot b req s") (auto elim: store_admit_cases)
qed (simp_all add: store_take_decider_lease_def store_release_decider_lease_def store_settle_slot_def
      store_mark_published_def store_advance_checkpoint_def Let_def split: option.split sum.split)

lemma append_attempts:
  "in_attempts (operate sz (OpAppend b now x req) s) = in_attempts s \<or>
   in_attempts (operate sz (OpAppend b now x req) s) =
     foldl (\<lambda>m w. apply_attempt_write w m) (in_attempts s) (ar_attempts req)"
proof -
  obtain r s' where app: "store_append sz b now x req s = (r, s')" by (metis surj_pair)
  then show ?thesis by (cases rule: store_append_cases) (auto simp: app commit_def Let_def)
qed

lemma prune_attempts:
  "\<exists>P. in_attempts (operate sz (OpPrune b before limit) s) = bt_retain P (in_attempts s)"
proof -
  obtain p s' where prune: "store_prune b before limit s = (p, s')" by (metis surj_pair)
  then show ?thesis using prune_tables(5) [OF prune] by auto
qed

lemma rows_ok_retain: "rows_ok m \<Longrightarrow> rows_ok (bt_retain P m)"
  by (auto simp: rows_ok_def bt_get_retain split: option.splits if_splits)

lemma operate_rows_ok:
  assumes "rows_ok (in_attempts s)"
  shows "rows_ok (in_attempts (operate sz op s))"
proof (cases op)
  case (OpAppend b now x req)
  with append_attempts [of sz b now x req s] assms show ?thesis by (auto simp: rows_ok_writes simp del: operate.simps)
next
  case (OpPrune b before limit)
  with prune_attempts [of sz b before limit s] assms show ?thesis by (auto simp: rows_ok_retain simp del: operate.simps)
next
  case (OpClaim b f owner now)
  with assms show ?thesis by (simp add: store_claim_attempt_def Let_def rows_ok_modify split: option.split)
next
  case (OpHeartbeat b key owner now)
  with assms show ?thesis by (simp add: store_heartbeat_def rows_ok_modify split: option.split sum.split)
qed (use assms in \<open>simp_all add: operate_attempts del: operate.simps\<close>)

lemma operate_all_rows_ok: "rows_ok (in_attempts s) \<Longrightarrow> rows_ok (in_attempts (operate_all sz ops s))"
  unfolding operate_all_def by (induction ops arbitrary: s) (auto simp: operate_rows_ok)

subsection \<open>The boundary\<close>

text \<open>All a store holds about one execution.\<close>

definition same_run :: "inner \<Rightarrow> inner \<Rightarrow> string \<Rightarrow> bool" where
  "same_run s s' x \<longleftrightarrow>
     stream_of s' x = stream_of s x \<and> owner_of s' x = owner_of s x \<and>
     bt_get (in_seen s') x = bt_get (in_seen s) x \<and>
     bt_get (in_projections s') x = bt_get (in_projections s) x \<and>
     bt_get (in_decider_leases s') x = bt_get (in_decider_leases s) x \<and>
     (\<forall>k. ak_execution k = x \<longrightarrow> bt_get (in_attempts s') k = bt_get (in_attempts s) k) \<and>
     (\<forall>i. bt_get (in_timers s') (x, i) = bt_get (in_timers s) (x, i))"

lemma same_run_refl [simp]: "same_run s s x"
  by (simp add: same_run_def)

lemma same_run_touch [simp]: "same_run s (touch_stream y s) x"
  by (simp add: same_run_def)

text \<open>The same in two parts: what the boundary guards for every request, and the rows a request may name.\<close>

definition same_record :: "inner \<Rightarrow> inner \<Rightarrow> string \<Rightarrow> bool" where
  "same_record s s' x \<longleftrightarrow>
     stream_of s' x = stream_of s x \<and> owner_of s' x = owner_of s x \<and>
     bt_get (in_seen s') x = bt_get (in_seen s) x \<and>
     bt_get (in_projections s') x = bt_get (in_projections s) x \<and>
     bt_get (in_decider_leases s') x = bt_get (in_decider_leases s) x"

definition outbox_of :: "inner \<Rightarrow> string \<Rightarrow> outbox_message list" where
  "outbox_of s x = filter (\<lambda>row. ob_partition_key row = ''workflow:'' @ x) (in_outbox s)"

definition same_rows :: "inner \<Rightarrow> inner \<Rightarrow> string \<Rightarrow> bool" where
  "same_rows s s' x \<longleftrightarrow>
     (\<forall>k. ak_execution k = x \<longrightarrow> bt_get (in_attempts s') k = bt_get (in_attempts s) k) \<and>
     (\<forall>i. bt_get (in_timers s') (x, i) = bt_get (in_timers s) (x, i))"

definition same_work :: "inner \<Rightarrow> inner \<Rightarrow> string \<Rightarrow> bool" where
  "same_work s s' x \<longleftrightarrow> same_rows s s' x \<and> outbox_of s' x = outbox_of s x"

lemma same_run_parts: "same_record s s' x \<Longrightarrow> same_work s s' x \<Longrightarrow> same_run s s' x"
  by (simp add: same_run_def same_record_def same_work_def same_rows_def)

lemma writes_elsewhere:
  "\<forall>w \<in> set ws. write_execution w \<noteq> ak_execution k \<Longrightarrow>
     bt_get (foldl (\<lambda>m w. apply_attempt_write w m) m ws) k = bt_get m k"
proof (induction ws arbitrary: m)
  case (Cons w ws)
  then show ?case by (cases w) auto
qed simp

lemma timer_writes_elsewhere:
  "\<forall>w \<in> set ws. case w of ScheduleTimer t \<Rightarrow> tm_execution t \<noteq> y | _ \<Rightarrow> True \<Longrightarrow> y \<noteq> x \<Longrightarrow>
     bt_get (foldl (\<lambda>m w. apply_timer_write x w m) m ws) (y, i) = bt_get m (y, i)"
proof (induction ws arbitrary: m)
  case (Cons w ws)
  then show ?case by (cases w) auto
qed simp

lemma commit_isolated:
  assumes "y \<noteq> x"
  shows "same_record s (commit now x establishing req (touch_stream x s)) y"
    and "\<not> request_names req y \<Longrightarrow> same_work s (commit now x establishing req (touch_stream x s)) y"
proof -
  show "same_record s (commit now x establishing req (touch_stream x s)) y"
    using assms by (simp add: same_record_def stream_of_commit owner_of_commit del: push_messages.simps)
      (simp add: commit_def Let_def)
  assume "\<not> request_names req y"
  then have quiet: "\<forall>w \<in> set (ar_attempts req). write_execution w \<noteq> y"
    "\<forall>w \<in> set (ar_timers req). case w of ScheduleTimer t \<Rightarrow> tm_execution t \<noteq> y | _ \<Rightarrow> True"
    "filter (\<lambda>row. ob_partition_key row = ''workflow:'' @ y) (ar_outbox req) = []"
    by (auto simp: request_names_def list_ex_iff filter_empty_conv split: timer_write.splits)
  with assms show "same_work s (commit now x establishing req (touch_stream x s)) y"
    by (auto simp: same_work_def same_rows_def outbox_of_def commit_def Let_def writes_elsewhere timer_writes_elsewhere)
qed

lemma append_isolated:
  assumes "store_append sz b now x req s = (r, s')" and "\<not> inner_admits s b y"
  shows "same_record s s' y \<and> (\<not> request_names req y \<longrightarrow> same_work s s' y)"
  using assms(1)
proof (cases rule: store_append_cases)
  case (committed establishing)
  from committed(4) have "inner_admits s b x"
    by (auto simp: inner_admits_def binding_appending_def binding_check_def holds_stream_of
        split: sum.splits if_splits)
  with assms(2) have "y \<noteq> x" by blast
  then show ?thesis unfolding committed(2) using commit_isolated by blast
qed (auto simp: same_record_def same_work_def same_rows_def outbox_of_def)

lemma find_row:
  assumes "rows_ok m" and "List.find P (bt_values m) = Some row"
  shows "bt_get m (row_key row) = Some row \<and> P row"
proof -
  from find_Some_mem [OF assms(2)] obtain k where "(k, row) \<in> set m" "P row" by (auto simp: bt_values_def)
  with assms(1) show ?thesis by (auto simp: rows_ok_def dest: bt_in_set_get)
qed

lemma check_admits: "inner_check s b x = Inr u \<Longrightarrow> inner_admits s b x"
  by (auto simp: inner_check_def binding_check_def inner_admits_def split: if_splits)

lemma isolated_updates:
  "ak_execution k \<noteq> y \<Longrightarrow> same_record s (s\<lparr>in_attempts := bt_modify k f (in_attempts s)\<rparr>) y \<and>
     same_work s (s\<lparr>in_attempts := bt_modify k f (in_attempts s)\<rparr>) y"
  "bt_get l y = bt_get (in_decider_leases s) y \<Longrightarrow> same_record s (s\<lparr>in_decider_leases := l\<rparr>) y \<and>
     same_work s (s\<lparr>in_decider_leases := l\<rparr>) y"
  "same_record s (s\<lparr>in_slots := sl\<rparr>) y \<and> same_work s (s\<lparr>in_slots := sl\<rparr>) y"
  "same_record s (s\<lparr>in_checkpoints := cs\<rparr>) y \<and> same_work s (s\<lparr>in_checkpoints := cs\<rparr>) y"
  "same_record s s y \<and> same_work s s y"
  by (auto simp: same_record_def same_work_def same_rows_def outbox_of_def stream_of_def owner_of_def)

lemma claim_isolated:
  assumes "rows_ok (in_attempts s)" and "\<not> inner_admits s b y"
  shows "same_record s (snd (store_claim_attempt b f owner now s)) y \<and>
         same_work s (snd (store_claim_attempt b f owner now s)) y"
proof (cases "List.find (\<lambda>row. is_claimable row now \<and> filter_matches f row \<and>
                inner_admits s b (ak_execution (row_key row))) (bt_values (in_attempts s))")
  case (Some old)
  from find_row [OF assms(1) this] assms(2) have "ak_execution (row_key old) \<noteq> y" by auto
  with Some show ?thesis by (simp add: store_claim_attempt_def Let_def isolated_updates(1))
qed (simp add: store_claim_attempt_def isolated_updates)

lemma heartbeat_isolated:
  assumes "\<not> inner_admits s b y"
  shows "same_record s (snd (store_heartbeat b key owner now s)) y \<and> same_work s (snd (store_heartbeat b key owner now s)) y"
proof -
  have "ak_execution key \<noteq> y" if "inner_check s b (ak_execution key) = Inr u" for u
    using check_admits [OF that] assms by blast
  then show ?thesis
    by (auto simp: store_heartbeat_def isolated_updates(1,5) simp flip: One_nat_def split: sum.splits option.splits)
qed

lemma lease_isolated:
  assumes "\<not> inner_admits s b y"
  shows "same_record s (snd (store_take_decider_lease b x owner now s)) y \<and>
           same_work s (snd (store_take_decider_lease b x owner now s)) y"
    and "same_record s (snd (store_release_decider_lease b x owner now s)) y \<and>
           same_work s (snd (store_release_decider_lease b x owner now s)) y"
proof -
  have other: "x \<noteq> y" if "inner_check s b x = Inr u" for u
    using check_admits [OF that] assms by blast
  then show "same_record s (snd (store_take_decider_lease b x owner now s)) y \<and>
           same_work s (snd (store_take_decider_lease b x owner now s)) y"
    by (auto simp: store_take_decider_lease_def isolated_updates split: sum.splits option.splits)
  from other show "same_record s (snd (store_release_decider_lease b x owner now s)) y \<and>
           same_work s (snd (store_release_decider_lease b x owner now s)) y"
    by (auto simp: store_release_decider_lease_def isolated_updates split: sum.splits option.splits)
qed

lemma same_id: "distinct (map f xs) \<Longrightarrow> a \<in> set xs \<Longrightarrow> c \<in> set xs \<Longrightarrow> f a = f c \<Longrightarrow> a = c"
  by (auto simp: distinct_map dest: inj_onD)

lemma publish_isolated:
  assumes "distinct (map ob_message_id (in_outbox s))" and "\<not> inner_admits s b y"
  shows "outbox_of (store_mark_published b ids s) y = outbox_of s y"
proof -
  have foreign: "\<not> admits_partition s b (''workflow:'' @ y)"
    using assms(2) by (simp add: admits_partition_def strip_prefix_def)
  have "ob_message_id row \<notin> ob_message_id ` {r \<in> set (in_outbox s). ob_message_id r \<in> set ids \<and>
          admits_partition s b (ob_partition_key r)}"
    if "row \<in> set (in_outbox s)" "ob_partition_key row = ''workflow:'' @ y" for row
    using same_id [OF assms(1) that(1)] foreign that(2) by (auto simp: image_iff)
  then show ?thesis
    by (auto simp: outbox_of_def store_mark_published_def Let_def intro!: filter_cong)
qed

lemma prune_isolated:
  assumes "\<not> inner_admits s b y" and "rows_ok (in_attempts s)"
  shows "same_record s (snd (store_prune b before limit s)) y \<and> same_work s (snd (store_prune b before limit s)) y"
proof -
  obtain p s' where prune: "store_prune b before limit s = (p, s')" by (metis surj_pair)
  have kept: "y \<notin> set (doomed_executions b before limit s)"
    using assms(1) by (auto simp: doomed_executions_def Let_def dest!: in_set_takeD)
  then have "bt_get (in_seen s') y = bt_get (in_seen s) y"
    using prune by (auto simp: store_prune_def Let_def forget_executions bt_get_removes)
  with kept prune assms(2) show ?thesis
    by (auto simp: same_record_def same_work_def same_rows_def outbox_of_def prune_tables [OF prune] bt_get_retain rows_ok_def
        split: option.splits)
qed

lemma operation_isolated:
  assumes "rows_ok (in_attempts s)" and "\<not> inner_admits s (op_binding op) y" and "\<And>b ids. op \<noteq> OpPublish b ids"
  shows "same_record s (operate sz op s) y \<and> (\<not> op_names op y \<longrightarrow> same_work s (operate sz op s) y)"
proof (cases op)
  case (OpAppend b now x req)
  obtain r s' where "store_append sz b now x req s = (r, s')" by (metis surj_pair)
  with append_isolated [OF this] assms(2) OpAppend show ?thesis by simp
next
  case (OpAdmit b req)
  obtain r s' where "store_admit_slot b req s = (r, s')" by (metis surj_pair)
  then show ?thesis by (cases rule: store_admit_cases) (use OpAdmit \<open>store_admit_slot b req s = (r, s')\<close> in \<open>auto simp: isolated_updates\<close>)
next
  case (OpSettle b key owner settlement now)
  then show ?thesis by (auto simp: store_settle_slot_def isolated_updates split: sum.splits option.splits)
next
  case (OpAdvance b processor c)
  then show ?thesis by (auto simp: store_advance_checkpoint_def isolated_updates split: sum.splits)
qed (use assms claim_isolated heartbeat_isolated lease_isolated prune_isolated in simp_all)

text \<open>C18: No operation of the store reaches across its binding, the retention sweep included: whatever is
  done through a handle, an execution the handle does not admit keeps its history, owner, inbox,
  projection and decider lease, and, unless the call is an append whose rows name that execution, its
  attempts, its timers and, where message ids are distinct, its outbox rows. That an append's rows name
  the execution it is appended to is the caller's part, which the store does not check; the engine's
  own requests do (\<open>request_about_names\<close>). The claim rows stand under their own keys, as they do in
  every store that operations lead to.\<close>

theorem binding_is_a_boundary:
  assumes "rows_ok (in_attempts s)" and "\<not> inner_admits s (op_binding op) y"
  shows "same_record s (operate sz op s) y \<and>
         (\<not> op_names op y \<longrightarrow>
            same_rows s (operate sz op s) y \<and>
            (distinct (map ob_message_id (in_outbox s)) \<longrightarrow> outbox_of (operate sz op s) y = outbox_of s y))"
proof (cases "\<exists>b ids. op = OpPublish b ids")
  case True
  then obtain b ids where op: "op = OpPublish b ids" by blast
  have "same_record s (operate sz op s) y \<and> same_rows s (operate sz op s) y"
    by (simp add: op same_record_def same_rows_def store_mark_published_def Let_def stream_of_def owner_of_def)
  moreover have "outbox_of (operate sz op s) y = outbox_of s y" if "distinct (map ob_message_id (in_outbox s))"
    using publish_isolated [OF that, of b y ids] assms(2) op by simp
  ultimately show ?thesis by blast
next
  case False
  with operation_isolated [OF assms, of sz] show ?thesis by (auto simp: same_work_def)
qed

text \<open>A project store may create a run that is not the project's: an append with no ownership onto
  an unused id is accepted, and the run it creates belongs to the unscoped store from then on.\<close>

theorem unowned_start_through_a_project_store:
  assumes "bound_scope b = Project scope" and "stream_of s x = []" and "owner_of s x = None"
    and "seen_at s x (md_message_id (pm_metadata (ar_input req))) = None"
    and "check_payloads sz req = Inr ()" and "ar_expected_version req = NoStream" and "ar_ownership req = None"
  shows "\<exists>v s'. store_append sz b now x req s = (Inr (Appended v), s') \<and>
           \<not> inner_admits s' b x \<and> inner_admits s' binding_global x"
  using assms
  by (auto simp: store_append_def Let_def binding_appending_def binding_check_def binding_admits_def
      inner_admits_def holds_stream_of stream_of_commit owner_of_commit binding_global_def)

end
