(* ===== verification/Store_Claims.thy ===== *)
theory Store_Claims
  imports Store_Props
begin

text \<open>
  Who may work on what: the properties of the claim table, of the decider's lease and of the
  schedule slots as the store keeps them. Each rests on the lease's interface, interpreted for the
  three records; the exclusion of a second claim is carried through any list of operations.
\<close>

subsection \<open>Claims\<close>

definition takable :: "scope_binding \<Rightarrow> claim_filter \<Rightarrow> instant \<Rightarrow> inner \<Rightarrow> attempt_row \<Rightarrow> bool" where
  "takable b f now s row \<longleftrightarrow>
     is_claimable row now \<and> filter_matches f row \<and> inner_admits s b (ak_execution (row_key row))"

lemma claim_attempt_alt:
  "store_claim_attempt b f owner now s =
     (case List.find (takable b f now s) (bt_values (in_attempts s)) of
        None \<Rightarrow> (None, s)
      | Some row \<Rightarrow>
          let attempts = bt_modify (row_key row) (row_claim owner now) (in_attempts s)
          in (bt_get attempts (row_key row), s\<lparr>in_attempts := attempts\<rparr>))"
proof -
  have "takable b f now s = (\<lambda>row. is_claimable row now \<and> filter_matches f row \<and>
      inner_admits s b (ak_execution (row_key row)))"
    by (rule ext) (simp add: takable_def)
  then show ?thesis by (simp add: store_claim_attempt_def)
qed

lemma find_least:
  assumes "bt_ok m" and "List.find P (map snd m) = Some v" and "(k, v) \<in> set m"
    and "(k', v') \<in> set m" and "P v'" and unique: "\<And>j. (j, v) \<in> set m \<Longrightarrow> j = k"
  shows "k \<le> k'"
  using assms
proof (induction m)
  case (Cons kv m)
  obtain a c where kv: "kv = (a, c)" by (cases kv)
  show ?case
  proof (cases "P c")
    case True
    with Cons.prems(2) kv have "c = v" by simp
    with Cons.prems(6) kv have "a = k" by auto
    moreover have "a \<le> k'"
    proof (cases "(k', v') = kv")
      case False
      with Cons.prems(4) have "k' \<in> fst ` set m" by force
      with Cons.prems(1) kv show ?thesis by (auto simp: bt_ok_Cons less_imp_le)
    qed (simp add: kv)
    ultimately show ?thesis by simp
  next
    case False
    with Cons.prems kv have find: "List.find P (map snd m) = Some v" by simp
    from False Cons.prems(5) have "c \<noteq> v'" by auto
    moreover have "c \<noteq> v" using find_Some_mem [OF find] False by auto
    ultimately have "(k, v) \<in> set m" "(k', v') \<in> set m" using Cons.prems(3,4) kv by auto
    moreover have "bt_ok m" using Cons.prems(1) kv by (simp add: bt_ok_Cons)
    moreover have "j = k" if "(j, v) \<in> set m" for j using Cons.prems(6) that by simp
    ultimately show ?thesis using Cons.IH find Cons.prems(5) by blast
  qed
qed simp

lemma claim_rows:
  assumes "rows_ok (in_attempts s)" and "store_claim_attempt b f owner now s = (claimed, s')"
  shows "case claimed of
           None \<Rightarrow> s' = s \<and> (\<forall>k row. bt_get (in_attempts s) k = Some row \<longrightarrow> \<not> takable b f now s row)
         | Some row \<Rightarrow> \<exists>old. bt_get (in_attempts s) (row_key row) = Some old \<and> takable b f now s old \<and>
             row = row_claim owner now old \<and> bt_get (in_attempts s') (row_key row) = Some row \<and>
             (\<forall>k other. bt_get (in_attempts s) k = Some other \<and> takable b f now s other \<longrightarrow> row_key row \<le> k) \<and>
             (\<forall>k. k \<noteq> row_key row \<longrightarrow> bt_get (in_attempts s') k = bt_get (in_attempts s) k)"
proof (cases "List.find (takable b f now s) (bt_values (in_attempts s))")
  case None
  with assms(2) have "claimed = None" "s' = s" by (auto simp: claim_attempt_alt)
  moreover have "\<not> takable b f now s row" if "bt_get (in_attempts s) k = Some row" for k row
    using None that by (force simp: find_None_iff' bt_values_def dest: bt_get_in_set)
  ultimately show ?thesis by auto
next
  case (Some old)
  note rows = assms(1)
  from find_row [OF this Some] have old: "bt_get (in_attempts s) (row_key old) = Some old" "takable b f now s old"
    by simp_all
  have "row_key old \<le> k" if "bt_get (in_attempts s) k = Some other" "takable b f now s other" for k other
  proof (rule find_least)
    show "bt_ok (in_attempts s)" using rows by (simp add: rows_ok_def)
    show "List.find (takable b f now s) (map snd (in_attempts s)) = Some old"
      using Some by (simp add: bt_values_def)
    show "(row_key old, old) \<in> set (in_attempts s)" using old(1) by (rule bt_get_in_set)
    show "(k, other) \<in> set (in_attempts s)" using that(1) by (rule bt_get_in_set)
    show "j = row_key old" if "(j, old) \<in> set (in_attempts s)" for j
      using rows that by (auto simp: rows_ok_def dest: bt_in_set_get)
  qed (rule that(2))
  with assms(2) Some old show ?thesis
    by (auto simp: claim_attempt_alt Let_def)
qed

lemma store_rows: "store_ok s \<Longrightarrow> rows_ok (in_attempts s)"
  by (simp add: store_ok_def tables_ok_def)

lemmas claim_cases = claim_rows [OF store_rows]

text \<open>A claim takes the first row, in the order of the keys, that is free, wanted and within the
  binding, marks exactly that row as the claimant's and touches no other; it answers nothing only
  when there is no such row.\<close>

theorem claim_takes_the_first_free:
  assumes "store_ok s" and "store_claim_attempt b f owner now s = (claimed, s')"
  shows "case claimed of
           None \<Rightarrow> s' = s \<and> (\<forall>k row. bt_get (in_attempts s) k = Some row \<longrightarrow> \<not> takable b f now s row)
         | Some row \<Rightarrow> \<exists>old. bt_get (in_attempts s) (row_key row) = Some old \<and> takable b f now s old \<and>
             row = row_claim owner now old \<and> bt_get (in_attempts s') (row_key row) = Some row \<and>
             (\<forall>k other. bt_get (in_attempts s) k = Some other \<and> takable b f now s other \<longrightarrow> row_key row \<le> k) \<and>
             (\<forall>k. k \<noteq> row_key row \<longrightarrow> bt_get (in_attempts s') k = bt_get (in_attempts s) k)"
  using assms by (rule claim_cases)

text \<open>
  A claim through time. An operation leaves a claim made at \<open>now\<close> in force when it dispatches no row
  under the attempt's key anew, when a claim it makes reads a clock at which the lease still runs, and
  when a heartbeat on the attempt does not set the clock back before the claim. Anybody may make it.
\<close>

fun leaves_claim :: "attempt_key \<Rightarrow> instant \<Rightarrow> operation \<Rightarrow> bool" where
  "leaves_claim key now (OpAppend b at x req) =
     list_all (\<lambda>w. case w of Dispatch row \<Rightarrow> row_key row \<noteq> key | _ \<Rightarrow> True) (ar_attempts req)"
| "leaves_claim key now (OpClaim b f owner at) = (at \<le> now + seconds LEASE_SECONDS)"
| "leaves_claim key now (OpHeartbeat b k owner at) = (k = key \<longrightarrow> now \<le> at)"
| "leaves_claim key now _ = True"

text \<open>What such operations keep: the row is gone, or parked, or leased since \<open>now\<close> or later.\<close>

definition leased_since :: "instant \<Rightarrow> attempt_row \<Rightarrow> bool" where
  "leased_since now row \<longleftrightarrow>
     (row_state row = AwaitingInput \<and> row_lease_owner row = None) \<or> (\<exists>at. row_claimed_at row = Some at \<and> now \<le> at)"

definition in_force :: "attempt_key \<Rightarrow> instant \<Rightarrow> (attempt_key, attempt_row) btree \<Rightarrow> bool" where
  "in_force key now m \<longleftrightarrow> (\<forall>row. bt_get m key = Some row \<longrightarrow> leased_since now row)"

lemma leased_unclaimable:
  "leased_since now row \<Longrightarrow> later \<le> now + seconds LEASE_SECONDS \<Longrightarrow> \<not> is_claimable row later"
  by (auto simp: leased_since_def is_claimable_def awaits_a_claimant_def lease_expired_Some)

lemma in_force_writes:
  "list_all (\<lambda>w. case w of Dispatch row \<Rightarrow> row_key row \<noteq> key | _ \<Rightarrow> True) ws \<Longrightarrow> in_force key now m \<Longrightarrow>
     in_force key now (foldl (\<lambda>m w. apply_attempt_write w m) m ws)"
proof (induction ws arbitrary: m)
  case (Cons w ws)
  have "in_force key now (apply_attempt_write w m)"
    using Cons.prems by (cases w) (auto simp: in_force_def leased_since_def row_park_def split: if_splits option.splits)
  with Cons show ?case by simp
qed simp

lemma claim_not_given:
  assumes "rows_ok (in_attempts s)" and "in_force key now (in_attempts s)" and "later \<le> now + seconds LEASE_SECONDS"
    and "store_claim_attempt b f owner later s = (Some row, s')"
  shows "row_key row \<noteq> key"
proof
  assume "row_key row = key"
  with claim_rows [OF assms(1,4)] obtain old where "bt_get (in_attempts s) key = Some old" "is_claimable old later"
    by (auto simp: takable_def)
  with assms(2,3) show False using leased_unclaimable by (auto simp: in_force_def)
qed

lemma operate_in_force:
  assumes "rows_ok (in_attempts s)" and "in_force key now (in_attempts s)" and "leaves_claim key now op"
  shows "in_force key now (in_attempts (operate sz op s))"
proof (cases op)
  case (OpAppend b at x req)
  with append_attempts [of sz b at x req s] assms(2,3) show ?thesis by (auto simp: in_force_writes simp del: operate.simps)
next
  case (OpClaim b f owner at)
  obtain claimed s' where claim: "store_claim_attempt b f owner at s = (claimed, s')" by (metis surj_pair)
  show ?thesis
  proof (cases claimed)
    case None
    with claim_rows [OF assms(1) claim] OpClaim claim assms(2) show ?thesis by simp
  next
    case (Some row)
    then have "row_key row \<noteq> key"
      using claim_not_given [OF assms(1,2)] claim assms(3) OpClaim by simp
    with claim_rows [OF assms(1) claim] Some OpClaim claim assms(2) show ?thesis by (auto simp: in_force_def)
  qed
next
  case (OpHeartbeat b k owner at)
  with assms(2,3) show ?thesis
    by (auto simp: store_heartbeat_def in_force_def leased_since_def split: sum.splits option.splits if_splits)
next
  case (OpPrune b before limit)
  with prune_attempts [of sz b before limit s] assms(1,2) show ?thesis
    by (auto simp: in_force_def rows_ok_def bt_get_retain split: option.splits if_splits simp del: operate.simps)
qed (use assms(2) in \<open>simp_all add: operate_attempts del: operate.simps\<close>)

lemma operate_all_in_force:
  "rows_ok (in_attempts s) \<Longrightarrow> in_force key now (in_attempts s) \<Longrightarrow> list_all (leaves_claim key now) ops \<Longrightarrow>
     in_force key now (in_attempts (operate_all sz ops s))"
proof (induction ops arbitrary: s)
  case (Cons op ops)
  then have "in_force key now (in_attempts (operate sz op s))" by (auto intro: operate_in_force)
  with Cons operate_rows_ok [OF Cons.prems(1), of sz op] show ?case by (simp add: operate_all_def)
qed (simp add: operate_all_def)

lemma heartbeat_in_force:
  "store_heartbeat b key owner now s = (Inr True, s') \<Longrightarrow> in_force key now (in_attempts s')"
  by (auto simp: store_heartbeat_def in_force_def leased_since_def split: sum.splits option.splits if_splits)

lemma claim_in_force:
  assumes "rows_ok (in_attempts s)" and "store_claim_attempt b f owner now s = (Some row, s')"
  shows "in_force (row_key row) now (in_attempts s')"
  using claim_rows [OF assms] by (auto simp: in_force_def leased_since_def row_claim_def Let_def)

text \<open>C13: Two claimants never hold one attempt. From a claim of it, or from a heartbeat that was answered
  yes, and for as long as that lease runs, whatever operations follow and whoever makes them, no claim
  through any handle, by anybody and with any filter, is given that attempt: provided nobody
  dispatches the same attempt anew, the claims in between read clocks at which the lease runs and no
  heartbeat on it reads a clock before the one it began with.\<close>

theorem claims_are_exclusive:
  assumes "store_ok s"
    and "(\<exists>f row. store_claim_attempt b f owner now s = (Some row, s1) \<and> row_key row = key) \<or>
         store_heartbeat b key owner now s = (Inr True, s1)"
    and "list_all (leaves_claim key now) ops" and "later \<le> now + seconds LEASE_SECONDS"
    and "store_claim_attempt b2 f2 other later (operate_all sz ops s1) = (Some row2, s2)"
  shows "row_key row2 \<noteq> key"
proof -
  have force: "in_force key now (in_attempts s1)"
    using assms(2) claim_in_force [OF store_rows [OF assms(1)]] heartbeat_in_force by blast
  have rows: "rows_ok (in_attempts s1)"
    using assms(2) claim_step heartbeat_step quiet_ok assms(1) by (blast intro: store_rows)
  show ?thesis
    by (rule claim_not_given [OF operate_all_rows_ok [OF rows] operate_all_in_force [OF rows force assms(3)] assms(4,5)])
qed

subsection \<open>The decider's lease\<close>

text \<open>A hosted run has one decider at a time: once somebody took the lease, for five minutes every
  other name is told who holds it and until when and nothing changes, the holder may renew or give
  it back, and after that anybody may take it and learns whom it interrupted.\<close>

theorem one_decider_at_a_time:
  assumes "store_take_decider_lease b x owner now s = (Inr (LeaseTaken lease), s')" and "now \<le> later"
  shows "dl_holder lease = owner \<and>
         (other \<noteq> owner \<longrightarrow>
            store_take_decider_lease b x other later s' =
              (if later \<le> now + seconds LEASE_SECONDS
               then (Inr (LeaseHeldBy owner (now + seconds LEASE_SECONDS)), s')
               else (Inr (LeaseTaken (dl_take other later lease)),
                     s'\<lparr>in_decider_leases := bt_modify x (dl_take other later) (in_decider_leases s')\<rparr>)) \<and>
            store_release_decider_lease b x other later s' = (Inr False, s') \<and>
            dl_previous_holder (dl_take other later lease) = Some owner) \<and>
         fst (store_take_decider_lease b x owner later s') = Inr (LeaseTaken (dl_take owner later lease))"
proof -
  have facts: "inner_check s b x = Inr ()" "dl_holder lease = owner" "dl_claimed_at lease = now"
      "bt_get (in_decider_leases s') x = Some lease" "inner_check s' b x = inner_check s b x"
    using assms(1)
    by (auto simp: store_take_decider_lease_def taken_by_def inner_check_def owner_of_def holds_def
        split: sum.splits option.splits if_splits)
  have expiry: "dl_expired lease later \<longleftrightarrow> \<not> later \<le> now + seconds LEASE_SECONDS"
    by (auto simp: dl_expired_def facts lease_expired_Some)
  have "dl_previous_holder (dl_take other later lease) = Some owner" if "other \<noteq> owner"
    using that facts by (simp add: dl_take_def Let_def)
  then show ?thesis
    using facts expiry
    by (auto simp: store_take_decider_lease_def store_release_decider_lease_def dl_held_by_def dl_expires_at_def)
qed

subsection \<open>Slots\<close>

text \<open>A slot is run once: after it is admitted, for as long as the lease runs every other request
  for it is told who holds it; only the admitted caller's settlement is written, and after a
  decision every request is answered with it, whoever asks and whenever.\<close>

theorem slot_is_decided_once:
  assumes "store_admit_slot b req s = (Inr Admitted, s')" and "sq_key req2 = sq_key req"
    and "sq_now req \<le> sq_now req2" and "sq_now req2 \<le> sq_now req + seconds LEASE_SECONDS"
    and "settlement_outcome decided = Some outcome" and "sq_key req3 = sq_key req"
  shows "store_admit_slot b req2 s' = (Inr (SlotHeld (sq_owner req)), s') \<and>
         (other \<noteq> sq_owner req \<longrightarrow> store_settle_slot b (sq_key req) other settlement at s' = (Inr (), s')) \<and>
         (let s'' = snd (store_settle_slot b (sq_key req) (sq_owner req) decided at s')
          in store_admit_slot b req3 s'' = (Inr (SlotSettled outcome), s''))"
proof -
  obtain detail where s': "s' = s\<lparr>in_slots := bt_insert (sq_key req)
      (slot_admitted (sq_key req) (sq_owner req) (sq_now req) detail) (in_slots s)\<rparr>" "bound_scope b = Global"
    using assms(1) by (auto elim: store_admit_cases)
  let ?r = "slot_admitted (sq_key req) (sq_owner req) (sq_now req) detail"
  have slot: "bt_get (in_slots s') (sq_key req) = Some ?r" by (simp add: s')
  have r: "sl_outcome ?r = None" "sl_lease_owner ?r = Some (sq_owner req)" by (simp_all add: slot_admitted_def)
  have "\<not> is_available (slot_take (sq_owner req) (sq_now req) ?r) (sq_now req2)"
    using assms(3,4) by (rule slot.take_excludes)
  then have busy: "\<not> is_available ?r (sq_now req2)" by (simp add: slot_take_def slot_admitted_def)
  have wide: "refuse_instance_wide b what = Inr ()" for what
    using s'(2) by (simp add: refuse_instance_wide_def)
  have settled: "sl_outcome (slot_settled decided at ?r) = Some outcome"
    using assms(5) by (cases decided) (auto simp: slot_settled_def)
  show ?thesis
    using slot r busy wide settled assms(2,6)
    by (simp add: store_admit_slot_def store_settle_slot_def Let_def)
qed

text \<open>
  The run that blocks a slot is an unfinished one of the definition's name. The kind of the
  definition and the scope of the run play no part in it.
\<close>

lemma foldl_min_mem: "foldl min x xs \<in> set (x # xs)"
proof (induction xs arbitrary: x)
  case (Cons y xs)
  have "foldl min (min x y) xs \<in> insert (min x y) (set xs)" using Cons [of "min x y"] by simp
  moreover have "min x y = x \<or> min x y = y" by (auto simp: min_def)
  ultimately show ?case by auto
qed simp

lemma blocking_run_None: "blocking_run key s = None \<longleftrightarrow> unfinished_runs key s = []"
  by (simp add: blocking_run_def split: list.splits)

lemma blocking_run_Some: "blocking_run key s = Some x \<Longrightarrow> x \<in> set (unfinished_runs key s)"
  using foldl_min_mem by (force simp: blocking_run_def split: list.splits)

lemma blocking_run_by_name: "sk_name k = sk_name k' \<Longrightarrow> blocking_run k s = blocking_run k' s"
  by (simp add: blocking_run_def unfinished_runs_def)

end
