(* ===== verification/Store_Retention.thy ===== *)
theory Store_Retention
  imports Store_Claims
begin

text \<open>
  Reading a history in pages and forgetting one: \<open>load_page\<close> and \<open>prune\<close>. A sweep takes
  finished and quiet runs only, their histories whole; what it leaves behind of them are their timers and
  the decider's lease.
\<close>

subsection \<open>Pages\<close>

lemma versions_nth: "versions_ok ms \<Longrightarrow> i < length ms \<Longrightarrow> rm_stream_version (ms ! i) = Suc i"
  using nth_map [of i ms rm_stream_version] nth_upt [of 1 i "Suc (length ms)"]
  by (simp add: versions_ok_def del: upt_Suc)

lemma filter_versions:
  "versions_ok ms \<Longrightarrow> filter (\<lambda>m. rm_stream_version m > after) ms = drop after ms"
proof (induction ms rule: rev_induct)
  case (snoc m ms)
  then have "versions_ok ms" "rm_stream_version m = Suc (length ms)"
    using versions_nth [OF snoc.prems, of "length ms"] by (simp_all add: versions_ok_def)
  with snoc.IH show ?case by auto
qed simp

text \<open>Pages cover a stream without a gap or a repeat: the page after version \<open>n\<close> is the next
  messages in order, so reading on from the last version of each page yields the whole stream.\<close>

theorem pages_cover_the_stream:
  assumes "store_reachable sz s" and "store_load_page b x after limit s = Inr page"
  shows "ss_messages page = take limit (drop after (stream_of s x)) \<and>
         ss_version page = length (stream_of s x) \<and>
         (ss_messages page \<noteq> [] \<longrightarrow>
            rm_stream_version (last (ss_messages page)) = after + length (ss_messages page)) \<and>
         (length (ss_messages page) < limit \<longrightarrow> after + length (ss_messages page) \<ge> ss_version page)"
proof -
  have v: "versions_ok (stream_of s x)"
    using store_reachable_ok [OF assms(1)] by (simp add: store_ok_def history_ok_def)
  have page: "ss_messages page = take limit (drop after (stream_of s x))" "ss_version page = length (stream_of s x)"
    using assms(2) by (auto simp: store_load_page_def guarded_def filter_versions [OF v] split: sum.splits)
  moreover have "rm_stream_version (last (ss_messages page)) = after + length (ss_messages page)"
    if "ss_messages page \<noteq> []"
  proof -
    define n where "n = length (ss_messages page)"
    have n: "0 < n" "n \<le> limit" "after + n \<le> length (stream_of s x)" using that by (auto simp: page n_def)
    have "last (ss_messages page) = ss_messages page ! (n - 1)" using that by (simp add: last_conv_nth n_def)
    also have "\<dots> = stream_of s x ! (after + (n - 1))" using n by (simp add: page(1))
    finally have "rm_stream_version (last (ss_messages page)) = Suc (after + (n - 1))"
      using versions_nth [OF v, of "after + (n - 1)"] n by simp
    with n(1) show ?thesis by (simp flip: n_def)
  qed
  ultimately show ?thesis by auto
qed

subsection \<open>Retention\<close>

lemma doomed_run:
  assumes "x \<in> set (doomed_executions b before limit s)" and "bt_ok (in_projections s)"
  shows "\<exists>run. bt_get (in_projections s) x = Some run \<and> is_terminal (state_type (rp_state run)) \<and>
           last_activity (bt_get (in_streams s) x) < before \<and> inner_admits s b x \<and>
           (\<forall>row \<in> set (in_outbox s). ob_published_at row = None \<longrightarrow> ob_partition_key row \<noteq> ''workflow:'' @ x)"
proof -
  from assms(1) obtain run where "(x, run) \<in> set (in_projections s)" and run: "inner_admits s b x"
    "prunable run (last_activity (bt_get (in_streams s) x)) before"
    "''workflow:'' @ x \<notin> ob_partition_key ` {row \<in> set (in_outbox s). ob_published_at row = None}"
    by (auto simp: doomed_executions_def Let_def dest!: in_set_takeD)
  with assms(2) have "bt_get (in_projections s) x = Some run" by (simp add: bt_in_set_get)
  moreover have "\<forall>row \<in> set (in_outbox s). ob_published_at row = None \<longrightarrow> ob_partition_key row \<noteq> ''workflow:'' @ x"
    using run(3) by (metis (mono_tags, lifting) imageI mem_Collect_eq)
  ultimately show ?thesis using run(1,2) unfolding prunable_def by blast
qed

text \<open>C20: A sweep takes only finished runs and forgets their histories whole: what it takes has ended, was
  quiet since the cutoff, has nothing left to publish and is within the binding, and its history,
  owner, inbox, projection and claim rows go together; every other run is left exactly as it was.
  Timers, decider leases, outbox, slots and checkpoints are not touched, a forgotten run's timers and
  lease included.\<close>

theorem sweep_forgets_whole_finished_runs:
  assumes "store_ok s" and "store_prune b before limit s = (p, s')"
  shows "(if x \<in> set (doomed_executions b before limit s)
          then (\<exists>run. bt_get (in_projections s) x = Some run \<and> is_terminal (state_type (rp_state run)) \<and>
                  last_activity (bt_get (in_streams s) x) < before \<and> inner_admits s b x \<and>
                  (\<forall>row \<in> set (in_outbox s). ob_published_at row = None \<longrightarrow> ob_partition_key row \<noteq> ''workflow:'' @ x)) \<and>
               stream_of s' x = [] \<and> owner_of s' x = None \<and> (\<forall>i. seen_at s' x i = None) \<and>
               bt_get (in_projections s') x = None \<and> (\<forall>k. ak_execution k = x \<longrightarrow> bt_get (in_attempts s') k = None)
          else same_run s s' x) \<and>
         in_timers s' = in_timers s \<and> in_decider_leases s' = in_decider_leases s \<and>
         in_outbox s' = in_outbox s \<and> in_slots s' = in_slots s \<and> in_checkpoints s' = in_checkpoints s"
proof -
  have ok: "bt_ok (in_projections s)" "bt_ok (in_attempts s)"
    using assms(1) by (simp_all add: store_ok_def tables_ok_def rows_ok_def)
  have seen: "x \<notin> set (doomed_executions b before limit s) \<Longrightarrow> bt_get (in_seen s') x = bt_get (in_seen s) x"
    using assms(2) by (auto simp: store_prune_def Let_def forget_executions bt_get_removes)
  have "in_checkpoints s' = in_checkpoints s"
    using assms(2) by (auto simp: store_prune_def Let_def forget_executions)
  then show ?thesis
    using doomed_run [OF _ ok(1), of x b before limit] ok(2) seen
    by (auto simp: prune_tables [OF assms(2)] same_run_def bt_get_retain split: option.splits)
qed

text \<open>The timer of a forgotten project run outlives it and crosses the boundary: before the sweep the
  unscoped store does not see it, after the sweep, with the owner gone, it is due there.\<close>

theorem pruned_timer_crosses_the_boundary:
  assumes "store_prune b before limit s = (p, s')" and "x \<in> set (doomed_executions b before limit s)"
    and "owner_of s x = Some owner" and "bt_get (in_timers s) (x, i) = Some t" and "tm_execution t = x"
    and "is_due t now"
  shows "t \<notin> set (store_due_timers binding_global now n s) \<and>
         t \<in> set (store_due_timers binding_global now (length (in_timers s')) s')"
proof -
  have timers: "in_timers s' = in_timers s" by (simp add: prune_tables [OF assms(1)])
  have "\<not> inner_admits s binding_global x"
    using assms(3) by (simp add: inner_admits_def binding_admits_def binding_global_def)
  moreover have "inner_admits s' binding_global x"
    using assms(2) by (simp add: inner_admits_def binding_admits_def binding_global_def prune_tables [OF assms(1)])
  moreover have "t \<in> set (bt_values (in_timers s))"
    using bt_get_in_set [OF assms(4)] by (force simp: bt_values_def)
  ultimately show ?thesis
    using assms(5,6) timers
    by (auto simp: store_due_timers_def bt_values_def dest!: in_set_takeD)
qed

subsection \<open>The size of what is kept\<close>

definition messages_fit :: "(workflow_message \<Rightarrow> nat) \<Rightarrow> inner \<Rightarrow> bool" where
  "messages_fit sz s \<longleftrightarrow> (\<forall>x. \<forall>m \<in> set (stream_of s x). sz (rm_message m) \<le> MAX_PAYLOAD_BYTES)"

lemma checked_payloads:
  "check_payloads sz req = Inr () \<longleftrightarrow>
     (\<forall>p \<in> set (ar_input req # ar_outputs req). sz (pm_message p) \<le> MAX_PAYLOAD_BYTES)"
  by (auto simp: check_payloads_def payload_size_def find_None_iff find_Some_iff not_less split: option.splits)
    (meson linorder_not_less nth_mem)

lemma pushed_messages: "m \<in> set (push_messages n clock ms) \<Longrightarrow> \<exists>p \<in> set ms. rm_message m = pm_message p"
  by (induction ms arbitrary: n) auto

lemma append_fits:
  assumes "store_append sz b now x req s = (r, s')" and "messages_fit sz s"
  shows "messages_fit sz s'"
  using assms(1)
proof (cases rule: store_append_cases)
  case (committed establishing)
  with assms(2) show ?thesis
    by (auto simp: messages_fit_def stream_of_commit checked_payloads simp del: push_messages.simps
        dest!: pushed_messages)
qed (use assms(2) in \<open>auto simp: messages_fit_def\<close>)

lemma quiet_fits: "quiet s s' \<Longrightarrow> messages_fit sz s \<Longrightarrow> messages_fit sz s'"
  by (auto simp: quiet_def messages_fit_def same_history_frame)

lemma step_fits: "store_step sz b s s' \<Longrightarrow> messages_fit sz s \<Longrightarrow> messages_fit sz s'"
  by (cases rule: store_step.cases) (auto intro: append_fits quiet_steps quiet_fits)

lemma prune_fits:
  assumes "store_prune b before limit s = (p, s')" and "messages_fit sz s"
  shows "messages_fit sz s'"
proof -
  have "set (stream_of s' x) \<subseteq> set (stream_of s x)" for x
    by (simp add: prune_tables [OF assms(1)])
  with assms(2) show ?thesis by (auto simp: messages_fit_def)
qed

text \<open>Nothing above the bound is ever stored: in every store that any operations and sweeps lead to
  each recorded message is at most the maximal payload, and an append with one larger message is
  refused whole, the store as it was.\<close>

theorem stored_messages_fit:
  assumes "store_reachable sz s"
  shows "(\<forall>m \<in> set (stream_of s x). sz (rm_message m) \<le> MAX_PAYLOAD_BYTES) \<and>
         ((\<exists>p \<in> set (ar_input req # ar_outputs req). sz (pm_message p) > MAX_PAYLOAD_BYTES) \<longrightarrow>
            (\<exists>n > MAX_PAYLOAD_BYTES.
               store_append sz b now x req s = (Inl (PayloadTooLarge n MAX_PAYLOAD_BYTES), s)))"
proof (intro conjI impI)
  have "messages_fit sz s"
    using assms
  proof (induction rule: store_reachable.induct)
    case empty
    show ?case by (simp add: messages_fit_def stream_of_def inner_empty_def)
  qed (blast intro: step_fits prune_fits)+
  then show "\<forall>m \<in> set (stream_of s x). sz (rm_message m) \<le> MAX_PAYLOAD_BYTES" by (simp add: messages_fit_def)
next
  assume "\<exists>p \<in> set (ar_input req # ar_outputs req). sz (pm_message p) > MAX_PAYLOAD_BYTES"
  then obtain p where p: "List.find (\<lambda>m. payload_size sz m > MAX_PAYLOAD_BYTES) (ar_input req # ar_outputs req) = Some p"
    by (metis find_None_iff option.exhaust payload_size_def)
  then have "payload_size sz p > MAX_PAYLOAD_BYTES" unfolding find_Some_iff by metis
  with p show "\<exists>n > MAX_PAYLOAD_BYTES.
               store_append sz b now x req s = (Inl (PayloadTooLarge n MAX_PAYLOAD_BYTES), s)"
    by (auto simp: store_append_def check_payloads_def)
qed

end
