(* ===== verification/Facts.thy ===== *)
theory Facts
  imports Scope
begin

text \<open>
  What a committed decision publishes: \<open>facts.rs\<close>, over the envelope of \<open>aiwatcher-core\<close>. The
  derived \<open>Serialize\<close> that \<open>serde_json::to_value\<close> runs on an envelope is a parameter. Decisions
  and scheduling stay in the store; only facts about work become envelopes.
\<close>

definition PUBLISHER_SERVICE :: string where "PUBLISHER_SERVICE = ''aiwatcher-execution''"

datatype published_by = ByEngine | ByWorker

fun published_by_str :: "published_by \<Rightarrow> string" where
  "published_by_str ByEngine = ''engine''"
| "published_by_str ByWorker = ''worker''"

text \<open>The event types of \<open>catalog.rs\<close> that the engine publishes.\<close>

datatype fact_type = FWorkflowDeclared | FExecutionRequested | FExecutionStarted | FStepStarted
  | FStepCompleted | FArtifactProduced | FStepFailed | FExecutionAwaitingInput | FExecutionPaused
  | FExecutionResumed | FExecutionCompleted | FExecutionFailed | FExecutionCancelled

fun fact_type_str :: "fact_type \<Rightarrow> string" where
  "fact_type_str FWorkflowDeclared = ''workflow.declared''"
| "fact_type_str FExecutionRequested = ''execution.requested''"
| "fact_type_str FExecutionStarted = ''execution.started''"
| "fact_type_str FStepStarted = ''step.started''"
| "fact_type_str FStepCompleted = ''step.completed''"
| "fact_type_str FArtifactProduced = ''artifact.produced''"
| "fact_type_str FStepFailed = ''step.failed''"
| "fact_type_str FExecutionAwaitingInput = ''execution.awaiting_input''"
| "fact_type_str FExecutionPaused = ''execution.paused''"
| "fact_type_str FExecutionResumed = ''execution.resumed''"
| "fact_type_str FExecutionCompleted = ''execution.completed''"
| "fact_type_str FExecutionFailed = ''execution.failed''"
| "fact_type_str FExecutionCancelled = ''execution.cancelled''"

datatype sdk = SdkPython | SdkTypescript | SdkRust | SdkOther string

record event_source =
  so_service :: string
  so_instance :: "string option"
  so_sdk :: sdk
  so_client :: "string option"

definition source_new :: "string \<Rightarrow> sdk \<Rightarrow> event_source" where
  "source_new service k = \<lparr>so_service = service, so_instance = None, so_sdk = k, so_client = None\<rparr>"

text \<open>The fields of the envelope that this crate writes; every other one keeps \<open>new\<close>'s \<open>None\<close>.\<close>

record event_envelope =
  ev_schema_version :: u16
  ev_event_id :: "string option"
  ev_event_type :: fact_type
  ev_occurred_at :: instant
  ev_run_id :: string
  ev_workflow_id :: "string option"
  ev_workflow_run_id :: "string option"
  ev_correlation_id :: "string option"
  ev_causation_id :: "string option"
  ev_project :: "project_scope option"
  ev_source :: event_source
  ev_data :: json

definition envelope_new :: "fact_type \<Rightarrow> string \<Rightarrow> instant \<Rightarrow> event_source \<Rightarrow> event_envelope" where
  "envelope_new event_type run_id occurred_at source =
     \<lparr>ev_schema_version = SCHEMA_VERSION, ev_event_id = None, ev_event_type = event_type,
      ev_occurred_at = occurred_at, ev_run_id = run_id, ev_workflow_id = None,
      ev_workflow_run_id = None, ev_correlation_id = None, ev_causation_id = None,
      ev_project = None, ev_source = source, ev_data = JNull\<rparr>"

record fact_context =
  fc_execution :: string
  fc_plan :: execution_plan
  fc_owner :: execution_owner
  fc_occurred_at :: instant
  fc_cause :: string

subsection \<open>Payloads\<close>

fun node_kind :: "runtime_binding \<Rightarrow> string" where
  "node_kind (FlowPhp _) = ''retriever''"
| "node_kind (DataFusion _) = ''retriever''"
| "node_kind (DuckDb _) = ''retriever''"
| "node_kind (Marimo _) = ''chain''"
| "node_kind (PythonTask _) = ''chain''"
| "node_kind (ContainerJob _) = ''chain''"
| "node_kind (PublishDataset _) = ''chain''"
| "node_kind (ScoreEvaluation _) = ''chain''"
| "node_kind (JudgeEvaluation _) = ''chain''"
| "node_kind (ExternalEvaluation _) = ''chain''"
| "node_kind (EvaluationCases _) = ''retriever''"
| "node_kind (EvaluationTraces _) = ''retriever''"
| "node_kind (HumanInput _) = ''guardrail''"

definition fact_declaration :: "execution_plan \<Rightarrow> json" where
  "fact_declaration plan = json_object
     [(''workflow_id'', JString (plan_name plan)), (''name'', JString (plan_name plan)),
      (''version'', JString (plan_id plan)),
      (''nodes'', JArray (map (\<lambda>step. json_object [(''id'', JString (ps_id step)),
          (''name'', JString (ps_id step)), (''kind'', JString (node_kind (ps_runtime step)))]) (plan_steps plan))),
      (''edges'', JArray (map (\<lambda>edge. json_object [(''from'', JString (edge_from edge)),
          (''to'', JString (edge_to edge))]) (plan_edges plan)))]"

definition fact_base :: "fact_context \<Rightarrow> json" where
  "fact_base c = json_object
     [(''plan_id'', JString (plan_id (fc_plan c))), (''owner'', JString (owner_as_string (fc_owner c)))]"

definition step_payload :: "fact_context \<Rightarrow> string \<Rightarrow> u32 \<Rightarrow> json" where
  "step_payload c i n =
     (let kind = (case plan_step_of (fc_plan c) i of None \<Rightarrow> ''chain'' | Some step \<Rightarrow> node_kind (ps_runtime step))
      in json_object
           [(''node'', JString i), (''name'', JString i), (''step_type'', JString kind),
            (''call_id'', JString (i @ ''/'' @ show_nat (unat n))), (''attempt'', json_u32 n),
            (''published_by'', JString (published_by_str ByEngine)),
            (''plan_id'', JString (plan_id (fc_plan c)))])"

definition artifact_payload :: "string \<Rightarrow> artifact_ref \<Rightarrow> json" where
  "artifact_payload i a = json_object
     [(''node'', JString i), (''name'', JString (art_name a)), (''uri'', JString (art_uri a)),
      (''digest'', JString (art_digest a)), (''size_bytes'', json_opt (\<lambda>n. JInt (uint n)) (art_size_bytes a)),
      (''media_type'', JString (art_content_type a)), (''kind'', JString (artifact_kind_as_str (art_kind a)))]"

definition fact_envelope :: "fact_type \<Rightarrow> fact_context \<Rightarrow> json \<Rightarrow> event_envelope" where
  "fact_envelope event_type c data =
     (envelope_new event_type (fc_execution c) (fc_occurred_at c) (source_new PUBLISHER_SERVICE SdkRust))
       \<lparr>ev_workflow_id := Some (plan_name (fc_plan c)), ev_workflow_run_id := Some (fc_execution c),
        ev_correlation_id := Some (fc_execution c), ev_causation_id := Some (fc_cause c), ev_data := data\<rparr>"

subsection \<open>Envelopes and outbox rows\<close>

fun envelopes_of :: "workflow_event \<Rightarrow> fact_context \<Rightarrow> event_envelope list" where
  "envelopes_of (ExecutionRequested r) c =
     [fact_envelope FWorkflowDeclared c (fact_declaration (fc_plan c)),
      fact_envelope FExecutionRequested c (json_object
        [(''plan_id'', JString (plan_id (fc_plan c))), (''owner'', JString (owner_as_string (fc_owner c))),
         (''requested_by'', JString (st_requested_by r)),
         (''steps'', JInt (int (length (plan_steps (fc_plan c)))))])]"
| "envelopes_of ExecutionStarted c = [fact_envelope FExecutionStarted c (fact_base c)]"
| "envelopes_of (StepStarted i n) c = [fact_envelope FStepStarted c (step_payload c i n)]"
| "envelopes_of (StepCompleted i n outputs _) c =
     fact_envelope FStepCompleted c (step_payload c i n) #
     map (\<lambda>a. fact_envelope FArtifactProduced c (artifact_payload i a)) outputs"
| "envelopes_of (StepFailed i n error) c =
     [fact_envelope FStepFailed c
        (json_insert ''failure_class'' (JString (failure_as_str (err_class error)))
           (json_insert ''error'' (JString (err_message error)) (step_payload c i n)))]"
| "envelopes_of (StepCacheHit i n key _) c =
     [fact_envelope FStepCompleted c
        (json_insert ''cache_key'' (JString key)
           (json_insert ''state_name'' (JString ''Cached'') (step_payload c i n)))]"
| "envelopes_of (InputRequested i _ request) c =
     [fact_envelope FExecutionAwaitingInput c
        (json_insert ''role'' (JString (rq_role request)) (json_insert ''node'' (JString i) (fact_base c)))]"
| "envelopes_of ExecutionPaused c = [fact_envelope FExecutionPaused c (fact_base c)]"
| "envelopes_of ExecutionResumed c = [fact_envelope FExecutionResumed c (fact_base c)]"
| "envelopes_of ExecutionCompleted c = [fact_envelope FExecutionCompleted c (fact_base c)]"
| "envelopes_of (ExecutionFailed reason) c =
     [fact_envelope FExecutionFailed c (json_insert ''reason'' (JString reason) (fact_base c))]"
| "envelopes_of ExecutionCancelled c = [fact_envelope FExecutionCancelled c (fact_base c)]"
| "envelopes_of (StepScheduled _ _ _ _) c = []"
| "envelopes_of (StepRetryScheduled _ _ _) c = []"
| "envelopes_of (StepSkipped _ _) c = []"
| "envelopes_of (InputProvided _ _ _ _) c = []"
| "envelopes_of (ExecutionCancelling _) c = []"

definition fact_id :: "crates \<Rightarrow> fact_context \<Rightarrow> nat \<Rightarrow> string" where
  "fact_id C c ordinal =
     derive_uuid C (''aiwatcher/execution/fact/'' @ fc_execution c @ ''/'' @ fc_cause c @ ''/'' @ show_nat ordinal)"

definition envelopes_for :: "crates \<Rightarrow> workflow_event \<Rightarrow> fact_context \<Rightarrow> event_envelope list" where
  "envelopes_for C event c =
     map (\<lambda>(ordinal, e). e\<lparr>ev_event_id := Some (fact_id C c ordinal)\<rparr>) (enumerate 0 (envelopes_of event c))"

definition outbox_row :: "(event_envelope \<Rightarrow> json) \<Rightarrow> string \<Rightarrow> event_envelope \<Rightarrow> outbox_message option" where
  "outbox_row to_value execution e =
     map_option (\<lambda>message_id.
       \<lparr>ob_message_id = message_id, ob_event_type = fact_type_str (ev_event_type e),
        ob_partition_key = ''workflow:'' @ execution, ob_payload = to_value e,
        ob_available_at = ev_occurred_at e, ob_attempts = 0, ob_published_at = None, ob_last_error = None\<rparr>)
     (ev_event_id e)"

definition outbox_rows :: "(event_envelope \<Rightarrow> json) \<Rightarrow> event_envelope list \<Rightarrow> string \<Rightarrow> outbox_message list" where
  "outbox_rows to_value envelopes execution = List.map_filter (outbox_row to_value execution) envelopes"

text \<open>The facts of the events of one decision: the cause of each is the input with its position.\<close>

definition facts_of ::
  "crates \<Rightarrow> (event_envelope \<Rightarrow> json) \<Rightarrow> fact_context \<Rightarrow> workflow_event list \<Rightarrow> outbox_message list" where
  "facts_of C to_value c events =
     outbox_rows to_value
       (concat (map (\<lambda>(ordinal, event). envelopes_for C event (c\<lparr>fc_cause := fc_cause c @ ''#'' @ show_nat ordinal\<rparr>))
                    (enumerate 0 events)))
       (fc_execution c)"

lemma facts_partition: "row \<in> set (facts_of C to_value c events) \<Longrightarrow>
    ob_partition_key row = ''workflow:'' @ fc_execution c \<and> ob_published_at row = None"
  by (auto simp: facts_of_def outbox_rows_def map_filter_def outbox_row_def split: if_splits option.splits)

end
