(* ===== verification/Handler.thy ===== *)
theory Handler
  imports Store_Retention Facts
begin

text \<open>
  The one place \<open>decide\<close> and the store meet: \<open>handler.rs\<close>. One input is handled by loading the
  stream, answering a redelivery from it, deciding on the folded state and appending the whole of
  the decision; a lost race is retried. Between the load and the append other callers may act:
  what they do before the append of pass \<open>k\<close> is the field \<open>en_others\<close> of the environment the
  handler runs in, so an interleaving is one value of it.
\<close>

subsection \<open>Refusals and results\<close>

definition MAX_CONFLICT_RETRIES :: u32 where "MAX_CONFLICT_RETRIES = 3"

datatype handle_error =
    HDecision decision_error
  | HStore store_error
  | HContended u32
  | HNeedsMultiProcess string

fun handle_same_next_time :: "handle_error \<Rightarrow> bool" where
  "handle_same_next_time (HDecision _) = True"
| "handle_same_next_time (HNeedsMultiProcess _) = True"
| "handle_same_next_time (HContended _) = False"
| "handle_same_next_time (HStore err) = store_same_next_time err"

record handled =
  hd_outcome :: append_outcome
  hd_projection :: run_projection
  hd_outbox :: "outbox_message list"
  hd_duplicate :: bool

text \<open>
  What a handler runs with: the third-party functions, the binding of its store, the clock the
  store stamps a message with, and what others do to the store before each append.
\<close>

record engine =
  en_crates :: crates
  en_size :: "workflow_message \<Rightarrow> nat"
  en_to_value :: "event_envelope \<Rightarrow> json"
  en_capabilities :: store_capabilities
  en_binding :: scope_binding
  en_clock :: instant
  en_others :: "nat \<Rightarrow> inner \<Rightarrow> inner"

subsection \<open>What is derived from a decision\<close>

definition projection_of :: "string \<Rightarrow> execution_state \<Rightarrow> nat \<Rightarrow> run_projection" where
  "projection_of execution st version =
     (case active st of
        Some run \<Rightarrow>
          \<lparr>rp_execution_id = execution, rp_plan_id = plan_id (ex_plan run),
           rp_definition_name = plan_name (ex_plan run), rp_owner = ex_owner run, rp_mode = ex_mode run,
           rp_payloads = ex_payloads run, rp_state = ex_state run, rp_requested_by = ex_requested_by run,
           rp_steps = bt_values (ex_steps run), rp_last_message_version = version,
           rp_created_at = ex_created_at run\<rparr>
      | None \<Rightarrow>
          \<lparr>rp_execution_id = execution, rp_plan_id = [], rp_definition_name = [], rp_owner = OwnerLocal,
           rp_mode = Compiled, rp_payloads = External, rp_state = state_of Scheduled, rp_requested_by = [],
           rp_steps = [], rp_last_message_version = version, rp_created_at = unix_epoch\<rparr>)"

definition deadline_timer_id :: "string \<Rightarrow> u32 \<Rightarrow> string" where
  "deadline_timer_id i n = ''input/'' @ i @ ''/'' @ show_nat (unat n)"

definition deadline_timer :: "string \<Rightarrow> string \<Rightarrow> u32 \<Rightarrow> instant \<Rightarrow> timer" where
  "deadline_timer execution i n due_at =
     \<lparr>tm_execution = execution, tm_timer_id = deadline_timer_id i n, tm_due_at = due_at,
      tm_message = \<lparr>hm_message_type = DEADLINE_TIMER,
                    hm_metadata = json_object [(''step_id'', JString i), (''attempt'', json_u32 n)],
                    hm_payload = None\<rparr>\<rparr>"

text \<open>The steps this decision saw asking or being answered, and those whose plan sets a clock.\<close>

fun waiting_step :: "workflow_event \<Rightarrow> string option" where
  "waiting_step (InputRequested i _ _) = Some i"
| "waiting_step (InputProvided i _ _ _) = Some i"
| "waiting_step _ = None"

definition has_deadline :: "execution \<Rightarrow> pending_message list \<Rightarrow> string \<Rightarrow> bool" where
  "has_deadline run outputs i =
     (i \<in> set (List.map_filter waiting_step (events_of outputs)) \<or>
      (case plan_human_input run i of None \<Rightarrow> False | Some spec \<Rightarrow> hi_timeout_seconds spec \<noteq> None))"

fun deadline_row :: "string \<Rightarrow> (string \<Rightarrow> bool) \<Rightarrow> workflow_event \<Rightarrow> timer_write option" where
  "deadline_row execution clocked (InputRequested i n request) =
     map_option (\<lambda>due_at. ScheduleTimer (deadline_timer execution i n due_at)) (rq_deadline request)"
| "deadline_row execution clocked (InputProvided i n _ _) =
     (if clocked i then Some (CancelTimer (deadline_timer_id i n)) else None)"
| "deadline_row execution clocked (StepCompleted i n _ _) =
     (if clocked i then Some (CancelTimer (deadline_timer_id i n)) else None)"
| "deadline_row execution clocked (StepFailed i n _) =
     (if clocked i then Some (CancelTimer (deadline_timer_id i n)) else None)"
| "deadline_row execution clocked _ = None"

definition deadline_rows :: "string \<Rightarrow> execution_state \<Rightarrow> pending_message list \<Rightarrow> timer_write list" where
  "deadline_rows execution after outputs =
     (case active after of
        None \<Rightarrow> []
      | Some run \<Rightarrow>
          List.map_filter (deadline_row execution (has_deadline run outputs)) (events_of outputs))"

definition dispatched :: "execution \<Rightarrow> string \<Rightarrow> bool" where
  "dispatched run i =
     (case plan_step_of (ex_plan run) i of
        None \<Rightarrow> False
      | Some step \<Rightarrow> (case ps_runtime step of HumanInput _ \<Rightarrow> False | _ \<Rightarrow> True))"

definition dispatched_attempt :: "execution \<Rightarrow> string \<Rightarrow> u32 option" where
  "dispatched_attempt run i =
     (if \<not> dispatched run i then None
      else case ex_step run i of
             None \<Rightarrow> None
           | Some s \<Rightarrow> if ss_current_attempt s > 0 then Some (ss_current_attempt s) else None)"

fun settled :: "workflow_event \<Rightarrow> (string \<times> u32) option" where
  "settled (StepCompleted i n _ _) = Some (i, n)"
| "settled (StepCacheHit i n _ _) = Some (i, n)"
| "settled (StepFailed i n _) = Some (i, n)"
| "settled _ = None"

fun retry_instant :: "string \<Rightarrow> u32 \<Rightarrow> workflow_event \<Rightarrow> instant option" where
  "retry_instant i n (StepRetryScheduled j m not_before) = (if j = i \<and> m = n then Some not_before else None)"
| "retry_instant i n _ = None"

definition retry_delay_of :: "pending_message list \<Rightarrow> string \<Rightarrow> u32 \<Rightarrow> instant option" where
  "retry_delay_of outputs i n =
     (case List.map_filter (retry_instant i n) (events_of outputs) of [] \<Rightarrow> None | at # _ \<Rightarrow> Some at)"

text \<open>The row a dispatch makes claimable: on its queue when it is pulled, not before its retry.\<close>

definition dispatch_row ::
  "string \<Rightarrow> execution \<Rightarrow> pending_message list \<Rightarrow> string \<Rightarrow> string \<Rightarrow> u32 \<Rightarrow> runtime_kind \<Rightarrow> attempt_row" where
  "dispatch_row execution run outputs command_id i n runtime =
     (let row = row_claimable (AttemptKey execution i n) runtime command_id;
          queued = (case plan_step_of (ex_plan run) i of
                      None \<Rightarrow> row
                    | Some step \<Rightarrow>
                        (case ps_runtime step of
                           PythonTask spec \<Rightarrow> on_queue (pt_queue spec) (pt_task_ref spec) row
                         | ContainerJob spec \<Rightarrow> on_queue (cj_queue spec) (cj_task_ref spec) row
                         | _ \<Rightarrow> row))
      in case retry_delay_of outputs i n of
           None \<Rightarrow> queued
         | Some at \<Rightarrow> with_not_before at queued)"

fun attempt_row_of ::
  "string \<Rightarrow> execution \<Rightarrow> pending_message list \<Rightarrow> string \<Rightarrow> workflow_message \<Rightarrow> attempt_write option" where
  "attempt_row_of execution run outputs mid (Command (ExecuteStep i n runtime _)) =
     Some (Dispatch (dispatch_row execution run outputs mid i n runtime))"
| "attempt_row_of execution run outputs mid (Event (InputRequested i n _)) =
     (if dispatched run i then Some (Park (AttemptKey execution i n)) else None)"
| "attempt_row_of execution run outputs mid (Event (InputProvided i n _ _)) =
     (if dispatched run i then Some (Retire (AttemptKey execution i n)) else None)"
| "attempt_row_of execution run outputs mid (Event (StepSkipped i _)) =
     map_option (\<lambda>n. Retire (AttemptKey execution i n)) (dispatched_attempt run i)"
| "attempt_row_of execution run outputs mid (Event event) =
     map_option (\<lambda>(i, n). Retire (AttemptKey execution i n)) (settled event)"
| "attempt_row_of execution run outputs mid _ = None"

definition attempt_rows :: "string \<Rightarrow> execution_state \<Rightarrow> pending_message list \<Rightarrow> attempt_write list" where
  "attempt_rows execution after outputs =
     (case active after of
        None \<Rightarrow> []
      | Some run \<Rightarrow>
          List.map_filter
            (\<lambda>m. attempt_row_of execution run outputs (md_message_id (pm_metadata m)) (pm_message m)) outputs)"

definition decision_facts ::
  "engine \<Rightarrow> string \<Rightarrow> execution_state \<Rightarrow> pending_message list \<Rightarrow> message_metadata \<Rightarrow> outbox_message list" where
  "decision_facts en execution after outputs md =
     (case active after of
        None \<Rightarrow> []
      | Some run \<Rightarrow>
          facts_of (en_crates en) (en_to_value en)
            \<lparr>fc_execution = execution, fc_plan = ex_plan run, fc_owner = ex_owner run,
             fc_occurred_at = md_occurred_at md, fc_cause = md_message_id md\<rparr>
            (events_of outputs))"

subsection \<open>Deciding and appending\<close>

text \<open>The whole of one decision, as the request that appends it.\<close>

definition decision_request ::
  "engine \<Rightarrow> string \<Rightarrow> workflow_message \<Rightarrow> message_metadata \<Rightarrow> (string \<times> checkpoint) option \<Rightarrow>
   execution_ownership option \<Rightarrow> stream_slice \<Rightarrow> pending_message list \<Rightarrow> append_request" where
  "decision_request en execution input md checkpoint ownership sl outputs =
     (let after = foldl evolve (replay (slice_events sl)) (events_of outputs)
      in \<lparr>ar_expected_version = (if slice_is_empty sl then NoStream else Exact (ss_version sl)),
          ar_input = pending_input input md, ar_outputs = outputs,
          ar_projection = projection_of execution after (ss_version sl + 1 + length outputs),
          ar_outbox = decision_facts en execution after outputs md, ar_checkpoint = checkpoint,
          ar_timers = deadline_rows execution after outputs,
          ar_attempts = attempt_rows execution after outputs, ar_ownership = ownership\<rparr>)"

text \<open>The answer to a redelivery, with the check a repeated start still owes.\<close>

definition duplicate_answer ::
  "engine \<Rightarrow> string \<Rightarrow> execution_ownership option \<Rightarrow> stream_slice \<Rightarrow> recorded_message \<Rightarrow> inner \<Rightarrow>
   handle_error + handled" where
  "duplicate_answer en execution ownership sl seen s =
     (let answer = \<lparr>hd_outcome = Duplicate (rm_stream_version seen),
                    hd_projection = projection_of execution (replay (slice_events sl)) (ss_version sl),
                    hd_outbox = [], hd_duplicate = True\<rparr>
      in case ownership of
           None \<Rightarrow> Inr answer
         | Some wanted \<Rightarrow>
             (case store_ownership (en_binding en) execution s of
                Inl err \<Rightarrow> Inl (HStore err)
              | Inr held \<Rightarrow>
                  if held \<noteq> Some wanted
                  then Inl (HStore (OwnershipConflict execution
                         (case held of None \<Rightarrow> scope_label Global | Some owner \<Rightarrow> ow_label owner)))
                  else Inr answer))"

text \<open>
  One pass of the loop, with \<open>k\<close> the passes left after it: the load, what the others do, the
  append. \<open>None\<close> says the race was lost and the loop goes on.
\<close>

definition handle_pass ::
  "engine \<Rightarrow> string \<Rightarrow> workflow_message \<Rightarrow> message_metadata \<Rightarrow> instant \<Rightarrow> (string \<times> checkpoint) option \<Rightarrow>
   execution_ownership option \<Rightarrow> nat \<Rightarrow> inner \<Rightarrow> (handle_error + handled) option \<times> inner" where
  "handle_pass en execution input md now checkpoint ownership k s =
     (case store_load (en_binding en) execution s of
        Inl err \<Rightarrow> (Some (Inl (HStore err)), s)
      | Inr sl \<Rightarrow>
          (case List.find (\<lambda>m. md_message_id (rm_metadata m) = md_message_id md) (ss_messages sl) of
             Some seen \<Rightarrow> (Some (duplicate_answer en execution ownership sl seen s), s)
           | None \<Rightarrow>
               (case decide (en_crates en) (replay (slice_events sl)) input (md_message_id md) now of
                  Inl err \<Rightarrow> (Some (Inl (HDecision err)), s)
                | Inr outputs \<Rightarrow>
                    let req = decision_request en execution input md checkpoint ownership sl outputs
                    in case store_append (en_size en) (en_binding en) (en_clock en) execution req (en_others en k s) of
                         (Inr outcome, s') \<Rightarrow>
                           (Some (Inr \<lparr>hd_outcome = outcome, hd_projection = ar_projection req,
                                       hd_outbox = (if is_duplicate outcome then [] else ar_outbox req),
                                       hd_duplicate = is_duplicate outcome\<rparr>), s')
                       | (Inl (VersionConflict _ _), s') \<Rightarrow> (None, s')
                       | (Inl err, s') \<Rightarrow> (Some (Inl (HStore err)), s'))))"

fun handle_loop ::
  "engine \<Rightarrow> string \<Rightarrow> workflow_message \<Rightarrow> message_metadata \<Rightarrow> instant \<Rightarrow> (string \<times> checkpoint) option \<Rightarrow>
   execution_ownership option \<Rightarrow> nat \<Rightarrow> inner \<Rightarrow> (handle_error + handled) \<times> inner" where
  "handle_loop en execution input md now checkpoint ownership 0 s = (Inl (HContended MAX_CONFLICT_RETRIES), s)"
| "handle_loop en execution input md now checkpoint ownership (Suc k) s =
     (case handle_pass en execution input md now checkpoint ownership k s of
        (Some answer, s') \<Rightarrow> (answer, s')
      | (None, s') \<Rightarrow> handle_loop en execution input md now checkpoint ownership k s')"

definition decide_and_append ::
  "engine \<Rightarrow> string \<Rightarrow> workflow_message \<Rightarrow> message_metadata \<Rightarrow> instant \<Rightarrow> (string \<times> checkpoint) option \<Rightarrow>
   execution_ownership option \<Rightarrow> inner \<Rightarrow> (handle_error + handled) \<times> inner" where
  "decide_and_append en execution input md now checkpoint ownership s =
     handle_loop en execution input md now checkpoint ownership (Suc (unat MAX_CONFLICT_RETRIES)) s"

text \<open>Whether the store can carry out a plan: a store of one process takes neither a hosted run nor a
  step that another process claims.\<close>

text \<open>The UTF-8 bytes of an em dash.\<close>

definition em_dash :: string where
  "em_dash = [CHR 0xE2, CHR 0x80, CHR 0x94]"

definition quoted :: "string \<Rightarrow> string" where
  "quoted step = [CHR 0x27] @ step @ [CHR 0x27]"

definition check_capacity :: "store_capabilities \<Rightarrow> execution_plan \<Rightarrow> execution_mode \<Rightarrow> handle_error + unit" where
  "check_capacity cap plan mode =
     (if cap_multi_process cap then Inr ()
      else if mode = Hosted then
        Inl (HNeedsMultiProcess
          (''a hosted execution '' @ em_dash @ '' the worker that decides it is another process''))
      else let pulled = steps_needing_another_process plan
           in if pulled = [] then Inr ()
              else Inl (HNeedsMultiProcess
                (join_with '', '' (map quoted pulled) @ '' '' @ em_dash @
                 '' a worker in another process claims '' @ (if length pulled = 1 then ''it'' else ''them''))))"

definition handle_with_checkpoint ::
  "engine \<Rightarrow> string \<Rightarrow> workflow_message \<Rightarrow> message_metadata \<Rightarrow> instant \<Rightarrow> (string \<times> checkpoint) option \<Rightarrow>
   execution_ownership option \<Rightarrow> inner \<Rightarrow> (handle_error + handled) \<times> inner" where
  "handle_with_checkpoint en execution input md now checkpoint ownership s =
     (if is_some_and is_effect (message_command input)
      then (Inl (HDecision (Unhandled (message_name input))), s)
      else case (case message_command input of
                   Some (StartExecution r) \<Rightarrow> check_capacity (en_capabilities en) (st_plan r) (st_mode r)
                 | _ \<Rightarrow> Inr ()) of
             Inl err \<Rightarrow> (Inl err, s)
           | Inr _ \<Rightarrow> decide_and_append en execution input md now checkpoint ownership s)"

definition handle_input ::
  "engine \<Rightarrow> string \<Rightarrow> workflow_message \<Rightarrow> message_metadata \<Rightarrow> instant \<Rightarrow> inner \<Rightarrow> (handle_error + handled) \<times> inner" where
  "handle_input en execution input md now s = handle_with_checkpoint en execution input md now None None s"

definition handle_start ::
  "engine \<Rightarrow> string \<Rightarrow> workflow_message \<Rightarrow> message_metadata \<Rightarrow> instant \<Rightarrow> execution_ownership option \<Rightarrow> inner \<Rightarrow>
   (handle_error + handled) \<times> inner" where
  "handle_start en execution input md now ownership s =
     handle_with_checkpoint en execution input md now None ownership s"

definition handle_deliver ::
  "engine \<Rightarrow> string \<Rightarrow> workflow_message \<Rightarrow> message_metadata \<Rightarrow> instant \<Rightarrow> inner \<Rightarrow> (handle_error + handled) \<times> inner" where
  "handle_deliver en execution input md now s = decide_and_append en execution input md now None None s"

definition handle_from_log ::
  "engine \<Rightarrow> string \<Rightarrow> workflow_message \<Rightarrow> message_metadata \<Rightarrow> instant \<Rightarrow> string \<Rightarrow> checkpoint \<Rightarrow> inner \<Rightarrow>
   (handle_error + handled) \<times> inner" where
  "handle_from_log en execution input md now processor c s =
     (case handle_with_checkpoint en execution input md now (Some (processor, c)) None s of
        (Inl err, s') \<Rightarrow> (Inl err, s')
      | (Inr answer, s') \<Rightarrow>
          if hd_duplicate answer
          then (case store_advance_checkpoint (en_binding en) processor c s' of
                  (Inl err, s'') \<Rightarrow> (Inl (HStore err), s'')
                | (Inr _, s'') \<Rightarrow> (Inr answer, s''))
          else (Inr answer, s'))"

end
