(* ===== verification/Activity.thy ===== *)
theory Activity
  imports Claim Scope
begin

text \<open>
  What a reactor hands to an executor and what it gets back: \<open>activity.rs\<close>, the authority it asks
  (\<open>authority.rs\<close>), and the cache entries and provenance it records (\<open>artifact/mod.rs\<close>). A runtime
  behind an executor is not the repository's code: it is the functions of an \<open>activity_executor\<close>.
\<close>

subsection \<open>Failures and results\<close>

record activity_error =
  ae_class :: failure_class
  ae_message :: string

definition ae_new :: "failure_class \<Rightarrow> string \<Rightarrow> activity_error" where
  "ae_new class message = \<lparr>ae_class = class, ae_message = message\<rparr>"

definition ae_user_code :: "string \<Rightarrow> activity_error" where
  "ae_user_code message = ae_new FUserCode message"

definition ae_transient :: "string \<Rightarrow> activity_error" where
  "ae_transient message = ae_new FTransient message"

definition ae_timed_out :: "string \<Rightarrow> activity_error" where
  "ae_timed_out message = ae_new FTimeout message"

definition as_step_error :: "activity_error \<Rightarrow> step_error" where
  "as_step_error e = \<lparr>err_class = ae_class e, err_message = ae_message e\<rparr>"

record activity_result =
  res_outputs :: "artifact_ref list"
  res_result :: "json option"
  res_diagnostics :: "string option"
  res_awaiting :: "input_request option"
  res_cacheable :: bool

definition result_default :: activity_result where
  "result_default =
     \<lparr>res_outputs = [], res_result = None, res_diagnostics = None, res_awaiting = None, res_cacheable = True\<rparr>"

datatype prior_attempt = StillRunning | Done activity_result | Absent

datatype stop_reason = RunStopping | TimedOut

fun stop_error :: "stop_reason \<Rightarrow> activity_error" where
  "stop_error RunStopping = ae_new FPolicy ''stopped: the execution is no longer running''"
| "stop_error TimedOut = ae_timed_out ''stopped: the step ran past its timeout''"

subsection \<open>The stop signal\<close>

record stop_signal =
  sg_token :: bool
  sg_reason :: "stop_reason option"
  sg_committing :: u64

definition signal_new :: stop_signal where
  "signal_new = \<lparr>sg_token = False, sg_reason = None, sg_committing = 0\<rparr>"

text \<open>\<open>OnceLock::set\<close> keeps the first value; \<open>stop\<close> sets the reason and then cancels the token.\<close>

definition signal_set_reason :: "stop_reason \<Rightarrow> stop_signal \<Rightarrow> stop_signal" where
  "signal_set_reason r sg = sg\<lparr>sg_reason := (case sg_reason sg of None \<Rightarrow> Some r | Some kept \<Rightarrow> Some kept)\<rparr>"

definition signal_stop :: "stop_reason \<Rightarrow> stop_signal \<Rightarrow> stop_signal" where
  "signal_stop r sg = (signal_set_reason r sg)\<lparr>sg_token := True\<rparr>"

definition signal_requested :: "stop_signal \<Rightarrow> stop_reason option" where
  "signal_requested sg = sg_reason sg"

text \<open>\<open>stopped\<close> resolves once the token is cancelled; \<open>None\<close> is a future that still waits.\<close>

definition signal_stopped :: "stop_signal \<Rightarrow> stop_reason option" where
  "signal_stopped sg =
     (if sg_token sg then Some (case signal_requested sg of None \<Rightarrow> RunStopping | Some r \<Rightarrow> r) else None)"

definition signal_check :: "stop_signal \<Rightarrow> activity_error + unit" where
  "signal_check sg = (case signal_requested sg of None \<Rightarrow> Inr () | Some r \<Rightarrow> Inl (stop_error r))"

definition or_stopped :: "activity_error \<Rightarrow> stop_signal \<Rightarrow> activity_error" where
  "or_stopped e sg = (case signal_requested sg of None \<Rightarrow> e | Some r \<Rightarrow> stop_error r)"

definition signal_count :: "stop_signal \<Rightarrow> stop_signal" where
  "signal_count sg = sg\<lparr>sg_committing := sg_committing sg + 1\<rparr>"

definition drop_commit :: "stop_signal \<Rightarrow> stop_signal" where
  "drop_commit sg = sg\<lparr>sg_committing := sg_committing sg - 1\<rparr>"

definition is_committing :: "stop_signal \<Rightarrow> bool" where
  "is_committing sg = (sg_committing sg > 0)"

text \<open>\<open>committing\<close> run without interruption: counted before the look, and the guard of a refused
  commit dropped again.\<close>

definition signal_committing :: "stop_signal \<Rightarrow> (activity_error + unit) \<times> stop_signal" where
  "signal_committing sg =
     (case signal_check (signal_count sg) of
        Inl e \<Rightarrow> (Inl e, drop_commit (signal_count sg))
      | Inr _ \<Rightarrow> (Inr (), signal_count sg))"

subsection \<open>Commands and executors\<close>

record activity_command =
  ac_key :: attempt_key
  ac_command_id :: string
  ac_step :: plan_step
  ac_inputs :: "artifact_ref list"
  ac_parameters :: "(string, json) btree"
  ac_answers :: "input_answer list"

definition ac_idempotency_key :: "activity_command \<Rightarrow> string" where
  "ac_idempotency_key command = key_idempotency (ac_key command)"

record activity_context =
  cx_owner :: string
  cx_timeout :: int
  cx_context_id :: string
  cx_plan :: execution_plan
  cx_stop :: stop_signal

record activity_executor =
  ax_runtime :: runtime_kind
  ax_execute :: "activity_command \<Rightarrow> activity_context \<Rightarrow> activity_error + activity_result"
  ax_lookup :: "activity_command \<Rightarrow> activity_error + prior_attempt"

text \<open>The trait's default of \<open>lookup\<close>: a runtime that cannot be asked.\<close>

definition lookup_default :: "activity_command \<Rightarrow> activity_error + prior_attempt" where
  "lookup_default command = Inr Absent"

subsection \<open>The registry\<close>

type_synonym executor_registry = "activity_executor list"

definition registry_with :: "executor_registry \<Rightarrow> activity_executor \<Rightarrow> executor_registry" where
  "registry_with reg ex = filter (\<lambda>held. ax_runtime held \<noteq> ax_runtime ex) reg @ [ex]"

definition registry_merge :: "executor_registry \<Rightarrow> executor_registry \<Rightarrow> executor_registry" where
  "registry_merge reg others = foldl registry_with reg others"

definition registry_get :: "executor_registry \<Rightarrow> runtime_kind \<Rightarrow> activity_executor option" where
  "registry_get reg runtime = List.find (\<lambda>ex. ax_runtime ex = runtime) reg"

definition registry_runtimes :: "executor_registry \<Rightarrow> runtime_kind list" where
  "registry_runtimes reg = map ax_runtime reg"

definition registry_filter :: "executor_registry \<Rightarrow> claim_filter" where
  "registry_filter reg = for_runtimes (registry_runtimes reg)"

subsection \<open>Authority, cache entries and provenance\<close>

datatype admitting = Work | Publication

text \<open>\<open>None\<close> is consent; a refusal carries the class it is reported under.\<close>

type_synonym execution_authority = "execution_ownership option \<Rightarrow> admitting \<Rightarrow> activity_error option"

record provenance =
  pv_execution_id :: string
  pv_step_id :: string
  pv_attempt :: u32

record cataloged_artifact =
  ca_artifact :: artifact_ref
  ca_produced_by :: "provenance option"
  ca_inputs :: "string list"
  ca_created_at :: instant

record cache_entry =
  ce_cache_key :: string
  ce_artifacts :: "artifact_ref list"
  ce_created_at :: instant
  ce_expires_at :: "instant option"
  ce_invalidated_at :: "instant option"

definition is_usable :: "cache_entry \<Rightarrow> instant \<Rightarrow> bool" where
  "is_usable entry now = (ce_invalidated_at entry = None \<and> is_none_or (\<lambda>at. now < at) (ce_expires_at entry))"

subsection \<open>Laws of the registry\<close>

lemma registry_runtimes_simps [simp]:
  "registry_runtimes (registry_with reg ex) = filter (\<lambda>k. k \<noteq> ax_runtime ex) (registry_runtimes reg) @ [ax_runtime ex]"
  by (simp add: registry_runtimes_def registry_with_def filter_map comp_def)

lemma registry_with_distinct:
  "distinct (registry_runtimes reg) \<Longrightarrow> distinct (registry_runtimes (registry_with reg ex))"
  by simp

lemma registry_get_with:
  "registry_get (registry_with reg ex) k = (if k = ax_runtime ex then Some ex else registry_get reg k)"
proof (induction reg)
  case (Cons held reg)
  then show ?case by (auto simp: registry_get_def registry_with_def)
qed (simp add: registry_get_def registry_with_def)

text \<open>Of two registries the second wins a runtime they both name.\<close>

lemma registry_get_merge:
  assumes "distinct (registry_runtimes other)"
  shows "registry_get (registry_merge reg other) k =
     (case registry_get other k of Some ex \<Rightarrow> Some ex | None \<Rightarrow> registry_get reg k)"
  using assms
proof (induction other arbitrary: reg)
  case (Cons ex other)
  then have "ax_runtime ex \<notin> set (registry_runtimes other)" by (simp add: registry_runtimes_def)
  then have "registry_get other (ax_runtime ex) = None"
    by (auto simp: registry_get_def registry_runtimes_def find_None_iff image_iff)
  moreover have "registry_get (ex # other) k = (if k = ax_runtime ex then Some ex else registry_get other k)"
    by (simp add: registry_get_def)
  moreover have "registry_get (registry_merge (registry_with reg ex) other) k =
      (case registry_get other k of Some ex \<Rightarrow> Some ex | None \<Rightarrow> registry_get (registry_with reg ex) k)"
    using Cons by (simp add: registry_runtimes_def)
  ultimately show ?case
    by (auto simp: registry_merge_def registry_get_with split: option.splits)
qed (simp add: registry_merge_def registry_get_def)

lemma registry_get_None: "registry_get reg k = None \<longleftrightarrow> k \<notin> set (registry_runtimes reg)"
  by (auto simp: registry_get_def registry_runtimes_def find_None_iff)

text \<open>A row the registry's own filter asks for is one it holds an executor for, and nothing on a queue
  or claimed by its key is asked for at all.\<close>

lemma registry_claims_what_it_holds:
  assumes "filter_matches (registry_filter reg) row"
  shows "registry_get reg (row_runtime row) \<noteq> None \<and> row_queue row = None \<and> \<not> is_claimed_by_key (row_runtime row)"
  using assms
  by (auto simp: registry_filter_def for_runtimes_def filter_matches_def registry_get_None split: option.splits)

end
