(* ===== verification/Reactor.thy ===== *)
theory Reactor
  imports Handler Activity
begin

text \<open>
  Claiming an attempt, carrying it out and reporting what happened: \<open>reactor.rs\<close>. A pass is
  \<open>take\<close>, then \<open>perform\<close>, then \<open>settle_at\<close>, each a function on the store; between any two calls to
  the store the rest of the system may act, which is \<open>re_between\<close> at the gap's name and \<open>en_others\<close>
  between a load and its append. An operation returns what it did, the store it left and, for
  \<open>settle_at\<close>, the notes the catalog took. Logging is not modelled.
\<close>

subsection \<open>Answers\<close>

datatype performed =
    Idle
  | Reported string u32 bool
  | LeaseLost string u32
  | Released string string

record claimed =
  cl_row :: attempt_row
  cl_command :: activity_command
  cl_context :: activity_context
  cl_cache_key :: "string option"

datatype taken = TakenIdle | TakenSettled performed | TakenWork claimed

record watch =
  wt_every :: int
  wt_grace :: int

definition watch_default :: watch where
  "watch_default = \<lparr>wt_every = seconds 2, wt_grace = seconds 30\<rparr>"

text \<open>A quotation mark as text, which a string literal cannot hold.\<close>

definition apostrophe :: string where
  "apostrophe = [CHR 0x27]"

subsection \<open>The reactor\<close>

datatype catalog_note = NoteArtifact cataloged_artifact | NoteEntry cache_entry

text \<open>The catalog port: a lookup that may fail, and for each write whether it fails.\<close>

record artifact_catalog =
  cg_cached :: "string \<Rightarrow> instant \<Rightarrow> store_error + cache_entry option"
  cg_refuses :: "catalog_note \<Rightarrow> store_error option"

datatype reactor_gap = AfterClaim | BeforeLoad | BeforeReport | AfterLease

record reactor =
  re_engine :: engine
  re_executors :: executor_registry
  re_owner :: string
  re_catalog :: "artifact_catalog option"
  re_authority :: "execution_authority option"
  re_watch :: watch
  re_between :: "reactor_gap \<Rightarrow> inner \<Rightarrow> inner"

definition reactor_new :: "engine \<Rightarrow> executor_registry \<Rightarrow> string \<Rightarrow> reactor" where
  "reactor_new en reg owner =
     \<lparr>re_engine = en, re_executors = reg, re_owner = owner, re_catalog = None, re_authority = None,
      re_watch = watch_default, re_between = (\<lambda>_ s. s)\<rparr>"

definition load_execution :: "reactor \<Rightarrow> string \<Rightarrow> inner \<Rightarrow> handle_error + execution option" where
  "load_execution re execution s =
     (case store_load (en_binding (re_engine re)) execution s of
        Inl err \<Rightarrow> Inl (HStore err)
      | Inr sl \<Rightarrow> Inr (active (replay (slice_events sl))))"

subsection \<open>Reporting\<close>

definition report_name :: "attempt_key \<Rightarrow> string \<Rightarrow> string" where
  "report_name key what =
     ''aiwatcher/execution/report/'' @ ak_execution key @ ''/'' @ ak_step key @ ''/'' @
     show_nat (unat (ak_attempt key)) @ ''/'' @ what"

definition report_metadata :: "crates \<Rightarrow> attempt_key \<Rightarrow> instant \<Rightarrow> string \<Rightarrow> message_metadata" where
  "report_metadata C key now what =
     \<lparr>md_schema_version = SCHEMA_VERSION, md_message_id = derive_uuid C (report_name key what),
      md_occurred_at = now, md_correlation_id = ak_execution key, md_causation_id = ak_execution key,
      md_trace_id = None, md_span_id = None, md_step_id = Some (ak_step key),
      md_attempt = Some (ak_attempt key)\<rparr>"

definition report ::
  "reactor \<Rightarrow> attempt_key \<Rightarrow> workflow_event \<Rightarrow> instant \<Rightarrow> string \<Rightarrow> inner \<Rightarrow> (handle_error + unit) \<times> inner" where
  "report re key event now what s =
     (case handle_input (re_engine re) (ak_execution key) (Event event)
             (report_metadata (en_crates (re_engine re)) key now what) now (re_between re BeforeReport s) of
        (Inr _, s') \<Rightarrow> (Inr (), s')
      | (Inl (HDecision _), s') \<Rightarrow> (Inr (), s')
      | (Inl err, s') \<Rightarrow> (Inl err, s'))"

subsection \<open>The authority\<close>

definition refuse ::
  "reactor \<Rightarrow> attempt_row \<Rightarrow> activity_error \<Rightarrow> admitting \<Rightarrow> instant \<Rightarrow> inner \<Rightarrow> (handle_error + performed) \<times> inner" where
  "refuse re row refusal admitting now s =
     (if is_retryable (ae_class refusal) \<and> admitting = Work
      then (Inr (Released (ak_step (row_key row)) (ae_message refusal)), s)
      else case report re (row_key row)
                  (StepFailed (ak_step (row_key row)) (ak_attempt (row_key row)) (as_step_error refusal))
                  now ''outcome'' s of
             (Inl err, s') \<Rightarrow> (Inl err, s')
           | (Inr _, s') \<Rightarrow> (Inr (Reported (ak_step (row_key row)) (ak_attempt (row_key row)) False), s'))"

definition admitted_by ::
  "reactor \<Rightarrow> attempt_row \<Rightarrow> admitting \<Rightarrow> instant \<Rightarrow> inner \<Rightarrow> (handle_error + performed option) \<times> inner" where
  "admitted_by re row admitting now s =
     (case re_authority re of
        None \<Rightarrow> (Inr None, s)
      | Some authority \<Rightarrow>
          (case store_ownership (en_binding (re_engine re)) (ak_execution (row_key row)) s of
             Inl err \<Rightarrow> (Inl (HStore err), s)
           | Inr owner \<Rightarrow>
               (case authority owner admitting of
                  None \<Rightarrow> (Inr None, s)
                | Some refusal \<Rightarrow>
                    (case refuse re row refusal admitting now s of
                       (Inl err, s') \<Rightarrow> (Inl err, s')
                     | (Inr p, s') \<Rightarrow> (Inr (Some p), s')))))"

subsection \<open>The catalog\<close>

definition catalog_cached :: "reactor \<Rightarrow> string option \<Rightarrow> instant \<Rightarrow> cache_entry option" where
  "catalog_cached re key now =
     (case (re_catalog re, key) of
        (Some catalog, Some k) \<Rightarrow> (case cg_cached catalog k now of Inl _ \<Rightarrow> None | Inr entry \<Rightarrow> entry)
      | _ \<Rightarrow> None)"

text \<open>\<open>record_outputs\<close>: a manifest for each output, and the index entry only after all of them.\<close>

definition output_notes ::
  "provenance \<Rightarrow> artifact_ref list \<Rightarrow> artifact_ref list \<Rightarrow> string option \<Rightarrow> instant \<Rightarrow> catalog_note list" where
  "output_notes produced_by inputs outputs key now =
     map (\<lambda>a. NoteArtifact \<lparr>ca_artifact = a, ca_produced_by = Some produced_by,
                ca_inputs = map art_digest inputs, ca_created_at = now\<rparr>) outputs @
     (case key of
        None \<Rightarrow> []
      | Some k \<Rightarrow> [NoteEntry \<lparr>ce_cache_key = k, ce_artifacts = outputs, ce_created_at = now,
                     ce_expires_at = None, ce_invalidated_at = None\<rparr>])"

definition record_outputs ::
  "artifact_catalog \<Rightarrow> provenance \<Rightarrow> artifact_ref list \<Rightarrow> artifact_ref list \<Rightarrow> string option \<Rightarrow> instant \<Rightarrow>
   catalog_note list" where
  "record_outputs catalog produced_by inputs outputs key now =
     takeWhile (\<lambda>note. cg_refuses catalog note = None) (output_notes produced_by inputs outputs key now)"

definition row_provenance :: "attempt_row \<Rightarrow> provenance" where
  "row_provenance row =
     \<lparr>pv_execution_id = ak_execution (row_key row), pv_step_id = ak_step (row_key row),
      pv_attempt = ak_attempt (row_key row)\<rparr>"

definition record_result ::
  "reactor \<Rightarrow> attempt_row \<Rightarrow> artifact_ref list \<Rightarrow> artifact_ref list \<Rightarrow> string option \<Rightarrow> instant \<Rightarrow> catalog_note list" where
  "record_result re row inputs outputs key now =
     (case re_catalog re of
        None \<Rightarrow> []
      | Some catalog \<Rightarrow>
          if outputs = [] then [] else record_outputs catalog (row_provenance row) inputs outputs key now)"

subsection \<open>Taking an attempt\<close>

definition claimed_of :: "reactor \<Rightarrow> attempt_row \<Rightarrow> execution \<Rightarrow> plan_step \<Rightarrow> claimed" where
  "claimed_of re row run step =
     (let key = row_key row;
          command = \<lparr>ac_key = key, ac_command_id = row_command_id row, ac_step = step,
                     ac_inputs = resolved_inputs run (ak_step key), ac_parameters = ex_input run,
                     ac_answers = (case ex_step run (ak_step key) of None \<Rightarrow> [] | Some st \<Rightarrow> ss_answers st)\<rparr>
      in \<lparr>cl_row = row, cl_command = command,
          cl_context = \<lparr>cx_owner = re_owner re, cx_timeout = seconds (uint (ps_timeout_seconds step)),
                        cx_context_id = ac_idempotency_key command, cx_plan = ex_plan run, cx_stop = signal_new\<rparr>,
          cl_cache_key = (case ex_step run (ak_step key) of None \<Rightarrow> None | Some st \<Rightarrow> ss_cache_key st)\<rparr>)"

text \<open>What the plan says of a claimed row: the step to perform, or why the row is released.\<close>

definition step_to_perform ::
  "attempt_row \<Rightarrow> runtime_kind list \<Rightarrow> execution option \<Rightarrow> performed + execution \<times> plan_step" where
  "step_to_perform row performable loaded =
     (let i = ak_step (row_key row)
      in case loaded of
           None \<Rightarrow> Inl (Released i (''the execution'' @ apostrophe @ ''s stream holds no plan''))
         | Some run \<Rightarrow>
             (case plan_step_of (ex_plan run) i of
                None \<Rightarrow> Inl (Released i ''the plan has no such step'')
              | Some step \<Rightarrow>
                  if binding_kind (ps_runtime step) \<notin> set performable
                  then Inl (Released i (''this claimant does not perform '' @
                              runtime_as_str (binding_kind (ps_runtime step))))
                  else Inr (run, step)))"

definition take_loaded ::
  "reactor \<Rightarrow> attempt_row \<Rightarrow> execution \<Rightarrow> plan_step \<Rightarrow> instant \<Rightarrow> inner \<Rightarrow> (handle_error + taken) \<times> inner" where
  "take_loaded re row run step now s =
     (let c = claimed_of re row run step; key = row_key row
      in case catalog_cached re (cl_cache_key c) now of
           Some hit \<Rightarrow>
             (case report re key (StepCacheHit (ak_step key) (ak_attempt key) (ce_cache_key hit) (ce_artifacts hit))
                     now ''cache-hit'' s of
                (Inl err, s') \<Rightarrow> (Inl err, s')
              | (Inr _, s') \<Rightarrow> (Inr (TakenSettled (Reported (ak_step key) (ak_attempt key) True)), s'))
         | None \<Rightarrow>
             (case report re key (StepStarted (ak_step key) (ak_attempt key)) now ''started'' s of
                (Inl err, s') \<Rightarrow> (Inl err, s')
              | (Inr _, s') \<Rightarrow> (Inr (TakenWork c), s')))"

definition take_row ::
  "reactor \<Rightarrow> attempt_row \<Rightarrow> runtime_kind list \<Rightarrow> instant \<Rightarrow> inner \<Rightarrow> (handle_error + taken) \<times> inner" where
  "take_row re row performable now s =
     (case admitted_by re row Work now (re_between re AfterClaim s) of
        (Inl err, s') \<Rightarrow> (Inl err, s')
      | (Inr (Some refused), s') \<Rightarrow> (Inr (TakenSettled refused), s')
      | (Inr None, s') \<Rightarrow>
          (let t = re_between re BeforeLoad s'
           in case load_execution re (ak_execution (row_key row)) t of
                Inl err \<Rightarrow> (Inl err, t)
              | Inr loaded \<Rightarrow>
                  (case step_to_perform row performable loaded of
                     Inl released \<Rightarrow> (Inr (TakenSettled released), t)
                   | Inr (run, step) \<Rightarrow> take_loaded re row run step now t)))"

definition reactor_take ::
  "reactor \<Rightarrow> claim_filter \<Rightarrow> runtime_kind list \<Rightarrow> instant \<Rightarrow> inner \<Rightarrow> (handle_error + taken) \<times> inner" where
  "reactor_take re f performable now s =
     (case store_claim_attempt (en_binding (re_engine re)) f (re_owner re) now s of
        (None, s') \<Rightarrow> (Inr TakenIdle, s')
      | (Some row, s') \<Rightarrow> take_row re row performable now s')"

text \<open>A claim this owner still holds, rebuilt for a later request without claiming anything.\<close>

definition reactor_resume :: "reactor \<Rightarrow> attempt_key \<Rightarrow> instant \<Rightarrow> inner \<Rightarrow> (handle_error + claimed option) \<times> inner" where
  "reactor_resume re key now s =
     (if re_authority re \<noteq> None then (Inr None, s)
      else case store_attempt (en_binding (re_engine re)) key s of
        Inl err \<Rightarrow> (Inl (HStore err), s)
      | Inr None \<Rightarrow> (Inr None, s)
      | Inr (Some row) \<Rightarrow>
          if \<not> is_held_by row (re_owner re) now then (Inr None, s)
          else let t = re_between re BeforeLoad s
               in case load_execution re (ak_execution key) t of
                    Inl err \<Rightarrow> (Inl err, t)
                  | Inr None \<Rightarrow> (Inr None, t)
                  | Inr (Some run) \<Rightarrow>
                      (case plan_step_of (ex_plan run) (ak_step key) of
                         None \<Rightarrow> (Inr None, t)
                       | Some step \<Rightarrow> (Inr (Some (claimed_of re row run step)), t)))"

subsection \<open>Carrying it out\<close>

definition carry_out ::
  "activity_executor \<Rightarrow> activity_command \<Rightarrow> activity_context \<Rightarrow> attempt_row \<Rightarrow> step_error + activity_result" where
  "carry_out ex command context row =
     (let execute = (case ax_execute ex command context of
                       Inl e \<Rightarrow> Inl (as_step_error e)
                     | Inr result \<Rightarrow> Inr result)
      in if row_previous_owner row = None then execute
         else case ax_lookup ex command of
                Inl e \<Rightarrow> Inl (as_step_error e)
              | Inr (Done result) \<Rightarrow> Inr result
              | Inr StillRunning \<Rightarrow>
                  Inl \<lparr>err_class = FTransient,
                       err_message = ''the runtime is still working on the previous attempt''\<rparr>
              | Inr Absent \<Rightarrow> execute)"

text \<open>One look of the watch: the time since the work began and what the projection read.\<close>

fun stopping :: "int \<Rightarrow> (int \<times> (store_error + run_projection option)) list \<Rightarrow> stop_reason option" where
  "stopping timeout [] = None"
| "stopping timeout ((elapsed, read) # looks) =
     (if timeout \<noteq> 0 \<and> elapsed \<ge> timeout then Some TimedOut
      else case read of
             Inr (Some run) \<Rightarrow>
               if is_cancelling (rp_state run) \<or> is_terminal (state_type (rp_state run)) then Some RunStopping
               else stopping timeout looks
           | _ \<Rightarrow> stopping timeout looks)"

definition look_wait :: "watch \<Rightarrow> int \<Rightarrow> int \<Rightarrow> int" where
  "look_wait w timeout elapsed =
     (if timeout = 0 then wt_every w else min (wt_every w) (max 0 (timeout - elapsed)))"

definition abandoned :: "reactor \<Rightarrow> stop_reason \<Rightarrow> step_error" where
  "abandoned re reason =
     \<lparr>err_class = ae_class (stop_error reason),
      err_message = ae_message (stop_error reason) @ ''; it had not returned '' @
        show_nat (nat (wt_grace (re_watch re) div seconds 1)) @ ''s after it was asked, and was abandoned''\<rparr>"

text \<open>
  How the race of the work and the watch went. A stopped attempt is given rounds of grace: in each it
  returns in time or does not, and one that is committing is waited for, to return or to end its
  commit. Rounds that run out are an attempt still committing.
\<close>

datatype grace_round = ReturnedInGrace | NotCommitting | ReturnedCommitting | CommitEnded

datatype race = RanToEnd | Asked stop_reason "grace_round list"

fun wait_out :: "grace_round list \<Rightarrow> 'r \<Rightarrow> 'r \<Rightarrow> 'r option" where
  "wait_out [] outcome given_up = None"
| "wait_out (ReturnedInGrace # rounds) outcome given_up = Some outcome"
| "wait_out (NotCommitting # rounds) outcome given_up = Some given_up"
| "wait_out (ReturnedCommitting # rounds) outcome given_up = Some outcome"
| "wait_out (CommitEnded # rounds) outcome given_up = wait_out rounds outcome given_up"

definition perform ::
  "reactor \<Rightarrow> activity_executor \<Rightarrow> claimed \<Rightarrow> race \<Rightarrow> (step_error + activity_result) option" where
  "perform re ex c race =
     (case race of
        RanToEnd \<Rightarrow> Some (carry_out ex (cl_command c) (cl_context c) (cl_row c))
      | Asked reason rounds \<Rightarrow>
          wait_out rounds
            (carry_out ex (cl_command c) ((cl_context c)\<lparr>cx_stop := signal_stop reason (cx_stop (cl_context c))\<rparr>)
               (cl_row c))
            (Inl (abandoned re reason)))"

subsection \<open>Settling\<close>

definition completion :: "attempt_row \<Rightarrow> activity_result \<Rightarrow> workflow_event" where
  "completion row result =
     (case res_awaiting result of
        Some request \<Rightarrow> InputRequested (ak_step (row_key row)) (ak_attempt (row_key row)) request
      | None \<Rightarrow> StepCompleted (ak_step (row_key row)) (ak_attempt (row_key row)) (res_outputs result)
                 (res_result result))"

definition outcome_event :: "attempt_row \<Rightarrow> step_error + activity_result \<Rightarrow> workflow_event" where
  "outcome_event row outcome =
     (case outcome of
        Inr result \<Rightarrow> completion row result
      | Inl error \<Rightarrow> StepFailed (ak_step (row_key row)) (ak_attempt (row_key row)) error)"

definition result_notes :: "reactor \<Rightarrow> claimed \<Rightarrow> step_error + activity_result \<Rightarrow> instant \<Rightarrow> catalog_note list" where
  "result_notes re c outcome now =
     (case outcome of
        Inr result \<Rightarrow>
          if res_awaiting result = None
          then record_result re (cl_row c) (ac_inputs (cl_command c)) (res_outputs result)
                 (if res_cacheable result then cl_cache_key c else None) now
          else []
      | Inl _ \<Rightarrow> [])"

definition settle_at ::
  "reactor \<Rightarrow> claimed \<Rightarrow> step_error + activity_result \<Rightarrow> instant \<Rightarrow> instant \<Rightarrow> inner \<Rightarrow>
   (handle_error + performed) \<times> inner \<times> catalog_note list" where
  "settle_at re c outcome now finished_at s =
     (let row = cl_row c; key = row_key row
      in case store_heartbeat (en_binding (re_engine re)) key (re_owner re) now s of
           (Inl err, s') \<Rightarrow> (Inl (HStore err), s', [])
         | (Inr False, s') \<Rightarrow> (Inr (LeaseLost (ak_step key) (ak_attempt key)), s', [])
         | (Inr True, s') \<Rightarrow>
             (case admitted_by re row Publication finished_at (re_between re AfterLease s') of
                (Inl err, t) \<Rightarrow> (Inl err, t, [])
              | (Inr (Some refused), t) \<Rightarrow> (Inr refused, t, [])
              | (Inr None, t) \<Rightarrow>
                  (let notes = result_notes re c outcome now
                   in case report re key (outcome_event row outcome) finished_at ''outcome'' t of
                        (Inl err, u) \<Rightarrow> (Inl err, u, notes)
                      | (Inr _, u) \<Rightarrow>
                          (Inr (Reported (ak_step key) (ak_attempt key) (\<not> isl outcome)), u, notes))))"

definition reactor_settle ::
  "reactor \<Rightarrow> claimed \<Rightarrow> step_error + activity_result \<Rightarrow> instant \<Rightarrow> inner \<Rightarrow>
   (handle_error + performed) \<times> inner \<times> catalog_note list" where
  "reactor_settle re c outcome now s = settle_at re c outcome now now s"

subsection \<open>One pass\<close>

text \<open>\<open>during\<close> is what the rest of the system does while the work runs and \<open>elapsed\<close> how long it took;
  \<open>None\<close> is a pass that still waits for a commit.\<close>

definition poll_once ::
  "reactor \<Rightarrow> instant \<Rightarrow> race \<Rightarrow> int \<Rightarrow> (inner \<Rightarrow> inner) \<Rightarrow> inner \<Rightarrow>
   ((handle_error + performed) \<times> inner \<times> catalog_note list) option" where
  "poll_once re now race elapsed during s =
     (if re_executors re = [] then Some (Inr Idle, s, [])
      else case reactor_take re (registry_filter (re_executors re)) (registry_runtimes (re_executors re)) now s of
        (Inl err, s') \<Rightarrow> Some (Inl err, s', [])
      | (Inr TakenIdle, s') \<Rightarrow> Some (Inr Idle, s', [])
      | (Inr (TakenSettled p), s') \<Rightarrow> Some (Inr p, s', [])
      | (Inr (TakenWork c), s') \<Rightarrow>
          (case registry_get (re_executors re) (binding_kind (ps_runtime (ac_step (cl_command c)))) of
             None \<Rightarrow>
               Some (Inr (Released (ak_step (row_key (cl_row c)))
                 (''this process holds no '' @
                  runtime_as_str (binding_kind (ps_runtime (ac_step (cl_command c)))) @ '' executor'')), s', [])
           | Some ex \<Rightarrow>
               (case perform re ex c race of
                  None \<Rightarrow> None
                | Some outcome \<Rightarrow> Some (settle_at re c outcome now (now + elapsed) (during s')))))"

end
