(* ===== verification/Handler_Props.thy ===== *)
theory Handler_Props
  imports Handler Progress
begin

text \<open>
  The decider and the store together. A handled input leaves the store with a projection that is
  the fold of its history; a redelivery changes nothing; an undisturbed input is handled in one
  pass and a disturbed one gives up only after every pass lost a race; and where inputs are fresh every
  run a store holds is a run the decider's own theorems speak of.
\<close>

subsection \<open>One decision as a request\<close>

lemma outputs_are_output:
  assumes "decide C st input cause now = Inr out"
  shows "list_all (\<lambda>m. pm_direction m = Output) out"
  using decide_out_derived [OF assms] by (auto simp: list_all_length output_derived_def)

lemma decision_request_simps [simp]:
  "ar_input (decision_request en x input md cp own sl outputs) = pending_input input md"
  "ar_outputs (decision_request en x input md cp own sl outputs) = outputs"
  "ar_ownership (decision_request en x input md cp own sl outputs) = own"
  "ar_expected_version (decision_request en x input md cp own sl outputs) =
     (if slice_is_empty sl then NoStream else Exact (ss_version sl))"
  "ar_projection (decision_request en x input md cp own sl outputs) =
     projection_of x (foldl evolve (replay (slice_events sl)) (events_of outputs)) (ss_version sl + 1 + length outputs)"
  by (simp_all add: decision_request_def Let_def)

lemma attempt_row_about: "attempt_row_of x run outputs mid m = Some w \<Longrightarrow> write_execution w = x"
proof (cases m)
  case (Command c)
  assume "attempt_row_of x run outputs mid m = Some w"
  with Command show ?thesis
    by (cases c) (auto simp: dispatch_row_def row_claimable_def on_queue_def with_not_before_def Let_def
        split: option.splits runtime_binding.splits)
next
  case (Event ev)
  assume "attempt_row_of x run outputs mid m = Some w"
  with Event show ?thesis by (cases ev) (auto split: if_splits)
qed auto

lemma deadline_row_about: "deadline_row x clocked ev = Some w \<Longrightarrow> timer_about x w"
  by (cases ev) (auto simp: deadline_timer_def split: if_splits)

lemma map_filter_set: "y \<in> set (List.map_filter f xs) \<longleftrightarrow> (\<exists>x \<in> set xs. f x = Some y)"
  by (force simp: map_filter_def)

lemma decision_request_about:
  assumes "list_all (\<lambda>m. pm_direction m = Output) outputs"
  shows "request_about x (decision_request en x input md cp own sl outputs)"
proof -
  let ?req = "decision_request en x input md cp own sl outputs"
  have "list_all (\<lambda>w. write_execution w = x) (ar_attempts ?req)"
    by (auto simp: decision_request_def Let_def list_all_iff attempt_rows_def map_filter_set
        split: option.splits dest: attempt_row_about)
  moreover have "list_all (timer_about x) (ar_timers ?req)"
    by (auto simp: decision_request_def Let_def list_all_iff deadline_rows_def map_filter_set
        split: option.splits dest: deadline_row_about)
  moreover have "list_all (\<lambda>row. ob_partition_key row = ''workflow:'' @ x) (ar_outbox ?req)"
    by (auto simp: decision_request_def Let_def list_all_iff decision_facts_def
        split: option.splits dest!: facts_partition)
  ultimately show ?thesis
    using assms by (simp add: request_about_def request_ok_def pending_input_def)
qed

text \<open>One pass answers without writing, appends the decision, or has its append turned away.\<close>

definition loaded :: "inner \<Rightarrow> string \<Rightarrow> stream_slice" where
  "loaded s x = \<lparr>ss_version = length (stream_of s x), ss_messages = stream_of s x\<rparr>"

definition folded :: "inner \<Rightarrow> string \<Rightarrow> execution_state" where
  "folded s x = replay (history_events (stream_of s x))"

lemma loaded_simps [simp]:
  "ss_messages (loaded s x) = stream_of s x" "ss_version (loaded s x) = length (stream_of s x)"
  "slice_events (loaded s x) = history_events (stream_of s x)" "slice_is_empty (loaded s x) = (stream_of s x = [])"
  by (simp_all add: loaded_def slice_events_def slice_is_empty_def)

lemma load_admitted: "inner_admits s b x \<Longrightarrow> store_load b x s = Inr (loaded s x)"
  by (simp add: store_load_def guarded_def inner_check_def inner_admits_def binding_check_def loaded_def)

lemma handle_pass_tried:
  assumes "store_load (en_binding en) x s = Inr (loaded s x)"
    and "List.find (\<lambda>m. md_message_id (rm_metadata m) = md_message_id md) (stream_of s x) = None"
    and "decide (en_crates en) (folded s x) input (md_message_id md) now = Inr outputs"
    and "store_append (en_size en) (en_binding en) (en_clock en) x
          (decision_request en x input md cp own (loaded s x) outputs) (en_others en k s) = (q, s')"
  shows "handle_pass en x input md now cp own k s = ((case q of
              Inr outcome \<Rightarrow> Some (Inr \<lparr>hd_outcome = outcome,
                  hd_projection = ar_projection (decision_request en x input md cp own (loaded s x) outputs),
                  hd_outbox = (if is_duplicate outcome then []
                               else ar_outbox (decision_request en x input md cp own (loaded s x) outputs)),
                  hd_duplicate = is_duplicate outcome\<rparr>)
            | Inl (VersionConflict _ _) \<Rightarrow> None
            | Inl err \<Rightarrow> Some (Inl (HStore err))), s')"
  using assms by (cases q) (auto simp: handle_pass_def folded_def Let_def split: store_error.splits)

lemma handle_pass_cases:
  assumes "handle_pass en x input md now cp own k s = (r, s')"
  obtains (answered) a where "s' = s" "r = Some a" "\<And>h. a = Inr h \<Longrightarrow> hd_duplicate h \<and>
      List.find (\<lambda>m. md_message_id (rm_metadata m) = md_message_id md) (stream_of s x) \<noteq> None"
      "\<And>n. a \<noteq> Inl (HContended n)"
  | (tried) outputs q where
      "List.find (\<lambda>m. md_message_id (rm_metadata m) = md_message_id md) (stream_of s x) = None"
      "decide (en_crates en) (folded s x) input (md_message_id md) now = Inr outputs"
      "store_append (en_size en) (en_binding en) (en_clock en) x
         (decision_request en x input md cp own (loaded s x) outputs) (en_others en k s) = (q, s')"
      "r = (case q of
              Inr outcome \<Rightarrow> Some (Inr \<lparr>hd_outcome = outcome,
                  hd_projection = ar_projection (decision_request en x input md cp own (loaded s x) outputs),
                  hd_outbox = (if is_duplicate outcome then []
                               else ar_outbox (decision_request en x input md cp own (loaded s x) outputs)),
                  hd_duplicate = is_duplicate outcome\<rparr>)
            | Inl (VersionConflict _ _) \<Rightarrow> None
            | Inl err \<Rightarrow> Some (Inl (HStore err)))"
proof (cases "store_load (en_binding en) x s")
  case (Inl err)
  with assms show thesis by (intro answered [of "Inl (HStore err)"]) (auto simp: handle_pass_def)
next
  case load: (Inr sl)
  then have sl: "sl = loaded s x" by (auto simp: store_load_def guarded_def loaded_def split: sum.splits)
  show thesis
  proof (cases "List.find (\<lambda>m. md_message_id (rm_metadata m) = md_message_id md) (stream_of s x)")
    case (Some seen)
    have dup: "hd_duplicate h" if "duplicate_answer en x own sl seen s = Inr h" for h
      using that by (auto simp: duplicate_answer_def Let_def split: option.splits sum.splits if_splits)
    show thesis
    proof (rule answered)
      show "s' = s" "r = Some (duplicate_answer en x own sl seen s)"
        using assms load sl Some by (auto simp: handle_pass_def)
      show "hd_duplicate h \<and> List.find (\<lambda>m. md_message_id (rm_metadata m) = md_message_id md) (stream_of s x) \<noteq> None"
        if "duplicate_answer en x own sl seen s = Inr h" for h
        using dup [OF that] Some by simp
      show "duplicate_answer en x own sl seen s \<noteq> Inl (HContended n)" for n
        by (auto simp: duplicate_answer_def Let_def split: option.splits sum.splits)
    qed
  next
    case new: None
    show thesis
    proof (cases "decide (en_crates en) (folded s x) input (md_message_id md) now")
      case (Inl err)
      with assms load sl new show thesis
        by (intro answered [of "Inl (HDecision err)"]) (auto simp: handle_pass_def folded_def)
    next
      case out: (Inr outputs)
      obtain q s2 where app: "store_append (en_size en) (en_binding en) (en_clock en) x
          (decision_request en x input md cp own (loaded s x) outputs) (en_others en k s) = (q, s2)"
        by (cases "store_append (en_size en) (en_binding en) (en_clock en) x
          (decision_request en x input md cp own (loaded s x) outputs) (en_others en k s)")
      note pass = handle_pass_tried [OF load [unfolded sl] new out app]
      from assms pass show thesis by (intro tried [OF new out, of q]) (simp_all add: app)
    qed
  qed
qed

lemma same_length_prefix: "\<exists>ms. ys = xs @ ms \<Longrightarrow> length ys = length xs \<Longrightarrow> ys = xs"
  by auto

text \<open>An accepted decision was made on the very history it was appended to.\<close>

lemma pass_appended:
  assumes "store_append (en_size en) (en_binding en) clock x (decision_request en x input md cp own (loaded s x) outputs) s1
      = (Inr (Appended v), s')"
    and "decide C (folded s x) input (md_message_id md) now = Inr outputs"
    and "\<exists>ms. stream_of s1 x = stream_of s x @ ms"
  shows "stream_of s1 x = stream_of s x"
    and "folded s' x = foldl evolve (folded s x) (events_of outputs)"
    and "length (stream_of s' x) = length (stream_of s x) + 1 + length outputs"
    and "y \<noteq> x \<Longrightarrow> stream_of s' y = stream_of s1 y"
proof -
  let ?req = "decision_request en x input md cp own (loaded s x) outputs"
  from memory_log.appended_at [OF assms(1)] have "length (stream_of s1 x) = length (stream_of s x)"
    by (auto split: if_splits)
  with assms(3) show same: "stream_of s1 x = stream_of s x" by (rule same_length_prefix)
  have "request_ok ?req"
    using decision_request_about [OF outputs_are_output [OF assms(2)]] by (simp add: request_about_def)
  from memory_log.appended_state [OF assms(1) this] same
  show "folded s' x = foldl evolve (folded s x) (events_of outputs)" by (simp add: folded_def)
  from memory_log.appended_length [OF assms(1)] same
  show "length (stream_of s' x) = length (stream_of s x) + 1 + length outputs" by simp
  show "y \<noteq> x \<Longrightarrow> stream_of s' y = stream_of s1 y" using memory_log.elsewhere [OF assms(1)] by simp
qed

subsection \<open>A handled input\<close>

lemma store_steps_trans: "store_steps sz t u \<Longrightarrow> store_steps sz s t \<Longrightarrow> store_steps sz s u"
  by (induction rule: store_steps.induct) (auto intro: store_steps.step)

lemma handle_loop_last:
  assumes "handle_loop en x input md now cp own n s = (Inr answer, s')"
    and others: "\<And>k t. store_steps sz t (en_others en k t)" and "en_size en = sz"
  shows "\<exists>k t. store_steps sz s t \<and> handle_pass en x input md now cp own k t = (Some (Inr answer), s')"
  using assms(1)
proof (induction n arbitrary: s)
  case (Suc n)
  obtain r t where pass: "handle_pass en x input md now cp own n s = (r, t)"
    by (cases "handle_pass en x input md now cp own n s")
  show ?case
  proof (cases r)
    case (Some a)
    with Suc.prems pass show ?thesis by (auto intro: store_steps.stay)
  next
    case None
    have "store_steps sz s t"
      using pass
    proof (cases rule: handle_pass_cases)
      case (tried outputs q)
      have "request_about x (decision_request en x input md cp own (loaded s x) outputs)"
        by (rule decision_request_about [OF outputs_are_output [OF tried(2)]])
      from store_step.append [OF this tried(3)] others assms(3) show ?thesis by (blast intro: store_steps.step)
    qed (use None in auto)
    moreover have "handle_loop en x input md now cp own n t = (Inr answer, s')"
      using Suc.prems pass None by simp
    ultimately show ?thesis using Suc.IH by (blast intro: store_steps_trans)
  qed
qed simp

text \<open>C3: A handled input leaves a projection that its history justifies: whatever other callers do in
  between, when an input is accepted the projection in the store is the one the caller is given
  and is the fold of the whole stream, input and outputs included, and the decision was made on
  exactly the events before it.\<close>

theorem projection_is_the_fold:
  assumes "decide_and_append en x input md now cp own s = (Inr answer, s')" and "\<not> hd_duplicate answer"
    and "\<And>k t. store_steps (en_size en) t (en_others en k t)"
  shows "bt_get (in_projections s') x = Some (hd_projection answer) \<and>
         hd_projection answer = projection_of x (replay (history_events (stream_of s' x))) (length (stream_of s' x)) \<and>
         (\<exists>before outputs. decide (en_crates en) (replay before) input (md_message_id md) now = Inr outputs \<and>
            history_events (stream_of s' x) = before @ events_of outputs)"
proof -
  from handle_loop_last [OF assms(1) [unfolded decide_and_append_def] assms(3) refl] obtain k t where
    pass: "handle_pass en x input md now cp own k t = (Some (Inr answer), s')" by blast
  from pass show ?thesis
  proof (cases rule: handle_pass_cases)
    case (answered a)
    with assms(2) show ?thesis by auto
  next
    case (tried outputs q)
    with assms(2) obtain v where q: "q = Inr (Appended v)"
      by (cases q) (auto split: store_error.splits append_outcome.splits elim: is_duplicate.elims)
    let ?req = "decision_request en x input md cp own (loaded t x) outputs"
    have ok: "request_ok ?req"
      using decision_request_about [OF outputs_are_output [OF tried(2)]] by (simp add: request_about_def)
    have "\<exists>ms. stream_of (en_others en k t) x = stream_of t x @ ms"
      using steps_keep [OF assms(3)] by (auto simp: keeps_def)
    note landed = pass_appended [OF tried(3) [unfolded q] tried(2) this]
    have answer: "hd_projection answer = ar_projection ?req" using tried(4) q by simp
    obtain establishing where "s' = commit (en_clock en) x establishing ?req (touch_stream x (en_others en k t))"
      by (rule store_appended [OF tried(3) [unfolded q]]) blast
    then have "bt_get (in_projections s') x = Some (ar_projection ?req)" by (simp add: commit_def Let_def)
    moreover have "history_events (stream_of s' x) = history_events (stream_of t x) @ events_of outputs"
      using memory_log.appended_events [OF tried(3) [unfolded q] ok] landed(1) by simp
    ultimately show ?thesis
      using answer landed(2,3) tried(2) by (auto simp: folded_def)
  qed
qed

subsection \<open>Redeliveries and races\<close>

definition recorded_id :: "inner \<Rightarrow> string \<Rightarrow> string \<Rightarrow> bool" where
  "recorded_id s x i \<longleftrightarrow> (\<exists>m \<in> set (stream_of s x). md_message_id (rm_metadata m) = i)"

lemma recorded_find:
  "List.find (\<lambda>m. md_message_id (rm_metadata m) = i) (stream_of s x) = None \<longleftrightarrow> \<not> recorded_id s x i"
  by (auto simp: find_None_iff' recorded_id_def)

lemma recorded_grows: "recorded_id s x i \<Longrightarrow> keeps s s' x \<Longrightarrow> recorded_id s' x i"
  by (auto simp: recorded_id_def keeps_def)

lemma seen_is_recorded: "store_ok s \<Longrightarrow> seen_at s x i = Some v \<Longrightarrow> recorded_id s x i"
  by (auto simp: store_ok_def history_ok_def inbox_ok_def input_at_def recorded_id_def intro!: bexI)

lemma appended_is_recorded:
  assumes "store_append sz b now x req s = (Inr (Appended v), s')"
  shows "recorded_id s' x (md_message_id (pm_metadata (ar_input req)))"
proof -
  have "pending_of ` set (stream_of s' x) = set (map pending_of (stream_of s x) @ ar_input req # ar_outputs req)"
    using arg_cong [OF memory_log.appended [OF assms], of set] by simp
  then have "ar_input req \<in> pending_of ` set (stream_of s' x)" by simp
  then show ?thesis by (auto simp: recorded_id_def pending_of_def)
qed

lemma handled_is_recorded:
  assumes "decide_and_append en x input md now cp own s = (Inr answer, s')" and "store_reachable (en_size en) s"
    and "\<And>k t. store_steps (en_size en) t (en_others en k t)"
  shows "recorded_id s' x (md_message_id md)"
proof -
  from handle_loop_last [OF assms(1) [unfolded decide_and_append_def] assms(3) HOL.refl] obtain k t where
    steps: "store_steps (en_size en) s t" and
    pass: "handle_pass en x input md now cp own k t = (Some (Inr answer), s')" by blast
  show ?thesis
  proof (cases "List.find (\<lambda>m. md_message_id (rm_metadata m) = md_message_id md) (stream_of t x)")
    case (Some seen)
    then have "recorded_id t x (md_message_id md)" using recorded_find by (metis option.distinct(1))
    moreover from pass have "s' = t"
      by (cases rule: handle_pass_cases) (use Some in auto)
    ultimately show ?thesis by simp
  next
    case None
    have "store_ok (en_others en k t)"
      using store_reachable_ok steps_reachable [OF assms(3)] steps_reachable [OF steps assms(2)] by blast
    note ok = this
    from pass show ?thesis
    proof (cases rule: handle_pass_cases)
      case (answered a)
      with None show ?thesis by auto
    next
      case (tried outputs q)
      then obtain outcome where q: "q = Inr outcome" by (cases q) (auto split: store_error.splits)
      show ?thesis
      proof (cases outcome)
        case (Appended v)
        with appended_is_recorded tried(3) q show ?thesis by (force simp: pending_input_def)
      next
        case (Duplicate v)
        with tried(3) q show ?thesis
          by (auto elim!: store_append_cases simp: pending_input_def intro!: seen_is_recorded [OF store_ok_touch [OF ok]])
      qed
    qed
  qed
qed

text \<open>Handling is idempotent end to end: once an input was handled, whatever else happened since,
  handling it again under the same message id decides nothing, writes nothing and says so.\<close>

theorem handled_twice_is_handled_once:
  assumes "decide_and_append en x input md now cp own s = (Inr answer, s1)" and "store_reachable (en_size en) s"
    and "\<And>k t. store_steps (en_size en) t (en_others en k t)" and "store_steps (en_size en) s1 s2"
    and "md_message_id md2 = md_message_id md" and "inner_admits s2 (en_binding en) x"
  shows "\<exists>again. decide_and_append en x input2 md2 later cp2 None s2 = (Inr again, s2) \<and>
           hd_duplicate again \<and> hd_outbox again = []"
proof -
  have "recorded_id s2 x (md_message_id md)"
    using handled_is_recorded [OF assms(1-3)] steps_keep [OF assms(4)] by (rule recorded_grows)
  then obtain seen where seen: "List.find (\<lambda>m. md_message_id (rm_metadata m) = md_message_id md2) (stream_of s2 x) = Some seen"
    using recorded_find assms(5) by (metis option.exhaust)
  have "store_load (en_binding en) x s2 = Inr (loaded s2 x)"
    using assms(6) by (rule load_admitted)
  with seen show ?thesis
    by (simp add: decide_and_append_def handle_pass_def duplicate_answer_def Let_def)
qed

lemma lost_pass:
  assumes "handle_pass en x input md now cp own k s = (None, s')"
    and "\<And>k t. store_steps (en_size en) t (en_others en k t)"
  shows "length (stream_of s x) < length (stream_of s' x) \<and> en_others en k s \<noteq> s"
  using assms(1)
proof (cases rule: handle_pass_cases)
  case (tried outputs q)
  let ?t = "en_others en k s"
  from tried(4) obtain a b where q: "q = Inl (VersionConflict a b)"
    by (cases q) (auto split: store_error.splits)
  have "version_refused (if stream_of s x = [] then NoStream else Exact (length (stream_of s x)))
      (length (stream_of ?t x)) \<noteq> None"
    using tried(3) q
    by (auto simp: store_append_def Let_def check_payloads_def binding_appending_def binding_check_def
        binding_refuse_def split: option.splits sum.splits if_splits execution_scope.splits)
  moreover have "\<exists>ms. stream_of ?t x = stream_of s x @ ms" using steps_keep [OF assms(2)] by (auto simp: keeps_def)
  moreover have "stream_of s' x = stream_of ?t x"
    using memory_log.not_appended [OF tried(3)] q by simp
  ultimately show ?thesis by (auto split: if_splits)
qed auto

text \<open>C19: Contention means progress: an input is given up only after every pass lost a race, and then the
  history has grown by at least one message for each of the four; an input nobody disturbs is
  never given up.\<close>

theorem contention_is_progress:
  assumes "decide_and_append en x input md now cp own s = (Inl (HContended n), s')"
    and "\<And>k t. store_steps (en_size en) t (en_others en k t)"
  shows "length (stream_of s' x) \<ge> length (stream_of s x) + 4 \<and> (\<exists>k t. en_others en k t \<noteq> t)"
proof -
  have grown: "length (stream_of s' x) \<ge> length (stream_of s x) + m \<and> (m > 0 \<longrightarrow> (\<exists>k t. en_others en k t \<noteq> t))"
    if "handle_loop en x input md now cp own m s = (Inl (HContended n), s')" for m s
    using that
  proof (induction m arbitrary: s)
    case (Suc m)
    obtain r t where pass: "handle_pass en x input md now cp own m s = (r, t)"
      by (cases "handle_pass en x input md now cp own m s")
    have "r = None"
      using pass by (cases rule: handle_pass_cases)
        (use Suc.prems pass in \<open>auto split: sum.splits store_error.splits\<close>)
    with pass Suc.prems have "handle_loop en x input md now cp own m t = (Inl (HContended n), s')" by simp
    from Suc.IH [OF this] lost_pass [OF pass [unfolded \<open>r = None\<close>] assms(2)] show ?case by auto
  qed simp
  from grown [OF assms(1) [unfolded decide_and_append_def]] show ?thesis
    by (simp add: MAX_CONFLICT_RETRIES_def)
qed

subsection \<open>The runs a store holds\<close>

text \<open>
  The states a store reaches when every history in it was written by this handler: one pass at a
  time, with whatever the rest of the system does between its load and its append, and any
  operation that leaves the histories alone. Inputs are as \<open>reachable\<close> takes them: a start names
  its steps apart, a report comes from the current attempt of an unfinished step.
\<close>

definition input_admissible :: "execution_state \<Rightarrow> workflow_message \<Rightarrow> bool" where
  "input_admissible st m \<longleftrightarrow>
     (case st of
        Active e \<Rightarrow> input_fresh e m
      | Empty \<Rightarrow> (case m of Command (StartExecution r) \<Rightarrow> distinct (map ps_id (plan_steps (st_plan r))) | _ \<Rightarrow> True))"

inductive served :: "crates \<Rightarrow> inner \<Rightarrow> bool" for C where
  empty: "served C inner_empty"
| handled: "served C s \<Longrightarrow> served C s1 \<Longrightarrow> store_steps (en_size en) s s1 \<Longrightarrow> en_others en k s = s1 \<Longrightarrow>
     en_crates en = C \<Longrightarrow> input_admissible (folded s x) input \<Longrightarrow>
     handle_pass en x input md now cp own k s = (r, s') \<Longrightarrow> served C s'"
| quiet: "served C s \<Longrightarrow> store_step sz b s s' \<Longrightarrow> same_history s s' \<Longrightarrow> served C s'"
| prune: "served C s \<Longrightarrow> store_prune b before limit s = (p, s') \<Longrightarrow> served C s'"

lemma decide_reachable:
  assumes "decide C st input cause now = Inr out" and "input_admissible st input"
    and "\<And>e. st = Active e \<Longrightarrow> reachable C e"
  shows "\<exists>e. foldl evolve st (events_of out) = Active e \<and> reachable C e"
proof (cases st)
  case (Active e)
  with assms have "reachable C (apply_all e (events_of out))"
    by (intro reachable.step [where e = e]) (auto simp: input_admissible_def)
  with Active show ?thesis by (simp add: foldl_evolve_Active)
next
  case Empty
  then obtain r where r: "input = Command (StartExecution r)"
    using assms(1) by (cases input rule: workflow_message.exhaust) (metis decide.simps sum.distinct(1) workflow_command.exhaust)+
  have start: "decide C Empty (Command (StartExecution r)) cause now = Inr out" using assms(1) Empty r by simp
  have distinct: "distinct (map ps_id (plan_steps (st_plan r)))"
    using assms(2) Empty r by (simp add: input_admissible_def)
  from start_replay [OF start] reachable.start [OF start distinct] Empty show ?thesis
    by (simp add: replay_def initial_state_def)
qed

text \<open>Where every input is as \<open>reachable\<close> takes it, the fold of each execution's history is no run at all or
  a reachable one. The decider itself does not ask for such inputs; what holds without is
  \<open>stored_runs_are_decided\<close>.\<close>

theorem stored_runs_are_reachable:
  assumes "served C s"
  shows "replay (history_events (stream_of s x)) = Empty \<or>
         (\<exists>e. replay (history_events (stream_of s x)) = Active e \<and> reachable C e)"
proof -
  have "folded s x = Empty \<or> (\<exists>e. folded s x = Active e \<and> reachable C e)" for x
    using assms
  proof (induction arbitrary: x rule: served.induct)
    case empty
    show ?case by (simp add: folded_def stream_of_def inner_empty_def replay_def initial_state_def)
  next
    case (handled s s1 en k y input md now cp own r s')
    from handled.hyps(7) show ?case
    proof (cases rule: handle_pass_cases)
      case (answered a)
      with handled.IH(1) show ?thesis by simp
    next
      case (tried outputs q)
      have others: "stream_of (en_others en k s) = stream_of s1" using handled.hyps(4) by simp
      have prefix: "\<exists>ms. stream_of (en_others en k s) y = stream_of s y @ ms"
        using steps_keep [OF handled.hyps(3), of y] handled.hyps(4) by (auto simp: keeps_def)
      show ?thesis
      proof (cases "\<exists>v. q = Inr (Appended v)")
        case True
        then obtain v where q: "q = Inr (Appended v)" ..
        note landed = pass_appended [OF tried(3) [unfolded q] tried(2) prefix]
        show ?thesis
        proof (cases "x = y")
          case True
          from decide_reachable [OF tried(2) handled.hyps(6)] handled.IH(1) [of y] handled.hyps(5)
          show ?thesis using True landed(2) by auto
        next
          case False
          with landed(4) [of x] others handled.IH(2) [of x] show ?thesis by (simp add: folded_def)
        qed
      next
        case False
        then have "stream_of s' x = stream_of s1 x"
          using memory_log.not_appended [OF tried(3)] others by simp
        with handled.IH(2) [of x] show ?thesis by (simp add: folded_def)
      qed
    qed
  next
    case (quiet s sz b s')
    then show ?case by (simp add: folded_def same_history_frame)
  next
    case (prune s b before limit p s')
    then show ?case by (simp add: folded_def prune_tables replay_def initial_state_def)
  qed
  then show ?thesis by (simp add: folded_def)
qed

end
