(* ===== verification/Reactor_Props.thy ===== *)
theory Reactor_Props
  imports Reactor Handler_Props Store_Claims
begin

text \<open>
  What carries the reactor: an outcome of an attempt is recorded once, work that was taken over
  writes nothing, a takeover asks the runtime before it runs, and an authority that refuses sees
  neither a cache looked up nor a result published.
\<close>

subsection \<open>Reports\<close>

definition alone :: "reactor \<Rightarrow> bool" where
  "alone re \<longleftrightarrow> (\<forall>g s. re_between re g s = s) \<and> (\<forall>k s. en_others (re_engine re) k s = s)"

text \<open>Whatever a reactor's environment does, it does by operations of the store.\<close>

definition orderly :: "reactor \<Rightarrow> bool" where
  "orderly re \<longleftrightarrow>
     (\<forall>g s. store_steps (en_size (re_engine re)) s (re_between re g s)) \<and>
     (\<forall>k s. store_steps (en_size (re_engine re)) s (en_others (re_engine re) k s))"

lemma alone_simps: "alone re \<Longrightarrow> re_between re g s = s" "alone re \<Longrightarrow> en_others (re_engine re) k s = s"
  by (simp_all add: alone_def)

lemma alone_orderly: "alone re \<Longrightarrow> orderly re"
  by (simp add: alone_def orderly_def store_steps.stay)

definition report_id :: "reactor \<Rightarrow> attempt_key \<Rightarrow> string \<Rightarrow> string" where
  "report_id re key what = derive_uuid (en_crates (re_engine re)) (report_name key what)"

lemma report_metadata_id [simp]:
  "md_message_id (report_metadata (en_crates (re_engine re)) key now what) = report_id re key what"
  by (simp add: report_metadata_def report_id_def)

lemma handle_event: "handle_input en x (Event ev) md now s = decide_and_append en x (Event ev) md now None None s"
  by (simp add: handle_input_def handle_with_checkpoint_def)

lemma known_pass:
  assumes "recorded_id s x (md_message_id md)"
  shows "handle_pass en x input md now cp own k s = (r, s') \<Longrightarrow> s' = s \<and> r \<noteq> None"
  using assms by (elim handle_pass_cases) (auto simp: recorded_find)

lemma handle_known:
  assumes "recorded_id s x (md_message_id md)" and "decide_and_append en x input md now cp own s = (r, s')"
  shows "s' = s"
proof -
  obtain q t where pass: "handle_pass en x input md now cp own (unat MAX_CONFLICT_RETRIES) s = (q, t)"
    by (metis surj_pair)
  with known_pass [OF assms(1) pass] assms(2) show ?thesis
    by (cases q) (simp_all add: decide_and_append_def)
qed

text \<open>A fact about an attempt that the stream has already is not written again.\<close>

lemma report_known:
  assumes "alone re" and "recorded_id s (ak_execution key) (report_id re key what)"
    and "report re key ev now what s = (r, s')"
  shows "s' = s"
proof -
  let ?md = "report_metadata (en_crates (re_engine re)) key now what"
  obtain q t where handled: "decide_and_append (re_engine re) (ak_execution key) (Event ev) ?md now None None s = (q, t)"
    by (metis surj_pair)
  with assms(2) have "t = s" by (intro handle_known [OF _ handled]) simp
  with handled assms(1,3) show ?thesis
    by (auto simp: report_def handle_event alone_simps split: sum.splits handle_error.splits)
qed

lemma pass_steps:
  assumes "handle_pass en x input md now cp own k s = (r, s')"
    and "\<And>k t. store_steps (en_size en) t (en_others en k t)"
  shows "store_steps (en_size en) s s'"
  using assms(1)
proof (cases rule: handle_pass_cases)
  case (tried outputs q)
  have "request_about x (decision_request en x input md cp own (loaded s x) outputs)"
    by (rule decision_request_about [OF outputs_are_output [OF tried(2)]])
  from store_step.append [OF this tried(3)] assms(2) show ?thesis by (blast intro: store_steps.step)
qed (simp add: store_steps.stay)

lemma loop_steps:
  assumes "\<And>k t. store_steps (en_size en) t (en_others en k t)"
  shows "handle_loop en x input md now cp own n s = (r, s') \<Longrightarrow> store_steps (en_size en) s s'"
proof (induction n arbitrary: s)
  case (Suc n)
  obtain q t where pass: "handle_pass en x input md now cp own n s = (q, t)" by (metis surj_pair)
  note first = pass_steps [OF pass assms]
  show ?case
  proof (cases q)
    case None
    with Suc pass have "store_steps (en_size en) t s'" by simp
    with first show ?thesis by (rule store_steps_trans [rotated])
  qed (use Suc.prems pass first in auto)
qed (simp add: store_steps.stay)

lemma report_steps:
  assumes "orderly re" and "report re key ev now what s = (r, s')"
  shows "store_steps (en_size (re_engine re)) s s'"
proof -
  let ?md = "report_metadata (en_crates (re_engine re)) key now what"
  let ?s = "re_between re BeforeReport s"
  obtain q t where handled: "decide_and_append (re_engine re) (ak_execution key) (Event ev) ?md now None None ?s = (q, t)"
    by (metis surj_pair)
  with assms(2) have "s' = t"
    by (auto simp: report_def handle_event split: sum.splits handle_error.splits)
  moreover have "store_steps (en_size (re_engine re)) ?s t"
    using assms(1) by (intro loop_steps [OF _ handled [unfolded decide_and_append_def]]) (simp add: orderly_def)
  moreover have "store_steps (en_size (re_engine re)) s ?s" using assms(1) by (simp add: orderly_def)
  ultimately show ?thesis by (blast intro: store_steps_trans)
qed

text \<open>A refusal leaves the attempt alone or reports its failure.\<close>

lemma refuse_cases:
  assumes "refuse re row refusal admitting now s = (r, s')"
  obtains (left) "is_retryable (ae_class refusal)" "admitting = Work"
      "r = Inr (Released (ak_step (row_key row)) (ae_message refusal))" "s' = s"
  | (failed) p where "\<not> (is_retryable (ae_class refusal) \<and> admitting = Work)"
      "report re (row_key row) (StepFailed (ak_step (row_key row)) (ak_attempt (row_key row)) (as_step_error refusal))
         now ''outcome'' s = (p, s')"
      "r = (case p of Inl err \<Rightarrow> Inl err | Inr _ \<Rightarrow> Inr (Reported (ak_step (row_key row)) (ak_attempt (row_key row)) False))"
proof (cases "is_retryable (ae_class refusal) \<and> admitting = Work")
  case True
  with assms show thesis by (intro left) (auto simp: refuse_def)
next
  case False
  obtain p t where "report re (row_key row) (StepFailed (ak_step (row_key row)) (ak_attempt (row_key row)) (as_step_error refusal))
      now ''outcome'' s = (p, t)" by (metis surj_pair)
  with False assms show thesis by (intro failed [of p]) (auto simp: refuse_def split: sum.splits)
qed

lemma admitted_cases:
  assumes "admitted_by re row admitting now s = (r, s')"
  obtains (unasked) "r = Inr None" "s' = s" "re_authority re = None"
  | (unread) err where "r = Inl err" "s' = s"
  | (allowed) authority owner where "re_authority re = Some authority"
      "store_ownership (en_binding (re_engine re)) (ak_execution (row_key row)) s = Inr owner"
      "authority owner admitting = None" "r = Inr None" "s' = s"
  | (turned) authority owner refusal q where "re_authority re = Some authority"
      "store_ownership (en_binding (re_engine re)) (ak_execution (row_key row)) s = Inr owner"
      "authority owner admitting = Some refusal" "refuse re row refusal admitting now s = (q, s')"
      "r = (case q of Inl err \<Rightarrow> Inl err | Inr p \<Rightarrow> Inr (Some p))"
proof (cases "re_authority re")
  case None
  with assms show thesis by (intro unasked) (auto simp: admitted_by_def)
next
  case some: (Some authority)
  show thesis
  proof (cases "store_ownership (en_binding (re_engine re)) (ak_execution (row_key row)) s")
    case (Inl err)
    with assms some show thesis by (intro unread [of "HStore err"]) (auto simp: admitted_by_def)
  next
    case (Inr owner)
    show thesis
    proof (cases "authority owner admitting")
      case None
      with assms some Inr show thesis by (intro allowed [of authority owner]) (auto simp: admitted_by_def)
    next
      case refusal: (Some refusal)
      obtain q t where "refuse re row refusal admitting now s = (q, t)" by (metis surj_pair)
      with assms some Inr refusal show thesis
        by (intro turned [of authority owner refusal q]) (auto simp: admitted_by_def split: sum.splits)
    qed
  qed
qed

lemma refuse_steps:
  assumes "orderly re" and "refuse re row refusal admitting now s = (r, s')"
  shows "store_steps (en_size (re_engine re)) s s'"
  using assms(2)
proof (cases rule: refuse_cases)
  case (failed p)
  from report_steps [OF assms(1) failed(2)] show ?thesis .
qed (simp add: store_steps.stay)

lemma admitted_steps:
  assumes "orderly re" and "admitted_by re row admitting now s = (r, s')"
  shows "store_steps (en_size (re_engine re)) s s'"
  using assms(2)
proof (cases rule: admitted_cases)
  case (turned authority owner refusal q)
  from refuse_steps [OF assms(1) turned(4)] show ?thesis .
qed (simp_all add: store_steps.stay)

text \<open>The heartbeat answers whether the row is held; only then does it touch it.\<close>

lemma heartbeat_cases:
  assumes "store_heartbeat b key owner now s = (q, s')"
  obtains (held) row where "q = Inr True" "bt_get (in_attempts s) key = Some row" "is_held_by row owner now"
      "s' = s\<lparr>in_attempts := bt_modify key (\<lambda>row. row\<lparr>row_claimed_at := Some now\<rparr>) (in_attempts s)\<rparr>"
  | (lost) "q = Inr False" "s' = s"
      "\<And>row. bt_get (in_attempts s) key = Some row \<Longrightarrow> \<not> is_held_by row owner now"
  | (refused) err where "q = Inl err" "s' = s"
proof (cases "inner_check s b (ak_execution key)")
  case (Inl err)
  with assms show thesis by (intro refused [of err]) (auto simp: store_heartbeat_def)
next
  case checked: (Inr u)
  show thesis
  proof (cases "\<exists>row. bt_get (in_attempts s) key = Some row \<and> is_held_by row owner now")
    case True
    then obtain row where "bt_get (in_attempts s) key = Some row" "is_held_by row owner now" by blast
    with assms checked show thesis by (intro held [of row]) (simp_all add: store_heartbeat_def)
  next
    case False
    with assms checked show thesis
      by (intro lost) (auto simp: store_heartbeat_def split: option.splits)
  qed
qed

lemma settle_cases:
  assumes "settle_at re c outcome now finished s = (r, s', notes)"
  obtains (lost) q where "store_heartbeat (en_binding (re_engine re)) (row_key (cl_row c)) (re_owner re) now s = (q, s')"
      "q \<noteq> Inr True" "notes = []"
      "q = Inr False \<Longrightarrow> r = Inr (LeaseLost (ak_step (row_key (cl_row c))) (ak_attempt (row_key (cl_row c))))"
      "\<And>err. q = Inl err \<Longrightarrow> r = Inl (HStore err)"
  | (refused) s1 a where
      "store_heartbeat (en_binding (re_engine re)) (row_key (cl_row c)) (re_owner re) now s = (Inr True, s1)"
      "admitted_by re (cl_row c) Publication finished (re_between re AfterLease s1) = (a, s')" "a \<noteq> Inr None"
      "notes = []" "\<And>err. a = Inl err \<Longrightarrow> r = Inl err" "\<And>p. a = Inr (Some p) \<Longrightarrow> r = Inr p"
  | (reported) s1 t p where
      "store_heartbeat (en_binding (re_engine re)) (row_key (cl_row c)) (re_owner re) now s = (Inr True, s1)"
      "admitted_by re (cl_row c) Publication finished (re_between re AfterLease s1) = (Inr None, t)"
      "report re (row_key (cl_row c)) (outcome_event (cl_row c) outcome) finished ''outcome'' t = (p, s')"
      "notes = result_notes re c outcome now"
      "r = (case p of Inl err \<Rightarrow> Inl err
            | Inr _ \<Rightarrow> Inr (Reported (ak_step (row_key (cl_row c))) (ak_attempt (row_key (cl_row c))) (\<not> isl outcome)))"
proof -
  obtain q s1 where beat: "store_heartbeat (en_binding (re_engine re)) (row_key (cl_row c)) (re_owner re) now s = (q, s1)"
    by (metis surj_pair)
  show thesis
  proof (cases "q = Inr True")
    case False
    with assms beat show thesis
      by (intro lost [of q]) (auto simp: settle_at_def Let_def split: sum.splits bool.splits)
  next
    case True
    obtain a t where adm: "admitted_by re (cl_row c) Publication finished (re_between re AfterLease s1) = (a, t)"
      by (metis surj_pair)
    show thesis
    proof (cases "a = Inr None")
      case False
      with assms beat True adm show thesis
        by (intro refused [of s1 a]) (auto simp: settle_at_def Let_def split: sum.splits option.splits)
    next
      case none: True
      obtain p u where rep: "report re (row_key (cl_row c)) (outcome_event (cl_row c) outcome) finished ''outcome'' t = (p, u)"
        by (metis surj_pair)
      have "settle_at re c outcome now finished s = (case p of Inl err \<Rightarrow> (Inl err, u, result_notes re c outcome now)
          | Inr _ \<Rightarrow> (Inr (Reported (ak_step (row_key (cl_row c))) (ak_attempt (row_key (cl_row c))) (\<not> isl outcome)),
                      u, result_notes re c outcome now))"
        by (simp add: settle_at_def beat True adm none rep Let_def)
      with assms beat True adm none rep show thesis
        by (intro reported [of s1 t p]) (simp_all split: sum.splits)
    qed
  qed
qed

lemma settle_steps:
  assumes "orderly re" and "settle_at re c outcome now finished s = (r, s', notes)"
  shows "store_steps (en_size (re_engine re)) s s'"
proof -
  have beat: "store_steps (en_size (re_engine re)) s s1"
    if "store_heartbeat (en_binding (re_engine re)) (row_key (cl_row c)) (re_owner re) now s = (q, s1)" for q s1
    using that by (blast intro: store_steps.step store_steps.stay store_step.heartbeat)
  have gap: "store_steps (en_size (re_engine re)) s1 (re_between re AfterLease s1)" for s1
    using assms(1) by (simp add: orderly_def)
  from assms(2) show ?thesis
  proof (cases rule: settle_cases)
    case (lost q)
    then show ?thesis by (intro beat)
  next
    case (refused s1 a)
    then show ?thesis by (meson beat gap admitted_steps [OF assms(1)] store_steps_trans)
  next
    case (reported s1 t p)
    then show ?thesis by (meson beat gap admitted_steps [OF assms(1)] report_steps [OF assms(1)] store_steps_trans)
  qed
qed

subsection \<open>One outcome for one attempt\<close>

definition is_report :: "string \<Rightarrow> recorded_message \<Rightarrow> bool" where
  "is_report i m \<longleftrightarrow> rm_direction m = Input \<and> md_message_id (rm_metadata m) = i"

lemma filter_unique:
  "k < length xs \<Longrightarrow> P (xs ! k) \<Longrightarrow> (\<And>j. j < length xs \<Longrightarrow> P (xs ! j) \<Longrightarrow> j = k) \<Longrightarrow> filter P xs = [xs ! k]"
proof (induction xs arbitrary: k)
  case (Cons x xs)
  show ?case
  proof (cases k)
    case 0
    with Cons.prems(3) have "filter P xs = []" by (force simp: filter_empty_conv in_set_conv_nth)
    with Cons.prems 0 show ?thesis by simp
  next
    case (Suc l)
    have "\<not> P x" using Cons.prems(3) [of 0] Suc by auto
    moreover have "filter P xs = [xs ! l]"
      using Cons.prems Suc by (intro Cons.IH) (auto dest: Cons.prems(3) [of "Suc _", simplified])
    ultimately show ?thesis using Suc by simp
  qed
qed simp

lemma inputs_are_unique:
  assumes "store_ok s" and "m \<in> set (stream_of s x)" and "is_report i m"
  shows "filter (is_report i) (stream_of s x) = [m]"
proof -
  from assms(2) obtain k where k: "k < length (stream_of s x)" "stream_of s x ! k = m" by (auto simp: in_set_conv_nth)
  have inbox: "seen_at s x i = Some v \<longleftrightarrow> input_at (stream_of s x) i v" for v
    using assms(1) by (simp add: store_ok_def history_ok_def inbox_ok_def)
  have at: "j < length (stream_of s x) \<Longrightarrow> is_report i (stream_of s x ! j) \<Longrightarrow> seen_at s x i = Some (Suc j)" for j
    by (simp add: inbox input_at_def is_report_def)
  have "filter (is_report i) (stream_of s x) = [stream_of s x ! k]"
    using k assms(3) at by (intro filter_unique) (auto dest!: at)
  with k show ?thesis by simp
qed


subsection \<open>Work that was taken over\<close>

text \<open>No row of the attempt names this owner.\<close>

definition unheld :: "string \<Rightarrow> attempt_key \<Rightarrow> inner \<Rightarrow> bool" where
  "unheld owner key s \<longleftrightarrow> (\<forall>row. bt_get (in_attempts s) key = Some row \<longrightarrow> row_lease_owner row \<noteq> Some owner)"

lemma attempt_row_unowned: "attempt_row_of x run outputs mid m = Some (Dispatch row) \<Longrightarrow> row_lease_owner row = None"
proof (cases m)
  case (Command cmd)
  assume "attempt_row_of x run outputs mid m = Some (Dispatch row)"
  with Command show ?thesis
    by (cases cmd) (auto simp: dispatch_row_def row_claimable_def on_queue_def with_not_before_def Let_def
        split: option.splits runtime_binding.splits)
next
  case (Event ev)
  assume "attempt_row_of x run outputs mid m = Some (Dispatch row)"
  with Event show ?thesis by (cases ev) (auto split: if_splits)
qed simp

text \<open>
  An operation does not give an attempt to \<open>owner\<close> when it dispatches no row under its key that names
  that owner already, as no row the engine dispatches does, and when it is not that owner's own claim.
\<close>

fun gives_away :: "string \<Rightarrow> attempt_key \<Rightarrow> operation \<Rightarrow> bool" where
  "gives_away owner key (OpAppend b now x req) =
     list_all (\<lambda>w. case w of Dispatch row \<Rightarrow> row_key row = key \<longrightarrow> row_lease_owner row \<noteq> Some owner | _ \<Rightarrow> True)
       (ar_attempts req)"
| "gives_away owner key (OpClaim b f claimant now) = (claimant \<noteq> owner)"
| "gives_away owner key _ = True"

lemma unheld_writes:
  "list_all (\<lambda>w. case w of Dispatch row \<Rightarrow> row_key row = key \<longrightarrow> row_lease_owner row \<noteq> Some owner | _ \<Rightarrow> True) ws \<Longrightarrow>
     \<forall>row. bt_get m key = Some row \<longrightarrow> row_lease_owner row \<noteq> Some owner \<Longrightarrow>
     \<forall>row. bt_get (foldl (\<lambda>m w. apply_attempt_write w m) m ws) key = Some row \<longrightarrow> row_lease_owner row \<noteq> Some owner"
proof (induction ws arbitrary: m)
  case (Cons w ws)
  have "\<forall>row. bt_get (apply_attempt_write w m) key = Some row \<longrightarrow> row_lease_owner row \<noteq> Some owner"
    using Cons.prems by (cases w) (auto simp: row_park_def split: if_splits option.splits)
  with Cons show ?case by simp
qed simp

lemma engine_gives_away:
  "gives_away owner key (OpAppend b now x (decision_request en x input md cp own sl outputs))"
  by (auto simp: list_all_iff decision_request_def Let_def attempt_rows_def map_filter_set
      split: attempt_write.splits option.splits dest: attempt_row_unowned)

lemma operate_unheld:
  assumes "rows_ok (in_attempts s)" and "unheld owner key s" and "gives_away owner key op"
  shows "unheld owner key (operate sz op s)"
proof (cases op)
  case (OpAppend b now x req)
  with append_attempts [of sz b now x req s] assms(2,3) show ?thesis
    using unheld_writes [of key owner "ar_attempts req" "in_attempts s"] by (simp add: unheld_def del: operate.simps) metis
next
  case (OpClaim b f claimant now)
  obtain claimed s' where claim: "store_claim_attempt b f claimant now s = (claimed, s')" by (metis surj_pair)
  show ?thesis
  proof (cases claimed)
    case None
    with claim_rows [OF assms(1) claim] OpClaim claim assms(2) show ?thesis by simp
  next
    case (Some row)
    with claim_rows [OF assms(1) claim] OpClaim claim assms(2,3) show ?thesis
      by (cases "key = row_key row") (auto simp: unheld_def)
  qed
next
  case (OpHeartbeat b k claimant now)
  with assms(2) show ?thesis
    by (auto simp: store_heartbeat_def unheld_def split: sum.splits option.splits if_splits)
next
  case (OpPrune b before limit)
  with prune_attempts [of sz b before limit s] assms(1,2) show ?thesis
    by (auto simp: unheld_def rows_ok_def bt_get_retain split: option.splits if_splits simp del: operate.simps)
qed (use assms(2) in \<open>simp_all add: unheld_def operate_attempts del: operate.simps\<close>)

lemma operate_all_unheld:
  "rows_ok (in_attempts s) \<Longrightarrow> unheld owner key s \<Longrightarrow> list_all (gives_away owner key) ops \<Longrightarrow>
     unheld owner key (operate_all sz ops s)"
proof (induction ops arbitrary: s)
  case (Cons op ops)
  then have "unheld owner key (operate sz op s)" by (auto intro: operate_unheld)
  with Cons operate_rows_ok [OF Cons.prems(1), of sz op] show ?case by (simp add: operate_all_def)
qed (simp add: operate_all_def)

lemma unheld_settle:
  assumes "unheld (re_owner re) (row_key (cl_row c)) s"
  shows "\<exists>r. settle_at re c outcome at finished s = (r, s, []) \<and>
           (inner_admits s (en_binding (re_engine re)) (ak_execution (row_key (cl_row c))) \<longrightarrow>
              r = Inr (LeaseLost (ak_step (row_key (cl_row c))) (ak_attempt (row_key (cl_row c)))))"
proof -
  have none: "\<not> is_held_by held (re_owner re) at" if "bt_get (in_attempts s) (row_key (cl_row c)) = Some held" for held
    using that assms by (auto simp: unheld_def is_held_by_def)
  obtain q s' where beat: "store_heartbeat (en_binding (re_engine re)) (row_key (cl_row c)) (re_owner re) at s = (q, s')"
    by (metis surj_pair)
  then show ?thesis
  proof (cases rule: heartbeat_cases)
    case (refused err)
    have "\<not> inner_admits s (en_binding (re_engine re)) (ak_execution (row_key (cl_row c)))"
      using beat refused
      by (auto simp: store_heartbeat_def inner_admits_def inner_check_def binding_check_def
          split: sum.splits option.splits if_splits)
    with beat refused show ?thesis by (simp add: settle_at_def Let_def)
  qed (use beat none in \<open>auto simp: settle_at_def Let_def\<close>)
qed

text \<open>How a taken attempt came about: the row it claimed, and a start that was reported for it.\<close>

lemma take_work:
  assumes "reactor_take re f performable now s = (Inr (TakenWork c), s')"
  obtains row s1 t run step p where
    "store_claim_attempt (en_binding (re_engine re)) f (re_owner re) now s = (Some row, s1)"
    "admitted_by re row Work now (re_between re AfterClaim s1) = (Inr None, t)"
    "c = claimed_of re row run step"
    "load_execution re (ak_execution (row_key row)) (re_between re BeforeLoad t) = Inr (Some run)"
    "plan_step_of (ex_plan run) (ak_step (row_key row)) = Some step"
    "catalog_cached re (cl_cache_key c) now = None"
    "report re (row_key row) (StepStarted (ak_step (row_key row)) (ak_attempt (row_key row))) now ''started''
       (re_between re BeforeLoad t) = (p, s')"
proof -
  obtain row s1 where claim: "store_claim_attempt (en_binding (re_engine re)) f (re_owner re) now s = (Some row, s1)"
    using assms by (cases "store_claim_attempt (en_binding (re_engine re)) f (re_owner re) now s" rule: prod.exhaust)
      (auto simp: reactor_take_def split: option.splits)
  with assms have row: "take_row re row performable now s1 = (Inr (TakenWork c), s')" by (simp add: reactor_take_def)
  obtain a t where adm: "admitted_by re row Work now (re_between re AfterClaim s1) = (a, t)" by (metis surj_pair)
  let ?t = "re_between re BeforeLoad t"
  have "a = Inr None" using row adm by (auto simp: take_row_def Let_def split: sum.splits option.splits)
  note adm = adm [unfolded this]
  obtain loaded where load: "load_execution re (ak_execution (row_key row)) ?t = Inr loaded"
    using row adm by (auto simp: take_row_def Let_def split: sum.splits)
  obtain run step where perf: "step_to_perform row performable loaded = Inr (run, step)"
    using row adm load by (auto simp: take_row_def Let_def split: sum.splits)
  have step: "loaded = Some run" "plan_step_of (ex_plan run) (ak_step (row_key row)) = Some step"
    using perf by (auto simp: step_to_perform_def Let_def split: option.splits if_splits)
  have last: "take_loaded re row run step now ?t = (Inr (TakenWork c), s')"
    using row adm load perf by (simp add: take_row_def Let_def)
  let ?c = "claimed_of re row run step"
  have miss: "catalog_cached re (cl_cache_key ?c) now = None"
    using last by (auto simp: take_loaded_def Let_def split: option.splits prod.splits sum.splits)
  obtain p u where rep: "report re (row_key row) (StepStarted (ak_step (row_key row)) (ak_attempt (row_key row)))
      now ''started'' ?t = (p, u)" by (metis surj_pair)
  with last miss have "c = ?c" "u = s'" by (auto simp: take_loaded_def Let_def split: sum.splits)
  with that claim adm load step miss rep show thesis by blast
qed

lemma claimed_of_simps [simp]:
  "cl_row (claimed_of re row run step) = row"
  "ac_key (cl_command (claimed_of re row run step)) = row_key row"
  "ac_step (cl_command (claimed_of re row run step)) = step"
  by (simp_all add: claimed_of_def Let_def)

lemma admitted_unchanged: "admitted_by re row Work now s = (Inr None, t) \<Longrightarrow> t = s"
  by (erule admitted_cases) (auto split: sum.splits)


subsection \<open>A takeover asks before it runs\<close>

text \<open>An attempt that somebody else had claimed is executed only where the runtime, asked by the attempt's
  key, answers that it has no record of it: in every other case the outcome is the same whatever
  executing would have done.\<close>

theorem takeover_asks_before_it_runs:
  assumes "store_reachable sz s" and "reactor_take re f performable now s = (Inr (TakenWork c), s')"
    and "bt_get (in_attempts s) (row_key (cl_row c)) = Some before" and "row_lease_owner before = Some other"
    and "other \<noteq> re_owner re" and "ax_lookup ex (cl_command c) \<noteq> Inr Absent"
  shows "perform re (ex\<lparr>ax_execute := anything\<rparr>) c race = perform re ex c race \<and>
         (race = RanToEnd \<longrightarrow>
            perform re ex c race = Some
              (case ax_lookup ex (cl_command c) of
                 Inr (Done result) \<Rightarrow> Inr result
               | Inr _ \<Rightarrow> Inl \<lparr>err_class = FTransient,
                             err_message = ''the runtime is still working on the previous attempt''\<rparr>
               | Inl e \<Rightarrow> Inl (as_step_error e)))"
proof -
  from assms(2) obtain row s1 t run step where
    claim: "store_claim_attempt (en_binding (re_engine re)) f (re_owner re) now s = (Some row, s1)" and
    c: "c = claimed_of re row run step" by (rule take_work)
  from claim_cases [OF store_reachable_ok [OF assms(1)] claim] assms(3) c
  have "cl_row c = row_claim (re_owner re) now before" by auto
  then have "row_previous_owner (cl_row c) = Some other"
    using assms(4,5) by (simp add: row_claim_def Let_def)
  then have "carry_out (ex\<lparr>ax_execute := anything\<rparr>) (cl_command c) cx (cl_row c) = carry_out ex (cl_command c) cx (cl_row c)"
    and "carry_out ex (cl_command c) cx (cl_row c) = (case ax_lookup ex (cl_command c) of
                 Inr (Done result) \<Rightarrow> Inr result
               | Inr _ \<Rightarrow> Inl \<lparr>err_class = FTransient,
                             err_message = ''the runtime is still working on the previous attempt''\<rparr>
               | Inl e \<Rightarrow> Inl (as_step_error e))" for cx
    using assms(6) by (auto simp: carry_out_def Let_def split: sum.splits prior_attempt.splits)
  then show ?thesis by (simp add: perform_def split: race.splits)
qed

text \<open>The question is put only where the name changed: a reactor that takes its own lapsed row back, under
  the name it had before it restarted, runs the work again without asking, whatever the runtime
  would have answered.\<close>

theorem same_name_never_asks:
  assumes "store_reachable sz s" and "reactor_take re f performable now s = (Inr (TakenWork c), s')"
    and "bt_get (in_attempts s) (row_key (cl_row c)) = Some before" and "row_lease_owner before = Some (re_owner re)"
    and "row_previous_owner before = None"
  shows "perform re (ex\<lparr>ax_lookup := anything\<rparr>) c RanToEnd =
           Some (map_sum as_step_error (\<lambda>result. result) (ax_execute ex (cl_command c) (cl_context c)))"
proof -
  from assms(2) obtain row s1 t run step where
    claim: "store_claim_attempt (en_binding (re_engine re)) f (re_owner re) now s = (Some row, s1)" and
    c: "c = claimed_of re row run step" by (rule take_work)
  from claim_cases [OF store_reachable_ok [OF assms(1)] claim] assms(3) c
  have "cl_row c = row_claim (re_owner re) now before" by auto
  then have "row_previous_owner (cl_row c) = None"
    using assms(4,5) by (simp add: row_claim_def Let_def)
  then show ?thesis by (auto simp: perform_def carry_out_def Let_def split: sum.splits)
qed

subsection \<open>An authority that refuses\<close>

lemma consent_or_end:
  assumes "re_authority re = Some authority" and "\<And>owner. authority owner Work \<noteq> None"
    and "admitted_by re row Work now s = (r, s')"
  shows "r \<noteq> Inr None"
  using assms(3)
proof (cases rule: admitted_cases)
  case (allowed authority' owner)
  with assms(1) assms(2) [of owner] show ?thesis by simp
qed (use assms(1) in \<open>auto split: sum.splits\<close>)

lemma report_catalog [simp]: "report (re\<lparr>re_catalog := catalog\<rparr>) = report re"
  by (intro ext) (simp add: report_def)

lemma refuse_catalog [simp]: "refuse (re\<lparr>re_catalog := catalog\<rparr>) = refuse re"
  by (intro ext) (simp add: refuse_def)

lemma admitted_catalog [simp]: "admitted_by (re\<lparr>re_catalog := catalog\<rparr>) = admitted_by re"
  by (intro ext) (simp add: admitted_by_def cong: option.case_cong sum.case_cong)

text \<open>While the authority refuses the work, no attempt is handed out and nothing that is done depends on
  the catalog: a hit is an answer about the owner's data, and none is looked up. A refusal that is
  only an authority out of reach writes nothing into any history.\<close>

theorem no_look_without_consent:
  assumes "re_authority re = Some authority" and "\<And>owner. authority owner Work \<noteq> None"
    and "reactor_take re f performable now s = (r, s')"
  shows "reactor_take (re\<lparr>re_catalog := catalog\<rparr>) f performable now s = (r, s') \<and>
         (\<forall>c. r \<noteq> Inr (TakenWork c)) \<and>
         (alone re \<and> (\<forall>owner e. authority owner Work = Some e \<longrightarrow> is_retryable (ae_class e)) \<longrightarrow>
            same_history s s' \<and> in_outbox s' = in_outbox s)"
proof -
  obtain claim s1 where claim: "store_claim_attempt (en_binding (re_engine re)) f (re_owner re) now s = (claim, s1)"
    by (metis surj_pair)
  show ?thesis
  proof (cases claim)
    case None
    from claim_step [OF claim] have "same_history s s1" by (simp add: quiet_def)
    moreover have "in_outbox s1 = in_outbox s" using claim by (auto simp: store_claim_attempt_def Let_def split: option.splits)
    ultimately show ?thesis using assms(3) claim None by (auto simp: reactor_take_def)
  next
    case (Some row)
    obtain a t where adm: "admitted_by re row Work now (re_between re AfterClaim s1) = (a, t)" by (metis surj_pair)
    note no = consent_or_end [OF assms(1,2) adm]
    have taken: "reactor_take re' f performable now s = (case a of Inl err \<Rightarrow> Inl err | Inr p \<Rightarrow> Inr (TakenSettled (the p)), t)"
      if "re' = re \<or> re' = re\<lparr>re_catalog := catalog\<rparr>" for re'
      using that claim Some adm no by (auto simp: reactor_take_def take_row_def split: sum.splits option.splits)
    have "same_history s t \<and> in_outbox t = in_outbox s"
      if "alone re" "\<And>owner e. authority owner Work = Some e \<Longrightarrow> is_retryable (ae_class e)"
    proof -
      have "same_history s s1 \<and> in_outbox s1 = in_outbox s"
        using claim_step [OF claim] claim
        by (auto simp: quiet_def store_claim_attempt_def Let_def split: option.splits)
      moreover have "t = s1"
        using adm [unfolded alone_simps [OF that(1)]]
      proof (cases rule: admitted_cases)
        case (turned authority' owner refusal q)
        then show ?thesis using that(2) assms(1) by (auto elim!: refuse_cases)
      qed simp_all
      ultimately show ?thesis by simp
    qed
    with taken [of re] taken [of "re\<lparr>re_catalog := catalog\<rparr>"] assms(3) show ?thesis
      by (auto split: sum.splits)
  qed
qed

text \<open>A result whose owner lost its grant while the work ran is not published: the catalog takes no note,
  and everything the settlement writes is the same for any other outcome.\<close>

theorem refused_result_is_not_published:
  assumes "re_authority re = Some authority" and "\<And>owner. authority owner Publication \<noteq> None"
    and "settle_at re c outcome now finished s = (r, s', notes)"
  shows "notes = [] \<and> settle_at re c other now finished s = (r, s', notes) \<and>
         (\<forall>i n. r \<noteq> Inr (Reported i n True))"
proof -
  obtain q s1 where beat: "store_heartbeat (en_binding (re_engine re)) (row_key (cl_row c)) (re_owner re) now s = (q, s1)"
    by (metis surj_pair)
  obtain a t where adm: "admitted_by re (cl_row c) Publication finished (re_between re AfterLease s1) = (a, t)"
    by (metis surj_pair)
  have "a \<noteq> Inr None \<and> (\<forall>i n. a \<noteq> Inr (Some (Reported i n True)))"
    using adm
  proof (cases rule: admitted_cases)
    case (turned authority' owner refusal q)
    from turned(4) show ?thesis
      by (cases rule: refuse_cases) (use turned(5) in \<open>auto split: sum.splits\<close>)
  next
    case (allowed authority' owner)
    with assms(1) assms(2) [of owner] show ?thesis by simp
  qed (use assms(1) in auto)
  with assms(3) beat adm show ?thesis
    by (auto simp: settle_at_def Let_def split: sum.splits bool.splits option.splits)
qed

subsection \<open>A settled success\<close>

lemma calm_pass:
  assumes "\<And>m. en_size en m \<le> MAX_PAYLOAD_BYTES" and "\<And>k t. en_others en k t = t"
    and "inner_admits s (en_binding en) x" and "stream_of s x \<noteq> []"
    and "\<not> recorded_id s x (md_message_id md)" and "store_ok s"
    and "decide (en_crates en) (folded s x) input (md_message_id md) now = Inr out"
  obtains answer s' where "handle_pass en x input md now cp None k s = (Some (Inr answer), s')"
    "\<not> hd_duplicate answer" "folded s' x = foldl evolve (folded s x) (events_of out)"
    "\<exists>m \<in> set (stream_of s' x). is_report (md_message_id md) m"
    "in_attempts s' = foldl (\<lambda>m w. apply_attempt_write w m) (in_attempts s) (attempt_rows x (foldl evolve (folded s x) (events_of out)) out)"
    "owner_of s' x = owner_of s x"
proof -
  let ?req = "decision_request en x input md cp None (loaded s x) out"
  have "seen_at s x (md_message_id md) = None"
    using seen_is_recorded [OF assms(6)] assms(5) by (cases "seen_at s x (md_message_id md)") auto
  moreover have "List.find (\<lambda>m. payload_size (en_size en) m > MAX_PAYLOAD_BYTES) ms = None" for ms
    using assms(1) by (simp add: find_None_iff payload_size_def linorder_not_less)
  then have "check_payloads (en_size en) ?req = Inr ()" by (simp add: check_payloads_def)
  moreover have "version_refused (ar_expected_version ?req) (length (stream_of s x)) = None"
    using assms(4) by simp
  moreover have "binding_appending (en_binding en) x None (owner_of s x) False = Inr None"
    using assms(3,4) by (simp add: binding_appending_def binding_check_def inner_admits_def holds_stream_of)
  ultimately obtain v s' where app: "store_append (en_size en) (en_binding en) (en_clock en) x ?req s = (Inr (Appended v), s')"
    using assms(4) by (simp add: store_append_def Let_def pending_input_def del: decision_request_simps(4))
  then have app': "store_append (en_size en) (en_binding en) (en_clock en) x ?req (en_others en k s) = (Inr (Appended v), s')"
    by (simp add: assms(2))
  have "List.find (\<lambda>m. md_message_id (rm_metadata m) = md_message_id md) (stream_of s x) = None"
    using assms(5) by (simp add: recorded_find)
  note pass = handle_pass_tried [OF load_admitted [OF assms(3)] this assms(7) app']
  have "folded s' x = foldl evolve (folded s x) (events_of out)"
    by (rule pass_appended(2) [OF app assms(7)]) simp
  moreover have "pending_of ` set (stream_of s' x) = set (map pending_of (stream_of s x) @ pending_input input md # out)"
    using arg_cong [OF memory_log.appended [OF app], of set] by simp
  then have "pending_input input md \<in> pending_of ` set (stream_of s' x)" by simp
  then obtain m where "m \<in> set (stream_of s' x)" "pending_input input md = pending_of m" by (elim imageE)
  then have "\<exists>m \<in> set (stream_of s' x). is_report (md_message_id md) m"
    by (intro bexI [of _ m]) (simp_all add: is_report_def pending_of_def pending_input_def)
  moreover from app obtain establishing where s': "s' = commit (en_clock en) x establishing ?req (touch_stream x s)"
    and "binding_appending (en_binding en) x None (owner_of s x) (stream_of s x = []) = Inr establishing"
    by (cases rule: store_append_cases) auto
  then have "owner_of s' x = owner_of s x" "in_attempts s' = foldl (\<lambda>m w. apply_attempt_write w m) (in_attempts s) (ar_attempts ?req)"
    using assms(3,4) by (auto simp: owner_of_commit binding_appending_def split: sum.splits)
      (simp add: commit_def Let_def)
  ultimately show thesis
    using that [of _ s'] pass by (simp add: decision_request_def Let_def folded_def)
qed

lemma calm_report:
  assumes "\<And>m. en_size (re_engine re) m \<le> MAX_PAYLOAD_BYTES" and "alone re"
    and "inner_admits s (en_binding (re_engine re)) (ak_execution key)" and "stream_of s (ak_execution key) \<noteq> []"
    and "\<not> recorded_id s (ak_execution key) (report_id re key what)" and "store_ok s"
    and "decide (en_crates (re_engine re)) (folded s (ak_execution key)) (Event ev) (report_id re key what) now = Inr out"
  obtains s' where "report re key ev now what s = (Inr (), s')"
    "folded s' (ak_execution key) = foldl evolve (folded s (ak_execution key)) (events_of out)"
    "\<exists>m \<in> set (stream_of s' (ak_execution key)). is_report (report_id re key what) m"
    "in_attempts s' = foldl (\<lambda>m w. apply_attempt_write w m) (in_attempts s)
       (attempt_rows (ak_execution key) (foldl evolve (folded s (ak_execution key)) (events_of out)) out)"
    "owner_of s' (ak_execution key) = owner_of s (ak_execution key)"
proof -
  let ?md = "report_metadata (en_crates (re_engine re)) key now what"
  have id: "md_message_id ?md = report_id re key what" by simp
  obtain answer s' where pass: "handle_pass (re_engine re) (ak_execution key) (Event ev) ?md now None None
      (unat MAX_CONFLICT_RETRIES) s = (Some (Inr answer), s')"
    and "folded s' (ak_execution key) = foldl evolve (folded s (ak_execution key)) (events_of out)"
    "\<exists>m \<in> set (stream_of s' (ak_execution key)). is_report (md_message_id ?md) m"
    "in_attempts s' = foldl (\<lambda>m w. apply_attempt_write w m) (in_attempts s)
       (attempt_rows (ak_execution key) (foldl evolve (folded s (ak_execution key)) (events_of out)) out)"
    "owner_of s' (ak_execution key) = owner_of s (ak_execution key)"
    by (rule calm_pass [where md = ?md and input = "Event ev" and cp = None and k = "unat MAX_CONFLICT_RETRIES",
          OF assms(1) alone_simps(2) [OF assms(2)] assms(3,4) assms(5) [folded id] assms(6) assms(7) [folded id]])
  then show thesis
    using that [of s'] assms(2) by (simp add: report_def handle_event decide_and_append_def alone_simps)
qed

lemma completion_outputs:
  assumes "decide C (Active e) (Event (StepCompleted i n outs res)) cause now = Inr out"
    and "ex_step e i = Some st" and "state_type (ss_state st) \<noteq> Completed"
  shows "\<exists>e' st'. foldl evolve (Active e) (events_of out) = Active e' \<and> ex_step e' i = Some st' \<and>
           state_type (ss_state st') = Completed \<and> ss_outputs st' = outs"
proof -
  from assms have "events_of out = StepCompleted i n outs res # continue_events C e i now"
    by (auto simp: decide_completed_def step_of_def split: if_splits)
  moreover have "ex_step (apply_all (apply_event e (StepCompleted i n outs res)) (continue_events C e i now)) i
      = ex_step (apply_event e (StepCompleted i n outs res)) i"
    by (rule apply_all_untouched) (rule touched_continue)
  ultimately show ?thesis using assms(2) by (simp add: foldl_evolve_Active apply_completed_def)
qed

text \<open>Work that ran to an end under a lease that still holds reaches the run: the step completes with the
  outputs the executor returned and the catalog hears of them first.\<close>

theorem settled_success_completes_the_step:
  assumes "store_reachable (en_size (re_engine re)) s" and "alone re" and "re_authority re = None"
    and "\<And>m. en_size (re_engine re) m \<le> MAX_PAYLOAD_BYTES"
    and "cl_row c = row" and "row_key row = AttemptKey x i n" and "inner_admits s (en_binding (re_engine re)) x"
    and "bt_get (in_attempts s) (AttemptKey x i n) = Some held" and "is_held_by held (re_owner re) now"
    and "folded s x = Active e" and "ex_step e i = Some st" and "ss_current_attempt st = n"
    and "state_type (ss_state st) \<noteq> Completed" and "res_awaiting result = None"
    and "\<not> recorded_id s x (report_id re (AttemptKey x i n) ''outcome'')"
  shows "\<exists>s' e' st'. settle_at re c (Inr result) now finished s =
             (Inr (Reported i n True), s', result_notes re c (Inr result) now) \<and>
           folded s' x = Active e' \<and> ex_step e' i = Some st' \<and> state_type (ss_state st') = Completed \<and>
           ss_outputs st' = res_outputs result"
proof -
  let ?s1 = "s\<lparr>in_attempts := bt_modify (AttemptKey x i n) (\<lambda>row. row\<lparr>row_claimed_at := Some now\<rparr>) (in_attempts s)\<rparr>"
  have beat: "store_heartbeat (en_binding (re_engine re)) (AttemptKey x i n) (re_owner re) now s = (Inr True, ?s1)"
    using assms(7,8,9) load_admitted [OF assms(7)]
    by (auto simp: store_heartbeat_def store_load_def guarded_def split: sum.splits)
  have same: "same_history s ?s1" by (simp add: same_history_def)
  note frame = same_history_frame [OF same]
  have ok: "store_ok ?s1" using quiet_ok [OF heartbeat_step [OF beat] store_reachable_ok [OF assms(1)]] .
  have folded: "folded ?s1 x = Active e" using assms(10) by (simp add: folded_def frame)
  have adm: "admitted_by re row Publication finished ?s1 = (Inr None, ?s1)" using assms(3) by (simp add: admitted_by_def)
  obtain out where out: "decide (en_crates (re_engine re)) (Active e) (Event (StepCompleted i n (res_outputs result) (res_result result)))
      (report_id re (AttemptKey x i n) ''outcome'') finished = Inr out"
    using assms(11,12,13) by (simp add: decide_completed_def step_of_def)
  have "stream_of s x \<noteq> []"
    using assms(10) by (auto simp: folded_def replay_def initial_state_def)
  moreover have "\<not> recorded_id ?s1 x (report_id re (AttemptKey x i n) ''outcome'')"
    using assms(15) by (simp add: recorded_id_def frame)
  ultimately obtain s' where rep: "report re (AttemptKey x i n) (StepCompleted i n (res_outputs result) (res_result result)) finished
      ''outcome'' ?s1 = (Inr (), s')" and new: "folded s' x = foldl evolve (Active e) (events_of out)"
    using calm_report [OF assms(4,2), where key = "AttemptKey x i n" and s = ?s1 and what = "''outcome''"
        and ev = "StepCompleted i n (res_outputs result) (res_result result)" and now = finished and out = out]
      assms(7) ok out folded by (metis attempt_key.sel(1) frame(1,5))
  have "settle_at re c (Inr result) now finished s = (Inr (Reported i n True), s', result_notes re c (Inr result) now)"
    by (simp add: settle_at_def assms(5,6) beat adm rep alone_simps [OF assms(2)] outcome_event_def completion_def assms(14))
  with completion_outputs [OF out assms(11,13)] new show ?thesis by metis
qed

text \<open>What the lease does not give the decider: the row of an attempt that ended by a cache hit is gone, but
  a start reported late for it is still its current attempt's, and takes the step back from its end.\<close>

theorem late_start_reopens_an_ended_step:
  assumes "ex_step e i = Some st" and "ss_current_attempt st = n" and "is_terminal (state_type (ss_state st))"
  shows "\<exists>out e' st'. decide C (Active e) (Event (StepStarted i n)) cause now = Inr out \<and>
           foldl evolve (Active e) (events_of out) = Active e' \<and> ex_step e' i = Some st' \<and>
           state_type (ss_state st') = Running"
  using assms by (simp add: decide_started_def step_of_def foldl_evolve_Active apply_started_def state_of_def)

end
