(* ===== verification/Hosted.thy ===== *)
theory Hosted
  imports Handler_Props
begin

text \<open>
  The append side of a hosted run and the timer tick: the methods \<open>hosted.rs\<close> adds to the
  handler. A worker's batch is stored and never interpreted; a timer is a deferred append fired in
  the transaction that retires it; a question's deadline is handed to the decider. What others do
  between a load and its append is again the environment's, as in \<open>Handler\<close>.
\<close>

datatype hosted_error =
    NotHosted string
  | EmptyBatch
  | TooManyMessages nat
  | LeaseHeldByOther string instant
  | PayloadPolicyMismatch string string string
  | HostedHandle handle_error

subsection \<open>The decider's lease\<close>

text \<open>A run a worker may decide: started, hosted and not over.\<close>

definition hosted_active :: "string \<Rightarrow> execution_state \<Rightarrow> hosted_error + execution" where
  "hosted_active execution st =
     (case active st of
        None \<Rightarrow> Inl (HostedHandle (HDecision (NotStarted HOSTED_APPEND)))
      | Some run \<Rightarrow>
          if ex_mode run \<noteq> Hosted then Inl (NotHosted execution)
          else if is_terminal (state_type (ex_state run))
          then Inl (HostedHandle (HDecision (AlreadyFinished (state_type (ex_state run)))))
          else Inr run)"

definition hosted_run :: "engine \<Rightarrow> string \<Rightarrow> inner \<Rightarrow> hosted_error + unit" where
  "hosted_run en execution s =
     (case store_load (en_binding en) execution s of
        Inl err \<Rightarrow> Inl (HostedHandle (HStore err))
      | Inr sl \<Rightarrow>
          (case hosted_active execution (replay (slice_events sl)) of
             Inl err \<Rightarrow> Inl err
           | Inr _ \<Rightarrow> Inr ()))"

definition hosted_take_lease ::
  "engine \<Rightarrow> string \<Rightarrow> string \<Rightarrow> instant \<Rightarrow> inner \<Rightarrow> (hosted_error + lease_outcome) \<times> inner" where
  "hosted_take_lease en execution owner now s =
     (case hosted_run en execution s of
        Inl err \<Rightarrow> (Inl err, s)
      | Inr _ \<Rightarrow>
          (case store_take_decider_lease (en_binding en) execution owner now s of
             (Inl err, s') \<Rightarrow> (Inl (HostedHandle (HStore err)), s')
           | (Inr outcome, s') \<Rightarrow> (Inr outcome, s')))"

definition hosted_release_lease ::
  "engine \<Rightarrow> string \<Rightarrow> string \<Rightarrow> instant \<Rightarrow> inner \<Rightarrow> (hosted_error + bool) \<times> inner" where
  "hosted_release_lease en execution owner now s =
     (case hosted_run en execution s of
        Inl err \<Rightarrow> (Inl err, s)
      | Inr _ \<Rightarrow>
          (case store_release_decider_lease (en_binding en) execution owner now s of
             (Inl err, s') \<Rightarrow> (Inl (HostedHandle (HStore err)), s')
           | (Inr released, s') \<Rightarrow> (Inr released, s')))"

definition hosted_decider_lease :: "engine \<Rightarrow> string \<Rightarrow> instant \<Rightarrow> inner \<Rightarrow> hosted_error + decider_lease option" where
  "hosted_decider_lease en execution now s =
     (case store_decider_lease (en_binding en) execution s of
        Inl err \<Rightarrow> Inl (HostedHandle (HStore err))
      | Inr None \<Rightarrow> Inr None
      | Inr (Some lease) \<Rightarrow> Inr (if dl_expired lease now then None else Some lease))"

definition check_decider_lease :: "engine \<Rightarrow> string \<Rightarrow> string \<Rightarrow> instant \<Rightarrow> inner \<Rightarrow> hosted_error + unit" where
  "check_decider_lease en execution owner now s =
     (case hosted_decider_lease en execution now s of
        Inl err \<Rightarrow> Inl err
      | Inr None \<Rightarrow> Inr ()
      | Inr (Some lease) \<Rightarrow>
          if dl_holder lease = owner then Inr ()
          else Inl (LeaseHeldByOther (dl_holder lease) (dl_expires_at lease)))"

subsection \<open>A worker's batch\<close>

fun check_batch :: "hosted_message list \<Rightarrow> payload_policy \<Rightarrow> hosted_error + unit" where
  "check_batch [] expected = Inr ()"
| "check_batch (m # ms) expected =
     (case check_payload m expected of
        Inl (t, found, wanted) \<Rightarrow> Inl (PayloadPolicyMismatch t (payload_as_str found) (payload_as_str wanted))
      | Inr _ \<Rightarrow> check_batch ms expected)"

definition hosted_marker :: "string \<Rightarrow> json \<Rightarrow> workflow_message" where
  "hosted_marker message_type metadata =
     HostedMsg \<lparr>hm_message_type = message_type, hm_metadata = metadata, hm_payload = None\<rparr>"

definition batch_outputs :: "crates \<Rightarrow> string \<Rightarrow> hosted_append \<Rightarrow> instant \<Rightarrow> pending_message list" where
  "batch_outputs C execution a now =
     map (\<lambda>(index, m). pending_output (HostedMsg m)
            (caused_by execution (append_input_id C a execution) (append_message_id C a execution index) now))
         (enumerate 0 (ha_messages a))"

definition batch_request :: "crates \<Rightarrow> string \<Rightarrow> hosted_append \<Rightarrow> instant \<Rightarrow> stream_slice \<Rightarrow> append_request" where
  "batch_request C execution a now sl =
     (let outputs = batch_outputs C execution a now; input_id = append_input_id C a execution
      in \<lparr>ar_expected_version = Exact (ha_expected_version a),
          ar_input = pending_input
            (hosted_marker HOSTED_APPEND (json_object [(''messages'', JInt (int (length outputs)))]))
            (caused_by execution input_id input_id now),
          ar_outputs = outputs,
          ar_projection = projection_of execution (replay (slice_events sl)) (ss_version sl + 1 + length outputs),
          ar_outbox = [], ar_checkpoint = None, ar_timers = ha_timers a, ar_attempts = [],
          ar_ownership = None\<rparr>)"

definition append_hosted ::
  "engine \<Rightarrow> string \<Rightarrow> hosted_append \<Rightarrow> instant \<Rightarrow> inner \<Rightarrow> (hosted_error + handled) \<times> inner" where
  "append_hosted en execution a now s =
     (if ha_messages a = [] then (Inl EmptyBatch, s)
      else if length (ha_messages a) > MAX_BATCH then (Inl (TooManyMessages (length (ha_messages a))), s)
      else case store_load (en_binding en) execution s of
        Inl err \<Rightarrow> (Inl (HostedHandle (HStore err)), s)
      | Inr sl \<Rightarrow>
        (case List.find (\<lambda>m. md_message_id (rm_metadata m) = append_input_id (en_crates en) a execution)
                        (ss_messages sl) of
           Some seen \<Rightarrow>
             (Inr \<lparr>hd_outcome = Duplicate (rm_stream_version seen),
                   hd_projection = projection_of execution (replay (slice_events sl)) (ss_version sl),
                   hd_outbox = [], hd_duplicate = True\<rparr>, s)
         | None \<Rightarrow>
           (case hosted_active execution (replay (slice_events sl)) of
              Inl err \<Rightarrow> (Inl err, s)
            | Inr run \<Rightarrow>
              (case check_decider_lease en execution (ha_holder a) now s of
                 Inl err \<Rightarrow> (Inl err, s)
               | Inr _ \<Rightarrow>
                 (case check_batch (ha_messages a @ List.map_filter scheduled_message (ha_timers a)) (ex_payloads run) of
                    Inl err \<Rightarrow> (Inl err, s)
                  | Inr _ \<Rightarrow>
                    let req = batch_request (en_crates en) execution a now sl
                    in (case check_payloads (en_size en) req of
                          Inl err \<Rightarrow> (Inl (HostedHandle (HStore err)), s)
                        | Inr _ \<Rightarrow>
                          (case store_append (en_size en) (en_binding en) (en_clock en) execution req (en_others en 0 s) of
                             (Inl err, s') \<Rightarrow> (Inl (HostedHandle (HStore err)), s')
                           | (Inr outcome, s') \<Rightarrow>
                               (Inr \<lparr>hd_outcome = outcome, hd_projection = ar_projection req, hd_outbox = [],
                                     hd_duplicate = is_duplicate outcome\<rparr>, s'))))))))"

subsection \<open>The timer tick\<close>

text \<open>The append that records a timer: its marker, what it delivers and its retirement.\<close>

definition timer_request ::
  "timer \<Rightarrow> string \<Rightarrow> string \<Rightarrow> bool \<Rightarrow> pending_message list \<Rightarrow> instant \<Rightarrow> stream_slice \<Rightarrow> append_request" where
  "timer_request t marker input_id delivered outputs now sl =
     \<lparr>ar_expected_version = Exact (ss_version sl),
      ar_input = pending_input
        (hosted_marker marker (json_object [(''timer_id'', JString (tm_timer_id t)), (''delivered'', JBool delivered)]))
        (caused_by (tm_execution t) input_id input_id now),
      ar_outputs = outputs,
      ar_projection = projection_of (tm_execution t) (replay (slice_events sl)) (ss_version sl + 1 + length outputs),
      ar_outbox = [], ar_checkpoint = None, ar_timers = [FireTimer (tm_timer_id t)], ar_attempts = [],
      ar_ownership = None\<rparr>"

definition fired_message :: "crates \<Rightarrow> timer \<Rightarrow> instant \<Rightarrow> pending_message" where
  "fired_message C t now =
     pending_output (HostedMsg (tm_message t))
       (caused_by (tm_execution t) (fired_id C t)
          (derive_uuid C (''hosted-timer-message/'' @ tm_execution t @ ''/'' @ tm_timer_id t)) now)"

definition retire_timer :: "engine \<Rightarrow> timer \<Rightarrow> instant \<Rightarrow> inner \<Rightarrow> (hosted_error + unit) \<times> inner" where
  "retire_timer en t now s =
     (case store_load (en_binding en) (tm_execution t) s of
        Inl err \<Rightarrow> (Inl (HostedHandle (HStore err)), s)
      | Inr sl \<Rightarrow>
          let input_id = derive_uuid (en_crates en) (''input-deadline-lapsed/'' @ tm_execution t @ ''/'' @ tm_timer_id t)
          in (case store_append (en_size en) (en_binding en) (en_clock en) (tm_execution t)
                     (timer_request t DEADLINE_TIMER input_id False [] now sl) (en_others en 0 s) of
                (Inl err, s') \<Rightarrow> (Inl (HostedHandle (HStore err)), s')
              | (Inr _, s') \<Rightarrow> (Inr (), s')))"

text \<open>\<open>attempt as u32\<close> keeps the low half of what the row's metadata holds.\<close>

definition deadline_target :: "timer \<Rightarrow> (string \<times> u32) option" where
  "deadline_target t =
     (case (Option.bind (json_get (hm_metadata (tm_message t)) ''step_id'') as_str,
            Option.bind (json_get (hm_metadata (tm_message t)) ''attempt'') as_u64) of
        (Some i, Some n) \<Rightarrow> Some (i, ucast n)
      | _ \<Rightarrow> None)"

definition fire_deadline :: "engine \<Rightarrow> timer \<Rightarrow> instant \<Rightarrow> inner \<Rightarrow> (hosted_error + fired) \<times> inner" where
  "fire_deadline en t now s =
     (let retired = (\<lambda>s. case retire_timer en t now s of
                           (Inl err, s') \<Rightarrow> (Inl err, s')
                         | (Inr _, s') \<Rightarrow> (Inr (fired_of t False), s'))
      in case deadline_target t of
           None \<Rightarrow> retired s
         | Some (i, n) \<Rightarrow>
             (case handle_deliver en (tm_execution t) (Command (TimeoutInput i n))
                     (caused_by (tm_execution t) (fired_id (en_crates en) t) (fired_id (en_crates en) t) now) now s of
                (Inr _, s') \<Rightarrow> (Inr (fired_of t True), s')
              | (Inl (HDecision _), s') \<Rightarrow> retired s'
              | (Inl err, s') \<Rightarrow> (Inl (HostedHandle err), s')))"

definition deliverable :: "execution_state \<Rightarrow> bool" where
  "deliverable st =
     is_some_and (\<lambda>run. ex_mode run = Hosted \<and> \<not> is_terminal (state_type (ex_state run))) (active st)"

definition fire_timer :: "engine \<Rightarrow> timer \<Rightarrow> instant \<Rightarrow> inner \<Rightarrow> (hosted_error + fired) \<times> inner" where
  "fire_timer en t now s =
     (if hm_message_type (tm_message t) = DEADLINE_TIMER then fire_deadline en t now s
      else case store_load (en_binding en) (tm_execution t) s of
        Inl err \<Rightarrow> (Inl (HostedHandle (HStore err)), s)
      | Inr sl \<Rightarrow>
          let delivered = deliverable (replay (slice_events sl));
              outputs = (if delivered then [fired_message (en_crates en) t now] else [])
          in (case store_append (en_size en) (en_binding en) (en_clock en) (tm_execution t)
                     (timer_request t HOSTED_TIMER (fired_id (en_crates en) t) delivered outputs now sl) (en_others en 0 s) of
                (Inl err, s') \<Rightarrow> (Inl (HostedHandle (HStore err)), s')
              | (Inr _, s') \<Rightarrow> (Inr (fired_of t delivered), s')))"

text \<open>One pass of the tick. A timer that cannot be fired is skipped.\<close>

definition fire_due_timers :: "engine \<Rightarrow> instant \<Rightarrow> nat \<Rightarrow> inner \<Rightarrow> fired list \<times> inner" where
  "fire_due_timers en now limit s =
     foldl (\<lambda>(out, s) t. case fire_timer en t now s of
                            (Inr outcome, s') \<Rightarrow> (out @ [outcome], s')
                          | (Inl _, s') \<Rightarrow> (out, s'))
           ([], s) (store_due_timers (en_binding en) now limit s)"

end
