(* ===== verification/Hosted_Props.thy ===== *)
theory Hosted_Props
  imports Hosted
begin

text \<open>
  The properties of the hosted side: a worker's batch lands whole, in order and uninterpreted; a
  timer delivers at most once; three ways a timer row outlives what it was for; and every run a store
  holds is what the decider's decisions made of it, whatever else was appended.
\<close>

subsection \<open>A worker's batch\<close>

lemma append_hosted_accepted:
  assumes "append_hosted en x a now s = (Inr answer, s')" and "\<not> hd_duplicate answer"
  obtains v run where
    "store_append (en_size en) (en_binding en) (en_clock en) x
       (batch_request (en_crates en) x a now (loaded s x)) (en_others en 0 s) = (Inr (Appended v), s')"
    "hd_projection answer = ar_projection (batch_request (en_crates en) x a now (loaded s x))"
    "folded s x = Active run" "ex_mode run = Hosted" "\<not> is_terminal (state_type (ex_state run))"
    "check_decider_lease en x (ha_holder a) now s = Inr ()" "ha_messages a \<noteq> []" "length (ha_messages a) \<le> MAX_BATCH"
proof -
  let ?req = "batch_request (en_crates en) x a now (loaded s x)"
  from assms obtain sl where load: "store_load (en_binding en) x s = Inr sl"
    and size: "ha_messages a \<noteq> []" "length (ha_messages a) \<le> MAX_BATCH"
    by (auto simp: append_hosted_def split: if_splits sum.splits)
  then have sl: "sl = loaded s x" by (auto simp: store_load_def guarded_def loaded_def split: sum.splits)
  have new: "List.find (\<lambda>m. md_message_id (rm_metadata m) = append_input_id (en_crates en) a x) (ss_messages sl) = None"
    using assms load size by (auto simp: append_hosted_def split: option.splits)
  obtain run where run: "hosted_active x (replay (slice_events sl)) = Inr run"
    using assms load size new by (auto simp: append_hosted_def split: sum.splits)
  then have hosted: "folded s x = Active run" "ex_mode run = Hosted" "\<not> is_terminal (state_type (ex_state run))"
    by (cases "replay (slice_events sl)"; auto simp: hosted_active_def sl folded_def split: if_splits)+
  have lease: "check_decider_lease en x (ha_holder a) now s = Inr ()"
    using assms load size new run by (auto simp: append_hosted_def split: sum.splits)
  obtain q t where app: "store_append (en_size en) (en_binding en) (en_clock en) x ?req (en_others en 0 s) = (q, t)"
    by (cases "store_append (en_size en) (en_binding en) (en_clock en) x ?req (en_others en 0 s)")
  have "\<exists>outcome. q = Inr outcome \<and> t = s' \<and> hd_projection answer = ar_projection ?req \<and>
      hd_duplicate answer = is_duplicate outcome"
    using assms(1) load size new run lease app
    by (auto simp: append_hosted_def Let_def sl split: sum.splits)
  with assms(2) app obtain v where "q = Inr (Appended v)" "t = s'" "hd_projection answer = ar_projection ?req"
    by (auto elim: is_duplicate.elims)
  with app that [OF _ _ hosted lease size] show thesis by simp
qed

lemma batch_request_simps [simp]:
  "ar_outputs (batch_request C x a now sl) = batch_outputs C x a now"
  "ar_expected_version (batch_request C x a now sl) = Exact (ha_expected_version a)"
  "length (batch_outputs C x a now) = length (ha_messages a)"
  by (simp_all add: batch_request_def batch_outputs_def Let_def)

lemma batch_messages: "map pm_message (batch_outputs C x a now) = map HostedMsg (ha_messages a)"
  by (simp add: batch_outputs_def comp_def case_prod_beta pending_output_def)
    (metis (no_types, lifting) comp_apply map_eq_conv map_map map_snd_enumerate)

lemma batch_request_ok: "request_ok (batch_request C x a now sl)"
  by (auto simp: request_ok_def list_all_iff batch_outputs_def pending_output_def)
    (simp add: batch_request_def Let_def pending_input_def)

lemma no_events: "list_all (\<lambda>m. \<exists>h. pm_message m = HostedMsg h) ms \<Longrightarrow> events_of ms = []"
  by (induction ms) auto

lemma batch_events: "events_of (batch_outputs C x a now) = []"
  by (rule no_events) (auto simp: batch_outputs_def list_all_iff pending_output_def)

text \<open>A worker's batch is stored and not interpreted: accepted, it lands whole behind its marker, in
  the worker's order, at exactly the version the worker named, and the state of the run is what it
  was; the projection written with it describes that history exactly when the version the worker
  named is the one that was loaded.\<close>

theorem hosted_batch_is_opaque:
  assumes "append_hosted en x a now s = (Inr answer, s')" and "\<not> hd_duplicate answer"
  shows "length (stream_of (en_others en 0 s) x) = ha_expected_version a \<and>
         take (ha_expected_version a) (stream_of s' x) = stream_of (en_others en 0 s) x \<and>
         map rm_message (drop (Suc (ha_expected_version a)) (stream_of s' x)) = map HostedMsg (ha_messages a) \<and>
         replay (history_events (stream_of s' x)) = replay (history_events (stream_of (en_others en 0 s) x)) \<and>
         (rp_last_message_version (hd_projection answer) = length (stream_of s' x) \<longleftrightarrow>
            ha_expected_version a = length (stream_of s x))"
proof -
  let ?t = "en_others en 0 s" and ?req = "batch_request (en_crates en) x a now (loaded s x)"
  obtain v run where app: "store_append (en_size en) (en_binding en) (en_clock en) x ?req ?t = (Inr (Appended v), s')"
    and answer: "hd_projection answer = ar_projection ?req"
    by (rule append_hosted_accepted [OF assms]) blast
  have version: "length (stream_of ?t x) = ha_expected_version a"
    using memory_log.appended_at [OF app] by (auto split: if_splits)
  obtain establishing where "s' = commit (en_clock en) x establishing ?req (touch_stream x ?t)"
    by (rule store_appended [OF app]) blast
  then have stream: "stream_of s' x = stream_of ?t x @
      push_messages (length (stream_of ?t x)) (en_clock en) (ar_input ?req # ar_outputs ?req)"
    by (simp add: stream_of_commit del: push_messages.simps)
  have pushed: "map rm_message (push_messages n clock ms) = map pm_message ms" for n clock ms
    by (induction ms arbitrary: n) simp_all
  have "map rm_message (drop (Suc (ha_expected_version a)) (stream_of s' x)) = map HostedMsg (ha_messages a)"
    unfolding stream by (simp add: version [symmetric] Suc_diff_le pushed batch_messages del: batch_request_simps(2))
  moreover have "replay (history_events (stream_of s' x)) = replay (history_events (stream_of ?t x))"
    using memory_log.appended_state [OF app batch_request_ok] by (simp add: batch_events)
  moreover have "rp_last_message_version (hd_projection answer) = length (stream_of s x) + 1 + length (ha_messages a)"
    unfolding answer by (simp add: batch_request_def Let_def projection_of_def split: option.splits)
  moreover have "length (stream_of s' x) = ha_expected_version a + 1 + length (ha_messages a)"
    unfolding stream using version by simp
  ultimately show ?thesis using version stream by (auto simp del: push_messages.simps)
qed

subsection \<open>Timers\<close>

lemma timer_request_simps [simp]:
  "ar_outputs (timer_request t marker i d outs now sl) = outs"
  "ar_expected_version (timer_request t marker i d outs now sl) = Exact (ss_version sl)"
  "md_message_id (pm_metadata (ar_input (timer_request t marker i d outs now sl))) = i"
  "ar_timers (timer_request t marker i d outs now sl) = [FireTimer (tm_timer_id t)]"
  "ar_ownership (timer_request t marker i d outs now sl) = None"
  by (simp_all add: timer_request_def pending_input_def caused_by_def)

text \<open>Firing a worker's timer is one append under the timer's own id.\<close>

lemma fire_timer_append:
  assumes "fire_timer en t now s = (r, s')" and "hm_message_type (tm_message t) \<noteq> DEADLINE_TIMER"
  obtains (unread) err where "store_load (en_binding en) (tm_execution t) s = Inl err" "s' = s" "\<And>f. r \<noteq> Inr f"
  | (appended) outs q where
      "store_append (en_size en) (en_binding en) (en_clock en) (tm_execution t)
         (timer_request t HOSTED_TIMER (fired_id (en_crates en) t) (deliverable (folded s (tm_execution t))) outs now
            (loaded s (tm_execution t))) (en_others en 0 s) = (q, s')"
      "outs = (if deliverable (folded s (tm_execution t)) then [fired_message (en_crates en) t now] else [])"
      "r = (case q of Inl err \<Rightarrow> Inl (HostedHandle (HStore err))
            | Inr _ \<Rightarrow> Inr (fired_of t (deliverable (folded s (tm_execution t)))))"
proof (cases "store_load (en_binding en) (tm_execution t) s")
  case (Inl err)
  with assms show thesis by (intro unread [of err]) (auto simp: fire_timer_def)
next
  case (Inr sl)
  then have sl: "sl = loaded s (tm_execution t)" by (auto simp: store_load_def guarded_def loaded_def split: sum.splits)
  define d where "d = deliverable (folded s (tm_execution t))"
  define outs where "outs = (if d then [fired_message (en_crates en) t now] else [])"
  obtain q u where app: "store_append (en_size en) (en_binding en) (en_clock en) (tm_execution t)
         (timer_request t HOSTED_TIMER (fired_id (en_crates en) t) d outs now
            (loaded s (tm_execution t))) (en_others en 0 s) = (q, u)"
    by (metis surj_pair)
  from assms Inr sl app have "u = s'" "r = (case q of Inl err \<Rightarrow> Inl (HostedHandle (HStore err)) | Inr _ \<Rightarrow> Inr (fired_of t d))"
    by (auto simp: fire_timer_def Let_def d_def outs_def folded_def split: sum.splits)
  with app that(2) [of outs q] show thesis unfolding d_def outs_def by simp
qed

text \<open>Once it was fired its id is in the inbox.\<close>

lemma fired_seen:
  assumes "fire_timer en t now s = (Inr f, s')" and "hm_message_type (tm_message t) \<noteq> DEADLINE_TIMER"
  obtains v where "seen_at s' (tm_execution t) (fired_id (en_crates en) t) = Some v"
  using assms
proof (cases rule: fire_timer_append)
  case (appended outs q)
  then obtain w where q: "q = Inr w" by (cases q) auto
  from appended(1) show thesis
  proof (cases rule: store_append_cases)
    case (committed establishing)
    with that show thesis by (simp add: seen_at_commit)
  qed (use q that in auto)
qed auto

text \<open>A message id the store has seen is never appended again.\<close>

lemma seen_append:
  assumes "store_append sz b now x req s = (q, s')"
    and "seen_at s x (md_message_id (pm_metadata (ar_input req))) = Some v"
  shows "stream_of s' y = stream_of s y" and "in_timers s' = in_timers s"
    and "q = Inr w \<Longrightarrow> w = Duplicate v"
proof -
  have "s' = s \<or> s' = touch_stream x s"
    by (rule store_append_cases [OF assms(1)]) (use assms(2) in auto)
  then show "stream_of s' y = stream_of s y" "in_timers s' = in_timers s" by auto
  show "q = Inr w \<Longrightarrow> w = Duplicate v"
    by (rule store_append_cases [OF assms(1)]) (use assms(2) in auto)
qed

text \<open>A worker's timer delivers at most once: once it was fired, nothing the tick does with it later,
  from however stale a list and whatever happened in between, appends anything to the run again.\<close>

theorem timer_delivers_at_most_once:
  assumes "fire_timer en t now s = (Inr f, s1)" and "hm_message_type (tm_message t) \<noteq> DEADLINE_TIMER"
    and "store_steps (en_size en) s1 s2" and "en_crates en2 = en_crates en"
    and "\<And>k u. store_steps (en_size en) u (en_others en2 k u)"
    and "fire_timer en2 t later s2 = (r, s3)"
  shows "stream_of s3 (tm_execution t) = stream_of s2 (tm_execution t) \<or>
         stream_of s3 (tm_execution t) = stream_of (en_others en2 0 s2) (tm_execution t)"
proof -
  let ?x = "tm_execution t" and ?id = "fired_id (en_crates en) t"
  obtain v where "seen_at s1 ?x ?id = Some v" by (rule fired_seen [OF assms(1,2)])
  with steps_keep [OF assms(3), of ?x] have "seen_at s2 ?x ?id = Some v" by (auto simp: keeps_def)
  with steps_keep [OF assms(5), of s2 0 ?x] have seen: "seen_at (en_others en2 0 s2) ?x ?id = Some v"
    by (auto simp: keeps_def)
  from assms(6,2) show ?thesis
  proof (cases rule: fire_timer_append)
    case (appended outs q)
    then show ?thesis using seen_append(1) [OF appended(1)] seen assms(4) by simp
  qed auto
qed

text \<open>A timer id a worker uses again after it fired is never delivered and never goes away: the tick
  reports it fired, appends nothing and leaves the row due, at every pass.\<close>

theorem reused_timer_stays_due:
  assumes "seen_at s (tm_execution t) (fired_id (en_crates en) t) = Some v"
    and "hm_message_type (tm_message t) \<noteq> DEADLINE_TIMER" and "\<And>k u. en_others en k u = u"
    and "inner_admits s (en_binding en) (tm_execution t)" and "en_size en = (\<lambda>_. 0)"
  shows "\<exists>s'. fire_timer en t now s = (Inr (fired_of t (deliverable (folded s (tm_execution t)))), s') \<and>
           stream_of s' (tm_execution t) = stream_of s (tm_execution t) \<and> in_timers s' = in_timers s"
proof -
  obtain r s' where fire: "fire_timer en t now s = (r, s')" by (metis surj_pair)
  from this assms(2) show ?thesis
  proof (cases rule: fire_timer_append)
    case (unread err)
    with load_admitted [OF assms(4)] show ?thesis by simp
  next
    case (appended outs q)
    let ?req = "timer_request t HOSTED_TIMER (fired_id (en_crates en) t) (deliverable (folded s (tm_execution t))) outs now
            (loaded s (tm_execution t))"
    have app: "store_append (en_size en) (en_binding en) (en_clock en) (tm_execution t) ?req s = (q, s')"
      using appended(1) assms(3) by simp
    have "check_payloads (en_size en) ?req = Inr ()"
      by (auto simp: check_payloads_def payload_size_def assms(5) find_None_iff' split: option.splits dest: find_Some_mem)
    then have "q = Inr (Duplicate v)"
      using app assms(1,4)
      by (auto simp: store_append_def Let_def binding_appending_def binding_check_def inner_admits_def holds_stream_of)
    with fire appended(3) seen_append(1,2) [OF app] assms(1) show ?thesis by simp
  qed
qed

subsection \<open>The deadline of a worker's question\<close>

lemma lapse_fails:
  assumes "ex_step e i = Some st" and "ss_awaiting st = Some q" and "rq_on_timeout q = Some TimeoutFail"
    and "decide C (Active e) (Command (TimeoutInput i n)) cause now = Inr out" and "plan_human_input e i = None"
  shows "deadline_rows x (foldl evolve (Active e) (events_of out)) out = []"
proof -
  let ?em = "emit_event C (StepFailed i n (nobody_answered i)) (about_step i n (emitter_new (ex_id e) cause now))"
  have out: "events_of out = emitted (settle_failure C e i n (nobody_answered i) ?em)"
    using assms by (auto simp: decide_timeout_def step_of_def timeout_policy_def split: if_splits)
  from settle_event_list [of C e i n "nobody_answered i" ?em] out obtain vs where
    events: "events_of out = StepFailed i n (nobody_answered i) # map (\<lambda>(c, p). skip_event c p) vs @
      [run_ending e i (nobody_answered i)]" by auto
  let ?run = "apply_all e (events_of out)"
  have "List.map_filter waiting_step (events_of out) = []"
    unfolding events by (auto simp: map_filter_def filter_empty_conv skip_event_def run_ending_def)
  moreover have "plan_human_input ?run i = None" using assms(5) by (simp add: plan_human_input_def)
  ultimately have "\<not> has_deadline ?run out i" by (simp add: has_deadline_def)
  then have "List.map_filter (deadline_row x (has_deadline ?run out)) (events_of out) = []"
    unfolding events by (auto simp: map_filter_def filter_empty_conv skip_event_def run_ending_def)
  then show ?thesis by (simp add: deadline_rows_def foldl_evolve_Active)
qed

text \<open>The deadline of a question a worker asked is never retired when it lapses with the policy that
  fails: the decision the tick delivers writes no timer row, because only a gate of the plan is
  looked up for one, so the row stays due and every later pass reports it delivered again.\<close>

theorem lapsed_worker_question_stays_due:
  assumes "fire_timer en t now s = (Inr f, s')" and "fd_delivered f"
    and "hm_message_type (tm_message t) = DEADLINE_TIMER" and "deadline_target t = Some (i, n)"
    and "folded s (tm_execution t) = Active e" and "plan_human_input e i = None"
    and "ex_step e i = Some st" and "ss_awaiting st = Some q" and "rq_on_timeout q = Some TimeoutFail"
    and "\<And>k u. en_others en k u = u" and "store_reachable (en_size en) s"
    and "inner_admits s' (en_binding en) (tm_execution t)"
  shows "in_timers s' = in_timers s \<and> fire_timer en t later s' = (Inr (fired_of t True), s')"
proof -
  let ?x = "tm_execution t" and ?id = "fired_id (en_crates en) t"
  let ?input = "Command (TimeoutInput i n)" and ?md = "\<lambda>now. caused_by ?x ?id ?id now"
  have quiet: "store_steps (en_size en) u (en_others en k u)" for k u
    by (simp add: assms(10) store_steps.stay)
  from assms(1-4) obtain h where handled:
    "decide_and_append en ?x ?input (?md now) now None None s = (Inr h, s')"
    by (auto simp: fire_timer_def fire_deadline_def handle_deliver_def Let_def fired_of_def
        split: sum.splits prod.splits handle_error.splits)
  obtain r u where pass: "handle_pass en ?x ?input (?md now) now None None (unat MAX_CONFLICT_RETRIES) s = (r, u)"
    by (metis surj_pair)
  have "r \<noteq> None" using lost_pass [OF _ quiet] pass assms(10) by metis
  with handled pass have pass': "handle_pass en ?x ?input (?md now) now None None (unat MAX_CONFLICT_RETRIES) s = (Some (Inr h), s')"
    by (auto simp: decide_and_append_def)
  then have "in_timers s' = in_timers s"
  proof (cases rule: handle_pass_cases)
    case (tried outputs q)
    have "decide (en_crates en) (Active e) ?input ?id now = Inr outputs"
      using tried(2) assms(5) by (simp add: caused_by_def)
    from lapse_fails [OF assms(7-9) this assms(6)] assms(5) have
      "ar_timers (decision_request en ?x ?input (?md now) None None (loaded s ?x) outputs) = []"
      by (simp add: decision_request_def Let_def folded_def)
    with tried(3) assms(10) show ?thesis
      by (auto elim!: store_append_cases simp: commit_def Let_def)
  qed simp
  moreover have "recorded_id s' ?x ?id"
    using handled_is_recorded [OF handled assms(11) quiet] by (simp add: caused_by_def)
  then obtain seen where "List.find (\<lambda>m. md_message_id (rm_metadata m) = ?id) (stream_of s' ?x) = Some seen"
    using recorded_find by (metis option.exhaust)
  then have "fire_timer en t later s' = (Inr (fired_of t True), s')"
    using assms(3,4) load_admitted [OF assms(12)]
    by (simp add: fire_timer_def fire_deadline_def handle_deliver_def decide_and_append_def handle_pass_def
        duplicate_answer_def caused_by_def Let_def)
  ultimately show ?thesis by simp
qed

subsection \<open>The runs a store holds\<close>

text \<open>
  The states the decider leads to, with nothing asked of its inputs, and the stores a system leads to
  whose histories are written by the operations of the handler: one pass over any input, a worker's
  batch, a worker's timer and a timer that is retired, each with whatever the rest of the system does
  between the load and the append; and any operation that leaves the histories alone, and sweeps. Only
  the run whose input is being decided is not swept between that load and that append. A handled input,
  a start and a fired deadline are sequences of these.
\<close>

inductive decided :: "crates \<Rightarrow> execution_state \<Rightarrow> bool" for C where
  none: "decided C Empty"
| decision: "decided C st \<Longrightarrow> decide C st input cause now = Inr out \<Longrightarrow> decided C (foldl evolve st (events_of out))"

inductive written :: "crates \<Rightarrow> inner \<Rightarrow> bool" for C where
  empty: "written C inner_empty"
| handled: "written C s \<Longrightarrow> written C s1 \<Longrightarrow> \<exists>ms. stream_of s1 x = stream_of s x @ ms \<Longrightarrow> en_others en k s = s1 \<Longrightarrow>
     en_crates en = C \<Longrightarrow> handle_pass en x input md now cp own k s = (r, s') \<Longrightarrow> written C s'"
| batch: "written C s \<Longrightarrow> written C s1 \<Longrightarrow> en_others en 0 s = s1 \<Longrightarrow>
     append_hosted en x a now s = (ra, s') \<Longrightarrow> written C s'"
| fired: "written C s \<Longrightarrow> written C s1 \<Longrightarrow> en_others en 0 s = s1 \<Longrightarrow> hm_message_type (tm_message t) \<noteq> DEADLINE_TIMER \<Longrightarrow>
     fire_timer en t now s = (rf, s') \<Longrightarrow> written C s'"
| retired: "written C s \<Longrightarrow> written C s1 \<Longrightarrow> en_others en 0 s = s1 \<Longrightarrow>
     retire_timer en t now s = (rt, s') \<Longrightarrow> written C s'"
| quiet: "written C s \<Longrightarrow> store_step sz b s s' \<Longrightarrow> same_history s s' \<Longrightarrow> written C s'"
| prune: "written C s \<Longrightarrow> store_prune b before limit s = (p, s') \<Longrightarrow> written C s'"

text \<open>An append that records no event leaves every fold as it was.\<close>

lemma uneventful_append:
  assumes "store_append sz b clock x req s = (q, s')" and "request_ok req" and "events_of (ar_outputs req) = []"
  shows "folded s' y = folded s y"
proof (cases "\<exists>v. q = Inr (Appended v)")
  case True
  then obtain v where q: "q = Inr (Appended v)" ..
  show ?thesis
  proof (cases "y = x")
    case True
    with memory_log.appended_state [OF assms(1) [unfolded q] assms(2)] assms(3) show ?thesis by (simp add: folded_def)
  next
    case False
    with memory_log.elsewhere [OF assms(1)] show ?thesis by (simp add: folded_def)
  qed
next
  case False
  then have "stream_of s' y = stream_of s y" using memory_log.not_appended [OF assms(1)] by blast
  then show ?thesis by (simp add: folded_def)
qed

lemma timer_request_ok:
  "list_all (\<lambda>m. pm_direction m = Output) outs \<Longrightarrow> request_ok (timer_request t marker i d outs now sl)"
  by (simp add: request_ok_def timer_request_def pending_input_def)

lemma batch_folds:
  assumes "append_hosted en x a now s = (r, s')"
  shows "s' = s \<or> (\<forall>y. folded s' y = folded (en_others en 0 s) y)"
proof -
  obtain q t where app: "store_append (en_size en) (en_binding en) (en_clock en) x
      (batch_request (en_crates en) x a now (loaded s x)) (en_others en 0 s) = (q, t)" by (metis surj_pair)
  have "folded t y = folded (en_others en 0 s) y" for y
    by (rule uneventful_append [OF app batch_request_ok]) (simp add: batch_events)
  moreover have "s' = s \<or> s' = t"
  proof (cases "store_load (en_binding en) x s")
    case (Inr sl)
    then have "sl = loaded s x" by (auto simp: store_load_def guarded_def loaded_def split: sum.splits)
    with assms Inr app show ?thesis
      by (auto simp: append_hosted_def Let_def split: if_splits option.splits sum.splits)
  qed (use assms in \<open>auto simp: append_hosted_def split: if_splits\<close>)
  ultimately show ?thesis by blast
qed

lemma fired_folds:
  assumes "fire_timer en t now s = (r, s')" and "hm_message_type (tm_message t) \<noteq> DEADLINE_TIMER"
  shows "s' = s \<or> (\<forall>y. folded s' y = folded (en_others en 0 s) y)"
  using assms
proof (cases rule: fire_timer_append)
  case (appended outs q)
  have "request_ok (timer_request t HOSTED_TIMER (fired_id (en_crates en) t) (deliverable (folded s (tm_execution t))) outs now
      (loaded s (tm_execution t)))"
    using appended(2) by (intro timer_request_ok) (simp add: fired_message_def pending_output_def)
  from uneventful_append [OF appended(1) this] appended(2) show ?thesis
    by (auto simp: fired_message_def pending_output_def)
qed simp

lemma retired_folds:
  assumes "retire_timer en t now s = (r, s')"
  shows "s' = s \<or> (\<forall>y. folded s' y = folded (en_others en 0 s) y)"
proof (cases "store_load (en_binding en) (tm_execution t) s")
  case (Inr sl)
  let ?req = "timer_request t DEADLINE_TIMER
      (derive_uuid (en_crates en) (''input-deadline-lapsed/'' @ tm_execution t @ ''/'' @ tm_timer_id t)) False [] now sl"
  obtain q u where app: "store_append (en_size en) (en_binding en) (en_clock en) (tm_execution t) ?req (en_others en 0 s) = (q, u)"
    by (metis surj_pair)
  have "folded u y = folded (en_others en 0 s) y" for y
    by (rule uneventful_append [OF app timer_request_ok]) simp_all
  moreover have "u = s'" using assms Inr app by (auto simp: retire_timer_def Let_def split: sum.splits)
  ultimately show ?thesis by blast
qed (use assms in \<open>auto simp: retire_timer_def\<close>)

lemma handled_folds:
  assumes "handle_pass en x input md now cp own k s = (r, s')"
    and prefix: "\<exists>ms. stream_of (en_others en k s) x = stream_of s x @ ms"
  obtains (same) "s' = s" | (turned) "\<And>y. folded s' y = folded (en_others en k s) y"
  | (landed) out where "decide (en_crates en) (folded s x) input (md_message_id md) now = Inr out"
      "folded s' x = foldl evolve (folded s x) (events_of out)"
      "\<And>y. y \<noteq> x \<Longrightarrow> folded s' y = folded (en_others en k s) y"
  using assms(1)
proof (cases rule: handle_pass_cases)
  case (answered a)
  with same show thesis by simp
next
  case (tried outputs q)
  show thesis
  proof (cases "\<exists>v. q = Inr (Appended v)")
    case True
    then obtain v where q: "q = Inr (Appended v)" ..
    note new = pass_appended [OF tried(3) [unfolded q] tried(2) prefix]
    show thesis by (rule landed [OF tried(2) new(2)]) (simp add: folded_def new(4))
  next
    case False
    then show thesis using turned memory_log.not_appended [OF tried(3)] by (simp add: folded_def)
  qed
qed

text \<open>C4: Every run a store holds is one its decisions led to, whatever the inputs are: however handlers,
  workers' batches, timers, claimants, ticks and sweeps interleave, between a load and its append too, the
  fold of each execution's history is what a sequence of the decider's own decisions makes of the
  empty state, each made on the state the one before left. No decision lands on a history it
  was not made on, and no batch, timer or refused append moves a run. The one thing excluded is a sweep
  of the very run between the load and the append of one of its decisions.\<close>

theorem stored_runs_are_decided:
  assumes "written C s"
  shows "decided C (replay (history_events (stream_of s x)))"
proof -
  have "decided C (folded s x)" for x
    using assms
  proof (induction arbitrary: x rule: written.induct)
    case empty
    show ?case by (simp add: folded_def stream_of_def inner_empty_def replay_def initial_state_def decided.none)
  next
    case (handled s s1 y en k input md now cp own r s')
    from handled.hyps(3,4) have "\<exists>ms. stream_of (en_others en k s) y = stream_of s y @ ms" by simp
    with handled.hyps(6) show ?case
    proof (cases rule: handled_folds)
      case (landed out)
      with handled.IH handled.hyps(4,5) show ?thesis by (cases "x = y") (auto intro: decided.decision)
    qed (use handled.IH handled.hyps(4) in simp_all)
  next
    case (batch s s1 en y a now ra s')
    with batch_folds [OF batch.hyps(4)] show ?case by auto
  next
    case (fired s s1 en t now rf s')
    with fired_folds [OF fired.hyps(5,4)] show ?case by auto
  next
    case (retired s s1 en t now rt s')
    with retired_folds [OF retired.hyps(4)] show ?case by auto
  next
    case (quiet s sz b s')
    then show ?case by (simp add: folded_def same_history_frame)
  next
    case (prune s b before limit p s')
    then show ?case by (simp add: folded_def prune_tables replay_def initial_state_def decided.none)
  qed
  then show ?thesis by (simp add: folded_def)
qed

end
