(* ===== verification/Store_Demo.thy ===== *)
theory Store_Demo
  imports Handler_Props
begin

text \<open>
  Concrete stores, and the properties of the store and the handler applied to them: a run nobody
  owns, a project's run with a timer, one attempt and its claimants, a slot, a start through the
  handler and a start whose every pass loses a race.
\<close>

definition demo_note :: workflow_message where
  "demo_note = HostedMsg \<lparr>hm_message_type = ''note'', hm_metadata = JNull, hm_payload = None\<rparr>"

definition note_request :: "string \<Rightarrow> string \<Rightarrow> expected_version \<Rightarrow> execution_ownership option \<Rightarrow> append_request" where
  "note_request x i expected own =
     \<lparr>ar_expected_version = expected, ar_input = pending_input demo_note (caused_by x i i 0),
      ar_outputs = [pending_output demo_note (caused_by x i (i @ ''/1'') 0)],
      ar_projection = projection_of x Empty 2, ar_outbox = [], ar_checkpoint = None, ar_timers = [],
      ar_attempts = [], ar_ownership = own\<rparr>"

definition no_size :: "workflow_message \<Rightarrow> nat" where
  "no_size m = 0"

lemma note_request_simps [simp]:
  "check_payloads no_size (note_request x i v own) = Inr ()"
  "request_about x (note_request x i v own)"
  "ar_input (note_request x i v own) = pending_input demo_note (caused_by x i i 0)"
  "ar_ownership (note_request x i v own) = own" "ar_expected_version (note_request x i v own) = v"
  "length (ar_outputs (note_request x i v own)) = 1"
  "md_message_id (pm_metadata (pending_input m md)) = md_message_id md"
  "md_message_id (caused_by x c i at) = i"
  by (simp_all add: note_request_def check_payloads_def no_size_def payload_size_def request_about_def
      request_ok_def pending_input_def pending_output_def caused_by_def)

definition noted :: inner where
  "noted = commit 5 ''x1'' None (note_request ''x1'' ''m1'' NoStream None) (touch_stream ''x1'' inner_empty)"

lemma inner_empty_simps [simp]:
  "stream_of inner_empty x = []" "owner_of inner_empty x = None" "seen_at inner_empty x i = None"
  "bt_get (in_projections inner_empty) x = None"
  by (simp_all add: inner_empty_def stream_of_def owner_of_def seen_at_def)

lemma noted_append:
  "store_append no_size binding_global 5 ''x1'' (note_request ''x1'' ''m1'' NoStream None) inner_empty
     = (Inr (Appended 2), noted)"
  by (simp add: store_append_def Let_def binding_appending_def binding_check_def binding_admits_def
      binding_global_def noted_def)

lemma noted_facts [simp]:
  "length (stream_of noted x) = (if x = ''x1'' then 2 else 0)" "owner_of noted x = None"
  "holds noted ''x1''"
  by (auto simp: noted_def stream_of_commit owner_of_commit holds_stream_of note_request_def)

lemma noted_reachable: "store_reachable no_size noted"
  using store_reachable.step [OF store_reachable.empty store_step.append [OF note_request_simps(2) noted_append]] .

theorem append_is_all_or_nothing_witness:
  "store_append no_size binding_global 5 ''x1'' (note_request ''x1'' ''m1'' NoStream None) inner_empty
     = (Inr (Appended 2), noted) \<and>
   map pending_of (stream_of noted ''x1'') =
     pending_input demo_note (caused_by ''x1'' ''m1'' ''m1'' 0) #
     [pending_output demo_note (caused_by ''x1'' ''m1'' ''m1/1'' 0)]"
  using append_is_all_or_nothing [OF noted_append] noted_append by (simp add: note_request_def)

theorem redelivery_is_recognised_witness:
  "fst (store_append no_size binding_global 9 ''x1'' (note_request ''x1'' ''m1'' AnyVersion None) noted)
     = Inr (Duplicate 1)"
  using redelivery_is_recognised [OF noted_append store_steps.stay, of "note_request ''x1'' ''m1'' AnyVersion None"
      binding_global 9]
  by (simp add: inner_admits_def binding_admits_def binding_global_def)

theorem history_only_grows_witness:
  "store_steps no_size inner_empty noted \<and>
   (\<exists>ms. stream_of noted ''x1'' = stream_of inner_empty ''x1'' @ ms)"
proof -
  have steps: "store_steps no_size inner_empty noted"
    using store_steps.step [OF store_steps.stay store_step.append [OF note_request_simps(2) noted_append]] .
  with history_only_grows [OF steps, of "''x1''"] show ?thesis by blast
qed

definition demo_scope :: project_scope where "demo_scope = ProjectScope 1 2"

definition demo_owner :: execution_ownership where
  "demo_owner =
     \<lparr>ow_scope = demo_scope, ow_principal = \<lparr>pn_provider = ''idp'', pn_subject = ''alice''\<rparr>,
      ow_definition = \<lparr>od_kind = WorkflowKind, od_name = ''import'', od_revision = ''ab'', od_plan_id = ''cd''\<rparr>\<rparr>"

abbreviation project_store :: scope_binding where
  "project_store \<equiv> ScopeBinding (Project demo_scope)"

definition owned :: inner where
  "owned = commit 6 ''x2'' (Some demo_owner) (note_request ''x2'' ''m2'' NoStream (Some demo_owner))
             (touch_stream ''x2'' noted)"

lemma owned_append:
  "store_append no_size project_store 6 ''x2'' (note_request ''x2'' ''m2'' NoStream (Some demo_owner)) noted
     = (Inr (Appended 2), owned)"
proof -
  have "stream_of noted ''x2'' = []" by (simp add: noted_def stream_of_commit)
  moreover have "seen_at noted ''x2'' ''m2'' = None" by (simp add: noted_def seen_at_commit)
  ultimately show ?thesis
    by (simp add: store_append_def Let_def binding_appending_def binding_check_def binding_admits_def
        demo_owner_def owned_def)
qed

theorem binding_is_a_boundary_witness:
  "operate no_size (OpAppend project_store 6 ''x2'' (note_request ''x2'' ''m2'' NoStream (Some demo_owner))) noted = owned \<and>
   \<not> inner_admits noted project_store ''x1'' \<and> same_record noted owned ''x1'' \<and> same_rows noted owned ''x1'' \<and>
   owner_of owned ''x2'' = Some demo_owner"
proof -
  let ?op = "OpAppend project_store 6 ''x2'' (note_request ''x2'' ''m2'' NoStream (Some demo_owner))"
  have made: "operate no_size ?op noted = owned" by (simp add: owned_append)
  have out: "\<not> inner_admits noted (op_binding ?op) ''x1''"
    by (simp add: inner_admits_def binding_admits_def)
  have empty: "in_outbox noted = []"
    by (simp add: noted_def commit_def Let_def note_request_def inner_empty_def touch_stream_def)
  have quiet: "\<not> op_names ?op ''x1''" by (simp add: request_names_def note_request_def)
  have "owner_of owned ''x2'' = Some demo_owner" by (simp add: owned_def owner_of_commit)
  with binding_is_a_boundary [OF store_rows [OF store_reachable_ok [OF noted_reachable]] out, of no_size] empty quiet made out
  show ?thesis by auto
qed

theorem unowned_start_through_a_project_store_witness:
  "\<exists>v s'. store_append no_size project_store 5 ''x1'' (note_request ''x1'' ''m1'' NoStream None)
            inner_empty = (Inr (Appended v), s') \<and>
          \<not> inner_admits s' project_store ''x1'' \<and> inner_admits s' binding_global ''x1''"
  by (rule unowned_start_through_a_project_store) simp_all

subsection \<open>Claims, deciders and slots\<close>

definition second_row :: attempt_row where
  "second_row = row_claimable (AttemptKey ''x1'' ''b'' 1) KFlowPhp ''cmd-2''"

definition rowed :: inner where
  "rowed = inner_empty\<lparr>in_attempts := [(row_key demo_row, demo_row), (row_key second_row, second_row)]\<rparr>"

lemma demo_row_simps [simp]:
  "is_claimable demo_row 0" "filter_matches (for_runtimes [KFlowPhp]) demo_row"
  "row_key demo_row = AttemptKey ''x1'' ''a'' 1" "is_claimable second_row at"
  "filter_matches (for_runtimes [KFlowPhp]) second_row" "row_key second_row = AttemptKey ''x1'' ''b'' 1"
  by (simp_all add: is_claimable_def awaits_a_claimant_def demo_row_def second_row_def row_claimable_def
      filter_matches_def for_runtimes_def is_claimed_by_key_def CLAIMED_BY_KEY_def)

lemma rowed_ok: "store_ok rowed"
proof -
  have "history_ok rowed x = history_ok inner_empty x" for x
    by (simp add: rowed_def history_ok_def inbox_ok_def stream_of_def seen_at_def owner_of_def holds_def)
  moreover have "store_ok inner_empty" using store_reachable_ok [OF store_reachable.empty] .
  moreover have "AttemptKey ''x1'' ''a'' 1 < AttemptKey ''x1'' ''b'' 1"
    by (simp add: less_attempt_key_def less_eq_attempt_key_def less_char_def)
  ultimately show ?thesis
    by (auto simp: store_ok_def tables_ok_def rowed_def rows_ok_def bt_ok_Cons inner_empty_def)
qed

definition claimed_row :: attempt_row where
  "claimed_row = row_claim ''one'' 0 demo_row"

definition claimed_table :: inner where
  "claimed_table = rowed\<lparr>in_attempts := [(row_key demo_row, claimed_row), (row_key second_row, second_row)]\<rparr>"

lemma rowed_claim: "store_claim_attempt binding_global (for_runtimes [KFlowPhp]) ''one'' 0 rowed = (Some claimed_row, claimed_table)"
  by (simp add: store_claim_attempt_def rowed_def bt_values_def inner_admits_def binding_admits_def
      binding_global_def owner_of_def inner_empty_def bt_modify_def claimed_row_def claimed_table_def)

theorem claim_takes_the_first_free_witness:
  "store_claim_attempt binding_global (for_runtimes [KFlowPhp]) ''one'' 0 rowed = (Some claimed_row, claimed_table) \<and>
   bt_get (in_attempts claimed_table) (row_key claimed_row) = Some claimed_row"
  using claim_takes_the_first_free [OF rowed_ok rowed_claim] rowed_claim by auto

text \<open>Somebody claims the first attempt; its heartbeat and another append pass; a minute later another
  reactor asks and is given the second one.\<close>

definition passing :: "operation list" where
  "passing =
     [OpHeartbeat binding_global (row_key demo_row) ''one'' (seconds 30),
      OpAppend binding_global 5 ''x9'' (note_request ''x9'' ''m9'' NoStream None)]"

lemma append_owner_elsewhere:
  assumes "y \<noteq> x"
  shows "owner_of (snd (store_append sz b now x req s)) y = owner_of s y"
proof -
  obtain r s' where app: "store_append sz b now x req s = (r, s')" by (metis surj_pair)
  then show ?thesis by (cases rule: store_append_cases) (use assms in \<open>auto simp: app owner_of_commit\<close>)
qed

theorem claims_are_exclusive_witness:
  "\<exists>other s. store_claim_attempt binding_global (for_runtimes [KFlowPhp]) ''two'' (seconds 60)
       (operate_all no_size passing claimed_table) = (Some other, s) \<and> row_key other \<noteq> row_key demo_row"
proof -
  let ?s = "operate_all no_size passing claimed_table"
  have taken: "(\<exists>f row. store_claim_attempt binding_global f ''one'' 0 rowed = (Some row, claimed_table) \<and>
      row_key row = row_key demo_row) \<or> store_heartbeat binding_global (row_key demo_row) ''one'' 0 rowed = (Inr True, claimed_table)"
    using rowed_claim by (intro disjI1 exI [of _ "for_runtimes [KFlowPhp]"] exI [of _ claimed_row]) (simp add: claimed_row_def)
  have leaves: "list_all (leaves_claim (row_key demo_row) 0) passing"
    by (simp add: passing_def note_request_def)
  have rows: "rows_ok (in_attempts ?s)"
    using claim_step [OF rowed_claim] rowed_ok by (intro operate_all_rows_ok store_rows) (rule quiet_ok)
  have "bt_get (in_attempts ?s) (row_key second_row) = Some second_row"
  proof -
    have "ar_attempts (note_request ''x9'' ''m9'' NoStream None) = []" by (simp add: note_request_def)
    with append_attempts [of no_size binding_global 5 "''x9''" "note_request ''x9'' ''m9'' NoStream None"
        "operate no_size (OpHeartbeat binding_global (row_key demo_row) ''one'' (seconds 30)) claimed_table"]
    have "in_attempts ?s = in_attempts (operate no_size (OpHeartbeat binding_global (row_key demo_row) ''one'' (seconds 30)) claimed_table)"
      by (auto simp: operate_all_def passing_def simp del: operate.simps)
    then show ?thesis
      by (simp add: store_heartbeat_def claimed_table_def split: sum.split option.split)
  qed
  then have free: "bt_get (in_attempts ?s) (row_key second_row) = Some second_row \<and>
      takable binding_global (for_runtimes [KFlowPhp]) (seconds 60) ?s second_row"
    if "inner_admits ?s binding_global ''x1''" using that by (simp add: takable_def)
  obtain claim s where second: "store_claim_attempt binding_global (for_runtimes [KFlowPhp]) ''two'' (seconds 60) ?s = (claim, s)"
    by (metis surj_pair)
  have "owner_of ?s ''x1'' = None"
    by (simp add: operate_all_def passing_def append_owner_elsewhere)
      (simp add: store_heartbeat_def claimed_table_def rowed_def inner_empty_def owner_of_def split: sum.split option.split)
  then have "inner_admits ?s binding_global ''x1''"
    by (simp add: inner_admits_def binding_admits_def binding_global_def)
  with free claim_rows [OF rows second] obtain other where "claim = Some other"
    by (cases claim) auto
  note second = second [unfolded this]
  have "seconds 60 \<le> 0 + seconds LEASE_SECONDS" by (simp add: LEASE_SECONDS_def)
  from claims_are_exclusive [OF rowed_ok taken leaves this second] second show ?thesis by blast
qed

theorem one_decider_at_a_time_witness:
  "fst (store_take_decider_lease binding_global ''x1'' ''one'' 0 noted) = Inr (LeaseTaken (taken_by ''x1'' ''one'' 0)) \<and>
   fst (store_take_decider_lease binding_global ''x1'' ''two'' (seconds 60)
          (snd (store_take_decider_lease binding_global ''x1'' ''one'' 0 noted)))
     = Inr (LeaseHeldBy ''one'' (seconds 300))"
proof -
  have none: "bt_get (in_decider_leases noted) ''x1'' = None"
    by (simp add: noted_def commit_def Let_def touch_stream_def inner_empty_def)
  have free: "inner_check noted binding_global ''x1'' = Inr ()"
    by (simp add: inner_check_def binding_check_def binding_admits_def binding_global_def)
  define s' where "s' = snd (store_take_decider_lease binding_global ''x1'' ''one'' 0 noted)"
  have take: "store_take_decider_lease binding_global ''x1'' ''one'' 0 noted
      = (Inr (LeaseTaken (taken_by ''x1'' ''one'' 0)), s')"
    by (simp add: store_take_decider_lease_def free none s'_def)
  have le: "0 \<le> seconds 60" by simp
  from one_decider_at_a_time [OF take le, of "''two''"] take show ?thesis
    by (simp add: LEASE_SECONDS_def)
qed

definition nightly :: "string \<Rightarrow> instant \<Rightarrow> slot_request" where
  "nightly owner at =
     \<lparr>sq_key = SlotKey WorkflowKind ''nightly'' 0, sq_owner = owner, sq_overlap = OverlapSkip, sq_now = at\<rparr>"

definition admitted :: inner where
  "admitted = snd (store_admit_slot binding_global (nightly ''one'' 0) inner_empty)"

lemma admitted_slot: "store_admit_slot binding_global (nightly ''one'' 0) inner_empty = (Inr Admitted, admitted)"
  by (simp add: admitted_def store_admit_slot_def refuse_instance_wide_def binding_global_def nightly_def
      inner_empty_def blocking_run_def unfinished_runs_def bt_values_def)

theorem slot_is_decided_once_witness:
  "store_admit_slot binding_global (nightly ''one'' 0) inner_empty = (Inr Admitted, admitted) \<and>
   store_admit_slot binding_global (nightly ''two'' (seconds 60)) admitted = (Inr (SlotHeld ''one''), admitted)"
proof -
  have "store_admit_slot binding_global (nightly ''two'' (seconds 60)) admitted
      = (Inr (SlotHeld (sq_owner (nightly ''one'' 0))), admitted)"
    by (rule slot_is_decided_once [OF admitted_slot, THEN conjunct1, of _ "SettleRefused []" SlotRefused "nightly ''one'' 0"])
      (simp_all add: nightly_def LEASE_SECONDS_def)
  with admitted_slot show ?thesis by (simp add: nightly_def)
qed

subsection \<open>Pages and sweeps\<close>

theorem pages_cover_the_stream_witness:
  "\<exists>page. store_load_page binding_global ''x1'' 1 5 noted = Inr page \<and>
     ss_messages page = drop 1 (stream_of noted ''x1'') \<and> rm_stream_version (last (ss_messages page)) = 2"
proof -
  obtain page where page: "store_load_page binding_global ''x1'' 1 5 noted = Inr page"
    by (simp add: store_load_page_def guarded_def inner_check_def binding_check_def binding_admits_def binding_global_def)
  from pages_cover_the_stream [OF noted_reachable page] page show ?thesis by auto
qed

definition finished_projection :: run_projection where
  "finished_projection = (projection_of ''x2'' Empty 2)\<lparr>rp_state := state_of Completed\<rparr>"

definition late_timer :: timer where
  "late_timer = \<lparr>tm_execution = ''x2'', tm_timer_id = ''t'', tm_due_at = 50,
     tm_message = \<lparr>hm_message_type = ''note'', hm_metadata = JNull, hm_payload = None\<rparr>\<rparr>"

definition finished_request :: append_request where
  "finished_request = (note_request ''x2'' ''m2'' NoStream (Some demo_owner))
     \<lparr>ar_projection := finished_projection, ar_timers := [ScheduleTimer late_timer]\<rparr>"

definition finished :: inner where
  "finished = commit 6 ''x2'' (Some demo_owner) finished_request (touch_stream ''x2'' inner_empty)"

lemma finished_append:
  "request_about ''x2'' finished_request \<and>
   store_append no_size project_store 6 ''x2'' finished_request inner_empty = (Inr (Appended 2), finished)"
  by (simp add: store_append_def Let_def binding_appending_def binding_check_def binding_admits_def demo_owner_def
      finished_def finished_request_def note_request_def check_payloads_def no_size_def payload_size_def
      pending_input_def pending_output_def caused_by_def request_about_def request_ok_def late_timer_def)

lemma finished_facts:
  "store_ok finished" "''x2'' \<in> set (doomed_executions project_store 100 5 finished)"
  "owner_of finished ''x2'' = Some demo_owner" "bt_get (in_timers finished) (''x2'', ''t'') = Some late_timer"
proof -
  have "store_reachable no_size finished"
    using store_reachable.step [OF store_reachable.empty store_step.append] finished_append by blast
  then show "store_ok finished" by (rule store_reachable_ok)
  show owner: "owner_of finished ''x2'' = Some demo_owner" by (simp add: finished_def owner_of_commit)
  show "bt_get (in_timers finished) (''x2'', ''t'') = Some late_timer"
    by (simp add: finished_def commit_def Let_def finished_request_def late_timer_def inner_empty_def touch_stream_def)
  have "in_projections finished = [(''x2'', finished_projection)]" "in_outbox finished = []"
    by (simp_all add: finished_def commit_def Let_def finished_request_def note_request_def inner_empty_def touch_stream_def)
  moreover have "last_activity (bt_get (in_streams finished) ''x2'') = 6"
    by (simp add: finished_def commit_def Let_def last_activity_def finished_request_def note_request_def)
  ultimately show "''x2'' \<in> set (doomed_executions project_store 100 5 finished)"
    using owner
    by (simp add: doomed_executions_def Let_def prunable_def finished_projection_def inner_admits_def
        binding_admits_def demo_owner_def)
qed

definition swept_demo :: inner where
  "swept_demo = snd (store_prune project_store 100 5 finished)"

lemma swept_prune: "store_prune project_store 100 5 finished = (fst (store_prune project_store 100 5 finished), swept_demo)"
  by (simp add: swept_demo_def)

theorem sweep_forgets_whole_finished_runs_witness:
  "store_ok finished \<and> stream_of swept_demo ''x2'' = [] \<and> owner_of swept_demo ''x2'' = None"
  using sweep_forgets_whole_finished_runs [OF finished_facts(1) swept_prune, of "''x2''"]
    finished_facts(1,2) by simp

theorem pruned_timer_crosses_the_boundary_witness:
  "late_timer \<notin> set (store_due_timers binding_global 60 10 finished) \<and>
   late_timer \<in> set (store_due_timers binding_global 60 1 swept_demo)"
proof -
  have due: "tm_execution late_timer = ''x2''" "is_due late_timer 60" by (simp_all add: is_due_def late_timer_def)
  have "length (in_timers swept_demo) = 1"
    using prune_tables(6) [OF swept_prune]
    by (simp add: finished_def commit_def Let_def finished_request_def inner_empty_def touch_stream_def)
  with pruned_timer_crosses_the_boundary [OF swept_prune finished_facts(2-4) due, of 10] show ?thesis
    by simp
qed

subsection \<open>The bound on a message\<close>

theorem stored_messages_fit_witness:
  "list_all (\<lambda>m. no_size (rm_message m) \<le> MAX_PAYLOAD_BYTES) (stream_of noted ''x1'') \<and>
   fst (store_append (\<lambda>_. 300000) binding_global 5 ''x1'' (note_request ''x1'' ''m1'' NoStream None) inner_empty)
     \<noteq> Inr (Appended 2)"
  using stored_messages_fit [OF noted_reachable, where x = "''x1''"]
    stored_messages_fit [OF store_reachable.empty, where x = "''x1''" and sz = "\<lambda>_. 300000" and b = binding_global
      and now = 5 and req = "note_request ''x1'' ''m1'' NoStream None"]
  by (auto simp: MAX_PAYLOAD_BYTES_def list_all_iff)

end
