(* ===== verification/Handler_Demo.thy ===== *)
theory Handler_Demo
  imports Store_Demo
begin

text \<open>
  The handler on concrete stores: a start nobody disturbs, its redelivery, and a start that loses
  every one of its races to somebody else's notes.
\<close>

definition engine_with :: "(nat \<Rightarrow> inner \<Rightarrow> inner) \<Rightarrow> engine" where
  "engine_with others =
     \<lparr>en_crates = numbered_crates, en_size = no_size, en_to_value = (\<lambda>_. JNull),
      en_capabilities = memory_capabilities, en_binding = binding_global, en_clock = 7, en_others = others\<rparr>"

lemma engine_with_simps [simp]:
  "en_crates (engine_with others) = numbered_crates" "en_size (engine_with others) = no_size"
  "en_binding (engine_with others) = binding_global" "en_others (engine_with others) = others"
  "en_clock (engine_with others) = 7"
  by (simp_all add: engine_with_def)

definition calm :: engine where
  "calm = engine_with (\<lambda>k t. t)"

definition start_metadata :: message_metadata where
  "start_metadata = caused_by ''x1'' ''m0'' ''m0'' 0"

definition start_chain :: workflow_message where
  "start_chain = Command (StartExecution chain_request)"

lemma start_decides:
  "\<exists>out. decide numbered_crates Empty start_chain ''m0'' 0 = Inr out"
  using chain_acyclic by (simp add: decide_start_def chain_request_def demo_request_def start_chain_def)
    (simp add: demo_plan_def Let_def)

lemma start_folds:
  assumes "decide numbered_crates Empty start_chain ''m0'' 0 = Inr out"
  shows "foldl evolve Empty (events_of out) = Active chain_first"
  using start_replay [OF assms [unfolded start_chain_def]] by (simp add: chain_first_def replay_def initial_state_def)

lemma folded_inner_empty [simp]: "folded inner_empty x = Empty"
  by (simp add: folded_def replay_def initial_state_def)

text \<open>An engine nobody disturbs appends any decision about a run nobody owns.\<close>

lemma open_pass:
  assumes engine: "en_binding en = binding_global" "en_size en = no_size" "\<And>k t. en_others en k t = t"
    and run: "owner_of s x = None" "\<not> recorded_id s x (md_message_id md)" "seen_at s x (md_message_id md) = None"
    and out: "decide (en_crates en) (folded s x) input (md_message_id md) now = Inr out"
  obtains answer where
    "handle_pass en x input md now None None k s = (Some (Inr answer),
       commit (en_clock en) x None (decision_request en x input md None None (loaded s x) out) (touch_stream x s))"
    "\<not> hd_duplicate answer"
    "folded (commit (en_clock en) x None (decision_request en x input md None None (loaded s x) out) (touch_stream x s)) x
       = foldl evolve (folded s x) (events_of out)"
proof -
  let ?req = "decision_request en x input md None None (loaded s x) out"
  let ?s = "commit (en_clock en) x None ?req (touch_stream x s)"
  have load: "store_load (en_binding en) x s = Inr (loaded s x)"
    using run(1) by (intro load_admitted) (simp add: inner_admits_def binding_admits_def engine binding_global_def)
  have "check_payloads no_size ?req = Inr ()"
    by (auto simp: check_payloads_def payload_size_def no_size_def find_None_iff' split: option.splits dest: find_Some_mem)
  moreover have "version_refused (ar_expected_version ?req) (length (stream_of s x)) = None"
    by (cases "stream_of s x = []") simp_all
  ultimately obtain v where app: "store_append no_size binding_global (en_clock en) x ?req s = (Inr (Appended v), ?s)"
    using run by (simp add: store_append_def Let_def binding_appending_def binding_check_def binding_admits_def
        binding_global_def del: decision_request_simps(4))
  then have app': "store_append (en_size en) (en_binding en) (en_clock en) x ?req (en_others en k s) = (Inr (Appended v), ?s)"
    by (simp add: engine)
  have "List.find (\<lambda>m. md_message_id (rm_metadata m) = md_message_id md) (stream_of s x) = None"
    using run(2) by (simp add: recorded_find)
  from that [OF handle_pass_tried [OF load this out app', unfolded sum.case(2)]] pass_appended(2) [OF app' out]
  show thesis by (simp add: engine)
qed

lemma start_pass_of:
  assumes engine: "en_binding en = binding_global" "en_size en = no_size" "\<And>k t. en_others en k t = t"
    and out: "decide (en_crates en) Empty (Command (StartExecution r)) ''m0'' 0 = Inr out"
  obtains answer s' where
    "handle_pass en ''x1'' (Command (StartExecution r)) start_metadata 0 None None k inner_empty = (Some (Inr answer), s')"
    "\<not> hd_duplicate answer" "folded s' ''x1'' = foldl evolve Empty (events_of out)" "owner_of s' ''x1'' = None"
    "s' = commit (en_clock en) ''x1'' None (decision_request en ''x1'' (Command (StartExecution r)) start_metadata
            None None (loaded inner_empty ''x1'') out) (touch_stream ''x1'' inner_empty)"
proof -
  have new: "owner_of inner_empty ''x1'' = None" "\<not> recorded_id inner_empty ''x1'' (md_message_id start_metadata)"
    "seen_at inner_empty ''x1'' (md_message_id start_metadata) = None"
    by (simp_all add: recorded_id_def)
  have out': "decide (en_crates en) (folded inner_empty ''x1'') (Command (StartExecution r)) (md_message_id start_metadata) 0
      = Inr out"
    using out by (simp add: start_metadata_def)
  show thesis
    by (rule open_pass [OF engine new out', where k = k]) (use that in \<open>simp add: owner_of_commit\<close>)
qed

lemma start_pass:
  obtains out answer s' where
    "decide numbered_crates Empty start_chain ''m0'' 0 = Inr out"
    "handle_pass calm ''x1'' start_chain start_metadata 0 None None k inner_empty = (Some (Inr answer), s')"
    "\<not> hd_duplicate answer" "folded s' ''x1'' = Active chain_first" "owner_of s' ''x1'' = None"
proof -
  obtain out where out: "decide numbered_crates Empty start_chain ''m0'' 0 = Inr out" using start_decides ..
  have calm: "en_binding calm = binding_global" "en_size calm = no_size" "en_others calm k t = t" for k t
    by (simp_all add: calm_def)
  have out': "decide (en_crates calm) Empty (Command (StartExecution chain_request)) ''m0'' 0 = Inr out"
    using out by (simp add: calm_def start_chain_def)
  show thesis
    by (rule start_pass_of [OF calm out', where k = k])
      (use that out start_folds [OF out] in \<open>simp add: start_chain_def\<close>)
qed

lemma calm_others: "store_steps (en_size calm) t (en_others calm k t)"
  by (simp add: calm_def store_steps.stay)

lemma start_handled:
  obtains answer s' where
    "decide_and_append calm ''x1'' start_chain start_metadata 0 None None inner_empty = (Inr answer, s')"
    "\<not> hd_duplicate answer" "folded s' ''x1'' = Active chain_first" "owner_of s' ''x1'' = None"
proof -
  obtain answer s' where "handle_pass calm ''x1'' start_chain start_metadata 0 None None (unat MAX_CONFLICT_RETRIES) inner_empty
      = (Some (Inr answer), s')" "\<not> hd_duplicate answer" "folded s' ''x1'' = Active chain_first" "owner_of s' ''x1'' = None"
    by (rule start_pass)
  with that [of answer s'] show thesis by (simp add: decide_and_append_def)
qed

theorem projection_is_the_fold_witness:
  "\<exists>answer s'. decide_and_append calm ''x1'' start_chain start_metadata 0 None None inner_empty = (Inr answer, s') \<and>
     bt_get (in_projections s') ''x1'' = Some (hd_projection answer) \<and>
     rp_state (hd_projection answer) = state_of Running"
proof -
  obtain answer s' where handled:
    "decide_and_append calm ''x1'' start_chain start_metadata 0 None None inner_empty = (Inr answer, s')"
    "\<not> hd_duplicate answer" "folded s' ''x1'' = Active chain_first"
    by (rule start_handled)
  from projection_is_the_fold [OF handled(1,2) calm_others] handled(1,3) show ?thesis
    by (auto simp: folded_def projection_of_def chain_steps)
qed

theorem handled_twice_is_handled_once_witness:
  "\<exists>answer s' again. decide_and_append calm ''x1'' start_chain start_metadata 0 None None inner_empty = (Inr answer, s') \<and>
     decide_and_append calm ''x1'' start_chain start_metadata 9 None None s' = (Inr again, s') \<and>
     hd_duplicate again"
proof -
  obtain answer s' where handled:
    "decide_and_append calm ''x1'' start_chain start_metadata 0 None None inner_empty = (Inr answer, s')"
    "owner_of s' ''x1'' = None"
    by (rule start_handled)
  then have "inner_admits s' (en_binding calm) ''x1''"
    by (simp add: inner_admits_def binding_admits_def binding_global_def calm_def)
  from handled_twice_is_handled_once [OF handled(1) store_reachable.empty calm_others store_steps.stay HOL.refl this]
    handled(1) show ?thesis by blast
qed

theorem stored_runs_are_reachable_witness:
  "\<exists>s. served numbered_crates s \<and> (\<exists>e. replay (history_events (stream_of s ''x1'')) = Active e \<and>
      reachable numbered_crates e)"
proof -
  obtain out answer s' where start:
    "decide numbered_crates Empty start_chain ''m0'' 0 = Inr out"
    "handle_pass calm ''x1'' start_chain start_metadata 0 None None 0 inner_empty = (Some (Inr answer), s')"
    "folded s' ''x1'' = Active chain_first"
    by (rule start_pass)
  have apart: "input_admissible (folded inner_empty ''x1'') start_chain"
    by (simp add: input_admissible_def start_chain_def demo_plan_def demo_step_def)
  have "served numbered_crates s'"
    by (rule served.handled [OF served.empty served.empty _ _ _ apart start(2)])
      (simp_all add: calm_def store_steps.stay)
  with stored_runs_are_reachable [OF this, of "''x1''"] start(3) show ?thesis
    by (auto simp: folded_def)
qed

subsection \<open>Four lost races\<close>

definition busy_request :: "nat \<Rightarrow> append_request" where
  "busy_request k = note_request ''x1'' (''busy'' @ show_nat k) AnyVersion None"

definition intrude :: "nat \<Rightarrow> inner \<Rightarrow> inner" where
  "intrude k t = snd (store_append no_size binding_global 8 ''x1'' (busy_request k) t)"

definition busy :: engine where
  "busy = engine_with intrude"

definition idle :: "nat \<Rightarrow> inner \<Rightarrow> bool" where
  "idle n t \<longleftrightarrow> owner_of t ''x1'' = None \<and> folded t ''x1'' = Empty \<and> \<not> recorded_id t ''x1'' ''m0'' \<and>
     seen_at t ''x1'' ''m0'' = None \<and> (\<forall>k < n. seen_at t ''x1'' (''busy'' @ show_nat k) = None)"

lemma intrude_steps: "store_steps (en_size busy) t (en_others busy k t)"
proof -
  obtain q t' where app: "store_append no_size binding_global 8 ''x1'' (busy_request k) t = (q, t')"
    by (cases "store_append no_size binding_global 8 ''x1'' (busy_request k) t")
  have "request_about ''x1'' (busy_request k)" by (simp add: busy_request_def)
  from store_steps.step [OF store_steps.stay store_step.append [OF this app]] app show ?thesis
    by (simp add: busy_def intrude_def)
qed

lemma busy_simps:
  "md_message_id (pm_metadata (ar_input (busy_request k))) = ''busy'' @ show_nat k"
  "length (ar_outputs (busy_request k)) = 1" "ar_ownership (busy_request k) = None"
  "ar_expected_version (busy_request k) = AnyVersion" "check_payloads no_size (busy_request k) = Inr ()"
  by (simp_all add: busy_request_def)

lemma intrude_idle:
  assumes "idle (Suc n) t"
  shows "intrude n t = commit 8 ''x1'' None (busy_request n) (touch_stream ''x1'' t)" and "idle n (intrude n t)"
    and "length (stream_of (intrude n t) ''x1'') = length (stream_of t ''x1'') + 2"
proof -
  have open_: "binding_appending binding_global ''x1'' None (owner_of t ''x1'') fresh = Inr None" for fresh
    using assms by (simp add: idle_def binding_appending_def binding_check_def binding_admits_def binding_global_def)
  show eq: "intrude n t = commit 8 ''x1'' None (busy_request n) (touch_stream ''x1'' t)"
    using assms open_ by (simp add: intrude_def store_append_def Let_def busy_simps idle_def)
  have stream: "stream_of (intrude n t) ''x1'' = stream_of t ''x1'' @
      push_messages (length (stream_of t ''x1'')) 8 (ar_input (busy_request n) # ar_outputs (busy_request n))"
    by (simp add: eq stream_of_commit)
  then show "length (stream_of (intrude n t) ''x1'') = length (stream_of t ''x1'') + 2"
    by (simp add: busy_simps)
  have "folded (intrude n t) ''x1'' = folded t ''x1''" "recorded_id (intrude n t) ''x1'' ''m0'' = recorded_id t ''x1'' ''m0''"
    unfolding folded_def recorded_id_def stream
    by (simp_all add: busy_request_def note_request_def history_events_Cons pending_input_def pending_output_def
        caused_by_def demo_note_def)
  then show "idle n (intrude n t)"
    using assms by (auto simp: idle_def eq seen_at_commit owner_of_commit busy_simps dest: show_nat_inj)
qed

lemma busy_pass:
  assumes "idle (Suc n) t"
  shows "\<exists>t'. handle_pass busy ''x1'' start_chain start_metadata 0 None None n t = (None, t') \<and> idle n t'"
proof -
  obtain out where out: "decide numbered_crates Empty start_chain ''m0'' 0 = Inr out" using start_decides ..
  let ?req = "decision_request busy ''x1'' start_chain start_metadata None None (loaded t ''x1'') out"
  let ?u = "intrude n t"
  have pay: "check_payloads no_size ?req = Inr ()"
    by (auto simp: check_payloads_def payload_size_def no_size_def find_None_iff' split: option.splits dest: find_Some_mem)
  have u: "idle n ?u" "length (stream_of ?u ''x1'') = length (stream_of t ''x1'') + 2"
    using intrude_idle [OF assms] by simp_all
  have refused: "version_refused (ar_expected_version ?req) (length (stream_of ?u ''x1'')) \<noteq> None"
    using u(2) by auto
  then obtain a where a: "version_refused (ar_expected_version ?req) (length (stream_of ?u ''x1'')) = Some a" by auto
  have app: "store_append (en_size busy) (en_binding busy) (en_clock busy) ''x1'' ?req (en_others busy n t)
      = (Inl (VersionConflict a (length (stream_of ?u ''x1''))), touch_stream ''x1'' ?u)"
    using pay u(1) a
    by (simp add: store_append_def Let_def busy_def binding_appending_def binding_check_def binding_admits_def
        binding_global_def idle_def start_metadata_def del: decision_request_simps(4))
  have load: "store_load (en_binding busy) ''x1'' t = Inr (loaded t ''x1'')"
    using assms by (intro load_admitted) (simp add: inner_admits_def binding_admits_def busy_def binding_global_def idle_def)
  have new: "List.find (\<lambda>m. md_message_id (rm_metadata m) = md_message_id start_metadata) (stream_of t ''x1'') = None"
    using assms by (simp add: recorded_find idle_def start_metadata_def)
  have dec: "decide (en_crates busy) (folded t ''x1'') start_chain (md_message_id start_metadata) 0 = Inr out"
    using out assms by (simp add: busy_def start_metadata_def idle_def)
  from handle_pass_tried [OF load new dec app] have
    "handle_pass busy ''x1'' start_chain start_metadata 0 None None n t = (None, touch_stream ''x1'' ?u)" by simp
  moreover have "idle n (touch_stream ''x1'' ?u)"
    using u(1) by (simp add: idle_def folded_def recorded_id_def)
  ultimately show ?thesis by blast
qed

lemma busy_loop: "idle n t \<Longrightarrow> fst (handle_loop busy ''x1'' start_chain start_metadata 0 None None n t) = Inl (HContended 3)"
proof (induction n arbitrary: t)
  case 0
  then show ?case by (simp add: MAX_CONFLICT_RETRIES_def)
next
  case (Suc n)
  from busy_pass [OF Suc.prems] obtain t' where
    "handle_pass busy ''x1'' start_chain start_metadata 0 None None n t = (None, t')" "idle n t'" by blast
  with Suc.IH show ?case by simp
qed

theorem contention_is_progress_witness:
  "\<exists>s'. decide_and_append busy ''x1'' start_chain start_metadata 0 None None inner_empty = (Inl (HContended 3), s') \<and>
     length (stream_of s' ''x1'') \<ge> 4"
proof -
  have "idle m inner_empty" for m
    by (simp add: idle_def recorded_id_def)
  then obtain s' where gave_up:
    "decide_and_append busy ''x1'' start_chain start_metadata 0 None None inner_empty = (Inl (HContended 3), s')"
    using busy_loop unfolding decide_and_append_def by (metis fst_conv surj_pair)
  from contention_is_progress [OF gave_up intrude_steps] gave_up show ?thesis by auto
qed

end
