(* ===== verification/Hosted_Demo.thy ===== *)
theory Hosted_Demo
  imports Hosted_Props Handler_Demo
begin

text \<open>
  A hosted run on a concrete store: a start, a worker's batch and a timer that is fired, set again
  under the same id and fired once more.
\<close>

definition hosted_request :: start_request where
  "hosted_request = chain_request\<lparr>st_mode := Hosted\<rparr>"

definition hosted_engine :: engine where
  "hosted_engine = calm\<lparr>en_crates := reversed_crates\<rparr>"

definition worker_message :: hosted_message where
  "worker_message = \<lparr>hm_message_type = ''turn'', hm_metadata = JNull, hm_payload = None\<rparr>"

definition worker_timer :: timer where
  "worker_timer = \<lparr>tm_execution = ''x1'', tm_timer_id = ''t'', tm_due_at = 5, tm_message = worker_message\<rparr>"

definition worker_batch :: "string \<Rightarrow> nat \<Rightarrow> timer_write list \<Rightarrow> hosted_append" where
  "worker_batch key version timers =
     \<lparr>ha_expected_version = version, ha_idempotency_key = key, ha_holder = ''w1'',
      ha_messages = [worker_message], ha_timers = timers\<rparr>"

lemma hosted_engine_simps [simp]:
  "en_crates hosted_engine = reversed_crates" "en_size hosted_engine = (\<lambda>_. 0)"
  "en_binding hosted_engine = binding_global" "en_others hosted_engine k t = t" "en_clock hosted_engine = 7"
  by (simp_all add: hosted_engine_def calm_def no_size_def fun_eq_iff)

lemma small_payloads [simp]: "check_payloads (\<lambda>_. 0) req = Inr ()"
  by (auto simp: check_payloads_def payload_size_def find_None_iff' split: option.splits dest: find_Some_mem)

text \<open>The derived ids of the demo end in the last byte of their name.\<close>

lemma hash_length: "16 \<le> length (as_bytes (''aiwatcher/execution/uuid8/'' @ s))"
  by (simp add: as_bytes_def)

lemma reversed_uuid_apart:
  assumes "derive_uuid reversed_crates a = derive_uuid reversed_crates b"
    and "a \<noteq> []" "b \<noteq> []"
  shows "last a = last b"
proof -
  let ?hash = "\<lambda>s. take 16 (rev (as_bytes (''aiwatcher/execution/uuid8/'' @ s)))"
  let ?bytes = "\<lambda>s. (?hash s)[6 := (?hash s ! 6 AND 0x0f) OR 0x80, 8 := ((?hash s)[6 := (?hash s ! 6 AND 0x0f) OR 0x80] ! 8 AND 0x3f) OR 0x80]"
  have same: "uuid_text (?bytes a) = uuid_text (?bytes b)"
    using assms(1) by (simp add: derive_uuid_def reversed_crates_def Let_def)
  have len: "length (?bytes s) = 16" for s
    by (simp only: length_list_update length_take length_rev min_absorb2 [OF hash_length])
  have "?bytes a = ?bytes b" by (rule uuid_text_inj [OF same len len])
  moreover have "?bytes s ! 0 = of_nat (of_char (last s))" if "s \<noteq> []" for s
    using that by (cases s rule: rev_cases) (simp_all add: as_bytes_def)
  ultimately have "(of_nat (of_char (last a)) :: u8) = of_nat (of_char (last b))" using assms(2,3) by metis
  then have "as_bytes [last a] = as_bytes [last b]" by (simp add: as_bytes_def)
  then show ?thesis using as_bytes_inj by (auto dest!: injD)
qed

lemma uuid_has_dash: "CHR ''-'' \<in> set (derive_uuid C name)"
  by (simp add: derive_uuid_def uuid_text_def Let_def)

lemma uuid_not_m0 [simp]: "derive_uuid C name \<noteq> ''m0''" "''m0'' \<noteq> derive_uuid C name"
proof -
  have "CHR ''-'' \<notin> set ''m0''" by simp
  with uuid_has_dash [of C name] show "derive_uuid C name \<noteq> ''m0''" "''m0'' \<noteq> derive_uuid C name" by metis+
qed

subsection \<open>The start\<close>

definition hosted_outputs :: "pending_message list" where
  "hosted_outputs =
     em_out (emit_event reversed_crates ExecutionStarted
       (emit_event reversed_crates (ExecutionRequested hosted_request) (emitter_new ''x1'' ''m0'' 0)))"

lemma hosted_mode [simp]: "st_mode hosted_request = Hosted"
  by (simp add: hosted_request_def)

lemma hosted_decides:
  "decide reversed_crates Empty (Command (StartExecution hosted_request)) ''m0'' 0 = Inr hosted_outputs"
proof -
  have plan: "st_plan hosted_request = demo_plan [''a'', ''b''] [PlanEdge ''a'' ''b'']" "st_execution_id hosted_request = ''x1''"
    by (simp_all add: hosted_request_def) (simp add: chain_request_def demo_request_def)
  have "plan_steps (st_plan hosted_request) \<noteq> []" by (simp add: plan demo_plan_def)
  moreover have "is_acyclic (st_plan hosted_request)" using chain_acyclic by (simp add: plan)
  moreover have "ex_mode (started_execution hosted_request) = Hosted" by (simp add: hosted_request_def)
  ultimately show ?thesis
    by (simp add: decide_start_def hosted_outputs_def plan(2) Let_def dispatch_ready_def initial_state_def
        started_execution_def)
qed

lemma hosted_events: "events_of hosted_outputs = [ExecutionRequested hosted_request, ExecutionStarted]"
  using start_out(1) [OF hosted_decides]
  by (simp add: dispatch_events_def ready_ids_def dispatch_held_def hosted_request_def)

lemma hosted_ids:
  "map (\<lambda>m. md_message_id (pm_metadata m)) hosted_outputs =
     [derive_uuid reversed_crates (emitted_name ''x1'' ''m0'' ''execution_requested'' 0),
      derive_uuid reversed_crates (emitted_name ''x1'' ''m0'' ''execution_started'' 1)]"
  by (simp add: hosted_outputs_def emit_event_def emit_push_def Let_def emitter_new_def)

text \<open>The store the start leaves: a hosted run with three messages, no lease and no timer.\<close>

definition hosted_store :: inner where
  "hosted_store = commit 7 ''x1'' None
     (decision_request hosted_engine ''x1'' (Command (StartExecution hosted_request)) start_metadata
        None None (loaded inner_empty ''x1'') hosted_outputs) (touch_stream ''x1'' inner_empty)"

definition open_run :: "inner \<Rightarrow> bool" where
  "open_run s \<longleftrightarrow> folded s ''x1'' = Active (started_execution hosted_request) \<and> owner_of s ''x1'' = None \<and>
     bt_get (in_decider_leases s) ''x1'' = None"

lemma hosted_store_start:
  obtains answer where "handle_pass hosted_engine ''x1'' (Command (StartExecution hosted_request)) start_metadata 0
      None None k inner_empty = (Some (Inr answer), hosted_store)"
    "folded hosted_store ''x1'' = foldl evolve Empty (events_of hosted_outputs)" "owner_of hosted_store ''x1'' = None"
proof -
  have en: "en_binding hosted_engine = binding_global" "en_size hosted_engine = no_size" "en_others hosted_engine k t = t" for k t
    by (simp_all add: no_size_def fun_eq_iff)
  have out: "decide (en_crates hosted_engine) Empty (Command (StartExecution hosted_request)) ''m0'' 0 = Inr hosted_outputs"
    using hosted_decides by simp
  show thesis
    by (rule start_pass_of [OF en out, where k = k]) (use that in \<open>simp add: hosted_store_def\<close>)
qed

lemma hosted_store_open: "open_run hosted_store"
  by (rule hosted_store_start)
    (simp add: open_run_def hosted_events started_execution_def hosted_store_def commit_def Let_def inner_empty_def)

text \<open>The ids a store knows, by the last character of the name each was derived from.\<close>

definition known_id :: "char set \<Rightarrow> string \<Rightarrow> bool" where
  "known_id L i \<longleftrightarrow> i = ''m0'' \<or> (\<exists>name. name \<noteq> [] \<and> last name \<in> L \<and> i = derive_uuid reversed_crates name)"

definition knows :: "char set \<Rightarrow> inner \<Rightarrow> bool" where
  "knows L s \<longleftrightarrow> (\<forall>m \<in> set (stream_of s ''x1''). known_id L (md_message_id (rm_metadata m))) \<and>
     (\<forall>i v. seen_at s ''x1'' i = Some v \<longrightarrow> known_id L i)"

lemma known_derived: "name \<noteq> [] \<Longrightarrow> last name \<in> L \<Longrightarrow> known_id L (derive_uuid reversed_crates name)"
  by (auto simp: known_id_def)

lemma unknown_id:
  assumes "knows L s" and "name \<noteq> []" and "last name \<notin> L"
  shows "List.find (\<lambda>m. md_message_id (rm_metadata m) = derive_uuid reversed_crates name) (stream_of s ''x1'') = None"
    and "seen_at s ''x1'' (derive_uuid reversed_crates name) = None"
proof -
  have "\<not> known_id L (derive_uuid reversed_crates name)"
    using assms(2,3) by (auto simp: known_id_def dest: reversed_uuid_apart)
  with assms(1) show "List.find (\<lambda>m. md_message_id (rm_metadata m) = derive_uuid reversed_crates name) (stream_of s ''x1'') = None"
    and "seen_at s ''x1'' (derive_uuid reversed_crates name) = None"
    by (auto simp: knows_def find_None_iff)
qed

lemma pushed_ids: "m \<in> set (push_messages n clock ms) \<Longrightarrow> \<exists>p \<in> set ms. rm_metadata m = pm_metadata p"
  by (induction ms arbitrary: n) auto

lemma knows_commit:
  assumes "knows L s" and "\<forall>p \<in> set (ar_input req # ar_outputs req). known_id L' (md_message_id (pm_metadata p))"
    and "L \<subseteq> L'"
  shows "knows L' (commit clock ''x1'' establishing req (touch_stream ''x1'' s))"
proof -
  have "known_id L i \<Longrightarrow> known_id L' i" for i using assms(3) by (auto simp: known_id_def)
  with assms(1,2) show ?thesis
    by (auto simp: knows_def stream_of_commit seen_at_commit dest!: pushed_ids simp del: push_messages.simps split: if_splits)
qed

lemma hosted_store_stream: "length (stream_of hosted_store ''x1'') = 3" "knows {CHR ''0'', CHR ''1''} hosted_store"
proof -
  show "length (stream_of hosted_store ''x1'') = 3"
    using arg_cong [OF hosted_ids, of length] by (simp add: hosted_store_def stream_of_commit)
  have "known_id {CHR ''0'', CHR ''1''} (md_message_id (pm_metadata p))" if "p \<in> set hosted_outputs" for p
  proof -
    have "md_message_id (pm_metadata p) \<in> set (map (\<lambda>m. md_message_id (pm_metadata m)) hosted_outputs)"
      using that by simp
    then show ?thesis
      unfolding hosted_ids by (auto intro!: known_derived simp: emitted_name_def show_nat.simps dec_digit_def)
  qed
  moreover have "knows {} inner_empty"
    by (simp add: knows_def stream_of_def seen_at_def inner_empty_def)
  ultimately show "knows {CHR ''0'', CHR ''1''} hosted_store"
    unfolding hosted_store_def
    by (intro knows_commit [of "{}"]) (simp_all add: start_metadata_def known_id_def)
qed

subsection \<open>A batch and a timer\<close>

lemma open_run_simps:
  assumes "open_run s"
  shows "inner_admits s binding_global ''x1''" "folded s ''x1'' = Active (started_execution hosted_request)"
    "\<not> is_terminal (state_type (ex_state (started_execution hosted_request)))"
    "check_decider_lease hosted_engine ''x1'' holder now s = Inr ()"
proof -
  from assms show admits: "inner_admits s binding_global ''x1''"
    by (simp add: open_run_def inner_admits_def binding_admits_def binding_global_def)
  then have "inner_check s binding_global ''x1'' = Inr ()"
    by (simp add: inner_check_def inner_admits_def binding_check_def)
  with assms show "check_decider_lease hosted_engine ''x1'' holder now s = Inr ()"
    by (simp add: check_decider_lease_def hosted_decider_lease_def store_decider_lease_def guarded_def open_run_def)
qed (use assms in \<open>simp_all add: open_run_def hosted_request_def started_execution_def\<close>)

text \<open>What an append that is nobody's start and passes every guard does to the hosted run.\<close>

lemma hosted_commit:
  assumes "open_run s" and "seen_at s ''x1'' (md_message_id (pm_metadata (ar_input req))) = None"
    and "ar_ownership req = None" and "ar_expected_version req = Exact (length (stream_of s ''x1''))"
  shows "store_append (\<lambda>_. 0) binding_global 7 ''x1'' req s =
     (Inr (Appended (length (stream_of s ''x1'') + Suc (length (ar_outputs req)))),
      commit 7 ''x1'' None req (touch_stream ''x1'' s))"
  using assms
  by (simp add: store_append_def Let_def open_run_def binding_appending_def binding_check_def binding_admits_def
      binding_global_def)

lemma open_run_commit:
  assumes "open_run s" and "seen_at s ''x1'' (md_message_id (pm_metadata (ar_input req))) = None"
    and "ar_ownership req = None" and "ar_expected_version req = Exact (length (stream_of s ''x1''))"
    and "request_ok req" and "events_of (ar_outputs req) = []"
  shows "open_run (commit 7 ''x1'' None req (touch_stream ''x1'' s))"
proof -
  from memory_log.appended_events [OF hosted_commit [OF assms(1-4)] assms(5)] assms(1,6) show ?thesis
    by (simp add: open_run_def folded_def owner_of_commit) (simp add: commit_def Let_def)
qed

lemma worker_words: "set ms \<subseteq> {worker_message} \<Longrightarrow> check_batch ms policy = Inr ()"
  by (induction ms) (auto simp: check_payload_def worker_message_def)

lemma batch_id [simp]:
  "append_input_id C (worker_batch key n timers) ''x1'' = derive_uuid C (''hosted-append/x1/'' @ key)"
  by (simp add: append_input_id_def worker_batch_def)

lemma batch_taken:
  assumes "open_run s" and "knows L s" and "key \<noteq> []" and "last key \<notin> L"
    and "n = length (stream_of s ''x1'')" and "set timers \<subseteq> {ScheduleTimer worker_timer}"
  obtains answer s' where "append_hosted hosted_engine ''x1'' (worker_batch key n timers) 1 s = (Inr answer, s')"
    "\<not> hd_duplicate answer" "open_run s'" "length (stream_of s' ''x1'') = n + 2"
    "in_timers s' = foldl (\<lambda>m w. apply_timer_write ''x1'' w m) (in_timers s) timers"
    "knows (insert (last key) (insert (CHR ''0'') L)) s'" "\<And>i v. seen_at s ''x1'' i = Some v \<Longrightarrow> seen_at s' ''x1'' i \<noteq> None"
proof -
  let ?a = "worker_batch key n timers" and ?name = "''hosted-append/x1/'' @ key"
  let ?req = "batch_request reversed_crates ''x1'' ?a 1 (loaded s ''x1'')"
  let ?s = "commit 7 ''x1'' None ?req (touch_stream ''x1'' s)"
  have name: "?name \<noteq> []" "last ?name \<notin> L" using assms(3,4) by simp_all
  note new = unknown_id [OF assms(2) name]
  have id: "md_message_id (pm_metadata (ar_input ?req)) = derive_uuid reversed_crates ?name"
    "ar_ownership ?req = None" "ar_timers ?req = timers"
    by (simp_all add: batch_request_def Let_def pending_input_def caused_by_def)
      (simp add: worker_batch_def)
  have "set (List.map_filter scheduled_message timers) \<subseteq> {worker_message}"
    using assms(6) by (auto simp: map_filter_set) (auto simp: scheduled_message_def worker_timer_def)
  then have checked: "check_batch (ha_messages ?a @ List.map_filter scheduled_message (ha_timers ?a)) policy = Inr ()" for policy
    by (intro worker_words) (auto simp: worker_batch_def)
  have fits: "ar_expected_version ?req = Exact (length (stream_of s ''x1''))"
    using assms(5) by (simp add: worker_batch_def)
  note committed = hosted_commit [OF assms(1) new(2) [folded id(1)] id(2) fits]
  have "append_hosted hosted_engine ''x1'' ?a 1 s = (Inr \<lparr>hd_outcome = Appended (n + 2),
      hd_projection = ar_projection ?req, hd_outbox = [], hd_duplicate = False\<rparr>, ?s)"
    using open_run_simps [OF assms(1)] checked committed new(1) assms(5) batch_id [of reversed_crates key n timers]
    by (simp add: append_hosted_def load_admitted worker_batch_def hosted_active_def folded_def MAX_BATCH_def Let_def)
  moreover have "open_run ?s"
    by (rule open_run_commit [OF assms(1) new(2) [folded id(1)] id(2) fits batch_request_ok])
      (simp add: batch_events)
  moreover have "length (stream_of ?s ''x1'') = n + 2"
    using assms(5) by (simp add: stream_of_commit worker_batch_def)
  moreover have "in_timers ?s = foldl (\<lambda>m w. apply_timer_write ''x1'' w m) (in_timers s) timers"
    unfolding commit_def Let_def by (simp add: id)
  moreover have "knows (insert (last key) (insert (CHR ''0'') L)) ?s"
  proof (rule knows_commit [OF assms(2)])
    have sent: "known_id L' (md_message_id (pm_metadata p))"
      if "p \<in> set (ar_outputs ?req)" and "CHR ''0'' \<in> L'" for p L'
    proof -
      from that(1) have "md_message_id (pm_metadata p) = derive_uuid reversed_crates (''hosted-message/x1/'' @ key @ ''/0'')"
        by (auto simp: batch_outputs_def worker_batch_def append_message_id_def pending_output_def caused_by_def
            show_nat.simps dec_digit_def)
      with that(2) show ?thesis by (auto intro!: known_derived)
    qed
    show "\<forall>p \<in> set (ar_input ?req # ar_outputs ?req).
        known_id (insert (last key) (insert (CHR ''0'') L)) (md_message_id (pm_metadata p))"
      using assms(3) sent by (auto simp: id intro!: known_derived)
  qed auto
  moreover have "seen_at s ''x1'' i = Some v \<Longrightarrow> seen_at ?s ''x1'' i \<noteq> None" for i v
    by (simp add: seen_at_commit)
  ultimately show thesis using that [of _ ?s] by simp
qed

lemma timer_fires:
  assumes "open_run s" and "knows L s" and "CHR ''t'' \<notin> L"
  obtains s' where "fire_timer hosted_engine worker_timer now s = (Inr (fired_of worker_timer True), s')"
    "open_run s'" "knows (insert (CHR ''t'') L) s'" "length (stream_of s' ''x1'') = length (stream_of s ''x1'') + 2"
proof -
  let ?id = "fired_id reversed_crates worker_timer"
  let ?req = "timer_request worker_timer HOSTED_TIMER ?id True [fired_message reversed_crates worker_timer now] now (loaded s ''x1'')"
  let ?s = "commit 7 ''x1'' None ?req (touch_stream ''x1'' s)"
  have id: "?id = derive_uuid reversed_crates ''hosted-timer/x1/t''"
    by (simp add: fired_id_def worker_timer_def)
  have sent: "md_message_id (pm_metadata (fired_message reversed_crates worker_timer now)) =
      derive_uuid reversed_crates ''hosted-timer-message/x1/t''"
    by (simp add: fired_message_def pending_output_def caused_by_def worker_timer_def)
  have new: "seen_at s ''x1'' ?id = None"
    unfolding id by (rule unknown_id [OF assms(2)]) (use assms(3) in simp_all)
  have words: "hm_message_type (tm_message worker_timer) \<noteq> DEADLINE_TIMER" "tm_execution worker_timer = ''x1''"
    by (simp_all add: worker_timer_def worker_message_def DEADLINE_TIMER_def)
  have ok: "request_ok ?req" "events_of (ar_outputs ?req) = []"
    by (simp_all add: request_ok_def fired_message_def pending_output_def timer_request_def pending_input_def)
  have ver: "ar_expected_version ?req = Exact (length (stream_of s ''x1''))" by simp
  have new': "seen_at s ''x1'' (md_message_id (pm_metadata (ar_input ?req))) = None" using new by simp
  note committed = hosted_commit [OF assms(1) new' timer_request_simps(5) ver]
  have "fire_timer hosted_engine worker_timer now s = (Inr (fired_of worker_timer True), ?s)"
    using open_run_simps [OF assms(1)] words committed
    by (simp add: fire_timer_def load_admitted deliverable_def folded_def [symmetric] Let_def)
  moreover have "open_run ?s"
    by (rule open_run_commit [OF assms(1) new' timer_request_simps(5) ver ok])
  moreover have "known_id (insert (CHR ''t'') L) (md_message_id (pm_metadata p))"
    if "p \<in> set (ar_input ?req # ar_outputs ?req)" for p
    using that by (auto simp: sent id intro!: known_derived)
  then have "knows (insert (CHR ''t'') L) ?s" by (intro knows_commit [OF assms(2)]) auto
  ultimately show thesis using that [of ?s] by (simp add: stream_of_commit)
qed

subsection \<open>Witnesses\<close>

lemma worker_timer_simps [simp]:
  "tm_execution worker_timer = ''x1''" "hm_message_type (tm_message worker_timer) \<noteq> DEADLINE_TIMER"
  by (simp_all add: worker_timer_def worker_message_def DEADLINE_TIMER_def)

theorem hosted_batch_is_opaque_witness:
  "\<exists>answer s'. append_hosted hosted_engine ''x1'' (worker_batch ''k'' 3 []) 1 hosted_store = (Inr answer, s') \<and>
     length (stream_of s' ''x1'') = 5 \<and> rp_last_message_version (hd_projection answer) = 5 \<and>
     folded s' ''x1'' = folded hosted_store ''x1''"
proof -
  from hosted_store_stream(1) have "3 = length (stream_of hosted_store ''x1'')" by simp
  then obtain answer s' where append: "append_hosted hosted_engine ''x1'' (worker_batch ''k'' 3 []) 1 hosted_store = (Inr answer, s')"
    "\<not> hd_duplicate answer" "length (stream_of s' ''x1'') = 5"
    by (rule batch_taken [OF hosted_store_open hosted_store_stream(2), of "''k''" 3 "[]", rotated 2]) auto
  from hosted_batch_is_opaque [OF append(1,2)] append(1,3) hosted_store_stream(1) show ?thesis
    by (auto simp: folded_def worker_batch_def)
qed

text \<open>A start, a worker's batch and a second engine's look at the store after it.\<close>

theorem stored_runs_are_decided_witness:
  "\<exists>s. written reversed_crates s \<and> length (stream_of s ''x1'') = 5 \<and>
     decided reversed_crates (replay (history_events (stream_of s ''x1'')))"
proof -
  obtain answer where start: "handle_pass hosted_engine ''x1'' (Command (StartExecution hosted_request)) start_metadata 0 None None 0
      inner_empty = (Some (Inr answer), hosted_store)" by (rule hosted_store_start)
  have "written reversed_crates hosted_store"
    by (rule written.handled [OF written.empty written.empty _ _ _ start]) simp_all
  moreover from hosted_store_stream(1) have "3 = length (stream_of hosted_store ''x1'')" by simp
  then obtain batch s' where append: "append_hosted hosted_engine ''x1'' (worker_batch ''k'' 3 []) 1 hosted_store = (Inr batch, s')"
    "length (stream_of s' ''x1'') = 5"
    by (rule batch_taken [OF hosted_store_open hosted_store_stream(2), of "''k''" 3 "[]", rotated 2]) auto
  ultimately have "written reversed_crates s'" using written.batch [OF _ _ _ append(1)] by simp
  with stored_runs_are_decided [OF this, of "''x1''"] append(2) show ?thesis by blast
qed

text \<open>Set, fired, set again under the same id and fired again.\<close>

lemma reused_timer:
  obtains s1 s2 s3 answer where
    "fire_timer hosted_engine worker_timer 5 hosted_store = (Inr (fired_of worker_timer True), s1)"
    "append_hosted hosted_engine ''x1'' (worker_batch ''l'' 5 [ScheduleTimer worker_timer]) 1 s1 = (Inr answer, s2)"
    "bt_get (in_timers s2) (''x1'', ''t'') = Some worker_timer" "open_run s2" "open_run s1"
    "\<exists>v. seen_at s2 ''x1'' (fired_id reversed_crates worker_timer) = Some v"
proof -
  obtain s1 where fired: "fire_timer hosted_engine worker_timer 5 hosted_store = (Inr (fired_of worker_timer True), s1)"
    "open_run s1" "knows {CHR ''t'', CHR ''0'', CHR ''1''} s1" "length (stream_of s1 ''x1'') = 5"
    by (rule timer_fires [OF hosted_store_open hosted_store_stream(2), of 5]) (use hosted_store_stream(1) in auto)
  obtain v where seen: "seen_at s1 ''x1'' (fired_id reversed_crates worker_timer) = Some v"
    by (rule fired_seen [OF fired(1)]) simp_all
  obtain answer s2 where batch:
    "append_hosted hosted_engine ''x1'' (worker_batch ''l'' 5 [ScheduleTimer worker_timer]) 1 s1 = (Inr answer, s2)"
    "open_run s2" "in_timers s2 = bt_insert (''x1'', ''t'') worker_timer (in_timers s1)"
    "seen_at s2 ''x1'' (fired_id reversed_crates worker_timer) \<noteq> None"
    by (rule batch_taken [OF fired(2,3), of "''l''" 5 "[ScheduleTimer worker_timer]"])
      (use fired(4) seen in \<open>auto simp: worker_timer_def\<close>)
  with that fired show thesis by simp
qed

theorem timer_delivers_at_most_once_witness:
  "\<exists>s1 f r s2. fire_timer hosted_engine worker_timer 5 hosted_store = (Inr f, s1) \<and>
     fire_timer hosted_engine worker_timer 6 s1 = (r, s2) \<and> stream_of s2 ''x1'' = stream_of s1 ''x1''"
proof -
  obtain s1 where first: "fire_timer hosted_engine worker_timer 5 hosted_store = (Inr (fired_of worker_timer True), s1)"
    "open_run s1" by (rule reused_timer)
  obtain r s2 where again: "fire_timer hosted_engine worker_timer 6 s1 = (r, s2)" by (metis surj_pair)
  have quiet: "store_steps (en_size hosted_engine) u (en_others hosted_engine k u)" for k u
    by (simp add: store_steps.stay)
  from timer_delivers_at_most_once [OF first(1) worker_timer_simps(2) store_steps.stay HOL.refl quiet again]
  have "stream_of s2 ''x1'' = stream_of s1 ''x1''" by simp
  with first again show ?thesis by blast
qed

theorem reused_timer_stays_due_witness:
  "\<exists>s1 s2 s3 answer. fire_timer hosted_engine worker_timer 5 hosted_store = (Inr (fired_of worker_timer True), s1) \<and>
     append_hosted hosted_engine ''x1'' (worker_batch ''l'' 5 [ScheduleTimer worker_timer]) 1 s1 = (Inr answer, s2) \<and>
     fire_timer hosted_engine worker_timer 6 s2 = (Inr (fired_of worker_timer True), s3) \<and>
     stream_of s3 ''x1'' = stream_of s2 ''x1'' \<and> bt_get (in_timers s3) (''x1'', ''t'') = Some worker_timer"
proof -
  obtain s1 s2 answer v where set:
    "fire_timer hosted_engine worker_timer 5 hosted_store = (Inr (fired_of worker_timer True), s1)"
    "append_hosted hosted_engine ''x1'' (worker_batch ''l'' 5 [ScheduleTimer worker_timer]) 1 s1 = (Inr answer, s2)"
    "bt_get (in_timers s2) (''x1'', ''t'') = Some worker_timer" "open_run s2"
    "seen_at s2 ''x1'' (fired_id reversed_crates worker_timer) = Some v"
    by (rule reused_timer) blast
  from open_run_simps [OF set(4)] have folds: "deliverable (folded s2 ''x1'')"
    "inner_admits s2 binding_global ''x1''" by (simp_all add: deliverable_def)
  from reused_timer_stays_due [of s2 worker_timer hosted_engine v 6] set folds show ?thesis by auto
qed

subsection \<open>A worker's question that lapses\<close>

definition worker_question :: input_request where
  "worker_question = \<lparr>rq_prompt = ''ship it?'', rq_role = ''editor'', rq_choices = [], rq_deadline = Some 5,
     rq_on_timeout = Some TimeoutFail\<rparr>"

definition question_events :: "workflow_event list" where
  "question_events = ExecutionRequested chain_request # ExecutionStarted #
     dispatch_events numbered_crates (started_execution chain_request) 0 @ [InputRequested ''a'' 1 worker_question]"

definition question_timer :: timer where
  "question_timer = deadline_timer ''x1'' ''a'' 1 5"

definition question_request :: append_request where
  "question_request =
     \<lparr>ar_expected_version = NoStream, ar_input = pending_input start_chain start_metadata,
      ar_outputs = map (\<lambda>ev. pending_output (Event ev) (caused_by ''x1'' ''m0'' ''m1'' 0)) question_events,
      ar_projection = projection_of ''x1'' Empty 1, ar_outbox = [], ar_checkpoint = None,
      ar_timers = [ScheduleTimer question_timer], ar_attempts = [], ar_ownership = None\<rparr>"

definition question_store :: inner where
  "question_store = commit 7 ''x1'' None question_request (touch_stream ''x1'' inner_empty)"

lemma question_append:
  "store_append no_size binding_global 7 ''x1'' question_request inner_empty =
     (Inr (Appended (Suc (length question_events))), question_store)"
proof -
  have "check_payloads no_size question_request = Inr ()"
    by (auto simp: check_payloads_def payload_size_def no_size_def find_None_iff' split: option.splits dest: find_Some_mem)
  then show ?thesis
    by (simp add: store_append_def Let_def binding_appending_def binding_check_def binding_admits_def
        binding_global_def question_store_def) (simp add: question_request_def)
qed

lemma question_about: "request_about ''x1'' question_request"
  by (simp add: request_about_def request_ok_def question_request_def pending_input_def pending_output_def
      list_all_iff question_timer_def deadline_timer_def)

lemma question_reachable: "store_reachable no_size question_store"
  using steps_reachable [OF store_steps.step [OF store_steps.stay store_step.append [OF question_about question_append]]
      store_reachable.empty] .

definition asking :: execution where
  "asking = apply_event chain_first (InputRequested ''a'' 1 worker_question)"

lemma question_folded: "folded question_store ''x1'' = Active asking"
proof -
  have "events_of (map (\<lambda>ev. pending_output (Event ev) md) evs) = evs" for md evs
    by (induction evs) (simp_all add: pending_output_def)
  then have "events_of (ar_outputs question_request) = question_events" by (simp add: question_request_def)
  moreover have "request_ok question_request" using question_about by (simp add: request_about_def)
  ultimately have "folded question_store ''x1'' = replay question_events"
    using memory_log.appended_state [OF question_append] by (simp add: folded_def replay_def initial_state_def)
  then show ?thesis
    by (simp add: question_events_def replay_def initial_state_def foldl_evolve_Active started_execution_def
        asking_def chain_first_def)
qed

lemma asking_step:
  obtains st where "ex_step asking ''a'' = Some st" "ss_awaiting st = Some worker_question"
    "ss_current_attempt st = 1" "plan_human_input asking ''a'' = None"
proof -
  have "plan_human_input asking ''a'' = None"
    by (simp add: plan_human_input_def asking_def chain_steps) (simp add: demo_plan_step, simp add: demo_step_def)
  with that chain_steps(1) show thesis
    by (simp add: asking_def apply_event_step apply_input_requested_def apply_scheduled_def)
qed

lemma question_timer_simps [simp]:
  "tm_execution question_timer = ''x1''" "hm_message_type (tm_message question_timer) = DEADLINE_TIMER"
  "deadline_target question_timer = Some (''a'', 1)"
  by (simp_all add: question_timer_def deadline_timer_def deadline_target_def json_object_def json_u32_def
      bt_collect_def)

lemma question_store_facts:
  "owner_of question_store ''x1'' = None" "\<not> recorded_id question_store ''x1'' (derive_uuid C name)"
  "seen_at question_store ''x1'' (derive_uuid C name) = None"
  "in_timers question_store = [((''x1'', deadline_timer_id ''a'' 1), question_timer)]"
proof -
  have not_m1: "derive_uuid C name \<noteq> ''m1''"
  proof
    assume "derive_uuid C name = ''m1''"
    then show False using uuid_has_dash [of C name] by simp
  qed
  have empty: "seen_at (touch_stream ''x1'' inner_empty) ''x1'' i = None" for i
    by (simp add: seen_at_def inner_empty_def)
  show "owner_of question_store ''x1'' = None" by (simp add: question_store_def owner_of_commit)
  show "seen_at question_store ''x1'' (derive_uuid C name) = None"
    using empty by (simp add: question_store_def seen_at_commit question_request_def pending_input_def start_metadata_def
        caused_by_def)
  show "\<not> recorded_id question_store ''x1'' (derive_uuid C name)"
    using not_m1
    by (auto simp: recorded_id_def question_store_def stream_of_commit question_request_def pending_input_def
        pending_output_def start_metadata_def caused_by_def simp del: push_messages.simps dest!: pushed_ids)
  show "in_timers question_store = [((''x1'', deadline_timer_id ''a'' 1), question_timer)]"
    by (simp add: question_store_def commit_def Let_def question_request_def question_timer_def deadline_timer_def
        inner_empty_def)
qed

text \<open>The tick finds the row at the deadline, delivers it, and finds it again for ever.\<close>

theorem lapsed_worker_question_stays_due_witness:
  "\<exists>f s'. fire_timer calm question_timer 5 question_store = (Inr f, s') \<and> fd_delivered f \<and>
     question_timer \<in> set (store_due_timers binding_global 5 100 s') \<and>
     fire_timer calm question_timer 6 s' = (Inr f, s')"
proof -
  let ?id = "fired_id numbered_crates question_timer"
  let ?md = "caused_by ''x1'' ?id ?id 5"
  obtain st where step: "ex_step asking ''a'' = Some st" "ss_awaiting st = Some worker_question"
    "ss_current_attempt st = 1" "plan_human_input asking ''a'' = None" by (rule asking_step)
  have policy: "rq_on_timeout worker_question = Some TimeoutFail" by (simp add: worker_question_def)
  have calm: "en_binding calm = binding_global" "en_size calm = no_size" "en_others calm k u = u" "en_crates calm = numbered_crates"
    for k u by (simp_all add: calm_def)
  obtain out where out: "decide numbered_crates (Active asking) (Command (TimeoutInput ''a'' 1)) ?id 5 = Inr out"
    using step policy by (simp add: decide_timeout_def step_of_def timeout_policy_def)
  have fresh: "owner_of question_store ''x1'' = None" "\<not> recorded_id question_store ''x1'' (md_message_id ?md)"
    "seen_at question_store ''x1'' (md_message_id ?md) = None"
    using question_store_facts by (simp_all add: caused_by_def fired_id_def)
  have "decide (en_crates calm) (folded question_store ''x1'') (Command (TimeoutInput ''a'' 1)) (md_message_id ?md) 5 = Inr out"
    using out by (simp add: question_folded calm caused_by_def)
  then obtain answer s' where pass: "handle_pass calm ''x1'' (Command (TimeoutInput ''a'' 1)) ?md 5 None None
      (unat MAX_CONFLICT_RETRIES) question_store = (Some (Inr answer), s')" and "owner_of s' ''x1'' = None"
    by (rule open_pass [OF calm(1-3) fresh, where k = "unat MAX_CONFLICT_RETRIES"]) (use fresh(1) in \<open>simp add: owner_of_commit\<close>)
  then have admits: "inner_admits s' (en_binding calm) (tm_execution question_timer)"
    by (simp add: inner_admits_def binding_admits_def calm binding_global_def)
  have fired: "fire_timer calm question_timer 5 question_store = (Inr (fired_of question_timer True), s')"
    using pass by (simp add: fire_timer_def fire_deadline_def handle_deliver_def decide_and_append_def Let_def calm)
  have stays: "in_timers s' = in_timers question_store \<and>
      fire_timer calm question_timer 6 s' = (Inr (fired_of question_timer True), s')"
    by (rule lapsed_worker_question_stays_due [OF fired _ _ _ _ step(4) step(1,2) policy _ _ admits])
      (use step(3) question_folded question_reachable in \<open>simp_all add: calm fired_of_def\<close>)
  have "question_timer \<in> set (store_due_timers binding_global 5 100 s')"
    using stays admits
    by (simp add: store_due_timers_def question_store_facts(4) bt_values_def is_due_def calm)
      (simp add: question_timer_def deadline_timer_def)
  with fired stays show ?thesis by (auto simp: fired_of_def)
qed

end
