(* ===== verification/Reactor_Demo.thy ===== *)
theory Reactor_Demo
  imports Reactor_Props Hosted_Demo
begin

text \<open>
  Reactors on a concrete store: a chain whose first step is dispatched, claimed, taken over after its
  lease ran out, settled, and refused by an authority.
\<close>

subsection \<open>A dispatched step\<close>

definition work_key :: attempt_key where
  "work_key = AttemptKey ''x1'' ''a'' 1"

definition work_row :: attempt_row where
  "work_row = on_queue ''q'' ''t'' (row_claimable work_key KPythonTask ''m1'')"

definition work_events :: "workflow_event list" where
  "work_events = ExecutionRequested chain_request # ExecutionStarted #
     dispatch_events numbered_crates (started_execution chain_request) 0"

definition work_request :: append_request where
  "work_request =
     \<lparr>ar_expected_version = NoStream, ar_input = pending_input start_chain start_metadata,
      ar_outputs = map (\<lambda>ev. pending_output (Event ev) (caused_by ''x1'' ''m0'' ''m1'' 0)) work_events,
      ar_projection = projection_of ''x1'' Empty 1, ar_outbox = [], ar_checkpoint = None,
      ar_timers = [], ar_attempts = [Dispatch work_row], ar_ownership = None\<rparr>"

definition work_store :: inner where
  "work_store = commit 7 ''x1'' None work_request (touch_stream ''x1'' inner_empty)"

lemma work_row_key [simp]: "row_key work_row = work_key" "row_lease_owner work_row = None"
  "row_previous_owner work_row = None"
  by (simp_all add: work_row_def on_queue_def row_claimable_def)

lemma work_append:
  "store_append no_size binding_global 7 ''x1'' work_request inner_empty =
     (Inr (Appended (Suc (length work_events))), work_store)"
proof -
  have "check_payloads no_size work_request = Inr ()"
    by (auto simp: check_payloads_def payload_size_def no_size_def find_None_iff' split: option.splits dest: find_Some_mem)
  then show ?thesis
    by (simp add: store_append_def Let_def binding_appending_def binding_check_def binding_admits_def
        binding_global_def work_store_def) (simp add: work_request_def)
qed

lemma work_about: "request_about ''x1'' work_request"
  by (simp add: request_about_def request_ok_def work_request_def pending_input_def pending_output_def
      list_all_iff work_key_def)

lemma work_reachable: "store_reachable no_size work_store"
  using steps_reachable [OF store_steps.step [OF store_steps.stay store_step.append [OF work_about work_append]]
      store_reachable.empty] .

lemma work_folded: "folded work_store ''x1'' = Active chain_first"
proof -
  have "events_of (map (\<lambda>ev. pending_output (Event ev) md) evs) = evs" for md evs
    by (induction evs) (simp_all add: pending_output_def)
  then have "events_of (ar_outputs work_request) = work_events" by (simp add: work_request_def)
  moreover have "request_ok work_request" using work_about by (simp add: request_about_def)
  ultimately have "folded work_store ''x1'' = replay work_events"
    using memory_log.appended_state [OF work_append] by (simp add: folded_def replay_def initial_state_def)
  then show ?thesis
    by (simp add: work_events_def replay_def initial_state_def foldl_evolve_Active started_execution_def chain_first_def)
qed

lemma work_facts:
  "owner_of work_store x = None" "in_attempts work_store = [(work_key, work_row)]"
  "\<not> recorded_id work_store ''x1'' (derive_uuid C name)"
proof -
  have not_m1: "derive_uuid C name \<noteq> ''m1''"
  proof
    assume "derive_uuid C name = ''m1''"
    then show False using uuid_has_dash [of C name] by simp
  qed
  have not_m0: "derive_uuid C name \<noteq> ''m0''"
  proof
    assume "derive_uuid C name = ''m0''"
    then show False using uuid_has_dash [of C name] by simp
  qed
  show "owner_of work_store x = None" by (simp add: work_store_def owner_of_commit)
  show "in_attempts work_store = [(work_key, work_row)]"
    by (simp add: work_store_def commit_def Let_def work_request_def inner_empty_def)
  show "\<not> recorded_id work_store ''x1'' (derive_uuid C name)"
    using not_m1 not_m0
    by (auto simp: recorded_id_def work_store_def stream_of_commit work_request_def pending_input_def
        pending_output_def start_metadata_def caused_by_def simp del: push_messages.simps dest!: pushed_ids)
qed

subsection \<open>Claimants\<close>

definition worker :: "string \<Rightarrow> reactor" where
  "worker owner = reactor_new hosted_engine [] owner"

definition pool :: claim_filter where
  "pool = for_queues [''q''] [''t'']"

lemma worker_simps [simp]:
  "re_engine (worker owner) = hosted_engine" "re_owner (worker owner) = owner" "re_authority (worker owner) = None"
  "re_catalog (worker owner) = None" "re_between (worker owner) g s = s"
  by (simp_all add: worker_def reactor_new_def)

lemma worker_alone: "alone (worker owner)"
  by (simp add: alone_def)

text \<open>A store with the one row of the attempt, held by somebody or nobody, and the run running.\<close>

definition row_store :: "attempt_row \<Rightarrow> inner \<Rightarrow> bool" where
  "row_store row s \<longleftrightarrow> store_reachable no_size s \<and> owner_of s ''x1'' = None \<and> in_attempts s = [(work_key, row)] \<and>
     row_key row = work_key \<and> row_queue row = Some ''q'' \<and> row_task_ref row = Some ''t'' \<and>
     row_runtime row = KPythonTask \<and> row_not_before row = None"

lemma work_row_store: "row_store work_row work_store"
  by (simp add: row_store_def work_reachable work_facts) (simp add: work_row_def on_queue_def row_claimable_def)

lemma row_store_admits: "row_store row s \<Longrightarrow> inner_admits s binding_global ''x1''"
  by (simp add: row_store_def inner_admits_def binding_admits_def binding_global_def)

lemma demo_claim:
  assumes "row_store row s" and "is_claimable row now"
  shows "store_claim_attempt binding_global pool owner now s =
           (Some (row_claim owner now row), s\<lparr>in_attempts := [(work_key, row_claim owner now row)]\<rparr>)"
proof -
  have "inner_admits s binding_global (ak_execution (row_key row))"
    using row_store_admits [OF assms(1)] assms(1) by (simp add: row_store_def work_key_def)
  moreover have "filter_matches pool row"
    using assms(1) by (simp add: row_store_def pool_def for_queues_def filter_matches_def is_claimed_by_key_def CLAIMED_BY_KEY_def)
  ultimately show ?thesis
    using assms by (simp add: row_store_def store_claim_attempt_def bt_values_def Let_def bt_modify_def)
qed

lemma claimed_row_store:
  assumes "row_store row s" and "is_claimable row now"
  shows "row_store (row_claim owner now row) (s\<lparr>in_attempts := [(work_key, row_claim owner now row)]\<rparr>)"
proof -
  have "row_task_ref (row_claim owner now row) = row_task_ref row"
    by (simp add: row_claim_def Let_def)
  moreover have "store_reachable no_size (s\<lparr>in_attempts := [(work_key, row_claim owner now row)]\<rparr>)"
    using assms(1) store_step.claim [OF demo_claim [OF assms]] by (auto simp: row_store_def intro: store_reachable.step)
  ultimately show ?thesis using assms(1) by (simp add: row_store_def owner_of_def)
qed

text \<open>A take by a worker: the claim, and the start reported under the attempt's name unless it was before.\<close>

lemma demo_load: "row_store row s \<Longrightarrow> folded s ''x1'' = Active run \<Longrightarrow> load_execution (worker owner) ''x1'' s = Inr (Some run)"
  by (simp add: load_execution_def load_admitted [OF row_store_admits]) (simp add: folded_def)

lemma demo_take:
  assumes "row_store row s" and "is_claimable row now" and "folded s ''x1'' = Active run"
    and "ex_plan run = demo_plan [''a'', ''b''] [PlanEdge ''a'' ''b'']"
  shows "reactor_take (worker owner) pool [KPythonTask] now s =
     (case report (worker owner) work_key (StepStarted ''a'' 1) now ''started''
             (s\<lparr>in_attempts := [(work_key, row_claim owner now row)]\<rparr>) of
        (Inl err, s') \<Rightarrow> (Inl err, s')
      | (Inr _, s') \<Rightarrow> (Inr (TakenWork (claimed_of (worker owner) (row_claim owner now row) run (demo_step ''a''))), s'))"
proof -
  let ?s = "s\<lparr>in_attempts := [(work_key, row_claim owner now row)]\<rparr>"
  have key: "row_key row = work_key" using assms(1) by (simp add: row_store_def)
  have "folded ?s ''x1'' = Active run" using assms(3) by (simp add: folded_def stream_of_def)
  then have load: "load_execution (worker owner) ''x1'' ?s = Inr (Some run)"
    by (rule demo_load [OF claimed_row_store [OF assms(1,2)]])
  have step: "step_to_perform (row_claim owner now row) [KPythonTask] (Some run) = Inr (run, demo_step ''a'')"
    using key by (simp add: step_to_perform_def assms(4) work_key_def demo_plan_step Let_def) (simp add: demo_step_def)
  have miss: "catalog_cached (worker owner) k now = None" for k by (simp add: catalog_cached_def)
  have keys: "ak_execution work_key = ''x1''" "ak_step work_key = ''a''" "ak_attempt work_key = 1"
    by (simp_all add: work_key_def)
  show ?thesis
    by (simp add: reactor_take_def demo_claim [OF assms(1,2)] take_row_def admitted_by_def key keys load step
        take_loaded_def miss Let_def)
qed

lemma demo_started:
  assumes "row_store row s" and "folded s ''x1'' = Active run" and "ex_step run ''a'' = Some st" and "ss_current_attempt st = 1"
    and "\<not> recorded_id s ''x1'' (report_id (worker owner) work_key ''started'')"
  obtains s' where "report (worker owner) work_key (StepStarted ''a'' 1) now ''started'' s = (Inr (), s')"
    "row_store row s'" "folded s' ''x1'' = Active (apply_event run (StepStarted ''a'' 1))"
    "recorded_id s' ''x1'' (report_id (worker owner) work_key ''started'')"
proof -
  have small: "en_size (re_engine (worker owner)) m \<le> MAX_PAYLOAD_BYTES" for m by simp
  have key: "ak_execution work_key = ''x1''" by (simp add: work_key_def)
  have admits: "inner_admits s (en_binding (re_engine (worker owner))) (ak_execution work_key)"
    using row_store_admits [OF assms(1)] by (simp add: key)
  have there: "stream_of s (ak_execution work_key) \<noteq> []"
    using assms(2) by (auto simp: key folded_def replay_def initial_state_def)
  have ok: "store_ok s" using assms(1) by (auto simp: row_store_def dest: store_reachable_ok)
  have fresh: "\<not> recorded_id s (ak_execution work_key) (report_id (worker owner) work_key ''started'')"
    using assms(5) by (simp add: key)
  let ?id = "report_id (worker owner) work_key ''started''"
  obtain out where out: "decide reversed_crates (Active run) (Event (StepStarted ''a'' 1)) ?id now = Inr out"
    and evs: "events_of out = [StepStarted ''a'' 1]"
    and rows: "attempt_rows ''x1'' (Active (apply_event run (StepStarted ''a'' 1))) out = []"
    using assms(3,4)
    by (simp add: decide_started_def step_of_def emit_event_def emit_push_def about_step_def emitter_new_def Let_def
        events_of_def map_filter_def attempt_rows_def)
  have dec: "decide (en_crates (re_engine (worker owner))) (folded s (ak_execution work_key)) (Event (StepStarted ''a'' 1)) ?id now = Inr out"
    using out assms(2) by (simp add: key)
  obtain s' where s': "report (worker owner) work_key (StepStarted ''a'' 1) now ''started'' s = (Inr (), s')"
    "folded s' ''x1'' = Active (apply_event run (StepStarted ''a'' 1))"
    "\<exists>m \<in> set (stream_of s' ''x1''). is_report ?id m" "in_attempts s' = in_attempts s" "owner_of s' ''x1'' = owner_of s ''x1''"
    by (rule calm_report [OF small worker_alone admits there fresh ok dec])
      (simp add: key assms(2) evs rows [simplified])
  have "store_steps no_size s s'"
    using report_steps [OF alone_orderly [OF worker_alone] s'(1)] by (simp add: no_size_def [abs_def])
  then have "row_store row s'"
    using assms(1) s'(4,5) by (auto simp: row_store_def intro: steps_reachable)
  moreover have "recorded_id s' ''x1'' ?id" using s'(3) by (auto simp: recorded_id_def is_report_def)
  ultimately show thesis using that s'(1,2) by blast
qed

lemma worker_report_id: "report_id (worker a) key what = report_id (worker b) key what"
  by (simp add: report_id_def)

lemma demo_known:
  assumes "row_store row s" and "recorded_id s ''x1'' (report_id (worker owner) work_key what)"
  shows "report (worker owner) work_key ev now what s = (Inr (), s)"
proof -
  have load: "store_load binding_global ''x1'' s = Inr (loaded s ''x1'')"
    by (rule load_admitted [OF row_store_admits [OF assms(1)]])
  obtain seen where "List.find (\<lambda>m. md_message_id (rm_metadata m) = report_id (worker owner) work_key what) (stream_of s ''x1'')
      = Some seen"
    using assms(2) recorded_find by (metis option.exhaust)
  moreover have "md_message_id (report_metadata reversed_crates work_key now what) = report_id (worker owner) work_key what"
    using report_metadata_id [of "worker owner"] by simp
  moreover have "ak_execution work_key = ''x1''" by (simp add: work_key_def)
  ultimately show ?thesis
    by (simp add: report_def handle_event decide_and_append_def handle_pass_def load duplicate_answer_def Let_def)
qed

definition first_row :: attempt_row where
  "first_row = row_claim ''A'' 0 work_row"

definition first_run :: execution where
  "first_run = apply_event chain_first (StepStarted ''a'' 1)"

lemma claimable_rows:
  "is_claimable work_row 0" "is_claimable first_row (seconds 301)"
  by (simp_all add: first_row_def work_row_def on_queue_def row_claimable_def is_claimable_def awaits_a_claimant_def
      row_claim_def lease_expired_def LEASE_SECONDS_def is_terminal_def Let_def)

lemma first_run_facts:
  "ex_plan first_run = demo_plan [''a'', ''b''] [PlanEdge ''a'' ''b'']"
  "\<exists>st. ex_step first_run ''a'' = Some st \<and> ss_current_attempt st = 1 \<and> state_type (ss_state st) = Running"
  by (simp_all add: first_run_def chain_steps apply_event_step apply_started_def apply_scheduled_def state_of_def)

text \<open>Reactor A takes the attempt at the start.\<close>

lemma first_take:
  obtains c s where "reactor_take (worker ''A'') pool [KPythonTask] 0 work_store = (Inr (TakenWork c), s)"
    "cl_row c = first_row" "row_store first_row s" "folded s ''x1'' = Active first_run"
    "recorded_id s ''x1'' (report_id (worker ''A'') work_key ''started'')"
proof -
  let ?s = "work_store\<lparr>in_attempts := [(work_key, first_row)]\<rparr>"
  have row: "row_store first_row ?s"
    using claimed_row_store [OF work_row_store claimable_rows(1)] by (simp add: first_row_def)
  have folded: "folded ?s ''x1'' = Active chain_first"
    using work_folded by (simp add: folded_def stream_of_def)
  have fresh: "\<not> recorded_id ?s ''x1'' (report_id (worker ''A'') work_key ''started'')"
    using work_facts(3) by (simp add: recorded_id_def stream_of_def report_id_def)
  have current: "ss_current_attempt (apply_scheduled 1 None (step_fresh ''a'' KPythonTask)) = 1"
    by (simp add: apply_scheduled_def)
  obtain s' where s': "report (worker ''A'') work_key (StepStarted ''a'' 1) 0 ''started'' ?s = (Inr (), s')"
    "row_store first_row s'" "folded s' ''x1'' = Active (apply_event chain_first (StepStarted ''a'' 1))"
    "recorded_id s' ''x1'' (report_id (worker ''A'') work_key ''started'')"
    by (rule demo_started [OF row folded chain_steps(1) current fresh])
  have "reactor_take (worker ''A'') pool [KPythonTask] 0 work_store =
      (Inr (TakenWork (claimed_of (worker ''A'') first_row chain_first (demo_step ''a''))), s')"
    using demo_take [OF work_row_store claimable_rows(1) work_folded chain_steps(6), of "''A''"] s'(1)
    by (simp add: first_row_def)
  with s' that show thesis by (simp add: first_run_def)
qed

text \<open>Its lease runs out, and somebody takes the attempt over or back.\<close>

lemma second_take:
  assumes "row_store first_row s" and "folded s ''x1'' = Active first_run"
    and "recorded_id s ''x1'' (report_id (worker ''A'') work_key ''started'')"
  obtains c s' where "reactor_take (worker owner) pool [KPythonTask] (seconds 301) s = (Inr (TakenWork c), s')"
    "cl_row c = row_claim owner (seconds 301) first_row" "row_store (cl_row c) s'"
proof -
  let ?row = "row_claim owner (seconds 301) first_row"
  let ?s = "s\<lparr>in_attempts := [(work_key, ?row)]\<rparr>"
  have row: "row_store ?row ?s" by (rule claimed_row_store [OF assms(1) claimable_rows(2)])
  have "recorded_id ?s ''x1'' (report_id (worker owner) work_key ''started'')"
    using assms(3) worker_report_id [of owner _ _ "''A''"] by (simp add: recorded_id_def stream_of_def)
  note known = demo_known [OF row this]
  have "reactor_take (worker owner) pool [KPythonTask] (seconds 301) s =
      (Inr (TakenWork (claimed_of (worker owner) ?row first_run (demo_step ''a''))), ?s)"
    using demo_take [OF assms(1) claimable_rows(2) assms(2) first_run_facts(1), of owner] known by simp
  with row that show thesis by simp
qed

subsection \<open>Witnesses\<close>

text \<open>B takes the attempt of A over, renews it, and A's result comes in after that.\<close>

definition renewing :: "operation list" where
  "renewing = [OpHeartbeat binding_global work_key ''B'' (seconds 310)]"


definition done_before :: activity_executor where
  "done_before = \<lparr>ax_runtime = KPythonTask, ax_execute = (\<lambda>_ _. Inl (ae_user_code ''ran twice'')),
     ax_lookup = (\<lambda>_. Inr (Done result_default))\<rparr>"

theorem takeover_asks_before_it_runs_witness:
  "\<exists>b s1 s2. reactor_take (worker ''B'') pool [KPythonTask] (seconds 301) s1 = (Inr (TakenWork b), s2) \<and>
     perform (worker ''B'') done_before b RanToEnd = Some (Inr result_default)"
proof -
  obtain a s1 where first: "row_store first_row s1" "folded s1 ''x1'' = Active first_run"
    "recorded_id s1 ''x1'' (report_id (worker ''A'') work_key ''started'')" by (rule first_take)
  obtain b s2 where second: "reactor_take (worker ''B'') pool [KPythonTask] (seconds 301) s1 = (Inr (TakenWork b), s2)"
    "cl_row b = row_claim ''B'' (seconds 301) first_row"
    by (rule second_take [OF first, where owner = "''B''"])
  have held: "bt_get (in_attempts s1) (row_key (cl_row b)) = Some first_row"
    using first(1) by (simp add: second(2) row_store_def bt_get_def)
  have own: "row_lease_owner first_row = Some ''A''" by (simp add: first_row_def)
  have asks: "''A'' \<noteq> re_owner (worker ''B'')" "ax_lookup done_before (cl_command b) \<noteq> Inr Absent"
    by (simp_all add: done_before_def)
  have "store_reachable no_size s1" using first(1) by (simp add: row_store_def)
  note asked = conjunct2 [OF takeover_asks_before_it_runs [OF this second(1) held own asks], rule_format, OF HOL.refl]
  have "perform (worker ''B'') done_before b RanToEnd = Some (Inr result_default)"
    unfolding asked by (simp add: done_before_def)
  with second(1) show ?thesis by blast
qed

theorem same_name_never_asks_witness:
  "\<exists>b s1 s2. reactor_take (worker ''A'') pool [KPythonTask] (seconds 301) s1 = (Inr (TakenWork b), s2) \<and>
     perform (worker ''A'') done_before b RanToEnd = Some (Inl (as_step_error (ae_user_code ''ran twice'')))"
proof -
  obtain a s1 where first: "row_store first_row s1" "folded s1 ''x1'' = Active first_run"
    "recorded_id s1 ''x1'' (report_id (worker ''A'') work_key ''started'')" by (rule first_take)
  obtain b s2 where second: "reactor_take (worker ''A'') pool [KPythonTask] (seconds 301) s1 = (Inr (TakenWork b), s2)"
    "cl_row b = row_claim ''A'' (seconds 301) first_row"
    by (rule second_take [OF first, where owner = "''A''"])
  have held: "bt_get (in_attempts s1) (row_key (cl_row b)) = Some first_row"
    using first(1) by (simp add: second(2) row_store_def bt_get_def)
  have own: "row_lease_owner first_row = Some (re_owner (worker ''A''))" "row_previous_owner first_row = None"
    by (simp add: first_row_def) (simp add: first_row_def row_claim_def Let_def)
  have "store_reachable no_size s1" using first(1) by (simp add: row_store_def)
  from same_name_never_asks [OF this second(1) held own, where ex = done_before and anything = "ax_lookup done_before"] second(1)
  show ?thesis by (auto simp: done_before_def)
qed

text \<open>The attempt claimed, its start not reported yet.\<close>

definition claimed_store :: inner where
  "claimed_store = work_store\<lparr>in_attempts := [(work_key, first_row)]\<rparr>"

definition first_claim :: claimed where
  "first_claim = claimed_of (worker ''A'') first_row chain_first (demo_step ''a'')"

lemma claimed_store_facts:
  "row_store first_row claimed_store" "folded claimed_store ''x1'' = Active chain_first"
  "\<not> recorded_id claimed_store ''x1'' (derive_uuid C name)" "inner_admits claimed_store binding_global ''x1''"
proof -
  show row: "row_store first_row claimed_store"
    using claimed_row_store [OF work_row_store claimable_rows(1)] by (simp add: first_row_def claimed_store_def)
  show "folded claimed_store ''x1'' = Active chain_first"
    using work_folded by (simp add: claimed_store_def folded_def stream_of_def)
  show "\<not> recorded_id claimed_store ''x1'' (derive_uuid C name)"
    using work_facts(3) by (simp add: claimed_store_def recorded_id_def stream_of_def)
  show "inner_admits claimed_store binding_global ''x1''" by (rule row_store_admits [OF row])
qed

lemma first_row_held: "is_held_by first_row ''A'' 0" "bt_get (in_attempts claimed_store) work_key = Some first_row"
  by (simp_all add: first_row_def is_held_by_def lease_expired_def claimed_store_def bt_get_def LEASE_SECONDS_def seconds_def)

lemma claimed_store_reachable: "store_reachable (en_size (re_engine (worker owner))) claimed_store"
  using claimed_store_facts(1) by (simp add: row_store_def no_size_def [abs_def])

theorem settled_success_completes_the_step_witness:
  "\<exists>s' e' st'. settle_at (worker ''A'') first_claim (Inr result_default) 0 5 claimed_store =
       (Inr (Reported ''a'' 1 True), s', []) \<and>
     folded s' ''x1'' = Active e' \<and> ex_step e' ''a'' = Some st' \<and> state_type (ss_state st') = Completed"
proof -
  have row: "cl_row first_claim = first_row" "row_key first_row = AttemptKey ''x1'' ''a'' 1"
    by (simp_all add: first_claim_def first_row_def work_key_def)
  have small: "en_size (re_engine (worker ''A'')) m \<le> MAX_PAYLOAD_BYTES" for m by simp
  have admits: "inner_admits claimed_store (en_binding (re_engine (worker ''A''))) ''x1''"
    using claimed_store_facts(4) by simp
  have held: "bt_get (in_attempts claimed_store) (AttemptKey ''x1'' ''a'' 1) = Some first_row"
    "is_held_by first_row (re_owner (worker ''A'')) 0"
    using first_row_held by (simp_all add: work_key_def)
  have step: "ss_current_attempt (apply_scheduled 1 None (step_fresh ''a'' KPythonTask)) = 1"
    "state_type (ss_state (apply_scheduled 1 None (step_fresh ''a'' KPythonTask))) \<noteq> Completed"
    by (simp_all add: apply_scheduled_def)
  have whole: "res_awaiting result_default = None" by (simp add: result_default_def)
  have fresh: "\<not> recorded_id claimed_store ''x1'' (report_id (worker ''A'') (AttemptKey ''x1'' ''a'' 1) ''outcome'')"
    using claimed_store_facts(3) by (simp add: report_id_def)
  have none: "result_notes (worker ''A'') c (Inr result_default) 0 = []" for c
    by (simp add: result_notes_def record_result_def)
  from settled_success_completes_the_step [OF claimed_store_reachable worker_alone _ small row admits held
      claimed_store_facts(2) chain_steps(1) step whole fresh, of 5] none
  show ?thesis by auto
qed


definition outage :: execution_authority where
  "outage owner admitting = Some (ae_transient ''the directory is down'')"

definition guarded_worker :: reactor where
  "guarded_worker = (worker ''A'')\<lparr>re_authority := Some outage\<rparr>"

theorem no_look_without_consent_witness:
  "\<exists>r s'. reactor_take guarded_worker pool [KPythonTask] 0 work_store = (r, s') \<and>
     stream_of s' ''x1'' = stream_of work_store ''x1'' \<and> list_all (\<lambda>c. r \<noteq> Inr (TakenWork c)) [first_claim]"
proof -
  obtain r s' where take: "reactor_take guarded_worker pool [KPythonTask] 0 work_store = (r, s')" by (metis surj_pair)
  have authority: "re_authority guarded_worker = Some outage" by (simp add: guarded_worker_def)
  have refuses: "outage owner Work \<noteq> None" for owner by (simp add: outage_def)
  have alone: "alone guarded_worker" by (simp add: alone_def guarded_worker_def)
  have retry: "\<forall>owner e. outage owner Work = Some e \<longrightarrow> is_retryable (ae_class e)"
    by (auto simp: outage_def ae_transient_def ae_new_def is_retryable_def)
  from no_look_without_consent [OF authority refuses take] alone retry have "same_history work_store s'" "\<forall>c. r \<noteq> Inr (TakenWork c)"
    by blast+
  with take show ?thesis by (auto simp: same_history_frame)
qed

theorem refused_result_is_not_published_witness:
  "\<exists>r s'. settle_at guarded_worker first_claim (Inr result_default) 0 5 claimed_store = (r, s', []) \<and>
     settle_at guarded_worker first_claim (Inl (as_step_error (ae_user_code ''no''))) 0 5 claimed_store = (r, s', []) \<and>
     r \<noteq> Inr (LeaseLost ''a'' 1)"
proof -
  obtain r s' ns where set: "settle_at guarded_worker first_claim (Inr result_default) 0 5 claimed_store = (r, s', ns)"
    by (metis surj_pair)
  have authority: "re_authority guarded_worker = Some outage" by (simp add: guarded_worker_def)
  have refuses: "outage owner Publication \<noteq> None" for owner by (simp add: outage_def)
  have key: "row_key (cl_row first_claim) = work_key" by (simp add: first_claim_def first_row_def)
  have beat: "store_heartbeat (en_binding (re_engine guarded_worker)) work_key (re_owner guarded_worker) 0 claimed_store
      = (Inr True, claimed_store\<lparr>in_attempts := bt_modify work_key (\<lambda>row. row\<lparr>row_claimed_at := Some 0\<rparr>) (in_attempts claimed_store)\<rparr>)"
    using first_row_held load_admitted [OF claimed_store_facts(4)]
    by (auto simp: guarded_worker_def store_heartbeat_def work_key_def store_load_def guarded_def split: sum.splits)
  have "r \<noteq> Inr (LeaseLost ''a'' 1)"
    using set
  proof (cases rule: settle_cases)
    case (lost q)
    with beat show ?thesis by (simp add: key)
  next
    case (refused s1 a)
    from refused(2) have "a \<noteq> Inr (Some (LeaseLost ''a'' 1))"
    proof (cases rule: admitted_cases)
      case (turned au owner refusal q)
      from turned(4) show ?thesis by (cases rule: refuse_cases) (use turned(5) in \<open>auto split: sum.splits\<close>)
    qed auto
    with refused show ?thesis by (cases a) auto
  next
    case (reported s1 t p)
    then show ?thesis by (auto split: sum.splits)
  qed
  with refused_result_is_not_published [OF authority refuses set] set show ?thesis by auto
qed

end
