(* ===== verification/Stop_Signal.thy ===== *)
theory Stop_Signal
  imports Activity
begin

text \<open>
  The stop signal of one attempt as the threads of a process see it: every atomic access of
  \<open>activity.rs\<close> is a step, so \<open>committing\<close> is a count, then a look, then (refused) the drop of its
  guard, and \<open>stop\<close> is a reason and then a token, with anything between them. What is proved is what
  the reactor's forced half rests on: once it finds a stopped attempt that is not committing, no
  commit is under way and none ever begins.
\<close>

subsection \<open>Steps\<close>

datatype commit_phase = Outside | Counted | Refused | Holding

record signal_system =
  sys_signal :: stop_signal
  sys_threads :: "commit_phase list"

definition system_start :: "nat \<Rightarrow> signal_system" where
  "system_start n = \<lparr>sys_signal = signal_new, sys_threads = replicate n Outside\<rparr>"

definition looked :: "stop_signal \<Rightarrow> commit_phase" where
  "looked sg = (case signal_check sg of Inl _ \<Rightarrow> Refused | Inr _ \<Rightarrow> Holding)"

inductive signal_step :: "signal_system \<Rightarrow> signal_system \<Rightarrow> bool" where
  count: "i < length (sys_threads t) \<Longrightarrow> sys_threads t ! i = Outside \<Longrightarrow>
     signal_step t \<lparr>sys_signal = signal_count (sys_signal t), sys_threads = (sys_threads t)[i := Counted]\<rparr>"
| look: "i < length (sys_threads t) \<Longrightarrow> sys_threads t ! i = Counted \<Longrightarrow>
     signal_step t (t\<lparr>sys_threads := (sys_threads t)[i := looked (sys_signal t)]\<rparr>)"
| leave: "i < length (sys_threads t) \<Longrightarrow> sys_threads t ! i \<in> {Refused, Holding} \<Longrightarrow>
     signal_step t \<lparr>sys_signal = drop_commit (sys_signal t), sys_threads = (sys_threads t)[i := Outside]\<rparr>"
| reason: "signal_step t (t\<lparr>sys_signal := signal_set_reason r (sys_signal t)\<rparr>)"
| token: "signal_requested (sys_signal t) \<noteq> None \<Longrightarrow>
     signal_step t (t\<lparr>sys_signal := (sys_signal t)\<lparr>sg_token := True\<rparr>\<rparr>)"

inductive_cases signal_stepE: "signal_step t u"

abbreviation signal_steps :: "signal_system \<Rightarrow> signal_system \<Rightarrow> bool" where
  "signal_steps \<equiv> signal_step\<^sup>*\<^sup>*"

subsection \<open>The count is the number of guards\<close>

definition guards :: "commit_phase list \<Rightarrow> nat" where
  "guards ts = length (filter (\<lambda>p. p \<noteq> Outside) ts)"

definition signal_inv :: "signal_system \<Rightarrow> bool" where
  "signal_inv t \<longleftrightarrow> sg_committing (sys_signal t) = of_nat (guards (sys_threads t)) \<and>
     (sg_token (sys_signal t) \<longrightarrow> signal_requested (sys_signal t) \<noteq> None)"

lemma guards_Cons [simp]: "guards (p # ts) = (if p = Outside then 0 else 1) + guards ts"
  by (simp add: guards_def)

lemma guards_update:
  "i < length ts \<Longrightarrow> guards (ts[i := p]) + (if ts ! i = Outside then 0 else 1) = guards ts + (if p = Outside then 0 else 1)"
proof (induction ts arbitrary: i)
  case (Cons t ts)
  then show ?case by (cases i) (auto split: if_splits)
qed simp

lemmas signal_defs = signal_count_def drop_commit_def signal_set_reason_def signal_requested_def

lemma signal_inv_step: "signal_step t u \<Longrightarrow> signal_inv t \<Longrightarrow> signal_inv u"
proof (induction rule: signal_step.induct)
  case (count i t)
  have "guards ((sys_threads t)[i := Counted]) = Suc (guards (sys_threads t))"
    using guards_update [OF count(1), of Counted] count(2) by simp
  with count(3) show ?case by (simp add: signal_inv_def signal_defs)
next
  case (look i t)
  have "guards ((sys_threads t)[i := looked (sys_signal t)]) = guards (sys_threads t)"
    using guards_update [OF look(1), of "looked (sys_signal t)"] look(2)
    by (simp add: looked_def split: sum.splits)
  with look(3) show ?case by (simp add: signal_inv_def)
next
  case (leave i t)
  have "Suc (guards ((sys_threads t)[i := Outside])) = guards (sys_threads t)"
    using guards_update [OF leave(1), of Outside] leave(2) by auto
  then have "of_nat (guards (sys_threads t)) = (of_nat (guards ((sys_threads t)[i := Outside])) + 1 :: u64)"
    by (metis of_nat_Suc add.commute)
  with leave(3) show ?case by (simp add: signal_inv_def signal_defs)
qed (auto simp: signal_inv_def signal_defs split: option.splits)

lemma signal_threads_step: "signal_step t u \<Longrightarrow> length (sys_threads u) = length (sys_threads t)"
  by (induction rule: signal_step.induct) simp_all

lemma signal_reason_step:
  "signal_step t u \<Longrightarrow> signal_requested (sys_signal t) = Some r \<Longrightarrow> signal_requested (sys_signal u) = Some r"
  by (induction rule: signal_step.induct) (simp_all add: signal_defs)

lemma no_commit_after_stop_step:
  assumes "signal_step t u" and "signal_requested (sys_signal t) = Some r" and "Holding \<notin> set (sys_threads t)"
  shows "Holding \<notin> set (sys_threads u)"
  using assms
  by (induction rule: signal_step.induct)
    (auto simp: looked_def signal_check_def dest!: set_update_subset_insert [THEN subsetD])

lemma signal_inv_reachable: "signal_steps (system_start n) t \<Longrightarrow> signal_inv t \<and> length (sys_threads t) = n"
proof (induction rule: rtranclp_induct)
  case base
  show ?case by (simp add: signal_inv_def system_start_def signal_new_def guards_def)
next
  case (step t u)
  then show ?case using signal_inv_step signal_threads_step by metis
qed

lemma guards_bound: "guards ts \<le> length ts"
  by (simp add: guards_def)

lemma holding_is_committing:
  assumes "signal_inv t" and "length (sys_threads t) < 2 ^ 64"
  shows "is_committing (sys_signal t) \<longleftrightarrow> (\<exists>p \<in> set (sys_threads t). p \<noteq> Outside)"
proof -
  have "guards (sys_threads t) < 2 ^ 64" using assms(2) guards_bound [of "sys_threads t"] by linarith
  then have "(of_nat (guards (sys_threads t)) = (0 :: u64)) \<longleftrightarrow> guards (sys_threads t) = 0"
    by (simp add: word_of_nat_eq_0_iff) (metis dvd_imp_le dvd_0_right leD neq0_conv)
  with assms(1) show ?thesis
    by (auto simp: signal_inv_def is_committing_def word_gt_0 guards_def filter_empty_conv)
qed

text \<open>C16: An attempt the reactor abandons, stopped and not committing, holds no commit and never will; the
  reason it was given first is the one every later look reports.\<close>

theorem no_commit_is_cut_off:
  assumes "signal_steps (system_start n) t" and "n < 2 ^ 64" and "signal_requested (sys_signal t) = Some r"
    and "\<not> is_committing (sys_signal t)" and "signal_steps t u"
  shows "list_all (\<lambda>p. p \<noteq> Holding) (sys_threads u) \<and> signal_check (sys_signal u) = Inl (stop_error r) \<and>
         (sg_token (sys_signal u) \<longrightarrow> signal_stopped (sys_signal u) = Some r)"
proof -
  from signal_inv_reachable [OF assms(1)] have inv: "signal_inv t" and n: "length (sys_threads t) = n" by simp_all
  have none: "Holding \<notin> set (sys_threads t)" using holding_is_committing [OF inv] n assms(2,4) by blast
  from assms(5) have "Holding \<notin> set (sys_threads u) \<and> signal_requested (sys_signal u) = Some r"
    by (induction rule: rtranclp_induct)
      (use none assms(3) no_commit_after_stop_step signal_reason_step in \<open>blast+\<close>)
  then show ?thesis by (auto simp: list_all_iff signal_check_def signal_stopped_def)
qed

text \<open>The other half: a commit that began is seen, so the reactor waits for it whatever it asked.\<close>

theorem begun_commit_is_seen:
  assumes "signal_steps (system_start n) t" and "n < 2 ^ 64" and "Holding \<in> set (sys_threads t)"
  shows "is_committing (sys_signal t)"
  using signal_inv_reachable [OF assms(1)] holding_is_committing [of t] assms(2,3) by blast

lemma stop_before_count:
  "signal_steps (system_start 1)
     \<lparr>sys_signal = signal_stop TimedOut signal_new, sys_threads = [Outside]\<rparr>"
proof -
  let ?a = "\<lparr>sys_signal = signal_set_reason TimedOut signal_new, sys_threads = [Outside]\<rparr>"
  have "signal_step (system_start 1) ?a"
    using signal_step.reason [of "system_start 1" TimedOut] by (simp add: system_start_def)
  moreover have "signal_step ?a \<lparr>sys_signal = signal_stop TimedOut signal_new, sys_threads = [Outside]\<rparr>"
    using signal_step.token [of ?a] by (simp add: signal_stop_def signal_defs signal_new_def)
  ultimately show ?thesis by (meson rtranclp.rtrancl_refl rtranclp.rtrancl_into_rtrancl)
qed

theorem no_commit_is_cut_off_witness:
  "list_all (\<lambda>p. p \<noteq> Holding) [Outside] \<and> signal_check (signal_stop TimedOut signal_new) = Inl (stop_error TimedOut)"
  using no_commit_is_cut_off [OF stop_before_count, of TimedOut
      "\<lparr>sys_signal = signal_stop TimedOut signal_new, sys_threads = [Outside]\<rparr>"]
  by (simp add: signal_stop_def signal_defs signal_new_def is_committing_def)

end
