(* ===== verification/Outbox.thy ===== *)
theory Outbox
  imports Store_Retention Facts
begin

text \<open>
  Getting committed facts onto the event log: \<open>outbox.rs\<close> and the loop of the work role that drains
  it. The sink is the bus's: it has a state of its own, which an append may change, and it answers a
  batch with an error or takes it; reading an envelope back from a row is \<open>serde_json\<close>'s; both are
  parameters. \<open>others\<close> is what the rest of the system does to the store between the sink's answer and
  the mark.
\<close>

definition OUTBOX_BATCH :: nat where
  "OUTBOX_BATCH = 128"

record published =
  pb_sent :: nat
  pb_undecodable :: nat

record 'k event_sink =
  es_decode :: "json \<Rightarrow> event_envelope option"
  es_append :: "event_envelope list \<Rightarrow> 'k \<Rightarrow> string option \<times> 'k"

text \<open>The rows of a pass this build can read, stamped with the store's project.\<close>

definition sendable :: "'k event_sink \<Rightarrow> project_scope option \<Rightarrow> outbox_message list \<Rightarrow> (string \<times> event_envelope) list" where
  "sendable sink project pending =
     List.map_filter (\<lambda>row. map_option (\<lambda>e. (ob_message_id row, e\<lparr>ev_project := project\<rparr>))
                                       (es_decode sink (ob_payload row))) pending"

definition publish_pending ::
  "'k event_sink \<Rightarrow> scope_binding \<Rightarrow> (inner \<Rightarrow> inner) \<Rightarrow> inner \<Rightarrow> 'k \<Rightarrow> (store_error + published) \<times> inner \<times> 'k" where
  "publish_pending sink b others s log =
     (let pending = store_pending_outbox b OUTBOX_BATCH s;
          ready = sendable sink (scope_project (bound_scope b)) pending;
          undecodable = length (filter (\<lambda>row. es_decode sink (ob_payload row) = None) pending)
      in if pending = [] then (Inr \<lparr>pb_sent = 0, pb_undecodable = 0\<rparr>, s, log)
         else if ready = [] then (Inr \<lparr>pb_sent = 0, pb_undecodable = undecodable\<rparr>, s, log)
         else case es_append sink (map snd ready) log of
                (Some error, log') \<Rightarrow> (Inl (Backend (''publishing execution facts: '' @ error)), s, log')
              | (None, log') \<Rightarrow> (Inr \<lparr>pb_sent = length ready, pb_undecodable = undecodable\<rparr>,
                          store_mark_published b (map fst ready) (others s), log'))"

subsection \<open>A pass\<close>

lemma set_sendable:
  "x \<in> set (sendable sink project rows) \<longleftrightarrow>
     (\<exists>row \<in> set rows. \<exists>e. es_decode sink (ob_payload row) = Some e \<and> x = (ob_message_id row, e\<lparr>ev_project := project\<rparr>))"
  by (auto simp: sendable_def map_filter_def image_iff) force

lemma sendable_Nil: "sendable sink project rows = [] \<longleftrightarrow> (\<forall>row \<in> set rows. es_decode sink (ob_payload row) = None)"
  by (auto simp: sendable_def map_filter_def filter_empty_conv)

lemma set_pending:
  "row \<in> set (store_pending_outbox b n s) \<Longrightarrow>
     row \<in> set (in_outbox s) \<and> ob_published_at row = None \<and> admits_partition s b (ob_partition_key row)"
  by (auto simp: store_pending_outbox_def dest!: in_set_takeD)

lemma marked_gone:
  "row \<in> set (in_outbox s) \<Longrightarrow> row \<notin> set (in_outbox (store_mark_published b ids s)) \<Longrightarrow> ob_message_id row \<in> set ids"
  by (auto simp: store_mark_published_def Let_def)

lemma publish_pending_cases:
  assumes "publish_pending sink b others s log = (r, s', log')"
  obtains (idle) u where "r = Inr \<lparr>pb_sent = 0, pb_undecodable = u\<rparr>" "s' = s" "log' = log"
      "\<forall>row \<in> set (store_pending_outbox b OUTBOX_BATCH s). es_decode sink (ob_payload row) = None"
  | (refused) err error where "r = Inl err" "s' = s"
      "es_append sink (map snd (sendable sink (scope_project (bound_scope b)) (store_pending_outbox b OUTBOX_BATCH s))) log
         = (Some error, log')"
  | (sent) u where
      "r = Inr \<lparr>pb_sent = length (sendable sink (scope_project (bound_scope b)) (store_pending_outbox b OUTBOX_BATCH s)),
               pb_undecodable = u\<rparr>"
      "sendable sink (scope_project (bound_scope b)) (store_pending_outbox b OUTBOX_BATCH s) \<noteq> []"
      "es_append sink (map snd (sendable sink (scope_project (bound_scope b)) (store_pending_outbox b OUTBOX_BATCH s))) log
         = (None, log')"
      "s' = store_mark_published b
         (map fst (sendable sink (scope_project (bound_scope b)) (store_pending_outbox b OUTBOX_BATCH s))) (others s)"
proof (cases "sendable sink (scope_project (bound_scope b)) (store_pending_outbox b OUTBOX_BATCH s) = []")
  case True
  then have none: "\<forall>row \<in> set (store_pending_outbox b OUTBOX_BATCH s). es_decode sink (ob_payload row) = None"
    by (simp add: sendable_Nil)
  from assms True have "\<exists>u. r = Inr \<lparr>pb_sent = 0, pb_undecodable = u\<rparr> \<and> s' = s \<and> log' = log"
    by (auto simp: publish_pending_def Let_def split: if_splits)
  with none idle show thesis by blast
next
  case False
  then have some: "store_pending_outbox b OUTBOX_BATCH s \<noteq> []" by (auto simp: sendable_def map_filter_def)
  obtain answer log2 where app: "es_append sink
      (map snd (sendable sink (scope_project (bound_scope b)) (store_pending_outbox b OUTBOX_BATCH s))) log = (answer, log2)"
    by (metis surj_pair)
  show thesis
  proof (cases answer)
    case None
    with False some app assms sent show thesis by (auto simp: publish_pending_def Let_def)
  next
    case (Some error)
    with False some app assms refused show thesis by (auto simp: publish_pending_def Let_def)
  qed
qed

text \<open>A row leaves the outbox only after the sink took the envelope of its message id, and leaves it
  under the project of the store it was drained from.\<close>

theorem marked_only_when_accepted:
  assumes "publish_pending sink b others s log = (r, s', log')" and "row \<in> set (in_outbox (others s))"
    and "row \<notin> set (in_outbox s')" and "row \<in> set (in_outbox s)"
  shows "\<exists>batch e. es_append sink batch log = (None, log') \<and> e \<in> set batch \<and>
           (\<forall>x \<in> set batch. ev_project x = scope_project (bound_scope b)) \<and>
           (\<exists>sent \<in> set (in_outbox s). ob_message_id sent = ob_message_id row \<and> ob_published_at sent = None \<and>
              admits_partition s b (ob_partition_key sent) \<and>
              map_option (\<lambda>x. x\<lparr>ev_project := scope_project (bound_scope b)\<rparr>) (es_decode sink (ob_payload sent)) = Some e)"
  using assms(1)
proof (cases rule: publish_pending_cases)
  case (sent u)
  let ?ready = "sendable sink (scope_project (bound_scope b)) (store_pending_outbox b OUTBOX_BATCH s)"
  from sent(4) assms(2,3) have row: "ob_message_id row \<in> set (map fst ?ready)"
    using marked_gone by metis
  then obtain e where e: "(ob_message_id row, e) \<in> set ?ready" by auto
  then have "\<exists>sent \<in> set (in_outbox s). ob_message_id sent = ob_message_id row \<and> ob_published_at sent = None \<and>
              admits_partition s b (ob_partition_key sent) \<and> map_option (\<lambda>x. x\<lparr>ev_project := scope_project (bound_scope b)\<rparr>) (es_decode sink (ob_payload sent)) = Some e"
    by (fastforce simp: set_sendable dest: set_pending)
  moreover have "\<forall>x \<in> set (map snd ?ready). ev_project x = scope_project (bound_scope b)"
    by (auto simp: set_sendable)
  moreover have "e \<in> set (map snd ?ready)" using e by force
  ultimately show ?thesis using sent(3) by blast
qed (use assms in auto)

subsection \<open>Draining\<close>

text \<open>A pass that sent something leaves a shorter outbox, so the loop over passes ends.\<close>

lemma sent_shrinks:
  assumes "publish_pending sink b (\<lambda>u. u) s log = (Inr p, s', log')" and "pb_sent p > 0"
  shows "length (in_outbox s') < length (in_outbox s)"
  using assms(1)
proof (cases rule: publish_pending_cases)
  case (sent u)
  let ?ready = "sendable sink (scope_project (bound_scope b)) (store_pending_outbox b OUTBOX_BATCH s)"
  obtain i e where "(i, e) \<in> set ?ready" using sent(2) by (cases ?ready) auto
  then obtain row where "row \<in> set (store_pending_outbox b OUTBOX_BATCH s)" "ob_message_id row = i"
    by (auto simp: set_sendable)
  then have row: "row \<in> set (in_outbox s)" "admits_partition s b (ob_partition_key row)"
    "ob_message_id row \<in> set (map fst ?ready)"
    using \<open>(i, e) \<in> set ?ready\<close> by (force dest: set_pending)+
  then show ?thesis
    unfolding sent(4) by (auto simp: store_mark_published_def Let_def intro!: length_filter_less [of row])
qed (use assms(2) in auto)

function drain_outbox :: "'k event_sink \<Rightarrow> scope_binding \<Rightarrow> inner \<Rightarrow> 'k \<Rightarrow> (store_error + unit) \<times> inner \<times> 'k" where
  "drain_outbox sink b s log =
     (case publish_pending sink b (\<lambda>u. u) s log of
        (Inl err, s', log') \<Rightarrow> (Inl err, s', log')
      | (Inr p, s', log') \<Rightarrow> if pb_sent p = 0 then (Inr (), s', log') else drain_outbox sink b s' log')"
  by auto
termination
  by (relation "measure (\<lambda>(sink, b, s, log). length (in_outbox s))") (auto dest!: sent_shrinks [OF sym])

declare drain_outbox.simps [simp del]

text \<open>Every row that waits for this store, whether or not it falls within one pass.\<close>

definition waits :: "scope_binding \<Rightarrow> inner \<Rightarrow> outbox_message \<Rightarrow> bool" where
  "waits b s row \<longleftrightarrow> ob_published_at row = None \<and> admits_partition s b (ob_partition_key row)"

definition waiting_rows :: "scope_binding \<Rightarrow> inner \<Rightarrow> outbox_message list" where
  "waiting_rows b s = filter (waits b s) (in_outbox s)"

definition unreadable :: "'k event_sink \<Rightarrow> outbox_message \<Rightarrow> bool" where
  "unreadable sink row \<longleftrightarrow> es_decode sink (ob_payload row) = None"

text \<open>What goes onto the log for a readable row: its envelope under the store's project.\<close>

definition stamped :: "'k event_sink \<Rightarrow> scope_binding \<Rightarrow> outbox_message \<Rightarrow> event_envelope" where
  "stamped sink b row = (the (es_decode sink (ob_payload row)))\<lparr>ev_project := scope_project (bound_scope b)\<rparr>"

lemma pending_waiting: "store_pending_outbox b n s = take n (waiting_rows b s)"
  by (simp add: store_pending_outbox_def waiting_rows_def waits_def [abs_def])

lemma waits_outbox [simp]: "waits b (s\<lparr>in_outbox := rows\<rparr>) = waits b s"
proof -
  have "inner_admits (s\<lparr>in_outbox := rows\<rparr>) b = inner_admits s b" by (rule ext) (simp add: inner_admits_def owner_of_def holds_def)
  then show ?thesis by (intro ext) (simp add: waits_def admits_partition_def)
qed

lemma sendable_alt:
  "sendable sink (scope_project (bound_scope b)) rows =
     map (\<lambda>row. (ob_message_id row, stamped sink b row)) (filter (\<lambda>row. \<not> unreadable sink row) rows)"
  by (induction rows) (auto simp: sendable_def map_filter_def unreadable_def stamped_def)

text \<open>A pass that sent something takes exactly the readable rows of its batch away.\<close>

lemma marked_pass:
  assumes "distinct (map ob_message_id (in_outbox s))"
  shows "store_mark_published b (map fst (sendable sink (scope_project (bound_scope b)) (take n (waiting_rows b s)))) s =
           s\<lparr>in_outbox := filter (\<lambda>row. row \<notin> set (take n (waiting_rows b s)) \<or> unreadable sink row) (in_outbox s)\<rparr>"
proof -
  define taken where "taken = {row \<in> set (take n (waiting_rows b s)). \<not> unreadable sink row}"
  define ids where "ids = map fst (sendable sink (scope_project (bound_scope b)) (take n (waiting_rows b s)))"
  have taken: "row \<in> set (in_outbox s) \<and> waits b s row" if "row \<in> taken" for row
    using that by (auto simp: taken_def waiting_rows_def dest: in_set_takeD)
  have ids: "set ids = ob_message_id ` taken" by (auto simp: ids_def sendable_alt taken_def)
  have mem: "ob_message_id row \<in> ob_message_id ` taken \<longleftrightarrow> row \<in> taken" if "row \<in> set (in_outbox s)" for row
    using same_id [OF assms that] taken by blast
  have "{r \<in> set (in_outbox s). ob_message_id r \<in> set ids \<and> admits_partition s b (ob_partition_key r)} = taken"
    using mem taken unfolding waits_def ids by blast
  then have doomed: "set (map ob_message_id (filter (\<lambda>row. ob_message_id row \<in> set ids \<and>
      admits_partition s b (ob_partition_key row)) (in_outbox s))) = ob_message_id ` taken"
    by (simp only: set_map set_filter)
  have "store_mark_published b ids s = s\<lparr>in_outbox := filter (\<lambda>row. ob_message_id row \<notin> ob_message_id ` taken) (in_outbox s)\<rparr>"
    by (simp only: store_mark_published_def Let_def doomed)
  moreover have "filter (\<lambda>row. ob_message_id row \<notin> ob_message_id ` taken) (in_outbox s) =
      filter (\<lambda>row. row \<notin> set (take n (waiting_rows b s)) \<or> unreadable sink row) (in_outbox s)"
    using mem by (intro filter_cong) (auto simp: taken_def)
  ultimately show ?thesis by (simp add: ids_def)
qed

lemma pass_accepted:
  assumes "\<And>batch k. fst (es_append sink batch k) = None"
  obtains p s' log' where "publish_pending sink b others s log = (Inr p, s', log')"
proof -
  obtain r s' log' where pass: "publish_pending sink b others s log = (r, s', log')" by (metis surj_pair)
  then show thesis
  proof (cases rule: publish_pending_cases)
    case (refused err error)
    with assms show thesis by (metis fst_conv option.distinct(1))
  qed (use pass that in auto)
qed

text \<open>What waits after such a pass: the unreadable rows of the batch, and all behind the batch.\<close>

lemma rows_left:
  assumes "distinct ws"
  shows "filter (\<lambda>row. row \<notin> set (take n ws) \<or> unreadable sink row) ws = filter (unreadable sink) (take n ws) @ drop n ws"
proof -
  let ?P = "\<lambda>row. row \<notin> set (take n ws) \<or> unreadable sink row"
  have "set (take n ws) \<inter> set (drop n ws) = {}" using assms by (rule set_take_disj_set_drop_if_distinct) simp
  then have "filter ?P (drop n ws) = drop n ws" by (intro filter_True) blast
  moreover have "filter ?P (take n ws) = filter (unreadable sink) (take n ws)" by (rule filter_cong) auto
  moreover have "filter ?P ws = filter ?P (take n ws) @ filter ?P (drop n ws)"
    by (metis append_take_drop_id filter_append)
  ultimately show ?thesis by simp
qed

lemma split_filter: "filter P (take n ws) @ filter P (drop n ws) = filter P ws"
  by (metis append_take_drop_id filter_append)

text \<open>C22: A drain of a log that takes and keeps every batch it is given ends well, and then exactly the
  readable rows that waited for the store are on the log, each once, in the order of the outbox and
  under the store's project, behind what the log held; the store is as it was but for those rows, and
  what still waits is exactly what this build cannot read. That is so while fewer than one batch of
  128 waiting rows are unreadable, with distinct message ids and nobody else writing.\<close>

theorem draining_leaves_nothing_readable:
  assumes "\<And>batch k. fst (es_append sink batch k) = None"
    and "\<And>batch k. kept (snd (es_append sink batch k)) = kept k @ batch"
    and "distinct (map ob_message_id (in_outbox s))"
    and "length (filter (unreadable sink) (waiting_rows b s)) < OUTBOX_BATCH"
  shows "\<exists>s' log'. drain_outbox sink b s log = (Inr (), s', log') \<and>
           kept log' = kept log @ map (stamped sink b) (filter (\<lambda>row. \<not> unreadable sink row) (waiting_rows b s)) \<and>
           s' = s\<lparr>in_outbox := filter (\<lambda>row. row \<notin> set (waiting_rows b s) \<or> unreadable sink row) (in_outbox s)\<rparr> \<and>
           waiting_rows b s' = filter (unreadable sink) (waiting_rows b s)"
  using assms
proof (induction sink b s log rule: drain_outbox.induct)
  case (1 sink b s log)
  let ?W = "waiting_rows b s" and ?n = OUTBOX_BATCH
  obtain p t log1 where pass: "publish_pending sink b (\<lambda>u. u) s log = (Inr p, t, log1)" using pass_accepted [OF "1.prems"(1)] .
  show ?case
  proof (cases "pb_sent p = 0")
    case False
    let ?t = "s\<lparr>in_outbox := filter (\<lambda>row. row \<notin> set (take ?n ?W) \<or> unreadable sink row) (in_outbox s)\<rparr>"
    from pass False have t: "t = ?t" and log: "kept log1 = kept log @ map (stamped sink b) (filter (\<lambda>row. \<not> unreadable sink row) (take ?n ?W))"
      using marked_pass [OF "1.prems"(3), of b sink ?n] "1.prems"(2)
      by (auto elim!: publish_pending_cases simp: pending_waiting sendable_alt comp_def) (metis snd_conv)
    have "distinct ?W" using "1.prems"(3) by (auto simp: waiting_rows_def distinct_map)
    have left: "waiting_rows b ?t = filter (unreadable sink) (take ?n ?W) @ drop ?n ?W"
      unfolding rows_left [OF \<open>distinct ?W\<close>, symmetric] by (simp add: waiting_rows_def conj_commute cong: filter_cong)
    have unread: "filter (unreadable sink) (waiting_rows b ?t) = filter (unreadable sink) ?W"
      and read: "filter (\<lambda>row. \<not> unreadable sink row) (waiting_rows b ?t) = filter (\<lambda>row. \<not> unreadable sink row) (drop ?n ?W)"
      unfolding left by (simp_all add: split_filter)
    have "distinct (map ob_message_id (in_outbox ?t))" using "1.prems"(3) by (simp add: distinct_map_filter)
    from "1.IH" [OF pass [symmetric] HOL.refl HOL.refl False "1.prems"(1,2)] this unread "1.prems"(4) obtain s' log' where
      rest: "drain_outbox sink b ?t log1 = (Inr (), s', log')"
      "kept log' = kept log1 @ map (stamped sink b) (filter (\<lambda>row. \<not> unreadable sink row) (waiting_rows b ?t))"
      "s' = ?t\<lparr>in_outbox := filter (\<lambda>row. row \<notin> set (waiting_rows b ?t) \<or> unreadable sink row) (in_outbox ?t)\<rparr>"
      "waiting_rows b s' = filter (unreadable sink) (waiting_rows b ?t)" unfolding t by auto
    have "row \<notin> set (take ?n ?W) \<and> row \<notin> set (drop ?n ?W) \<longleftrightarrow> row \<notin> set ?W" for row
      by (metis Un_iff append_take_drop_id set_append)
    then have "filter (\<lambda>row. row \<notin> set (waiting_rows b ?t) \<or> unreadable sink row) (in_outbox ?t) =
        filter (\<lambda>row. row \<notin> set ?W \<or> unreadable sink row) (in_outbox s)"
      unfolding left by (auto intro!: filter_cong)
    with rest(3) have "s' = s\<lparr>in_outbox := filter (\<lambda>row. row \<notin> set ?W \<or> unreadable sink row) (in_outbox s)\<rparr>" by simp
    moreover have "drain_outbox sink b s log = (Inr (), s', log')"
      using pass False rest(1) t by (simp add: drain_outbox.simps [of sink b s])
    moreover have "kept log' = kept log @ map (stamped sink b) (filter (\<lambda>row. \<not> unreadable sink row) ?W)"
      unfolding rest(2) log read split_filter [symmetric, of "\<lambda>row. \<not> unreadable sink row" ?W ?n] by simp
    moreover have "waiting_rows b s' = filter (unreadable sink) ?W" using rest(4) unread by simp
    ultimately show ?thesis by blast
  next
    case True
    from pass have "t = s \<and> log1 = log \<and> list_all (unreadable sink) (take ?n ?W)"
      by (cases rule: publish_pending_cases) (use True in \<open>auto simp: pending_waiting list_all_iff unreadable_def\<close>)
    then have same: "t = s" "log1 = log" and first: "list_all (unreadable sink) (take ?n ?W)" by simp_all
    have "length (take ?n ?W) \<le> length (filter (unreadable sink) ?W)"
      using first by (metis append_take_drop_id filter_append filter_True le_add1 length_append list_all_iff)
    with "1.prems"(4) have "length ?W < ?n" by simp
    with first have all: "\<forall>row \<in> set ?W. unreadable sink row" by (simp add: list_all_iff)
    then have "filter (\<lambda>row. row \<notin> set ?W \<or> unreadable sink row) (in_outbox s) = in_outbox s"
      by (intro filter_True) blast
    moreover have "filter (\<lambda>row. \<not> unreadable sink row) ?W = []" using all by (simp add: filter_empty_conv)
    moreover have "filter (unreadable sink) ?W = ?W" using all by (intro filter_True)
    moreover have "drain_outbox sink b s log = (Inr (), s, log)"
      using pass True same by (simp add: drain_outbox.simps [of sink b s])
    ultimately show ?thesis by simp
  qed
qed

text \<open>A batch of rows this build cannot read stops everything behind it: the drain ends at once, reports
  success and sends nothing, however many readable rows wait after them.\<close>

theorem unreadable_rows_stall_the_outbox:
  assumes "waiting_rows b s = unreadable_ones @ rest" and "list_all (unreadable sink) unreadable_ones"
    and "length unreadable_ones \<ge> OUTBOX_BATCH"
  shows "drain_outbox sink b s log = (Inr (), s, log)"
proof -
  obtain r t log' where pass: "publish_pending sink b (\<lambda>u. u) s log = (r, t, log')" by (metis surj_pair)
  have "\<forall>row \<in> set (store_pending_outbox b OUTBOX_BATCH s). es_decode sink (ob_payload row) = None"
    using assms by (auto simp: pending_waiting list_all_iff unreadable_def dest!: in_set_takeD)
  then have "sendable sink (scope_project (bound_scope b)) (store_pending_outbox b OUTBOX_BATCH s) = []"
    by (simp add: sendable_Nil)
  with pass have "r = Inr \<lparr>pb_sent = 0, pb_undecodable =
      length (filter (\<lambda>row. es_decode sink (ob_payload row) = None) (store_pending_outbox b OUTBOX_BATCH s))\<rparr>"
    "t = s" "log' = log"
    by (auto simp: publish_pending_def Let_def split: if_splits)
  with pass show ?thesis by (simp add: drain_outbox.simps)
qed

subsection \<open>Witnesses\<close>

text \<open>A log that is the list of what it was given.\<close>

definition demo_sink :: "event_envelope list event_sink" where
  "demo_sink =
     \<lparr>es_decode = (\<lambda>j. if j = JNull then None
                      else Some (envelope_new FExecutionStarted ''x1'' 0 (source_new PUBLISHER_SERVICE SdkRust))),
      es_append = (\<lambda>batch log. (None, log @ batch))\<rparr>"

definition demo_outbox_row :: "string \<Rightarrow> json \<Rightarrow> outbox_message" where
  "demo_outbox_row i payload =
     \<lparr>ob_message_id = i, ob_event_type = ''execution.started'', ob_partition_key = ''workflow:x1'',
      ob_payload = payload, ob_available_at = 0, ob_attempts = 0, ob_published_at = None, ob_last_error = None\<rparr>"

definition outbox_store :: "outbox_message list \<Rightarrow> inner" where
  "outbox_store rows = inner_empty\<lparr>in_outbox := rows\<rparr>"

lemma outbox_store_admits [simp]: "admits_partition (outbox_store rows) binding_global (ob_partition_key (demo_outbox_row i j))"
  by (simp add: admits_partition_def strip_prefix_def demo_outbox_row_def inner_admits_def binding_admits_def
      binding_global_def outbox_store_def inner_empty_def owner_of_def)

lemma outbox_store_rows [simp]: "in_outbox (outbox_store rows) = rows"
  by (simp add: outbox_store_def)

lemma demo_unpublished [simp]: "ob_published_at (demo_outbox_row i j) = None"
  by (simp add: demo_outbox_row_def)

lemma outbox_store_waiting [simp]:
  "waiting_rows binding_global (outbox_store (map (\<lambda>(i, j). demo_outbox_row i j) rows)) = map (\<lambda>(i, j). demo_outbox_row i j) rows"
proof -
  have "filter (waits binding_global (outbox_store rs)) (map (\<lambda>(i, j). demo_outbox_row i j) rows) =
      map (\<lambda>(i, j). demo_outbox_row i j) rows" for rs
    by (rule filter_True) (auto simp: waits_def)
  then show ?thesis by (simp add: waiting_rows_def)
qed

lemma demo_unreadable [simp]: "unreadable demo_sink (demo_outbox_row i j) \<longleftrightarrow> j = JNull"
  by (simp add: unreadable_def demo_sink_def demo_outbox_row_def)

text \<open>128 rows of a newer build and a readable one behind them.\<close>

theorem unreadable_rows_stall_the_outbox_witness:
  "\<exists>s. drain_outbox demo_sink binding_global s [] = (Inr (), s, []) \<and>
     list_ex (\<lambda>row. \<not> unreadable demo_sink row) (waiting_rows binding_global s)"
proof -
  let ?rows = "replicate 128 (''a'', JNull) @ [(''b'', JBool True)]"
  let ?s = "outbox_store (map (\<lambda>(i, j). demo_outbox_row i j) ?rows)"
  have rows: "waiting_rows binding_global ?s = replicate 128 (demo_outbox_row ''a'' JNull) @ [demo_outbox_row ''b'' (JBool True)]"
    by (simp only: outbox_store_waiting) simp
  have "list_all (unreadable demo_sink) (replicate 128 (demo_outbox_row ''a'' JNull))" by (simp add: list_all_iff)
  from unreadable_rows_stall_the_outbox [OF rows this] rows show ?thesis
    by (intro exI [of _ ?s]) (simp add: OUTBOX_BATCH_def)
qed

lemma one_row_pass:
  obtains s log where
    "publish_pending demo_sink binding_global (\<lambda>u. u) (outbox_store [demo_outbox_row ''b'' (JBool True)]) []
       = (Inr \<lparr>pb_sent = 1, pb_undecodable = 0\<rparr>, s, log)" "in_outbox s = []"
proof -
  let ?s = "outbox_store (map (\<lambda>(i, j). demo_outbox_row i j) [(''b'', JBool True)])"
  let ?t = "store_mark_published binding_global [''b''] ?s"
  have id: "ob_message_id (demo_outbox_row i j) = i" "ob_payload (demo_outbox_row i j) = j" for i j
    by (simp_all add: demo_outbox_row_def)
  have "store_pending_outbox binding_global OUTBOX_BATCH ?s = [demo_outbox_row ''b'' (JBool True)]"
    unfolding pending_waiting outbox_store_waiting by (simp add: OUTBOX_BATCH_def)
  moreover obtain e where "sendable demo_sink project [demo_outbox_row ''b'' (JBool True)] = [(''b'', e project)]" for project
    using that by (simp add: sendable_def map_filter_def demo_sink_def id)
  ultimately have pass: "\<exists>log. publish_pending demo_sink binding_global (\<lambda>u. u) ?s [] = (Inr \<lparr>pb_sent = 1, pb_undecodable = 0\<rparr>, ?t, log)"
    by (simp add: publish_pending_def Let_def id) (simp add: demo_sink_def id)
  have "in_outbox ?t = []"
    by (simp add: store_mark_published_def Let_def image_iff id)
  with pass that [of ?t] show thesis by auto
qed

theorem draining_leaves_nothing_readable_witness:
  "\<exists>s log. drain_outbox demo_sink binding_global
        (outbox_store [demo_outbox_row ''a'' JNull, demo_outbox_row ''b'' (JBool True)]) [] = (Inr (), s, log) \<and>
     log = [stamped demo_sink binding_global (demo_outbox_row ''b'' (JBool True))] \<and>
     waiting_rows binding_global s = [demo_outbox_row ''a'' JNull]"
proof -
  let ?rows = "[(''a'', JNull), (''b'', JBool True)]"
  let ?s = "outbox_store (map (\<lambda>(i, j). demo_outbox_row i j) ?rows)"
  have waiting: "waiting_rows binding_global ?s = [demo_outbox_row ''a'' JNull, demo_outbox_row ''b'' (JBool True)]"
    unfolding outbox_store_waiting by simp
  have takes: "fst (es_append demo_sink batch k) = None" "(\<lambda>k. k) (snd (es_append demo_sink batch k)) = (\<lambda>k. k) k @ batch" for batch k
    by (simp_all add: demo_sink_def)
  have "distinct (map ob_message_id (in_outbox ?s))" by (simp add: demo_outbox_row_def)
  moreover have "length (filter (unreadable demo_sink) (waiting_rows binding_global ?s)) < OUTBOX_BATCH"
    unfolding waiting by (simp add: OUTBOX_BATCH_def)
  ultimately show ?thesis
    using draining_leaves_nothing_readable [OF takes, of ?s binding_global "[]"] unfolding waiting by auto
qed

theorem marked_only_when_accepted_witness:
  "\<exists>batch e log. es_append demo_sink batch [] = (None, log) \<and> e \<in> set batch"
proof -
  obtain s log where pass: "publish_pending demo_sink binding_global (\<lambda>u. u) (outbox_store [demo_outbox_row ''b'' (JBool True)]) []
       = (Inr \<lparr>pb_sent = 1, pb_undecodable = 0\<rparr>, s, log)" "in_outbox s = []" by (rule one_row_pass)
  have "demo_outbox_row ''b'' (JBool True) \<in> set (in_outbox (outbox_store [demo_outbox_row ''b'' (JBool True)]))"
    by (simp add: outbox_store_def)
  from marked_only_when_accepted [OF pass(1) this _ this] pass(2) show ?thesis by auto
qed

end
