(* ===== verification/Iam_Model.thy ===== *)
theory Iam_Model
  imports Scope Strings
begin

text \<open>
  The vocabulary of the control plane: principals, the two orders of roles, grants and their
  windows, offers and what they become, commands and audit entries, from \<open>model.rs\<close> of the crate
  \<open>aiwatcher-iam\<close> and \<open>Error\<close> of its \<open>lib.rs\<close>. Identifiers are the UUIDs \<open>Uuid::now_v7\<close> mints,
  as numbers of 128 bits; a fallible operation is a sum, chained by \<open>and_then\<close>. Unix seconds
  (\<open>i64\<close>) are integers: the code only compares them, except where a definition says so.
\<close>

subsection \<open>Fallible steps\<close>

text \<open>The question mark of the source: the first error ends the operation.\<close>

fun and_then :: "'e + 'a \<Rightarrow> ('a \<Rightarrow> 'e + 'b) \<Rightarrow> 'e + 'b" where
  "and_then (Inl err) f = Inl err"
| "and_then (Inr x) f = f x"

definition require_that :: "bool \<Rightarrow> 'e \<Rightarrow> 'e + unit" where
  "require_that b err = (if b then Inr () else Inl err)"

lemma and_then_Inr_iff [simp]: "and_then r f = Inr y \<longleftrightarrow> (\<exists>x. r = Inr x \<and> f x = Inr y)"
  by (cases r) auto

lemma and_then_Inl_iff: "and_then r f = Inl e \<longleftrightarrow> r = Inl e \<or> (\<exists>x. r = Inr x \<and> f x = Inl e)"
  by (cases r) auto

lemma require_that_iff [simp]: "require_that b err = Inr u \<longleftrightarrow> b"
  by (simp add: require_that_def)

lemma require_that_Inl [simp]: "require_that b err = Inl e \<longleftrightarrow> \<not> b \<and> e = err"
  by (auto simp: require_that_def)

lemma require_that_eval [simp]: "require_that True err = Inr ()" "require_that False err = Inl err"
  by (simp_all add: require_that_def)

text \<open>The en dash of the messages, in UTF-8.\<close>

definition en_dash :: string where
  "en_dash = map char_of [226 :: nat, 128, 147]"

subsection \<open>Errors\<close>

datatype iam_error =
    NotFound
  | Forbidden
  | LastOwner
  | Expired
  | AlreadyRedeemed
  | Invalid string
  | Conflict string
  | StorageFailed string
  | Incompatible string
  | BackendFailed string

subsection \<open>Principals and names\<close>

type_synonym organization_id = u128
type_synonym project_id = u128
type_synonym team_id = u128
type_synonym grant_id = u128
type_synonym invitation_id = u128

record iam_principal =
  ip_provider :: string
  ip_subject :: string

definition identity_part :: "string \<Rightarrow> bool" where
  "identity_part s \<longleftrightarrow> s \<noteq> [] \<and> int (length s) \<le> 1024 \<and> \<not> list_ex is_control (utf8_chars s)"

definition identity_error :: "string \<Rightarrow> iam_error" where
  "identity_error label =
     Invalid (label @ '' must contain 1'' @ en_dash @ ''1024 bytes without control characters'')"

definition principal_validate :: "iam_principal \<Rightarrow> iam_error + unit" where
  "principal_validate p =
     and_then (require_that (identity_part (ip_provider p)) (identity_error ''provider''))
       (\<lambda>_. require_that (identity_part (ip_subject p)) (identity_error ''subject''))"

definition checked_name :: "string \<Rightarrow> iam_error + string" where
  "checked_name given =
     (let s = str_trim given in
      if s = [] \<or> int (length s) > 200 \<or> list_ex is_control (utf8_chars s)
      then Inl (Invalid (''name must contain 1'' @ en_dash @ ''200 bytes without control characters''))
      else Inr s)"

subsection \<open>Roles\<close>

datatype organization_role = Guest | Member | Admin | Owner

datatype project_role = Viewer | Editor | ProjectAdmin

text \<open>The derived orders: a role is above those declared before it.\<close>

fun organization_rank :: "organization_role \<Rightarrow> nat" where
  "organization_rank Guest = 0"
| "organization_rank Member = 1"
| "organization_rank Admin = 2"
| "organization_rank Owner = 3"

fun project_rank :: "project_role \<Rightarrow> nat" where
  "project_rank Viewer = 0"
| "project_rank Editor = 1"
| "project_rank ProjectAdmin = 2"

lemma organization_rank_inj [simp]: "organization_rank a = organization_rank b \<longleftrightarrow> a = b"
  by (cases a; cases b) simp_all

lemma project_rank_inj [simp]: "project_rank a = project_rank b \<longleftrightarrow> a = b"
  by (cases a; cases b) simp_all

instantiation organization_role :: linorder
begin

definition less_eq_organization_role :: "organization_role \<Rightarrow> organization_role \<Rightarrow> bool" where
  "less_eq_organization_role a b \<longleftrightarrow> organization_rank a \<le> organization_rank b"

definition less_organization_role :: "organization_role \<Rightarrow> organization_role \<Rightarrow> bool" where
  "less_organization_role a b \<longleftrightarrow> organization_rank a < organization_rank b"

instance
  by standard (auto simp: less_eq_organization_role_def less_organization_role_def)

end

instantiation project_role :: linorder
begin

definition less_eq_project_role :: "project_role \<Rightarrow> project_role \<Rightarrow> bool" where
  "less_eq_project_role a b \<longleftrightarrow> project_rank a \<le> project_rank b"

definition less_project_role :: "project_role \<Rightarrow> project_role \<Rightarrow> bool" where
  "less_project_role a b \<longleftrightarrow> project_rank a < project_rank b"

instance
  by standard (auto simp: less_eq_project_role_def less_project_role_def)

end

lemma organization_role_order [simp]:
  "Guest \<le> r" "r \<le> Owner" "\<not> r < Guest" "\<not> Owner < r"
  "r < Member \<longleftrightarrow> r = Guest" "r < Admin \<longleftrightarrow> r = Guest \<or> r = Member"
  "Member \<le> r \<longleftrightarrow> r \<noteq> Guest" "Admin \<le> r \<longleftrightarrow> r = Admin \<or> r = Owner" "Owner \<le> r \<longleftrightarrow> r = Owner"
  by (cases r; simp add: less_eq_organization_role_def less_organization_role_def)+

lemma project_role_order [simp]:
  "Viewer \<le> r" "r \<le> ProjectAdmin" "ProjectAdmin \<le> r \<longleftrightarrow> r = ProjectAdmin"
  "Editor \<le> r \<longleftrightarrow> r \<noteq> Viewer" "r \<le> Viewer \<longleftrightarrow> r = Viewer"
  by (cases r; simp add: less_eq_project_role_def)+

subsection \<open>Organizations, projects, teams and grants\<close>

record organization =
  og_id :: organization_id
  og_name :: string

record project =
  pr_scope :: project_scope
  pr_name :: string

record team =
  te_id :: team_id
  te_organization :: organization_id
  te_name :: string

datatype grantee = User iam_principal | TeamOf team_id

record grant_window =
  gw_valid_from :: int
  gw_edit_until :: "int option"
  gw_read_until :: "int option"

definition permanent :: "int \<Rightarrow> grant_window" where
  "permanent valid_from =
     \<lparr>gw_valid_from = valid_from, gw_edit_until = None, gw_read_until = None\<rparr>"

definition window_validate :: "grant_window \<Rightarrow> iam_error + unit" where
  "window_validate w =
     (if is_some_and (\<lambda>ends. ends \<le> gw_valid_from w) (gw_edit_until w)
         \<or> is_some_and (\<lambda>ends. ends \<le> gw_valid_from w) (gw_read_until w)
         \<or> (case (gw_edit_until w, gw_read_until w) of
              (Some edit, Some read) \<Rightarrow> read < edit | _ \<Rightarrow> False)
      then Inl (Invalid ''grant end must follow its start; read access cannot end before edit access'')
      else Inr ())"

definition role_at :: "grant_window \<Rightarrow> project_role \<Rightarrow> int \<Rightarrow> project_role option" where
  "role_at w role now =
     (if now < gw_valid_from w \<or> is_some_and (\<lambda>ends. ends \<le> now) (gw_read_until w) then None
      else Some (if is_some_and (\<lambda>ends. ends \<le> now) (gw_edit_until w) then Viewer else role))"

record grant =
  gr_id :: grant_id
  gr_scope :: project_scope
  gr_grantee :: grantee
  gr_role :: project_role
  gr_window :: grant_window

record effective_grant =
  eg_grant :: grant
  eg_role :: project_role

record project_access =
  pa_project :: project
  pa_role :: project_role
  pa_grants :: "effective_grant list"
  pa_evaluated_at :: int

definition require_role :: "project_access \<Rightarrow> project_role \<Rightarrow> iam_error + unit" where
  "require_role acc role = (if role \<le> pa_role acc then Inr () else Inl Forbidden)"

subsection \<open>Offers\<close>

record redemption =
  rd_principal :: iam_principal
  rd_at :: int
  rd_grant :: grant_id

record invitation =
  iv_id :: invitation_id
  iv_scope :: project_scope
  iv_role :: project_role
  iv_window :: grant_window
  iv_expires_at :: int
  iv_created_by :: iam_principal
  iv_created_at :: int
  iv_label :: "string option"
  iv_standing :: organization_role
  iv_redeemed :: "redemption option"

record invitation_offer =
  io_role :: project_role
  io_window :: grant_window
  io_expires_at :: int
  io_label :: "string option"
  io_standing :: organization_role

record issued_invitation =
  ii_invitation :: invitation
  ii_token :: string

record redeemed_offer =
  ro_organization :: organization
  ro_project :: project
  ro_role :: project_role
  ro_window :: grant_window
  ro_grant :: grant_id

record offered_terms =
  of_organization :: organization
  of_project :: project
  of_role :: project_role
  of_window :: grant_window
  of_standing :: organization_role
  of_expires_at :: int
  of_label :: "string option"

subsection \<open>The roster\<close>

record membership =
  ms_principal :: iam_principal
  ms_role :: organization_role

record team_members =
  tm_team :: team
  tm_members :: "iam_principal list"

record roster_view =
  rs_organization :: organization
  rs_members :: "membership list"
  rs_guests :: "membership list"
  rs_teams :: "team_members list"
  rs_projects :: "project list"

subsection \<open>Commands and their trail\<close>

datatype iam_command =
    SetMember iam_principal organization_role
  | RemoveMember iam_principal
  | CreateTeam string
  | DeleteTeam team_id
  | SetTeamMember team_id iam_principal bool
  | CreateProject string
  | GrantOn project_id grantee project_role grant_window
  | RevokeGrant project_id grant_id

datatype iam_change =
    Applied
  | TeamCreated team
  | ProjectCreated project
  | GrantCreated grant

datatype audit_action =
    OrganizationCreated organization
  | CommandApplied iam_command iam_change
  | InvitationCreated invitation
  | InvitationRevoked invitation_id
  | InvitationRedeemed invitation_id grant_id

record audit_entry =
  ae_sequence :: int
  ae_organization :: organization_id
  ae_actor :: iam_principal
  ae_occurred_at :: int
  ae_action :: audit_action

definition audit_limit :: "int \<Rightarrow> nat \<Rightarrow> iam_error + unit" where
  "audit_limit after limit =
     (if after < 0 \<or> \<not> (1 \<le> limit \<and> limit \<le> 100)
      then Inl (Invalid ''audit requires after >= 0 and limit in 1..=100'') else Inr ())"

subsection \<open>Windows\<close>

lemma role_at_le: "role_at w role now = Some r \<Longrightarrow> r \<le> role"
  by (auto simp: role_at_def split: if_splits)

lemma permanent_valid [simp]: "window_validate (permanent t) = Inr ()"
  by (simp add: window_validate_def permanent_def)

text \<open>Once a window has opened, the role it leaves never rises.\<close>

lemma role_at_falls:
  assumes "role_at w role now = Some r" and "gw_valid_from w \<le> earlier" and "earlier \<le> now"
  obtains q where "role_at w role earlier = Some q" and "r \<le> q"
  using assms that by (cases "gw_read_until w"; cases "gw_edit_until w")
    (auto simp: role_at_def split: if_splits)

end
