(* ===== verification/Iam_Policy.thy ===== *)
theory Iam_Policy
  imports Iam_Model
begin

text \<open>
  One organization's aggregate of members, teams, projects, grants and offers, with every operation
  of \<open>policy.rs\<close> in the order of the source: the checks a stored document passes, offers and their
  redemption, what a principal may reach, and the commands. The ids \<open>Uuid::now_v7\<close> mints during
  a call and the clock reading are arguments; the size of the serialized document is a parameter of
  \<open>org_encode\<close>, since \<open>serde_json\<close> is not part of the repository.
\<close>

definition IAM_SCHEMA_VERSION :: nat where
  "IAM_SCHEMA_VERSION = 1"

definition MAX_DOCUMENT_BYTES :: int where
  "MAX_DOCUMENT_BYTES = 4 * 1024 * 1024"

definition INVITATION_RETENTION_SECONDS :: int where
  "INVITATION_RETENTION_SECONDS = 30 * 24 * 60 * 60"

record iam_fresh =
  fr_project :: project_id
  fr_team :: team_id
  fr_grant :: grant_id
  fr_invitation :: invitation_id

record org_member =
  mb_principal :: iam_principal
  mb_role :: organization_role

record team_record =
  tr_team :: team
  tr_members :: "iam_principal list"

record invitation_record =
  ir_invitation :: invitation
  ir_token_sha256 :: string

record org_state =
  os_schema_version :: nat
  os_organization :: organization
  os_members :: "org_member list"
  os_teams :: "team_record list"
  os_projects :: "project list"
  os_grants :: "grant list"
  os_invitations :: "invitation_record list"

subsection \<open>Helpers of the source's iterators\<close>

text \<open>\<open>for x in xs { check(x)?; }\<close>, \<open>iter_mut().find\<close> and \<open>iter().max()\<close>.\<close>

fun each :: "('a \<Rightarrow> 'e + unit) \<Rightarrow> 'a list \<Rightarrow> 'e + unit" where
  "each check [] = Inr ()"
| "each check (x # xs) = and_then (check x) (\<lambda>_. each check xs)"

fun update_first :: "('a \<Rightarrow> bool) \<Rightarrow> ('a \<Rightarrow> 'a) \<Rightarrow> 'a list \<Rightarrow> 'a list" where
  "update_first P f [] = []"
| "update_first P f (x # xs) = (if P x then f x # xs else x # update_first P f xs)"

fun max_role :: "project_role list \<Rightarrow> project_role option" where
  "max_role [] = None"
| "max_role (r # rs) = (case max_role rs of None \<Rightarrow> Some r | Some q \<Rightarrow> Some (max r q))"

definition ok_or :: "'e \<Rightarrow> 'a option \<Rightarrow> 'e + 'a" where
  "ok_or err x = (case x of None \<Rightarrow> Inl err | Some a \<Rightarrow> Inr a)"

definition is_ok :: "'e + 'a \<Rightarrow> bool" where
  "is_ok r = (case r of Inl _ \<Rightarrow> False | Inr _ \<Rightarrow> True)"

subsection \<open>A new organization\<close>

definition org_new :: "organization_id \<Rightarrow> iam_principal \<Rightarrow> string \<Rightarrow> iam_error + org_state" where
  "org_new minted owner label =
     and_then (principal_validate owner) (\<lambda>_.
     and_then (checked_name label) (\<lambda>name.
       Inr \<lparr>os_schema_version = IAM_SCHEMA_VERSION,
            os_organization = \<lparr>og_id = minted, og_name = name\<rparr>,
            os_members = [\<lparr>mb_principal = owner, mb_role = Owner\<rparr>],
            os_teams = [], os_projects = [], os_grants = [], os_invitations = []\<rparr>))"

subsection \<open>What a stored document must satisfy\<close>

definition check_members :: "org_state \<Rightarrow> iam_error + unit" where
  "check_members s =
     and_then (require_that
         (distinct (map mb_principal (os_members s))
          \<and> list_ex (\<lambda>m. mb_role m = Owner) (os_members s))
         (Incompatible ''duplicate memberships or missing owner''))
       (\<lambda>_. each principal_validate
              (sort_key ip_provider (sort_key ip_subject (map mb_principal (os_members s)))))"

definition check_ids :: "org_state \<Rightarrow> iam_error + unit" where
  "check_ids s = require_that
     (distinct (map (sc_project \<circ> pr_scope) (os_projects s))
      \<and> distinct (map (te_id \<circ> tr_team) (os_teams s))
      \<and> distinct (map gr_id (os_grants s)))
     (Incompatible ''duplicate project, team or grant IDs'')"

definition check_project :: "org_state \<Rightarrow> project \<Rightarrow> iam_error + unit" where
  "check_project s p =
     and_then (checked_name (pr_name p)) (\<lambda>_.
       require_that (sc_organization (pr_scope p) = og_id (os_organization s))
         (Incompatible ''project in another organization''))"

definition check_team :: "org_state \<Rightarrow> team_record \<Rightarrow> iam_error + unit" where
  "check_team s t =
     and_then (checked_name (te_name (tr_team t))) (\<lambda>_.
       require_that
         (te_organization (tr_team t) = og_id (os_organization s)
          \<and> list_all (\<lambda>p. p \<in> set (map mb_principal (os_members s))) (tr_members t)
          \<and> distinct (tr_members t))
         (Incompatible ''invalid team membership or organization''))"

definition known_scope :: "org_state \<Rightarrow> project_scope \<Rightarrow> bool" where
  "known_scope s scope \<longleftrightarrow>
     sc_organization scope = og_id (os_organization s)
     \<and> sc_project scope \<in> set (map (sc_project \<circ> pr_scope) (os_projects s))"

definition check_invitation :: "org_state \<Rightarrow> invitation_record \<Rightarrow> iam_error + unit" where
  "check_invitation s r =
     and_then (window_validate (iv_window (ir_invitation r))) (\<lambda>_.
     and_then (principal_validate (iv_created_by (ir_invitation r))) (\<lambda>_.
       require_that
         (known_scope s (iv_scope (ir_invitation r))
          \<and> length (ir_token_sha256 r) = 64
          \<and> is_none_or (\<lambda>redeemed. rd_principal redeemed \<in> set (map mb_principal (os_members s)))
              (iv_redeemed (ir_invitation r)))
         (Incompatible ''invitation outside this organization or naming nothing'')))"

definition known_grantee :: "org_state \<Rightarrow> grantee \<Rightarrow> bool" where
  "known_grantee s g =
     (case g of
        User p \<Rightarrow> p \<in> set (map mb_principal (os_members s))
      | TeamOf t \<Rightarrow> t \<in> set (map (te_id \<circ> tr_team) (os_teams s)))"

definition check_grant :: "org_state \<Rightarrow> grant \<Rightarrow> iam_error + unit" where
  "check_grant s g =
     and_then (window_validate (gr_window g)) (\<lambda>_.
       require_that (known_scope s (gr_scope g) \<and> known_grantee s (gr_grantee g))
         (Incompatible ''grant crosses an organization or has a missing reference''))"

definition org_validate :: "org_state \<Rightarrow> iam_error + unit" where
  "org_validate s =
     and_then (require_that (os_schema_version s = IAM_SCHEMA_VERSION)
       (Incompatible ''unknown schema version'')) (\<lambda>_.
     and_then (checked_name (og_name (os_organization s))) (\<lambda>_.
     and_then (check_members s) (\<lambda>_.
     and_then (check_ids s) (\<lambda>_.
     and_then (each (check_project s) (os_projects s)) (\<lambda>_.
     and_then (each (check_team s) (os_teams s)) (\<lambda>_.
     and_then (require_that (distinct (map (iv_id \<circ> ir_invitation) (os_invitations s)))
       (Incompatible ''duplicate invitation IDs'')) (\<lambda>_.
     and_then (each (check_invitation s) (os_invitations s)) (\<lambda>_.
       each (check_grant s) (os_grants s)))))))))"

definition org_encode :: "(org_state \<Rightarrow> int) \<Rightarrow> org_state \<Rightarrow> iam_error + unit" where
  "org_encode document_size s =
     and_then (org_validate s) (\<lambda>_.
       require_that (document_size s \<le> MAX_DOCUMENT_BYTES)
         (Invalid ''organization IAM metadata exceeds 4 MiB''))"

subsection \<open>Membership\<close>

definition member_role :: "org_state \<Rightarrow> iam_principal \<Rightarrow> iam_error + organization_role" where
  "member_role s actor =
     and_then (principal_validate actor) (\<lambda>_.
       ok_or NotFound
         (map_option mb_role (List.find (\<lambda>m. mb_principal m = actor) (os_members s))))"

definition authorize_audit :: "org_state \<Rightarrow> iam_principal \<Rightarrow> iam_error + unit" where
  "authorize_audit s actor =
     and_then (member_role s actor) (\<lambda>role. require_that (\<not> role < Admin) Forbidden)"

definition memberships :: "org_member list \<Rightarrow> (organization_role \<Rightarrow> bool) \<Rightarrow> membership list" where
  "memberships members wanted =
     map (\<lambda>m. \<lparr>ms_principal = mb_principal m, ms_role = mb_role m\<rparr>)
       (filter (\<lambda>m. wanted (mb_role m)) members)"

definition roster :: "org_state \<Rightarrow> iam_principal \<Rightarrow> iam_error + roster_view" where
  "roster s actor =
     and_then (member_role s actor) (\<lambda>role.
     and_then (require_that (\<not> role < Admin) Forbidden) (\<lambda>_.
       Inr \<lparr>rs_organization = os_organization s,
            rs_members = memberships (os_members s) (\<lambda>r. Member \<le> r),
            rs_guests = memberships (os_members s) (\<lambda>r. r < Member),
            rs_teams = map (\<lambda>t. \<lparr>tm_team = tr_team t, tm_members = tr_members t\<rparr>) (os_teams s),
            rs_projects = os_projects s\<rparr>))"

subsection \<open>What a principal reaches\<close>

definition actor_teams :: "org_state \<Rightarrow> iam_principal \<Rightarrow> team_id list" where
  "actor_teams s actor =
     map (te_id \<circ> tr_team) (filter (\<lambda>t. actor \<in> set (tr_members t)) (os_teams s))"

definition grant_reaches :: "org_state \<Rightarrow> iam_principal \<Rightarrow> project_scope \<Rightarrow> grant \<Rightarrow> bool" where
  "grant_reaches s actor scope g \<longleftrightarrow>
     gr_scope g = scope
     \<and> (case gr_grantee g of User p \<Rightarrow> p = actor | TeamOf t \<Rightarrow> t \<in> set (actor_teams s actor))"

definition effective :: "int \<Rightarrow> grant \<Rightarrow> effective_grant option" where
  "effective now g =
     map_option (\<lambda>role. \<lparr>eg_grant = g, eg_role = role\<rparr>) (role_at (gr_window g) (gr_role g) now)"

definition live_grants :: "org_state \<Rightarrow> project_scope \<Rightarrow> iam_principal \<Rightarrow> int \<Rightarrow> effective_grant list" where
  "live_grants s scope actor now =
     List.map_filter (effective now) (filter (grant_reaches s actor scope) (os_grants s))"

definition org_access ::
  "org_state \<Rightarrow> project_scope \<Rightarrow> iam_principal \<Rightarrow> int \<Rightarrow> iam_error + project_access" where
  "org_access s scope actor now =
     and_then (member_role s actor) (\<lambda>_.
     and_then (ok_or NotFound (List.find (\<lambda>p. pr_scope p = scope) (os_projects s))) (\<lambda>project.
     and_then (ok_or NotFound (max_role (map eg_role (live_grants s scope actor now)))) (\<lambda>role.
       Inr \<lparr>pa_project = project, pa_role = role,
            pa_grants = live_grants s scope actor now, pa_evaluated_at = now\<rparr>)))"

fun collect_access :: "(iam_error + project_access) list \<Rightarrow> iam_error + project_access list" where
  "collect_access [] = Inr []"
| "collect_access (Inr acc # rest) = and_then (collect_access rest) (\<lambda>more. Inr (acc # more))"
| "collect_access (Inl err # rest) = (if err = NotFound then collect_access rest else Inl err)"

definition org_projects :: "org_state \<Rightarrow> iam_principal \<Rightarrow> int \<Rightarrow> iam_error + project_access list" where
  "org_projects s actor now =
     and_then (member_role s actor) (\<lambda>_.
       collect_access (map (\<lambda>p. org_access s (pr_scope p) actor now) (os_projects s)))"

definition manage_project ::
  "org_state \<Rightarrow> iam_principal \<Rightarrow> project_id \<Rightarrow> int \<Rightarrow> iam_error + project_scope" where
  "manage_project s actor project now =
     (let scope = ProjectScope (og_id (os_organization s)) project in
      if \<not> list_ex (\<lambda>p. pr_scope p = scope) (os_projects s) then Inl NotFound
      else and_then (member_role s actor) (\<lambda>role.
           if role < Admin
           then and_then (org_access s scope actor now) (\<lambda>acc.
                and_then (require_role acc ProjectAdmin) (\<lambda>_. Inr scope))
           else Inr scope))"

definition project_grants ::
  "org_state \<Rightarrow> project_scope \<Rightarrow> iam_principal \<Rightarrow> int \<Rightarrow> iam_error + grant list" where
  "project_grants s scope actor now =
     (if sc_organization scope \<noteq> og_id (os_organization s) then Inl NotFound
      else and_then (manage_project s actor (sc_project scope) now) (\<lambda>scope.
           Inr (filter (\<lambda>g. gr_scope g = scope) (os_grants s))))"

subsection \<open>Offers\<close>

text \<open>\<open>offer.label.map(name).transpose()\<close>.\<close>

definition checked_label :: "string option \<Rightarrow> iam_error + string option" where
  "checked_label label =
     (case label of None \<Rightarrow> Inr None | Some text \<Rightarrow> and_then (checked_name text) (\<lambda>n. Inr (Some n)))"

definition is_hex_digit :: "char \<Rightarrow> bool" where
  "is_hex_digit c \<longleftrightarrow> c \<in> set ''0123456789abcdefABCDEF''"

definition done_at :: "invitation \<Rightarrow> int" where
  "done_at i = (case iv_redeemed i of None \<Rightarrow> iv_expires_at i | Some r \<Rightarrow> rd_at r)"

definition forget_spent_invitations :: "org_state \<Rightarrow> int \<Rightarrow> org_state" where
  "forget_spent_invitations s now =
     s\<lparr>os_invitations := filter (\<lambda>r. now - done_at (ir_invitation r) < INVITATION_RETENTION_SECONDS)
         (os_invitations s)\<rparr>"

definition org_invite ::
  "iam_fresh \<Rightarrow> org_state \<Rightarrow> iam_principal \<Rightarrow> project_id \<Rightarrow> invitation_offer \<Rightarrow> string \<Rightarrow> int \<Rightarrow>
   iam_error + (org_state \<times> invitation)" where
  "org_invite fresh s actor project offer token_sha256 now =
     and_then (manage_project s actor project now) (\<lambda>scope.
     and_then (window_validate (io_window offer)) (\<lambda>_.
     and_then (require_that (now < io_expires_at offer)
       (Invalid ''an invitation must expire in the future'')) (\<lambda>_.
     and_then (require_that (length token_sha256 = 64 \<and> list_all is_hex_digit token_sha256)
       (Invalid ''the token digest is not a SHA-256'')) (\<lambda>_.
     and_then (checked_label (io_label offer)) (\<lambda>label.
       let kept = forget_spent_invitations s now;
           invitation = \<lparr>iv_id = fr_invitation fresh, iv_scope = scope, iv_role = io_role offer,
             iv_window = io_window offer, iv_expires_at = io_expires_at offer,
             iv_created_by = actor, iv_created_at = now, iv_label = label,
             iv_standing = io_standing offer, iv_redeemed = None\<rparr>
       in Inr (kept\<lparr>os_invitations := os_invitations kept @
                  [\<lparr>ir_invitation = invitation, ir_token_sha256 = token_sha256\<rparr>]\<rparr>, invitation))))))"

definition org_invitations :: "org_state \<Rightarrow> iam_principal \<Rightarrow> int \<Rightarrow> iam_error + invitation list" where
  "org_invitations s actor now =
     and_then (member_role s actor) (\<lambda>_.
       Inr (sort_key (\<lambda>i. - iv_created_at i)
         (map ir_invitation
           (filter (\<lambda>r. is_ok (manage_project s actor (sc_project (iv_scope (ir_invitation r))) now))
             (os_invitations s)))))"

definition org_revoke_invitation ::
  "org_state \<Rightarrow> iam_principal \<Rightarrow> invitation_id \<Rightarrow> int \<Rightarrow> iam_error + org_state" where
  "org_revoke_invitation s actor invitation now =
     and_then (ok_or NotFound
       (List.find (\<lambda>r. iv_id (ir_invitation r) = invitation) (os_invitations s))) (\<lambda>record.
     and_then (manage_project s actor (sc_project (iv_scope (ir_invitation record))) now) (\<lambda>_.
     and_then (require_that (iv_redeemed (ir_invitation record) = None) AlreadyRedeemed) (\<lambda>_.
       Inr (s\<lparr>os_invitations :=
         filter (\<lambda>r. iv_id (ir_invitation r) \<noteq> invitation) (os_invitations s)\<rparr>))))"

definition holds_invitation :: "org_state \<Rightarrow> string \<Rightarrow> bool" where
  "holds_invitation s token_sha256 =
     list_ex (\<lambda>r. ir_token_sha256 r = token_sha256) (os_invitations s)"

text \<open>The refusals that looking at an offer and taking it up share.\<close>

definition open_offer :: "org_state \<Rightarrow> string \<Rightarrow> int \<Rightarrow> iam_error + (invitation \<times> project)" where
  "open_offer s token_sha256 now =
     and_then (ok_or NotFound
       (List.find (\<lambda>r. ir_token_sha256 r = token_sha256) (os_invitations s))) (\<lambda>record.
     and_then (require_that (iv_redeemed (ir_invitation record) = None) AlreadyRedeemed) (\<lambda>_.
     and_then (require_that (now < iv_expires_at (ir_invitation record)) Expired) (\<lambda>_.
     and_then (ok_or NotFound
       (List.find (\<lambda>p. pr_scope p = iv_scope (ir_invitation record)) (os_projects s))) (\<lambda>project.
       Inr (ir_invitation record, project)))))"

definition org_offered :: "org_state \<Rightarrow> string \<Rightarrow> int \<Rightarrow> iam_error + offered_terms" where
  "org_offered s token_sha256 now =
     and_then (open_offer s token_sha256 now) (\<lambda>(invitation, project).
       Inr \<lparr>of_organization = os_organization s, of_project = project, of_role = iv_role invitation,
            of_window = iv_window invitation, of_standing = iv_standing invitation,
            of_expires_at = iv_expires_at invitation, of_label = iv_label invitation\<rparr>)"

definition admit :: "org_state \<Rightarrow> iam_principal \<Rightarrow> organization_role \<Rightarrow> org_member list" where
  "admit s redeemer standing =
     (if is_ok (member_role s redeemer) then os_members s
      else os_members s @ [\<lparr>mb_principal = redeemer, mb_role = standing\<rparr>])"

definition mark_redeemed :: "redemption \<Rightarrow> invitation_record \<Rightarrow> invitation_record" where
  "mark_redeemed r rec = rec\<lparr>ir_invitation := (ir_invitation rec)\<lparr>iv_redeemed := Some r\<rparr>\<rparr>"

definition org_redeem ::
  "iam_fresh \<Rightarrow> org_state \<Rightarrow> string \<Rightarrow> iam_principal \<Rightarrow> int \<Rightarrow> iam_error + (org_state \<times> redeemed_offer)" where
  "org_redeem fresh s token_sha256 redeemer now =
     and_then (principal_validate redeemer) (\<lambda>_.
     and_then (open_offer s token_sha256 now) (\<lambda>(invitation, project).
       let grant = \<lparr>gr_id = fr_grant fresh, gr_scope = iv_scope invitation,
             gr_grantee = User redeemer, gr_role = iv_role invitation,
             gr_window = iv_window invitation\<rparr>;
           redemption = \<lparr>rd_principal = redeemer, rd_at = now, rd_grant = gr_id grant\<rparr>
       in Inr (s\<lparr>os_members := admit s redeemer (iv_standing invitation),
                 os_grants := os_grants s @ [grant],
                 os_invitations := update_first (\<lambda>r. iv_id (ir_invitation r) = iv_id invitation)
                   (mark_redeemed redemption) (os_invitations s)\<rparr>,
               \<lparr>ro_organization = os_organization s, ro_project = project, ro_role = gr_role grant,
                ro_window = gr_window grant, ro_grant = gr_id grant\<rparr>)))"

definition invitation_of :: "org_state \<Rightarrow> grant_id \<Rightarrow> invitation_id option" where
  "invitation_of s g =
     map_option (iv_id \<circ> ir_invitation)
       (List.find (\<lambda>r. is_some_and (\<lambda>redeemed. rd_grant redeemed = g) (iv_redeemed (ir_invitation r)))
         (os_invitations s))"

subsection \<open>Commands\<close>

definition owner_count :: "org_state \<Rightarrow> nat" where
  "owner_count s = length (filter (\<lambda>m. mb_role m = Owner) (os_members s))"

definition keep_owner ::
  "org_state \<Rightarrow> iam_principal \<Rightarrow> organization_role option \<Rightarrow> iam_error + unit" where
  "keep_owner s user wanted =
     and_then (member_role s user) (\<lambda>role.
       require_that (\<not> (role = Owner \<and> wanted \<noteq> Some Owner \<and> owner_count s = 1)) LastOwner)"

definition set_member ::
  "org_state \<Rightarrow> organization_role \<Rightarrow> iam_principal \<Rightarrow> organization_role \<Rightarrow> iam_error + org_state" where
  "set_member s role user wanted =
     and_then (principal_validate user) (\<lambda>_.
       let previous = map_option mb_role
             (List.find (\<lambda>m. mb_principal m = user) (os_members s)) in
       and_then (require_that
           (role = Owner \<or> (wanted = Member \<and> is_none_or (\<lambda>r. r = Member) previous)) Forbidden) (\<lambda>_.
       and_then (if previous \<noteq> None then keep_owner s user (Some wanted) else Inr ()) (\<lambda>_.
         Inr (if previous \<noteq> None
              then s\<lparr>os_members := update_first (\<lambda>m. mb_principal m = user)
                       (\<lambda>m. m\<lparr>mb_role := wanted\<rparr>) (os_members s)\<rparr>
              else s\<lparr>os_members := os_members s @ [\<lparr>mb_principal = user, mb_role = wanted\<rparr>]\<rparr>))))"

definition without_member :: "org_state \<Rightarrow> iam_principal \<Rightarrow> org_state" where
  "without_member s user =
     s\<lparr>os_members := filter (\<lambda>m. mb_principal m \<noteq> user) (os_members s),
       os_teams := map (\<lambda>t. t\<lparr>tr_members := filter (\<lambda>m. m \<noteq> user) (tr_members t)\<rparr>) (os_teams s),
       os_grants := filter (\<lambda>g. gr_grantee g \<noteq> User user) (os_grants s)\<rparr>"

definition remove_member ::
  "org_state \<Rightarrow> organization_role \<Rightarrow> iam_principal \<Rightarrow> iam_error + org_state" where
  "remove_member s role user =
     and_then (member_role s user) (\<lambda>previous.
     and_then (require_that (role = Owner \<or> previous = Member) Forbidden) (\<lambda>_.
     and_then (keep_owner s user None) (\<lambda>_.
       Inr (without_member s user))))"

definition create_team :: "iam_fresh \<Rightarrow> org_state \<Rightarrow> string \<Rightarrow> iam_error + (org_state \<times> iam_change)" where
  "create_team fresh s label =
     and_then (checked_name label) (\<lambda>name.
       let team = \<lparr>te_id = fr_team fresh, te_organization = og_id (os_organization s), te_name = name\<rparr>
       in Inr (s\<lparr>os_teams := os_teams s @ [\<lparr>tr_team = team, tr_members = []\<rparr>]\<rparr>, TeamCreated team))"

definition delete_team :: "org_state \<Rightarrow> team_id \<Rightarrow> iam_error + org_state" where
  "delete_team s team =
     (if \<not> list_ex (\<lambda>t. te_id (tr_team t) = team) (os_teams s) then Inl NotFound
      else Inr (s\<lparr>os_teams := filter (\<lambda>t. te_id (tr_team t) \<noteq> team) (os_teams s),
                  os_grants := filter (\<lambda>g. gr_grantee g \<noteq> TeamOf team) (os_grants s)\<rparr>))"

definition put_in_team :: "iam_principal \<Rightarrow> bool \<Rightarrow> team_record \<Rightarrow> team_record" where
  "put_in_team user present t =
     t\<lparr>tr_members := filter (\<lambda>m. m \<noteq> user) (tr_members t) @ (if present then [user] else [])\<rparr>"

definition set_team_member ::
  "org_state \<Rightarrow> team_id \<Rightarrow> iam_principal \<Rightarrow> bool \<Rightarrow> iam_error + org_state" where
  "set_team_member s team user present =
     and_then (member_role s user) (\<lambda>role.
     and_then (require_that (\<not> role < Member) Forbidden) (\<lambda>_.
       if \<not> list_ex (\<lambda>t. te_id (tr_team t) = team) (os_teams s) then Inl NotFound
       else Inr (s\<lparr>os_teams := update_first (\<lambda>t. te_id (tr_team t) = team)
                     (put_in_team user present) (os_teams s)\<rparr>)))"

definition create_project ::
  "iam_fresh \<Rightarrow> org_state \<Rightarrow> iam_principal \<Rightarrow> string \<Rightarrow> int \<Rightarrow> iam_error + (org_state \<times> iam_change)" where
  "create_project fresh s actor label now =
     and_then (checked_name label) (\<lambda>name.
       let project = \<lparr>pr_scope = ProjectScope (og_id (os_organization s)) (fr_project fresh),
             pr_name = name\<rparr>;
           grant = \<lparr>gr_id = fr_grant fresh, gr_scope = pr_scope project, gr_grantee = User actor,
             gr_role = ProjectAdmin, gr_window = permanent now\<rparr>
       in Inr (s\<lparr>os_projects := os_projects s @ [project], os_grants := os_grants s @ [grant]\<rparr>,
               ProjectCreated project))"

definition check_grantee :: "org_state \<Rightarrow> grantee \<Rightarrow> iam_error + unit" where
  "check_grantee s g =
     (case g of
        User p \<Rightarrow> and_then (member_role s p) (\<lambda>_. Inr ())
      | TeamOf t \<Rightarrow> require_that (list_ex (\<lambda>e. te_id (tr_team e) = t) (os_teams s)) NotFound)"

definition grant_on ::
  "iam_fresh \<Rightarrow> org_state \<Rightarrow> iam_principal \<Rightarrow> project_id \<Rightarrow> grantee \<Rightarrow> project_role \<Rightarrow> grant_window \<Rightarrow> int \<Rightarrow>
   iam_error + (org_state \<times> iam_change)" where
  "grant_on fresh s actor project who role window now =
     and_then (manage_project s actor project now) (\<lambda>scope.
     and_then (window_validate window) (\<lambda>_.
     and_then (check_grantee s who) (\<lambda>_.
       let grant = \<lparr>gr_id = fr_grant fresh, gr_scope = scope, gr_grantee = who, gr_role = role,
             gr_window = window\<rparr>
       in Inr (s\<lparr>os_grants := os_grants s @ [grant]\<rparr>, GrantCreated grant))))"

definition revoke_grant ::
  "org_state \<Rightarrow> iam_principal \<Rightarrow> project_id \<Rightarrow> grant_id \<Rightarrow> int \<Rightarrow> iam_error + org_state" where
  "revoke_grant s actor project grant now =
     and_then (manage_project s actor project now) (\<lambda>scope.
     and_then (require_that (list_ex (\<lambda>g. gr_id g = grant \<and> gr_scope g = scope) (os_grants s))
       NotFound) (\<lambda>_.
       Inr (s\<lparr>os_grants := filter (\<lambda>g. gr_id g \<noteq> grant) (os_grants s)\<rparr>)))"

definition applied :: "iam_error + org_state \<Rightarrow> iam_error + (org_state \<times> iam_change)" where
  "applied r = and_then r (\<lambda>s. Inr (s, Applied))"

fun is_grant_command :: "iam_command \<Rightarrow> bool" where
  "is_grant_command (GrantOn _ _ _ _) = True"
| "is_grant_command (RevokeGrant _ _) = True"
| "is_grant_command _ = False"

definition run_command ::
  "iam_fresh \<Rightarrow> org_state \<Rightarrow> organization_role \<Rightarrow> iam_principal \<Rightarrow> iam_command \<Rightarrow> int \<Rightarrow>
   iam_error + (org_state \<times> iam_change)" where
  "run_command fresh s role actor command now =
     (case command of
        SetMember user wanted \<Rightarrow> applied (set_member s role user wanted)
      | RemoveMember user \<Rightarrow> applied (remove_member s role user)
      | CreateTeam name \<Rightarrow> create_team fresh s name
      | DeleteTeam team \<Rightarrow> applied (delete_team s team)
      | SetTeamMember team user present \<Rightarrow> applied (set_team_member s team user present)
      | CreateProject name \<Rightarrow> create_project fresh s actor name now
      | GrantOn project who granted window \<Rightarrow> grant_on fresh s actor project who granted window now
      | RevokeGrant project grant \<Rightarrow> applied (revoke_grant s actor project grant now))"

definition org_apply ::
  "iam_fresh \<Rightarrow> org_state \<Rightarrow> iam_principal \<Rightarrow> iam_command \<Rightarrow> int \<Rightarrow>
   iam_error + (org_state \<times> iam_change)" where
  "org_apply fresh s actor command now =
     and_then (member_role s actor) (\<lambda>role.
     and_then (require_that (is_grant_command command \<or> \<not> role < Admin) Forbidden) (\<lambda>_.
       run_command fresh s role actor command now))"

end
