(* ===== verification/Iam_Valid.thy ===== *)
theory Iam_Valid
  imports Iam_Policy
begin

text \<open>
  The facts the properties of the control plane share: a stored name survives being checked again,
  the checks of a document as one predicate over its parts, what a membership look-up returns, and
  that every operation of the policy keeps a valid document valid except the one removal the
  properties single out.
\<close>

subsection \<open>Stored names\<close>

definition named :: "string \<Rightarrow> bool" where
  "named n \<longleftrightarrow> (\<exists>m. checked_name n = Inr m)"

lemma checked_name_named: "checked_name given = Inr n \<Longrightarrow> named n"
  by (auto simp: checked_name_def named_def Let_def split: if_splits)

subsection \<open>Iterators\<close>

lemma each_iff [simp]: "each check xs = Inr u \<longleftrightarrow> (\<forall>x \<in> set xs. check x = Inr ())"
  by (induction xs) auto

lemma update_first_split:
  assumes "list_ex P xs"
  obtains as x bs where "xs = as @ x # bs" "P x" "\<forall>a \<in> set as. \<not> P a"
    "update_first P f xs = as @ f x # bs"
  using assms
proof (induction xs arbitrary: thesis)
  case (Cons y ys)
  show ?case
  proof (cases "P y")
    case True
    then show ?thesis by (intro Cons.prems(1) [of "[]" y ys]) simp_all
  next
    case False
    with Cons.prems(2) have "list_ex P ys" by simp
    then obtain as x bs where "ys = as @ x # bs" "P x" "\<forall>a \<in> set as. \<not> P a"
      "update_first P f ys = as @ f x # bs" using Cons.IH by blast
    with False show ?thesis by (intro Cons.prems(1) [of "y # as" x bs]) auto
  qed
qed simp

lemma update_first_none: "\<not> list_ex P xs \<Longrightarrow> update_first P f xs = xs"
  by (induction xs) auto

lemma map_update_first: "(\<And>x. g (f x) = g x) \<Longrightarrow> map g (update_first P f xs) = map g xs"
  by (induction xs) auto

lemma set_update_first: "x \<in> set (update_first P f xs) \<Longrightarrow> x \<in> set xs \<or> (\<exists>y \<in> set xs. P y \<and> x = f y)"
  by (induction xs) (auto split: if_splits)

lemma find_update_first:
  "(\<And>x. Q (f x) = Q x) \<Longrightarrow>
   List.find Q (update_first P f xs) =
     (case List.find Q xs of None \<Rightarrow> None
      | Some x \<Rightarrow> if P x \<and> List.find P xs = Some x then Some (f x) else Some x)"
  by (induction xs) (auto split: option.splits if_splits dest: find_Some_mem)

lemma ok_or_iff [simp]: "ok_or err x = Inr a \<longleftrightarrow> x = Some a"
  by (auto simp: ok_or_def split: option.splits)

lemma ok_or_Inl_iff [simp]: "ok_or err x = Inl e \<longleftrightarrow> x = None \<and> e = err"
  by (auto simp: ok_or_def split: option.splits)

lemma ok_or_eval [simp]: "ok_or err None = Inl err" "ok_or err (Some a) = Inr a"
  by (simp_all add: ok_or_def)

lemma is_ok_iff [simp]: "is_ok r \<longleftrightarrow> (\<exists>x. r = Inr x)"
  by (cases r) (auto simp: is_ok_def)

lemma max_role_None_iff [simp]: "max_role rs = None \<longleftrightarrow> rs = []"
  by (cases rs) (auto split: option.splits)

lemma max_role_Some_ge: "max_role rs = Some m \<Longrightarrow> r \<le> m \<longleftrightarrow> (\<exists>q \<in> set rs. r \<le> q)"
  by (induction rs arbitrary: m) (auto split: option.splits simp: le_max_iff_disj)

subsection \<open>Memberships\<close>

definition role_of :: "org_state \<Rightarrow> iam_principal \<Rightarrow> organization_role option" where
  "role_of s p = map_option mb_role (List.find (\<lambda>m. mb_principal m = p) (os_members s))"

lemma member_role_eq: "member_role s p = and_then (principal_validate p) (\<lambda>_. ok_or NotFound (role_of s p))"
  by (simp add: member_role_def role_of_def)

lemma member_role_iff [simp]:
  "member_role s p = Inr r \<longleftrightarrow> principal_validate p = Inr () \<and> role_of s p = Some r"
  by (simp add: member_role_eq)

lemma role_of_None_iff: "role_of s p = None \<longleftrightarrow> p \<notin> mb_principal ` set (os_members s)"
  by (auto simp: role_of_def find_None_iff')

lemma role_of_known: "role_of s p = Some r \<Longrightarrow> p \<in> mb_principal ` set (os_members s)"
  by (metis option.distinct(1) role_of_None_iff)

lemma role_of_cong: "os_members s = os_members s' \<Longrightarrow> role_of s = role_of s'"
  by (rule ext) (simp add: role_of_def)

lemma find_append':
  "List.find P (xs @ ys) = (case List.find P xs of None \<Rightarrow> List.find P ys | Some x \<Rightarrow> Some x)"
  by (induction xs) auto

lemma role_of_append:
  "role_of (s\<lparr>os_members := os_members s @ [m]\<rparr>) p =
     (if role_of s p = None \<and> mb_principal m = p then Some (mb_role m) else role_of s p)"
  by (auto simp: role_of_def find_append' split: option.splits)

lemma role_of_filter:
  "role_of (s\<lparr>os_members := filter (\<lambda>m. mb_principal m \<noteq> q) (os_members s)\<rparr>) p =
     (if p = q then None else role_of s p)"
proof -
  have "List.find (\<lambda>m. mb_principal m = p) (filter (\<lambda>m. mb_principal m \<noteq> q) ms) =
      (if p = q then None else List.find (\<lambda>m. mb_principal m = p) ms)"
    for ms :: "org_member list"
    by (induction ms) auto
  then show ?thesis by (simp add: role_of_def)
qed

lemma role_of_update:
  "role_of (s\<lparr>os_members := update_first (\<lambda>m. mb_principal m = q) (\<lambda>m. m\<lparr>mb_role := r\<rparr>)
      (os_members s)\<rparr>) p =
     (if p = q \<and> role_of s q \<noteq> None then Some r else role_of s p)"
  by (auto simp: role_of_def find_update_first split: option.splits dest: find_Some_mem)

subsection \<open>Valid documents\<close>

text \<open>The checks of \<open>validate\<close> as one predicate, part by part.\<close>

definition members_ok :: "org_member list \<Rightarrow> bool" where
  "members_ok ms \<longleftrightarrow>
     distinct (map mb_principal ms) \<and> (\<exists>m \<in> set ms. mb_role m = Owner)
     \<and> (\<forall>m \<in> set ms. principal_validate (mb_principal m) = Inr ())"

definition parts_ok :: "org_state \<Rightarrow> bool" where
  "parts_ok s \<longleftrightarrow>
     os_schema_version s = IAM_SCHEMA_VERSION \<and> named (og_name (os_organization s))
     \<and> distinct (map (sc_project \<circ> pr_scope) (os_projects s))
     \<and> distinct (map (te_id \<circ> tr_team) (os_teams s))
     \<and> distinct (map gr_id (os_grants s))
     \<and> distinct (map (iv_id \<circ> ir_invitation) (os_invitations s))
     \<and> (\<forall>p \<in> set (os_projects s). named (pr_name p) \<and> sc_organization (pr_scope p) = og_id (os_organization s))"

definition team_ok :: "org_state \<Rightarrow> team_record \<Rightarrow> bool" where
  "team_ok s t \<longleftrightarrow>
     named (te_name (tr_team t)) \<and> te_organization (tr_team t) = og_id (os_organization s)
     \<and> set (tr_members t) \<subseteq> mb_principal ` set (os_members s) \<and> distinct (tr_members t)"

definition invitation_ok :: "org_state \<Rightarrow> invitation_record \<Rightarrow> bool" where
  "invitation_ok s r \<longleftrightarrow>
     window_validate (iv_window (ir_invitation r)) = Inr ()
     \<and> principal_validate (iv_created_by (ir_invitation r)) = Inr ()
     \<and> known_scope s (iv_scope (ir_invitation r)) \<and> length (ir_token_sha256 r) = 64
     \<and> (\<forall>x. iv_redeemed (ir_invitation r) = Some x \<longrightarrow>
           rd_principal x \<in> mb_principal ` set (os_members s))"

definition grant_ok :: "org_state \<Rightarrow> grant \<Rightarrow> bool" where
  "grant_ok s g \<longleftrightarrow>
     window_validate (gr_window g) = Inr () \<and> known_scope s (gr_scope g) \<and> known_grantee s (gr_grantee g)"

lemma check_members_iff: "check_members s = Inr u \<longleftrightarrow> members_ok (os_members s)"
  by (auto simp: check_members_def members_ok_def list_ex_iff)

lemma check_team_iff: "check_team s t = Inr u \<longleftrightarrow> team_ok s t"
  by (auto simp: check_team_def team_ok_def named_def list_all_iff)

lemma check_invitation_iff: "check_invitation s r = Inr u \<longleftrightarrow> invitation_ok s r"
  by (cases "iv_redeemed (ir_invitation r)") (auto simp: check_invitation_def invitation_ok_def)

lemma check_grant_iff: "check_grant s g = Inr u \<longleftrightarrow> grant_ok s g"
  by (auto simp: check_grant_def grant_ok_def)

lemma valid_iff:
  "org_validate s = Inr u \<longleftrightarrow>
     parts_ok s \<and> members_ok (os_members s)
     \<and> (\<forall>t \<in> set (os_teams s). team_ok s t)
     \<and> (\<forall>r \<in> set (os_invitations s). invitation_ok s r)
     \<and> (\<forall>g \<in> set (os_grants s). grant_ok s g)"
  by (auto simp: org_validate_def check_members_iff check_team_iff check_invitation_iff check_grant_iff
      check_ids_def check_project_def parts_ok_def named_def)

lemma valid_member_validates:
  "org_validate s = Inr () \<Longrightarrow> role_of s p = Some r \<Longrightarrow> principal_validate p = Inr ()"
  using find_Some_mem by (fastforce simp: valid_iff members_ok_def role_of_def)

lemma manage_project_scope:
  "manage_project s actor project now = Inr scope \<Longrightarrow>
     scope = ProjectScope (og_id (os_organization s)) project \<and> known_scope s scope
     \<and> list_ex (\<lambda>p. pr_scope p = scope) (os_projects s)"
  by (force simp: manage_project_def Let_def known_scope_def list_ex_iff split: if_splits)

definition fresh_for :: "iam_fresh \<Rightarrow> org_state \<Rightarrow> bool" where
  "fresh_for fresh s \<longleftrightarrow>
     fr_project fresh \<notin> set (map (sc_project \<circ> pr_scope) (os_projects s))
     \<and> fr_team fresh \<notin> set (map (te_id \<circ> tr_team) (os_teams s))
     \<and> fr_grant fresh \<notin> set (map gr_id (os_grants s))
     \<and> fr_invitation fresh \<notin> set (map (iv_id \<circ> ir_invitation) (os_invitations s))"

section \<open>Documents that stay valid\<close>

text \<open>
  Every operation of the policy keeps a valid document valid, one lemma per operation; the removal
  of a member does so exactly when no offer remembers that member as its redeemer.
\<close>

subsection \<open>Frames\<close>

lemmas scope_frame = known_scope_def known_grantee_def
lemmas part_defs = team_ok_def invitation_ok_def grant_ok_def scope_frame

text \<open>
  The members and projects a document's other parts refer to may grow.
\<close>

lemma team_ok_mono:
  "team_ok s t \<Longrightarrow> os_organization s' = os_organization s \<Longrightarrow>
   mb_principal ` set (os_members s) \<subseteq> mb_principal ` set (os_members s') \<Longrightarrow> team_ok s' t"
  by (auto simp: team_ok_def)

lemma known_scope_mono:
  "known_scope s scope \<Longrightarrow> os_organization s' = os_organization s \<Longrightarrow>
   set (os_projects s) \<subseteq> set (os_projects s') \<Longrightarrow> known_scope s' scope"
  by (auto simp: known_scope_def)

lemma invitation_ok_mono:
  "invitation_ok s r \<Longrightarrow> os_organization s' = os_organization s \<Longrightarrow>
   mb_principal ` set (os_members s) \<subseteq> mb_principal ` set (os_members s') \<Longrightarrow>
   set (os_projects s) \<subseteq> set (os_projects s') \<Longrightarrow> invitation_ok s' r"
  using known_scope_mono by (auto simp: invitation_ok_def)

lemma grant_ok_mono:
  assumes "grant_ok s g" and "os_organization s' = os_organization s"
    and "mb_principal ` set (os_members s) \<subseteq> mb_principal ` set (os_members s')"
    and "set (os_projects s) \<subseteq> set (os_projects s')"
    and "(te_id \<circ> tr_team) ` set (os_teams s) \<subseteq> (te_id \<circ> tr_team) ` set (os_teams s')"
  shows "grant_ok s' g"
  using assms known_scope_mono [of s _ s'] by (cases "gr_grantee g") (auto simp: grant_ok_def known_grantee_def)

lemmas parts_mono = team_ok_mono invitation_ok_mono grant_ok_mono

lemma valid_mono:
  assumes "org_validate s = Inr ()" and "parts_ok s'" and "members_ok (os_members s')"
    and "os_organization s' = os_organization s"
    and "mb_principal ` set (os_members s) \<subseteq> mb_principal ` set (os_members s')"
    and "set (os_projects s) \<subseteq> set (os_projects s')"
    and "(te_id \<circ> tr_team) ` set (os_teams s) \<subseteq> (te_id \<circ> tr_team) ` set (os_teams s')"
    and "\<And>t. t \<in> set (os_teams s') \<Longrightarrow> t \<in> set (os_teams s) \<or> team_ok s' t"
    and "\<And>r. r \<in> set (os_invitations s') \<Longrightarrow> r \<in> set (os_invitations s) \<or> invitation_ok s' r"
    and "\<And>g. g \<in> set (os_grants s') \<Longrightarrow> g \<in> set (os_grants s) \<or> grant_ok s' g"
  shows "org_validate s' = Inr ()"
  unfolding valid_iff
proof (intro conjI ballI)
  show "team_ok s' t" if "t \<in> set (os_teams s')" for t
    using assms(8) [OF that] assms(1) team_ok_mono [of s t s'] assms(4,5) by (auto simp: valid_iff)
  show "invitation_ok s' r" if "r \<in> set (os_invitations s')" for r
    using assms(9) [OF that] assms(1) invitation_ok_mono [of s r s'] assms(4-6) by (auto simp: valid_iff)
  show "grant_ok s' g" if "g \<in> set (os_grants s')" for g
    using assms(10) [OF that] assms(1) grant_ok_mono [of s g s'] assms(4-7) by (auto simp: valid_iff)
qed (use assms(2,3) in auto)

subsection \<open>Every operation keeps a valid document valid\<close>

lemma new_valid: "org_new minted owner label = Inr s \<Longrightarrow> org_validate s = Inr ()"
  by (auto simp: org_new_def valid_iff parts_ok_def members_ok_def dest: checked_name_named)

lemma find_by_key:
  "distinct (map key xs) \<Longrightarrow> x \<in> set xs \<Longrightarrow> List.find (\<lambda>y. key y = key x) xs = Some x"
  by (induction xs) (auto simp: image_iff)

lemma filter_one: "distinct xs \<Longrightarrow> x \<in> set xs \<Longrightarrow> filter (\<lambda>y. y = x) xs = [x]"
  by (induction xs) (auto simp: filter_empty_conv)

text \<open>Who owns the organization survives a change of one membership that \<open>keep_owner\<close> let pass.\<close>

lemma owner_elsewhere:
  assumes "members_ok (os_members s)" and "keep_owner s p wanted = Inr ()" and "wanted \<noteq> Some Owner"
  shows "\<exists>m \<in> set (os_members s). mb_role m = Owner \<and> mb_principal m \<noteq> p"
proof (rule ccontr)
  assume none: "\<not> ?thesis"
  from assms(1) obtain m where m: "m \<in> set (os_members s)" "mb_role m = Owner"
    by (auto simp: members_ok_def)
  with none have p: "mb_principal m = p" by blast
  have d: "distinct (map mb_principal (os_members s))" using assms(1) by (simp add: members_ok_def)
  then have "role_of s p = Some Owner"
    using find_by_key [OF d m(1)] m(2) p by (simp add: role_of_def)
  have "filter (\<lambda>x. mb_role x = Owner) (os_members s) = filter (\<lambda>x. x = m) (os_members s)"
    using none m p d by (intro filter_cong) (auto simp: distinct_map dest: inj_onD)
  then have "owner_count s = 1"
    using m(1) d by (simp add: owner_count_def filter_one distinct_map)
  with \<open>role_of s p = Some Owner\<close> assms(2,3) show False
    by (auto simp: keep_owner_def)
qed

lemma members_ok_set_role:
  assumes "members_ok (os_members s)" and "keep_owner s p (Some wanted) = Inr ()"
  shows "members_ok (update_first (\<lambda>m. mb_principal m = p) (\<lambda>m. m\<lparr>mb_role := wanted\<rparr>) (os_members s))"
    (is "members_ok ?ms")
proof -
  have names: "map mb_principal ?ms = map mb_principal (os_members s)"
    by (rule map_update_first) simp
  have ex: "list_ex (\<lambda>m. mb_principal m = p) (os_members s)"
    using assms(2) role_of_known by (fastforce simp: keep_owner_def list_ex_iff)
  obtain as x bs where x: "os_members s = as @ x # bs" "mb_principal x = p"
    "?ms = as @ x\<lparr>mb_role := wanted\<rparr> # bs"
    by (rule update_first_split [OF ex, of "\<lambda>m. m\<lparr>mb_role := wanted\<rparr>"]) blast
  have "\<exists>m \<in> set ?ms. mb_role m = Owner"
  proof (cases "wanted = Owner")
    case True
    with x show ?thesis by simp
  next
    case False
    with owner_elsewhere [OF assms] x show ?thesis by auto
  qed
  moreover have "principal_validate (mb_principal m) = Inr ()" if "m \<in> set ?ms" for m
    using that assms(1) x by (auto simp: members_ok_def)
  ultimately show ?thesis using assms(1) names by (auto simp: members_ok_def)
qed

lemma set_member_valid:
  assumes "org_validate s = Inr ()" and "set_member s role p wanted = Inr s'"
  shows "org_validate s' = Inr ()"
proof (cases "role_of s p")
  case None
  with assms(2) have s': "s' = s\<lparr>os_members := os_members s @ [\<lparr>mb_principal = p, mb_role = wanted\<rparr>]\<rparr>"
    and p: "principal_validate p = Inr ()"
    by (auto simp: set_member_def role_of_def Let_def)
  show ?thesis
    by (rule valid_mono [OF assms(1)])
      (use assms(1) None p in \<open>auto simp: s' valid_iff parts_ok_def members_ok_def role_of_None_iff\<close>)
next
  case (Some q)
  with assms(2) have s': "s' = s\<lparr>os_members := update_first (\<lambda>m. mb_principal m = p)
      (\<lambda>m. m\<lparr>mb_role := wanted\<rparr>) (os_members s)\<rparr>" (is "_ = s\<lparr>os_members := ?ms\<rparr>")
    and k: "keep_owner s p (Some wanted) = Inr ()"
    by (auto simp: set_member_def role_of_def Let_def)
  have names: "mb_principal ` set ?ms = mb_principal ` set (os_members s)"
    by (metis (no_types, lifting) list.set_map map_update_first org_member.select_convs(1)
        org_member.surjective org_member.update_convs(2))
  show ?thesis
  proof (rule valid_mono [OF assms(1)])
    show "members_ok (os_members s')"
      using members_ok_set_role [OF _ k] assms(1) by (simp add: s' valid_iff)
  qed (use assms(1) names in \<open>auto simp: s' valid_iff parts_ok_def\<close>)
qed

lemma create_team_valid:
  assumes "org_validate s = Inr ()" and "create_team fresh s label = Inr (s', ch)" and "fresh_for fresh s"
  shows "org_validate s' = Inr ()"
proof (rule valid_mono [OF assms(1)])
  show "parts_ok s'" "members_ok (os_members s')" 
    using assms by (auto simp: create_team_def Let_def valid_iff parts_ok_def fresh_for_def)
qed (use assms in \<open>auto simp: create_team_def Let_def team_ok_def dest: checked_name_named\<close>)

lemma create_project_valid:
  assumes "org_validate s = Inr ()" and "create_project fresh s actor label now = Inr (s', ch)"
    and "fresh_for fresh s" and "role_of s actor = Some role"
  shows "org_validate s' = Inr ()"
proof (rule valid_mono [OF assms(1)])
  show "parts_ok s'" "members_ok (os_members s')" 
    using assms by (auto simp: create_project_def Let_def valid_iff parts_ok_def fresh_for_def
        dest!: checked_name_named)
qed (use assms role_of_known [OF assms(4)] in
    \<open>auto simp: create_project_def Let_def grant_ok_def scope_frame dest: checked_name_named\<close>)

lemma grant_on_valid:
  assumes "org_validate s = Inr ()" and "grant_on fresh s actor project who role window now = Inr (s', ch)"
    and "fresh_for fresh s"
  shows "org_validate s' = Inr ()"
proof (rule valid_mono [OF assms(1)])
  show "parts_ok s'" "members_ok (os_members s')" 
    using assms by (auto simp: grant_on_def Let_def valid_iff parts_ok_def fresh_for_def)
qed (use assms in
    \<open>auto simp: grant_on_def Let_def grant_ok_def scope_frame check_grantee_def list_ex_iff
      dest: role_of_known manage_project_scope split: grantee.splits\<close>)

lemma revoke_grant_valid:
  assumes "org_validate s = Inr ()" and "revoke_grant s actor project grant now = Inr s'"
  shows "org_validate s' = Inr ()"
proof (rule valid_mono [OF assms(1)])
  show "parts_ok s'" "members_ok (os_members s')" 
    using assms by (auto simp: revoke_grant_def valid_iff parts_ok_def distinct_map_filter)
qed (use assms in \<open>auto simp: revoke_grant_def\<close>)

lemma set_team_member_valid:
  assumes "org_validate s = Inr ()" and "set_team_member s team p present = Inr s'"
  shows "org_validate s' = Inr ()"
proof -
  let ?ts = "update_first (\<lambda>t. te_id (tr_team t) = team) (put_in_team p present) (os_teams s)"
  have s': "s' = s\<lparr>os_teams := ?ts\<rparr>" and p: "p \<in> mb_principal ` set (os_members s)"
    using assms(2) by (auto simp: set_team_member_def split: if_splits dest: role_of_known)
  have ids: "map (te_id \<circ> tr_team) ?ts = map (te_id \<circ> tr_team) (os_teams s)"
    by (rule map_update_first) (simp add: put_in_team_def)
  then have "(te_id \<circ> tr_team) ` set ?ts = (te_id \<circ> tr_team) ` set (os_teams s)"
    by (metis list.set_map)
  moreover have "team_ok s' t" if "t \<in> set ?ts" for t
    using set_update_first [OF that]
  proof (elim disjE bexE conjE)
    fix u
    assume "u \<in> set (os_teams s)" and t: "t = put_in_team p present u"
    with assms(1) have "team_ok s u" by (simp add: valid_iff)
    with p show "team_ok s' t"
      by (auto simp: s' t team_ok_def put_in_team_def simp del: image_iff)
  qed (use assms(1) in \<open>simp add: s' valid_iff team_ok_def\<close>)
  ultimately show ?thesis
    by (intro valid_mono [OF assms(1)]) (use assms(1) ids in \<open>auto simp: s' valid_iff parts_ok_def\<close>)
qed

lemma delete_team_valid:
  assumes "org_validate s = Inr ()" and "delete_team s team = Inr s'"
  shows "org_validate s' = Inr ()"
proof -
  have s': "s' = s\<lparr>os_teams := filter (\<lambda>t. te_id (tr_team t) \<noteq> team) (os_teams s),
      os_grants := filter (\<lambda>g. gr_grantee g \<noteq> TeamOf team) (os_grants s)\<rparr>"
    using assms(2) by (auto simp: delete_team_def split: if_splits)
  have "grant_ok s' g" if "g \<in> set (os_grants s')" for g
  proof -
    from that have g: "g \<in> set (os_grants s)" "gr_grantee g \<noteq> TeamOf team" by (auto simp: s')
    with assms(1) have "grant_ok s g" by (simp add: valid_iff)
    with g(2) show ?thesis
      by (cases "gr_grantee g") (auto simp: s' grant_ok_def scope_frame)
  qed
  moreover have "parts_ok s'" using assms(1) by (auto simp: s' valid_iff parts_ok_def distinct_map_filter)
  ultimately show ?thesis using assms(1)
    by (auto simp: s' valid_iff team_ok_def invitation_ok_def known_scope_def)
qed

lemma remove_member_parts:
  assumes "org_validate s = Inr ()" and "remove_member s role p = Inr s'"
  shows "parts_ok s'" and "members_ok (os_members s')" and "\<forall>t \<in> set (os_teams s'). team_ok s' t"
    and "\<forall>g \<in> set (os_grants s'). grant_ok s' g"
    and "mb_principal ` set (os_members s') = mb_principal ` set (os_members s) - {p}"
proof -
  have s': "s' = without_member s p" and k: "keep_owner s p None = Inr ()"
    using assms(2) by (auto simp: remove_member_def)
  show known: "mb_principal ` set (os_members s') = mb_principal ` set (os_members s) - {p}"
    by (auto simp: s' without_member_def)
  show "members_ok (os_members s')"
    using owner_elsewhere [OF _ k] assms(1)
    by (auto simp: s' without_member_def valid_iff members_ok_def distinct_map_filter)
  show "parts_ok s'"
    using assms(1) by (auto simp: s' without_member_def valid_iff parts_ok_def distinct_map_filter comp_def)
  have "team_ok s' t" if t: "t \<in> set (os_teams s')" for t
  proof -
    obtain u where u: "u \<in> set (os_teams s)" "t = u\<lparr>tr_members := filter (\<lambda>m. m \<noteq> p) (tr_members u)\<rparr>"
      using t by (auto simp: s' without_member_def)
    with assms(1) have "team_ok s u" by (simp add: valid_iff)
    with u(2) known show ?thesis by (auto simp: team_ok_def) (simp add: s' without_member_def)
  qed
  then show "\<forall>t \<in> set (os_teams s'). team_ok s' t" by blast
  have "grant_ok s' g" if g: "g \<in> set (os_grants s')" for g
  proof -
    have "g \<in> set (os_grants s)" "gr_grantee g \<noteq> User p" using g by (auto simp: s' without_member_def)
    moreover from this assms(1) have "grant_ok s g" by (simp add: valid_iff)
    ultimately show ?thesis
      by (cases "gr_grantee g") (auto simp: s' without_member_def grant_ok_def scope_frame)
  qed
  then show "\<forall>g \<in> set (os_grants s'). grant_ok s' g" by blast
qed

lemma remove_member_valid:
  assumes "org_validate s = Inr ()" and "remove_member s role p = Inr s'"
  shows "org_validate s' = Inr () \<longleftrightarrow>
    \<not> (\<exists>r \<in> set (os_invitations s). \<exists>x. iv_redeemed (ir_invitation r) = Some x \<and> rd_principal x = p)"
    (is "_ \<longleftrightarrow> \<not> ?remembered")
proof -
  have s': "s' = without_member s p" using assms(2) by (auto simp: remove_member_def)
  note parts = remove_member_parts [OF assms]
  have "(\<forall>r \<in> set (os_invitations s'). invitation_ok s' r) \<longleftrightarrow> \<not> ?remembered"
  proof -
    have "invitation_ok s' r \<longleftrightarrow> (\<forall>x. iv_redeemed (ir_invitation r) = Some x \<longrightarrow> rd_principal x \<noteq> p)"
      if "r \<in> set (os_invitations s)" for r
    proof -
      from that assms(1) have "invitation_ok s r" by (simp add: valid_iff)
      with parts(5) show ?thesis
        by (auto simp: invitation_ok_def known_scope_def s' without_member_def)
    qed
    moreover have "os_invitations s' = os_invitations s" by (simp add: s' without_member_def)
    ultimately show ?thesis by auto
  qed
  with parts(1-4) show ?thesis unfolding valid_iff by blast
qed

subsection \<open>Offers keep it valid\<close>

lemma invite_valid:
  assumes "org_validate s = Inr ()" and "org_invite fresh s actor project offer token now = Inr (s', i)"
    and "fresh_for fresh s"
  shows "org_validate s' = Inr ()"
proof (rule valid_mono [OF assms(1)])
  from assms(2) obtain scope label where
    s': "s' = s\<lparr>os_invitations := os_invitations (forget_spent_invitations s now) @
        [\<lparr>ir_invitation = i, ir_token_sha256 = token\<rparr>]\<rparr>"
    and i: "iv_id i = fr_invitation fresh" "iv_scope i = scope" "iv_window i = io_window offer"
      "iv_created_by i = actor" "iv_redeemed i = None"
    and ok: "manage_project s actor project now = Inr scope" "window_validate (io_window offer) = Inr ()"
      "length token = 64"
    by (auto simp: org_invite_def Let_def forget_spent_invitations_def)
  have actor: "principal_validate actor = Inr ()"
    using ok(1) by (auto simp: manage_project_def Let_def split: if_splits)
  show "parts_ok s'" "members_ok (os_members s')"
    using assms(1,3) i(1) by (auto simp: s' valid_iff parts_ok_def forget_spent_invitations_def fresh_for_def distinct_map_filter)
  show "r \<in> set (os_invitations s) \<or> invitation_ok s' r" if "r \<in> set (os_invitations s')" for r
    using that i ok(2,3) actor manage_project_scope [OF ok(1)]
    by (auto simp: s' forget_spent_invitations_def invitation_ok_def known_scope_def)
  show "os_organization s' = os_organization s" by (simp add: s')
qed (use assms(2) in \<open>auto simp: org_invite_def Let_def forget_spent_invitations_def\<close>)

lemma revoke_invitation_valid:
  assumes "org_validate s = Inr ()" and "org_revoke_invitation s actor invitation now = Inr s'"
  shows "org_validate s' = Inr ()"
  by (rule valid_mono [OF assms(1)])
    (use assms in \<open>auto simp: org_revoke_invitation_def valid_iff parts_ok_def distinct_map_filter\<close>)

text \<open>What a redemption writes, with the offer it found.\<close>

lemma redeem_cases:
  assumes "org_redeem fresh s token redeemer now = Inr (s', out)"
  obtains rec project where
    "principal_validate redeemer = Inr ()"
    "List.find (\<lambda>r. ir_token_sha256 r = token) (os_invitations s) = Some rec"
    "iv_redeemed (ir_invitation rec) = None" "now < iv_expires_at (ir_invitation rec)"
    "List.find (\<lambda>p. pr_scope p = iv_scope (ir_invitation rec)) (os_projects s) = Some project"
    "s' = s\<lparr>os_members := admit s redeemer (iv_standing (ir_invitation rec)),
       os_grants := os_grants s @ [\<lparr>gr_id = fr_grant fresh, gr_scope = iv_scope (ir_invitation rec),
         gr_grantee = User redeemer, gr_role = iv_role (ir_invitation rec),
         gr_window = iv_window (ir_invitation rec)\<rparr>],
       os_invitations := update_first (\<lambda>r. iv_id (ir_invitation r) = iv_id (ir_invitation rec))
         (mark_redeemed \<lparr>rd_principal = redeemer, rd_at = now, rd_grant = fr_grant fresh\<rparr>)
         (os_invitations s)\<rparr>"
    "out = \<lparr>ro_organization = os_organization s, ro_project = project,
       ro_role = iv_role (ir_invitation rec), ro_window = iv_window (ir_invitation rec),
       ro_grant = fr_grant fresh\<rparr>"
  using assms by (auto simp: org_redeem_def open_offer_def Let_def)

lemma admit_members:
  assumes "principal_validate redeemer = Inr ()"
  shows "admit s redeemer standing =
    (if role_of s redeemer = None then os_members s @ [\<lparr>mb_principal = redeemer, mb_role = standing\<rparr>]
     else os_members s)"
  using assms by (auto simp: admit_def)

lemma redeem_valid:
  assumes "org_validate s = Inr ()" and "org_redeem fresh s token redeemer now = Inr (s', out)"
    and "fresh_for fresh s"
  shows "org_validate s' = Inr ()"
  using assms(2)
proof (cases rule: redeem_cases)
  case (1 rec project)
  have rec: "rec \<in> set (os_invitations s)" using find_Some_mem [OF 1(2)] by blast
  with assms(1) have rok: "invitation_ok s rec" by (simp add: valid_iff)
  let ?ids = "\<lambda>r. iv_id (ir_invitation r)"
  have ids: "map ?ids (os_invitations s') = map ?ids (os_invitations s)"
    unfolding 1(6) by (simp, rule map_update_first) (simp add: mark_redeemed_def)
  have known: "redeemer \<in> mb_principal ` set (os_members s')"
    "mb_principal ` set (os_members s) \<subseteq> mb_principal ` set (os_members s')"
    using 1(1) role_of_known [of s redeemer] by (auto simp: 1(6) admit_members)
  show ?thesis
  proof (rule valid_mono [OF assms(1)])
    show "parts_ok s'"
      using assms(1,3) ids by (auto simp: valid_iff parts_ok_def fresh_for_def comp_def) (simp_all add: 1(6))
    show "members_ok (os_members s')"
      using assms(1) 1(1) by (auto simp: 1(6) admit_members valid_iff members_ok_def role_of_None_iff)
    show "r \<in> set (os_invitations s) \<or> invitation_ok s' r" if "r \<in> set (os_invitations s')" for r
    proof -
      from that have "r \<in> set (update_first (\<lambda>r. ?ids r = ?ids rec)
          (mark_redeemed \<lparr>rd_principal = redeemer, rd_at = now, rd_grant = fr_grant fresh\<rparr>)
          (os_invitations s))" by (simp add: 1(6))
      from set_update_first [OF this] show ?thesis
      proof (elim disjE bexE conjE)
        fix u
        assume u: "u \<in> set (os_invitations s)"
          and r: "r = mark_redeemed \<lparr>rd_principal = redeemer, rd_at = now, rd_grant = fr_grant fresh\<rparr> u"
        from u assms(1) have "invitation_ok s u" by (simp add: valid_iff)
        then show ?thesis
          using known by (auto simp: r mark_redeemed_def invitation_ok_def known_scope_def) (simp_all add: 1(6))
      qed simp
    qed
    show "g \<in> set (os_grants s) \<or> grant_ok s' g" if "g \<in> set (os_grants s')" for g
      using that rok known(1) by (auto simp: 1(6) grant_ok_def invitation_ok_def scope_frame)
  qed (use known in \<open>auto simp: 1(6)\<close>)
qed

end
