(* ===== verification/Iam_Props.thy ===== *)
theory Iam_Props
  imports Iam_Valid
begin

text \<open>
  What one organization's policy promises: documents stay valid, authority only comes from an
  owner's command, an offer gives what it declared and gives it once, reaching a project is holding
  a live grant, and removal takes all of it away. Three theorems show what it does not promise.
\<close>

subsection \<open>Documents\<close>

definition remembered :: "org_state \<Rightarrow> iam_principal \<Rightarrow> bool" where
  "remembered s p \<longleftrightarrow>
     list_ex (\<lambda>r. is_some_and (\<lambda>x. rd_principal x = p) (iv_redeemed (ir_invitation r))) (os_invitations s)"

lemma apply_valid:
  assumes "org_validate s = Inr ()" and "fresh_for fresh s"
    and "org_apply fresh s actor command now = Inr (s', change)"
  shows "org_validate s' = Inr () \<longleftrightarrow> \<not> (\<exists>p. command = RemoveMember p \<and> remembered s p)"
proof -
  from assms(3) obtain role where role: "role_of s actor = Some role"
    and run: "run_command fresh s role actor command now = Inr (s', change)"
    by (auto simp: org_apply_def)
  show ?thesis
  proof (cases command)
    case (RemoveMember p)
    with run have "remove_member s role p = Inr s'" by (auto simp: run_command_def applied_def)
    from remove_member_valid [OF assms(1) this] RemoveMember show ?thesis
      by (simp add: remembered_def list_ex_iff is_some_and_iff)
  qed (use run assms(1,2) role in \<open>auto simp: run_command_def applied_def
      intro: set_member_valid create_team_valid delete_team_valid set_team_member_valid
        create_project_valid grant_on_valid revoke_grant_valid\<close>)
qed

text \<open>With ids nobody holds yet, no operation of the policy ever writes a document the store
  would refuse to read back, except one: removing a member who once redeemed an offer the document
  still remembers.\<close>

theorem policy_keeps_documents_valid:
  assumes "org_validate s = Inr ()" and "fresh_for fresh s"
  shows "(\<forall>s' change. org_apply fresh s actor command now = Inr (s', change) \<longrightarrow>
            (org_validate s' = Inr () \<longleftrightarrow> \<not> (\<exists>p. command = RemoveMember p \<and> remembered s p))) \<and>
         (\<forall>s' i. org_invite fresh s actor project offer token now = Inr (s', i) \<longrightarrow>
            org_validate s' = Inr ()) \<and>
         (\<forall>s'. org_revoke_invitation s actor invitation now = Inr s' \<longrightarrow> org_validate s' = Inr ()) \<and>
         (\<forall>s' out. org_redeem fresh s token actor now = Inr (s', out) \<longrightarrow> org_validate s' = Inr ())"
  using assms apply_valid invite_valid revoke_invitation_valid redeem_valid by metis

subsection \<open>Authority\<close>

lemma role_of_unchanged:
  assumes "run_command fresh s role actor command now = Inr (s', change)"
    and "\<not> (\<exists>p r. command = SetMember p r)" and "\<not> (\<exists>p. command = RemoveMember p)"
  shows "role_of s' = role_of s"
  using assms by (cases command)
    (auto simp: run_command_def applied_def create_team_def delete_team_def set_team_member_def
      create_project_def grant_on_def revoke_grant_def Let_def split: if_splits intro!: role_of_cong)

lemma set_member_roles:
  assumes "set_member s role p wanted = Inr s'"
  shows "role_of s' q = (if q = p then Some wanted else role_of s q)"
    and "role = Owner \<or> wanted = Member \<and> role_of s p \<in> {None, Some Member}"
  using assms by (auto simp: set_member_def Let_def role_of_append role_of_update is_none_or_def
      simp flip: role_of_def split: if_splits option.splits)

lemma remove_member_roles:
  assumes "remove_member s role p = Inr s'"
  shows "role_of s' q = (if q = p then None else role_of s q)"
    and "role = Owner \<or> role_of s p = Some Member"
proof -
  have "role_of (without_member s p) q = (if q = p then None else role_of s q)" for q
    using role_of_filter [where s = s and q = p and p = q] by (simp add: without_member_def role_of_def)
  with assms show "role_of s' q = (if q = p then None else role_of s q)"
    and "role = Owner \<or> role_of s p = Some Member"
    by (auto simp: remove_member_def)
qed

text \<open>Everything that may change an organization, as one step of somebody.\<close>

datatype policy_operation =
    PolicyCommand iam_command
  | PolicyInvite project_id invitation_offer string
  | PolicyRevoke invitation_id
  | PolicyRedeem string

fun policy_step ::
  "iam_fresh \<Rightarrow> org_state \<Rightarrow> iam_principal \<Rightarrow> policy_operation \<Rightarrow> int \<Rightarrow> iam_error + org_state" where
  "policy_step fresh s actor (PolicyCommand command) now = map_sum id fst (org_apply fresh s actor command now)"
| "policy_step fresh s actor (PolicyInvite project offer token) now =
     map_sum id fst (org_invite fresh s actor project offer token now)"
| "policy_step fresh s actor (PolicyRevoke invitation) now = org_revoke_invitation s actor invitation now"
| "policy_step fresh s actor (PolicyRedeem token) now = map_sum id fst (org_redeem fresh s token actor now)"

lemma map_sum_Inr: "map_sum f g x = Inr y \<longleftrightarrow> (\<exists>z. x = Inr z \<and> y = g z)"
  by (cases x) auto

lemma offers_keep_standing:
  "org_invite fresh s actor project offer token now = Inr (s', i) \<Longrightarrow> role_of s' p = role_of s p"
  "org_revoke_invitation s actor invitation now = Inr s' \<Longrightarrow> role_of s' p = role_of s p"
  by (auto simp: org_invite_def org_revoke_invitation_def forget_spent_invitations_def role_of_def Let_def)

lemma redeemed_roles:
  assumes "org_redeem fresh s token redeemer now = Inr (s', out)"
  obtains rec where "List.find (\<lambda>r. ir_token_sha256 r = token) (os_invitations s) = Some rec"
    "iv_redeemed (ir_invitation rec) = None" "now < iv_expires_at (ir_invitation rec)"
    "\<And>p. role_of s' p = (if p = redeemer \<and> role_of s p = None then Some (iv_standing (ir_invitation rec)) else role_of s p)"
  using assms
proof (cases rule: redeem_cases)
  case (1 rec project)
  have "role_of s' p = (if p = redeemer \<and> role_of s p = None then Some (iv_standing (ir_invitation rec)) else role_of s p)" for p
    using role_of_append [of s "\<lparr>mb_principal = redeemer, mb_role = iv_standing (ir_invitation rec)\<rparr>" p]
    by (auto simp: 1(6) admit_members [OF 1(1)] role_of_def split: option.splits)
  with that 1(2-4) show thesis by blast
qed

lemma command_standing:
  assumes "org_apply fresh s actor command now = Inr (s', change)"
    and "role_of s' p \<noteq> role_of s p"
  shows "role_of s actor = Some Owner \<or>
    role_of s actor = Some Admin \<and> p \<noteq> actor \<and>
    {role_of s p, role_of s' p} = {None, Some Member}"
proof -
  from assms(1) obtain role where role: "role_of s actor = Some role"
    and run: "run_command fresh s role actor command now = Inr (s', change)"
    and auth: "is_grant_command command \<or> \<not> role < Admin"
    by (auto simp: org_apply_def)
  with assms(2) consider q r where "command = SetMember q r" | q where "command = RemoveMember q"
    using role_of_unchanged by metis
  then show ?thesis
  proof cases
    case (1 q r)
    with run have "set_member s role q r = Inr s'" by (auto simp: run_command_def applied_def)
    from set_member_roles [OF this] assms(2) role auth 1 show ?thesis
      by (cases role) (auto split: if_splits)
  next
    case (2 q)
    with run have "remove_member s role q = Inr s'" by (auto simp: run_command_def applied_def)
    from remove_member_roles [OF this] assms(2) role auth 2 show ?thesis
      by (cases role) (auto split: if_splits)
  qed
qed

text \<open>C6: Of all operations of the policy, somebody's standing changes only in three ways: an owner's
  command; an admin's command, which adds or removes an ordinary member other than the admin; and
  taking up an open offer, which gives nobody but the taker, and the taker only where they had no
  standing, the standing the offer names. Issuing and withdrawing offers changes nobody's. What standing
  an offer may name is not checked when it is issued (\<open>offer_makes_an_owner\<close>).\<close>

theorem standing_changes_by_authority:
  assumes "policy_step fresh s actor operation now = Inr s'" and "role_of s' p \<noteq> role_of s p"
  shows "(\<exists>command. operation = PolicyCommand command \<and> role_of s actor = Some Owner) \<or>
         (\<exists>command. operation = PolicyCommand command \<and> role_of s actor = Some Admin \<and> p \<noteq> actor \<and>
            {role_of s p, role_of s' p} = {None, Some Member}) \<or>
         (\<exists>token rec. operation = PolicyRedeem token \<and> p = actor \<and> role_of s p = None \<and>
            List.find (\<lambda>r. ir_token_sha256 r = token) (os_invitations s) = Some rec \<and>
            iv_redeemed (ir_invitation rec) = None \<and> now < iv_expires_at (ir_invitation rec) \<and>
            role_of s' p = Some (iv_standing (ir_invitation rec)))"
proof (cases operation)
  case (PolicyCommand command)
  with assms(1) obtain change where "org_apply fresh s actor command now = Inr (s', change)"
    by (auto simp: map_sum_Inr)
  from command_standing [OF this assms(2)] PolicyCommand show ?thesis by blast
next
  case (PolicyRedeem token)
  with assms(1) obtain out where "org_redeem fresh s token actor now = Inr (s', out)"
    by (auto simp: map_sum_Inr)
  then show ?thesis
    by (rule redeemed_roles) (use assms(2) PolicyRedeem in \<open>auto split: if_splits\<close>)
qed (use assms offers_keep_standing in \<open>auto simp: map_sum_Inr\<close>)

subsection \<open>Reaching a project\<close>

text \<open>The contract, read off the documentation of the store: an active direct or team grant of a
  member, and nothing else.\<close>

definition team_holds :: "org_state \<Rightarrow> iam_principal \<Rightarrow> grantee \<Rightarrow> bool" where
  "team_holds s actor who \<longleftrightarrow>
     (\<exists>t \<in> set (os_teams s). who = TeamOf (te_id (tr_team t)) \<and> actor \<in> set (tr_members t))"

definition leaves :: "grant_window \<Rightarrow> project_role \<Rightarrow> int \<Rightarrow> project_role \<Rightarrow> bool" where
  "leaves w held now role \<longleftrightarrow>
     gw_valid_from w \<le> now \<and> is_none_or (\<lambda>ends. now < ends) (gw_read_until w)
     \<and> (role \<le> Viewer \<or> role \<le> held \<and> is_none_or (\<lambda>ends. now < ends) (gw_edit_until w))"

definition may_reach :: "org_state \<Rightarrow> iam_principal \<Rightarrow> project_scope \<Rightarrow> int \<Rightarrow> project_role \<Rightarrow> bool" where
  "may_reach s actor scope now role \<longleftrightarrow>
     (\<exists>m \<in> set (os_members s). mb_principal m = actor)
     \<and> (\<exists>p \<in> set (os_projects s). pr_scope p = scope)
     \<and> (\<exists>g \<in> set (os_grants s). gr_scope g = scope
          \<and> (gr_grantee g = User actor \<or> team_holds s actor (gr_grantee g))
          \<and> leaves (gr_window g) (gr_role g) now role)"

lemma leaves_iff: "leaves w held now role \<longleftrightarrow> (\<exists>r. role_at w held now = Some r \<and> role \<le> r)"
  by (cases "gw_edit_until w"; cases "gw_read_until w")
    (auto simp: leaves_def role_at_def dest: order_trans)

lemma grant_reaches_iff:
  "grant_reaches s actor scope g \<longleftrightarrow>
     gr_scope g = scope \<and> (gr_grantee g = User actor \<or> team_holds s actor (gr_grantee g))"
  by (cases "gr_grantee g") (auto simp: grant_reaches_def team_holds_def actor_teams_def)

lemma live_grants_roles:
  "(\<exists>r \<in> set (map eg_role (live_grants s scope actor now)). role \<le> r) \<longleftrightarrow>
     (\<exists>g \<in> set (os_grants s). grant_reaches s actor scope g \<and> leaves (gr_window g) (gr_role g) now role)"
  by (fastforce simp: live_grants_def effective_def leaves_iff List.map_filter_def)

text \<open>C5: The access decision is that contract: a role is granted exactly where a live grant to the
  member or to a team the member is in leaves at least that role, so membership alone, an owner's
  included, reaches no project.\<close>

theorem access_is_a_live_grant:
  assumes "org_validate s = Inr ()"
  shows "(\<exists>acc. org_access s scope actor now = Inr acc \<and> role \<le> pa_role acc) \<longleftrightarrow>
    may_reach s actor scope now role"
proof -
  have member: "(\<exists>q. member_role s actor = Inr q) \<longleftrightarrow> (\<exists>m \<in> set (os_members s). mb_principal m = actor)"
    using valid_member_validates [OF assms] role_of_None_iff [of s actor] by (cases "role_of s actor") auto
  have project: "(\<exists>p. List.find (\<lambda>p. pr_scope p = scope) (os_projects s) = Some p) \<longleftrightarrow>
      (\<exists>p \<in> set (os_projects s). pr_scope p = scope)"
    by (rule find_map_Some)
  have best: "(\<exists>r. max_role (map eg_role (live_grants s scope actor now)) = Some r \<and> role \<le> r) \<longleftrightarrow>
      (\<exists>r \<in> set (map eg_role (live_grants s scope actor now)). role \<le> r)"
    using max_role_Some_ge [of "map eg_role (live_grants s scope actor now)"]
      max_role_None_iff [of "map eg_role (live_grants s scope actor now)"]
    by (cases "max_role (map eg_role (live_grants s scope actor now))") auto
  have "(\<exists>acc. org_access s scope actor now = Inr acc \<and> role \<le> pa_role acc) \<longleftrightarrow>
      (\<exists>q. member_role s actor = Inr q)
      \<and> (\<exists>p. List.find (\<lambda>p. pr_scope p = scope) (os_projects s) = Some p)
      \<and> (\<exists>r. max_role (map eg_role (live_grants s scope actor now)) = Some r \<and> role \<le> r)"
    by (auto simp: org_access_def)
  then show ?thesis
    unfolding member project best live_grants_roles grant_reaches_iff may_reach_def by blast
qed

text \<open>What access depends on.\<close>

lemma access_cong:
  assumes "is_ok (member_role s' actor) \<longleftrightarrow> is_ok (member_role s actor)" and "os_projects s' = os_projects s"
    and "filter (grant_reaches s' actor scope) (os_grants s') = filter (grant_reaches s actor scope) (os_grants s)"
    and "principal_validate actor = Inr ()"
  shows "org_access s' scope actor now = org_access s scope actor now"
proof -
  have "live_grants s' scope actor now = live_grants s scope actor now"
    using assms(3) by (simp add: live_grants_def)
  with assms show ?thesis
    by (cases "role_of s' actor"; cases "role_of s actor")
      (simp_all add: org_access_def member_role_eq)
qed

subsection \<open>Removal and demotion\<close>

lemma team_holds_cong:
  assumes "\<And>t. te_id (tr_team (f t)) = te_id (tr_team t)"
    and "\<And>t. actor \<in> set (tr_members (f t)) \<longleftrightarrow> actor \<in> set (tr_members t)"
  shows "grant_reaches (s\<lparr>os_teams := map f (os_teams s)\<rparr>) actor scope g = grant_reaches s actor scope g"
  by (auto simp: grant_reaches_iff team_holds_def assms)

lemma removed_member:
  assumes "org_validate s = Inr ()" and "org_apply fresh s actor (RemoveMember p) now = Inr (s', change)"
  shows "role_of s' p = None"
    and "\<forall>t \<in> set (os_teams s'). p \<notin> set (tr_members t)"
    and "\<forall>g \<in> set (os_grants s'). gr_grantee g \<noteq> User p"
    and "org_access s' scope p later = Inl NotFound"
    and "q \<noteq> p \<Longrightarrow> principal_validate q = Inr () \<Longrightarrow> org_access s' scope q later = org_access s scope q later"
proof -
  from assms(2) obtain role where r: "remove_member s role p = Inr s'"
    by (auto simp: org_apply_def run_command_def applied_def)
  then have s': "s' = without_member s p" and known: "\<exists>q. role_of s p = Some q"
    by (auto simp: remove_member_def)
  show gone: "role_of s' p = None" using remove_member_roles(1) [OF r, of p] by simp
  show "\<forall>t \<in> set (os_teams s'). p \<notin> set (tr_members t)"
    "\<forall>g \<in> set (os_grants s'). gr_grantee g \<noteq> User p"
    by (auto simp: s' without_member_def)
  from known valid_member_validates [OF assms(1)] gone show "org_access s' scope p later = Inl NotFound"
    by (auto simp: org_access_def member_role_eq)
  assume q: "q \<noteq> p" "principal_validate q = Inr ()"
  have same: "grant_reaches s' q scope g = grant_reaches s q scope g" for g
    using team_holds_cong [where f = "\<lambda>t. t\<lparr>tr_members := filter (\<lambda>m. m \<noteq> p) (tr_members t)\<rparr>"
        and actor = q and s = s and scope = scope and g = g] q(1)
    by (simp add: grant_reaches_iff team_holds_def s' without_member_def)
  have "filter (grant_reaches s' q scope) (os_grants s') = filter (grant_reaches s q scope) (os_grants s)"
    using q(1) by (auto simp: s' without_member_def same [unfolded s' without_member_def]
        grant_reaches_iff team_holds_def intro!: filter_cong)
  then show "org_access s' scope q later = org_access s scope q later"
    using q remove_member_roles(1) [OF r, of q]
    by (intro access_cong) (simp_all add: member_role_eq, simp add: s' without_member_def)
qed

text \<open>A removed member is in no team, holds no grant and reaches nothing, at any time, while
  everybody else reaches exactly what they reached.\<close>

theorem removal_takes_everything_away:
  assumes "org_validate s = Inr ()" and "org_apply fresh s actor (RemoveMember p) now = Inr (s', change)"
  shows "role_of s' p = None
    \<and> (\<forall>t \<in> set (os_teams s'). p \<notin> set (tr_members t))
    \<and> (\<forall>g \<in> set (os_grants s'). gr_grantee g \<noteq> User p)
    \<and> (\<forall>scope later. org_access s' scope p later = Inl NotFound)
    \<and> (\<forall>q scope later. q \<noteq> p \<and> principal_validate q = Inr () \<longrightarrow>
           org_access s' scope q later = org_access s scope q later)"
  using removed_member [OF assms] by blast

text \<open>A change of standing changes nobody's access: an owner who turns a member into a guest leaves
  the new guest in every team, and what the teams were granted stays in reach, although a guest is
  said to be in no team.\<close>

theorem demotion_keeps_the_teams:
  assumes "org_validate s = Inr ()" and "org_apply fresh s actor (SetMember p wanted) now = Inr (s', change)"
    and "role_of s p = Some q"
  shows "role_of s' p = Some wanted \<and> os_teams s' = os_teams s
    \<and> org_access s' scope a later = org_access s scope a later"
proof -
  from assms(2) obtain role where r: "set_member s role p wanted = Inr s'"
    by (auto simp: org_apply_def run_command_def applied_def)
  then have s': "s' = s\<lparr>os_members := os_members s'\<rparr>"
    by (auto simp: set_member_def Let_def)
  have teams: "os_teams s' = os_teams s" "os_grants s' = os_grants s" "os_projects s' = os_projects s"
    by (subst s', simp)+
  have reach: "grant_reaches s' a scope = grant_reaches s a scope"
    by (rule ext) (simp add: grant_reaches_iff team_holds_def teams)
  have "(role_of s' a = None) = (role_of s a = None)"
    using set_member_roles(1) [OF r, of a] assms(3) by auto
  then have "org_access s' scope a later = org_access s scope a later"
    by (cases "principal_validate a"; cases "role_of s a"; cases "role_of s' a")
      (simp_all add: org_access_def member_role_eq live_grants_def reach teams)
  with set_member_roles(1) [OF r, of p] teams show ?thesis by simp
qed

subsection \<open>Offers\<close>

lemma find_marked:
  assumes "List.find (\<lambda>r. ir_token_sha256 r = token) rs = Some rec" and "rec \<in> set rs"
    and "distinct (map (iv_id \<circ> ir_invitation) rs)"
  shows "List.find (\<lambda>r. ir_token_sha256 r = token)
      (update_first (\<lambda>r. iv_id (ir_invitation r) = iv_id (ir_invitation rec)) (mark_redeemed x) rs)
    = Some (mark_redeemed x rec)"
proof -
  have key: "List.find (\<lambda>r. iv_id (ir_invitation r) = iv_id (ir_invitation rec)) rs = Some rec"
    using find_by_key [of "iv_id \<circ> ir_invitation" rs rec] assms(2,3) by simp
  show ?thesis
    by (subst find_update_first) (simp_all add: mark_redeemed_def assms(1) key)
qed

text \<open>Taking an offer up gives a stranger the standing and the grant the offer declared, changes
  nobody else's standing and never that of somebody already here; and it happens once, since the
  same token is refused to everybody from then on.\<close>

theorem offer_is_taken_once:
  assumes "org_validate s = Inr ()" and "org_redeem fresh s token redeemer now = Inr (s', out)"
  shows "(\<exists>rec. List.find (\<lambda>r. ir_token_sha256 r = token) (os_invitations s) = Some rec
      \<and> iv_redeemed (ir_invitation rec) = None \<and> now < iv_expires_at (ir_invitation rec)
      \<and> role_of s' redeemer = Some (case role_of s redeemer of
            None \<Rightarrow> iv_standing (ir_invitation rec) | Some held \<Rightarrow> held)
      \<and> (\<forall>p. p \<noteq> redeemer \<longrightarrow> role_of s' p = role_of s p)
      \<and> os_grants s' = os_grants s @ [\<lparr>gr_id = ro_grant out, gr_scope = iv_scope (ir_invitation rec),
            gr_grantee = User redeemer, gr_role = iv_role (ir_invitation rec),
            gr_window = iv_window (ir_invitation rec)\<rparr>])
    \<and> (\<forall>fresh' p later. principal_validate p = Inr () \<longrightarrow>
         org_redeem fresh' s' token p later = Inl AlreadyRedeemed)"
  using assms(2)
proof (cases rule: redeem_cases)
  case (1 rec project)
  have roles: "role_of s' p = (if p = redeemer then Some (case role_of s redeemer of
        None \<Rightarrow> iv_standing (ir_invitation rec) | Some held \<Rightarrow> held) else role_of s p)" for p
    using role_of_append [of s "\<lparr>mb_principal = redeemer, mb_role = iv_standing (ir_invitation rec)\<rparr>" p]
    by (auto simp: 1(6) admit_members [OF 1(1)] role_of_def split: option.splits)
  have "rec \<in> set (os_invitations s)" using find_Some_mem [OF 1(2)] by blast
  moreover have "distinct (map (iv_id \<circ> ir_invitation) (os_invitations s))"
    using assms(1) by (simp add: valid_iff parts_ok_def)
  ultimately have "List.find (\<lambda>r. ir_token_sha256 r = token) (os_invitations s') =
      Some (mark_redeemed \<lparr>rd_principal = redeemer, rd_at = now, rd_grant = fr_grant fresh\<rparr> rec)"
    by (simp add: 1(6) find_marked [OF 1(2)])
  then have "open_offer s' token later = Inl AlreadyRedeemed" for later
    by (simp add: open_offer_def mark_redeemed_def)
  then have "org_redeem fresh' s' token p later = Inl AlreadyRedeemed"
    if "principal_validate p = Inr ()" for fresh' p later
    using that by (simp add: org_redeem_def)
  moreover have "os_grants s' = os_grants s @ [\<lparr>gr_id = ro_grant out, gr_scope = iv_scope (ir_invitation rec),
            gr_grantee = User redeemer, gr_role = iv_role (ir_invitation rec),
            gr_window = iv_window (ir_invitation rec)\<rparr>]"
    by (simp add: 1(6) 1(7))
  ultimately show ?thesis using 1(2-4) roles by auto
qed

text \<open>C24: An offer's standing is nobody's to check: whoever may administer one project, a guest of the
  organization included, can issue an offer that makes a stranger an owner of all of it.\<close>

theorem offer_makes_an_owner:
  assumes "manage_project s actor project now = Inr scope"
    and "window_validate window = Inr ()" and "now < expiry" and "later < expiry"
    and "length token = 64" and "list_all is_hex_digit token" and "\<not> holds_invitation s token"
    and "principal_validate stranger = Inr ()" and "role_of s stranger = None"
  shows "\<exists>s1 i s2 out.
    org_invite fresh s actor project
      \<lparr>io_role = Viewer, io_window = window, io_expires_at = expiry, io_label = None, io_standing = Owner\<rparr>
      token now = Inr (s1, i)
    \<and> org_redeem fresh' s1 token stranger later = Inr (s2, out)
    \<and> role_of s2 stranger = Some Owner"
proof -
  let ?offer = "\<lparr>io_role = Viewer, io_window = window, io_expires_at = expiry, io_label = None, io_standing = Owner\<rparr>"
  obtain s1 i where inv: "org_invite fresh s actor project ?offer token now = Inr (s1, i)"
    using assms(1-3,5,6) by (simp add: org_invite_def checked_label_def Let_def)
  then have s1: "s1 = s\<lparr>os_invitations := os_invitations (forget_spent_invitations s now) @
        [\<lparr>ir_invitation = i, ir_token_sha256 = token\<rparr>]\<rparr>"
    and i: "iv_scope i = scope" "iv_standing i = Owner" "iv_redeemed i = None" "iv_expires_at i = expiry"
    using assms(1) by (auto simp: org_invite_def checked_label_def Let_def forget_spent_invitations_def)
  have "List.find (\<lambda>r. ir_token_sha256 r = token) (os_invitations s1) = Some \<lparr>ir_invitation = i, ir_token_sha256 = token\<rparr>"
  proof -
    have "List.find (\<lambda>r. ir_token_sha256 r = token) (os_invitations (forget_spent_invitations s now)) = None"
      using assms(7) by (auto simp: find_None_iff' forget_spent_invitations_def holds_invitation_def list_ex_iff)
    then show ?thesis by (simp add: s1 find_append')
  qed
  moreover obtain p where "List.find (\<lambda>p. pr_scope p = scope) (os_projects s) = Some p"
    using manage_project_scope [OF assms(1)] find_map_Some by (metis list_ex_iff)
  moreover have "os_projects s1 = os_projects s" by (simp add: s1)
  ultimately have "open_offer s1 token later = Inr (i, p)"
    using assms(4) i by (simp add: open_offer_def)
  then obtain s2 out where red: "org_redeem fresh' s1 token stranger later = Inr (s2, out)"
    and s2: "os_members s2 = admit s1 stranger Owner"
    using assms(8) i by (simp add: org_redeem_def Let_def)
  have "role_of s1 stranger = None" using assms(9) by (simp add: s1 role_of_def)
  then have "os_members s2 = os_members s1 @ [\<lparr>mb_principal = stranger, mb_role = Owner\<rparr>]"
    by (simp add: s2 admit_members [OF assms(8)])
  then have "role_of s2 stranger = Some Owner"
    using \<open>role_of s1 stranger = None\<close> by (simp add: role_of_def find_append')
  with inv red show ?thesis by blast
qed

end
