(* ===== verification/Iam_Store.thy ===== *)
theory Iam_Store
  imports Iam_Props
begin

text \<open>
  The store of the control plane, from \<open>memory.rs\<close> and \<open>retention.rs\<close>: every organization with its
  audit trail under one lock, so that each operation is one step. A change is made on a copy,
  checked as a document, and committed together with its audit entry; a sweep removes old entries
  and leaves a watermark. Parameters: the serialized size of a document, the digest of a token
  (SHA-256 in hexadecimal, from the crates \<open>sha2\<close> and \<open>hex\<close>), the minted ids and token, and the
  reading of the clock, which may go backwards.
\<close>

subsection \<open>Retention\<close>

definition DAY_SECONDS :: int where
  "DAY_SECONDS = 86400"

definition MAX_TTL_DAYS :: nat where
  "MAX_TTL_DAYS = 36500"

record audit_retention =
  re_ttl_days :: nat
  re_policy_id :: string

definition retention_new :: "nat \<Rightarrow> string \<Rightarrow> iam_error + audit_retention" where
  "retention_new ttl_days policy_id =
     (if ttl_days = 0
      then Inl (Invalid ''an audit retention of zero days would empty the trail; leave it unset to keep every entry'')
      else if MAX_TTL_DAYS < ttl_days
      then Inl (Invalid (''an audit retention of '' @ show_nat ttl_days @ '' days is past the '' @
             show_nat MAX_TTL_DAYS @ ''-day ceiling''))
      else Inr \<lparr>re_ttl_days = ttl_days, re_policy_id = policy_id\<rparr>)"

text \<open>Saturating arithmetic on \<open>i64\<close>.\<close>

definition sat64 :: "int \<Rightarrow> int" where
  "sat64 x = max (- (2 ^ 63)) (min (2 ^ 63 - 1) x)"

definition cutoff :: "audit_retention \<Rightarrow> int \<Rightarrow> int" where
  "cutoff r now = sat64 (now - sat64 (int (re_ttl_days r) * DAY_SECONDS))"

record audit_watermark =
  wm_organization :: organization_id
  wm_pruned_through_sequence :: int
  wm_pruned_before :: int
  wm_policy_id :: string
  wm_ttl_days :: nat
  wm_pruned_at :: int
  wm_removed_total :: int

record audit_bounds =
  ab_organization :: organization_id
  ab_first_sequence :: "int option"
  ab_last_sequence :: "int option"
  ab_entries :: int
  ab_watermark :: "audit_watermark option"

record prune_report =
  rp_organizations :: nat
  rp_removed :: int
  rp_cutoff :: int

subsection \<open>The store\<close>

record audited_organization =
  ao_state :: org_state
  ao_audit :: "audit_entry list"
  ao_watermark :: "audit_watermark option"

type_synonym iam_store = "(organization_id, audited_organization) btree"

definition last_sequence :: "audited_organization \<Rightarrow> int option" where
  "last_sequence stored =
     (if ao_audit stored = [] then None else Some (ae_sequence (last (ao_audit stored))))"

definition next_sequence :: "audited_organization \<Rightarrow> int" where
  "next_sequence stored =
     (case last_sequence stored of
        Some sequence \<Rightarrow> sequence
      | None \<Rightarrow> (case ao_watermark stored of Some w \<Rightarrow> wm_pruned_through_sequence w | None \<Rightarrow> 0)) + 1"

definition push_audit ::
  "audited_organization \<Rightarrow> organization_id \<Rightarrow> iam_principal \<Rightarrow> int \<Rightarrow> audit_action \<Rightarrow> audited_organization" where
  "push_audit stored organization actor occurred_at action =
     stored\<lparr>ao_audit := ao_audit stored @
       [\<lparr>ae_sequence = next_sequence stored, ae_organization = organization, ae_actor = actor,
         ae_occurred_at = occurred_at, ae_action = action\<rparr>]\<rparr>"

definition find_organization :: "iam_store \<Rightarrow> organization_id \<Rightarrow> iam_error + audited_organization" where
  "find_organization st organization = ok_or NotFound (bt_get st organization)"

subsection \<open>Operations that change it\<close>

definition create_organization ::
  "(org_state \<Rightarrow> int) \<Rightarrow> organization_id \<Rightarrow> iam_store \<Rightarrow> iam_principal \<Rightarrow> string \<Rightarrow> int \<Rightarrow>
   iam_error + (iam_store \<times> organization)" where
  "create_organization sz minted st owner name now =
     and_then (org_new minted owner name) (\<lambda>state.
     and_then (org_encode sz state) (\<lambda>_.
       let organization = os_organization state;
           entry = \<lparr>ae_sequence = 1, ae_organization = og_id organization, ae_actor = owner,
             ae_occurred_at = now, ae_action = OrganizationCreated organization\<rparr>
       in Inr (bt_insert (og_id organization)
                 \<lparr>ao_state = state, ao_audit = [entry], ao_watermark = None\<rparr> st, organization)))"

text \<open>What every committed change does: the copy replaces the document, the entry joins the trail.\<close>

definition commit_change ::
  "iam_store \<Rightarrow> organization_id \<Rightarrow> audited_organization \<Rightarrow> org_state \<Rightarrow> iam_principal \<Rightarrow> int \<Rightarrow>
   audit_action \<Rightarrow> iam_store" where
  "commit_change st organization stored changed actor now action =
     bt_insert organization
       ((push_audit stored organization actor now action)\<lparr>ao_state := changed\<rparr>) st"

definition iam_apply ::
  "(org_state \<Rightarrow> int) \<Rightarrow> iam_fresh \<Rightarrow> iam_store \<Rightarrow> organization_id \<Rightarrow> iam_principal \<Rightarrow> iam_command \<Rightarrow>
   int \<Rightarrow> iam_error + (iam_store \<times> iam_change)" where
  "iam_apply sz fresh st organization actor command now =
     and_then (find_organization st organization) (\<lambda>stored.
     and_then (org_apply fresh (ao_state stored) actor command now) (\<lambda>(changed, change).
     and_then (org_encode sz changed) (\<lambda>_.
       Inr (commit_change st organization stored changed actor now (CommandApplied command change),
            change))))"

definition iam_invite ::
  "(org_state \<Rightarrow> int) \<Rightarrow> (string \<Rightarrow> string) \<Rightarrow> iam_fresh \<Rightarrow> string \<Rightarrow> iam_store \<Rightarrow> project_scope \<Rightarrow>
   iam_principal \<Rightarrow> invitation_offer \<Rightarrow> int \<Rightarrow> iam_error + (iam_store \<times> issued_invitation)" where
  "iam_invite sz digest_of fresh token st scope actor offer now =
     and_then (find_organization st (sc_organization scope)) (\<lambda>stored.
     and_then (org_invite fresh (ao_state stored) actor (sc_project scope) offer (digest_of token) now)
       (\<lambda>(changed, invitation).
     and_then (org_encode sz changed) (\<lambda>_.
       Inr (commit_change st (sc_organization scope) stored changed actor now
              (InvitationCreated invitation),
            \<lparr>ii_invitation = invitation, ii_token = token\<rparr>))))"

definition iam_revoke_invitation ::
  "(org_state \<Rightarrow> int) \<Rightarrow> iam_store \<Rightarrow> organization_id \<Rightarrow> iam_principal \<Rightarrow> invitation_id \<Rightarrow> int \<Rightarrow>
   iam_error + (iam_store \<times> unit)" where
  "iam_revoke_invitation sz st organization actor invitation now =
     and_then (find_organization st organization) (\<lambda>stored.
     and_then (org_revoke_invitation (ao_state stored) actor invitation now) (\<lambda>changed.
     and_then (org_encode sz changed) (\<lambda>_.
       Inr (commit_change st organization stored changed actor now (InvitationRevoked invitation), ()))))"

definition holder_of :: "iam_store \<Rightarrow> string \<Rightarrow> (organization_id \<times> audited_organization) option" where
  "holder_of st token_sha256 = List.find (\<lambda>(_, stored). holds_invitation (ao_state stored) token_sha256) st"

definition iam_redeem ::
  "(org_state \<Rightarrow> int) \<Rightarrow> (string \<Rightarrow> string) \<Rightarrow> iam_fresh \<Rightarrow> iam_store \<Rightarrow> string \<Rightarrow> iam_principal \<Rightarrow> int \<Rightarrow>
   iam_error + (iam_store \<times> redeemed_offer)" where
  "iam_redeem sz digest_of fresh st token redeemer now =
     and_then (ok_or NotFound (holder_of st (digest_of token))) (\<lambda>(organization, _).
     and_then (find_organization st organization) (\<lambda>stored.
     and_then (org_redeem fresh (ao_state stored) (digest_of token) redeemer now) (\<lambda>(changed, redeemed).
     and_then (org_encode sz changed) (\<lambda>_.
     and_then (ok_or (BackendFailed ''a redemption produced no invitation'')
       (invitation_of changed (ro_grant redeemed))) (\<lambda>invitation.
       Inr (commit_change st organization stored changed redeemer now
              (InvitationRedeemed invitation (ro_grant redeemed)), redeemed))))))"

subsection \<open>The sweep\<close>

definition swept :: "int \<Rightarrow> int \<Rightarrow> audit_entry \<Rightarrow> bool" where
  "swept before newest entry \<longleftrightarrow> ae_occurred_at entry < before \<and> ae_sequence entry < newest"

fun max_sequence :: "int list \<Rightarrow> int option" where
  "max_sequence [] = None"
| "max_sequence (n # ns) = (case max_sequence ns of None \<Rightarrow> Some n | Some m \<Rightarrow> Some (max n m))"

definition removed_by :: "audit_retention \<Rightarrow> int \<Rightarrow> audited_organization \<Rightarrow> int list" where
  "removed_by retention now stored =
     (case last_sequence stored of
        None \<Rightarrow> []
      | Some newest \<Rightarrow> map ae_sequence (filter (swept (cutoff retention now) newest) (ao_audit stored)))"

definition prune_organization ::
  "audit_retention \<Rightarrow> int \<Rightarrow> organization_id \<Rightarrow> audited_organization \<Rightarrow> audited_organization" where
  "prune_organization retention now organization stored =
     (case last_sequence stored of
        None \<Rightarrow> stored
      | Some newest \<Rightarrow>
          (case max_sequence (removed_by retention now stored) of
             None \<Rightarrow> stored
           | Some through \<Rightarrow>
               stored\<lparr>
                 ao_audit := filter (\<lambda>e. cutoff retention now \<le> ae_occurred_at e \<or> newest \<le> ae_sequence e)
                   (ao_audit stored),
                 ao_watermark := Some \<lparr>wm_organization = organization,
                   wm_pruned_through_sequence = through,
                   wm_pruned_before = cutoff retention now,
                   wm_policy_id = re_policy_id retention, wm_ttl_days = re_ttl_days retention,
                   wm_pruned_at = now,
                   wm_removed_total =
                     (case ao_watermark stored of None \<Rightarrow> 0 | Some mark \<Rightarrow> wm_removed_total mark) +
                     int (length (removed_by retention now stored))\<rparr>\<rparr>))"

definition prune_audit :: "iam_store \<Rightarrow> audit_retention \<Rightarrow> int \<Rightarrow> iam_store \<times> prune_report" where
  "prune_audit st retention now =
     (map (\<lambda>(organization, stored). (organization, prune_organization retention now organization stored)) st,
      \<lparr>rp_organizations = length (filter (\<lambda>(_, stored). removed_by retention now stored \<noteq> []) st),
       rp_removed = (\<Sum>(_, stored) \<leftarrow> st. int (length (removed_by retention now stored))),
       rp_cutoff = cutoff retention now\<rparr>)"

subsection \<open>Reads\<close>

definition iam_audit ::
  "iam_store \<Rightarrow> organization_id \<Rightarrow> iam_principal \<Rightarrow> int \<Rightarrow> nat \<Rightarrow> iam_error + audit_entry list" where
  "iam_audit st organization actor after limit =
     and_then (audit_limit after limit) (\<lambda>_.
     and_then (find_organization st organization) (\<lambda>entry.
     and_then (authorize_audit (ao_state entry) actor) (\<lambda>_.
       Inr (take limit (filter (\<lambda>e. after < ae_sequence e) (ao_audit entry))))))"

definition iam_authorize_audit :: "iam_store \<Rightarrow> organization_id \<Rightarrow> iam_principal \<Rightarrow> iam_error + unit" where
  "iam_authorize_audit st organization actor =
     and_then (find_organization st organization) (\<lambda>stored. authorize_audit (ao_state stored) actor)"

definition iam_audit_bounds :: "iam_store \<Rightarrow> organization_id \<Rightarrow> iam_principal \<Rightarrow> iam_error + audit_bounds" where
  "iam_audit_bounds st organization actor =
     and_then (find_organization st organization) (\<lambda>stored.
     and_then (authorize_audit (ao_state stored) actor) (\<lambda>_.
       Inr \<lparr>ab_organization = organization,
            ab_first_sequence = (case ao_audit stored of [] \<Rightarrow> None | e # _ \<Rightarrow> Some (ae_sequence e)),
            ab_last_sequence = last_sequence stored,
            ab_entries = int (length (ao_audit stored)),
            ab_watermark = ao_watermark stored\<rparr>))"

definition iam_organizations :: "iam_store \<Rightarrow> iam_principal \<Rightarrow> iam_error + organization list" where
  "iam_organizations st actor =
     and_then (principal_validate actor) (\<lambda>_.
       Inr (map (\<lambda>entry. os_organization (ao_state entry))
         (filter (\<lambda>entry. is_ok (member_role (ao_state entry) actor)) (bt_values st))))"

definition iam_projects ::
  "iam_store \<Rightarrow> organization_id \<Rightarrow> iam_principal \<Rightarrow> int \<Rightarrow> iam_error + project_access list" where
  "iam_projects st organization actor now =
     and_then (find_organization st organization) (\<lambda>stored. org_projects (ao_state stored) actor now)"

definition iam_roster :: "iam_store \<Rightarrow> organization_id \<Rightarrow> iam_principal \<Rightarrow> iam_error + roster_view" where
  "iam_roster st organization actor =
     and_then (find_organization st organization) (\<lambda>stored. roster (ao_state stored) actor)"

definition iam_project_grants ::
  "iam_store \<Rightarrow> project_scope \<Rightarrow> iam_principal \<Rightarrow> int \<Rightarrow> iam_error + grant list" where
  "iam_project_grants st scope actor now =
     and_then (find_organization st (sc_organization scope))
       (\<lambda>stored. project_grants (ao_state stored) scope actor now)"

definition iam_access ::
  "iam_store \<Rightarrow> project_scope \<Rightarrow> iam_principal \<Rightarrow> int \<Rightarrow> iam_error + project_access" where
  "iam_access st scope actor now =
     and_then (find_organization st (sc_organization scope))
       (\<lambda>stored. org_access (ao_state stored) scope actor now)"

definition iam_invitations ::
  "iam_store \<Rightarrow> organization_id \<Rightarrow> iam_principal \<Rightarrow> int \<Rightarrow> iam_error + invitation list" where
  "iam_invitations st organization actor now =
     and_then (find_organization st organization) (\<lambda>stored. org_invitations (ao_state stored) actor now)"

definition iam_offered ::
  "(string \<Rightarrow> string) \<Rightarrow> iam_store \<Rightarrow> string \<Rightarrow> int \<Rightarrow> iam_error + offered_terms" where
  "iam_offered digest_of st token now =
     and_then (ok_or NotFound (holder_of st (digest_of token))) (\<lambda>(_, stored).
       org_offered (ao_state stored) (digest_of token) now)"

subsection \<open>Steps\<close>

text \<open>Everything that changes the store. A new organization's id is one the store does not hold,
  which is what \<open>Uuid::now_v7\<close> promises; no freshness is asked of the other ids.\<close>

inductive iam_step :: "(org_state \<Rightarrow> int) \<Rightarrow> (string \<Rightarrow> string) \<Rightarrow> iam_store \<Rightarrow> iam_store \<Rightarrow> bool"
  for sz digest_of where
  created: "iam_step sz digest_of st st'"
    if "create_organization sz minted st owner name now = Inr (st', organization)"
    and "bt_get st minted = None"
| applied: "iam_step sz digest_of st st'"
    if "iam_apply sz fresh st organization actor command now = Inr (st', change)"
| invited: "iam_step sz digest_of st st'"
    if "iam_invite sz digest_of fresh token st scope actor offer now = Inr (st', issued)"
| revoked: "iam_step sz digest_of st st'"
    if "iam_revoke_invitation sz st organization actor invitation now = Inr (st', u)"
| redeemed: "iam_step sz digest_of st st'"
    if "iam_redeem sz digest_of fresh st token redeemer now = Inr (st', out)"
| pruned: "iam_step sz digest_of st st'"
    if "prune_audit st retention now = (st', report)"

inductive iam_steps :: "(org_state \<Rightarrow> int) \<Rightarrow> (string \<Rightarrow> string) \<Rightarrow> iam_store \<Rightarrow> iam_store \<Rightarrow> bool"
  for sz digest_of st where
  stay: "iam_steps sz digest_of st st"
| more: "iam_steps sz digest_of st st''"
    if "iam_steps sz digest_of st st'" and "iam_step sz digest_of st' st''"

end
