(* ===== verification/Iam_Trail.thy ===== *)
theory Iam_Trail
  imports Iam_Store
begin

text \<open>
  What the store promises over any sequence of operations and sweeps: every stored document is
  valid and stands under its own id, every number the trail ever issued is either still readable or
  counted as removed, no number is issued twice, and nothing changes off the trail. The last theorems
  are about the removal the store refuses for good, and about a sweep on a clock that stepped back.
\<close>

subsection \<open>One organization is one document\<close>

lemma policy_keeps_organization:
  "org_apply fresh s actor command now = Inr (s', change) \<Longrightarrow> os_organization s' = os_organization s"
  "org_invite fresh s actor project offer token now = Inr (s', i) \<Longrightarrow> os_organization s' = os_organization s"
  "org_revoke_invitation s actor invitation now = Inr s' \<Longrightarrow> os_organization s' = os_organization s"
  "org_redeem fresh s token redeemer now = Inr (s', out) \<Longrightarrow> os_organization s' = os_organization s"
proof -
  assume "org_apply fresh s actor command now = Inr (s', change)"
  then obtain role where "run_command fresh s role actor command now = Inr (s', change)"
    by (auto simp: org_apply_def)
  then show "os_organization s' = os_organization s"
    by (cases command) (auto simp: run_command_def applied_def set_member_def remove_member_def
        without_member_def create_team_def delete_team_def set_team_member_def create_project_def
        grant_on_def revoke_grant_def Let_def split: if_splits)
next
  assume "org_redeem fresh s token redeemer now = Inr (s', out)"
  then show "os_organization s' = os_organization s" by (cases rule: redeem_cases) simp
qed (auto simp: org_invite_def org_revoke_invitation_def forget_spent_invitations_def Let_def)

lemma encode_valid: "org_encode sz s = Inr u \<Longrightarrow> org_validate s = Inr ()"
  by (auto simp: org_encode_def)

subsection \<open>The three kinds of step\<close>

definition committed :: "iam_store \<Rightarrow> iam_store \<Rightarrow> organization_id \<Rightarrow> audited_organization \<Rightarrow>
  org_state \<Rightarrow> iam_principal \<Rightarrow> int \<Rightarrow> audit_action \<Rightarrow> bool" where
  "committed st st' organization stored changed actor now action \<longleftrightarrow>
     bt_get st organization = Some stored \<and> org_validate changed = Inr ()
     \<and> os_organization changed = os_organization (ao_state stored)
     \<and> st' = commit_change st organization stored changed actor now action"

lemma iam_step_kinds:
  assumes "iam_step sz digest_of st st'"
  obtains (created) minted state owner now where
      "bt_get st minted = None" "org_validate state = Inr ()" "og_id (os_organization state) = minted"
      "st' = bt_insert minted \<lparr>ao_state = state, ao_audit = [\<lparr>ae_sequence = 1, ae_organization = minted,
          ae_actor = owner, ae_occurred_at = now,
          ae_action = OrganizationCreated (os_organization state)\<rparr>], ao_watermark = None\<rparr> st"
    | (committed) organization stored changed actor now action where
      "committed st st' organization stored changed actor now action"
    | (pruned) retention now where "st' = fst (prune_audit st retention now)"
  using assms
proof (cases rule: iam_step.cases)
  case (created minted owner name now organization)
  then obtain state where "org_new minted owner name = Inr state" "org_encode sz state = Inr ()"
    "st' = bt_insert (og_id (os_organization state)) \<lparr>ao_state = state, ao_audit =
      [\<lparr>ae_sequence = 1, ae_organization = og_id (os_organization state), ae_actor = owner,
        ae_occurred_at = now, ae_action = OrganizationCreated (os_organization state)\<rparr>],
      ao_watermark = None\<rparr> st"
    by (auto simp: create_organization_def Let_def)
  moreover from this(1) have "og_id (os_organization state) = minted" by (auto simp: org_new_def)
  ultimately show ?thesis using created(2) that(1) encode_valid by blast
next
  case (applied fresh organization actor command now change)
  then obtain stored changed where "bt_get st organization = Some stored"
    "org_apply fresh (ao_state stored) actor command now = Inr (changed, change)" "org_encode sz changed = Inr ()"
    "st' = commit_change st organization stored changed actor now
      (CommandApplied command change)"
    by (auto simp: iam_apply_def find_organization_def)
  then have "committed st st' organization stored changed actor now (CommandApplied command change)"
    using encode_valid policy_keeps_organization(1) by (auto simp: committed_def)
  then show ?thesis by (rule that(2))
next
  case (invited fresh token scope actor offer now issued)
  then obtain stored changed i where "bt_get st (sc_organization scope) = Some stored"
    "org_invite fresh (ao_state stored) actor (sc_project scope) offer (digest_of token) now = Inr (changed, i)" "org_encode sz changed = Inr ()"
    "st' = commit_change st (sc_organization scope) stored changed actor now
      (InvitationCreated i)"
    by (auto simp: iam_invite_def find_organization_def)
  then have "committed st st' (sc_organization scope) stored changed actor now (InvitationCreated i)"
    using encode_valid policy_keeps_organization(2) by (auto simp: committed_def)
  then show ?thesis by (rule that(2))
next
  case (revoked organization actor invitation now u)
  then obtain stored changed where "bt_get st organization = Some stored"
    "org_revoke_invitation (ao_state stored) actor invitation now = Inr changed" "org_encode sz changed = Inr ()"
    "st' = commit_change st organization stored changed actor now
      (InvitationRevoked invitation)"
    by (auto simp: iam_revoke_invitation_def find_organization_def)
  then have "committed st st' organization stored changed actor now (InvitationRevoked invitation)"
    using encode_valid policy_keeps_organization(3) by (auto simp: committed_def)
  then show ?thesis by (rule that(2))
next
  case (redeemed fresh token redeemer now out)
  then obtain stored changed i organization where "bt_get st organization = Some stored"
    "org_redeem fresh (ao_state stored) (digest_of token) redeemer now = Inr (changed, out)" "org_encode sz changed = Inr ()"
    "st' = commit_change st organization stored changed redeemer now
      (InvitationRedeemed i (ro_grant out))"
    by (auto simp: iam_redeem_def find_organization_def)
  then have "committed st st' organization stored changed redeemer now (InvitationRedeemed i (ro_grant out))"
    using encode_valid policy_keeps_organization(4) by (auto simp: committed_def)
  then show ?thesis by (rule that(2))
next
  case (pruned retention now report)
  then show ?thesis using that(3) by (metis fst_conv)
qed

subsection \<open>Sweeps\<close>

lemma prune_get:
  "bt_get (fst (prune_audit st retention now)) organization =
     map_option (prune_organization retention now organization) (bt_get st organization)"
  by (induction st) (auto simp: prune_audit_def)

lemma pruned_map_ok: "bt_ok st \<Longrightarrow> bt_ok (fst (prune_audit st retention now))"
proof -
  have "map fst (fst (prune_audit st retention now)) = map fst st"
    by (induction st) (auto simp: prune_audit_def)
  then show "bt_ok st \<Longrightarrow> bt_ok (fst (prune_audit st retention now))" by (simp add: bt_ok_def)
qed

lemma max_sequence_None [simp]: "max_sequence ns = None \<longleftrightarrow> ns = []"
  by (cases ns) (auto split: option.splits)

lemma max_sequence_Some: "max_sequence ns = Some m \<Longrightarrow> m \<in> set ns \<and> (\<forall>n \<in> set ns. n \<le> m)"
proof (induction ns arbitrary: m)
  case (Cons n ns)
  then show ?case by (cases "max_sequence ns") (fastforce simp: max_def split: if_splits)+
qed simp

lemma last_filter: "xs \<noteq> [] \<Longrightarrow> P (last xs) \<Longrightarrow> filter P xs \<noteq> [] \<and> last (filter P xs) = last xs"
  by (induction xs rule: rev_induct) auto

definition kept :: "audit_retention \<Rightarrow> int \<Rightarrow> audited_organization \<Rightarrow> audit_entry \<Rightarrow> bool" where
  "kept retention now stored e \<longleftrightarrow>
     cutoff retention now \<le> ae_occurred_at e \<or> ae_sequence (last (ao_audit stored)) \<le> ae_sequence e"

lemma prune_cases:
  assumes "ao_audit stored \<noteq> []"
  obtains (nothing) "prune_organization retention now organization stored = stored"
      "filter (kept retention now stored) (ao_audit stored) = ao_audit stored"
    | (some) w gone where
      "prune_organization retention now organization stored =
         stored\<lparr>ao_audit := filter (kept retention now stored) (ao_audit stored), ao_watermark := Some w\<rparr>"
      "gone = filter (\<lambda>e. \<not> kept retention now stored e) (ao_audit stored)" "gone \<noteq> []"
      "wm_pruned_through_sequence w \<in> ae_sequence ` set gone"
      "\<forall>e \<in> set gone. ae_sequence e \<le> wm_pruned_through_sequence w"
      "wm_removed_total w = (case ao_watermark stored of None \<Rightarrow> 0 | Some mark \<Rightarrow> wm_removed_total mark)
         + int (length gone)"
proof -
  let ?newest = "ae_sequence (last (ao_audit stored))"
  let ?gone = "filter (\<lambda>e. \<not> kept retention now stored e) (ao_audit stored)"
  have newest: "last_sequence stored = Some ?newest" using assms by (simp add: last_sequence_def)
  have sw: "swept (cutoff retention now) ?newest = (\<lambda>e. \<not> kept retention now stored e)"
    by (rule ext) (auto simp: swept_def kept_def)
  have removed: "removed_by retention now stored = map ae_sequence ?gone"
    by (simp add: removed_by_def newest sw)
  show ?thesis
  proof (cases "max_sequence (map ae_sequence ?gone)")
    case None
    then have "?gone = []" by simp
    then have "filter (kept retention now stored) (ao_audit stored) = ao_audit stored"
      by (simp add: filter_empty_conv filter_id_conv)
    moreover have "prune_organization retention now organization stored = stored"
      using None by (simp add: prune_organization_def newest removed)
    ultimately show ?thesis by (rule that(1) [rotated])
  next
    case (Some through)
    have kd: "(\<lambda>e. cutoff retention now \<le> ae_occurred_at e \<or> ?newest \<le> ae_sequence e) = kept retention now stored"
      by (rule ext) (simp add: kept_def)
    from Some have ne: "?gone \<noteq> []" by (metis max_sequence_None option.distinct(1) list.map_disc_iff)
    from max_sequence_Some [OF Some] show ?thesis
      by (intro that(2) [OF _ HOL.refl ne])
        (auto simp: prune_organization_def newest removed Some kd)
  qed
qed

subsection \<open>What holds of every trail\<close>

definition removed_total :: "audited_organization \<Rightarrow> int" where
  "removed_total a = (case ao_watermark a of None \<Rightarrow> 0 | Some w \<Rightarrow> wm_removed_total w)"

definition trail_ok :: "organization_id \<Rightarrow> audited_organization \<Rightarrow> bool" where
  "trail_ok organization a \<longleftrightarrow>
     ao_audit a \<noteq> [] \<and> sorted_wrt (<) (map ae_sequence (ao_audit a))
     \<and> (\<forall>e \<in> set (ao_audit a). ae_organization e = organization \<and> 1 \<le> ae_sequence e)
     \<and> removed_total a + int (length (ao_audit a)) = ae_sequence (last (ao_audit a))"

definition organization_ok :: "organization_id \<Rightarrow> audited_organization \<Rightarrow> bool" where
  "organization_ok organization a \<longleftrightarrow>
     org_validate (ao_state a) = Inr () \<and> og_id (os_organization (ao_state a)) = organization
     \<and> trail_ok organization a"

lemma sorted_last_max:
  "sorted_wrt (<) (map f xs) \<Longrightarrow> e \<in> set xs \<Longrightarrow> f e \<le> (f (last xs) :: int)"
  by (induction xs rule: rev_induct) (auto simp: sorted_wrt_append)

lemma push_trail_ok:
  assumes "trail_ok organization stored"
  shows "trail_ok organization (push_audit stored organization actor now action\<lparr>ao_state := changed\<rparr>)"
    and "next_sequence stored = ae_sequence (last (ao_audit stored)) + 1"
proof -
  from assms have ne: "ao_audit stored \<noteq> []"
    and srt: "sorted_wrt (<) (map ae_sequence (ao_audit stored))" by (auto simp: trail_ok_def)
  then show nxt: "next_sequence stored = ae_sequence (last (ao_audit stored)) + 1"
    by (simp add: next_sequence_def last_sequence_def)
  have above: "ae_sequence e < next_sequence stored" if "e \<in> set (ao_audit stored)" for e
    using sorted_last_max [OF srt that] nxt by simp
  have "1 \<le> ae_sequence (last (ao_audit stored))" using assms ne by (simp add: trail_ok_def)
  then have "0 \<le> ae_sequence (last (ao_audit stored))" by simp
  with assms above nxt
  show "trail_ok organization (push_audit stored organization actor now action\<lparr>ao_state := changed\<rparr>)"
    by (auto simp: trail_ok_def push_audit_def sorted_wrt_append removed_total_def)
qed

lemma prune_trail_ok:
  assumes "trail_ok organization stored"
  shows "trail_ok organization (prune_organization retention now organization stored)"
    and "last (ao_audit (prune_organization retention now organization stored)) = last (ao_audit stored)"
    and "set (ao_audit (prune_organization retention now organization stored)) \<subseteq> set (ao_audit stored)"
    and "ao_state (prune_organization retention now organization stored) = ao_state stored"
proof -
  from assms have ne: "ao_audit stored \<noteq> []" by (simp add: trail_ok_def)
  have newest: "kept retention now stored (last (ao_audit stored))" by (simp add: kept_def)
  note lst = last_filter [where P = "kept retention now stored", OF ne newest]
  have "trail_ok organization (prune_organization retention now organization stored)
    \<and> last (ao_audit (prune_organization retention now organization stored)) = last (ao_audit stored)
    \<and> set (ao_audit (prune_organization retention now organization stored)) \<subseteq> set (ao_audit stored)
    \<and> ao_state (prune_organization retention now organization stored) = ao_state stored"
    using ne
  proof (cases rule: prune_cases [where retention = retention and now = now and organization = organization])
    case nothing
    with assms show ?thesis by simp
  next
    case (some w gone)
    have "length (filter (kept retention now stored) (ao_audit stored)) + length gone = length (ao_audit stored)"
      unfolding some(2) by (rule sum_length_filter_compl)
    with some(6) assms lst have
      "wm_removed_total w + int (length (filter (kept retention now stored) (ao_audit stored)))
        = ae_sequence (last (filter (kept retention now stored) (ao_audit stored)))"
      by (simp add: trail_ok_def removed_total_def)
    with some(1) assms lst show ?thesis
      by (auto simp: trail_ok_def removed_total_def sorted_wrt_map intro: sorted_wrt_filter)
  qed
  then show "trail_ok organization (prune_organization retention now organization stored)"
    and "last (ao_audit (prune_organization retention now organization stored)) = last (ao_audit stored)"
    and "set (ao_audit (prune_organization retention now organization stored)) \<subseteq> set (ao_audit stored)"
    and "ao_state (prune_organization retention now organization stored) = ao_state stored" by auto
qed

subsection \<open>Every reachable store\<close>

definition store_fine :: "iam_store \<Rightarrow> bool" where
  "store_fine st \<longleftrightarrow>
     bt_ok st \<and> (\<forall>organization a. bt_get st organization = Some a \<longrightarrow> organization_ok organization a)"

lemma step_keeps_fine:
  assumes "iam_step sz digest_of st st'" and "store_fine st"
  shows "store_fine st'"
  using assms(1)
proof (cases rule: iam_step_kinds)
  case (created minted state owner now)
  then have "organization_ok minted \<lparr>ao_state = state, ao_audit = [\<lparr>ae_sequence = 1,
      ae_organization = minted, ae_actor = owner, ae_occurred_at = now,
      ae_action = OrganizationCreated (os_organization state)\<rparr>], ao_watermark = None\<rparr>"
    by (simp add: organization_ok_def trail_ok_def removed_total_def)
  with assms(2) created show ?thesis by (auto simp: store_fine_def)
next
  case (committed organization stored changed actor now action)
  then have "organization_ok organization stored" using assms(2) by (auto simp: store_fine_def committed_def)
  then have "organization_ok organization
      ((push_audit stored organization actor now action)\<lparr>ao_state := changed\<rparr>)"
    using committed push_trail_ok(1) by (auto simp: organization_ok_def committed_def)
  with assms(2) committed show ?thesis
    by (auto simp: store_fine_def committed_def commit_change_def)
next
  case (pruned retention now)
  show ?thesis
    using assms(2) prune_trail_ok(1,4)
    by (auto simp: store_fine_def pruned prune_get pruned_map_ok organization_ok_def)
qed

lemma steps_keep_fine: "iam_steps sz digest_of st st' \<Longrightarrow> store_fine st \<Longrightarrow> store_fine st'"
  by (induction rule: iam_steps.induct) (auto intro: step_keeps_fine)

lemma reachable_fine: "iam_steps sz digest_of [] st \<Longrightarrow> store_fine st"
  by (erule steps_keep_fine) (simp add: store_fine_def)

text \<open>C23: Every number a trail ever issued is accounted for: the newest number is the count of the
  entries a reader still finds and of those the watermark says were removed, and what is found is in
  order, of this organization, beside a document that would be read back.\<close>

theorem trail_accounts_for_every_entry:
  assumes "iam_steps sz digest_of [] st" and "bt_get st organization = Some a"
  shows "org_validate (ao_state a) = Inr () \<and> og_id (os_organization (ao_state a)) = organization
    \<and> sorted_wrt (<) (map ae_sequence (ao_audit a))
    \<and> (\<forall>e \<in> set (ao_audit a). ae_organization e = organization)
    \<and> last_sequence a = Some (removed_total a + int (length (ao_audit a)))"
  using reachable_fine [OF assms(1)] assms(2)
  by (auto simp: store_fine_def organization_ok_def trail_ok_def last_sequence_def)

subsection \<open>Trails only grow\<close>

definition continues :: "audited_organization \<Rightarrow> audited_organization \<Rightarrow> bool" where
  "continues a a' \<longleftrightarrow>
     (\<forall>e \<in> set (ao_audit a'). e \<in> set (ao_audit a) \<or>
        ae_sequence (last (ao_audit a)) < ae_sequence e)
     \<and> ae_sequence (last (ao_audit a)) \<le> ae_sequence (last (ao_audit a'))"

lemma step_continues:
  assumes "iam_step sz digest_of st st'" and "store_fine st" and "bt_get st organization = Some a"
  shows "\<exists>a'. bt_get st' organization = Some a' \<and>
    (a' = a
     \<or> (\<exists>retention now. a' = prune_organization retention now organization a)
     \<or> (\<exists>e. ao_audit a' = ao_audit a @ [e] \<and> ao_watermark a' = ao_watermark a
            \<and> ae_sequence e = ae_sequence (last (ao_audit a)) + 1))"
  using assms(1)
proof (cases rule: iam_step_kinds)
  case (created minted state owner now)
  with assms(3) have "minted \<noteq> organization" by auto
  with created assms(3) show ?thesis by auto
next
  case (committed other stored changed actor now action)
  show ?thesis
  proof (cases "other = organization")
    case True
    with committed assms(3) have a: "stored = a" by (simp add: committed_def)
    have "trail_ok organization a" using assms(2,3) by (auto simp: store_fine_def organization_ok_def)
    from push_trail_ok(2) [OF this] committed a True show ?thesis
      by (auto simp: committed_def commit_change_def push_audit_def)
  next
    case False
    with committed assms(3) show ?thesis by (auto simp: committed_def commit_change_def)
  qed
next
  case (pruned retention now)
  with assms(3) show ?thesis by (auto simp: prune_get)
qed

lemma step_continues':
  assumes "iam_step sz digest_of st st'" and "store_fine st" and "bt_get st organization = Some a"
  obtains a' where "bt_get st' organization = Some a'" "continues a a'"
proof -
  have ok: "trail_ok organization a" using assms(2,3) by (auto simp: store_fine_def organization_ok_def)
  from step_continues [OF assms] obtain a' where a': "bt_get st' organization = Some a'" and
    kinds: "a' = a \<or> (\<exists>retention now. a' = prune_organization retention now organization a)
     \<or> (\<exists>e. ao_audit a' = ao_audit a @ [e] \<and> ao_watermark a' = ao_watermark a
            \<and> ae_sequence e = ae_sequence (last (ao_audit a)) + 1)" by blast
  from kinds have "continues a a'"
  proof (elim disjE exE conjE)
    fix retention now
    assume "a' = prune_organization retention now organization a"
    with prune_trail_ok(2,3) [OF ok, of retention now] show ?thesis by (auto simp: continues_def)
  qed (auto simp: continues_def)
  with a' show ?thesis by (rule that)
qed

lemma continues_trans:
  "continues a b \<Longrightarrow> continues b c \<Longrightarrow> continues a c"
  by (fastforce simp: continues_def)

text \<open>No number is issued twice, whatever is swept in between: an entry found later either was
  there already or carries a number above every one the trail had reached.\<close>

theorem numbers_are_issued_once:
  assumes "iam_steps sz digest_of [] st" and "iam_steps sz digest_of st st'"
    and "bt_get st organization = Some a"
  shows "\<exists>a'. bt_get st' organization = Some a' \<and>
    (\<forall>e \<in> set (ao_audit a'). e \<in> set (ao_audit a) \<or>
       (\<forall>old \<in> set (ao_audit a). ae_sequence old < ae_sequence e))"
proof -
  have fine: "store_fine st" by (rule reachable_fine) (rule assms(1))
  then have srt: "sorted_wrt (<) (map ae_sequence (ao_audit a))"
    using assms(3) by (auto simp: store_fine_def organization_ok_def trail_ok_def)
  have "\<exists>a'. bt_get st' organization = Some a' \<and> continues a a'"
    using assms(2)
  proof (induction rule: iam_steps.induct)
    case stay
    with assms(3) show ?case by (auto simp: continues_def)
  next
    case (more st' st'')
    then obtain b where b: "bt_get st' organization = Some b" "continues a b" by blast
    have "store_fine st'" using steps_keep_fine more.hyps(1) fine by blast
    from step_continues' [OF more.hyps(2) this b(1)] b(2) continues_trans show ?case by metis
  qed
  then obtain a' where a': "bt_get st' organization = Some a'" "continues a a'" by blast
  moreover have "ae_sequence old < ae_sequence e"
    if "old \<in> set (ao_audit a)" "ae_sequence (last (ao_audit a)) < ae_sequence e" for old e
    using sorted_last_max [OF srt that(1)] that(2) by simp
  ultimately show ?thesis unfolding continues_def by blast
qed

text \<open>Nothing changes off the trail: a step leaves a document as it was, or it puts one entry with
  the next number behind everything the trail held; and no step removes the newest entry.\<close>

theorem no_change_off_the_trail:
  assumes "iam_steps sz digest_of [] st" and "iam_step sz digest_of st st'"
    and "bt_get st organization = Some a"
  shows "\<exists>a'. bt_get st' organization = Some a' \<and>
    (ao_state a' = ao_state a \<and> last (ao_audit a) \<in> set (ao_audit a')
     \<or> (\<exists>e. ao_audit a' = ao_audit a @ [e] \<and> last_sequence a = Some (ae_sequence e - 1)))"
proof -
  have fine: "store_fine st" by (rule reachable_fine) (rule assms(1))
  then have ok: "trail_ok organization a" using assms(3) by (auto simp: store_fine_def organization_ok_def)
  then have ne: "ao_audit a \<noteq> []" by (simp add: trail_ok_def)
  have keeps: "last (ao_audit a) \<in> set (ao_audit (prune_organization retention now organization a))" for retention now
    using prune_trail_ok(1,2) [OF ok, of retention now] last_in_set
    by (metis trail_ok_def)
  from step_continues [OF assms(2) fine assms(3)] ne keeps prune_trail_ok(4) [OF ok] show ?thesis
    by (auto simp: last_sequence_def)
qed

subsection \<open>A removal that never succeeds\<close>

lemma each_Inl: "each check xs = Inl err \<Longrightarrow> \<exists>x \<in> set xs. check x = Inl err"
  by (induction xs) (auto simp: and_then_Inl_iff)

lemma validate_by_invitations:
  assumes "parts_ok s" and "members_ok (os_members s)" and "\<forall>t \<in> set (os_teams s). team_ok s t"
    and "\<forall>g \<in> set (os_grants s). grant_ok s g"
  shows "org_validate s = each (check_invitation s) (os_invitations s)"
proof -
  have "check_members s = Inr ()" "each (check_team s) (os_teams s) = Inr ()"
    "each (check_grant s) (os_grants s) = Inr ()"
    using assms by (simp_all add: check_members_iff check_team_iff check_grant_iff)
  moreover have "check_ids s = Inr ()" "each (check_project s) (os_projects s) = Inr ()"
    using assms(1) by (auto simp: check_ids_def check_project_def parts_ok_def named_def)
  moreover have "\<exists>n. checked_name (og_name (os_organization s)) = Inr n"
    using assms(1) by (simp add: parts_ok_def named_def)
  moreover have "os_schema_version s = IAM_SCHEMA_VERSION" "distinct (map (iv_id \<circ> ir_invitation) (os_invitations s))"
    using assms(1) by (auto simp: parts_ok_def)
  ultimately show ?thesis
    by (cases "each (check_invitation s) (os_invitations s)") (auto simp: org_validate_def simp del: each_iff)
qed

text \<open>Whoever once redeemed an offer cannot be removed, by an owner either, for as long as the
  organization remembers the offer: the policy lets the removal pass and the document it leaves is
  refused as inconsistent, because the spent offer names somebody who is no member.\<close>

theorem redeemer_cannot_be_removed:
  assumes "iam_steps sz digest_of [] st" and "bt_get st organization = Some a"
    and "remembered (ao_state a) p" and "iam_apply sz fresh st organization actor (RemoveMember p) now = r"
    and "role_of (ao_state a) actor = Some Owner" and "role_of (ao_state a) p = Some held" and "held \<noteq> Owner"
  shows "r = Inl (Incompatible ''invitation outside this organization or naming nothing'')"
proof -
  let ?s = "ao_state a"
  have valid: "org_validate ?s = Inr ()"
    using reachable_fine [OF assms(1)] assms(2) by (auto simp: store_fine_def organization_ok_def)
  note pv = valid_member_validates [OF valid]
  let ?t = "without_member ?s p"
  have rm: "remove_member ?s Owner p = Inr ?t"
    using assms(6,7) pv by (simp add: remove_member_def keep_owner_def)
  note parts = remove_member_parts [OF valid rm]
  have run: "org_apply fresh ?s actor (RemoveMember p) now = Inr (?t, Applied)"
    using rm assms(5) pv by (simp add: org_apply_def run_command_def applied_def)
  have "org_validate ?t \<noteq> Inr ()"
    using remove_member_valid [OF valid rm] assms(3) by (simp add: remembered_def list_ex_iff is_some_and_iff)
  have bad: "e = Incompatible ''invitation outside this organization or naming nothing''"
    if "org_validate ?t = Inl e" for e
  proof -
    have "each (check_invitation ?t) (os_invitations ?t) = Inl e"
      using that validate_by_invitations [OF parts(1-4)] by simp
    then obtain rec where rec: "rec \<in> set (os_invitations ?s)" "check_invitation ?t rec = Inl e"
      by (auto simp: without_member_def dest!: each_Inl)
    from rec(1) valid have "invitation_ok ?s rec" by (simp add: valid_iff)
    with rec(2) show ?thesis by (auto simp: check_invitation_def and_then_Inl_iff invitation_ok_def)
  qed
  with \<open>org_validate ?t \<noteq> Inr ()\<close> obtain e where "org_validate ?t = Inl e" by (cases "org_validate ?t") auto
  with bad have "org_encode sz ?t = Inl (Incompatible ''invitation outside this organization or naming nothing'')"
    by (simp add: org_encode_def)
  with assms(2,4) run show ?thesis by (simp add: iam_apply_def find_organization_def)
qed

subsection \<open>Where a swept trail begins\<close>

lemma sorted_pair:
  assumes "sorted_wrt (<) (map f xs)" and "sorted (map g xs)" and "x \<in> set xs" and "y \<in> set xs"
    and "f x \<le> (f y :: int)"
  shows "g x \<le> (g y :: int)"
proof -
  obtain i j where ij: "i < length xs" "x = xs ! i" "j < length xs" "y = xs ! j"
    using assms(3,4) by (auto simp: in_set_conv_nth)
  have "\<not> j < i"
    using sorted_wrt_nth_less [OF assms(1), of j i] assms(5) ij by auto
  then show ?thesis using assms(2) ij by (simp add: sorted_iff_nth_mono)
qed

text \<open>On a clock that never stepped back, the watermark is where the trail begins: everything still
  readable comes after it, and everything up to it was older than the cutoff and is gone.\<close>

theorem watermark_is_where_the_trail_begins:
  assumes "iam_steps sz digest_of [] st" and "bt_get st organization = Some a"
    and "sorted (map ae_occurred_at (ao_audit a))"
    and "bt_get (fst (prune_audit st retention now)) organization = Some a'" and "ao_audit a' \<noteq> ao_audit a"
  shows "\<exists>w. ao_watermark a' = Some w
    \<and> ao_audit a' = filter (\<lambda>e. wm_pruned_through_sequence w < ae_sequence e) (ao_audit a)
    \<and> (\<forall>e \<in> set (ao_audit a). ae_sequence e \<le> wm_pruned_through_sequence w \<longrightarrow>
           ae_occurred_at e < cutoff retention now)"
proof -
  have ok: "trail_ok organization a"
    using reachable_fine [OF assms(1)] assms(2) by (auto simp: store_fine_def organization_ok_def)
  then have ne: "ao_audit a \<noteq> []" and srt: "sorted_wrt (<) (map ae_sequence (ao_audit a))"
    by (auto simp: trail_ok_def)
  have a': "a' = prune_organization retention now organization a" using assms(2,4) by (simp add: prune_get)
  show ?thesis
    using ne
  proof (cases rule: prune_cases [where retention = retention and now = now and organization = organization])
    case nothing
    with assms(5) a' show ?thesis by simp
  next
    case (some w gone)
    then obtain g where g: "g \<in> set (ao_audit a)" "\<not> kept retention now a g"
      "ae_sequence g = wm_pruned_through_sequence w" by auto
    have old: "ae_occurred_at e < cutoff retention now" if "e \<in> set (ao_audit a)" "ae_sequence e \<le> ae_sequence g" for e
      using sorted_pair [OF srt assms(3) that(1) g(1) that(2)] g(2) by (simp add: kept_def)
    have "kept retention now a e \<longleftrightarrow> wm_pruned_through_sequence w < ae_sequence e" if e: "e \<in> set (ao_audit a)" for e
    proof
      assume k: "kept retention now a e"
      show "wm_pruned_through_sequence w < ae_sequence e"
      proof (rule ccontr)
        assume "\<not> ?thesis"
        then have "ae_sequence e \<le> ae_sequence g" using g(3) by simp
        with old [OF e] k g(2) show False by (simp add: kept_def)
      qed
    next
      assume "wm_pruned_through_sequence w < ae_sequence e"
      with some(2,5) e show "kept retention now a e" by fastforce
    qed
    then have "ao_audit a' = filter (\<lambda>e. wm_pruned_through_sequence w < ae_sequence e) (ao_audit a)"
      using some(1) a' by (auto intro: filter_cong)
    with some(1) a' old g(3) show ?thesis by auto
  qed
qed

text \<open>On a clock that did step back the watermark passes an entry that is still there, although it
  is said to narrow then; and the sweep that takes the entry later moves the watermark back.\<close>

theorem watermark_passes_what_it_left:
  assumes "iam_steps sz digest_of [] st" and "bt_get st organization = Some a"
    and "early \<in> set (ao_audit a)" and "late \<in> set (ao_audit a)"
    and "ae_sequence early < ae_sequence late" and "late \<noteq> last (ao_audit a)"
    and "ae_occurred_at late < cutoff retention now" and "cutoff retention now \<le> ae_occurred_at early"
    and "bt_get (fst (prune_audit st retention now)) organization = Some a'"
  shows "early \<in> set (ao_audit a') \<and>
    (\<exists>w. ao_watermark a' = Some w \<and> ae_sequence early < wm_pruned_through_sequence w)"
proof -
  have ok: "trail_ok organization a"
    using reachable_fine [OF assms(1)] assms(2) by (auto simp: store_fine_def organization_ok_def)
  then have ne: "ao_audit a \<noteq> []" and srt: "sorted_wrt (<) (map ae_sequence (ao_audit a))"
    by (auto simp: trail_ok_def)
  have d: "distinct (map ae_sequence (ao_audit a))" using srt by (simp add: strict_sorted_iff)
  have "ae_sequence late \<noteq> ae_sequence (last (ao_audit a))"
    using d assms(4,6) last_in_set [OF ne] by (auto simp: distinct_map dest: inj_onD)
  then have gone: "\<not> kept retention now a late"
    using sorted_last_max [OF srt assms(4)] assms(7) by (simp add: kept_def)
  have a': "a' = prune_organization retention now organization a" using assms(2,9) by (simp add: prune_get)
  show ?thesis
    using ne
  proof (cases rule: prune_cases [where retention = retention and now = now and organization = organization])
    case nothing
    with gone assms(4) show ?thesis by (metis filter_id_conv)
  next
    case (some w gone')
    with gone assms(4) have "ae_sequence late \<le> wm_pruned_through_sequence w" by auto
    with some(1) a' assms(3,5,8) show ?thesis by (auto simp: kept_def)
  qed
qed

end
