(* ===== verification/Iam_Demo.thy ===== *)
theory Iam_Demo
  imports Iam_Trail
begin

text \<open>
  The theorems of the control plane on a concrete organization: Ada founds it and creates a
  project, Ben takes up an offer and is a guest from then on, and Ada gives him the administration
  of the project. The clock steps back once, between the second entry and the third. The parameters
  are concrete functions.
\<close>

definition no_size :: "org_state \<Rightarrow> int" where
  "no_size s = 1"

definition tagged :: "string \<Rightarrow> string" where
  "tagged token = replicate 63 CHR ''0'' @ (if token = ''one'' then ''1'' else ''2'')"

definition someone :: "string \<Rightarrow> iam_principal" where
  "someone name = \<lparr>ip_provider = ''sso'', ip_subject = name\<rparr>"

definition ids :: "u128 \<Rightarrow> iam_fresh" where
  "ids n = \<lparr>fr_project = 100 + n, fr_team = 200 + n, fr_grant = 300 + n, fr_invitation = 400 + n\<rparr>"

definition demo_offer :: "organization_role \<Rightarrow> invitation_offer" where
  "demo_offer standing = \<lparr>io_role = Editor, io_window = permanent 0, io_expires_at = 1000,
     io_label = None, io_standing = standing\<rparr>"

abbreviation "lab \<equiv> \<lparr>og_id = 7, og_name = ''Lab''\<rparr>"
abbreviation "demo_scope \<equiv> ProjectScope 7 101"
abbreviation "demo_project \<equiv> \<lparr>pr_scope = demo_scope, pr_name = ''Demo''\<rparr>"

definition demo_grant :: "grant_id \<Rightarrow> string \<Rightarrow> project_role \<Rightarrow> int \<Rightarrow> grant" where
  "demo_grant n name role from_when = \<lparr>gr_id = n, gr_scope = demo_scope, gr_grantee = User (someone name),
     gr_role = role, gr_window = permanent from_when\<rparr>"

definition demo_invitation :: "redemption option \<Rightarrow> invitation" where
  "demo_invitation redeemed = \<lparr>iv_id = 402, iv_scope = demo_scope, iv_role = Editor,
     iv_window = permanent 0, iv_expires_at = 1000, iv_created_by = someone ''ada'', iv_created_at = 15,
     iv_label = None, iv_standing = Guest, iv_redeemed = redeemed\<rparr>"

definition demo_entry :: "int \<Rightarrow> string \<Rightarrow> int \<Rightarrow> audit_action \<Rightarrow> audit_entry" where
  "demo_entry n name at_time action = \<lparr>ae_sequence = n, ae_organization = 7, ae_actor = someone name,
     ae_occurred_at = at_time, ae_action = action\<rparr>"

definition demo_doc :: "string list \<Rightarrow> project list \<Rightarrow> grant list \<Rightarrow> invitation list \<Rightarrow> org_state" where
  "demo_doc guests projects grants offers = \<lparr>os_schema_version = 1, os_organization = lab,
     os_members = \<lparr>mb_principal = someone ''ada'', mb_role = Owner\<rparr> #
       map (\<lambda>n. \<lparr>mb_principal = someone n, mb_role = Guest\<rparr>) guests,
     os_teams = [], os_projects = projects, os_grants = grants,
     os_invitations = map (\<lambda>i. \<lparr>ir_invitation = i, ir_token_sha256 = tagged ''one''\<rparr>) offers\<rparr>"

definition demo_trail :: "audit_entry list" where
  "demo_trail =
     [demo_entry 1 ''ada'' 10 (OrganizationCreated lab),
      demo_entry 2 ''ada'' 20 (CommandApplied (CreateProject ''Demo'') (ProjectCreated demo_project)),
      demo_entry 3 ''ada'' 15 (InvitationCreated (demo_invitation None)),
      demo_entry 4 ''ben'' 30 (InvitationRedeemed 402 303)]"

definition demo_store :: "nat \<Rightarrow> org_state \<Rightarrow> iam_store" where
  "demo_store n doc = [(7, \<lparr>ao_state = doc, ao_audit = take n demo_trail, ao_watermark = None\<rparr>)]"

definition founded :: org_state where
  "founded = demo_doc [] [] [] []"

definition with_project :: org_state where
  "with_project = demo_doc [] [demo_project] [demo_grant 301 ''ada'' ProjectAdmin 20] []"

definition with_offer :: org_state where
  "with_offer = demo_doc [] [demo_project] [demo_grant 301 ''ada'' ProjectAdmin 20] [demo_invitation None]"

definition with_guest :: org_state where
  "with_guest = demo_doc [''ben''] [demo_project]
     [demo_grant 301 ''ada'' ProjectAdmin 20, demo_grant 303 ''ben'' Editor 0]
     [demo_invitation (Some \<lparr>rd_principal = someone ''ben'', rd_at = 30, rd_grant = 303\<rparr>)]"

definition with_admin :: org_state where
  "with_admin = with_guest\<lparr>os_grants := os_grants with_guest @ [demo_grant 304 ''ben'' ProjectAdmin 0]\<rparr>"

subsection \<open>The steps\<close>

lemma founded_step:
  "create_organization no_size 7 [] (someone ''ada'') '' Lab '' 10 = Inr (demo_store 1 founded, lab)"
  by code_simp

lemma project_step:
  "iam_apply no_size (ids 1) (demo_store 1 founded) 7 (someone ''ada'') (CreateProject ''Demo'') 20 =
     Inr (demo_store 2 with_project, ProjectCreated demo_project)"
  by code_simp

lemma offer_step:
  "iam_invite no_size tagged (ids 2) ''one'' (demo_store 2 with_project) demo_scope (someone ''ada'')
     (demo_offer Guest) 15 =
     Inr (demo_store 3 with_offer, \<lparr>ii_invitation = demo_invitation None, ii_token = ''one''\<rparr>)"
  by code_simp

lemma redeem_step:
  "iam_redeem no_size tagged (ids 3) (demo_store 3 with_offer) ''one'' (someone ''ben'') 30 =
     Inr (demo_store 4 with_guest, \<lparr>ro_organization = lab, ro_project = demo_project, ro_role = Editor,
       ro_window = permanent 0, ro_grant = 303\<rparr>)"
  by code_simp

lemma demo_steps:
  "iam_steps no_size tagged [] (demo_store 1 founded)"
  "iam_steps no_size tagged (demo_store 1 founded) (demo_store 2 with_project)"
  "iam_steps no_size tagged (demo_store 2 with_project) (demo_store 3 with_offer)"
  "iam_steps no_size tagged (demo_store 3 with_offer) (demo_store 4 with_guest)"
  by (rule iam_steps.more [OF iam_steps.stay],
      rule iam_step.intros(1) [OF founded_step] iam_step.intros(2) [OF project_step]
        iam_step.intros(3) [OF offer_step] iam_step.intros(5) [OF redeem_step]; simp)+

lemma steps_trans: "iam_steps sz d st' st'' \<Longrightarrow> iam_steps sz d st st' \<Longrightarrow> iam_steps sz d st st''"
  by (induction rule: iam_steps.induct) (auto intro: iam_steps.more)

lemma demo_reached:
  "iam_steps no_size tagged [] (demo_store 1 founded)"
  "iam_steps no_size tagged [] (demo_store 2 with_project)"
  "iam_steps no_size tagged [] (demo_store 3 with_offer)"
  "iam_steps no_size tagged [] (demo_store 4 with_guest)"
  using demo_steps steps_trans by blast+

lemma demo_get: "bt_get (demo_store n doc) 7 =
    Some \<lparr>ao_state = doc, ao_audit = take n demo_trail, ao_watermark = None\<rparr>"
  by (simp add: demo_store_def)

lemma demo_valid:
  "org_validate with_project = Inr ()" "org_validate with_offer = Inr ()"
  "org_validate with_guest = Inr ()"
  using reachable_fine [OF demo_reached(2)] reachable_fine [OF demo_reached(3)] reachable_fine [OF demo_reached(4)]
  by (auto simp: store_fine_def organization_ok_def demo_get dest!: spec [of _ 7])

subsection \<open>Witnesses\<close>

theorem policy_keeps_documents_valid_witness:
  "org_validate (fst (projr (org_redeem (ids 3) with_offer (tagged ''one'') (someone ''ben'') 30))) = Inr ()"
proof -
  have fresh: "fresh_for (ids 3) with_offer" by code_simp
  have "\<exists>s' out. org_redeem (ids 3) with_offer (tagged ''one'') (someone ''ben'') 30 = Inr (s', out)"
    by (intro exI) code_simp
  then obtain s' out where r: "org_redeem (ids 3) with_offer (tagged ''one'') (someone ''ben'') 30 = Inr (s', out)" by blast
  with policy_keeps_documents_valid [OF demo_valid(2) fresh, where actor = "someone ''ben''" and now = 30
      and token = "tagged ''one''"] have "org_validate s' = Inr ()" by blast
  with r show ?thesis by simp
qed

theorem standing_changes_by_authority_witness:
  "role_of with_guest (someone ''ada'') = Some Owner"
proof -
  define s' where "s' = fst (projr (org_apply (ids 5) with_guest (someone ''ada'') (SetMember (someone ''ben'') Member) 50))"
  have run: "org_apply (ids 5) with_guest (someone ''ada'') (SetMember (someone ''ben'') Member) 50 = Inr (s', Applied)"
    unfolding s'_def by code_simp
  have changed: "role_of s' (someone ''ben'') \<noteq> role_of with_guest (someone ''ben'')"
    unfolding s'_def by code_simp
  have "role_of with_guest (someone ''ada'') \<noteq> Some Admin" by code_simp
  moreover from run have "policy_step (ids 5) with_guest (someone ''ada'')
      (PolicyCommand (SetMember (someone ''ben'') Member)) 50 = Inr s'" by simp
  ultimately show ?thesis using standing_changes_by_authority [OF _ changed] by blast
qed

theorem access_is_a_live_grant_witness:
  "may_reach with_project (someone ''ada'') demo_scope 25 ProjectAdmin
   \<and> \<not> may_reach with_project (someone ''ada'') demo_scope 15 Viewer"
proof -
  have "org_access with_project demo_scope (someone ''ada'') 25 =
      Inr \<lparr>pa_project = demo_project, pa_role = ProjectAdmin,
        pa_grants = [\<lparr>eg_grant = demo_grant 301 ''ada'' ProjectAdmin 20, eg_role = ProjectAdmin\<rparr>],
        pa_evaluated_at = 25\<rparr>"
    "org_access with_project demo_scope (someone ''ada'') 15 = Inl NotFound"
    by code_simp+
  with access_is_a_live_grant [OF demo_valid(1), of demo_scope "someone ''ada''" 25 ProjectAdmin]
    access_is_a_live_grant [OF demo_valid(1), of demo_scope "someone ''ada''" 15 Viewer]
  show ?thesis by simp
qed

theorem removal_takes_everything_away_witness:
  "org_access (without_member with_guest (someone ''ben'')) demo_scope (someone ''ben'') 50 = Inl NotFound"
proof -
  have "org_apply (ids 5) with_guest (someone ''ada'') (RemoveMember (someone ''ben'')) 50 =
      Inr (without_member with_guest (someone ''ben''), Applied)" by code_simp
  from removal_takes_everything_away [OF demo_valid(3) this] show ?thesis by blast
qed

theorem demotion_keeps_the_teams_witness:
  "\<exists>s'. role_of s' (someone ''ben'') = Some Member
    \<and> org_access s' demo_scope (someone ''ben'') 50 = org_access with_guest demo_scope (someone ''ben'') 50"
proof -
  define s' where "s' = fst (projr (org_apply (ids 5) with_guest (someone ''ada'') (SetMember (someone ''ben'') Member) 50))"
  have run: "org_apply (ids 5) with_guest (someone ''ada'') (SetMember (someone ''ben'') Member) 50 = Inr (s', Applied)"
    unfolding s'_def by code_simp
  have "role_of with_guest (someone ''ben'') = Some Guest" by code_simp
  from demotion_keeps_the_teams [OF demo_valid(3) run this] show ?thesis by blast
qed

theorem offer_is_taken_once_witness:
  "\<exists>s' out. org_redeem (ids 3) with_offer (tagged ''one'') (someone ''ben'') 30 = Inr (s', out)
    \<and> role_of s' (someone ''ben'') = Some Guest
    \<and> org_redeem (ids 6) s' (tagged ''one'') (someone ''cora'') 31 = Inl AlreadyRedeemed"
proof -
  define s' where "s' = fst (projr (org_redeem (ids 3) with_offer (tagged ''one'') (someone ''ben'') 30))"
  define out where "out = snd (projr (org_redeem (ids 3) with_offer (tagged ''one'') (someone ''ben'') 30))"
  have run: "org_redeem (ids 3) with_offer (tagged ''one'') (someone ''ben'') 30 = Inr (s', out)"
    unfolding s'_def out_def by code_simp
  have "List.find (\<lambda>r. ir_token_sha256 r = tagged ''one'') (os_invitations with_offer) =
      Some \<lparr>ir_invitation = demo_invitation None, ir_token_sha256 = tagged ''one''\<rparr>"
    "role_of with_offer (someone ''ben'') = None" "principal_validate (someone ''cora'') = Inr ()"
    by code_simp+
  with offer_is_taken_once [OF demo_valid(2) run] run show ?thesis
    by (auto simp: demo_invitation_def)
qed

theorem offer_makes_an_owner_witness:
  "role_of with_admin (someone ''ben'') = Some Guest \<and>
   (\<exists>s1 i s2 out.
     org_invite (ids 7) with_admin (someone ''ben'') 101
       \<lparr>io_role = Viewer, io_window = permanent 50, io_expires_at = 90, io_label = None, io_standing = Owner\<rparr>
       (tagged ''two'') 50 = Inr (s1, i)
     \<and> org_redeem (ids 8) s1 (tagged ''two'') (someone ''cora'') 60 = Inr (s2, out)
     \<and> role_of s2 (someone ''cora'') = Some Owner)"
proof (rule conjI)
  show "role_of with_admin (someone ''ben'') = Some Guest" by code_simp
  have m: "manage_project with_admin (someone ''ben'') 101 50 = Inr demo_scope" by code_simp
  have t: "length (tagged ''two'') = 64" "list_all is_hex_digit (tagged ''two'')"
    "\<not> holds_invitation with_admin (tagged ''two'')"
    "principal_validate (someone ''cora'') = Inr ()" "role_of with_admin (someone ''cora'') = None"
    by code_simp+
  show "\<exists>s1 i s2 out.
     org_invite (ids 7) with_admin (someone ''ben'') 101
       \<lparr>io_role = Viewer, io_window = permanent 50, io_expires_at = 90, io_label = None, io_standing = Owner\<rparr>
       (tagged ''two'') 50 = Inr (s1, i)
     \<and> org_redeem (ids 8) s1 (tagged ''two'') (someone ''cora'') 60 = Inr (s2, out)
     \<and> role_of s2 (someone ''cora'') = Some Owner"
    by (rule offer_makes_an_owner [OF m permanent_valid _ _ t]) simp_all
qed

theorem trail_accounts_for_every_entry_witness:
  "last_sequence (the (bt_get (demo_store 4 with_guest) 7)) = Some 4"
  using trail_accounts_for_every_entry [OF demo_reached(4) demo_get]
  by (simp add: demo_get removed_total_def demo_trail_def)

theorem numbers_are_issued_once_witness:
  "ae_sequence (demo_entry 1 ''ada'' 10 (OrganizationCreated lab)) <
   ae_sequence (demo_entry 2 ''ada'' 20 (CommandApplied (CreateProject ''Demo'') (ProjectCreated demo_project)))"
  using numbers_are_issued_once [OF demo_reached(1) demo_steps(2) demo_get]
  by (auto simp: demo_get demo_trail_def demo_entry_def)

theorem no_change_off_the_trail_witness:
  "\<exists>e. take 2 demo_trail = take 1 demo_trail @ [e] \<and> ae_sequence e = 2"
proof -
  have "iam_step no_size tagged (demo_store 1 founded) (demo_store 2 with_project)"
    by (rule iam_step.intros(2) [OF project_step])
  from no_change_off_the_trail [OF demo_reached(1) this demo_get] show ?thesis
    by (auto simp: demo_get demo_trail_def demo_entry_def last_sequence_def)
qed

theorem redeemer_cannot_be_removed_witness:
  "iam_apply no_size (ids 9) (demo_store 4 with_guest) 7 (someone ''ada'') (RemoveMember (someone ''ben'')) 60 =
     Inl (Incompatible ''invitation outside this organization or naming nothing'')"
proof -
  have "remembered with_guest (someone ''ben'')" "role_of with_guest (someone ''ada'') = Some Owner"
    "role_of with_guest (someone ''ben'') = Some Guest" by code_simp+
  with redeemer_cannot_be_removed [OF demo_reached(4) demo_get, where p = "someone ''ben''"
      and actor = "someone ''ada''" and held = Guest and fresh = "ids 9" and now = 60]
  show ?thesis by simp
qed

theorem watermark_is_where_the_trail_begins_witness:
  "\<exists>w. ao_watermark (prune_organization \<lparr>re_ttl_days = 1, re_policy_id = ''p''\<rparr> 86415 7
      (the (bt_get (demo_store 2 with_project) 7))) = Some w \<and> wm_pruned_through_sequence w = 1"
proof -
  define one_day where "one_day = \<lparr>re_ttl_days = 1, re_policy_id = ''p''\<rparr>"
  let ?r = one_day
  let ?a = "\<lparr>ao_state = with_project, ao_audit = take 2 demo_trail, ao_watermark = None\<rparr>"
  have less: "ao_audit (prune_organization ?r 86415 7 ?a) = [demo_entry 2 ''ada'' 20
      (CommandApplied (CreateProject ''Demo'') (ProjectCreated demo_project))]" unfolding one_day_def by code_simp
  have get: "bt_get (fst (prune_audit (demo_store 2 with_project) ?r 86415)) 7 =
      Some (prune_organization ?r 86415 7 ?a)" by (simp add: prune_get demo_get)
  have srt: "sorted (map ae_occurred_at (ao_audit ?a))" by code_simp
  have ne: "ao_audit (prune_organization ?r 86415 7 ?a) \<noteq> ao_audit ?a"
    unfolding less by (simp add: demo_trail_def)
  have "map ae_sequence (ao_audit (prune_organization ?r 86415 7 ?a)) = [2]" by (simp add: less demo_entry_def)
  with watermark_is_where_the_trail_begins [OF demo_reached(2) demo_get srt get ne]
  have "\<exists>w. ao_watermark (prune_organization ?r 86415 7 ?a) = Some w" by blast
  moreover have "map_option wm_pruned_through_sequence (ao_watermark (prune_organization ?r 86415 7 ?a)) = Some 1"
    unfolding one_day_def by code_simp
  ultimately show ?thesis unfolding one_day_def [symmetric] by (auto simp: demo_get)
qed

theorem watermark_passes_what_it_left_witness:
  "\<exists>a. bt_get (fst (prune_audit (demo_store 4 with_guest) \<lparr>re_ttl_days = 1, re_policy_id = ''p''\<rparr> 86418)) 7 = Some a
    \<and> (\<exists>w e. ao_watermark a = Some w \<and> e \<in> set (ao_audit a)
         \<and> ae_sequence e < wm_pruned_through_sequence w)"
proof -
  define one_day where "one_day = \<lparr>re_ttl_days = 1, re_policy_id = ''p''\<rparr>"
  let ?r = one_day
  let ?a = "\<lparr>ao_state = with_guest, ao_audit = take 4 demo_trail, ao_watermark = None\<rparr>"
  let ?early = "demo_entry 2 ''ada'' 20 (CommandApplied (CreateProject ''Demo'') (ProjectCreated demo_project))"
  let ?late = "demo_entry 3 ''ada'' 15 (InvitationCreated (demo_invitation None))"
  have get: "bt_get (fst (prune_audit (demo_store 4 with_guest) ?r 86418)) 7 =
      Some (prune_organization ?r 86418 7 ?a)" by (simp add: prune_get demo_get)
  have cut: "cutoff ?r 86418 = 18" unfolding one_day_def by code_simp
  have "?early \<in> set (ao_audit ?a)" "?late \<in> set (ao_audit ?a)" "?late \<noteq> last (ao_audit ?a)"
    by (simp_all add: demo_trail_def demo_entry_def)
  from watermark_passes_what_it_left [OF demo_reached(4) demo_get this(1,2) _ this(3) _ _ get]
  have "?early \<in> set (ao_audit (prune_organization ?r 86418 7 ?a)) \<and>
    (\<exists>w. ao_watermark (prune_organization ?r 86418 7 ?a) = Some w
      \<and> ae_sequence ?early < wm_pruned_through_sequence w)"
    by (simp add: cut demo_entry_def)
  with get show ?thesis unfolding one_day_def by blast
qed

end
