(* ===== verification/Start.thy ===== *)
theory Start
  imports Handler
begin

text \<open>
  Starting a run: \<open>start.rs\<close>. A definition is read and compiled, the payload policy is resolved, the
  id is derived and one transaction is written. The registries a definition is read from and the two
  compilers are arguments: a registry is the function that answers a read, a compiler the function
  from what was read to a plan or the problems it has. The clock and the fresh id of \<open>uuid::now_v7\<close>
  are arguments too.
\<close>

subsection \<open>What is asked for\<close>

record execution_target =
  tg_kind :: definition_kind
  tg_name :: string
  tg_revision :: "string option"

datatype decider = DecideLocal | DecideWorker

fun decider_parts :: "decider \<Rightarrow> execution_owner \<times> execution_mode" where
  "decider_parts DecideLocal = (OwnerLocal, Compiled)"
| "decider_parts DecideWorker = (OwnerWorker, Hosted)"

record window =
  wn_seconds :: "u64 option"
  wn_as_of :: "int option"

definition window_default :: window where
  "window_default = \<lparr>wn_seconds = None, wn_as_of = None\<rparr>"

definition window_asked :: "window \<Rightarrow> bool" where
  "window_asked w \<longleftrightarrow> wn_seconds w \<noteq> None \<or> wn_as_of w \<noteq> None"

text \<open>\<open>i64::MIN\<close> and \<open>i64::MAX\<close>, and the subtraction that stops at them.\<close>

definition I64_MIN :: int where "I64_MIN = - 9223372036854775808"
definition I64_MAX :: int where "I64_MAX = 9223372036854775807"

definition saturating_sub :: "int \<Rightarrow> int \<Rightarrow> int" where
  "saturating_sub a b = max I64_MIN (min I64_MAX (a - b))"

definition window_resolve :: "instant \<Rightarrow> window \<Rightarrow> resolved_window option" where
  "window_resolve clock w =
     (case wn_seconds w of
        None \<Rightarrow> None
      | Some s \<Rightarrow>
          let ends = (case wn_as_of w of None \<Rightarrow> clock div seconds 1 | Some at \<Rightarrow> at)
          in Some \<lparr>win_from = saturating_sub ends (if uint s \<le> I64_MAX then uint s else I64_MAX), win_to = ends\<rparr>)"

subsection \<open>The id of the run\<close>

datatype run_identity = NamedRun string | KeyRun string | FreshRun

definition project_prefix :: "project_scope \<Rightarrow> string" where
  "project_prefix scope =
     ''aiwatcher/execution/project/'' @ uuid_display (sc_organization scope) @ ''/'' @ uuid_display (sc_project scope)"

fun project_run_text :: "project_scope \<Rightarrow> run_identity \<Rightarrow> execution_plan \<Rightarrow> string" where
  "project_run_text project (NamedRun i) plan = project_prefix project @ ''/named/'' @ i"
| "project_run_text project (KeyRun key) plan = project_prefix project @ ''/request/'' @ plan_id plan @ ''/'' @ key"
| "project_run_text project FreshRun plan = []"

definition run_identity_of ::
  "crates \<Rightarrow> string \<Rightarrow> run_identity \<Rightarrow> execution_plan \<Rightarrow> execution_scope \<Rightarrow> string" where
  "run_identity_of C fresh identity plan scope =
     (case (identity, scope_project scope) of
        (NamedRun i, None) \<Rightarrow> i
      | (KeyRun key, None) \<Rightarrow>
          derive_uuid C (''aiwatcher/execution/request/'' @ plan_id plan @ ''/'' @ key)
      | (FreshRun, _) \<Rightarrow> fresh
      | (_, Some project) \<Rightarrow> derive_uuid C (project_run_text project identity plan))"

record run_request =
  rr_identity :: run_identity
  rr_parameters :: "(string, json) btree"
  rr_requested_by :: string
  rr_decided_by :: decider
  rr_payloads :: "payload_policy option"
  rr_project :: "project_start option"

record start_order =
  so_target :: execution_target
  so_window :: window
  so_run :: run_request

record started =
  sd_execution_id :: string
  sd_handled :: handled

subsection \<open>Why a run is not started\<close>

datatype missing = MissingWorkflowStore | MissingPipelineRegistry | MissingWorkflowRegistry

fun missing_what :: "missing \<Rightarrow> string" where
  "missing_what MissingWorkflowStore = ''this instance has no workflow store configured''"
| "missing_what MissingPipelineRegistry = ''this instance has no dataset registry configured''"
| "missing_what MissingWorkflowRegistry = ''this instance has no workflow definition registry''"

fun missing_variable :: "missing \<Rightarrow> string" where
  "missing_variable MissingWorkflowStore = ''AIWATCHER_WORKFLOW_STORE''"
| "missing_variable MissingPipelineRegistry = ''AIWATCHER_PROMPT_STORE''"
| "missing_variable MissingWorkflowRegistry = ''AIWATCHER_PROMPT_STORE''"

datatype port_error =
    PortUnavailable string string
  | PortRejected string string
  | PortOther string string

fun port_retryable :: "port_error \<Rightarrow> bool" where
  "port_retryable (PortUnavailable _ _) = True"
| "port_retryable (PortOther _ _) = True"
| "port_retryable (PortRejected _ _) = False"

datatype registry_error =
    RegInvalid string
  | RegRejected "string list"
  | RegNotFound string
  | RegTooLarge string nat nat
  | RegStore port_error
  | RegCorrupt string string

datatype definition_error =
    DefStore port_error
  | DefCorrupt string string
  | DefRefused "string list"

fun definition_same_next_time :: "definition_error \<Rightarrow> bool" where
  "definition_same_next_time (DefStore port) = (\<not> port_retryable port)"
| "definition_same_next_time _ = True"

datatype start_refused =
    SrNotConfigured missing
  | SrUnknown string
  | SrInvalid string
  | SrRefused string "string list"
  | SrPipelines registry_error
  | SrDefinitions definition_error
  | SrCommand handle_error

fun start_same_next_time :: "start_refused \<Rightarrow> bool" where
  "start_same_next_time (SrPipelines (RegStore port)) = (\<not> port_retryable port)"
| "start_same_next_time (SrPipelines _) = True"
| "start_same_next_time (SrDefinitions err) = definition_same_next_time err"
| "start_same_next_time (SrCommand err) = handle_same_next_time err"
| "start_same_next_time _ = True"

subsection \<open>What a project may not run\<close>

fun outside_sentence :: "outside_reason \<Rightarrow> string" where
  "outside_sentence ReadsDeploymentRoutes =
     ''a query engine reads this deployment'' @ [CHR 0x27] @ ''s own routes with no credential '' @
     ''(AIWATCHER_QUERY_URL), so a project'' @ [CHR 0x27] @ ''s query would be answered from the '' @
     ''unassigned side rather than from the project''"
| "outside_sentence NotebookOfDeployment =
     ''the notebook runtime is one service for the deployment '' @
     ''(AIWATCHER_ML_PIPELINE_URL) and a notebook is pinned by a path in it, not '' @ ''by a project''"
| "outside_sentence TokenNamesQueues =
     ''a worker'' @ [CHR 0x27] @ ''s token names queues rather than a project (AIWATCHER_TOKEN), so '' @
     ''nothing may claim a project'' @ [CHR 0x27] @ ''s dispatched attempt''"
| "outside_sentence PublishesThroughInstance =
     ''publishing a dataset version runs in the serve role against the '' @
     ''deployment'' @ [CHR 0x27] @ ''s own object store''"

definition outside_problem :: "plan_step \<Rightarrow> string option" where
  "outside_problem step =
     (let kind = binding_kind (ps_runtime step) in
      map_option (\<lambda>why. ''step '' @ ps_id step @ '' is '' @ runtime_as_str kind @ '': '' @ outside_sentence why)
        (outside_a_project kind))"

definition refuse_outside_a_project :: "execution_plan \<Rightarrow> start_refused + unit" where
  "refuse_outside_a_project plan =
     (let problems = List.map_filter outside_problem (plan_steps plan)
      in if problems = [] then Inr ()
         else Inl (SrRefused ''this plan has steps a project has no performer for'' problems))"

subsection \<open>What may be started here\<close>

record compile_options =
  co_window :: "resolved_window option"
  co_engine :: query_engine
  co_query_timeout :: "u64 option"

text \<open>\<open>Executions\<close>: each part absent where the deployment has none. \<open>'p\<close> is what the pipeline
  registry keeps and \<open>'w\<close> what the workflow registry keeps.\<close>

record ('p, 'w) executions =
  xe_handler :: "engine option"
  xe_pipelines :: "(string \<Rightarrow> string option \<Rightarrow> registry_error + 'p option) option"
  xe_workflows :: "(string \<Rightarrow> string option \<Rightarrow> definition_error + 'w option) option"
  xe_compile_curation :: "'p \<Rightarrow> compile_options \<Rightarrow> string list + execution_plan"
  xe_compile_workflow :: "'w \<Rightarrow> string list + execution_plan"
  xe_payloads :: payload_default
  xe_archive :: bool
  xe_engine :: query_engine
  xe_query_timeout :: "u64 option"

definition start_handler :: "('p, 'w) executions \<Rightarrow> start_refused + engine" where
  "start_handler xe =
     (case xe_handler xe of None \<Rightarrow> Inl (SrNotConfigured MissingWorkflowStore) | Some en \<Rightarrow> Inr en)"

definition compile_pipeline ::
  "('p, 'w) executions \<Rightarrow> string \<Rightarrow> string option \<Rightarrow> resolved_window option \<Rightarrow> start_refused + execution_plan" where
  "compile_pipeline xe name revision w =
     (case xe_pipelines xe of
        None \<Rightarrow> Inl (SrNotConfigured MissingPipelineRegistry)
      | Some registry \<Rightarrow>
          (case registry name revision of
             Inl err \<Rightarrow> Inl (SrPipelines err)
           | Inr None \<Rightarrow>
               Inl (SrUnknown (case revision of
                      Some r \<Rightarrow> ''pipeline '' @ name @ '' at '' @ r
                    | None \<Rightarrow> ''pipeline '' @ name))
           | Inr (Some pipeline) \<Rightarrow>
               (case xe_compile_curation xe pipeline
                       \<lparr>co_window = w, co_engine = xe_engine xe, co_query_timeout = xe_query_timeout xe\<rparr> of
                  Inl problems \<Rightarrow>
                    Inl (SrRefused (name @ '' does not compile to something that can be run'') problems)
                | Inr plan \<Rightarrow> Inr plan)))"

definition compile_workflow ::
  "('p, 'w) executions \<Rightarrow> string \<Rightarrow> string option \<Rightarrow> start_refused + execution_plan" where
  "compile_workflow xe name revision =
     (case xe_workflows xe of
        None \<Rightarrow> Inl (SrNotConfigured MissingWorkflowRegistry)
      | Some registry \<Rightarrow>
          (case registry name revision of
             Inl err \<Rightarrow> Inl (SrDefinitions err)
           | Inr None \<Rightarrow> Inl (SrUnknown (''workflow '' @ name))
           | Inr (Some saved) \<Rightarrow>
               (case xe_compile_workflow xe saved of
                  Inl problems \<Rightarrow> Inl (SrRefused (name @ '' does not compile'') problems)
                | Inr plan \<Rightarrow> Inr plan)))"

definition compile_target ::
  "('p, 'w) executions \<Rightarrow> instant \<Rightarrow> execution_target \<Rightarrow> window \<Rightarrow> start_refused + execution_plan" where
  "compile_target xe clock target w =
     (case tg_kind target of
        CurationPipeline \<Rightarrow>
          compile_pipeline xe (tg_name target) (tg_revision target) (window_resolve clock w)
      | EvaluationKind \<Rightarrow>
          Inl (SrInvalid ''a scoring run is started from its declaration rather than compiled from a name'')
      | WorkflowKind \<Rightarrow>
          if window_asked w then Inl (SrInvalid ''time windows apply only to curation pipelines'')
          else compile_workflow xe (tg_name target) (tg_revision target))"

definition compile_head ::
  "('p, 'w) executions \<Rightarrow> instant \<Rightarrow> definition_kind \<Rightarrow> string \<Rightarrow> start_refused + execution_plan" where
  "compile_head xe clock kind name =
     compile_target xe clock \<lparr>tg_kind = kind, tg_name = name, tg_revision = None\<rparr> window_default"

definition payload_policy_of ::
  "('p, 'w) executions \<Rightarrow> payload_policy option \<Rightarrow> start_refused + payload_policy" where
  "payload_policy_of xe asked =
     (case payload_resolve (xe_payloads xe) asked of
        Inl why \<Rightarrow> Inl (SrRefused ''this instance will not run that execution'' [why])
      | Inr policy \<Rightarrow>
          if needs_archive policy \<and> \<not> xe_archive xe
          then Inl (SrRefused ''sealed payloads need the conversation archive''
                 [''set AIWATCHER_CONVERSATION_ARCHIVE=true'',
                  ''set AIWATCHER_CONVERSATION_KEYS to the keys it seals with''])
          else Inr policy)"

subsection \<open>The use case\<close>

definition start_scope :: "run_request \<Rightarrow> execution_scope" where
  "start_scope run = (case rr_project run of None \<Rightarrow> Global | Some project \<Rightarrow> Project (pj_scope project))"

definition start_message_id :: "crates \<Rightarrow> string \<Rightarrow> string" where
  "start_message_id C execution = derive_uuid C (''aiwatcher/execution/start/'' @ execution)"

definition start_command :: "execution_plan \<Rightarrow> run_request \<Rightarrow> payload_policy \<Rightarrow> string \<Rightarrow> workflow_message" where
  "start_command plan run payloads execution =
     (let (owner, mode) = decider_parts (rr_decided_by run) in
      Command (StartExecution
        \<lparr>st_execution_id = execution, st_plan = plan, st_owner = owner, st_mode = mode,
         st_payloads = payloads, st_requested_by = rr_requested_by run, st_input = rr_parameters run\<rparr>))"

definition start_run ::
  "('p, 'w) executions \<Rightarrow> string \<Rightarrow> instant \<Rightarrow> execution_plan \<Rightarrow> run_request \<Rightarrow> inner \<Rightarrow>
   (start_refused + started) \<times> inner" where
  "start_run xe fresh now plan run s =
     (case start_handler xe of
        Inl err \<Rightarrow> (Inl err, s)
      | Inr en \<Rightarrow>
          (case payload_policy_of xe (rr_payloads run) of
             Inl err \<Rightarrow> (Inl err, s)
           | Inr payloads \<Rightarrow>
               (case (if rr_project run \<noteq> None then refuse_outside_a_project plan else Inr ()) of
                  Inl err \<Rightarrow> (Inl err, s)
                | Inr _ \<Rightarrow>
                    let execution = run_identity_of (en_crates en) fresh (rr_identity run) plan (start_scope run);
                        message_id = start_message_id (en_crates en) execution
                    in case handle_start en execution (start_command plan run payloads execution)
                              (caused_by execution message_id message_id now) now
                              (map_option (\<lambda>project. ownership_of project plan) (rr_project run)) s of
                         (Inl err, s') \<Rightarrow> (Inl (SrCommand err), s')
                       | (Inr handled, s') \<Rightarrow>
                           (Inr \<lparr>sd_execution_id = execution, sd_handled = handled\<rparr>, s'))))"

definition compile_and_start ::
  "('p, 'w) executions \<Rightarrow> string \<Rightarrow> instant \<Rightarrow> start_order \<Rightarrow> inner \<Rightarrow> (start_refused + started) \<times> inner" where
  "compile_and_start xe fresh now order s =
     (case start_handler xe of
        Inl err \<Rightarrow> (Inl err, s)
      | Inr _ \<Rightarrow>
          (case compile_target xe now (so_target order) (so_window order) of
             Inl err \<Rightarrow> (Inl err, s)
           | Inr plan \<Rightarrow> start_run xe fresh now plan (so_run order) s))"

end
