(* ===== verification/Start_Props.thy ===== *)
theory Start_Props
  imports Start Handler_Props
begin

text \<open>
  What starting promises: the same request under the same identity is one run, the run of a project
  is the project's and nobody else's, two projects never derive one id, and what no project may run
  is refused before anything is written, every step by name.
\<close>

subsection \<open>What a handled start leaves\<close>

lemma find_recorded: "List.find (\<lambda>m. md_message_id (rm_metadata m) = i) (stream_of s x) \<noteq> None \<Longrightarrow> recorded_id s x i"
  by (simp add: recorded_find)

lemma recorded_holds: "recorded_id s x i \<Longrightarrow> holds s x"
  by (auto simp: recorded_id_def holds_stream_of)

lemma owner_appended:
  assumes "store_append sz b clock x req s = (Inr outcome, s')" and "ar_ownership req = Some w" and "store_ok s"
  shows "owner_of s' x = Some w \<and> bound_scope b = Project (ow_scope w)"
  using assms(1)
proof (cases rule: store_append_cases)
  case (committed establishing)
  with assms(2) show ?thesis
    by (auto simp: assms(2) owner_of_commit binding_appending_def binding_check_def binding_admits_def
        split: execution_scope.splits option.splits if_splits)
next
  case (duplicate seen establishing)
  then have "holds s x"
    using seen_is_recorded [OF assms(3)] recorded_holds by blast
  with duplicate assms(2) show ?thesis
    by (auto simp: assms(2) holds_stream_of binding_appending_def binding_check_def binding_admits_def
        split: execution_scope.splits option.splits if_splits)
qed auto

lemma handled_owner:
  assumes "decide_and_append en x input md now cp (Some w) s = (Inr answer, s')" and "store_reachable (en_size en) s"
    and "\<And>k t. store_steps (en_size en) t (en_others en k t)"
  shows "owner_of s' x = Some w \<and> bound_scope (en_binding en) = Project (ow_scope w)"
proof -
  from handle_loop_last [OF assms(1) [unfolded decide_and_append_def] assms(3) HOL.refl] obtain k t where
    steps: "store_steps (en_size en) s t" and
    pass: "handle_pass en x input md now cp (Some w) k t = (Some (Inr answer), s')" by blast
  show ?thesis
  proof (cases "List.find (\<lambda>m. md_message_id (rm_metadata m) = md_message_id md) (stream_of t x)")
    case (Some seen)
    then have h: "holds t x" using find_recorded recorded_holds by blast
    from pass Some have "owner_of t x = Some w \<and> s' = t" and "inner_check t (en_binding en) x = Inr ()"
      by (auto simp: handle_pass_def store_load_def store_ownership_def guarded_def duplicate_answer_def Let_def
          split: sum.splits if_splits)
    with h show ?thesis
      by (auto simp: inner_check_def binding_check_def binding_admits_def split: if_splits execution_scope.splits)
        (cases "bound_scope (en_binding en)"; simp)
  next
    case None
    have ok: "store_ok (en_others en k t)"
      using store_reachable_ok steps_reachable [OF assms(3)] steps_reachable [OF steps assms(2)] by blast
    from pass show ?thesis
    proof (cases rule: handle_pass_cases)
      case (answered a)
      with None show ?thesis by auto
    next
      case (tried outputs q)
      then obtain outcome where "q = Inr outcome" by (cases q) (auto split: store_error.splits)
      with tried(3) show ?thesis by (intro owner_appended [OF _ _ ok]) auto
    qed
  qed
qed

lemma owner_stays: "owner_of s x = Some w \<Longrightarrow> holds s x \<Longrightarrow> store_steps sz s s' \<Longrightarrow> owner_of s' x = Some w \<and> holds s' x"
  using steps_keep [of sz s s' x] by (auto simp: keeps_def holds_stream_of)

lemma global_stays:
  assumes "owner_of s x = None" and "holds s x" and "store_steps sz s s'"
  shows "owner_of s' x = None \<and> holds s' x"
  using assms steps_keep [OF assms(3), of x] by (auto simp: keeps_def holds_stream_of)

lemma handled_global:
  assumes "decide_and_append en x input md now cp None s = (Inr answer, s')" and "bound_scope (en_binding en) = Global"
    and "\<And>k t. store_steps (en_size en) t (en_others en k t)" and "store_reachable (en_size en) s"
  shows "owner_of s' x = None"
proof -
  from handle_loop_last [OF assms(1) [unfolded decide_and_append_def] assms(3) HOL.refl] obtain k t where
    steps: "store_steps (en_size en) s t" and
    pass: "handle_pass en x input md now cp None k t = (Some (Inr answer), s')" by blast
  show ?thesis
  proof (cases "List.find (\<lambda>m. md_message_id (rm_metadata m) = md_message_id md) (stream_of t x)")
    case (Some seen)
    with pass have "inner_check t (en_binding en) x = Inr ()" "s' = t"
      by (auto simp: handle_pass_def store_load_def guarded_def split: sum.splits)
    with assms(2) show ?thesis
      by (cases "owner_of t x") (auto simp: inner_check_def binding_check_def binding_admits_def split: if_splits)
  next
    case None
    from pass show ?thesis
    proof (cases rule: handle_pass_cases)
      case (answered a)
      with None show ?thesis by auto
    next
      case (tried outputs q)
      then obtain outcome where "q = Inr outcome" by (cases q) (auto split: store_error.splits)
      with tried(3) show ?thesis
        by (cases rule: store_append_cases, auto simp: assms(2) owner_of_commit binding_appending_def
            binding_check_def binding_admits_def split: if_splits)
          (cases "owner_of (en_others en k t) x"; simp)+
    qed
  qed
qed

text \<open>An accepted start is an input handled under the id the start derives.\<close>

lemma started_is_handled:
  assumes "start_run xe fresh now plan run s = (Inr first, s1)" and "xe_handler xe = Some en"
  obtains payloads where
    "payload_policy_of xe (rr_payloads run) = Inr payloads"
    "rr_project run = None \<or> refuse_outside_a_project plan = Inr ()"
    "sd_execution_id first = run_identity_of (en_crates en) fresh (rr_identity run) plan (start_scope run)"
    "check_capacity (en_capabilities en) plan (snd (decider_parts (rr_decided_by run))) = Inr ()"
    "decide_and_append en (sd_execution_id first) (start_command plan run payloads (sd_execution_id first))
       (caused_by (sd_execution_id first) (start_message_id (en_crates en) (sd_execution_id first))
          (start_message_id (en_crates en) (sd_execution_id first)) now) now None
       (map_option (\<lambda>project. ownership_of project plan) (rr_project run)) s = (Inr (sd_handled first), s1)"
  using assms
  by (auto simp: start_run_def start_handler_def handle_start_def handle_with_checkpoint_def start_command_def Let_def
      split: sum.splits prod.splits if_splits)

subsection \<open>One identity, one run\<close>

lemma handled_again:
  assumes "recorded_id s x i" and "inner_admits s (en_binding en) x"
    and "own = None \<or> owner_of s x = own" and "md_message_id md = i"
  shows "\<exists>again. decide_and_append en x input md now cp own s = (Inr again, s) \<and> hd_duplicate again \<and> hd_outbox again = []"
proof -
  obtain seen where seen: "List.find (\<lambda>m. md_message_id (rm_metadata m) = md_message_id md) (stream_of s x) = Some seen"
    using recorded_find assms(1,4) by (metis option.exhaust)
  have "store_ownership (en_binding en) x s = Inr (owner_of s x)"
    using assms(2) by (simp add: store_ownership_def guarded_def inner_check_def inner_admits_def binding_check_def)
  with seen load_admitted [OF assms(2)] assms(3) show ?thesis
    by (auto simp: decide_and_append_def handle_pass_def duplicate_answer_def Let_def split: option.splits)
qed

text \<open>C9: The same request is one run: asked again under the same name or key, whatever the first said of
  its parameters or who asked and whatever operations happened since, with no retention sweep among
  them, a start reaches the run the first one started, decides nothing and writes nothing; in the
  unscoped path and in a project.\<close>

theorem repeated_start_is_one_run:
  assumes "start_run xe fresh now plan run s = (Inr first, s1)" and "xe_handler xe = Some en"
    and "store_reachable (en_size en) s" and "\<And>k t. store_steps (en_size en) t (en_others en k t)"
    and "store_steps (en_size en) s1 s2"
    and "rr_project run = None \<Longrightarrow> bound_scope (en_binding en) = Global"
    and "rr_identity run \<noteq> FreshRun" and "rr_identity run2 = rr_identity run" and "rr_project run2 = rr_project run"
    and "rr_payloads run2 = rr_payloads run" and "rr_decided_by run2 = rr_decided_by run"
  shows "\<exists>again. start_run xe fresh2 later plan run2 s2 = (Inr again, s2) \<and>
    sd_execution_id again = sd_execution_id first \<and>
    hd_duplicate (sd_handled again) \<and> hd_outbox (sd_handled again) = []"
proof -
  let ?x = "sd_execution_id first"
  let ?i = "start_message_id (en_crates en) ?x"
  let ?own = "map_option (\<lambda>project. ownership_of project plan) (rr_project run)"
  obtain payloads where p: "payload_policy_of xe (rr_payloads run) = Inr payloads"
    "rr_project run = None \<or> refuse_outside_a_project plan = Inr ()"
    "?x = run_identity_of (en_crates en) fresh (rr_identity run) plan (start_scope run)"
    "check_capacity (en_capabilities en) plan (snd (decider_parts (rr_decided_by run))) = Inr ()"
    and handled: "decide_and_append en ?x (start_command plan run payloads ?x) (caused_by ?x ?i ?i now) now None ?own s
      = (Inr (sd_handled first), s1)"
    by (rule started_is_handled [OF assms(1,2)])
  have rec1: "recorded_id s1 ?x ?i"
    using handled_is_recorded [OF handled assms(3,4)] by (simp add: caused_by_def)
  then have rec: "recorded_id s2 ?x ?i" using steps_keep [OF assms(5)] by (rule recorded_grows)
  have owned: "owner_of s2 ?x = ?own \<and> holds s2 ?x \<and> inner_admits s2 (en_binding en) ?x"
  proof (cases "rr_project run")
    case None
    have "owner_of s1 ?x = None"
      using handled_global [OF handled [unfolded None option.map] assms(6) [OF None] assms(4,3)] by simp
    then have "owner_of s2 ?x = None \<and> holds s2 ?x"
      using global_stays recorded_holds [OF rec1] assms(5) by blast
    with None assms(6) [OF None] show ?thesis by (simp add: inner_admits_def binding_admits_def)
  next
    case (Some project)
    note own = handled_owner [OF handled [unfolded Some option.map] assms(3,4)]
    then have "owner_of s2 ?x = Some (ownership_of project plan) \<and> holds s2 ?x"
      using owner_stays recorded_holds [OF rec1] assms(5) by blast
    with Some own show ?thesis by (simp add: inner_admits_def binding_admits_def)
  qed
  have x: "run_identity_of (en_crates en) fresh2 (rr_identity run2) plan (start_scope run2) = ?x"
    using assms(7-9) p(3)
    by (cases "rr_identity run") (auto simp: run_identity_of_def start_scope_def split: option.splits)
  have "\<exists>again. decide_and_append en ?x (start_command plan run2 payloads ?x) (caused_by ?x ?i ?i later) later None ?own s2
      = (Inr again, s2) \<and> hd_duplicate again \<and> hd_outbox again = []"
    by (rule handled_again [OF rec]) (use owned in \<open>simp_all add: caused_by_def\<close>)
  then obtain again where "decide_and_append en ?x (start_command plan run2 payloads ?x) (caused_by ?x ?i ?i later) later None ?own s2
      = (Inr again, s2)" "hd_duplicate again" "hd_outbox again = []" by blast
  moreover have "mode = snd (decider_parts (rr_decided_by run)) \<Longrightarrow>
      check_capacity (en_capabilities en) plan mode = Inr ()" for mode using p(4) by simp
  ultimately show ?thesis
    using p(1,2) assms(2,9-11) x
    by (auto simp: start_run_def start_handler_def handle_start_def handle_with_checkpoint_def start_command_def Let_def
        split: prod.splits)
qed

text \<open>A run started in a project is the project's: its steps all have a performer there, the project
  that asked is written down as its owner, and from then on exactly that project's path reaches it,
  whatever others do.\<close>

theorem project_run_belongs_to_the_project:
  assumes "start_run xe fresh now plan run s = (Inr first, s1)" and "xe_handler xe = Some en"
    and "store_reachable (en_size en) s" and "\<And>k t. store_steps (en_size en) t (en_others en k t)"
    and "store_steps (en_size en) s1 s2" and "rr_project run = Some project"
  shows "list_all (\<lambda>step. outside_a_project (binding_kind (ps_runtime step)) = None) (plan_steps plan) \<and>
    owner_of s2 (sd_execution_id first) = Some (ownership_of project plan) \<and>
    (inner_admits s2 b (sd_execution_id first) \<longleftrightarrow> bound_scope b = Project (pj_scope project))"
proof -
  let ?x = "sd_execution_id first"
  let ?i = "start_message_id (en_crates en) ?x"
  obtain payloads where inside: "rr_project run = None \<or> refuse_outside_a_project plan = Inr ()"
    and handled: "decide_and_append en ?x (start_command plan run payloads ?x) (caused_by ?x ?i ?i now) now None
        (map_option (\<lambda>project. ownership_of project plan) (rr_project run)) s = (Inr (sd_handled first), s1)"
    by (rule started_is_handled [OF assms(1,2)])
  have "list_all (\<lambda>step. outside_a_project (binding_kind (ps_runtime step)) = None) (plan_steps plan)"
    using inside assms(6)
    by (auto simp: refuse_outside_a_project_def Let_def list_all_iff outside_problem_def List.map_filter_def
        filter_empty_conv split: if_splits)
  moreover have "recorded_id s1 ?x ?i"
    using handled_is_recorded [OF handled assms(3,4)] by (simp add: caused_by_def)
  then have "holds s1 ?x" by (rule recorded_holds)
  with handled_owner [OF handled [unfolded assms(6) option.map] assms(3,4)]
  have "owner_of s2 ?x = Some (ownership_of project plan) \<and> holds s2 ?x"
    using owner_stays assms(5) by blast
  ultimately show ?thesis
    by (cases "bound_scope b") (auto simp: inner_admits_def binding_admits_def ownership_of_def)
qed

subsection \<open>Two projects\<close>

lemma project_prefix_inj:
  assumes "project_prefix p @ CHR ''/'' # a = project_prefix q @ CHR ''/'' # b"
  shows "p = q"
proof -
  have len: "length (uuid_display w) = length (uuid_display v)" for w v :: u128
    by (simp add: uuid_display_def uuid_text_def be_bytes_def)
  from assms have "uuid_display (sc_organization p) = uuid_display (sc_organization q)"
    "uuid_display (sc_project p) = uuid_display (sc_project q)"
    by (simp_all add: project_prefix_def append_eq_append_conv [OF disjI1, OF len])
  then show ?thesis by (auto dest!: uuid_display_inj simp: project_scope.expand)
qed

lemma project_texts_differ:
  assumes "p \<noteq> q" and "i \<noteq> FreshRun" and "j \<noteq> FreshRun"
  shows "project_run_text p i plan \<noteq> project_run_text q j plan2"
  using assms by (cases i; cases j) (auto dest!: project_prefix_inj)

text \<open>Two projects never share a run: whatever names or keys two different projects start their runs
  under, the ids differ, as long as the hash tells the two texts apart; neither the same key nor the
  same slot reaches the other's history.\<close>

theorem projects_never_share_a_run:
  assumes "p \<noteq> q" and "i \<noteq> FreshRun" and "j \<noteq> FreshRun"
    and "inj_on (derive_uuid C) {project_run_text p i plan, project_run_text q j plan2}"
  shows "run_identity_of C fresh i plan (Project p) \<noteq> run_identity_of C fresh2 j plan2 (Project q)"
proof -
  have "derive_uuid C (project_run_text p i plan) \<noteq> derive_uuid C (project_run_text q j plan2)"
    using project_texts_differ [OF assms(1-3)] assms(4) by (auto dest: inj_onD)
  then show ?thesis
    using assms(2,3) by (cases i; cases j) (simp_all add: run_identity_of_def)
qed

subsection \<open>Refusals\<close>

text \<open>What a project may not run is refused before anything is written: a plan with a step no project
  performer takes starts nothing, and the refusal has one problem for each such step, in order, and
  says the same thing next time.\<close>

theorem project_start_is_refused_by_name:
  assumes "xe_handler xe = Some en" and "payload_policy_of xe (rr_payloads run) = Inr payloads"
    and "rr_project run = Some project"
    and "list_ex (\<lambda>step. outside_a_project (binding_kind (ps_runtime step)) \<noteq> None) (plan_steps plan)"
  shows "start_run xe fresh now plan run s =
      (Inl (SrRefused ''this plan has steps a project has no performer for''
         (List.map_filter outside_problem (plan_steps plan))), s) \<and>
    length (List.map_filter outside_problem (plan_steps plan)) =
      length (filter (\<lambda>step. outside_a_project (binding_kind (ps_runtime step)) \<noteq> None) (plan_steps plan)) \<and>
    start_same_next_time (SrRefused ''this plan has steps a project has no performer for''
         (List.map_filter outside_problem (plan_steps plan)))"
proof -
  have "List.map_filter outside_problem (plan_steps plan) \<noteq> []"
    using assms(4) by (auto simp: List.map_filter_def filter_empty_conv list_ex_iff outside_problem_def Let_def)
  moreover have "(\<lambda>step. outside_problem step \<noteq> None) = (\<lambda>step. outside_a_project (binding_kind (ps_runtime step)) \<noteq> None)"
    by (simp add: outside_problem_def Let_def fun_eq_iff)
  then have "length (List.map_filter outside_problem (plan_steps plan)) =
      length (filter (\<lambda>step. outside_a_project (binding_kind (ps_runtime step)) \<noteq> None) (plan_steps plan))"
    by (simp add: List.map_filter_def)
  ultimately show ?thesis
    using assms(1-3) by (simp add: start_run_def start_handler_def refuse_outside_a_project_def)
qed

text \<open>Nothing wired, an unresolvable policy, a plan outside a project: refused before the store is
  read.\<close>

lemma refused_before_the_store:
  "start_run xe fresh now plan run s = (Inl err, s') \<Longrightarrow> (\<And>e. err \<noteq> SrCommand e) \<Longrightarrow> s' = s"
  by (auto simp: start_run_def Let_def split: sum.splits prod.splits)

end
