(* ===== verification/Schedule_Rule.thy ===== *)
theory Schedule_Rule
  imports Slot
begin

text \<open>
  Which instants a cadence fires at, inside an interval: \<open>schedule/rule.rs\<close>. A \<open>Date\<close> is the number
  of days since 1970-01-01 and a wall time (\<open>PrimitiveDateTime\<close>) the nanoseconds a clock shows since
  1970-01-01 00:00 of that clock; both with the bounds of the crate \<open>time\<close>. The zone database of the
  crate \<open>time-tz\<close> is a parameter: a zone says which offset is in force at an instant
  (\<open>to_timezone\<close>) and which instants show a wall time (\<open>assume_timezone\<close>). \<open>zone_ok\<close> states what
  the crate documents of the two: they agree, and an offset is less than a day.
\<close>

subsection \<open>Time zones and dates\<close>

datatype offset_result = OneInstant instant | TwoInstants instant instant | NoInstant

record time_zone =
  tz_offset :: "instant \<Rightarrow> int"
  tz_assume :: "int \<Rightarrow> offset_result"

definition DAY :: int where
  "DAY = seconds 86400"

text \<open>\<open>Date::MAX\<close>, 9999-12-31, and the range of \<open>from_unix_timestamp\<close>.\<close>

definition DATE_MAX :: int where
  "DATE_MAX = 2932896"

definition at_unix :: "int \<Rightarrow> instant option" where
  "at_unix s = (if - 377705116800 \<le> s \<and> s \<le> 253402300799 then Some (seconds s) else None)"

definition next_day :: "int \<Rightarrow> int option" where
  "next_day date = (if date < DATE_MAX then Some (date + 1) else None)"

text \<open>\<open>number_days_from_monday\<close>: 1970-01-01 was a Thursday.\<close>

definition weekday_number :: "int \<Rightarrow> u8" where
  "weekday_number date = word_of_int ((date + 3) mod 7)"

definition local_wall :: "time_zone \<Rightarrow> instant \<Rightarrow> int" where
  "local_wall zone at = at + seconds (tz_offset zone at)"

definition local_date :: "time_zone \<Rightarrow> instant \<Rightarrow> int" where
  "local_date zone at = local_wall zone at div DAY"

definition zone_ok :: "time_zone \<Rightarrow> bool" where
  "zone_ok zone \<longleftrightarrow>
     (\<forall>at. \<bar>tz_offset zone at\<bar> < 86400)
     \<and> (\<forall>wall. case tz_assume zone wall of
          OneInstant a \<Rightarrow> local_wall zone a = wall
        | TwoInstants a b \<Rightarrow> a \<noteq> b \<and> local_wall zone a = wall \<and> local_wall zone b = wall
        | NoInstant \<Rightarrow> \<forall>at. local_wall zone at \<noteq> wall)"

subsection \<open>Schedules\<close>

datatype cadence = Hourly u8 | Daily u8 u8 | Weekly u8 u8 u8

record schedule =
  sc_cadence :: cadence
  sc_timezone :: string
  sc_enabled :: bool
  sc_overlap :: overlap_policy

datatype schedule_error = OutOfRange string u8 u8 | UnknownZone string

definition bounded :: "string \<Rightarrow> u8 \<Rightarrow> u8 \<Rightarrow> schedule_error + unit" where
  "bounded field v limit = (if limit < v then Inl (OutOfRange field v limit) else Inr ())"

definition schedule_check :: "(string \<Rightarrow> time_zone option) \<Rightarrow> schedule \<Rightarrow> schedule_error + unit" where
  "schedule_check zones s =
     (let (hour, minute, weekday) =
        (case sc_cadence s of
           Hourly minute \<Rightarrow> (0, minute, None)
         | Daily hour minute \<Rightarrow> (hour, minute, None)
         | Weekly weekday hour minute \<Rightarrow> (hour, minute, Some weekday))
      in case bounded ''hour'' hour 23 of Inl err \<Rightarrow> Inl err | Inr _ \<Rightarrow>
         (case bounded ''minute'' minute 59 of Inl err \<Rightarrow> Inl err | Inr _ \<Rightarrow>
         (case (case weekday of None \<Rightarrow> Inr () | Some day \<Rightarrow> bounded ''weekday'' day 6) of
            Inl err \<Rightarrow> Inl err
          | Inr _ \<Rightarrow> if zones (sc_timezone s) = None then Inl (UnknownZone (sc_timezone s)) else Inr ())))"

definition fires_the_same_as :: "schedule \<Rightarrow> schedule \<Rightarrow> bool" where
  "fires_the_same_as s t \<longleftrightarrow>
     sc_cadence s = sc_cadence t \<and> sc_timezone s = sc_timezone t \<and> sc_enabled s = sc_enabled t"

text \<open>\<open>Time::from_hms(hour, minute, 0).ok()\<close> put on a date.\<close>

definition wall_time :: "int \<Rightarrow> u8 \<Rightarrow> u8 \<Rightarrow> int option" where
  "wall_time date hour minute =
     (if hour \<le> 23 \<and> minute \<le> 59
      then Some (date * DAY + seconds (3600 * uint hour + 60 * uint minute)) else None)"

definition wall_times_on :: "cadence \<Rightarrow> int \<Rightarrow> int list" where
  "wall_times_on c date =
     (case c of
        Hourly minute \<Rightarrow> List.map_filter (\<lambda>hour. wall_time date hour minute) (map word_of_nat [0..<24])
      | Daily hour minute \<Rightarrow> List.map_filter (\<lambda>hour. wall_time date hour minute) [hour]
      | Weekly weekday hour minute \<Rightarrow>
          if weekday_number date \<noteq> weekday then []
          else List.map_filter (\<lambda>hour. wall_time date hour minute) [hour])"

subsection \<open>A wall time the clocks skipped\<close>

function bisect :: "time_zone \<Rightarrow> int \<Rightarrow> int \<Rightarrow> int \<Rightarrow> int option" where
  "bisect zone wall low high =
     (if 1 < high - low then
        let middle = low + (high - low) div 2 in
        (case at_unix middle of
           None \<Rightarrow> None
         | Some at \<Rightarrow>
             if local_wall zone at < wall then bisect zone wall middle high
             else bisect zone wall low middle)
      else Some high)"
  by pat_completeness auto
termination
  by (relation "measure (\<lambda>(zone, wall, low, high). nat (high - low))") (auto simp: nat_less_iff)

declare bisect.simps [simp del]

definition clocks_reach :: "time_zone \<Rightarrow> int \<Rightarrow> instant option" where
  "clocks_reach zone wall =
     (let anchor = wall div seconds 1; low = anchor - 14 * 3600; high = anchor + 14 * 3600 in
      case (at_unix low, at_unix high) of
        (Some l, Some h) \<Rightarrow>
          if wall \<le> local_wall zone l \<or> local_wall zone h < wall then None
          else (case bisect zone wall low high of None \<Rightarrow> None | Some s \<Rightarrow> at_unix s)
      | _ \<Rightarrow> None)"

definition resolve :: "cadence \<Rightarrow> time_zone \<Rightarrow> int \<Rightarrow> instant list" where
  "resolve c zone wall =
     (case tz_assume zone wall of
        OneInstant at \<Rightarrow> [at]
      | TwoInstants one other \<Rightarrow>
          (case c of Hourly _ \<Rightarrow> [min one other, max one other] | _ \<Rightarrow> [min one other])
      | NoInstant \<Rightarrow>
          (case c of
             Hourly _ \<Rightarrow> []
           | _ \<Rightarrow> (case clocks_reach zone wall of None \<Rightarrow> [] | Some at \<Rightarrow> [at])))"

subsection \<open>The slots of an interval\<close>

fun push_slots :: "instant \<Rightarrow> instant \<Rightarrow> instant list \<Rightarrow> instant list \<Rightarrow> instant list" where
  "push_slots previous now slots [] = slots"
| "push_slots previous now slots (at # rest) =
     push_slots previous now
       (if previous < at \<and> at \<le> now \<and> at \<notin> set slots then slots @ [at] else slots) rest"

definition fired_on :: "cadence \<Rightarrow> time_zone \<Rightarrow> int \<Rightarrow> instant list" where
  "fired_on c zone date = concat (map (resolve c zone) (wall_times_on c date))"

function walk_dates ::
  "cadence \<Rightarrow> time_zone \<Rightarrow> instant \<Rightarrow> instant \<Rightarrow> int \<Rightarrow> int \<Rightarrow> instant list \<Rightarrow> instant list" where
  "walk_dates c zone previous now last_date date slots =
     (if date \<le> last_date then
        let found = push_slots previous now slots (fired_on c zone date) in
        (case next_day date of
           None \<Rightarrow> found
         | Some following \<Rightarrow> walk_dates c zone previous now last_date following found)
      else slots)"
  by pat_completeness auto
termination
  by (relation "measure (\<lambda>(c, zone, previous, now, last_date, date, slots). nat (last_date + 1 - date))")
    (auto simp: next_day_def split: if_splits)

declare walk_dates.simps [simp del]

definition slots_between ::
  "(string \<Rightarrow> time_zone option) \<Rightarrow> schedule \<Rightarrow> instant \<Rightarrow> instant \<Rightarrow> instant list" where
  "slots_between zones s previous now =
     (if \<not> sc_enabled s \<or> now \<le> previous then []
      else (case zones (sc_timezone s) of
              None \<Rightarrow> []
            | Some zone \<Rightarrow>
                sort (walk_dates (sc_cadence s) zone previous now
                  (local_date zone now + 2) (local_date zone previous - 2) [])))"

definition next_after :: "(string \<Rightarrow> time_zone option) \<Rightarrow> schedule \<Rightarrow> instant \<Rightarrow> instant option" where
  "next_after zones s now =
     (case slots_between zones s now (now + 8 * DAY) of [] \<Rightarrow> None | at # _ \<Rightarrow> Some at)"

subsection \<open>The walk\<close>

lemma push_slots_set:
  "set (push_slots previous now slots rest) = set slots \<union> {at \<in> set rest. previous < at \<and> at \<le> now}"
  by (induction slots rest rule: push_slots.induct) auto

lemma push_slots_distinct: "distinct slots \<Longrightarrow> distinct (push_slots previous now slots rest)"
  by (induction slots rest rule: push_slots.induct) auto

lemma walk_dates_set:
  assumes "last_date \<le> DATE_MAX"
  shows "set (walk_dates c zone previous now last_date date slots) = set slots \<union>
    {at. previous < at \<and> at \<le> now \<and> (\<exists>d. date \<le> d \<and> d \<le> last_date \<and> at \<in> set (fired_on c zone d))}"
  using assms
proof (induction c zone previous now last_date date slots rule: walk_dates.induct)
  case (1 c zone previous now last_date date slots)
  show ?case
  proof (cases "date \<le> last_date")
    case False
    then show ?thesis by (subst walk_dates.simps) auto
  next
    case True
    let ?found = "push_slots previous now slots (fired_on c zone date)"
    have day: "(\<exists>d. date \<le> d \<and> d \<le> last_date \<and> P d) \<longleftrightarrow>
        P date \<or> (\<exists>d. date + 1 \<le> d \<and> d \<le> last_date \<and> P d)" for P
    proof
      assume "\<exists>d. date \<le> d \<and> d \<le> last_date \<and> P d"
      then obtain d where d: "date \<le> d" "d \<le> last_date" "P d" by blast
      then show "P date \<or> (\<exists>d. date + 1 \<le> d \<and> d \<le> last_date \<and> P d)"
        by (cases "d = date") (auto intro!: exI [of _ d])
    next
      assume "P date \<or> (\<exists>d. date + 1 \<le> d \<and> d \<le> last_date \<and> P d)"
      then show "\<exists>d. date \<le> d \<and> d \<le> last_date \<and> P d"
      proof (elim disjE exE conjE)
        fix d
        assume "date + 1 \<le> d" "d \<le> last_date" "P d"
        then show ?thesis by (intro exI [of _ d]) simp
      qed (use True in blast)
    qed
    show ?thesis
    proof (cases "date < DATE_MAX")
      case nxt: True
      then have "next_day date = Some (date + 1)" by (simp add: next_day_def)
      with 1 True have "set (walk_dates c zone previous now last_date (date + 1) ?found) = set ?found \<union>
        {at. previous < at \<and> at \<le> now \<and> (\<exists>d. date + 1 \<le> d \<and> d \<le> last_date \<and> at \<in> set (fired_on c zone d))}"
        by blast
      then show ?thesis
        using True \<open>next_day date = Some (date + 1)\<close>
        by (subst walk_dates.simps, subst day) (auto simp: push_slots_set)
    next
      case False
      with True 1(2) have "last_date = date" "next_day date = None" by (auto simp: next_day_def)
      then show ?thesis
        by (subst walk_dates.simps) (auto simp: push_slots_set dest: antisym)
    qed
  qed
qed

lemma walk_dates_distinct:
  "distinct slots \<Longrightarrow> distinct (walk_dates c zone previous now last_date date slots)"
proof (induction c zone previous now last_date date slots rule: walk_dates.induct)
  case (1 c zone previous now last_date date slots)
  then show ?case
    by (subst walk_dates.simps) (auto simp: Let_def push_slots_distinct split: option.splits)
qed

end
