(* ===== verification/Schedule_Props.thy ===== *)
theory Schedule_Props
  imports Schedule_Rule
begin

text \<open>
  What the rule promises: the slots of an interval are the instants the cadence names in it, however
  the interval is cut into ticks; the next run a panel shows is the one the tick finds; a wall time
  the clocks skipped fires at the moment they pass it; every slot is a whole second; and a daily
  schedule always has a next run.
\<close>

subsection \<open>The bisection\<close>

lemma bisect_inside:
  assumes "low < high" and "bisect zone wall low high = Some s"
  shows "low < s \<and> s \<le> high"
  using assms
proof (induction zone wall low high rule: bisect.induct)
  case (1 zone wall low high)
  show ?case
  proof (cases "1 < high - low")
    case False
    with 1(3,4) show ?thesis by (subst (asm) bisect.simps) auto
  next
    case True
    let ?m = "low + (high - low) div 2"
    have m: "low < ?m" "?m < high" using True by auto
    from 1(4) True obtain at where at: "at_unix ?m = Some at"
      by (subst (asm) bisect.simps) (auto simp: Let_def split: option.splits)
    from 1(4) True at m 1(1,2) [OF True HOL.refl at] show ?thesis
      by (subst (asm) bisect.simps) (fastforce simp: Let_def split: if_splits)
  qed
qed

lemma bisect_crossing:
  assumes "low < high" and "local_wall zone (seconds low) < wall" and "wall \<le> local_wall zone (seconds high)"
    and "- 377705116800 \<le> low" and "high \<le> 253402300799"
  obtains s where "bisect zone wall low high = Some s" "low < s" "s \<le> high"
    "wall \<le> local_wall zone (seconds s)" "local_wall zone (seconds (s - 1)) < wall"
proof -
  have "\<exists>s. bisect zone wall low high = Some s \<and> low < s \<and> s \<le> high \<and>
    wall \<le> local_wall zone (seconds s) \<and> local_wall zone (seconds (s - 1)) < wall"
    using assms
  proof (induction zone wall low high rule: bisect.induct)
    case (1 zone wall low high)
    show ?case
    proof (cases "1 < high - low")
      case False
      then have "low = high - 1" using 1(3) by simp
      with False 1(3-5) show ?thesis by (subst bisect.simps) auto
    next
      case True
      let ?m = "low + (high - low) div 2"
      have m: "low < ?m" "?m < high" using True by auto
      then have at: "at_unix ?m = Some (seconds ?m)" using 1(6,7) by (simp add: at_unix_def)
      show ?thesis
      proof (cases "local_wall zone (seconds ?m) < wall")
        case lower: True
        from 1(1) [OF True HOL.refl at lower m(2) lower 1(5)] m 1(6,7)
        show ?thesis using True at lower by (subst bisect.simps) (auto simp: Let_def)
      next
        case upper: False
        from 1(2) [OF True HOL.refl at upper m(1) 1(4)] upper m 1(6,7)
        show ?thesis using True at by (subst bisect.simps) (auto simp: Let_def)
      qed
    qed
  qed
  then show ?thesis using that by blast
qed

lemma seconds_div [simp]: "seconds s div seconds 1 = s"
  by (simp add: seconds_def)

text \<open>The search for a skipped wall time begins fourteen hours to either side of it. It finds the change of
  the clocks wherever the clock reads less at the one end and no less at the other.\<close>

definition bracketed :: "time_zone \<Rightarrow> int \<Rightarrow> bool" where
  "bracketed zone wall \<longleftrightarrow>
     local_wall zone (wall - seconds (14 * 3600)) < wall \<and> wall \<le> local_wall zone (wall + seconds (14 * 3600))"

lemma bracketed_within: "(\<And>at. \<bar>tz_offset zone at\<bar> < 14 * 3600) \<Longrightarrow> bracketed zone wall"
proof -
  assume off: "\<And>at. \<bar>tz_offset zone at\<bar> < 14 * 3600"
  from off [of "wall - seconds (14 * 3600)"] off [of "wall + seconds (14 * 3600)"] show ?thesis
    by (auto simp: bracketed_def local_wall_def seconds_def abs_less_iff)
qed

text \<open>For a wall time the clocks skipped, on whole seconds: the answer is the first second at which
  the clock reads no less.\<close>

lemma crossing_reached:
  assumes "wall = seconds w" and "bracketed zone wall"
    and "- 377705000000 \<le> w" and "w \<le> 253402200000"
  shows "\<exists>s. clocks_reach zone wall = Some (seconds s)
    \<and> wall \<le> local_wall zone (seconds s) \<and> local_wall zone (seconds (s - 1)) < wall"
proof -
  let ?low = "w - 14 * 3600" and ?high = "w + 14 * 3600"
  have anchor: "wall div seconds 1 = w" using assms(1) by simp
  have at: "at_unix ?low = Some (seconds ?low)" "at_unix ?high = Some (seconds ?high)"
    using assms(3,4) by (simp_all add: at_unix_def)
  have ends: "wall - seconds (14 * 3600) = seconds ?low" "wall + seconds (14 * 3600) = seconds ?high"
    by (simp_all add: assms(1) seconds_def)
  have low: "local_wall zone (seconds ?low) < wall" and high: "wall \<le> local_wall zone (seconds ?high)"
    using assms(2) by (simp_all only: bracketed_def ends)
  obtain s where s: "bisect zone wall ?low ?high = Some s" "?low < s" "s \<le> ?high"
    "wall \<le> local_wall zone (seconds s)" "local_wall zone (seconds (s - 1)) < wall"
    by (rule bisect_crossing [OF _ low high]) (use assms(3,4) in auto)
  then have "at_unix s = Some (seconds s)" using assms(3,4) by (simp add: at_unix_def)
  with s low high at show ?thesis
    by (auto simp: clocks_reach_def Let_def anchor)
qed

text \<open>A wall time the clocks skipped fires at the first second that reads at least that much.\<close>

theorem skipped_time_fires_at_the_crossing:
  assumes "tz_assume zone (seconds w) = NoInstant" and "- 377705000000 \<le> w" and "w \<le> 253402200000"
    and "bracketed zone (seconds w)"
  shows "\<exists>s. resolve (Daily hour minute) zone (seconds w) = [seconds s]
    \<and> seconds w \<le> local_wall zone (seconds s) \<and> local_wall zone (seconds (s - 1)) < seconds w"
  using crossing_reached [OF HOL.refl assms(4,2,3)] assms(1) by (auto simp: resolve_def)

subsection \<open>Where a fired instant lies\<close>

lemma map_filter_mem: "x \<in> set (List.map_filter f xs) \<longleftrightarrow> (\<exists>a \<in> set xs. f a = Some x)"
  by (induction xs) (auto simp: List.map_filter_def)

lemma day_pos: "0 < DAY"
  by (simp add: DAY_def seconds_def)

lemma uint8_range: "0 \<le> uint (x :: u8)" "x \<le> 23 \<Longrightarrow> uint x \<le> 23" "x \<le> 59 \<Longrightarrow> uint x \<le> 59"
  by (auto simp: word_le_def)

lemma wall_time_bounds:
  assumes "wall_time date hour minute = Some wall"
  obtains w where "wall = seconds w" "date * DAY \<le> wall" "wall < (date + 1) * DAY"
proof -
  from assms have hm: "hour \<le> 23" "minute \<le> 59"
    and wall: "wall = date * DAY + seconds (3600 * uint hour + 60 * uint minute)"
    by (auto simp: wall_time_def split: if_splits)
  from hm have "0 \<le> 3600 * uint hour + 60 * uint minute" "3600 * uint hour + 60 * uint minute < 86400"
    using uint8_range [of hour] uint8_range [of minute] by auto
  then have "date * DAY \<le> wall" "wall < (date + 1) * DAY"
    unfolding wall DAY_def seconds_def by (auto simp: algebra_simps)
  moreover have "wall = seconds (date * 86400 + 3600 * uint hour + 60 * uint minute)"
    by (simp add: wall DAY_def seconds_def algebra_simps)
  ultimately show ?thesis using that by blast
qed

lemma wall_times_bounds:
  assumes "wall \<in> set (wall_times_on c date)"
  obtains w where "wall = seconds w" "date * DAY \<le> wall" "wall < (date + 1) * DAY"
proof -
  have "\<exists>hour minute. wall_time date hour minute = Some wall"
    using assms unfolding wall_times_on_def
    by (cases c) (simp_all add: map_filter_mem split: if_splits option.splits, blast+)
  then show ?thesis using wall_time_bounds that by blast
qed

lemma clocks_reach_near:
  assumes "clocks_reach zone wall = Some at" and "wall = seconds w"
  obtains s where "at = seconds s" "w - 14 * 3600 < s" "s \<le> w + 14 * 3600"
  using assms bisect_inside [of "w - 14 * 3600" "w + 14 * 3600" zone wall]
  by (auto simp: clocks_reach_def Let_def at_unix_def split: option.splits if_splits)

lemma resolve_near:
  assumes "zone_ok zone" and "wall = seconds w" and "at \<in> set (resolve c zone wall)"
  obtains s where "at = seconds s" "\<bar>s - w\<bar> < 86400"
proof -
  have shown: "\<exists>s. at = seconds s \<and> \<bar>s - w\<bar> < 86400" if "local_wall zone at = wall"
  proof -
    have "at = seconds (w - tz_offset zone at)"
      using that assms(2) by (simp add: local_wall_def seconds_def algebra_simps)
    moreover have "\<bar>tz_offset zone at\<bar> < 86400" using assms(1) by (simp add: zone_ok_def)
    ultimately show ?thesis by (intro exI [of _ "w - tz_offset zone at"]) auto
  qed
  have agrees: "case tz_assume zone wall of
          OneInstant a \<Rightarrow> local_wall zone a = wall
        | TwoInstants a b \<Rightarrow> a \<noteq> b \<and> local_wall zone a = wall \<and> local_wall zone b = wall
        | NoInstant \<Rightarrow> \<forall>at. local_wall zone at \<noteq> wall"
    using assms(1) unfolding zone_ok_def by blast
  have "\<exists>s. at = seconds s \<and> \<bar>s - w\<bar> < 86400"
  proof (cases "tz_assume zone wall")
    case (OneInstant a)
    with agrees assms(3) shown show ?thesis by (simp add: resolve_def)
  next
    case (TwoInstants a b)
    with assms(3) have "at = a \<or> at = b"
      by (auto simp: resolve_def min_def max_def split: cadence.splits if_splits)
    with TwoInstants agrees shown show ?thesis by auto
  next
    case NoInstant
    with assms(3) have "clocks_reach zone wall = Some at"
      by (auto simp: resolve_def split: cadence.splits option.splits)
    then obtain s where "at = seconds s" "w - 14 * 3600 < s" "s \<le> w + 14 * 3600"
      by (rule clocks_reach_near [OF _ assms(2)])
    then show ?thesis by (intro exI [of _ s]) auto
  qed
  then show ?thesis using that by blast
qed

lemma fired_near:
  assumes "zone_ok zone" and "at \<in> set (fired_on c zone d)"
  obtains s where "at = seconds s" "(d - 1) * DAY < at" "at < (d + 2) * DAY"
proof -
  from assms(2) obtain wall where wall: "wall \<in> set (wall_times_on c d)" "at \<in> set (resolve c zone wall)"
    by (auto simp: fired_on_def)
  obtain w where w: "wall = seconds w" "d * DAY \<le> wall" "wall < (d + 1) * DAY"
    using wall(1) by (rule wall_times_bounds)
  obtain s where s: "at = seconds s" "\<bar>s - w\<bar> < 86400"
    using assms(1) w(1) wall(2) by (rule resolve_near)
  have "wall - DAY < at" "at < wall + DAY" using s w(1) by (auto simp: DAY_def seconds_def)
  with w(2,3) s(1) that show ?thesis by (auto simp: algebra_simps)
qed

text \<open>Within the calendar of the crate: no date the walk builds is past \<open>Date::MAX\<close>.\<close>

definition in_calendar :: "instant \<Rightarrow> bool" where
  "in_calendar now \<longleftrightarrow> now + 4 * DAY \<le> DATE_MAX * DAY"

lemma in_calendar_mono: "in_calendar now \<Longrightarrow> earlier \<le> now \<Longrightarrow> in_calendar earlier"
  by (simp add: in_calendar_def)

lemma local_date_near:
  assumes "zone_ok zone"
  shows "(local_date zone at - 1) * DAY < at" and "at < (local_date zone at + 2) * DAY"
proof -
  have off: "\<bar>local_wall zone at - at\<bar> < DAY"
  proof -
    have "\<bar>tz_offset zone at\<bar> < 86400" using assms by (simp add: zone_ok_def)
    then show ?thesis by (simp add: local_wall_def DAY_def seconds_def abs_less_iff)
  qed
  have "local_date zone at * DAY \<le> local_wall zone at"
    "local_wall zone at < (local_date zone at + 1) * DAY"
  proof -
    have "local_wall zone at = local_date zone at * DAY + local_wall zone at mod DAY"
      by (simp add: local_date_def)
    moreover have "local_wall zone at mod DAY < DAY" "0 \<le> local_wall zone at mod DAY"
      using day_pos by simp_all
    ultimately show "local_date zone at * DAY \<le> local_wall zone at"
      "local_wall zone at < (local_date zone at + 1) * DAY"
      unfolding distrib_right by linarith+
  qed
  with off show "(local_date zone at - 1) * DAY < at" "at < (local_date zone at + 2) * DAY"
    by (auto simp: algebra_simps abs_less_iff)
qed

lemma walked_dates:
  assumes "zone_ok zone" and "at \<in> set (fired_on c zone d)" and "previous < at" and "at \<le> now"
  shows "local_date zone previous - 2 \<le> d" and "d \<le> local_date zone now + 2"
proof -
  obtain s where s: "(d - 1) * DAY < at" "at < (d + 2) * DAY"
    using assms(1,2) by (rule fired_near)
  have "(local_date zone previous - 1) * DAY < (d + 2) * DAY"
    using local_date_near(1) [OF assms(1), of previous] s(2) assms(3) by linarith
  then show "local_date zone previous - 2 \<le> d" using day_pos by simp
  have "(d - 1) * DAY < (local_date zone now + 2) * DAY"
    using local_date_near(2) [OF assms(1), of now] s(1) assms(4) by linarith
  then show "d \<le> local_date zone now + 2" using day_pos by simp
qed

lemma walk_inside_calendar:
  assumes "zone_ok zone" and "in_calendar now"
  shows "local_date zone now + 2 \<le> DATE_MAX"
proof -
  have "(local_date zone now + 3) * DAY < DATE_MAX * DAY"
    using local_date_near(1) [OF assms(1), of now] assms(2)
    by (simp add: in_calendar_def algebra_simps)
  then show ?thesis using day_pos by simp
qed

subsection \<open>What the slots are\<close>

text \<open>The reference: every instant the cadence names on any date, inside the interval.\<close>

definition names_instant :: "schedule \<Rightarrow> time_zone \<Rightarrow> instant \<Rightarrow> bool" where
  "names_instant s zone at \<longleftrightarrow> (\<exists>d. at \<in> set (fired_on (sc_cadence s) zone d))"

lemma slots_named:
  assumes "sc_enabled s" and "zones (sc_timezone s) = Some zone" and "zone_ok zone" and "in_calendar now"
  shows "sorted_wrt (<) (slots_between zones s previous now) \<and>
    set (slots_between zones s previous now) = {at. previous < at \<and> at \<le> now \<and> names_instant s zone at}"
proof (cases "now \<le> previous")
  case True
  then show ?thesis by (auto simp: slots_between_def)
next
  case False
  let ?walk = "walk_dates (sc_cadence s) zone previous now (local_date zone now + 2) (local_date zone previous - 2) []"
  have eq: "slots_between zones s previous now = sort ?walk"
    using False assms(1,2) by (simp add: slots_between_def)
  have "set ?walk = {at. previous < at \<and> at \<le> now \<and>
      (\<exists>d. local_date zone previous - 2 \<le> d \<and> d \<le> local_date zone now + 2 \<and>
           at \<in> set (fired_on (sc_cadence s) zone d))}"
    using walk_dates_set [OF walk_inside_calendar [OF assms(3,4)]] by simp
  also have "\<dots> = {at. previous < at \<and> at \<le> now \<and> names_instant s zone at}"
    using walked_dates [OF assms(3)] unfolding names_instant_def by blast
  finally have "set (sort ?walk) = {at. previous < at \<and> at \<le> now \<and> names_instant s zone at}" by simp
  moreover have "sorted_wrt (<) (sort ?walk)"
    using walk_dates_distinct [of "[]"] by (simp add: strict_sorted_iff)
  ultimately show ?thesis unfolding eq by blast
qed

text \<open>C10: The slots of an interval are, oldest first and each once, exactly the instants the cadence
  names after its start and up to its end, on whatever date: the dates the walk leaves out hold
  none of them.\<close>

theorem slots_are_the_named_instants:
  assumes "sc_enabled s" and "zones (sc_timezone s) = Some zone" and "zone_ok zone" and "in_calendar now"
  shows "sorted_wrt (<) (slots_between zones s previous now) \<and>
    set (slots_between zones s previous now) = {at. previous < at \<and> at \<le> now \<and> names_instant s zone at}"
  using assms by (rule slots_named)

lemma slots_split:
  assumes "previous \<le> middle" and "middle \<le> now"
    and "\<And>zone. zones (sc_timezone s) = Some zone \<Longrightarrow> zone_ok zone" and "in_calendar now"
  shows "slots_between zones s previous now = slots_between zones s previous middle @ slots_between zones s middle now"
proof (cases "sc_enabled s \<and> zones (sc_timezone s) \<noteq> None")
  case False
  then show ?thesis by (auto simp: slots_between_def)
next
  case True
  then obtain zone where z: "sc_enabled s" "zones (sc_timezone s) = Some zone" "zone_ok zone"
    using assms(3) by auto
  note sl = slots_named [where zones = zones and s = s, OF z]
  have m: "in_calendar middle" using assms(2,4) by (rule in_calendar_mono [rotated])
  let ?a = "slots_between zones s previous middle" and ?b = "slots_between zones s middle now"
  have "sorted_wrt (<) (?a @ ?b)"
    using sl [OF m, of previous] sl [OF assms(4), of middle] by (auto simp: sorted_wrt_append)
  moreover have "set (?a @ ?b) = set (slots_between zones s previous now)"
    using sl [OF m, of previous] sl [OF assms(4)] assms(1,2) by auto
  moreover have "sorted_wrt (<) (slots_between zones s previous now)" using sl [OF assms(4)] by blast
  ultimately show ?thesis by (metis strict_sorted_equal)
qed

text \<open>The slots a sequence of ticks finds, each handed the interval since the one before.\<close>

fun ticked :: "(string \<Rightarrow> time_zone option) \<Rightarrow> schedule \<Rightarrow> instant \<Rightarrow> instant list \<Rightarrow> instant list" where
  "ticked zones s previous [] = []"
| "ticked zones s previous (now # later) = slots_between zones s previous now @ ticked zones s now later"

text \<open>How often the clock ticks changes nothing about which slots fire: however an interval is cut,
  the slots of the pieces are those of the whole, none twice and none lost, across every change of
  the clocks.\<close>

theorem tick_rate_does_not_matter:
  assumes "sorted (start # ticks)" and "in_calendar (last (start # ticks))"
    and "list_all (\<lambda>zone. zone_ok zone) (case zones (sc_timezone s) of None \<Rightarrow> [] | Some zone \<Rightarrow> [zone])"
  shows "ticked zones s start ticks = slots_between zones s start (last (start # ticks))"
  using assms(1,2)
proof (induction ticks arbitrary: start)
  case Nil
  then show ?case by (simp add: slots_between_def)
next
  case (Cons now ticks)
  have zone: "zone_ok zone" if "zones (sc_timezone s) = Some zone" for zone
    using assms(3) that by simp
  have le: "start \<le> now" "now \<le> last (now # ticks)" using Cons.prems(1) by auto
  have "ticked zones s start (now # ticks)
      = slots_between zones s start now @ slots_between zones s now (last (now # ticks))"
    using Cons by simp
  also have "\<dots> = slots_between zones s start (last (now # ticks))"
    using slots_split [OF le zone] Cons.prems(2) by simp
  finally show ?case by simp
qed

text \<open>The next run a panel shows is the one the tick finds: a tick up to that instant starts exactly
  it, and a tick up to any earlier one starts nothing.\<close>

theorem next_run_is_the_next_slot:
  assumes "next_after zones s now = Some at" and "in_calendar (now + 8 * DAY)"
    and "list_all (\<lambda>zone. zone_ok zone) (case zones (sc_timezone s) of None \<Rightarrow> [] | Some zone \<Rightarrow> [zone])"
  shows "slots_between zones s now at = [at] \<and> (earlier < at \<longrightarrow> slots_between zones s now earlier = [])"
proof -
  let ?all = "slots_between zones s now (now + 8 * DAY)"
  obtain rest where all: "?all = at # rest"
    using assms(1) by (auto simp: next_after_def split: list.splits)
  then obtain zone where z: "sc_enabled s" "zones (sc_timezone s) = Some zone"
    by (auto simp: slots_between_def split: if_splits option.splits)
  with assms(3) have ok: "zone_ok zone" by simp
  note sl = slots_named [where zones = zones and s = s, OF z ok]
  have at: "now < at" "at \<le> now + 8 * DAY" "names_instant s zone at"
    using sl [OF assms(2), of now] unfolding all by auto
  have first: "at \<le> u" if "now < u" "u \<le> now + 8 * DAY" "names_instant s zone u" for u
  proof -
    have "u \<in> set ?all" using sl [OF assms(2), of now] that by blast
    moreover have "sorted_wrt (<) ?all" using sl [OF assms(2)] by blast
    ultimately show ?thesis unfolding all by fastforce
  qed
  have cal: "in_calendar at" using in_calendar_mono [OF assms(2) at(2)] .
  have "set (slots_between zones s now at) = {at}"
    using sl [OF cal, of now] at first by fastforce
  moreover have "sorted_wrt (<) (slots_between zones s now at)" using sl [OF cal] by blast
  ultimately have one: "slots_between zones s now at = [at]"
    by (metis empty_set list.simps(15) sorted_wrt1 strict_sorted_equal)
  have "slots_between zones s now earlier = []" if "earlier < at"
  proof -
    have "set (slots_between zones s now earlier) = {}"
    proof (rule equals0I)
      fix u
      assume "u \<in> set (slots_between zones s now earlier)"
      then have u: "now < u" "u \<le> earlier" "names_instant s zone u"
        using sl [OF in_calendar_mono [OF cal less_imp_le [OF that]], of now] by auto
      with that at(2) have "at \<le> u" by (intro first) auto
      with u(2) that show False by simp
    qed
    then show ?thesis by simp
  qed
  with one show ?thesis by blast
qed

lemma slots_whole:
  assumes "zones (sc_timezone s) = Some zone" and "zone_ok zone" and "in_calendar now"
  shows "list_all (\<lambda>at. at mod seconds 1 = 0) (slots_between zones s previous now)"
proof (cases "sc_enabled s")
  case True
  have "at mod seconds 1 = 0" if "at \<in> set (slots_between zones s previous now)" for at
  proof -
    from that slots_named [where zones = zones and s = s, OF True assms] obtain d where "at \<in> set (fired_on (sc_cadence s) zone d)"
      by (auto simp: names_instant_def)
    then obtain x where "at = seconds x" by (rule fired_near [OF assms(2)])
    then show ?thesis by (simp add: seconds_def)
  qed
  then show ?thesis by (simp add: list_all_iff)
qed (simp add: slots_between_def)

text \<open>Every slot is a whole second, which is what the id of its run names.\<close>

theorem slots_are_whole_seconds:
  assumes "zones (sc_timezone s) = Some zone" and "zone_ok zone" and "in_calendar now"
  shows "list_all (\<lambda>at. at mod seconds 1 = 0) (slots_between zones s previous now)"
  using assms by (rule slots_whole)

subsection \<open>There is a next run\<close>

lemma daily_fires:
  assumes "wall_time d hour minute = Some wall" and "tz_assume zone wall \<noteq> NoInstant \<or> bracketed zone wall"
    and "0 \<le> d" and "d + 4 \<le> DATE_MAX"
  shows "\<exists>at. fired_on (Daily hour minute) zone d = [at]"
proof -
  note wall = assms(1)
  obtain w where w: "wall = seconds w" "d * DAY \<le> wall" "wall < (d + 1) * DAY"
    using wall by (rule wall_time_bounds)
  have "seconds (d * 86400) \<le> seconds w" "seconds w < seconds ((d + 1) * 86400)"
    using w by (simp_all add: DAY_def seconds_def)
  then have range: "- 377705000000 \<le> w" "w \<le> 253402200000"
    using assms(3,4) by (simp_all add: DATE_MAX_def)
  have "\<exists>at. resolve (Daily hour minute) zone wall = [at]"
    using crossing_reached [where zone = zone, OF w(1) _ range] assms(2)
    by (cases "tz_assume zone wall") (auto simp: resolve_def)
  with wall show ?thesis by (auto simp: fired_on_def wall_times_on_def List.map_filter_def)
qed

text \<open>C11: A daily schedule that is on has a next run, changes of the clocks included, in every zone in which
  its time of day comes on at least one of five days: the second to the sixth after today. It comes
  where the clocks show it, and also where they skip it but the clock reads less fourteen hours
  before and no less fourteen hours after, as at every change of a zone whose offsets stay within
  fourteen hours.\<close>

theorem daily_schedule_has_a_next_run:
  assumes "sc_enabled s" and "sc_cadence s = Daily hour minute"
    and "zones (sc_timezone s) = Some zone" and "zone_ok zone"
    and "0 \<le> now" and "in_calendar (now + 8 * DAY)"
    and "2 \<le> e" and "e \<le> 6" and "wall_time (now div DAY + e) hour minute = Some wall"
    and "tz_assume zone wall \<noteq> NoInstant \<or> bracketed zone wall"
  shows "\<exists>at. next_after zones s now = Some at"
proof -
  define d where "d = now div DAY + e"
  have now: "(d - e) * DAY \<le> now" "now < (d - e + 1) * DAY"
  proof -
    have "now = now div DAY * DAY + now mod DAY" by simp
    moreover have "0 \<le> now mod DAY" "now mod DAY < DAY" using day_pos by simp_all
    ultimately have "now div DAY * DAY \<le> now" "now < now div DAY * DAY + DAY" by linarith+
    then show "(d - e) * DAY \<le> now" "now < (d - e + 1) * DAY" by (simp_all add: d_def distrib_right)
  qed
  have "0 \<le> now div DAY" using assms(5) day_pos by (simp add: pos_imp_zdiv_nonneg_iff)
  then have d0: "0 \<le> d" using assms(7) by (simp add: d_def)
  have "(d - e + 12) * DAY \<le> DATE_MAX * DAY"
    using now(1) assms(6) by (simp add: in_calendar_def distrib_right)
  then have "d - e + 12 \<le> DATE_MAX" using day_pos by simp
  with assms(8) have "d + 4 \<le> DATE_MAX" by simp
  from daily_fires [OF assms(9) [folded d_def] assms(10) d0 this] obtain at where at: "at \<in> set (fired_on (sc_cadence s) zone d)"
    using assms(2) by auto
  obtain x where near: "(d - 1) * DAY < at" "at < (d + 2) * DAY" by (rule fired_near [OF assms(4) at])
  have "(d - e + 1) * DAY \<le> (d - 1) * DAY" "(d + 2) * DAY \<le> (d - e + 8) * DAY"
    using assms(7,8) day_pos by (intro mult_right_mono; simp)+
  then have "now < at" "at \<le> now + 8 * DAY" using now near by (simp_all add: distrib_right)
  then have "at \<in> set (slots_between zones s now (now + 8 * DAY))"
    using slots_named [where zones = zones and s = s and previous = now, OF assms(1,3,4,6)] at by (auto simp: names_instant_def)
  then show ?thesis by (auto simp: next_after_def split: list.splits)
qed

end
