(* ===== verification/Schedule_Store.thy ===== *)
theory Schedule_Store
  imports Schedule_Props Scope "HOL-Library.Product_Lexorder"
begin

text \<open>
  Where a schedule is written down, and what is derived from it: \<open>schedule/store.rs\<close>. The object
  store is a map from keys to bodies whose every operation may fail; \<open>serde_json\<close> is a pair of
  functions from a row to its body and back, each of which may refuse with a text.
\<close>

subsection \<open>Stored schedules\<close>

definition SCHEDULES_PREFIX :: string where
  "SCHEDULES_PREFIX = ''schedules''"

record scheduled_definition =
  df_kind :: definition_kind
  df_name :: string
  df_schedule :: schedule
  df_set_by :: string
  df_updated_at :: instant
  df_effective_from :: "instant option"

definition effective_from :: "scheduled_definition \<Rightarrow> instant" where
  "effective_from d = (case df_effective_from d of None \<Rightarrow> df_updated_at d | Some at \<Rightarrow> at)"

definition slots_due ::
  "(string \<Rightarrow> time_zone option) \<Rightarrow> scheduled_definition \<Rightarrow> instant \<Rightarrow> instant \<Rightarrow> instant list" where
  "slots_due zones d previous now = slots_between zones (df_schedule d) (max previous (effective_from d)) now"

definition activation_after :: "scheduled_definition \<Rightarrow> scheduled_definition option \<Rightarrow> instant \<Rightarrow> instant" where
  "activation_after d stored now =
     (case stored of
        Some old \<Rightarrow> if fires_the_same_as (df_schedule old) (df_schedule d) then effective_from old else now
      | None \<Rightarrow> now)"

text \<open>A decimal \<open>i64\<close> as \<open>format!\<close> writes it.\<close>

definition show_int :: "int \<Rightarrow> string" where
  "show_int i = (if i < 0 then ''-'' @ show_nat (nat (- i)) else show_nat (nat i))"

definition schedule_path :: "scheduled_definition \<Rightarrow> string" where
  "schedule_path d =
     ''aiwatcher/execution/schedule/'' @ definition_kind_as_str (df_kind d) @ ''/'' @ df_name d @ ''/''"

definition execution_id_for_request :: "crates \<Rightarrow> scheduled_definition \<Rightarrow> string \<Rightarrow> string" where
  "execution_id_for_request C d request_id = derive_uuid C (schedule_path d @ ''request/'' @ request_id)"

definition execution_id_for :: "crates \<Rightarrow> scheduled_definition \<Rightarrow> instant \<Rightarrow> string" where
  "execution_id_for C d slot = derive_uuid C (schedule_path d @ show_int (slot div seconds 1))"

subsection \<open>The object store\<close>

type_synonym objects = "(string, string) btree"

record schedule_codec =
  cd_write :: "scheduled_definition \<Rightarrow> string + string"
  cd_read :: "string \<Rightarrow> string + scheduled_definition"

definition schedule_key :: "crates \<Rightarrow> definition_kind \<Rightarrow> string \<Rightarrow> string" where
  "schedule_key C kind name =
     SCHEDULES_PREFIX @ ''/'' @ definition_kind_as_str kind @ ''/'' @ digest C name @ ''.json''"

definition schedule_set ::
  "crates \<Rightarrow> schedule_codec \<Rightarrow> (string \<Rightarrow> string option) \<Rightarrow> scheduled_definition \<Rightarrow> objects \<Rightarrow>
   (store_error + unit) \<times> objects" where
  "schedule_set C codec down d objects =
     (case cd_write codec d of
        Inl err \<Rightarrow> (Inl (EncodingError err), objects)
      | Inr body \<Rightarrow>
          let key = schedule_key C (df_kind d) (df_name d) in
          case down key of
            Some err \<Rightarrow> (Inl (Backend err), objects)
          | None \<Rightarrow> (Inr (), bt_insert key body objects))"

definition schedule_get ::
  "crates \<Rightarrow> schedule_codec \<Rightarrow> (string \<Rightarrow> string option) \<Rightarrow> definition_kind \<Rightarrow> string \<Rightarrow> objects \<Rightarrow>
   store_error + scheduled_definition option" where
  "schedule_get C codec down kind name objects =
     (let key = schedule_key C kind name in
      case down key of
        Some err \<Rightarrow> Inl (Backend err)
      | None \<Rightarrow>
          (case bt_get objects key of
             None \<Rightarrow> Inr None
           | Some body \<Rightarrow>
               (case cd_read codec body of
                  Inl err \<Rightarrow> Inl (Backend err)
                | Inr d \<Rightarrow> Inr (Some d))))"

definition schedule_clear ::
  "crates \<Rightarrow> (string \<Rightarrow> string option) \<Rightarrow> definition_kind \<Rightarrow> string \<Rightarrow> objects \<Rightarrow>
   (store_error + unit) \<times> objects" where
  "schedule_clear C down kind name objects =
     (let key = schedule_key C kind name in
      case down key of
        Some err \<Rightarrow> (Inl (Backend err), objects)
      | None \<Rightarrow> (Inr (), bt_remove key objects))"

text \<open>The rows behind the listed keys: a key gone since the listing and a body that does not read back
  are passed over, a read that fails ends the pass.\<close>

fun read_rows ::
  "schedule_codec \<Rightarrow> (string \<Rightarrow> string option) \<Rightarrow> objects \<Rightarrow> string list \<Rightarrow> store_error + scheduled_definition list" where
  "read_rows codec down objects [] = Inr []"
| "read_rows codec down objects (key # keys) =
     (case down key of
        Some err \<Rightarrow> Inl (Backend err)
      | None \<Rightarrow>
          (case read_rows codec down objects keys of
             Inl err \<Rightarrow> Inl err
           | Inr rows \<Rightarrow>
               (case map_option (cd_read codec) (bt_get objects key) of
                  Some (Inr d) \<Rightarrow> Inr (d # rows)
                | _ \<Rightarrow> Inr rows)))"

text \<open>\<open>listed\<close> is the store when the prefix is listed, \<open>objects\<close> when the rows are read.\<close>

definition schedule_all ::
  "schedule_codec \<Rightarrow> (string \<Rightarrow> string option) \<Rightarrow> objects \<Rightarrow> objects \<Rightarrow> store_error + scheduled_definition list" where
  "schedule_all codec down listed objects =
     (let prefix = SCHEDULES_PREFIX @ ''/'' in
      case down prefix of
        Some err \<Rightarrow> Inl (Backend err)
      | None \<Rightarrow>
          (case read_rows codec down objects (filter (\<lambda>key. take (length prefix) key = prefix) (bt_keys listed)) of
             Inl err \<Rightarrow> Inl err
           | Inr rows \<Rightarrow> Inr (sort_key (\<lambda>d. (definition_kind_as_str (df_kind d), df_name d)) rows)))"

subsection \<open>What is due\<close>

lemma slots_due_split:
  assumes "previous \<le> middle" and "middle \<le> now"
    and "\<And>zone. zones (sc_timezone (df_schedule d)) = Some zone \<Longrightarrow> zone_ok zone" and "in_calendar now"
  shows "slots_due zones d previous now = slots_due zones d previous middle @ slots_due zones d middle now"
proof (cases "effective_from d \<le> middle")
  case True
  then have "max middle (effective_from d) = middle" "max previous (effective_from d) \<le> middle" using assms(1) by auto
  then show ?thesis
    using slots_split [where previous = "max previous (effective_from d)" and s = "df_schedule d", OF _ assms(2-4)] by (simp add: slots_due_def)
next
  case False
  then have "max middle (effective_from d) = effective_from d" "max previous (effective_from d) = effective_from d"
    using assms(1) by auto
  with False show ?thesis by (simp add: slots_due_def slots_between_def)
qed

lemma slots_due_bounds: "at \<in> set (slots_due zones d previous now) \<Longrightarrow> previous < at \<and> at \<le> now"
proof -
  have pushed: "set slots \<subseteq> {at. p < at \<and> at \<le> now} \<Longrightarrow> set (push_slots p now slots rest) \<subseteq> {at. p < at \<and> at \<le> now}"
    for p slots rest by (auto simp: push_slots_set)
  have "set slots \<subseteq> {at. p < at \<and> at \<le> now} \<Longrightarrow> set (walk_dates c zone p now l d slots) \<subseteq> {at. p < at \<and> at \<le> now}"
    for c zone p l d slots
  proof (induction c zone p now l d slots rule: walk_dates.induct)
    case (1 c zone previous now last_date date slots)
    then show ?case
      by (subst walk_dates.simps) (auto simp: Let_def push_slots_set split: option.splits)
  qed
  then have walked: "at \<in> set (walk_dates c zone p now l d []) \<Longrightarrow> p < at \<and> at \<le> now" for c zone p l d
    by (metis (mono_tags, lifting) empty_subsetI list.set(1) mem_Collect_eq subsetD)
  show "at \<in> set (slots_due zones d previous now) \<Longrightarrow> previous < at \<and> at \<le> now"
    by (fastforce simp: slots_due_def slots_between_def split: if_splits option.splits dest: walked)
qed

subsection \<open>Kept by kind and name\<close>

lemma schedule_key_inj:
  assumes "inj_on (digest C) {name, name'}"
  shows "schedule_key C kind name = schedule_key C kind' name' \<longleftrightarrow> kind = kind' \<and> name = name'"
proof -
  have "digest C name = digest C name' \<Longrightarrow> name = name'" using assms by (auto dest: inj_onD)
  then show ?thesis
    by (cases kind; cases kind') (auto simp: schedule_key_def SCHEDULES_PREFIX_def)
qed

text \<open>A schedule is kept by its kind and its name: a set is read back by the next read, replaces what
  was there and touches no other kind and no other name, and a clear leaves nothing to read.\<close>

theorem schedules_are_kept_by_kind_and_name:
  assumes "schedule_set C codec down d objects = (Inr (), objects')" and "bt_ok objects"
    and "\<And>body. cd_write codec d = Inr body \<Longrightarrow> cd_read codec body = Inr d"
    and "inj_on (digest C) {df_name d, name}"
  shows "schedule_get C codec down kind name objects' =
      (if kind = df_kind d \<and> name = df_name d then Inr (Some d) else schedule_get C codec down kind name objects) \<and>
    schedule_clear C down (df_kind d) (df_name d) objects' =
      (Inr (), bt_remove (schedule_key C (df_kind d) (df_name d)) objects) \<and>
    schedule_get C codec down (df_kind d) (df_name d)
      (bt_remove (schedule_key C (df_kind d) (df_name d)) objects) = Inr None"
proof -
  let ?key = "schedule_key C (df_kind d) (df_name d)"
  obtain body where body: "cd_write codec d = Inr body" "down ?key = None" "objects' = bt_insert ?key body objects"
    using assms(1) by (auto simp: schedule_set_def Let_def split: sum.splits option.splits)
  have key: "schedule_key C kind name = ?key \<longleftrightarrow> kind = df_kind d \<and> name = df_name d"
    using schedule_key_inj [OF assms(4), of "df_kind d" kind] by auto
  have removed: "bt_remove k (bt_insert k v m) = bt_remove k m" if "bt_ok m" for k v and m :: objects
    using that by (induction k v m rule: bt_insert.induct) (auto simp: bt_ok_def)
  show ?thesis
    using body key assms(3) [OF body(1)] removed [OF assms(2)]
    by (cases "down (schedule_key C kind name)") (auto simp: schedule_get_def schedule_clear_def Let_def)
qed

end
