(* ===== verification/Scheduler.thy ===== *)
theory Scheduler
  imports Start_Props Schedule_Store
begin

text \<open>
  The tick: \<open>server/execution/scheduler.rs\<close>. It reads where the last tick stopped, asks which slots
  fell in the interval since, takes and starts each, and moves the cursor last. What the process runs
  with is one record: the zone database, what it may start, the handle of its store, its name, the
  clock a start reads, how a refusal is worded, and what other processes do to the store between the
  taking of a slot, its start and its settlement.
\<close>

definition SCHEDULER_PROCESSOR :: string where
  "SCHEDULER_PROCESSOR = ''aiwatcher-scheduler''"

definition FIRST_TICK_REACHES_BACK :: int where
  "FIRST_TICK_REACHES_BACK = seconds 60"

record ('p, 'w) scheduler =
  sr_crates :: crates
  sr_zones :: "string \<Rightarrow> time_zone option"
  sr_executions :: "('p, 'w) executions"
  sr_binding :: scope_binding
  sr_owner :: string
  sr_clock :: instant
  sr_words :: "start_refused \<Rightarrow> string"
  sr_others :: "nat \<Rightarrow> inner \<Rightarrow> inner"

subsection \<open>Starting one slot\<close>

definition slot_run :: "scheduled_definition \<Rightarrow> string \<Rightarrow> run_request" where
  "slot_run d execution =
     \<lparr>rr_identity = NamedRun execution, rr_parameters = [], rr_requested_by = ''schedule:'' @ df_set_by d,
      rr_decided_by = DecideLocal, rr_payloads = None, rr_project = None\<rparr>"

definition start_slot ::
  "('p, 'w) scheduler \<Rightarrow> scheduled_definition \<Rightarrow> instant \<Rightarrow> inner \<Rightarrow> (start_refused + string) \<times> inner" where
  "start_slot sr d slot s =
     (case compile_head (sr_executions sr) (sr_clock sr) (df_kind d) (df_name d) of
        Inl err \<Rightarrow> (Inl err, s)
      | Inr plan \<Rightarrow>
          let execution = execution_id_for (sr_crates sr) d slot in
          (case start_run (sr_executions sr) [] (sr_clock sr) plan (slot_run d execution) s of
             (Inl err, s') \<Rightarrow> (Inl err, s')
           | (Inr _, s') \<Rightarrow> (Inr execution, s')))"

definition slot_settlement_of :: "(start_refused \<Rightarrow> string) \<Rightarrow> start_refused + string \<Rightarrow> slot_settlement" where
  "slot_settlement_of words result =
     (case result of
        Inr execution \<Rightarrow> SettleStarted execution
      | Inl refusal \<Rightarrow>
          if start_same_next_time refusal then SettleRefused (words refusal) else SettleTryAgain (words refusal))"

definition process_slot ::
  "('p, 'w) scheduler \<Rightarrow> instant \<Rightarrow> scheduled_definition \<Rightarrow> instant \<Rightarrow> inner \<Rightarrow> (store_error + unit) \<times> inner" where
  "process_slot sr now d slot s =
     (let key = SlotKey (df_kind d) (df_name d) slot in
      case store_admit_slot (sr_binding sr)
             \<lparr>sq_key = key, sq_owner = sr_owner sr, sq_overlap = sc_overlap (df_schedule d), sq_now = now\<rparr> s of
        (Inl err, s1) \<Rightarrow> (Inl err, s1)
      | (Inr (SlotSettled _), s1) \<Rightarrow> (Inr (), s1)
      | (Inr (SlotHeld _), s1) \<Rightarrow> (Inr (), s1)
      | (Inr (SlotBlocked running), s1) \<Rightarrow>
          store_settle_slot (sr_binding sr) key (sr_owner sr) (SettleSkipped running) now (sr_others sr 0 s1)
      | (Inr Admitted, s1) \<Rightarrow>
          (case start_slot sr d slot (sr_others sr 0 s1) of
             (result, s2) \<Rightarrow>
               store_settle_slot (sr_binding sr) key (sr_owner sr)
                 (slot_settlement_of (sr_words sr) result) now (sr_others sr 1 s2)))"

subsection \<open>One tick\<close>

definition tick_from :: "checkpoint option \<Rightarrow> instant \<Rightarrow> instant" where
  "tick_from c now =
     (case (case Option.bind c global_position of
              None \<Rightarrow> None
            | Some position \<Rightarrow> if uint position \<le> I64_MAX then at_unix (uint position) else None) of
        None \<Rightarrow> now - FIRST_TICK_REACHES_BACK
      | Some at \<Rightarrow> at)"

definition tick_due ::
  "(string \<Rightarrow> time_zone option) \<Rightarrow> scheduled_definition list \<Rightarrow> instant \<Rightarrow> instant \<Rightarrow>
   (scheduled_definition \<times> instant) list" where
  "tick_due zones scheduled previous now =
     concat (map (\<lambda>d. map (Pair d) (slots_due zones d previous now)) scheduled)"

definition tick_cursor :: "instant \<Rightarrow> checkpoint" where
  "tick_cursor now = from_global_position (word_of_int (max 0 (now div seconds 1)))"

definition scheduler_tick ::
  "('p, 'w) scheduler \<Rightarrow> store_error + scheduled_definition list \<Rightarrow> instant \<Rightarrow> inner \<Rightarrow>
   (store_error + unit) \<times> inner" where
  "scheduler_tick sr schedules now s =
     (case store_checkpoint (sr_binding sr) SCHEDULER_PROCESSOR s of
        Inl err \<Rightarrow> (Inl err, s)
      | Inr c \<Rightarrow>
          (case schedules of
             Inl err \<Rightarrow> (Inl err, s)
           | Inr scheduled \<Rightarrow>
               store_advance_checkpoint (sr_binding sr) SCHEDULER_PROCESSOR (tick_cursor now)
                 (foldl (\<lambda>s (d, slot). snd (process_slot sr now d slot s)) s
                    (tick_due (sr_zones sr) scheduled (tick_from c now) now))))"

end
