(* ===== verification/Scheduler_Props.thy ===== *)
theory Scheduler_Props
  imports Scheduler
begin

text \<open>
  What the tick promises: on a clock that does not go back and with one scheduler moving the cursor,
  every slot is considered once; a slot is settled the way its start went; and a slot left due because its start met a bad moment is never considered
  again, since the cursor moves past it.
\<close>

subsection \<open>What a start leaves alone\<close>

definition framed :: "(inner \<Rightarrow> 'a) \<Rightarrow> bool" where
  "framed g \<longleftrightarrow> (\<forall>x s. g (touch_stream x s) = g s) \<and>
     (\<forall>clock x e req s. ar_checkpoint req = None \<longrightarrow> g (commit clock x e req s) = g s)"

lemma framed_cursor: "framed (\<lambda>s. bt_get (in_checkpoints s) p)"
  by (simp add: framed_def commit_def Let_def)

lemma framed_slot: "framed (\<lambda>s. bt_get (in_slots s) k)"
  by (simp add: framed_def commit_def Let_def)

lemma handle_pass_frame:
  assumes "framed g" and "\<And>k t. g (en_others en k t) = g t"
    and "handle_pass en x input md now None own k s = (r, s')"
  shows "g s' = g s"
  using assms(3)
proof (cases rule: handle_pass_cases)
  case (tried outputs q)
  let ?req = "decision_request en x input md None own (loaded s x) outputs"
  have none: "ar_checkpoint ?req = None" by (simp add: decision_request_def Let_def)
  have touch: "g (touch_stream y t) = g t" and commit: "g (commit clock y e ?req t) = g t" for y t clock e
    using assms(1) none unfolding framed_def by blast+
  from tried(3) show ?thesis
  proof (cases rule: store_append_cases)
    case (refused err)
    then show ?thesis using touch assms(2) by metis
  qed (simp_all only: touch commit assms(2))
qed simp

lemma handle_loop_frame:
  assumes "framed g" and "\<And>k t. g (en_others en k t) = g t"
  shows "g (snd (handle_loop en x input md now None own n s)) = g s"
proof (induction n arbitrary: s)
  case (Suc n)
  obtain r s' where pass: "handle_pass en x input md now None own n s = (r, s')" by fastforce
  from handle_pass_frame [OF assms pass] Suc pass show ?case by (cases r) simp_all
qed simp

lemma start_run_frame:
  assumes "framed g" and "\<And>en k t. xe_handler xe = Some en \<Longrightarrow> g (en_others en k t) = g t"
  shows "g (snd (start_run xe fresh now plan run s)) = g s"
proof (cases "xe_handler xe")
  case None
  then show ?thesis by (simp add: start_run_def start_handler_def)
next
  case (Some en)
  have loop: "g (snd (handle_start en x input md now own s)) = g s" for x input md own
    using handle_loop_frame [OF assms(1) assms(2) [OF Some], of x input md now own "Suc (unat MAX_CONFLICT_RETRIES)" s]
    by (simp add: handle_start_def handle_with_checkpoint_def decide_and_append_def split: sum.splits del: handle_loop.simps)
  show ?thesis
  proof (cases "payload_policy_of xe (rr_payloads run)")
    case (Inl err)
    then show ?thesis using Some by (simp add: start_run_def start_handler_def)
  next
    case (Inr payloads)
    let ?x = "run_identity_of (en_crates en) fresh (rr_identity run) plan (start_scope run)"
    let ?i = "start_message_id (en_crates en) ?x"
    obtain r s' where started: "handle_start en ?x (start_command plan run payloads ?x) (caused_by ?x ?i ?i now) now
        (map_option (\<lambda>project. ownership_of project plan) (rr_project run)) s = (r, s')" by fastforce
    have "g s' = g s" using loop [of ?x "start_command plan run payloads ?x" "caused_by ?x ?i ?i now"
      "map_option (\<lambda>project. ownership_of project plan) (rr_project run)"] unfolding started by simp
    with Some Inr started show ?thesis
      by (cases r; cases "rr_project run") (simp_all add: start_run_def start_handler_def Let_def split: sum.split)
  qed
qed

lemma start_slot_frame:
  assumes "framed g" and "\<And>en k t. xe_handler (sr_executions sr) = Some en \<Longrightarrow> g (en_others en k t) = g t"
  shows "g (snd (start_slot sr d slot s)) = g s"
proof (cases "compile_head (sr_executions sr) (sr_clock sr) (df_kind d) (df_name d)")
  case (Inr plan)
  let ?run = "slot_run d (execution_id_for (sr_crates sr) d slot)"
  obtain r s' where started: "start_run (sr_executions sr) [] (sr_clock sr) plan ?run s = (r, s')" by fastforce
  have "g s' = g s" using start_run_frame [where xe = "sr_executions sr" and fresh = "[]" and now = "sr_clock sr" and plan = plan and run = ?run and s = s, OF assms] unfolding started by simp
  with Inr started show ?thesis by (cases r) (simp_all add: start_slot_def)
qed (simp add: start_slot_def)

subsection \<open>What a slot's processing leaves\<close>

text \<open>Nobody else moves the cursor of this processor.\<close>

definition cursor :: "inner \<Rightarrow> checkpoint option" where
  "cursor s = bt_get (in_checkpoints s) SCHEDULER_PROCESSOR"

definition leaves_the_cursor :: "('p, 'w) scheduler \<Rightarrow> bool" where
  "leaves_the_cursor sr \<longleftrightarrow> bound_scope (sr_binding sr) = Global \<and>
     (\<forall>n s. cursor (sr_others sr n s) = cursor s) \<and>
     (\<forall>en k s. xe_handler (sr_executions sr) = Some en \<longrightarrow> cursor (en_others en k s) = cursor s)"

lemma framed_cursor_fun: "framed cursor"
  using framed_cursor unfolding cursor_def .

lemma admit_cursor: "store_admit_slot b req s = (r, s') \<Longrightarrow> cursor s' = cursor s"
  by (erule store_admit_cases) (simp_all add: cursor_def)

lemma settle_cursor: "cursor (snd (store_settle_slot b key owner settlement now s)) = cursor s"
  by (simp add: store_settle_slot_def cursor_def split: sum.splits option.splits)

lemma process_slot_cursor:
  assumes "leaves_the_cursor sr"
  shows "cursor (snd (process_slot sr now d slot s)) = cursor s"
proof -
  have others: "cursor (sr_others sr n t) = cursor t" for n t using assms by (simp add: leaves_the_cursor_def)
  have start: "start_slot sr d slot t = (r, t') \<Longrightarrow> cursor t' = cursor t" for t r t'
    using start_slot_frame [OF framed_cursor_fun, of sr d slot t] assms by (simp add: leaves_the_cursor_def)
  show ?thesis
  proof (cases "store_admit_slot (sr_binding sr) \<lparr>sq_key = SlotKey (df_kind d) (df_name d) slot,
      sq_owner = sr_owner sr, sq_overlap = sc_overlap (df_schedule d), sq_now = now\<rparr> s")
    case admit: (Pair r s1)
    obtain result s2 where started: "start_slot sr d slot (sr_others sr 0 s1) = (result, s2)" by fastforce
    from admit_cursor [OF admit] start [OF started] admit started show ?thesis
      by (cases r; cases "projr r") (simp_all add: process_slot_def settle_cursor others)
  qed
qed

lemma ticked_slots_cursor:
  "leaves_the_cursor sr \<Longrightarrow>
   cursor (foldl (\<lambda>s (d, slot). snd (process_slot sr now d slot s)) s due) = cursor s"
  by (induction due arbitrary: s) (simp_all add: process_slot_cursor split: prod.splits)

lemma tick_moves_the_cursor:
  "scheduler_tick sr schedules now s = (Inr (), s') \<Longrightarrow> cursor s' = Some (tick_cursor now)"
  by (auto simp: scheduler_tick_def store_advance_checkpoint_def cursor_def split: sum.splits)

lemma tick_succeeds:
  assumes "leaves_the_cursor sr"
  shows "\<exists>s'. scheduler_tick sr (Inr scheduled) now s = (Inr (), s')"
  using assms
  by (simp add: scheduler_tick_def store_checkpoint_def guarded_def store_advance_checkpoint_def
      refuse_instance_wide_def leaves_the_cursor_def)

lemma tick_reads_its_cursor:
  assumes "0 \<le> now" and "now < seconds 253402300800"
  shows "tick_from (Some (tick_cursor now)) later = seconds (now div seconds 1)"
proof -
  have s: "0 \<le> now div seconds 1" "now div seconds 1 < 253402300800"
  proof -
    show "0 \<le> now div seconds 1" using assms(1) by (simp add: seconds_def pos_imp_zdiv_nonneg_iff)
    have "now div seconds 1 * seconds 1 \<le> now" by (simp add: seconds_def)
    then have "now div seconds 1 * 1000000000 < 253402300800 * 1000000000" using assms(2) by (simp add: seconds_def)
    then show "now div seconds 1 < 253402300800" by simp
  qed
  have word: "uint (word_of_int (now div seconds 1) :: u64) = now div seconds 1"
    using s by (simp add: uint_word_of_int take_bit_int_eq_self)
  have "global_position (tick_cursor now) = Some (word_of_int (now div seconds 1))"
    using checkpoint_roundtrip [of "word_of_int (max 0 (now div seconds 1))"] s(1) by (simp add: tick_cursor_def)
  then show ?thesis using s word by (simp add: tick_from_def at_unix_def I64_MAX_def)
qed

subsection \<open>Every slot is considered once\<close>

text \<open>The definitions and slots a sequence of ticks considers: each tick at its clock and with the schedules
  as they are then, and with what happens between two ticks.\<close>

fun considered ::
  "('p, 'w) scheduler \<Rightarrow> (instant \<Rightarrow> inner \<Rightarrow> inner) \<Rightarrow> (instant \<times> scheduled_definition list) list \<Rightarrow> inner \<Rightarrow>
   (scheduled_definition \<times> instant) list" where
  "considered sr between [] s = []"
| "considered sr between ((now, scheduled) # later) s =
     tick_due (sr_zones sr) scheduled (tick_from (cursor s) now) now @
     considered sr between later (between now (snd (scheduler_tick sr (Inr scheduled) now s)))"

definition slots_of :: "scheduled_definition \<Rightarrow> (scheduled_definition \<times> instant) list \<Rightarrow> instant list" where
  "slots_of d due = map snd (filter (\<lambda>(d', slot). d' = d) due)"

lemma slots_of_append: "slots_of d (xs @ ys) = slots_of d xs @ slots_of d ys"
  by (simp add: slots_of_def)

lemma slots_of_due:
  assumes "distinct scheduled" and "d \<in> set scheduled"
  shows "slots_of d (tick_due zones scheduled previous now) = slots_due zones d previous now"
  using assms
proof (induction scheduled)
  case (Cons d' scheduled)
  have one: "slots_of d (map (Pair d') xs) = (if d' = d then xs else [])" for xs :: "instant list"
    by (simp add: slots_of_def filter_map comp_def)
  have none: "slots_of d (tick_due zones scheduled previous now) = []" if "d \<notin> set scheduled"
    using that by (auto simp: slots_of_def tick_due_def filter_empty_conv)
  have "tick_due zones (d' # scheduled) previous now
      = map (Pair d') (slots_due zones d' previous now) @ tick_due zones scheduled previous now"
    by (simp add: tick_due_def)
  with Cons one none show ?case by (auto simp: slots_of_append)
qed simp

text \<open>The cursor is a whole second, and no slot lies between it and the instant it was taken at.\<close>

lemma slots_due_floor:
  assumes "\<And>zone. zones (sc_timezone (df_schedule d)) = Some zone \<Longrightarrow> zone_ok zone" and "in_calendar now"
  shows "slots_due zones d (seconds (p div seconds 1)) now = slots_due zones d p now"
proof (cases "sc_enabled (df_schedule d) \<and> zones (sc_timezone (df_schedule d)) \<noteq> None")
  case False
  then show ?thesis by (auto simp: slots_due_def slots_between_def)
next
  case True
  let ?s = "df_schedule d" and ?e = "effective_from d"
  obtain zone where z: "sc_enabled ?s" "zones (sc_timezone ?s) = Some zone" "zone_ok zone"
    using True assms(1) by auto
  note sl = slots_named [where zones = zones and s = ?s, OF z assms(2)]
  have whole: "at mod seconds 1 = 0" if "at \<in> set (slots_between zones ?s q now)" for at q
    using slots_whole [where zones = zones and s = ?s, OF z(2,3) assms(2)] that by (simp add: list_all_iff)
  have below: "seconds (p div seconds 1) < at \<longleftrightarrow> p < at" if "at mod seconds 1 = 0" for at
  proof -
    have at: "at = seconds (at div seconds 1)" using that by (auto simp: seconds_def)
    have p: "p = seconds (p div seconds 1) + p mod seconds 1" by (simp add: seconds_def)
    have "0 \<le> p mod seconds 1" "p mod seconds 1 < seconds 1" by (simp_all add: seconds_def)
    moreover have "seconds (p div seconds 1) < seconds (at div seconds 1) \<Longrightarrow>
        seconds (p div seconds 1) + seconds 1 \<le> seconds (at div seconds 1)" by (simp add: seconds_def)
    ultimately show ?thesis using at p by linarith
  qed
  have "set (slots_between zones ?s (max (seconds (p div seconds 1)) ?e) now) = set (slots_between zones ?s (max p ?e) now)"
  proof (intro subset_antisym subsetI)
    fix at
    assume at: "at \<in> set (slots_between zones ?s (max (seconds (p div seconds 1)) ?e) now)"
    with sl show "at \<in> set (slots_between zones ?s (max p ?e) now)" using below [OF whole [OF at]] by auto
  next
    fix at
    assume at: "at \<in> set (slots_between zones ?s (max p ?e) now)"
    with sl show "at \<in> set (slots_between zones ?s (max (seconds (p div seconds 1)) ?e) now)"
      using below [OF whole [OF at]] by auto
  qed
  with sl show ?thesis unfolding slots_due_def by (metis strict_sorted_equal)
qed

lemma in_calendar_unix: "in_calendar now \<Longrightarrow> now < seconds 253402300800"
  by (simp add: in_calendar_def DATE_MAX_def DAY_def seconds_def)

text \<open>C7: Each slot of a scheduled definition since the cursor is considered exactly once and in order, however
  far apart the ticks are, whatever the starts do and whatever else happens between two ticks: those the
  ticks consider are those of the whole interval. That is so while the clock does not go back, the
  definition keeps its schedule, and one scheduler moves the cursor; a second replica shares the cursor,
  and what it starts is the same run (\<open>replicas_start_one_run\<close>).\<close>

theorem every_slot_is_considered_once:
  assumes "leaves_the_cursor sr" and "\<And>at t. cursor (between at t) = cursor t"
    and "cursor s = Some (tick_cursor start)" and "sorted (start # map fst ticks)" and "0 \<le> start"
    and "in_calendar (last (start # map fst ticks))"
    and "list_all (\<lambda>(now, scheduled). distinct scheduled \<and> d \<in> set scheduled) ticks"
    and "\<And>zone. sr_zones sr (sc_timezone (df_schedule d)) = Some zone \<Longrightarrow> zone_ok zone"
  shows "slots_of d (considered sr between ticks s) = slots_due (sr_zones sr) d start (last (start # map fst ticks))"
  using assms(3-7)
proof (induction ticks arbitrary: start s)
  case Nil
  then show ?case by (simp add: slots_of_def slots_due_def slots_between_def)
next
  case (Cons tick ticks)
  obtain now scheduled where tick_is: "tick = (now, scheduled)" by (cases tick)
  have d: "distinct scheduled" "d \<in> set scheduled" using Cons.prems(5) tick_is by simp_all
  have sorted: "sorted (start # now # map fst ticks)" using Cons.prems(2) tick_is by simp
  then have le: "start \<le> now" "now \<le> last (now # map fst ticks)"
    using last_in_set [of "now # map fst ticks"] by (simp, fastforce simp del: last.simps)
  have cal: "in_calendar (last (now # map fst ticks))" using Cons.prems(4) tick_is by simp
  have cals: "in_calendar now" "in_calendar start"
    using in_calendar_mono [OF cal le(2)] in_calendar_mono [OF cal] le by auto
  obtain s' where tick: "scheduler_tick sr (Inr scheduled) now s = (Inr (), s')"
    using tick_succeeds [OF assms(1)] by blast
  have next_cursor: "cursor (between now s') = Some (tick_cursor now)"
    using tick_moves_the_cursor [OF tick] assms(2) by simp
  have "slots_of d (tick_due (sr_zones sr) scheduled (tick_from (cursor s) now) now)
      = slots_due (sr_zones sr) d (seconds (start div seconds 1)) now"
    using slots_of_due [OF d] Cons.prems(1) tick_reads_its_cursor [OF Cons.prems(3) in_calendar_unix [OF cals(2)]]
    by simp
  also have "\<dots> = slots_due (sr_zones sr) d start now"
    by (rule slots_due_floor [OF assms(8) cals(1)])
  finally have first: "slots_of d (tick_due (sr_zones sr) scheduled (tick_from (cursor s) now) now)
      = slots_due (sr_zones sr) d start now" .
  have rest: "slots_of d (considered sr between ticks (between now s'))
      = slots_due (sr_zones sr) d now (last (now # map fst ticks))"
    by (rule Cons.IH [OF next_cursor]) (use Cons.prems le tick_is in auto)
  have "slots_due (sr_zones sr) d start (last (now # map fst ticks))
      = slots_due (sr_zones sr) d start now @ slots_due (sr_zones sr) d now (last (now # map fst ticks))"
    by (rule slots_due_split [OF le assms(8) cal])
  with first rest tick tick_is show ?case by (simp add: slots_of_append)
qed

subsection \<open>How a slot is settled\<close>

definition slot_key_of :: "scheduled_definition \<Rightarrow> instant \<Rightarrow> slot_key" where
  "slot_key_of d slot = SlotKey (df_kind d) (df_name d) slot"

definition slot_row :: "slot_key \<Rightarrow> inner \<Rightarrow> slot_record option" where
  "slot_row k s = bt_get (in_slots s) k"

definition slot_request_of :: "('p, 'w) scheduler \<Rightarrow> instant \<Rightarrow> scheduled_definition \<Rightarrow> instant \<Rightarrow> slot_request" where
  "slot_request_of sr now d slot =
     \<lparr>sq_key = slot_key_of d slot, sq_owner = sr_owner sr, sq_overlap = sc_overlap (df_schedule d), sq_now = now\<rparr>"

text \<open>Nobody else touches this slot while it is processed: it is leased to this process.\<close>

definition leaves_the_slot :: "slot_key \<Rightarrow> ('p, 'w) scheduler \<Rightarrow> bool" where
  "leaves_the_slot k sr \<longleftrightarrow>
     (\<forall>n s. slot_row k (sr_others sr n s) = slot_row k s) \<and>
     (\<forall>en j s. xe_handler (sr_executions sr) = Some en \<longrightarrow> slot_row k (en_others en j s) = slot_row k s)"

lemma framed_slot_row: "framed (slot_row k)"
  using framed_slot unfolding slot_row_def .

lemma slot_settled_as_started:
  assumes "store_admit_slot (sr_binding sr) (slot_request_of sr now d slot) s = (Inr Admitted, s1)"
    and "leaves_the_slot (slot_key_of d slot) sr"
    and "start_slot sr d slot (sr_others sr 0 s1) = (result, s2)"
  shows "\<exists>record. slot_row (slot_key_of d slot) (snd (process_slot sr now d slot s)) = Some record \<and>
    sl_lease_owner record = None \<and> sl_leased_at record = None \<and>
    sl_outcome record = settlement_outcome (slot_settlement_of (sr_words sr) result) \<and>
    sl_detail record = settlement_detail (slot_settlement_of (sr_words sr) result) \<and>
    sl_execution_id record = settlement_execution (slot_settlement_of (sr_words sr) result)"
proof -
  let ?k = "slot_key_of d slot"
  let ?settlement = "slot_settlement_of (sr_words sr) result"
  obtain detail where s1: "slot_row ?k s1 = Some (slot_admitted ?k (sr_owner sr) now detail)" "bound_scope (sr_binding sr) = Global"
    using assms(1) by (auto elim!: store_admit_cases simp: slot_request_of_def slot_row_def)
  have "slot_row ?k s2 = slot_row ?k (sr_others sr 0 s1)"
    using start_slot_frame [OF framed_slot_row, of sr ?k d slot "sr_others sr 0 s1"] assms(2,3)
    by (simp add: leaves_the_slot_def)
  with s1 have row: "slot_row ?k (sr_others sr 1 s2) = Some (slot_admitted ?k (sr_owner sr) now detail)"
    using assms(2) by (simp add: leaves_the_slot_def)
  have "process_slot sr now d slot s
      = store_settle_slot (sr_binding sr) ?k (sr_owner sr) ?settlement now (sr_others sr 1 s2)"
    using assms(1,3) by (simp add: process_slot_def slot_request_of_def slot_key_of_def Let_def)
  then have "slot_row ?k (snd (process_slot sr now d slot s))
      = Some (slot_settled ?settlement now (slot_admitted ?k (sr_owner sr) now detail))"
    using row s1(2)
    by (simp add: store_settle_slot_def refuse_instance_wide_def slot_row_def slot_admitted_def bt_get_modify)
  then show ?thesis
    by (cases ?settlement) (auto simp: slot_settled_def slot_admitted_def)
qed

text \<open>A slot is settled as its start went: a run that started is named on it, a refusal that will be
  the same next time closes it with its words, and a start that met a bad moment leaves it open to
  whoever asks, at any time.\<close>

theorem slot_is_settled_as_its_start_went:
  assumes "store_admit_slot (sr_binding sr) (slot_request_of sr now d slot) s = (Inr Admitted, s1)"
    and "leaves_the_slot (slot_key_of d slot) sr"
    and "start_slot sr d slot (sr_others sr 0 s1) = (result, s2)"
  shows "\<exists>record. slot_row (slot_key_of d slot) (snd (process_slot sr now d slot s)) = Some record \<and>
    (case result of
       Inr execution \<Rightarrow> sl_outcome record = Some SlotStarted \<and> sl_execution_id record = Some execution
     | Inl refusal \<Rightarrow> sl_detail record = Some (sr_words sr refusal) \<and>
         (if start_same_next_time refusal then sl_outcome record = Some SlotRefused
          else is_available record at))"
  using slot_settled_as_started [OF assms]
  by (auto simp: slot_settlement_of_def is_available_def lease_expired_def split: sum.splits)

subsection \<open>A slot left due\<close>

lemma slot_before_cursor:
  assumes "(d, slot) \<in> set (tick_due zones scheduled previous now)"
    and "\<And>zone. zones (sc_timezone (df_schedule d)) = Some zone \<Longrightarrow> zone_ok zone" and "in_calendar now"
  shows "slot \<le> seconds (now div seconds 1)"
proof -
  have due: "slot \<in> set (slots_due zones d previous now)" using assms(1) by (auto simp: tick_due_def)
  have "slot mod seconds 1 = 0"
  proof (cases "zones (sc_timezone (df_schedule d))")
    case None
    with due show ?thesis by (auto simp: slots_due_def slots_between_def split: if_splits)
  next
    case (Some zone)
    with slots_whole [where zones = zones and s = "df_schedule d", OF Some assms(2) [OF Some] assms(3)] due
    show ?thesis by (simp add: slots_due_def list_all_iff)
  qed
  then have "slot = seconds (slot div seconds 1)" by (auto simp: seconds_def)
  moreover have "slot div seconds 1 \<le> now div seconds 1"
    using slots_due_bounds [OF due] by (intro zdiv_mono1) (auto simp: seconds_def)
  ultimately show ?thesis by (metis seconds_mono)
qed

text \<open>No tick at or after the one that considered a slot considers it again.\<close>

lemma slot_behind_the_cursor:
  assumes "leaves_the_cursor sr" and "\<And>at t. cursor (between at t) = cursor t"
    and "slot \<le> seconds (first div seconds 1)" and "0 \<le> first"
    and "cursor s = Some (tick_cursor first)" and "in_calendar first"
    and "list_all (\<lambda>(at, scheduled). first \<le> at \<and> in_calendar at) ticks"
  shows "(d2, slot) \<notin> set (considered sr between ticks s)"
  using assms(5-7)
proof -
  have "(d2, slot) \<notin> set (considered sr between ticks s)"
    if "cursor s = Some (tick_cursor at)" "first \<le> at" "in_calendar at"
      "list_all (\<lambda>(at, scheduled). first \<le> at \<and> in_calendar at) ticks" for at
    using that
  proof (induction ticks arbitrary: s at)
    case (Cons tick ticks)
    obtain now scheduled where tick_is: "tick = (now, scheduled)" by (cases tick)
    obtain s' where tick: "scheduler_tick sr (Inr scheduled) now s = (Inr (), s')"
      using tick_succeeds [OF assms(1)] by blast
    have "cursor (between now s') = Some (tick_cursor now)"
      using tick_moves_the_cursor [OF tick] assms(2) by simp
    then have rest: "(d2, slot) \<notin> set (considered sr between ticks (between now s'))"
      by (rule Cons.IH) (use Cons.prems tick_is in simp_all)
    have "0 \<le> at" using assms(4) Cons.prems(2) by simp
    then have reads: "tick_from (cursor s) now = seconds (at div seconds 1)"
      using Cons.prems(1) in_calendar_unix [OF Cons.prems(3)] by (simp add: tick_reads_its_cursor)
    have "first div seconds 1 \<le> at div seconds 1" using Cons.prems(2) by (intro zdiv_mono1) (simp_all add: seconds_def)
    then have "slot \<le> seconds (at div seconds 1)" using assms(3) by (simp add: seconds_def)
    then have "(d2, slot) \<notin> set (tick_due (sr_zones sr) scheduled (tick_from (cursor s) now) now)"
      unfolding reads by (auto simp: tick_due_def dest: slots_due_bounds)
    with rest tick tick_is show ?case by simp
  qed simp
  with assms(5-7) show ?thesis by blast
qed

lemma other_slot_row:
  assumes "slot_key_of d' slot' \<noteq> k" and "leaves_the_slot k sr"
  shows "slot_row k (snd (process_slot sr now d' slot' s)) = slot_row k s"
proof -
  have others: "slot_row k (sr_others sr n t) = slot_row k t" for n t using assms(2) by (simp add: leaves_the_slot_def)
  have start: "start_slot sr d slot t = (r, t') \<Longrightarrow> slot_row k t' = slot_row k t" for d slot t r t'
    using start_slot_frame [OF framed_slot_row, of sr k d slot t] assms(2) by (simp add: leaves_the_slot_def)
  have settle: "slot_row k (snd (store_settle_slot b (slot_key_of d' slot') owner settlement now t)) = slot_row k t"
    for b owner settlement t
    using assms(1) by (simp add: store_settle_slot_def slot_row_def bt_get_modify split: sum.splits option.splits)
  show ?thesis
  proof (cases "store_admit_slot (sr_binding sr) (slot_request_of sr now d' slot') s")
    case admit: (Pair r s1)
    have kept: "slot_row k s1 = slot_row k s"
      using admit assms(1) by (auto elim!: store_admit_cases simp: slot_row_def slot_request_of_def)
    obtain result s2 where started: "start_slot sr d' slot' (sr_others sr 0 s1) = (result, s2)" by fastforce
    from kept start [OF started] admit started show ?thesis
      by (cases r; cases "projr r")
        (simp_all add: process_slot_def slot_request_of_def settle [unfolded slot_key_of_def] slot_key_of_def others Let_def)
  qed
qed

lemma other_slots_row:
  "\<forall>(d', slot') \<in> set due. slot_key_of d' slot' \<noteq> k \<Longrightarrow> leaves_the_slot k sr \<Longrightarrow>
     slot_row k (foldl (\<lambda>s (d, slot). snd (process_slot sr now d slot s)) s due) = slot_row k s"
  by (induction due arbitrary: s) (auto simp: other_slot_row)

text \<open>C8: A slot left due is never started. Where one of the slots a tick finds cannot be started because of
  a bad moment, its row stays open, to be taken by anybody at any time, and yet no tick after that one
  considers it again, however many follow, whatever the schedules are by then and whatever happens
  between them: for as long as their clocks do not read before the tick that left it and no other
  replica moves the cursor, which this tick has moved past the slot.\<close>

theorem slot_left_due_is_never_started:
  assumes "tick_due (sr_zones sr) scheduled (tick_from (cursor s) now) now = before @ (d, slot) # behind"
    and "list_all (\<lambda>(d', slot'). slot_key_of d' slot' \<noteq> slot_key_of d slot) behind"
    and "store_admit_slot (sr_binding sr) (slot_request_of sr now d slot)
           (foldl (\<lambda>s (d, slot). snd (process_slot sr now d slot s)) s before) = (Inr Admitted, s0)"
    and "start_slot sr d slot (sr_others sr 0 s0) = (Inl refusal, s1)" and "\<not> start_same_next_time refusal"
    and "leaves_the_slot (slot_key_of d slot) sr" and "leaves_the_cursor sr" and "\<And>at t. cursor (between at t) = cursor t"
    and "scheduler_tick sr (Inr scheduled) now s = (Inr (), s2)"
    and "\<And>zone. sr_zones sr (sc_timezone (df_schedule d)) = Some zone \<Longrightarrow> zone_ok zone"
    and "0 \<le> now" and "in_calendar now" and "cursor s3 = cursor s2"
    and "list_all (\<lambda>(at, scheduled). now \<le> at \<and> in_calendar at) ticks"
  shows "(\<exists>record. slot_row (slot_key_of d slot) s2 = Some record \<and> is_available record at) \<and>
    (d2, slot) \<notin> set (considered sr between ticks s3)"
proof -
  let ?process = "\<lambda>s (d, slot). snd (process_slot sr now d slot s)"
  have "bound_scope (sr_binding sr) = Global" using assms(7) by (simp add: leaves_the_cursor_def)
  then have checkpoint: "store_checkpoint (sr_binding sr) SCHEDULER_PROCESSOR s = Inr (cursor s)"
    by (simp add: store_checkpoint_def guarded_def refuse_instance_wide_def cursor_def)
  have "slot_row k s2 = slot_row k (foldl ?process s (before @ (d, slot) # behind))" for k
    using assms(9) checkpoint unfolding assms(1) [symmetric]
    by (auto simp: scheduler_tick_def store_advance_checkpoint_def slot_row_def split: sum.splits)
  then have "slot_row (slot_key_of d slot) s2 =
      slot_row (slot_key_of d slot) (snd (process_slot sr now d slot (foldl ?process s before)))"
    using other_slots_row [OF _ assms(6)] assms(2) by (simp add: list_all_iff)
  then have "\<exists>record. slot_row (slot_key_of d slot) s2 = Some record \<and> is_available record at"
    using slot_settled_as_started [OF assms(3,6,4)] assms(5)
    by (auto simp: slot_settlement_of_def is_available_def lease_expired_def)
  moreover have "(d, slot) \<in> set (tick_due (sr_zones sr) scheduled (tick_from (cursor s) now) now)"
    unfolding assms(1) by simp
  from slot_before_cursor [OF this assms(10,12)] have "slot \<le> seconds (now div seconds 1)" .
  moreover have "cursor s3 = Some (tick_cursor now)" using tick_moves_the_cursor [OF assms(9)] assms(13) by simp
  ultimately show ?thesis using slot_behind_the_cursor [where between = between, OF assms(7,8) _ assms(11) _ assms(12,14)] by blast
qed

subsection \<open>Two replicas\<close>

lemma slot_run_simps [simp]:
  "rr_identity (slot_run d x) = NamedRun x" "rr_project (slot_run d x) = None"
  "rr_payloads (slot_run d x) = None" "rr_decided_by (slot_run d x) = DecideLocal"
  by (simp_all add: slot_run_def)

lemma slot_started_cases:
  assumes "(case c of Inl err \<Rightarrow> (Inl err, s)
      | Inr plan \<Rightarrow> (case f plan of (Inl err, s') \<Rightarrow> (Inl err, s') | (Inr _, s') \<Rightarrow> (Inr y, s'))) = (Inr x, s1)"
  obtains plan first where "c = Inr plan" "f plan = (Inr first, s1)" "x = y"
  using assms by (cases c) (auto split: prod.splits sum.splits)

text \<open>Two replicas that both find a slot due start one run: the second, whatever it compiled the
  definition to and whatever its schedule has become, reaches the run of the first, and its start
  writes nothing.\<close>

theorem replicas_start_one_run:
  assumes "start_slot sr d slot s = (Inr x, s1)" and "xe_handler (sr_executions sr) = Some en"
    and "store_reachable (en_size en) s" and "\<And>k t. store_steps (en_size en) t (en_others en k t)"
    and "bound_scope (en_binding en) = Global" and "store_steps (en_size en) s1 s2"
    and "xe_handler (sr_executions sr2) = Some en2" and "en_crates en2 = en_crates en"
    and "bound_scope (en_binding en2) = Global" and "sr_crates sr2 = sr_crates sr"
    and "df_kind d2 = df_kind d" and "df_name d2 = df_name d"
    and "compile_head (sr_executions sr2) (sr_clock sr2) (df_kind d2) (df_name d2) = Inr plan2"
    and "payload_policy_of (sr_executions sr2) None = Inr payloads2"
    and "check_capacity (en_capabilities en2) plan2 Compiled = Inr ()"
  shows "start_slot sr2 d2 slot s2 = (Inr x, s2)"
proof -
  let ?i = "start_message_id (en_crates en) x"
  have id: "execution_id_for (sr_crates sr2) d2 slot = execution_id_for (sr_crates sr) d slot"
    using assms(10-12) by (simp add: execution_id_for_def schedule_path_def)
  obtain plan first where plan: "compile_head (sr_executions sr) (sr_clock sr) (df_kind d) (df_name d) = Inr plan"
    and started: "start_run (sr_executions sr) [] (sr_clock sr) plan (slot_run d x) s = (Inr first, s1)"
    and x: "x = execution_id_for (sr_crates sr) d slot"
    using assms(1) unfolding start_slot_def Let_def by (elim slot_started_cases) (rule that, simp_all)
  obtain payloads where first: "sd_execution_id first = run_identity_of (en_crates en) [] (NamedRun x) plan (start_scope (slot_run d x))"
    and handled: "decide_and_append en (sd_execution_id first) (start_command plan (slot_run d x) payloads (sd_execution_id first))
       (caused_by (sd_execution_id first) (start_message_id (en_crates en) (sd_execution_id first))
          (start_message_id (en_crates en) (sd_execution_id first)) (sr_clock sr)) (sr_clock sr) None None s
        = (Inr (sd_handled first), s1)"
    by (rule started_is_handled [OF started assms(2)]) simp
  have fx: "sd_execution_id first = x" using first by (simp add: run_identity_of_def start_scope_def)
  have rec: "recorded_id s1 x ?i"
    using handled_is_recorded [OF handled assms(3,4)] fx by (simp add: caused_by_def)
  have "owner_of s1 x = None"
    using handled_global [OF handled assms(5,4,3)] fx by simp
  then have "owner_of s2 x = None \<and> holds s2 x"
    using global_stays recorded_holds [OF rec] assms(6) by blast
  then have admitted: "inner_admits s2 (en_binding en2) x"
    using assms(9) by (simp add: inner_admits_def binding_admits_def)
  have rec2: "recorded_id s2 x ?i" using rec steps_keep [OF assms(6)] by (rule recorded_grows)
  have "\<exists>again. decide_and_append en2 x (start_command plan2 (slot_run d2 x) payloads2 x)
      (caused_by x ?i ?i (sr_clock sr2)) (sr_clock sr2) None None s2 = (Inr again, s2)"
    using handled_again [where en = en2 and own = None and md = "caused_by x ?i ?i (sr_clock sr2)", OF rec2 admitted]
    by (simp only: caused_by_def message_metadata.simps simp_thms) blast
  then obtain again where again: "decide_and_append en2 x (start_command plan2 (slot_run d2 x) payloads2 x)
      (caused_by x ?i ?i (sr_clock sr2)) (sr_clock sr2) None None s2 = (Inr again, s2)" by blast
  have "handle_start en2 x (start_command plan2 (slot_run d2 x) payloads2 x)
      (caused_by x ?i ?i (sr_clock sr2)) (sr_clock sr2) None s2 = (Inr again, s2)"
    using again assms(15) by (simp add: handle_start_def handle_with_checkpoint_def start_command_def del: handle_loop.simps)
  then have "start_run (sr_executions sr2) [] (sr_clock sr2) plan2 (slot_run d2 x) s2
      = (Inr \<lparr>sd_execution_id = x, sd_handled = again\<rparr>, s2)"
    using assms(7,8,14) by (simp add: start_run_def start_handler_def run_identity_of_def start_scope_def)
  with assms(13) id x show ?thesis by (simp add: start_slot_def)
qed

end
