(* ===== verification/Schedule_Demo.thy ===== *)
theory Schedule_Demo
  imports Schedule_Props
begin

text \<open>
  The rule at the two changes of the clocks of 2026 in Europe/Warsaw: on 29 March, 01:00 UTC, the
  offset goes from one hour to two and 02:30 does not happen; on 25 October, 01:00 UTC, it goes back
  and 02:30 happens twice. The instances are the witnesses of the properties of \<open>Schedule_Props\<close>.
\<close>

subsection \<open>Two zones\<close>

definition spring_change :: instant where "spring_change = seconds 1774746000"

definition warsaw_spring :: time_zone where
  "warsaw_spring =
     \<lparr>tz_offset = (\<lambda>at. if at < spring_change then 3600 else 7200),
      tz_assume = (\<lambda>wall.
        if wall - seconds 3600 < spring_change then OneInstant (wall - seconds 3600)
        else if spring_change \<le> wall - seconds 7200 then OneInstant (wall - seconds 7200)
        else NoInstant)\<rparr>"

definition autumn_change :: instant where "autumn_change = seconds 1792890000"

definition warsaw_autumn :: time_zone where
  "warsaw_autumn =
     \<lparr>tz_offset = (\<lambda>at. if at < autumn_change then 7200 else 3600),
      tz_assume = (\<lambda>wall.
        if autumn_change \<le> wall - seconds 7200 then OneInstant (wall - seconds 3600)
        else if wall - seconds 3600 < autumn_change then OneInstant (wall - seconds 7200)
        else TwoInstants (wall - seconds 7200) (wall - seconds 3600))\<rparr>"

lemma warsaw_spring_ok: "zone_ok warsaw_spring"
  by (auto simp: zone_ok_def warsaw_spring_def local_wall_def seconds_def spring_change_def)

lemma warsaw_autumn_ok: "zone_ok warsaw_autumn"
  by (auto simp: zone_ok_def warsaw_autumn_def local_wall_def seconds_def autumn_change_def)

definition zones_demo :: "string \<Rightarrow> time_zone option" where
  "zones_demo name =
     (if name = ''spring'' then Some warsaw_spring
      else if name = ''autumn'' then Some warsaw_autumn else None)"

definition nightly_schedule :: "string \<Rightarrow> schedule" where
  "nightly_schedule zone = \<lparr>sc_cadence = Daily 2 30, sc_timezone = zone, sc_enabled = True, sc_overlap = OverlapSkip\<rparr>"

definition every_hour :: schedule where
  "every_hour = \<lparr>sc_cadence = Hourly 30, sc_timezone = ''autumn'', sc_enabled = True, sc_overlap = OverlapSkip\<rparr>"

subsection \<open>The night that is missing an hour\<close>

lemma spring_slots:
  "slots_between zones_demo (nightly_schedule ''spring'') (seconds 1774659600) (seconds 1774832400)
     = [seconds 1774659600 + seconds 1800, seconds 1774746000, seconds 1774830600]"
  by code_simp

theorem slots_are_the_named_instants_witness:
  "sorted_wrt (<) (slots_between zones_demo (nightly_schedule ''spring'') (seconds 1774659600) (seconds 1774832400)) \<and>
   {at. seconds 1774659600 < at \<and> at \<le> seconds 1774832400 \<and> names_instant (nightly_schedule ''spring'') warsaw_spring at}
     = {seconds 1774661400, seconds 1774746000, seconds 1774830600}"
proof -
  have "sc_enabled (nightly_schedule ''spring'')" "zones_demo (sc_timezone (nightly_schedule ''spring'')) = Some warsaw_spring"
    "in_calendar (seconds 1774832400)"
    by (simp_all add: nightly_schedule_def zones_demo_def in_calendar_def DATE_MAX_def DAY_def seconds_def)
  note slots = slots_are_the_named_instants [where zones = zones_demo and s = "nightly_schedule ''spring''" and previous = "seconds 1774659600", OF this(1,2) warsaw_spring_ok this(3)]
  have "set (slots_between zones_demo (nightly_schedule ''spring'') (seconds 1774659600) (seconds 1774832400))
      = {seconds 1774661400, seconds 1774746000, seconds 1774830600}"
    unfolding spring_slots by (simp add: seconds_def)
  with slots show ?thesis by simp
qed

theorem skipped_time_fires_at_the_crossing_witness:
  "\<exists>s. resolve (Daily 2 30) warsaw_spring (seconds 1774751400) = [seconds s]
    \<and> seconds 1774751400 \<le> local_wall warsaw_spring (seconds s)
    \<and> local_wall warsaw_spring (seconds (s - 1)) < seconds 1774751400"
  by (rule skipped_time_fires_at_the_crossing)
    (simp_all add: warsaw_spring_def spring_change_def seconds_def bracketed_def local_wall_def)

theorem tick_rate_does_not_matter_witness:
  "ticked zones_demo (nightly_schedule ''spring'') (seconds 1774659600)
       [seconds 1774659660, seconds 1774746000, seconds 1774746000, seconds 1774830599, seconds 1774832400]
     = [seconds 1774661400, seconds 1774746000, seconds 1774830600]"
proof -
  have "ticked zones_demo (nightly_schedule ''spring'') (seconds 1774659600)
       [seconds 1774659660, seconds 1774746000, seconds 1774746000, seconds 1774830599, seconds 1774832400]
     = slots_between zones_demo (nightly_schedule ''spring'') (seconds 1774659600) (seconds 1774832400)"
    by (subst tick_rate_does_not_matter)
      (simp_all add: nightly_schedule_def zones_demo_def in_calendar_def DATE_MAX_def DAY_def seconds_def warsaw_spring_ok)
  then show ?thesis unfolding spring_slots by (simp add: seconds_def)
qed

theorem slots_are_whole_seconds_witness:
  "list_all (\<lambda>at. at mod seconds 1 = 0)
     (slots_between zones_demo (nightly_schedule ''spring'') (seconds 1774659600) (seconds 1774832400))"
  by (rule slots_are_whole_seconds [where zone = warsaw_spring])
    (simp_all add: nightly_schedule_def zones_demo_def in_calendar_def DATE_MAX_def DAY_def seconds_def warsaw_spring_ok)

theorem daily_schedule_has_a_next_run_witness:
  "\<exists>at. next_after zones_demo (nightly_schedule ''spring'') (seconds 1774659600) = Some at"
proof (rule daily_schedule_has_a_next_run [where zone = warsaw_spring and hour = 2 and minute = 30 and e = 2
      and wall = "seconds 1774837800"])
  show "zone_ok warsaw_spring" by (rule warsaw_spring_ok)
qed (simp_all add: nightly_schedule_def zones_demo_def in_calendar_def DATE_MAX_def DAY_def seconds_def warsaw_spring_def
    wall_time_def spring_change_def)

subsection \<open>The night that has one hour twice\<close>

text \<open>A daily schedule takes the first half past two, an hourly one both.\<close>

lemma autumn_slots:
  "slots_between zones_demo (nightly_schedule ''autumn'') (seconds 1792882800) (seconds 1792897200) = [seconds 1792888200]"
  "slots_between zones_demo every_hour (seconds 1792882800) (seconds 1792897200)
     = [seconds 1792884600, seconds 1792888200, seconds 1792891800, seconds 1792895400]"
  by code_simp+

lemma autumn_next: "next_after zones_demo (nightly_schedule ''autumn'') (seconds 1792882800) = Some (seconds 1792888200)"
  by code_simp

theorem next_run_is_the_next_slot_witness:
  "slots_between zones_demo (nightly_schedule ''autumn'') (seconds 1792882800) (seconds 1792888200) = [seconds 1792888200]
   \<and> slots_between zones_demo (nightly_schedule ''autumn'') (seconds 1792882800) (seconds 1792888199) = []"
  using next_run_is_the_next_slot [OF autumn_next, of "seconds 1792888199"]
  by (simp add: nightly_schedule_def zones_demo_def in_calendar_def DATE_MAX_def DAY_def seconds_def warsaw_autumn_ok)

subsection \<open>What a save refuses\<close>

lemma refused_schedules:
  "schedule_check zones_demo (nightly_schedule ''spring'') = Inr ()"
  "schedule_check zones_demo (nightly_schedule ''spring''\<lparr>sc_cadence := Weekly 7 24 0\<rparr>) = Inl (OutOfRange ''hour'' 24 23)"
  "schedule_check zones_demo (nightly_schedule ''Mars'') = Inl (UnknownZone ''Mars'')"
  by code_simp+

end
