(* ===== verification/Scheduler_Demo.thy ===== *)
theory Scheduler_Demo
  imports Scheduler_Props Schedule_Demo Handler_Demo
begin

text \<open>
  Starts and ticks on concrete stores: the witnesses of the properties of \<open>Start_Props\<close>,
  \<open>Schedule_Store\<close> and \<open>Scheduler_Props\<close>. The plan is one gate, which a project may run too.
\<close>

subsection \<open>One plan, one deployment\<close>

definition gate_plan :: execution_plan where
  "gate_plan = (demo_plan [] [])\<lparr>plan_steps := [(demo_step ''ask'')\<lparr>ps_runtime := HumanInput
     \<lparr>hi_prompt = ''go?'', hi_role = [], hi_choices = [], hi_block = None, hi_timeout_seconds = None,
      hi_on_timeout = TimeoutFail\<rparr>\<rparr>]\<rparr>"

definition demo_engine :: "scope_binding \<Rightarrow> engine" where
  "demo_engine b =
     \<lparr>en_crates = numbered_crates, en_size = no_size, en_to_value = (\<lambda>_. JNull),
      en_capabilities = memory_capabilities, en_binding = b, en_clock = 7, en_others = (\<lambda>k t. t)\<rparr>"

definition demo_executions ::
  "scope_binding \<Rightarrow> (registry_error + execution_plan option) \<Rightarrow> (execution_plan, unit) executions" where
  "demo_executions b answer =
     \<lparr>xe_handler = Some (demo_engine b), xe_pipelines = Some (\<lambda>_ _. answer), xe_workflows = None,
      xe_compile_curation = (\<lambda>plan _. Inr plan), xe_compile_workflow = (\<lambda>_. Inl []),
      xe_payloads = \<lparr>pd_policy = External, pd_locked = False\<rparr>, xe_archive = False,
      xe_engine = EngineFlow, xe_query_timeout = None\<rparr>"

lemma demo_engine_simps [simp]:
  "en_crates (demo_engine b) = numbered_crates" "en_size (demo_engine b) = no_size"
  "en_binding (demo_engine b) = b" "en_others (demo_engine b) k t = t"
  "en_capabilities (demo_engine b) = memory_capabilities"
  by (simp_all add: demo_engine_def)

lemma demo_executions_simps [simp]:
  "xe_handler (demo_executions b a) = Some (demo_engine b)"
  "payload_policy_of (demo_executions b a) None = Inr External"
  by (simp_all add: demo_executions_def payload_policy_of_def payload_resolve_def needs_archive_def)

lemma gate_acyclic: "is_acyclic gate_plan"
  by code_simp

lemma gate_performed: "refuse_outside_a_project gate_plan = Inr ()"
  by code_simp

lemma start_decided: "plan_steps (st_plan r) \<noteq> [] \<Longrightarrow> is_acyclic (st_plan r) \<Longrightarrow>
    \<exists>out. decide C Empty (Command (StartExecution r)) cause now = Inr out"
  by (simp add: decide_start_def Let_def)

text \<open>A first start through the path of its scope is accepted.\<close>

lemma first_start:
  assumes "case own of None \<Rightarrow> b = binding_global | Some w \<Rightarrow> b = ScopeBinding (Project (ow_scope w))"
    and "plan_steps (st_plan r) \<noteq> []" and "is_acyclic (st_plan r)"
    and "in_streams s = []" and "in_seen s = []" and "in_ownership s = []"
  shows "\<exists>answer s'. decide_and_append (demo_engine b) x (Command (StartExecution r)) md now None own s = (Inr answer, s')"
proof -
  let ?input = "Command (StartExecution r)"
  have state: "stream_of s x = []" "owner_of s x = None" "seen_at s x i = None" "holds s x = False" for i
    using assms(4-6) by (simp_all add: stream_of_def owner_of_def seen_at_def holds_def)
  have folded: "folded s x = Empty" by (simp add: folded_def state replay_def initial_state_def)
  obtain out where out: "decide numbered_crates (folded s x) ?input (md_message_id md) now = Inr out"
    using start_decided [OF assms(2,3)] unfolding folded by blast
  let ?req = "decision_request (demo_engine b) x ?input md None own (loaded s x) out"
  have load: "store_load b x s = Inr (loaded s x)"
    by (rule load_admitted)
      (use assms(1) state in \<open>auto simp: inner_admits_def binding_admits_def binding_global_def split: option.splits\<close>)
  have "check_payloads no_size ?req = Inr ()"
    by (auto simp: check_payloads_def payload_size_def no_size_def find_None_iff' split: option.splits dest: find_Some_mem)
  moreover have "binding_appending b x own None True = Inr own"
    using assms(1) by (auto simp: binding_appending_def binding_check_def binding_admits_def binding_global_def
        split: option.splits)
  ultimately have "\<exists>v. store_append no_size b (en_clock (demo_engine b)) x ?req s
      = (Inr (Appended v), commit (en_clock (demo_engine b)) x own ?req (touch_stream x s))"
    using state by (simp add: store_append_def Let_def)
  then obtain v where app: "store_append (en_size (demo_engine b)) (en_binding (demo_engine b)) (en_clock (demo_engine b)) x ?req
      (en_others (demo_engine b) k s) = (Inr (Appended v), commit (en_clock (demo_engine b)) x own ?req (touch_stream x s))" for k
    by auto
  have "List.find (\<lambda>m. md_message_id (rm_metadata m) = md_message_id md) (stream_of s x) = None" by (simp add: state)
  from handle_pass_tried [where en = "demo_engine b", OF _ this _ app] load out show ?thesis
    by (simp add: decide_and_append_def)
qed

subsection \<open>Starts\<close>

lemma started_run:
  assumes "rr_identity run = NamedRun i \<or> rr_identity run = KeyRun i" and "rr_payloads run = None"
    and "case rr_project run of None \<Rightarrow> b = binding_global | Some project \<Rightarrow> b = ScopeBinding (Project (pj_scope project))"
    and "in_streams s = []" and "in_seen s = []" and "in_ownership s = []"
  shows "\<exists>first s1. start_run (demo_executions b a) fresh now gate_plan run s = (Inr first, s1) \<and>
    sd_execution_id first = run_identity_of numbered_crates fresh (rr_identity run) gate_plan (start_scope run)"
proof -
  let ?x = "run_identity_of numbered_crates fresh (rr_identity run) gate_plan (start_scope run)"
  let ?i = "start_message_id numbered_crates ?x"
  let ?own = "map_option (\<lambda>project. ownership_of project gate_plan) (rr_project run)"
  obtain owner mode where parts: "decider_parts (rr_decided_by run) = (owner, mode)" by fastforce
  have own: "case ?own of None \<Rightarrow> b = binding_global | Some w \<Rightarrow> b = ScopeBinding (Project (ow_scope w))"
    using assms(3) by (cases "rr_project run") (simp_all add: ownership_of_def)
  have plan: "plan_steps gate_plan \<noteq> []" by (simp add: gate_plan_def)
  let ?r = "\<lparr>st_execution_id = ?x, st_plan = gate_plan, st_owner = owner, st_mode = mode,
         st_payloads = External, st_requested_by = rr_requested_by run, st_input = rr_parameters run\<rparr>"
  have cmd: "start_command gate_plan run External ?x = Command (StartExecution ?r)"
    by (simp add: start_command_def parts)
  have steps: "plan_steps (st_plan ?r) \<noteq> []" "is_acyclic (st_plan ?r)" using plan gate_acyclic by simp_all
  obtain answer s' where "decide_and_append (demo_engine b) ?x (start_command gate_plan run External ?x)
      (caused_by ?x ?i ?i now) now None ?own s = (Inr answer, s')"
    using first_start [OF own steps assms(4-6)] unfolding cmd by blast
  then have "handle_start (demo_engine b) ?x (start_command gate_plan run External ?x) (caused_by ?x ?i ?i now) now ?own s
      = (Inr answer, s')"
    by (simp add: handle_start_def handle_with_checkpoint_def start_command_def parts check_capacity_def
        memory_capabilities_def del: handle_loop.simps)
  then have "start_run (demo_executions b a) fresh now gate_plan run s
      = (Inr \<lparr>sd_execution_id = ?x, sd_handled = answer\<rparr>, s')"
    using assms(2)
    by (cases "rr_project run") (simp_all add: start_run_def start_handler_def gate_performed Let_def)
  then show ?thesis by simp
qed

definition demo_tenant :: project_start where
  "demo_tenant = \<lparr>pj_scope = ProjectScope 1 2, pj_principal = \<lparr>pn_provider = ''oidc'', pn_subject = ''ada''\<rparr>\<rparr>"

definition keyed :: "string \<Rightarrow> project_start option \<Rightarrow> run_request" where
  "keyed who project = \<lparr>rr_identity = KeyRun ''k1'', rr_parameters = [], rr_requested_by = who,
     rr_decided_by = DecideLocal, rr_payloads = None, rr_project = project\<rparr>"

definition tenant_binding :: scope_binding where
  "tenant_binding = ScopeBinding (Project (ProjectScope 1 2))"

lemma demo_engine_others: "store_steps (en_size (demo_engine b)) t (en_others (demo_engine b) k t)"
  by (simp add: store_steps.stay)

lemma tenant_start:
  "\<exists>first s1. start_run (demo_executions tenant_binding (Inr None)) ''f1'' 5 gate_plan
     (keyed ''ada'' (Some demo_tenant)) inner_empty = (Inr first, s1)"
proof -
  let ?run = "keyed ''ada'' (Some demo_tenant)"
  have "rr_identity ?run = NamedRun ''k1'' \<or> rr_identity ?run = KeyRun ''k1''" "rr_payloads ?run = None"
    "case rr_project ?run of None \<Rightarrow> tenant_binding = binding_global
     | Some project \<Rightarrow> tenant_binding = ScopeBinding (Project (pj_scope project))"
    "in_streams inner_empty = []" "in_seen inner_empty = []" "in_ownership inner_empty = []"
    by (simp_all add: keyed_def tenant_binding_def demo_tenant_def inner_empty_def)
  from started_run [OF this] show ?thesis by blast
qed

theorem repeated_start_is_one_run_witness:
  "\<exists>first s1 again.
     start_run (demo_executions tenant_binding (Inr None)) ''f1'' 5 gate_plan (keyed ''ada'' (Some demo_tenant)) inner_empty
       = (Inr first, s1) \<and>
     start_run (demo_executions tenant_binding (Inr None)) ''f2'' 9 gate_plan (keyed ''a proxy'' (Some demo_tenant)) s1
       = (Inr again, s1) \<and>
     sd_execution_id again = sd_execution_id first \<and> hd_duplicate (sd_handled again)"
proof -
  obtain first s1 where started: "start_run (demo_executions tenant_binding (Inr None)) ''f1'' 5 gate_plan
      (keyed ''ada'' (Some demo_tenant)) inner_empty = (Inr first, s1)"
    using tenant_start by blast
  from repeated_start_is_one_run [OF started demo_executions_simps(1) store_reachable.empty demo_engine_others store_steps.stay,
      of "keyed ''a proxy'' (Some demo_tenant)" "''f2''" 9] started
  show ?thesis by (auto simp: keyed_def)
qed

theorem project_run_belongs_to_the_project_witness:
  "\<exists>first s1.
     start_run (demo_executions tenant_binding (Inr None)) ''f1'' 5 gate_plan (keyed ''ada'' (Some demo_tenant)) inner_empty
       = (Inr first, s1) \<and>
     inner_admits s1 tenant_binding (sd_execution_id first) \<and>
     \<not> inner_admits s1 binding_global (sd_execution_id first)"
proof -
  obtain first s1 where started: "start_run (demo_executions tenant_binding (Inr None)) ''f1'' 5 gate_plan
      (keyed ''ada'' (Some demo_tenant)) inner_empty = (Inr first, s1)"
    using tenant_start by blast
  have "rr_project (keyed ''ada'' (Some demo_tenant)) = Some demo_tenant" by (simp add: keyed_def)
  note owned = project_run_belongs_to_the_project [OF started demo_executions_simps(1) store_reachable.empty
      demo_engine_others store_steps.stay this]
  from owned [of tenant_binding] owned [of binding_global] started show ?thesis
    by (auto simp: tenant_binding_def binding_global_def demo_tenant_def)
qed

lemma project_ids_differ:
  "derive_uuid reversed_crates (project_run_text (ProjectScope 1 2) (KeyRun ''k1'') gate_plan)
     \<noteq> derive_uuid reversed_crates (project_run_text (ProjectScope 1 3) (KeyRun ''k1'') gate_plan)"
  by code_simp

theorem projects_never_share_a_run_witness:
  "run_identity_of reversed_crates [] (KeyRun ''k1'') gate_plan (Project (ProjectScope 1 2))
     \<noteq> run_identity_of reversed_crates [] (KeyRun ''k1'') gate_plan (Project (ProjectScope 1 3))"
  by (rule projects_never_share_a_run) (use project_ids_differ in \<open>auto simp: inj_on_def\<close>)

definition query_plan :: execution_plan where
  "query_plan = demo_plan [''a'', ''b''] []"

theorem project_start_is_refused_by_name_witness:
  "\<exists>problems. start_run (demo_executions tenant_binding (Inr None)) [] 5 query_plan (keyed ''ada'' (Some demo_tenant)) inner_empty
     = (Inl (SrRefused ''this plan has steps a project has no performer for'' problems), inner_empty) \<and> length problems = 2"
proof -
  have "list_ex (\<lambda>step. outside_a_project (binding_kind (ps_runtime step)) \<noteq> None) (plan_steps query_plan)"
    "length (filter (\<lambda>step. outside_a_project (binding_kind (ps_runtime step)) \<noteq> None) (plan_steps query_plan)) = 2"
    by code_simp+
  with project_start_is_refused_by_name [of "demo_executions tenant_binding (Inr None)" _ "keyed ''ada'' (Some demo_tenant)"]
  show ?thesis by (simp add: keyed_def)
qed

subsection \<open>Schedules kept\<close>

definition pii_schedule :: scheduled_definition where
  "pii_schedule = \<lparr>df_kind = CurationPipeline, df_name = ''pii'', df_schedule = nightly_schedule ''autumn'',
     df_set_by = ''ada'', df_updated_at = 0, df_effective_from = None\<rparr>"

text \<open>A codec that knows one row.\<close>

definition one_row :: schedule_codec where
  "one_row = \<lparr>cd_write = (\<lambda>d. if d = pii_schedule then Inr ''row'' else Inl ''unknown''),
     cd_read = (\<lambda>body. if body = ''row'' then Inr pii_schedule else Inl ''unknown'')\<rparr>"

theorem schedules_are_kept_by_kind_and_name_witness:
  "\<exists>objects. schedule_set numbered_crates one_row (\<lambda>_. None) pii_schedule [] = (Inr (), objects) \<and>
     schedule_get numbered_crates one_row (\<lambda>_. None) CurationPipeline ''pii'' objects = Inr (Some pii_schedule) \<and>
     schedule_get numbered_crates one_row (\<lambda>_. None) WorkflowKind ''pii'' objects = Inr None"
proof -
  have inj: "inj_on (digest numbered_crates) {df_name pii_schedule, ''pii''}" by (simp add: pii_schedule_def)
  obtain objects where set: "schedule_set numbered_crates one_row (\<lambda>_. None) pii_schedule [] = (Inr (), objects)"
    by (simp add: schedule_set_def one_row_def Let_def)
  have rows: "cd_write one_row pii_schedule = Inr body \<Longrightarrow> cd_read one_row body = Inr pii_schedule" for body
    by (auto simp: one_row_def)
  note kept = schedules_are_kept_by_kind_and_name [OF set _ rows inj]
  have "bt_ok []" by (simp add: bt_ok_def)
  from kept [OF this, of CurationPipeline] kept [OF this, of WorkflowKind] set show ?thesis
    by (simp add: pii_schedule_def schedule_get_def Let_def)
qed

subsection \<open>Ticks\<close>

definition demo_scheduler :: "(registry_error + execution_plan option) \<Rightarrow> (execution_plan, unit) scheduler" where
  "demo_scheduler answer =
     \<lparr>sr_crates = numbered_crates, sr_zones = zones_demo, sr_executions = demo_executions binding_global answer,
      sr_binding = binding_global, sr_owner = ''scheduler/1/local'', sr_clock = 5,
      sr_words = (\<lambda>_. ''could not start''), sr_others = (\<lambda>n s. s)\<rparr>"

definition bad_moment :: "registry_error + execution_plan option" where
  "bad_moment = Inl (RegStore (PortUnavailable ''the object store'' ''connection refused''))"

definition last_looked :: instant where "last_looked = seconds 1792888140"

definition looks_now :: instant where "looks_now = seconds 1792888210 + 5"

definition half_past_two :: instant where "half_past_two = seconds 1792888200"

definition demo_store :: inner where
  "demo_store = inner_empty\<lparr>in_checkpoints := [(SCHEDULER_PROCESSOR, tick_cursor last_looked)]\<rparr>"

lemma demo_scheduler_simps [simp]:
  "sr_crates (demo_scheduler a) = numbered_crates" "sr_zones (demo_scheduler a) = zones_demo"
  "sr_executions (demo_scheduler a) = demo_executions binding_global a"
  "sr_binding (demo_scheduler a) = binding_global" "sr_others (demo_scheduler a) n s = s"
  "sr_owner (demo_scheduler a) = ''scheduler/1/local''" "sr_clock (demo_scheduler a) = 5"
  by (simp_all add: demo_scheduler_def)

lemma demo_scheduler_leaves: "leaves_the_cursor (demo_scheduler a)" "leaves_the_slot k (demo_scheduler a)"
  by (auto simp: leaves_the_cursor_def leaves_the_slot_def binding_global_def)

lemma demo_cursor: "cursor demo_store = Some (tick_cursor last_looked)"
  by (simp add: cursor_def demo_store_def)

lemma pii_due: "slots_due zones_demo pii_schedule last_looked looks_now = [half_past_two]"
  by code_simp

lemma pii_zone: "zones_demo (sc_timezone (df_schedule pii_schedule)) = Some zone \<Longrightarrow> zone_ok zone"
  by (auto simp: pii_schedule_def nightly_schedule_def zones_demo_def warsaw_autumn_ok)

lemma looks_ok: "0 \<le> last_looked" "0 \<le> looks_now" "in_calendar looks_now" "last_looked < seconds 253402300800"
  "last_looked \<le> looks_now" "last_looked div seconds 1 = 1792888140"
  by (simp_all add: last_looked_def looks_now_def in_calendar_def DATE_MAX_def DAY_def seconds_def)

lemma demo_tick_due:
  "tick_due zones_demo [pii_schedule] (tick_from (cursor demo_store) looks_now) looks_now = [(pii_schedule, half_past_two)]"
proof -
  have "tick_from (cursor demo_store) looks_now = last_looked"
    using tick_reads_its_cursor [OF looks_ok(1,4), of looks_now] demo_cursor looks_ok(6)
    by (simp add: last_looked_def)
  then show ?thesis by (simp add: tick_due_def pii_due)
qed

theorem every_slot_is_considered_once_witness:
  "slots_of pii_schedule (considered (demo_scheduler bad_moment) (\<lambda>at s. s)
     (map (\<lambda>at. (at, [pii_schedule])) [last_looked + 1, half_past_two - 1, half_past_two, looks_now]) demo_store) = [half_past_two]"
proof -
  let ?at = "[last_looked + 1, half_past_two - 1, half_past_two, looks_now]"
  let ?ticks = "map (\<lambda>at. (at, [pii_schedule])) ?at"
  have sorted: "sorted (last_looked # map fst ?ticks)"
    by (simp add: last_looked_def half_past_two_def looks_now_def seconds_def)
  have "slots_of pii_schedule (considered (demo_scheduler bad_moment) (\<lambda>at s. s) ?ticks demo_store)
      = slots_due (sr_zones (demo_scheduler bad_moment)) pii_schedule last_looked (last (last_looked # map fst ?ticks))"
    by (rule every_slot_is_considered_once [OF demo_scheduler_leaves(1) HOL.refl demo_cursor sorted looks_ok(1)])
      (use looks_ok(3) pii_zone in auto)
  then show ?thesis by (simp add: pii_due)
qed

text \<open>The first tick finds the registry out of reach; the slot stays open, and a tick that looks a
  minute later, a day later or whenever does not find it.\<close>

lemma demo_admitted:
  "\<exists>s0. store_admit_slot (sr_binding (demo_scheduler a)) (slot_request_of (demo_scheduler a) looks_now pii_schedule half_past_two)
     demo_store = (Inr Admitted, s0) \<and> in_streams s0 = [] \<and> in_seen s0 = [] \<and> in_ownership s0 = []"
  by (simp add: store_admit_slot_def refuse_instance_wide_def binding_global_def slot_request_of_def demo_store_def
      inner_empty_def pii_schedule_def nightly_schedule_def blocking_run_def unfinished_runs_def bt_values_def)

lemma bad_start: "start_slot (demo_scheduler bad_moment) pii_schedule half_past_two s
    = (Inl (SrPipelines (RegStore (PortUnavailable ''the object store'' ''connection refused''))), s)"
  by (simp add: start_slot_def compile_head_def compile_target_def compile_pipeline_def pii_schedule_def
      demo_executions_def bad_moment_def)

theorem slot_left_due_is_never_started_witness:
  "\<exists>s2 record. scheduler_tick (demo_scheduler bad_moment) (Inr [pii_schedule]) looks_now demo_store = (Inr (), s2) \<and>
     slot_row (slot_key_of pii_schedule half_past_two) s2 = Some record \<and> is_available record (looks_now + seconds 60) \<and>
     (pii_schedule, half_past_two) \<notin> set (considered (demo_scheduler bad_moment) (\<lambda>at s. s)
        [(looks_now + seconds 60, [pii_schedule]), (looks_now + seconds 30, []), (looks_now + seconds 86400, [pii_schedule])] s2)"
proof -
  let ?sr = "demo_scheduler bad_moment"
  let ?refusal = "SrPipelines (RegStore (PortUnavailable ''the object store'' ''connection refused''))"
  let ?ticks = "[(looks_now + seconds 60, [pii_schedule]), (looks_now + seconds 30, []), (looks_now + seconds 86400, [pii_schedule])]"
  obtain s2 where tick: "scheduler_tick ?sr (Inr [pii_schedule]) looks_now demo_store = (Inr (), s2)"
    using tick_succeeds [OF demo_scheduler_leaves(1)] by blast
  obtain s0 where "store_admit_slot (sr_binding ?sr) (slot_request_of ?sr looks_now pii_schedule half_past_two)
      demo_store = (Inr Admitted, s0)"
    using demo_admitted [of bad_moment] by blast
  then have admitted: "store_admit_slot (sr_binding ?sr) (slot_request_of ?sr looks_now pii_schedule half_past_two)
      (foldl (\<lambda>s (d, slot). snd (process_slot ?sr looks_now d slot s)) demo_store []) = (Inr Admitted, s0)" by simp
  have due: "tick_due (sr_zones ?sr) [pii_schedule] (tick_from (cursor demo_store) looks_now) looks_now
      = [] @ (pii_schedule, half_past_two) # []" by (simp add: demo_tick_due)
  have none: "list_all (\<lambda>(d', slot'). slot_key_of d' slot' \<noteq> slot_key_of pii_schedule half_past_two) []" by simp
  have zone: "sr_zones ?sr (sc_timezone (df_schedule pii_schedule)) = Some zone \<Longrightarrow> zone_ok zone" for zone
    by (simp add: pii_zone)
  have bad: "\<not> start_same_next_time ?refusal" by simp
  have later: "list_all (\<lambda>(at, scheduled). looks_now \<le> at \<and> in_calendar at) ?ticks"
    by (simp add: looks_now_def in_calendar_def DATE_MAX_def DAY_def seconds_def)
  from slot_left_due_is_never_started [where between = "\<lambda>at s. s", OF due none admitted bad_start bad demo_scheduler_leaves(2,1) HOL.refl tick
      zone looks_ok(2,3) HOL.refl later, of "looks_now + seconds 60" pii_schedule] tick
  show ?thesis by auto
qed

lemma good_start:
  assumes "in_streams s = []" and "in_seen s = []" and "in_ownership s = []"
  shows "\<exists>s1. start_slot (demo_scheduler (Inr (Some gate_plan))) pii_schedule half_past_two s
    = (Inr (execution_id_for numbered_crates pii_schedule half_past_two), s1)"
proof -
  let ?x = "execution_id_for numbered_crates pii_schedule half_past_two"
  have "compile_head (demo_executions binding_global (Inr (Some gate_plan))) 5 (df_kind pii_schedule) (df_name pii_schedule)
      = Inr gate_plan"
    by (simp add: compile_head_def compile_target_def compile_pipeline_def pii_schedule_def demo_executions_def)
  moreover obtain first s1 where "start_run (demo_executions binding_global (Inr (Some gate_plan))) [] 5 gate_plan
      (slot_run pii_schedule ?x) s = (Inr first, s1)"
    using started_run [of "slot_run pii_schedule ?x" ?x binding_global s "Inr (Some gate_plan)" "[]" 5] assms by auto
  ultimately show ?thesis by (simp add: start_slot_def)
qed

theorem slot_is_settled_as_its_start_went_witness:
  "\<exists>record. slot_row (slot_key_of pii_schedule half_past_two)
       (snd (process_slot (demo_scheduler (Inr (Some gate_plan))) looks_now pii_schedule half_past_two demo_store)) = Some record \<and>
     sl_outcome record = Some SlotStarted"
proof -
  let ?sr = "demo_scheduler (Inr (Some gate_plan))"
  obtain s0 where admitted: "store_admit_slot (sr_binding ?sr) (slot_request_of ?sr looks_now pii_schedule half_past_two)
      demo_store = (Inr Admitted, s0)" "in_streams s0 = []" "in_seen s0 = []" "in_ownership s0 = []"
    using demo_admitted [of "Inr (Some gate_plan)"] by blast
  obtain s1 where "start_slot ?sr pii_schedule half_past_two (sr_others ?sr 0 s0)
      = (Inr (execution_id_for numbered_crates pii_schedule half_past_two), s1)"
    using good_start [OF admitted(2-4)] by auto
  from slot_is_settled_as_its_start_went [OF admitted(1) demo_scheduler_leaves(2) this] show ?thesis by auto
qed

theorem replicas_start_one_run_witness:
  "\<exists>x s1. start_slot (demo_scheduler (Inr (Some gate_plan))) pii_schedule half_past_two inner_empty = (Inr x, s1) \<and>
     start_slot (demo_scheduler (Inr (Some query_plan))) (pii_schedule\<lparr>df_set_by := ''ben''\<rparr>) half_past_two s1 = (Inr x, s1)"
proof -
  let ?sr = "demo_scheduler (Inr (Some gate_plan))" and ?sr2 = "demo_scheduler (Inr (Some query_plan))"
  let ?d2 = "pii_schedule\<lparr>df_set_by := ''ben''\<rparr>"
  obtain x s1 where started: "start_slot ?sr pii_schedule half_past_two inner_empty = (Inr x, s1)"
    using good_start [of inner_empty] by (auto simp: inner_empty_def)
  have compiled: "compile_head (sr_executions ?sr2) (sr_clock ?sr2) (df_kind ?d2) (df_name ?d2) = Inr query_plan"
    by (simp add: compile_head_def compile_target_def compile_pipeline_def pii_schedule_def demo_executions_def)
  have "start_slot ?sr2 ?d2 half_past_two s1 = (Inr x, s1)"
    by (rule replicas_start_one_run [where en = "demo_engine binding_global" and ?en2.0 = "demo_engine binding_global",
        OF started _ _ demo_engine_others _ store_steps.stay _ _ _ _ _ _ compiled])
      (simp_all add: store_reachable.empty binding_global_def check_capacity_def memory_capabilities_def)
  with started show ?thesis by blast
qed

end
