(* ===== verification/Exact.thy ===== *)
theory Exact
  imports Checkpoint Complex_Main
begin

text \<open>
  Numbers as they were written: the decimals of \<open>aiwatcher-core/src/exact.rs\<close>, read from a JSON
  number token, subtracted and compared digit by digit. Digits are bytes, most significant first;
  an exponent is an \<open>i64\<close>, with the checks of the code where it checks and the wrap-around of a
  release build where it does not (\<open>abs\<close> and the difference of two exponents). Reading and printing
  a double is left out.
\<close>

subsection \<open>Decimals\<close>

definition MOST_EXPONENT :: int where "MOST_EXPONENT = 4096"
definition MOST_DIGITS :: nat where "MOST_DIGITS = 4096"

text \<open>The range of an \<open>i64\<close>, and what \<open>checked_add\<close>, \<open>abs\<close> and \<open>-\<close> make of a result outside it.\<close>

definition i64_min :: int where "i64_min = - 9223372036854775808"
definition i64_max :: int where "i64_max = 9223372036854775807"

definition i64_checked :: "int \<Rightarrow> int option" where
  "i64_checked i = (if i64_min \<le> i \<and> i \<le> i64_max then Some i else None)"

definition i64_wrapped :: "int \<Rightarrow> int" where
  "i64_wrapped i = (i + 9223372036854775808) mod 18446744073709551616 - 9223372036854775808"

record decimal =
  dm_negative :: bool
  dm_digits :: "u8 list"
  dm_exponent :: int

definition decimal_zero :: decimal where
  "decimal_zero = \<lparr>dm_negative = False, dm_digits = [], dm_exponent = 0\<rparr>"

text \<open>The loop of \<open>stripped\<close> on the digits from the last: each trailing zero is one more in the exponent.\<close>

fun pop_zeros :: "u8 list \<Rightarrow> int \<Rightarrow> (u8 list \<times> int) option" where
  "pop_zeros [] e = Some ([], e)"
| "pop_zeros (d # ds) e =
     (if d = 0 then (case i64_checked (e + 1) of None \<Rightarrow> None | Some e' \<Rightarrow> pop_zeros ds e')
      else Some (d # ds, e))"

definition stripped :: "bool \<Rightarrow> u8 list \<Rightarrow> int \<Rightarrow> decimal option" where
  "stripped negative digits e =
     (case pop_zeros (rev (dropWhile (\<lambda>d. d = 0) digits)) e of
        None \<Rightarrow> None
      | Some (left, e') \<Rightarrow>
          if left = [] then Some decimal_zero
          else Some \<lparr>dm_negative = negative, dm_digits = rev left, dm_exponent = e'\<rparr>)"

definition normal :: "bool \<Rightarrow> u8 list \<Rightarrow> int \<Rightarrow> decimal option" where
  "normal negative digits e =
     (case stripped negative digits e of
        None \<Rightarrow> None
      | Some d \<Rightarrow>
          if length (dm_digits d) \<le> MOST_DIGITS \<and> i64_wrapped \<bar>dm_exponent d\<bar> \<le> MOST_EXPONENT
          then Some d else None)"

definition decimal_abs :: "decimal \<Rightarrow> decimal" where
  "decimal_abs d = d\<lparr>dm_negative := False\<rparr>"

definition negated :: "decimal \<Rightarrow> decimal" where
  "negated d = d\<lparr>dm_negative := (\<not> dm_negative d \<and> dm_digits d \<noteq> [])\<rparr>"

subsection \<open>Digits\<close>

datatype ordering = Less | Equal | Greater

fun ordering_then :: "ordering \<Rightarrow> ordering \<Rightarrow> ordering" where
  "ordering_then Equal o2 = o2"
| "ordering_then o1 _ = o1"

definition cmp_of :: "'a::linorder \<Rightarrow> 'a \<Rightarrow> ordering" where
  "cmp_of a b = (if a < b then Less else if a = b then Equal else Greater)"

definition compare_magnitude :: "u8 list \<Rightarrow> u8 list \<Rightarrow> ordering" where
  "compare_magnitude a b =
     (let a' = dropWhile (\<lambda>d. d = 0) a; b' = dropWhile (\<lambda>d. d = 0) b
      in ordering_then (cmp_of (length a') (length b')) (cmp_of a' b'))"

text \<open>The loops of \<open>add\<close> and \<open>subtract\<close>, on the digits from the last.\<close>

definition next_digit :: "u8 list \<Rightarrow> u8" where
  "next_digit ds = (case ds of [] \<Rightarrow> 0 | d # _ \<Rightarrow> d)"

function add_loop :: "u8 \<Rightarrow> u8 list \<Rightarrow> u8 list \<Rightarrow> u8 list" where
  "add_loop carry a b =
     (if a = [] \<and> b = [] \<and> carry = 0 then []
      else let digit = carry + next_digit a + next_digit b
           in (digit mod 10) # add_loop (digit div 10) (tl a) (tl b))"
  by pat_completeness auto
termination
proof (relation "measures [\<lambda>(carry, a, b). length a + length b, \<lambda>(carry, a, b). unat carry]", goal_cases)
  case (2 carry a b digit)
  show ?case
  proof (cases "a = [] \<and> b = []")
    case True
    then have "carry \<noteq> 0" "digit = carry" using 2 by (auto simp: next_digit_def)
    then have "0 < unat carry" by (simp add: unat_gt_0)
    then have "unat (digit div 10) < unat carry" using \<open>digit = carry\<close> by (simp add: unat_div)
    with True show ?thesis by simp
  next
    case False
    then have "length (tl a) + length (tl b) < length a + length b" by (cases a; cases b) auto
    then show ?thesis by simp
  qed
qed simp

declare add_loop.simps [simp del]

definition digits_add :: "u8 list \<Rightarrow> u8 list \<Rightarrow> u8 list" where
  "digits_add a b = rev (add_loop 0 (rev a) (rev b))"

text \<open>\<open>i8::try_from\<close> and \<open>u8::try_from\<close> with their default of zero.\<close>

definition i8_of :: "u8 \<Rightarrow> int" where
  "i8_of d = (if uint d \<le> 127 then uint d else 0)"

definition u8_of :: "int \<Rightarrow> u8" where
  "u8_of i = (if 0 \<le> i \<and> i \<le> 255 then word_of_int i else 0)"

fun subtract_loop :: "int \<Rightarrow> u8 list \<Rightarrow> u8 list \<Rightarrow> u8 list" where
  "subtract_loop borrow [] b = []"
| "subtract_loop borrow (d # a) b =
     (let digit = i8_of d - borrow - (case b of [] \<Rightarrow> 0 | e # _ \<Rightarrow> i8_of e);
          borrow' = (if digit < 0 then 1 else 0)
      in u8_of (digit + 10 * borrow') # subtract_loop borrow' a (tl b))"

definition digits_subtract :: "u8 list \<Rightarrow> u8 list \<Rightarrow> u8 list" where
  "digits_subtract a b = rev (subtract_loop 0 (rev a) (rev b))"

subsection \<open>Sums, differences and the order\<close>

definition aligned :: "decimal \<Rightarrow> int \<Rightarrow> u8 list" where
  "aligned d e =
     (let zeros = i64_wrapped (dm_exponent d - e)
      in dm_digits d @ replicate (if 0 \<le> zeros then nat zeros else 0) 0)"

definition decimal_plus :: "decimal \<Rightarrow> decimal \<Rightarrow> decimal" where
  "decimal_plus x y =
     (if dm_digits x = [] then y
      else if dm_digits y = [] then x
      else
        let e = min (dm_exponent x) (dm_exponent y); a = aligned x e; b = aligned y e;
            made = (\<lambda>negative digits. case stripped negative digits e of None \<Rightarrow> decimal_zero | Some d \<Rightarrow> d)
        in if dm_negative x = dm_negative y then made (dm_negative x) (digits_add a b)
           else (case compare_magnitude a b of
                   Equal \<Rightarrow> decimal_zero
                 | Greater \<Rightarrow> made (dm_negative x) (digits_subtract a b)
                 | Less \<Rightarrow> made (dm_negative y) (digits_subtract b a)))"

definition decimal_minus :: "decimal \<Rightarrow> decimal \<Rightarrow> decimal" where
  "decimal_minus x y = decimal_plus x (negated y)"

definition decimal_cmp :: "decimal \<Rightarrow> decimal \<Rightarrow> ordering" where
  "decimal_cmp x y =
     (let difference = decimal_minus x y
      in if dm_digits difference = [] then Equal else if dm_negative difference then Less else Greater)"

subsection \<open>Reading and printing\<close>

text \<open>The exponent of a token, every step checked.\<close>

fun read_exponent :: "int \<Rightarrow> string \<Rightarrow> int option" where
  "read_exponent e [] = Some e"
| "read_exponent e (c # cs) =
     (case i64_checked (e * 10) of
        None \<Rightarrow> None
      | Some tenfold \<Rightarrow>
          (case i64_checked (tenfold + (of_char c - 48)) of None \<Rightarrow> None | Some e' \<Rightarrow> read_exponent e' cs))"

definition digit_bytes :: "string \<Rightarrow> u8 list" where
  "digit_bytes cs = map (\<lambda>c. of_nat (of_char c - 48)) cs"

text \<open>The fraction of a token and what follows it; the exponent of a token and what follows it.\<close>

definition read_fraction :: "string \<Rightarrow> (string \<times> string) option" where
  "read_fraction s =
     (case s of
        c # rest \<Rightarrow>
          if c = CHR ''.'' then
            (let fraction = takeWhile is_digit rest
             in if fraction = [] then None else Some (fraction, dropWhile is_digit rest))
          else Some ([], s)
      | [] \<Rightarrow> Some ([], s))"

definition read_power :: "string \<Rightarrow> (int \<times> string) option" where
  "read_power s =
     (case s of
        c # rest \<Rightarrow>
          if c = CHR ''e'' \<or> c = CHR ''E'' then
            (let below = (case rest of b # _ \<Rightarrow> b = CHR ''-'' | [] \<Rightarrow> False);
                 unsigned = (case rest of b # r \<Rightarrow> if b = CHR ''-'' \<or> b = CHR ''+'' then r else rest | [] \<Rightarrow> rest);
                 digits = takeWhile is_digit unsigned
             in case read_exponent 0 digits of
                  None \<Rightarrow> None
                | Some e \<Rightarrow>
                    if digits = [] then None
                    else Some (if below then - e else e, dropWhile is_digit unsigned))
          else Some (0, s)
      | [] \<Rightarrow> Some (0, s))"

definition decimal_parse :: "string \<Rightarrow> decimal option" where
  "decimal_parse token =
     (let negative = (case token of c # _ \<Rightarrow> c = CHR ''-'' | [] \<Rightarrow> False);
          unsigned = (if negative then tl token else token);
          whole = takeWhile is_digit unsigned
      in if whole = [] \<or> (1 < length whole \<and> hd whole = CHR ''0'') then None
         else case read_fraction (dropWhile is_digit unsigned) of
           None \<Rightarrow> None
         | Some (fraction, after) \<Rightarrow>
             (case read_power after of
                None \<Rightarrow> None
              | Some (e, rest) \<Rightarrow>
                  if rest \<noteq> [] then None
                  else (case Option.bind (i64_checked (int (length fraction))) (\<lambda>n. i64_checked (e - n)) of
                          None \<Rightarrow> None
                        | Some e' \<Rightarrow> normal negative (digit_bytes (whole @ fraction)) e')))"

definition digit_text :: "u8 list \<Rightarrow> string" where
  "digit_text ds = map (\<lambda>d. char_of (48 + unat d)) ds"

definition integer_text :: "decimal \<Rightarrow> string option" where
  "integer_text d =
     (if dm_exponent d < 0 then None
      else if dm_digits d = [] then Some ''0''
      else Some ((if dm_negative d then ''-'' else []) @ digit_text (dm_digits d) @
                 replicate (nat (dm_exponent d)) (CHR ''0'')))"

end
