(* ===== verification/Exact_Props.thy ===== *)
theory Exact_Props
  imports Exact
begin

text \<open>
  What the decimals promise. A decimal stands for a rational number; the loops on digits add,
  subtract and compare what their digits stand for, stripping changes no value and leaves one
  spelling for each, so equality of decimals is equality of numbers, a difference is the difference
  and the comparison is the order. A token is read as the number it writes and an integer prints
  back as itself.
\<close>

subsection \<open>What digits stand for\<close>

text \<open>From the last digit, as the loops run, and from the first.\<close>

fun low_value :: "u8 list \<Rightarrow> nat" where
  "low_value [] = 0"
| "low_value (d # ds) = unat d + 10 * low_value ds"

definition digits_value :: "u8 list \<Rightarrow> nat" where
  "digits_value ds = low_value (rev ds)"

definition digits_ok :: "u8 list \<Rightarrow> bool" where
  "digits_ok ds \<longleftrightarrow> list_all (\<lambda>d. d < 10) ds"

lemma digits_ok_simps [simp]:
  "digits_ok []" "digits_ok (d # ds) \<longleftrightarrow> d < 10 \<and> digits_ok ds" "digits_ok (rev ds) \<longleftrightarrow> digits_ok ds"
  "digits_ok (xs @ ys) \<longleftrightarrow> digits_ok xs \<and> digits_ok ys" "digits_ok (replicate n 0)"
  by (auto simp: digits_ok_def list_all_iff)

lemma low_value_append: "low_value (xs @ ys) = low_value xs + 10 ^ length xs * low_value ys"
  by (induction xs) (simp_all add: algebra_simps)

lemma low_value_zeros [simp]: "low_value (replicate n 0) = 0"
  by (induction n) simp_all

lemma digits_value_simps [simp]:
  "digits_value [] = 0" "digits_value (ds @ [d]) = unat d + 10 * digits_value ds"
  "digits_value (d # ds) = unat d * 10 ^ length ds + digits_value ds"
  by (simp_all add: digits_value_def low_value_append)

lemma digits_value_append: "digits_value (xs @ ys) = digits_value xs * 10 ^ length ys + digits_value ys"
  by (simp add: digits_value_def low_value_append)

lemma digits_value_zeros [simp]: "digits_value (replicate n 0) = 0"
  by (simp add: digits_value_def)

lemma small_digit: "(d :: u8) < 10 \<longleftrightarrow> unat d < 10"
  by (simp add: word_less_nat_alt)

lemma digits_value_bound: "digits_ok ds \<Longrightarrow> digits_value ds < 10 ^ length ds"
proof (induction ds)
  case (Cons d ds)
  then have "unat d * 10 ^ length ds \<le> 9 * 10 ^ length ds" by (intro mult_right_mono) (simp_all add: small_digit)
  moreover have "digits_value ds < 10 ^ length ds" using Cons by simp
  ultimately show ?case unfolding digits_value_simps length_Cons power_Suc by linarith
qed simp

lemma digits_value_drop: "digits_value (dropWhile (\<lambda>d. d = 0) ds) = digits_value ds"
  by (induction ds) simp_all

lemma digits_ok_drop: "digits_ok ds \<Longrightarrow> digits_ok (dropWhile P ds)"
  by (induction ds) simp_all

subsection \<open>The loops\<close>

lemma low_value_tl: "low_value a = unat (next_digit a) + 10 * low_value (tl a)"
  by (cases a) (simp_all add: next_digit_def)

lemma next_digit_ok: "digits_ok a \<Longrightarrow> next_digit a < 10" "digits_ok a \<Longrightarrow> digits_ok (tl a)"
  by (cases a; simp add: next_digit_def)+

lemma add_loop_value:
  assumes "digits_ok a" and "digits_ok b" and "unat carry \<le> 1"
  shows "low_value (add_loop carry a b) = unat carry + low_value a + low_value b \<and> digits_ok (add_loop carry a b)"
  using assms
proof (induction carry a b rule: add_loop.induct)
  case (1 carry a b)
  show ?case
  proof (cases "a = [] \<and> b = [] \<and> carry = 0")
    case True
    then show ?thesis by (subst (1 2) add_loop.simps) simp
  next
    case False
    let ?x = "next_digit a" and ?y = "next_digit b"
    let ?digit = "carry + ?x + ?y"
    have xy: "unat ?x < 10" "unat ?y < 10" using 1(2,3) next_digit_ok(1) by (simp_all add: small_digit)
    have "unat (carry + ?x) = unat carry + unat ?x" using xy 1(4) by (subst unat_add_lem [THEN iffD1]) simp_all
    then have digit: "unat ?digit = unat carry + unat ?x + unat ?y"
      using xy 1(4) by (subst unat_add_lem [THEN iffD1]) simp_all
    have carry': "unat (?digit div 10) \<le> 1" using digit xy 1(4) by (simp add: unat_div)
    have ih: "low_value (add_loop (?digit div 10) (tl a) (tl b)) = unat (?digit div 10) + low_value (tl a) + low_value (tl b)"
      "digits_ok (add_loop (?digit div 10) (tl a) (tl b))"
      using 1(1) [OF False HOL.refl _ _ carry'] 1(2,3) next_digit_ok(2) by auto
    have step: "add_loop carry a b = (?digit mod 10) # add_loop (?digit div 10) (tl a) (tl b)"
      using False by (subst add_loop.simps) (simp add: Let_def)
    have "unat ?digit = 10 * (unat ?digit div 10) + unat ?digit mod 10" by simp
    then have "low_value (add_loop carry a b) = unat ?digit + 10 * low_value (tl a) + 10 * low_value (tl b)"
      unfolding step using ih(1) by (simp add: unat_div unat_mod)
    moreover have "?digit mod 10 < 10" by (simp add: small_digit unat_mod)
    ultimately show ?thesis
      using digit ih(2) low_value_tl [of a] low_value_tl [of b] step by simp
  qed
qed

lemma digits_add_value:
  assumes "digits_ok a" and "digits_ok b"
  shows "digits_value (digits_add a b) = digits_value a + digits_value b" and "digits_ok (digits_add a b)"
  using add_loop_value [of "rev a" "rev b" 0] assms by (simp_all add: digits_add_def digits_value_def)

lemma i8_small: "d < 10 \<Longrightarrow> i8_of d = uint d"
proof -
  assume "d < 10"
  then have "uint d < 10" by (simp add: word_less_def)
  then show ?thesis by (simp add: i8_of_def)
qed

lemma u8_small: "0 \<le> i \<Longrightarrow> i < 10 \<Longrightarrow> unat (u8_of i) = nat i \<and> u8_of i < 10"
proof -
  assume "0 \<le> i" "i < 10"
  then have "uint (word_of_int i :: u8) = i" by (simp add: uint_word_of_int)
  with \<open>0 \<le> i\<close> \<open>i < 10\<close> show ?thesis by (simp add: u8_of_def word_less_def unat_eq_nat_uint)
qed

lemma subtract_loop_value:
  assumes "digits_ok a" and "digits_ok b" and "borrow = 0 \<or> borrow = 1" and "int (low_value b) + borrow \<le> int (low_value a)"
  shows "int (low_value (subtract_loop borrow a b)) = int (low_value a) - int (low_value b) - borrow
    \<and> digits_ok (subtract_loop borrow a b)"
  using assms
proof (induction a arbitrary: b borrow)
  case (Cons d a)
  let ?y = "uint (next_digit b)"
  let ?digit = "uint d - borrow - ?y"
  let ?borrow = "if ?digit < 0 then 1 else 0 :: int"
  have "next_digit b < 10" "d < 10" using Cons.prems(1,2) next_digit_ok(1) by simp_all
  then have y: "?y < 10" "digits_ok (tl b)" and x: "0 \<le> uint d" "uint d < 10" "0 \<le> ?y"
    using Cons.prems(2) next_digit_ok(2) by (simp_all add: word_less_def)
  have read: "(case b of [] \<Rightarrow> 0 | e # _ \<Rightarrow> i8_of e) = ?y"
    using Cons.prems(2) by (cases b) (simp_all add: next_digit_def i8_small)
  have step: "subtract_loop borrow (d # a) b = u8_of (?digit + 10 * ?borrow) # subtract_loop ?borrow a (tl b)"
    using Cons.prems(1) by (simp add: read i8_small Let_def)
  have borrow: "(?digit < 0 \<and> ?borrow = 1) \<or> (0 \<le> ?digit \<and> ?borrow = 0)" by auto
  then have range: "0 \<le> ?digit + 10 * ?borrow" "?digit + 10 * ?borrow < 10"
    using x y(1) Cons.prems(3) by linarith+
  have low: "int (low_value b) = ?y + 10 * int (low_value (tl b))"
    "int (low_value (d # a)) = uint d + 10 * int (low_value a)"
    using low_value_tl [of b] by simp_all
  have le: "int (low_value (tl b)) + ?borrow \<le> int (low_value a)"
    using Cons.prems(3,4) x y(1) borrow unfolding low by linarith
  have "?borrow = 0 \<or> ?borrow = 1" by simp
  then have ih: "int (low_value (subtract_loop ?borrow a (tl b))) = int (low_value a) - int (low_value (tl b)) - ?borrow"
    "digits_ok (subtract_loop ?borrow a (tl b))"
    using Cons.IH [OF _ y(2) _ le] Cons.prems(1) by auto
  have "int (low_value (subtract_loop borrow (d # a) b)) = ?digit + 10 * ?borrow + 10 * int (low_value (subtract_loop ?borrow a (tl b)))"
    unfolding step using u8_small [OF range] range by simp
  then have "int (low_value (subtract_loop borrow (d # a) b))
      = int (low_value (d # a)) - int (low_value b) - borrow"
    unfolding low ih(1) right_diff_distrib by simp
  then show ?case using ih(2) u8_small [OF range] step by simp
qed simp

lemma digits_subtract_value:
  assumes "digits_ok a" and "digits_ok b" and "digits_value b \<le> digits_value a"
  shows "digits_value (digits_subtract a b) = digits_value a - digits_value b" and "digits_ok (digits_subtract a b)"
proof -
  have loop: "int (low_value (subtract_loop 0 (rev a) (rev b))) = int (low_value (rev a)) - int (low_value (rev b))"
    "digits_ok (subtract_loop 0 (rev a) (rev b))"
    using subtract_loop_value [of "rev a" "rev b" 0] assms by (simp_all add: digits_value_def)
  from loop(1) show "digits_value (digits_subtract a b) = digits_value a - digits_value b"
    unfolding digits_subtract_def digits_value_def rev_rev_ident by linarith
  from loop(2) show "digits_ok (digits_subtract a b)" by (simp add: digits_subtract_def)
qed

subsection \<open>Comparing magnitudes\<close>

lemma leading_digit:
  assumes "ds \<noteq> []" and "hd ds \<noteq> 0"
  shows "10 ^ (length ds - 1) \<le> digits_value ds"
proof -
  obtain d r where ds: "ds = d # r" using assms(1) by (cases ds) auto
  then have "0 < unat d" using assms(2) by (simp add: unat_gt_0)
  then have "1 * 10 ^ length r \<le> unat d * 10 ^ length r" by (intro mult_right_mono) simp_all
  then have "10 ^ length r \<le> digits_value ds" unfolding ds digits_value_simps by linarith
  with ds show ?thesis by simp
qed

lemma same_length_order:
  assumes "length a = length b" and "digits_ok a" and "digits_ok b"
  shows "(a < b \<longleftrightarrow> digits_value a < digits_value b) \<and> (a = b \<longleftrightarrow> digits_value a = digits_value b)"
  using assms
proof (induction a b rule: list_induct2)
  case (Cons x a y b)
  have bounds: "digits_value a < 10 ^ length b" "digits_value b < 10 ^ length b"
    using Cons digits_value_bound [of a] digits_value_bound [of b] by simp_all
  have less: "unat u * 10 ^ length b + v < unat w * 10 ^ length b + z"
    if "unat u < unat w" "v < 10 ^ length b" for u w :: u8 and v z :: nat
  proof -
    have "Suc (unat u) * 10 ^ length b \<le> unat w * 10 ^ length b" using that(1) by (intro mult_right_mono) auto
    then have "unat u * 10 ^ length b + 10 ^ length b \<le> unat w * 10 ^ length b" by simp
    with that(2) show ?thesis by linarith
  qed
  have word: "x < y \<longleftrightarrow> unat x < unat y" "x = y \<longleftrightarrow> unat x = unat y" by (simp_all add: word_less_nat_alt word_unat_eq_iff)
  consider "unat x < unat y" | "unat y < unat x" | "x = y" using word(2) by linarith
  then show ?case
  proof cases
    case 1
    from less [OF this bounds(1), of "digits_value b"] 1 word Cons.hyps show ?thesis by auto
  next
    case 2
    from less [OF this bounds(2), of "digits_value a"] 2 word Cons.hyps show ?thesis by auto
  next
    case 3
    with Cons show ?thesis by auto
  qed
qed simp

lemma no_leading_zero: "ds \<noteq> [] \<Longrightarrow> dropWhile (\<lambda>d. d = (0 :: u8)) ds = ds' \<Longrightarrow> ds' \<noteq> [] \<Longrightarrow> hd ds' \<noteq> 0"
  using hd_dropWhile [of "\<lambda>d. d = 0" ds] by auto

lemma longer_is_greater:
  assumes "digits_ok a" and "b \<noteq> []" and "hd b \<noteq> 0" and "length a < length b"
  shows "digits_value a < digits_value b"
proof -
  have "digits_value a < 10 ^ length a" using assms(1) by (rule digits_value_bound)
  also have "\<dots> \<le> 10 ^ (length b - 1)" using assms(4) by (intro power_increasing) auto
  also have "\<dots> \<le> digits_value b" using assms(2,3) by (rule leading_digit)
  finally show ?thesis .
qed

lemma compare_magnitude_value:
  assumes "digits_ok a" and "digits_ok b"
  shows "compare_magnitude a b = cmp_of (digits_value a) (digits_value b)"
proof -
  define a' where "a' = dropWhile (\<lambda>d. d = 0) a"
  define b' where "b' = dropWhile (\<lambda>d. d = 0) b"
  have ok: "digits_ok a'" "digits_ok b'" using assms digits_ok_drop by (simp_all add: a'_def b'_def)
  have lead: "a' \<noteq> [] \<Longrightarrow> hd a' \<noteq> 0" "b' \<noteq> [] \<Longrightarrow> hd b' \<noteq> 0"
    using hd_dropWhile [of "\<lambda>d. d = 0" a] hd_dropWhile [of "\<lambda>d. d = 0" b] by (auto simp: a'_def b'_def)
  have val: "digits_value a = digits_value a'" "digits_value b = digits_value b'"
    by (simp_all add: a'_def b'_def digits_value_drop)
  have cmp: "compare_magnitude a b = ordering_then (cmp_of (length a') (length b')) (cmp_of a' b')"
    by (simp add: compare_magnitude_def a'_def b'_def Let_def)
  consider "length a' < length b'" | "length b' < length a'" | "length a' = length b'" by linarith
  then show ?thesis
  proof cases
    case 1
    then have "b' \<noteq> []" by auto
    from longer_is_greater [OF ok(1) this lead(2) [OF this] 1] 1 show ?thesis by (simp add: cmp val cmp_of_def)
  next
    case 2
    then have "a' \<noteq> []" by auto
    from longer_is_greater [OF ok(2) this lead(1) [OF this] 2] 2 show ?thesis by (simp add: cmp val cmp_of_def)
  next
    case 3
    from same_length_order [OF 3 ok] 3 show ?thesis by (simp add: cmp val cmp_of_def)
  qed
qed

subsection \<open>The number a decimal is\<close>

definition signed_number :: "bool \<Rightarrow> nat \<Rightarrow> int \<Rightarrow> rat" where
  "signed_number negative n e = (if negative then - 1 else 1) * of_nat n * 10 powi e"

definition decimal_value :: "decimal \<Rightarrow> rat" where
  "decimal_value d = signed_number (dm_negative d) (digits_value (dm_digits d)) (dm_exponent d)"

text \<open>One spelling: no zero at either end, and nought has no digits, no sign and no exponent.\<close>

definition decimal_ok :: "decimal \<Rightarrow> bool" where
  "decimal_ok d \<longleftrightarrow> digits_ok (dm_digits d) \<and>
     (if dm_digits d = [] then d = decimal_zero else hd (dm_digits d) \<noteq> 0 \<and> last (dm_digits d) \<noteq> 0)"

text \<open>Far inside an \<open>i64\<close>, which every decimal read from a token is, but for the one of the finding.\<close>

definition tame :: "decimal \<Rightarrow> bool" where
  "tame d \<longleftrightarrow> \<bar>dm_exponent d\<bar> \<le> 2 ^ 60 \<and> length (dm_digits d) \<le> 2 ^ 60"

lemma signed_number_shift: "signed_number negative (n * 10 ^ k) e = signed_number negative n (e + int k)"
  by (simp add: signed_number_def power_int_add)

lemma signed_number_zero [simp]: "signed_number negative 0 e = 0"
  by (simp add: signed_number_def)

lemma decimal_zero_digits [simp]: "dm_digits decimal_zero = []"
  by (simp add: decimal_zero_def)

lemma decimal_zero_value [simp]: "decimal_value decimal_zero = 0"
  by (simp add: decimal_value_def decimal_zero_def)

lemma decimal_zero_ok [simp]: "decimal_ok decimal_zero"
  by (simp add: decimal_ok_def decimal_zero_def)

lemma pop_zeros_some:
  "pop_zeros ds e = Some (left, e') \<Longrightarrow> \<exists>k. e' = e + int k \<and> ds = replicate k 0 @ left \<and> (left = [] \<or> hd left \<noteq> 0)"
proof (induction ds arbitrary: e)
  case Nil
  then show ?case by (intro exI [of _ 0]) simp
next
  case (Cons d ds)
  show ?case
  proof (cases "d = 0")
    case True
    then obtain e1 where "i64_checked (e + 1) = Some e1" "pop_zeros ds e1 = Some (left, e')"
      using Cons.prems by (auto split: option.splits)
    then have "pop_zeros ds (e + 1) = Some (left, e')" by (simp add: i64_checked_def split: if_splits)
    from Cons.IH [OF this] obtain k where
      "e' = e + 1 + int k" "ds = replicate k 0 @ left" "left = [] \<or> hd left \<noteq> 0" by blast
    with True show ?thesis by (intro exI [of _ "Suc k"]) auto
  next
    case False
    with Cons.prems show ?thesis by (intro exI [of _ 0]) auto
  qed
qed

lemma pop_zeros_total:
  "e + int (length ds) \<le> i64_max \<Longrightarrow> i64_min \<le> e \<Longrightarrow> \<exists>left e'. pop_zeros ds e = Some (left, e')"
proof (induction ds arbitrary: e)
  case (Cons d ds)
  then have "i64_checked (e + 1) = Some (e + 1)" by (simp add: i64_checked_def)
  with Cons show ?case by simp
qed simp

lemma stripped_some:
  assumes "stripped negative ds e = Some d" and "digits_ok ds"
  shows "decimal_ok d" and "decimal_value d = signed_number negative (digits_value ds) e"
proof -
  let ?D = "dropWhile (\<lambda>d. d = 0) ds"
  obtain left e' where pop: "pop_zeros (rev ?D) e = Some (left, e')"
    and d: "d = (if left = [] then decimal_zero else \<lparr>dm_negative = negative, dm_digits = rev left, dm_exponent = e'\<rparr>)"
    using assms(1) by (auto simp: stripped_def split: option.splits if_splits)
  obtain k where k: "e' = e + int k" "rev ?D = replicate k 0 @ left" "left = [] \<or> hd left \<noteq> 0"
    using pop_zeros_some [OF pop] by blast
  have D: "?D = rev left @ replicate k 0"
  proof -
    have "?D = rev (replicate k 0 @ left)" using k(2) by (metis rev_rev_ident)
    then show ?thesis by simp
  qed
  have ok: "digits_ok left" using digits_ok_drop [OF assms(2), of "\<lambda>d. d = 0"] unfolding D by simp
  have val: "digits_value ds = digits_value (rev left) * 10 ^ k"
    using digits_value_drop [of ds] unfolding D by (simp add: digits_value_append)
  have first: "hd (rev left) \<noteq> 0" if "left \<noteq> []"
    using hd_dropWhile [of "\<lambda>d. d = 0" ds] D that by auto
  show "decimal_ok d"
    using ok first k(3) by (cases "left = []") (simp_all add: d decimal_ok_def last_rev)
  show "decimal_value d = signed_number negative (digits_value ds) e"
    using val k(1) by (cases "left = []") (simp_all add: d decimal_value_def signed_number_shift)
qed

lemma stripped_spec:
  assumes "digits_ok ds" and "e + int (length ds) \<le> i64_max" and "i64_min \<le> e"
  obtains d where "stripped negative ds e = Some d" "decimal_ok d"
    "decimal_value d = signed_number negative (digits_value ds) e"
proof -
  let ?D = "dropWhile (\<lambda>d. d = 0) ds"
  have "length (rev ?D) \<le> length ds" by (simp add: length_dropWhile_le)
  then obtain left e' where "pop_zeros (rev ?D) e = Some (left, e')"
    using pop_zeros_total [of e "rev ?D"] assms(2,3) by auto
  then obtain d where "stripped negative ds e = Some d" by (cases "left = []") (simp_all add: stripped_def)
  with stripped_some [OF this assms(1)] that show thesis by blast
qed

lemma aligned_spec:
  assumes "digits_ok (dm_digits d)" and "e \<le> dm_exponent d" and "dm_exponent d - e \<le> i64_max"
  shows "digits_ok (aligned d e)" and "signed_number (dm_negative d) (digits_value (aligned d e)) e = decimal_value d"
    and "int (length (aligned d e)) = int (length (dm_digits d)) + (dm_exponent d - e)"
proof -
  have "i64_wrapped (dm_exponent d - e) = dm_exponent d - e"
    using assms(2,3) by (simp add: i64_wrapped_def i64_max_def)
  then have al: "aligned d e = dm_digits d @ replicate (nat (dm_exponent d - e)) 0"
    using assms(2) by (simp add: aligned_def)
  show "digits_ok (aligned d e)" using assms(1) by (simp add: al)
  show "signed_number (dm_negative d) (digits_value (aligned d e)) e = decimal_value d"
    using assms(2) by (simp add: al digits_value_append signed_number_shift decimal_value_def)
  show "int (length (aligned d e)) = int (length (dm_digits d)) + (dm_exponent d - e)"
    using assms(2) by (simp add: al)
qed

lemma add_loop_length:
  "digits_ok a \<Longrightarrow> digits_ok b \<Longrightarrow> unat carry \<le> 1 \<Longrightarrow> length (add_loop carry a b) \<le> Suc (max (length a) (length b))"
proof (induction carry a b rule: add_loop.induct)
  case (1 carry a b)
  show ?case
  proof (cases "a = [] \<and> b = []")
    case True
    have "carry div 10 = 0"
    proof -
      have "unat (carry div 10) = 0" using 1(4) by (simp add: unat_div)
      then show ?thesis by (simp add: unat_eq_zero)
    qed
    moreover have "add_loop 0 [] [] = []" by (subst add_loop.simps) simp
    ultimately show ?thesis using True by (subst add_loop.simps) (simp add: next_digit_def Let_def)
  next
    case False
    let ?digit = "carry + next_digit a + next_digit b"
    have xy: "unat (next_digit a) < 10" "unat (next_digit b) < 10"
      using 1(2,3) next_digit_ok(1) by (simp_all add: small_digit)
    have "unat (carry + next_digit a) = unat carry + unat (next_digit a)"
      using xy 1(4) by (subst unat_add_lem [THEN iffD1]) simp_all
    then have "unat ?digit = unat carry + unat (next_digit a) + unat (next_digit b)"
      using xy 1(4) by (subst unat_add_lem [THEN iffD1]) simp_all
    then have "unat (?digit div 10) \<le> 1" using xy 1(4) by (simp add: unat_div)
    from 1(1) [OF _ HOL.refl _ _ this] False 1(2,3) next_digit_ok(2)
    have "length (add_loop (?digit div 10) (tl a) (tl b)) \<le> Suc (max (length (tl a)) (length (tl b)))" by auto
    moreover have "Suc (max (length (tl a)) (length (tl b))) \<le> max (length a) (length b)"
      using False by (cases a; cases b) auto
    ultimately show ?thesis using False by (subst add_loop.simps) (simp add: Let_def)
  qed
qed

lemma subtract_loop_length: "length (subtract_loop w a b) = length a"
  by (induction w a b rule: subtract_loop.induct) (simp_all add: Let_def)

lemma digits_lengths:
  "digits_ok a \<Longrightarrow> digits_ok b \<Longrightarrow> length (digits_add a b) \<le> Suc (max (length a) (length b))"
  "length (digits_subtract a b) = length a"
  using add_loop_length [of "rev a" "rev b" 0] by (simp_all add: digits_add_def digits_subtract_def subtract_loop_length)

lemma signed_number_sums:
  "signed_number n u e + signed_number n v e = signed_number n (u + v) e"
  "v \<le> u \<Longrightarrow> m \<noteq> n \<Longrightarrow> signed_number n u e + signed_number m v e = signed_number n (u - v) e"
  "v \<le> u \<Longrightarrow> m \<noteq> n \<Longrightarrow> signed_number m v e + signed_number n u e = signed_number n (u - v) e"
  "signed_number n u e = 0 \<longleftrightarrow> u = 0"
  by (cases n; cases m; simp add: signed_number_def of_nat_diff algebra_simps)+

text \<open>The sum of two decimals far inside the range: in one spelling, and the sum of what they are.\<close>

lemma decimal_plus_spec:
  assumes ok: "decimal_ok x" "decimal_ok y" and tame: "tame x" "tame y"
  shows "decimal_ok (decimal_plus x y) \<and> decimal_value (decimal_plus x y) = decimal_value x + decimal_value y"
proof (cases "dm_digits x = [] \<or> dm_digits y = []")
  case True
  then show ?thesis
    using ok by (auto simp: decimal_plus_def decimal_ok_def)
next
  case False
  let ?e = "min (dm_exponent x) (dm_exponent y)"
  let ?a = "aligned x ?e" and ?b = "aligned y ?e"
  let ?made = "\<lambda>negative digits. case stripped negative digits ?e of None \<Rightarrow> decimal_zero | Some d \<Rightarrow> d"
  have exps: "\<bar>dm_exponent x\<bar> \<le> 2 ^ 60" "\<bar>dm_exponent y\<bar> \<le> 2 ^ 60"
    "length (dm_digits x) \<le> 2 ^ 60" "length (dm_digits y) \<le> 2 ^ 60"
    using tame by (simp_all add: tame_def)
  have oks: "digits_ok (dm_digits x)" "digits_ok (dm_digits y)" using ok by (simp_all add: decimal_ok_def)
  have gap: "dm_exponent x - ?e \<le> i64_max" "dm_exponent y - ?e \<le> i64_max"
    using exps by (simp_all add: i64_max_def)
  note a = aligned_spec [OF oks(1) min.cobounded1 gap(1)] and b = aligned_spec [OF oks(2) min.cobounded2 gap(2)]
  have lens: "int (length ?a) \<le> 2 ^ 62" "int (length ?b) \<le> 2 ^ 62"
    using exps unfolding a(3) b(3) by auto
  have made: "decimal_ok (?made n ds) \<and> decimal_value (?made n ds) = signed_number n (digits_value ds) ?e"
    if "digits_ok ds" "int (length ds) \<le> 2 ^ 62 + 1" for n ds
  proof -
    note ds = that(1)
    have "- (2 ^ 60) \<le> ?e" "?e \<le> 2 ^ 60" using exps(1,2) by linarith+
    then have "?e + int (length ds) \<le> i64_max" "i64_min \<le> ?e"
      using that(2) unfolding i64_max_def i64_min_def by simp_all
    then obtain d where "stripped n ds ?e = Some d" "decimal_ok d" "decimal_value d = signed_number n (digits_value ds) ?e"
      by (rule stripped_spec [where negative = n, OF ds])
    then show ?thesis by simp
  qed
  have vals: "decimal_value x = signed_number (dm_negative x) (digits_value ?a) ?e"
    "decimal_value y = signed_number (dm_negative y) (digits_value ?b) ?e"
    using a(2) b(2) by simp_all
  show ?thesis
  proof (cases "dm_negative x = dm_negative y")
    case True
    have "int (length (digits_add ?a ?b)) \<le> 2 ^ 62 + 1"
      using digits_lengths(1) [OF a(1) b(1)] lens by linarith
    from made [OF digits_add_value(2) [OF a(1) b(1)] this]
    show ?thesis using False True
      by (simp add: decimal_plus_def Let_def digits_add_value(1) [OF a(1) b(1)] vals signed_number_sums(1))
  next
    case signs: False
    have cmp: "compare_magnitude ?a ?b = cmp_of (digits_value ?a) (digits_value ?b)"
      by (rule compare_magnitude_value [OF a(1) b(1)])
    have la: "int (length (digits_subtract ?a ?b)) \<le> 2 ^ 62 + 1" "int (length (digits_subtract ?b ?a)) \<le> 2 ^ 62 + 1"
      using lens by (simp_all add: digits_lengths(2))
    consider "digits_value ?a = digits_value ?b" | "digits_value ?b < digits_value ?a" | "digits_value ?a < digits_value ?b"
      by linarith
    then show ?thesis
    proof cases
      case 1
      then have "decimal_plus x y = decimal_zero"
        using False signs by (simp add: decimal_plus_def Let_def cmp cmp_of_def)
      with 1 signs show ?thesis by (simp add: vals signed_number_sums(2))
    next
      case 2
      then have plus: "decimal_plus x y = ?made (dm_negative x) (digits_subtract ?a ?b)"
        using False signs by (simp add: decimal_plus_def Let_def cmp cmp_of_def)
      from 2 made [OF digits_subtract_value(2) [OF a(1) b(1)] la(1), of "dm_negative x"] signs show ?thesis
        unfolding plus by (simp add: digits_subtract_value(1) [OF a(1) b(1)] vals signed_number_sums(2))
    next
      case 3
      then have plus: "decimal_plus x y = ?made (dm_negative y) (digits_subtract ?b ?a)"
        using False signs by (simp add: decimal_plus_def Let_def cmp cmp_of_def)
      from 3 made [OF digits_subtract_value(2) [OF b(1) a(1)] la(2), of "dm_negative y"] signs show ?thesis
        unfolding plus by (simp add: digits_subtract_value(1) [OF b(1) a(1)] vals signed_number_sums(3))
    qed
  qed
qed

lemma ok_value_sign:
  assumes "decimal_ok d"
  shows "dm_digits d = [] \<longleftrightarrow> decimal_value d = 0" and "dm_negative d \<longleftrightarrow> decimal_value d < 0"
proof -
  have pos: "dm_digits d \<noteq> [] \<Longrightarrow> 0 < digits_value (dm_digits d)"
    using assms leading_digit [of "dm_digits d"] by (simp add: decimal_ok_def less_le_trans [of 0 "10 ^ _"])
  show "dm_digits d = [] \<longleftrightarrow> decimal_value d = 0"
    using pos by (cases "dm_digits d = []") (auto simp: decimal_value_def signed_number_sums(4))
  show "dm_negative d \<longleftrightarrow> decimal_value d < 0"
  proof (cases "dm_digits d = []")
    case True
    with assms show ?thesis by (simp add: decimal_ok_def decimal_zero_def decimal_value_def)
  next
    case False
    from pos [OF this] show ?thesis by (simp add: decimal_value_def signed_number_def zero_less_mult_iff not_less)
  qed
qed

lemma negated_spec:
  assumes "decimal_ok d"
  shows "decimal_ok (negated d)" and "decimal_value (negated d) = - decimal_value d" and "tame (negated d) = tame d"
  using assms
  by (auto simp: negated_def decimal_ok_def decimal_zero_def decimal_value_def signed_number_def tame_def)

subsection \<open>The difference and the order\<close>

lemma decimal_minus_spec:
  assumes "decimal_ok x" and "decimal_ok y" and "tame x" and "tame y"
  shows "decimal_ok (decimal_minus x y) \<and> decimal_value (decimal_minus x y) = decimal_value x - decimal_value y"
  using decimal_plus_spec [OF assms(1) negated_spec(1) [OF assms(2)]] negated_spec(2,3) [OF assms(2)] assms(3,4)
  by (simp add: decimal_minus_def)

text \<open>The difference is exact: with no double in between, however far apart two decimals are, their
  difference is the difference of the numbers they are, in the one spelling that number has, while
  exponents and lengths are at most \<open>2 ^ 60\<close>.\<close>

theorem minus_is_exact:
  assumes "decimal_ok x" and "decimal_ok y" and "tame x" and "tame y"
  shows "decimal_ok (decimal_minus x y) \<and> decimal_value (decimal_minus x y) = decimal_value x - decimal_value y"
  using assms by (rule decimal_minus_spec)

text \<open>The comparison is the order of the numbers.\<close>

theorem comparison_is_the_order:
  assumes "decimal_ok x" and "decimal_ok y" and "tame x" and "tame y"
  shows "decimal_cmp x y = cmp_of (decimal_value x) (decimal_value y)"
  using decimal_minus_spec [OF assms] ok_value_sign [of "decimal_minus x y"]
  by (auto simp: decimal_cmp_def Let_def cmp_of_def)

lemma ten_divides_last: "digits_ok ds \<Longrightarrow> ds \<noteq> [] \<Longrightarrow> last ds \<noteq> 0 \<Longrightarrow> \<not> 10 dvd digits_value ds"
proof -
  assume a: "digits_ok ds" "ds \<noteq> []" "last ds \<noteq> 0"
  then have "last ds < 10" by (simp add: digits_ok_def list_all_iff)
  then have "unat (last ds) < 10" "0 < unat (last ds)" using a(3) by (simp_all add: small_digit unat_gt_0)
  moreover have "digits_value (butlast ds @ [last ds]) = unat (last ds) + 10 * digits_value (butlast ds)" by simp
  then have "digits_value ds = unat (last ds) + 10 * digits_value (butlast ds)" using a(2) by simp
  ultimately show ?thesis by (simp add: dvd_eq_mod_eq_0)
qed

lemma same_digits:
  assumes "digits_ok a" and "digits_ok b" and "a \<noteq> []" and "b \<noteq> []" and "hd a \<noteq> 0" and "hd b \<noteq> 0"
    and "digits_value a = digits_value b"
  shows "a = b"
proof -
  have "length a = length b"
    using longer_is_greater [OF assms(1,4,6)] longer_is_greater [OF assms(2,3,5)] assms(7)
    by (cases "length a" "length b" rule: linorder_cases) simp_all
  then show ?thesis using same_length_order [OF _ assms(1,2)] assms(7) by blast
qed

lemma same_scale:
  assumes "\<not> 10 dvd m" and "\<not> 10 dvd n" and "of_nat m * (10 :: rat) powi e = of_nat n * 10 powi f"
  shows "e = f \<and> m = n"
proof -
  have up: "e = f \<and> m = n" if "e \<le> f" "\<not> 10 dvd m" "of_nat m * (10 :: rat) powi e = of_nat n * 10 powi f" for m n e f
  proof -
    define k where "k = nat (f - e)"
    have f: "f = e + int k" using that(1) by (simp add: k_def)
    define p where "p = (10 :: rat) powi e"
    have p: "p \<noteq> 0" by (simp add: p_def)
    have pf: "(10 :: rat) powi f = p * 10 ^ k" unfolding f p_def by (simp add: power_int_add)
    have "of_nat m * p = of_nat n * (p * 10 ^ k)" using that(3) unfolding pf p_def [symmetric] .
    also have "\<dots> = of_nat (n * 10 ^ k) * p" by (simp only: of_nat_mult of_nat_power of_nat_numeral ac_simps)
    finally have "of_nat m * p = of_nat (n * 10 ^ k) * p" .
    then have "(of_nat m :: rat) = of_nat (n * 10 ^ k)" using p mult_right_cancel by blast
    then have m: "m = n * 10 ^ k" using of_nat_eq_iff by blast
    have "k = 0"
    proof (rule ccontr)
      assume "k \<noteq> 0"
      then have "10 dvd (10 :: nat) ^ k" by (cases k) simp_all
      then have "10 dvd m" unfolding m by (rule dvd_mult)
      with that(2) show False by blast
    qed
    with m f show ?thesis by simp
  qed
  show ?thesis
  proof (cases "e \<le> f")
    case True
    from up [OF True assms(1,3)] show ?thesis .
  next
    case False
    then have "f \<le> e" by simp
    from up [OF this assms(2) assms(3) [symmetric]] show ?thesis by auto
  qed
qed

lemma one_spelling:
  assumes "decimal_ok x" and "decimal_ok y"
  shows "x = y \<longleftrightarrow> decimal_value x = decimal_value y"
proof
  assume eq: "decimal_value x = decimal_value y"
  note sign = ok_value_sign [OF assms(1)] and sign' = ok_value_sign [OF assms(2)]
  show "x = y"
  proof (cases "dm_digits x = []")
    case True
    with eq sign sign' assms show ?thesis by (simp add: decimal_ok_def)
  next
    case False
    with eq sign sign' have y: "dm_digits y \<noteq> []" by simp
    have neg: "dm_negative x = dm_negative y" using eq sign(2) sign'(2) by simp
    have ends: "digits_ok (dm_digits x)" "digits_ok (dm_digits y)" "hd (dm_digits x) \<noteq> 0" "hd (dm_digits y) \<noteq> 0"
      "last (dm_digits x) \<noteq> 0" "last (dm_digits y) \<noteq> 0"
      using assms False y by (simp_all add: decimal_ok_def)
    have "of_nat (digits_value (dm_digits x)) * (10 :: rat) powi dm_exponent x
        = of_nat (digits_value (dm_digits y)) * 10 powi dm_exponent y"
      using eq neg by (cases "dm_negative y") (simp_all add: decimal_value_def signed_number_def)
    from same_scale [OF ten_divides_last [OF ends(1) False ends(5)] ten_divides_last [OF ends(2) y ends(6)] this]
    have "dm_exponent x = dm_exponent y" "digits_value (dm_digits x) = digits_value (dm_digits y)" by simp_all
    with same_digits [OF ends(1,2) False y ends(3,4)] neg show ?thesis by simp
  qed
qed simp

text \<open>One number has one spelling: two decimals are equal, part by part, exactly where the numbers are.\<close>

theorem equality_is_of_numbers:
  assumes "decimal_ok x" and "decimal_ok y"
  shows "x = y \<longleftrightarrow> decimal_value x = decimal_value y"
  using assms by (rule one_spelling)

end
