(* ===== verification/Exact_Text.thy ===== *)
theory Exact_Text
  imports Exact_Props
begin

text \<open>
  Tokens: what \<open>Decimal::parse\<close> accepts is exactly JSON's grammar of a number within the bounds,
  read as the number it writes; an integer prints back as itself. The last section is the one
  exponent the bound lets through, and the witnesses.
\<close>

subsection \<open>The grammar\<close>

text \<open>A token: its sign, whole part, fraction, and its power as letter, sign and digits.\<close>

type_synonym power = "(char \<times> string \<times> string) option"

definition power_text :: "power \<Rightarrow> string" where
  "power_text p = (case p of None \<Rightarrow> [] | Some (c, sign, ds) \<Rightarrow> c # sign @ ds)"

definition power_value :: "power \<Rightarrow> int" where
  "power_value p =
     (case p of None \<Rightarrow> 0
      | Some (c, sign, ds) \<Rightarrow> if sign = ''-'' then - int (dec_value ds) else int (dec_value ds))"

definition number_token :: "bool \<Rightarrow> string \<Rightarrow> string \<Rightarrow> power \<Rightarrow> string" where
  "number_token negative whole fraction p =
     (if negative then ''-'' else []) @ whole @ (if fraction = [] then [] else CHR ''.'' # fraction) @ power_text p"

definition token_ok :: "string \<Rightarrow> string \<Rightarrow> power \<Rightarrow> bool" where
  "token_ok whole fraction p \<longleftrightarrow>
     whole \<noteq> [] \<and> list_all is_digit whole \<and> (1 < length whole \<longrightarrow> hd whole \<noteq> CHR ''0'') \<and> list_all is_digit fraction \<and>
     (case p of None \<Rightarrow> True
      | Some (c, sign, ds) \<Rightarrow> (c = CHR ''e'' \<or> c = CHR ''E'') \<and> sign \<in> {[], ''-'', ''+''} \<and> ds \<noteq> [] \<and> list_all is_digit ds)"

lemma not_digits [simp]:
  "\<not> is_digit (CHR ''-'')" "\<not> is_digit (CHR ''+'')" "\<not> is_digit (CHR ''.'')" "\<not> is_digit (CHR ''e'')" "\<not> is_digit (CHR ''E'')"
  by (simp_all add: is_digit_def)

lemma scan:
  assumes "list_all is_digit ds" and "rest = [] \<or> \<not> is_digit (hd rest)"
  shows "takeWhile is_digit (ds @ rest) = ds" and "dropWhile is_digit (ds @ rest) = rest"
  using assms by (induction ds; cases rest; simp)+

lemma scanned: "s = takeWhile is_digit s @ dropWhile is_digit s" "list_all is_digit (takeWhile is_digit s)"
  by (simp_all add: list_all_iff) (meson set_takeWhileD)

subsection \<open>Digits of a token\<close>

lemma digit_byte:
  assumes "is_digit c"
  shows "unat (of_nat (of_char c - 48) :: u8) = of_char c - 48" and "(of_nat (of_char c - 48) :: u8) < 10"
proof -
  have small: "(of_char c :: nat) - 48 \<le> 9" using assms by (auto simp: is_digit_def)
  then show "unat (of_nat (of_char c - 48) :: u8) = of_char c - 48" by (simp add: unat_of_nat)
  with small show "(of_nat (of_char c - 48) :: u8) < 10" by (simp add: small_digit)
qed

lemma digit_bytes_value:
  "list_all is_digit cs \<Longrightarrow> digits_value (digit_bytes cs) = dec_value cs \<and> digits_ok (digit_bytes cs)"
proof (induction cs)
  case (Cons c cs)
  then show ?case using digit_byte [of c] by (simp add: digit_bytes_def dec_value_Cons)
qed (simp add: digit_bytes_def)

lemma read_exponent_value:
  assumes "list_all is_digit ds" and "0 \<le> e"
  shows "read_exponent e ds =
    (if ds = [] \<or> e * 10 ^ length ds + int (dec_value ds) \<le> i64_max then Some (e * 10 ^ length ds + int (dec_value ds)) else None)"
  using assms
proof (induction ds arbitrary: e)
  case (Cons c ds)
  let ?x = "of_char c - 48 :: int"
  let ?next = "e * 10 + ?x"
  have c: "0 \<le> ?x" "?x = int (of_char c - 48)"
  proof -
    have "48 \<le> (of_char c :: nat)" using Cons.prems(1) by (simp add: is_digit_def)
    then show "?x = int (of_char c - 48)" by (simp only: of_nat_diff of_nat_numeral of_nat_of_char)
    then show "0 \<le> ?x" by (metis of_nat_0_le_iff)
  qed
  have total: "e * 10 ^ length (c # ds) + int (dec_value (c # ds)) = ?next * 10 ^ length ds + int (dec_value ds)"
  proof -
    have "int (dec_value (c # ds)) = ?x * 10 ^ length ds + int (dec_value ds)"
      unfolding dec_value_Cons of_nat_add of_nat_mult of_nat_power of_nat_numeral c(2) ..
    then show ?thesis by (simp only: length_Cons power_Suc) (simp only: algebra_simps)
  qed
  have grows: "?next \<le> ?next * 10 ^ length ds + int (dec_value ds)"
  proof -
    define n where "n = ?next"
    have "0 \<le> n" using c(1) Cons.prems(2) by (simp add: n_def)
    then have "n * 1 \<le> n * 10 ^ length ds" by (intro mult_left_mono) simp_all
    then have "n \<le> n * 10 ^ length ds + int (dec_value ds)" by simp
    then show ?thesis by (simp only: n_def)
  qed
  have nonneg: "0 \<le> ?next" using c(1) Cons.prems(2) by simp
  show ?case
  proof (cases "?next \<le> i64_max")
    case True
    then have "read_exponent e (c # ds) = read_exponent ?next ds"
      using c(1) Cons.prems(2) by (simp add: i64_checked_def i64_max_def i64_min_def)
    also have "\<dots> = (if ds = [] \<or> ?next * 10 ^ length ds + int (dec_value ds) \<le> i64_max
        then Some (?next * 10 ^ length ds + int (dec_value ds)) else None)"
      using Cons.IH [OF _ nonneg] Cons.prems(1) by simp
    finally show ?thesis unfolding total using True by auto
  next
    case False
    then have "read_exponent e (c # ds) = None"
      using c(1) Cons.prems(2) by (auto simp: i64_checked_def i64_max_def i64_min_def)
    with False grows show ?thesis unfolding total by simp
  qed
qed simp

subsection \<open>The parser on a token\<close>

lemma read_power_text:
  assumes "case p of None \<Rightarrow> True | Some (c, sign, ds) \<Rightarrow>
     (c = CHR ''e'' \<or> c = CHR ''E'') \<and> sign \<in> {[], ''-'', ''+''} \<and> ds \<noteq> [] \<and> list_all is_digit ds \<and> int (dec_value ds) \<le> i64_max"
  shows "read_power (power_text p) = Some (power_value p, [])"
proof (cases p)
  case None
  then show ?thesis by (simp add: read_power_def power_text_def power_value_def)
next
  case (Some q)
  obtain c sign ds where q: "p = Some (c, sign, ds)" using Some by (cases q) auto
  with assms have c: "c = CHR ''e'' \<or> c = CHR ''E''" and sign: "sign \<in> {[], ''-'', ''+''}"
    and ds: "ds \<noteq> []" "list_all is_digit ds" "int (dec_value ds) \<le> i64_max" by auto
  have scan: "takeWhile is_digit ds = ds" "dropWhile is_digit ds = []" using scan [of ds "[]"] ds(2) by simp_all
  obtain d r where d: "ds = d # r" "is_digit d" using ds by (cases ds) auto
  then have head: "d \<noteq> CHR ''-''" "d \<noteq> CHR ''+''" by auto
  have e: "read_exponent 0 ds = Some (int (dec_value ds))"
    using read_exponent_value [OF ds(2), of 0] ds by simp
  show ?thesis
    using c sign scan e ds(1) head unfolding q
    by (auto simp: read_power_def power_text_def power_value_def d(1) Let_def)
qed

lemma read_fraction_text:
  assumes "list_all is_digit fraction" and "rest = [] \<or> (\<not> is_digit (hd rest) \<and> hd rest \<noteq> CHR ''.'')"
  shows "read_fraction ((if fraction = [] then [] else CHR ''.'' # fraction) @ rest) = Some (fraction, rest)"
proof (cases "fraction = []")
  case True
  with assms(2) show ?thesis by (cases rest) (simp_all add: read_fraction_def)
next
  case False
  have "rest = [] \<or> \<not> is_digit (hd rest)" using assms(2) by blast
  from scan [OF assms(1) this] False show ?thesis by (simp add: read_fraction_def)
qed

text \<open>On a token of the grammar the parser is \<open>normal\<close> on its digits.\<close>

lemma parse_token:
  assumes "token_ok whole fraction p" and "\<bar>power_value p\<bar> \<le> 2 ^ 62" and "int (length fraction) \<le> 2 ^ 62"
  shows "decimal_parse (number_token negative whole fraction p)
    = normal negative (digit_bytes (whole @ fraction)) (power_value p - int (length fraction))"
proof -
  let ?after = "(if fraction = [] then [] else CHR ''.'' # fraction) @ power_text p"
  have whole: "whole \<noteq> []" "list_all is_digit whole" "\<not> (1 < length whole \<and> hd whole = CHR ''0'')"
    and fraction: "list_all is_digit fraction" using assms(1) by (auto simp: token_ok_def)
  obtain d r where d: "whole = d # r" "is_digit d" using whole(1,2) by (cases whole) auto
  then have sign: "d \<noteq> CHR ''-''" by auto
  have power: "power_text p = [] \<or> (\<not> is_digit (hd (power_text p)) \<and> hd (power_text p) \<noteq> CHR ''.'')"
    using assms(1) by (auto simp: token_ok_def power_text_def split: option.splits)
  then have "?after = [] \<or> \<not> is_digit (hd ?after)" by auto
  note scanned = scan [OF whole(2) this]
  have fits: "case p of None \<Rightarrow> True | Some (c, sign, ds) \<Rightarrow>
     (c = CHR ''e'' \<or> c = CHR ''E'') \<and> sign \<in> {[], ''-'', ''+''} \<and> ds \<noteq> [] \<and> list_all is_digit ds \<and> int (dec_value ds) \<le> i64_max"
    using assms(1,2) by (auto simp: token_ok_def power_value_def i64_max_def split: option.splits if_splits)
  have "i64_checked (int (length fraction)) = Some (int (length fraction))"
    "i64_checked (power_value p - int (length fraction)) = Some (power_value p - int (length fraction))"
  proof -
    have "power_value p \<le> 4611686018427387904" "- 4611686018427387904 \<le> power_value p"
      "int (length fraction) \<le> 4611686018427387904"
      using assms(2,3) by (simp_all add: abs_le_iff)
    then have "- 9223372036854775808 \<le> power_value p - int (length fraction)"
      "power_value p - int (length fraction) \<le> 9223372036854775807" by linarith+
    then show "i64_checked (int (length fraction)) = Some (int (length fraction))"
      "i64_checked (power_value p - int (length fraction)) = Some (power_value p - int (length fraction))"
      using assms(3) by (simp_all add: i64_checked_def i64_max_def i64_min_def)
  qed
  then have bounds: "Option.bind (i64_checked (int (length fraction))) (\<lambda>n. i64_checked (power_value p - n))
      = Some (power_value p - int (length fraction))" by simp
  have unsigned: "(if negative then tl (number_token negative whole fraction p) else number_token negative whole fraction p)
      = whole @ ?after"
    "(case number_token negative whole fraction p of c # _ \<Rightarrow> c = CHR ''-'' | [] \<Rightarrow> False) = negative"
    using d sign by (simp_all add: number_token_def)
  show ?thesis
    unfolding decimal_parse_def Let_def unsigned scanned
    using whole read_fraction_text [OF fraction power] read_power_text [OF fits] bounds by auto
qed

subsection \<open>What is accepted\<close>

lemma read_fraction_some:
  assumes "read_fraction s = Some (fraction, rest)"
  shows "list_all is_digit fraction \<and> s = (if fraction = [] then [] else CHR ''.'' # fraction) @ rest"
proof (cases s)
  case (Cons c r)
  show ?thesis
  proof (cases "c = CHR ''.''")
    case True
    with assms Cons have "fraction = takeWhile is_digit r" "fraction \<noteq> []" "rest = dropWhile is_digit r"
      by (auto simp: read_fraction_def Let_def split: if_splits)
    then show ?thesis using scanned [of r] True Cons by simp
  next
    case False
    with assms Cons show ?thesis by (simp add: read_fraction_def)
  qed
qed (use assms in \<open>simp add: read_fraction_def\<close>)

lemma read_power_some:
  assumes "read_power s = Some (e, rest)"
  obtains p where "case p of None \<Rightarrow> True | Some (c, sign, ds) \<Rightarrow>
       (c = CHR ''e'' \<or> c = CHR ''E'') \<and> sign \<in> {[], ''-'', ''+''} \<and> ds \<noteq> [] \<and> list_all is_digit ds"
    "s = power_text p @ rest" "e = power_value p"
proof (cases "\<exists>c r. s = c # r \<and> (c = CHR ''e'' \<or> c = CHR ''E'')")
  case False
  then have "read_power s = Some (0, s)" by (cases s) (auto simp: read_power_def)
  with assms show thesis by (intro that [of None]) (simp_all add: power_text_def power_value_def)
next
  case True
  then obtain c r where s: "s = c # r" "c = CHR ''e'' \<or> c = CHR ''E''" by blast
  define sign where "sign = (case r of b # _ \<Rightarrow> if b = CHR ''-'' \<or> b = CHR ''+'' then [b] else [] | [] \<Rightarrow> [])"
  define unsigned where "unsigned = (case r of b # r' \<Rightarrow> if b = CHR ''-'' \<or> b = CHR ''+'' then r' else r | [] \<Rightarrow> r)"
  have r: "r = sign @ unsigned" "sign \<in> {[], ''-'', ''+''}"
    by (auto simp: sign_def unsigned_def split: list.splits)
  let ?ds = "takeWhile is_digit unsigned"
  have below: "(case r of b # _ \<Rightarrow> b = CHR ''-'' | [] \<Rightarrow> False) \<longleftrightarrow> sign = ''-''"
    by (auto simp: sign_def split: list.splits)
  have dig: "list_all is_digit ?ds" using scanned(2) .
  have read: "read_power s = (case read_exponent 0 ?ds of None \<Rightarrow> None
      | Some e \<Rightarrow> if ?ds = [] then None else Some (if sign = ''-'' then - e else e, dropWhile is_digit unsigned))"
    using s(2) unfolding s(1) read_power_def Let_def unsigned_def below [symmetric] by simp
  with assms read_exponent_value [OF dig, of 0] have ds: "?ds \<noteq> []" "rest = dropWhile is_digit unsigned"
    "e = (if sign = ''-'' then - int (dec_value ?ds) else int (dec_value ?ds))"
    by (auto split: if_splits option.splits)
  have "s = power_text (Some (c, sign, ?ds)) @ rest"
    unfolding s(1) r(1) ds(2) power_text_def using scanned(1) [of unsigned] by simp
  then show thesis
    using s(2) r(2) dig ds(1,3) by (intro that [of "Some (c, sign, ?ds)"]) (simp_all add: power_value_def)
qed

lemma normal_some:
  assumes "normal negative ds e = Some d" and "digits_ok ds"
  shows "decimal_ok d \<and> decimal_value d = signed_number negative (digits_value ds) e \<and>
    length (dm_digits d) \<le> MOST_DIGITS \<and> i64_wrapped \<bar>dm_exponent d\<bar> \<le> MOST_EXPONENT"
  using assms stripped_some by (auto simp: normal_def split: option.splits if_splits)

lemma parsed_number:
  assumes "decimal_parse s = Some d"
  shows "\<exists>negative whole fraction p. token_ok whole fraction p \<and> s = number_token negative whole fraction p \<and>
    decimal_ok d \<and> length (dm_digits d) \<le> MOST_DIGITS \<and>
    decimal_value d = signed_number negative (dec_value (whole @ fraction)) (power_value p - int (length fraction))"
proof -
  define negative where "negative = (case s of c # _ \<Rightarrow> c = CHR ''-'' | [] \<Rightarrow> False)"
  define unsigned where "unsigned = (if negative then tl s else s)"
  let ?whole = "takeWhile is_digit unsigned"
  obtain fraction after e rest e' where
    whole: "?whole \<noteq> []" "\<not> (1 < length ?whole \<and> hd ?whole = CHR ''0'')"
    and frac: "read_fraction (dropWhile is_digit unsigned) = Some (fraction, after)"
    and power: "read_power after = Some (e, rest)" and rest: "rest = []"
    and e': "Option.bind (i64_checked (int (length fraction))) (\<lambda>n. i64_checked (e - n)) = Some e'"
    and norm: "normal negative (digit_bytes (?whole @ fraction)) e' = Some d"
    using assms unfolding decimal_parse_def Let_def negative_def [symmetric] unsigned_def [symmetric]
    by (auto split: if_splits option.splits prod.splits)
  obtain p where p: "case p of None \<Rightarrow> True | Some (c, sign, ds) \<Rightarrow>
       (c = CHR ''e'' \<or> c = CHR ''E'') \<and> sign \<in> {[], ''-'', ''+''} \<and> ds \<noteq> [] \<and> list_all is_digit ds"
    "after = power_text p @ rest" "e = power_value p"
    by (rule read_power_some [OF power])
  note f = read_fraction_some [OF frac]
  have digits: "list_all is_digit (?whole @ fraction)" using scanned(2) f by simp
  have token: "token_ok ?whole fraction p" using whole scanned(2) f p(1) by (auto simp: token_ok_def)
  have "unsigned = ?whole @ (if fraction = [] then [] else CHR ''.'' # fraction) @ power_text p"
    using scanned(1) [of unsigned] f p(2) rest by simp
  moreover have "s = (if negative then ''-'' else []) @ unsigned"
    by (cases s) (auto simp: unsigned_def negative_def)
  ultimately have s: "s = number_token negative ?whole fraction p" by (simp add: number_token_def)
  have "e' = power_value p - int (length fraction)"
    using e' p(3) by (auto simp: i64_checked_def bind_eq_Some_conv split: if_splits)
  with normal_some [OF norm] digit_bytes_value [OF digits] token s show ?thesis by auto
qed

lemma parsed_ok: "decimal_parse s = Some d \<Longrightarrow> decimal_ok d"
  using parsed_number by blast

text \<open>C26: A token is read as the number it writes: whatever \<open>parse\<close> accepts is a number of JSON's grammar
  with nothing around it, the decimal is in its one spelling and is exactly that number, however
  many digits it has.\<close>

theorem parse_reads_the_number:
  assumes "decimal_parse s = Some d"
  shows "\<exists>negative whole fraction p. token_ok whole fraction p \<and> s = number_token negative whole fraction p \<and>
    decimal_ok d \<and> length (dm_digits d) \<le> MOST_DIGITS \<and>
    decimal_value d = signed_number negative (dec_value (whole @ fraction)) (power_value p - int (length fraction))"
  using assms by (rule parsed_number)

subsection \<open>Differences of what was read\<close>

lemma pop_zeros_range:
  "pop_zeros ds e = Some (left, e') \<Longrightarrow> i64_min \<le> e \<Longrightarrow> e \<le> i64_max \<Longrightarrow> i64_min \<le> e' \<and> e' \<le> i64_max"
  by (induction ds e rule: pop_zeros.induct) (auto simp: i64_checked_def split: if_splits)

lemma normal_range:
  assumes "normal negative ds e = Some d" and "i64_min \<le> e" and "e \<le> i64_max"
  shows "i64_min \<le> dm_exponent d \<and> dm_exponent d \<le> i64_max \<and> i64_wrapped \<bar>dm_exponent d\<bar> \<le> MOST_EXPONENT \<and>
    length (dm_digits d) \<le> MOST_DIGITS"
proof -
  from assms(1) have d: "stripped negative ds e = Some d" "length (dm_digits d) \<le> MOST_DIGITS"
    "i64_wrapped \<bar>dm_exponent d\<bar> \<le> MOST_EXPONENT"
    by (auto simp: normal_def split: option.splits if_splits)
  then obtain left e' where "pop_zeros (rev (dropWhile (\<lambda>d. d = 0) ds)) e = Some (left, e')"
    "d = decimal_zero \<or> dm_exponent d = e'"
    by (auto simp: stripped_def split: option.splits if_splits)
  with pop_zeros_range [OF this(1) assms(2,3)] d(2,3) show ?thesis
    by (auto simp: decimal_zero_def i64_min_def i64_max_def)
qed

lemma parsed_tame:
  assumes "decimal_parse s = Some d" and "dm_exponent d \<noteq> i64_min"
  shows "tame d"
proof -
  from assms(1) obtain negative ds e n where "normal negative ds e = Some d" "i64_checked n = Some e"
    unfolding decimal_parse_def Let_def
    by (auto simp: bind_eq_Some_conv split: if_splits option.splits prod.splits)
  then have d: "i64_min \<le> dm_exponent d" "dm_exponent d \<le> i64_max" "i64_wrapped \<bar>dm_exponent d\<bar> \<le> MOST_EXPONENT"
    "length (dm_digits d) \<le> MOST_DIGITS"
    using normal_range by (auto simp: i64_checked_def split: if_splits)
  have "\<bar>dm_exponent d\<bar> \<le> i64_max" using d(1,2) assms(2) by (simp add: i64_min_def i64_max_def)
  then have "i64_wrapped \<bar>dm_exponent d\<bar> = \<bar>dm_exponent d\<bar>" by (simp add: i64_wrapped_def i64_max_def)
  with d(3,4) show ?thesis by (simp add: tame_def MOST_EXPONENT_def MOST_DIGITS_def)
qed

text \<open>The difference of two numbers that were read is exact: with no double in between, however many
  digits the two have and however far apart they are, it is the difference of the numbers the two
  texts write, in the one spelling that number has, and the comparison is their order. That is so for
  every text \<open>C25: parse\<close> accepts but those whose exponent comes out as the least \<open>i64\<close>, which the bound
  lets through (\<open>least_exponent_is_let_through\<close>).\<close>

theorem difference_of_texts_is_exact:
  assumes "decimal_parse a = Some x" and "decimal_parse b = Some y"
    and "dm_exponent x \<noteq> i64_min" and "dm_exponent y \<noteq> i64_min"
  shows "decimal_ok (decimal_minus x y) \<and> decimal_value (decimal_minus x y) = decimal_value x - decimal_value y \<and>
    decimal_cmp x y = cmp_of (decimal_value x) (decimal_value y)"
proof -
  have "decimal_ok d" if "decimal_parse s = Some d" for s d using parsed_ok [OF that] .
  note ok = this [OF assms(1)] this [OF assms(2)] parsed_tame [OF assms(1,3)] parsed_tame [OF assms(2,4)]
  from decimal_minus_spec [OF ok] ok_value_sign [of "decimal_minus x y"] show ?thesis
    by (auto simp: decimal_cmp_def Let_def cmp_of_def)
qed

subsection \<open>Integers\<close>

lemma digit_text_byte:
  assumes "d < 10"
  shows "is_digit (char_of (48 + unat d))" and "(of_nat (of_char (char_of (48 + unat d) :: char) - 48) :: u8) = d"
    and "(word_of_nat ((48 + unat d) mod 256 - 48) :: u8) = d"
proof -
  have "unat d < 10" using assms by (simp add: small_digit)
  then have c: "of_char (char_of (48 + unat d) :: char) = 48 + unat d" by simp
  with \<open>unat d < 10\<close> show "is_digit (char_of (48 + unat d))" by (simp add: is_digit_def)
  show "(of_nat (of_char (char_of (48 + unat d) :: char) - 48) :: u8) = d" unfolding c by simp
  show "(word_of_nat ((48 + unat d) mod 256 - 48) :: u8) = d" using \<open>unat d < 10\<close> by simp
qed

lemma digit_text_bytes:
  assumes "digits_ok ds"
  shows "digit_bytes (digit_text ds @ replicate n (CHR ''0'')) = ds @ replicate n 0"
    and "list_all is_digit (digit_text ds @ replicate n (CHR ''0''))"
proof -
  have "digit_bytes (digit_text ds) = ds \<and> list_all is_digit (digit_text ds)"
    using assms by (induction ds) (simp_all add: digit_bytes_def digit_text_def digit_text_byte)
  then show "digit_bytes (digit_text ds @ replicate n (CHR ''0'')) = ds @ replicate n 0"
    "list_all is_digit (digit_text ds @ replicate n (CHR ''0''))"
    by (auto simp: digit_bytes_def list_all_iff is_digit_def)
qed

text \<open>A whole number within the bounds prints as digits that read back as it.\<close>

theorem integer_round_trip:
  assumes "decimal_ok d" and "0 \<le> dm_exponent d" and "dm_exponent d \<le> MOST_EXPONENT"
    and "length (dm_digits d) \<le> MOST_DIGITS"
  shows "\<exists>s. integer_text d = Some s \<and> decimal_parse s = Some d"
proof (cases "dm_digits d = []")
  case True
  then have "d = decimal_zero" using assms(1) by (simp add: decimal_ok_def)
  moreover have "decimal_parse ''0'' = Some decimal_zero" by code_simp
  ultimately show ?thesis by (simp add: integer_text_def decimal_zero_def)
next
  case False
  let ?n = "nat (dm_exponent d)"
  let ?whole = "digit_text (dm_digits d) @ replicate ?n (CHR ''0'')"
  have ok: "digits_ok (dm_digits d)" "hd (dm_digits d) \<noteq> 0" using assms(1) False by (simp_all add: decimal_ok_def)
  have printed: "integer_text d = Some (number_token (dm_negative d) ?whole [] None)"
    using False assms(2) by (simp add: integer_text_def number_token_def power_text_def)
  obtain a r where a: "dm_digits d = a # r" using False by (cases "dm_digits d") auto
  have "hd ?whole \<noteq> CHR ''0''"
  proof
    assume "hd ?whole = CHR ''0''"
    then have "(of_char (char_of (48 + unat a) :: char) :: nat) = 48" by (simp add: a digit_text_def)
    moreover have "unat a < 10" using ok(1) by (simp add: a small_digit)
    ultimately have "unat a = 0" by simp
    then show False using ok(2) a by (simp add: unat_eq_zero)
  qed
  then have token: "token_ok ?whole [] None"
    using digit_text_bytes(2) [OF ok(1)] False by (simp add: token_ok_def digit_text_def)
  have parse: "decimal_parse (number_token (dm_negative d) ?whole [] None)
      = normal (dm_negative d) (dm_digits d @ replicate ?n 0) 0"
    using parse_token [OF token] digit_text_bytes(1) [OF ok(1)] by (simp add: power_value_def)
  have fits: "0 + int (length (dm_digits d @ replicate ?n 0)) \<le> i64_max" "i64_min \<le> 0"
    "digits_ok (dm_digits d @ replicate ?n 0)"
    using assms(2-4) ok(1) by (simp_all add: i64_max_def i64_min_def MOST_DIGITS_def MOST_EXPONENT_def)
  obtain e where e: "stripped (dm_negative d) (dm_digits d @ replicate ?n 0) 0 = Some e" "decimal_ok e"
    "decimal_value e = signed_number (dm_negative d) (digits_value (dm_digits d @ replicate ?n 0)) 0"
    using fits(3,1,2) by (rule stripped_spec [where negative = "dm_negative d"])
  have "decimal_value e = decimal_value d"
    unfolding e(3) using assms(2) by (simp add: decimal_value_def [of d] digits_value_append signed_number_shift)
  then have "e = d" using one_spelling [OF e(2) assms(1)] by simp
  moreover have "i64_wrapped \<bar>dm_exponent d\<bar> \<le> MOST_EXPONENT"
    using assms(2,3) by (simp add: i64_wrapped_def MOST_EXPONENT_def)
  ultimately have "normal (dm_negative d) (dm_digits d @ replicate ?n 0) 0 = Some d"
    using e(1) assms(4) by (simp add: normal_def)
  with printed parse show ?thesis by simp
qed

subsection \<open>The exponent the bound lets through\<close>

text \<open>\<open>abs\<close> of the least \<open>i64\<close> wraps to itself in a release build, and is below the bound. Beside such
  a number the difference of two exponents wraps too, no zero is put in, and one compares as equal to
  ten to the least exponent, which it is not.\<close>

theorem least_exponent_is_let_through:
  "\<exists>tiny one. decimal_parse ''0.1e-9223372036854775807'' = Some tiny \<and> decimal_parse ''1'' = Some one \<and>
     dm_exponent tiny = i64_min \<and> tiny \<noteq> one \<and> decimal_cmp one tiny = Equal \<and>
     \<not> decimal_value one = decimal_value tiny"
proof -
  let ?one = "\<lparr>dm_negative = False, dm_digits = [1], dm_exponent = 0\<rparr>"
  let ?tiny = "\<lparr>dm_negative = False, dm_digits = [1], dm_exponent = i64_min\<rparr>"
  have read: "decimal_parse ''0.1e-9223372036854775807'' = Some ?tiny" "decimal_parse ''1'' = Some ?one"
    "decimal_cmp ?one ?tiny = Equal"
    by code_simp+
  have "decimal_ok ?one" "decimal_ok ?tiny" by (simp_all add: decimal_ok_def)
  then have "decimal_value ?one \<noteq> decimal_value ?tiny"
    using one_spelling [of ?one ?tiny] by (simp add: i64_min_def)
  with read show ?thesis by (intro exI [of _ ?tiny] exI [of _ ?one]) (simp add: i64_min_def)
qed

subsection \<open>Instances\<close>

text \<open>Two neighbours no double tells apart, and a number below every double.\<close>

definition wide :: "u8 \<Rightarrow> decimal" where
  "wide d = \<lparr>dm_negative = False, dm_digits = [9, 0, 0, 7, 1, 9, 9, 2, 5, 4, 7, 4, 0, 9, 9, d], dm_exponent = 0\<rparr>"

definition below_doubles :: decimal where
  "below_doubles = \<lparr>dm_negative = True, dm_digits = [1, 2, 5], dm_exponent = - 402\<rparr>"

lemma instances_read:
  "decimal_parse ''9007199254740993'' = Some (wide 3)" "decimal_parse ''9007199254740992'' = Some (wide 2)"
  "decimal_parse ''-1.25e-400'' = Some below_doubles" "decimal_parse ''-0.012500E-398'' = Some below_doubles"
  by code_simp+

lemma wide_ok: "d < 10 \<Longrightarrow> d \<noteq> 0 \<Longrightarrow> decimal_ok (wide d) \<and> tame (wide d)"
  by (simp add: decimal_ok_def tame_def wide_def)

lemma below_ok: "decimal_ok below_doubles" "tame below_doubles"
  by (simp_all add: decimal_ok_def tame_def below_doubles_def)

theorem difference_of_texts_is_exact_witness:
  "\<exists>x y. decimal_parse ''9007199254740993'' = Some x \<and> decimal_parse ''9007199254740992.5'' = Some y \<and>
     decimal_value (decimal_minus x y) = 1 / 2"
proof -
  let ?x = "\<lparr>dm_negative = False, dm_digits = [9, 0, 0, 7, 1, 9, 9, 2, 5, 4, 7, 4, 0, 9, 9, 3], dm_exponent = 0\<rparr>"
  let ?y = "\<lparr>dm_negative = False, dm_digits = [9, 0, 0, 7, 1, 9, 9, 2, 5, 4, 7, 4, 0, 9, 9, 2, 5], dm_exponent = - 1\<rparr>"
  have read: "decimal_parse ''9007199254740993'' = Some ?x" "decimal_parse ''9007199254740992.5'' = Some ?y"
    by code_simp+
  have "dm_exponent ?x \<noteq> i64_min" "dm_exponent ?y \<noteq> i64_min" by (simp_all add: i64_min_def)
  from difference_of_texts_is_exact [OF read this] read show ?thesis
    by (simp add: decimal_value_def signed_number_def)
qed

theorem minus_is_exact_witness:
  "decimal_value (decimal_minus (wide 3) (wide 2)) = 1"
proof -
  have ok: "decimal_ok (wide 3)" "decimal_ok (wide 2)" "tame (wide 3)" "tame (wide 2)" using wide_ok by simp_all
  from minus_is_exact [OF ok] show ?thesis
    by (simp add: decimal_value_def signed_number_def wide_def)
qed

theorem comparison_is_the_order_witness:
  "decimal_cmp below_doubles (wide 2) = Less"
proof -
  have ok: "decimal_ok (wide 2)" "tame (wide 2)" using wide_ok by simp_all
  have "decimal_value below_doubles < 0" by (simp add: decimal_value_def signed_number_def below_doubles_def)
  moreover have "0 < decimal_value (wide 2)" by (simp add: decimal_value_def signed_number_def wide_def)
  ultimately have "decimal_value below_doubles < decimal_value (wide 2)" by (rule less_trans)
  with comparison_is_the_order [OF below_ok(1) ok(1) below_ok(2) ok(2)] show ?thesis by (simp add: cmp_of_def)
qed

theorem equality_is_of_numbers_witness:
  "decimal_value (wide 3) \<noteq> decimal_value (wide 2)"
proof -
  have "decimal_ok (wide 3)" "decimal_ok (wide 2)" using wide_ok by simp_all
  from equality_is_of_numbers [OF this] show ?thesis by (simp add: wide_def)
qed

theorem parse_reads_the_number_witness:
  "decimal_parse ''-0.012500E-398'' = Some below_doubles \<and> decimal_ok below_doubles \<and>
   length (dm_digits below_doubles) \<le> MOST_DIGITS"
  using parse_reads_the_number [OF instances_read(4)] instances_read(4) by blast

theorem integer_round_trip_witness:
  "\<exists>s. integer_text (wide 3) = Some s \<and> decimal_parse s = Some (wide 3)"
  by (rule integer_round_trip)
    (use wide_ok [of 3] in \<open>simp_all add: wide_def MOST_EXPONENT_def MOST_DIGITS_def\<close>)

end
