(* ===== verification/Question.thy ===== *)
theory Question
  imports Strings Decide
begin

text \<open>
  The rules a question put to a person satisfies, wherever it was authored: \<open>human_input.rs\<close> of
  \<open>aiwatcher-core\<close>. A curation block and a workflow step both go through
  \<open>question_problems\<close>. A problem is one constructor per sentence of the source, holding what the
  sentence interpolates; the subject, which every sentence starts with, is the first argument.
  The lemmas say what a question without problems offers the run that will ask it: a deadline that
  lies ahead, choices that are all answers \<open>decide\<close> takes, and a time-out answer a person could
  have given.
\<close>

definition ANSWERABLE_ROLE :: string where "ANSWERABLE_ROLE = ''editor''"

definition ANSWERABLE_ROLES :: "string list" where "ANSWERABLE_ROLES = [ANSWERABLE_ROLE, ''admin'']"

fun on_timeout_name :: "on_timeout \<Rightarrow> string" where
  "on_timeout_name TimeoutFail = ''fail''"
| "on_timeout_name TimeoutSkip = ''skip''"
| "on_timeout_name (TimeoutAnswer response) = ''answer''"

definition MAX_TIMEOUT_SECONDS :: u64 where "MAX_TIMEOUT_SECONDS = 14 * 24 * 60 * 60"
definition MAX_PROMPT_BYTES :: int where "MAX_PROMPT_BYTES = 4 * 1024"
definition MAX_CHOICES :: int where "MAX_CHOICES = 8"
definition MAX_CHOICE_BYTES :: int where "MAX_CHOICE_BYTES = 80"

datatype question_problem =
    PolicyWithoutDeadline string
  | DeadlineIsZero string
  | DeadlineTooLong string u64
  | TimeoutAnswerNotOffered string
  | QuestionBlank string
  | QuestionTooLong string nat
  | RoleNotAnswerable string string
  | TooManyChoices string nat
  | ChoiceMalformed string
  | ChoiceTwice string

definition deadline_problems ::
  "string \<Rightarrow> string list \<Rightarrow> u64 option \<Rightarrow> on_timeout \<Rightarrow> question_problem list" where
  "deadline_problems subject choices timeout_seconds policy =
     (case timeout_seconds of
        None \<Rightarrow> if policy \<noteq> TimeoutFail then [PolicyWithoutDeadline subject] else []
      | Some secs \<Rightarrow>
          if secs = 0 then [DeadlineIsZero subject]
          else if secs > MAX_TIMEOUT_SECONDS then [DeadlineTooLong subject secs] else [])
     @ (case policy of
          TimeoutAnswer response \<Rightarrow>
            if choices \<noteq> [] \<and> \<not> is_some_and (\<lambda>given. list_ex (\<lambda>choice. choice = given) choices) (as_str response)
            then [TimeoutAnswerNotOffered subject] else []
        | _ \<Rightarrow> [])"

definition question_problems ::
  "string \<Rightarrow> string \<Rightarrow> string \<Rightarrow> string list \<Rightarrow> u64 option \<Rightarrow> on_timeout \<Rightarrow> question_problem list" where
  "question_problems subject prompt role choices timeout_seconds policy =
     deadline_problems subject choices timeout_seconds policy
     @ (if str_trim prompt = [] then [QuestionBlank subject] else [])
     @ (if int (length prompt) > MAX_PROMPT_BYTES then [QuestionTooLong subject (length prompt)] else [])
     @ (if role \<notin> set ANSWERABLE_ROLES then [RoleNotAnswerable subject role] else [])
     @ (if int (length choices) > MAX_CHOICES then [TooManyChoices subject (length choices)] else [])
     @ (if list_ex (\<lambda>choice. str_trim choice = [] \<or> int (length choice) > MAX_CHOICE_BYTES) choices
        then [ChoiceMalformed subject] else [])
     @ (if card (set choices) \<noteq> length choices then [ChoiceTwice subject] else [])"

subsection \<open>What an accepted question offers\<close>

lemma deadline_problems_Nil:
  "deadline_problems subject choices t policy = [] \<longleftrightarrow>
     (case t of None \<Rightarrow> policy = TimeoutFail | Some secs \<Rightarrow> 0 < secs \<and> secs \<le> MAX_TIMEOUT_SECONDS)
     \<and> (\<forall>response. policy = TimeoutAnswer response \<longrightarrow>
          choices = [] \<or> (\<exists>given. as_str response = Some given \<and> given \<in> set choices))"
  by (cases t; cases policy)
    (auto simp: deadline_problems_def is_some_and_iff list_ex_iff not_less word_gt_0)

lemma question_problems_Nil:
  "question_problems subject prompt role choices t policy = [] \<longleftrightarrow>
     deadline_problems subject choices t policy = []
     \<and> str_trim prompt \<noteq> [] \<and> int (length prompt) \<le> MAX_PROMPT_BYTES
     \<and> role \<in> set ANSWERABLE_ROLES \<and> int (length choices) \<le> MAX_CHOICES
     \<and> (\<forall>choice \<in> set choices. str_trim choice \<noteq> [] \<and> int (length choice) \<le> MAX_CHOICE_BYTES)
     \<and> distinct choices"
  by (auto simp: question_problems_def list_ex_iff not_less not_le [symmetric] distinct_card card_distinct
      split: if_splits)

definition gate_ok :: "string \<Rightarrow> human_input_spec \<Rightarrow> bool" where
  "gate_ok subject spec \<longleftrightarrow>
     question_problems subject (hi_prompt spec) (hi_role spec) (hi_choices spec)
       (hi_timeout_seconds spec) (hi_on_timeout spec) = []"

lemma accepted_timeout_small:
  assumes "secs \<le> MAX_TIMEOUT_SECONDS"
  shows "sint secs = uint secs \<and> uint secs \<le> 1209600"
proof -
  have "uint secs \<le> uint (1209600 :: u64)"
    using assms by (simp only: MAX_TIMEOUT_SECONDS_def word_le_def) simp
  then have le: "uint secs \<le> 1209600" by simp
  have "sint secs = signed_take_bit 63 (uint secs)" by (simp add: sint_uint)
  also have "\<dots> = uint secs"
    using le uint_ge_0 [of secs] order_trans [of "- 9223372036854775808 :: int" 0 "uint secs"]
    by (intro signed_take_bit_int_eq_self) simp_all
  finally show ?thesis using le by simp
qed

lemma gate_deadline:
  assumes "gate_ok subject spec" and "rq_deadline (gate_request spec now) = Some deadline"
  shows "now < deadline \<and> deadline \<le> now + seconds 1209600"
proof -
  obtain secs where secs: "hi_timeout_seconds spec = Some secs"
    using assms(2) by (auto simp: gate_request_def)
  then have small: "0 < secs" "secs \<le> MAX_TIMEOUT_SECONDS"
    using assms(1) by (auto simp: gate_ok_def question_problems_Nil deadline_problems_Nil)
  have "0 < uint secs" using small(1) by (simp add: word_less_def)
  with accepted_timeout_small [OF small(2)] secs assms(2) show ?thesis
    by (auto simp: gate_request_def seconds_def)
qed

lemma gate_choice_allowed:
  "choice \<in> set (hi_choices spec) \<Longrightarrow> answer_allowed (gate_request spec now) (JString choice)"
  by (simp add: answer_allowed_def gate_request_def)

lemma gate_timeout_allowed:
  "gate_ok subject spec \<Longrightarrow> hi_on_timeout spec = TimeoutAnswer response \<Longrightarrow>
   answer_allowed (gate_request spec now) response"
  by (auto simp: gate_ok_def question_problems_Nil deadline_problems_Nil answer_allowed_def
      gate_request_def is_some_and_iff)

text \<open>A question without problems can be answered when it is asked: its deadline lies ahead
  and at most a fortnight away, each choice it offers is taken by \<open>ProvideInput\<close>, each choice is
  offered once, and the answer its time-out writes is one a person could have given.\<close>

theorem accepted_question_can_be_answered:
  assumes "question_problems subject prompt role choices t policy = []"
    and "spec = \<lparr>hi_prompt = prompt, hi_role = role, hi_choices = choices, hi_block = block,
                 hi_timeout_seconds = t, hi_on_timeout = policy\<rparr>"
    and "rq = gate_request spec now"
  shows "(\<forall>deadline. rq_deadline rq = Some deadline \<longrightarrow> now < deadline \<and> deadline \<le> now + seconds 1209600)
    \<and> (\<forall>choice \<in> set choices. answer_allowed rq (JString choice)) \<and> distinct choices
    \<and> (\<forall>response. policy = TimeoutAnswer response \<longrightarrow> answer_allowed rq response)"
proof -
  have ok: "gate_ok subject spec" using assms(1, 2) by (simp add: gate_ok_def)
  show ?thesis
    using gate_deadline [OF ok] gate_choice_allowed [of _ spec] gate_timeout_allowed [OF ok] assms
    by (auto simp: question_problems_Nil)
qed

definition publish_gate :: human_input_spec where
  "publish_gate =
     \<lparr>hi_prompt = ''publish?'', hi_role = ''admin'', hi_choices = [''yes'', ''no''], hi_block = None,
      hi_timeout_seconds = Some 86400, hi_on_timeout = TimeoutAnswer (JString ''no'')\<rparr>"

lemma publish_gate_accepted:
  "question_problems ''gate'' ''publish?'' ''admin'' [''yes'', ''no''] (Some 86400)
     (TimeoutAnswer (JString ''no'')) = []"
  by code_simp

theorem accepted_question_can_be_answered_witness:
  "answer_allowed (gate_request publish_gate 0) (JString ''no'')
   \<and> answer_allowed (gate_request publish_gate 0) (JString ''yes'')
   \<and> rq_deadline (gate_request publish_gate 0) = Some (seconds 86400) \<and> (0 :: int) < seconds 86400"
  using accepted_question_can_be_answered [OF publish_gate_accepted, of publish_gate None "gate_request publish_gate 0" 0]
  by (simp add: publish_gate_def gate_request_def)

end
