(* ===== verification/Pods.thy ===== *)
theory Pods
  imports Images Claim
begin

text \<open>
  A step's own pod: the rest of \<open>pods.rs\<close> beside the image references. \<open>quantity_parse\<close> reads a
  Kubernetes quantity, a template is checked once when the file is read and a request is checked
  against the templates when a definition is registered and again before a pod is started.
  The fragment an operator writes is a JSON object of which the checks read the fields the engine
  fills in. A problem is a constructor per sentence of the source; the words of an image or
  quantity refusal are not repeated in it.
\<close>

subsection \<open>What a pod is here\<close>

datatype pod_runtime = Kubernetes | Docker | Process

definition pod_runtimes :: "pod_runtime list" where
  "pod_runtimes = [Kubernetes, Docker, Process]"

fun pod_runtime_as_str :: "pod_runtime \<Rightarrow> string" where
  "pod_runtime_as_str Kubernetes = ''kubernetes''"
| "pod_runtime_as_str Docker = ''docker''"
| "pod_runtime_as_str Process = ''process''"

definition in_cluster :: "pod_runtime \<Rightarrow> bool" where
  "in_cluster r = (r = Kubernetes)"

definition pod_runtime_parse :: "string \<Rightarrow> pod_runtime option" where
  "pod_runtime_parse given =
     (let word = to_ascii_lowercase given in
      if word \<in> set [''kubernetes'', ''k8s'', ''cluster'', ''pods''] then Some Kubernetes
      else if word \<in> set [''docker'', ''container'', ''containers''] then Some Docker
      else if word \<in> set [''process'', ''processes'', ''local'', ''host''] then Some Process
      else None)"

definition OWNED_ENV :: "string list" where
  "OWNED_ENV = [''AIWATCHER_ATTEMPT'', ''AIWATCHER_URL'', ''AIWATCHER_WORKER_NAME'', ''AIWATCHER_TOKEN'']"

definition DEFAULT_START_ALLOWANCE_SECONDS :: u64 where
  "DEFAULT_START_ALLOWANCE_SECONDS = 300"

definition is_label :: "string \<Rightarrow> bool" where
  "is_label s =
     (1 \<le> length s \<and> length s \<le> 63 \<and>
      list_all (\<lambda>b. is_ascii_lowercase b \<or> is_ascii_digit b \<or> b = CHR ''-'') s \<and>
      hd s \<noteq> CHR ''-'' \<and> last s \<noteq> CHR ''-'')"

subsection \<open>Quantities\<close>

datatype resource = Cpu | Memory

fun resource_text :: "resource \<Rightarrow> string" where
  "resource_text Cpu = ''cpu''"
| "resource_text Memory = ''memory''"

datatype quantity_error = NotANumber | TooManyDigits | NotAUnit resource string | LargerThanAnyNode | NotAboveZero

text \<open>The value of a run of digits.\<close>

definition u128_digits :: "string \<Rightarrow> int" where
  "u128_digits s = foldl (\<lambda>n c. 10 * n + (of_char c - 48)) 0 s"

definition memory_units :: "(string \<times> int) list" where
  "memory_units =
     [('''', 1), (''k'', 1000), (''M'', 1000000), (''G'', 1000000000), (''T'', 1000000000000),
      (''P'', 1000000000000000), (''E'', 1000000000000000000),
      (''Ki'', 2 ^ 10), (''Mi'', 2 ^ 20), (''Gi'', 2 ^ 30), (''Ti'', 2 ^ 40), (''Pi'', 2 ^ 50), (''Ei'', 2 ^ 60)]"

definition quantity_unit :: "resource \<Rightarrow> string \<Rightarrow> int option" where
  "quantity_unit r suffix =
     (case r of Cpu \<Rightarrow> map_of [('''', 1000), (''m'', 1)] suffix | Memory \<Rightarrow> map_of memory_units suffix)"

text \<open>The checked arithmetic of \<open>u128\<close>.\<close>

definition checked128 :: "int \<Rightarrow> int option" where
  "checked128 n = (if n < 2 ^ 128 then Some n else None)"

definition div_ceil :: "int \<Rightarrow> int \<Rightarrow> int" where
  "div_ceil n d = n div d + (if n mod d = 0 then 0 else 1)"

definition quantity_parse :: "resource \<Rightarrow> string \<Rightarrow> quantity_error + int" where
  "quantity_parse r raw =
     (let counts = (\<lambda>c. is_ascii_digit c \<or> c = CHR ''.'');
          number = takeWhile counts raw; suffix = dropWhile counts raw;
          (whole, fraction) = (case split_once CHR ''.'' number of None \<Rightarrow> (number, []) | Some p \<Rightarrow> p)
      in if (whole = [] \<and> fraction = []) \<or> (number \<noteq> [] \<and> last number = CHR ''.'')
            \<or> \<not> list_all is_ascii_digit fraction
         then Inl NotANumber
         else if length whole > 18 \<or> length fraction > 9 then Inl TooManyDigits
         else case quantity_unit r suffix of
                None \<Rightarrow> Inl (NotAUnit r suffix)
              | Some multiplier \<Rightarrow>
                  let scale = 10 ^ length fraction in
                  (case Option.bind (checked128 (u128_digits whole * scale))
                          (\<lambda>w. Option.bind (checked128 (w + u128_digits fraction))
                             (\<lambda>mantissa. checked128 (mantissa * multiplier))) of
                     None \<Rightarrow> Inl LargerThanAnyNode
                   | Some scaled \<Rightarrow>
                       if div_ceil scaled scale = 0 then Inl NotAboveZero else Inr (div_ceil scaled scale)))"

subsection \<open>Requests and templates\<close>

definition pod_quantities :: "pod_request \<Rightarrow> (resource \<times> string) list" where
  "pod_quantities request =
     List.map_filter (\<lambda>(r, asked). map_option (Pair r) asked)
       [(Cpu, pod_cpu request), (Memory, pod_memory request)]"

datatype pod_problem =
    TemplateNotAName string string
  | ImageUnreadable string string
  | QuantityUnreadable string resource string quantity_error
  | TemplateNameNotALabel string
  | TemplateRunsNothing string
  | ImageEntryUnreadable string string
  | ImageEntryPinned string string
  | CommandEmpty string
  | AllowanceOutOfRange string
  | SectionUnreadable string string resource string quantity_error
  | CeilingMissing string resource
  | DefaultAboveCeiling string string resource
  | RequestAboveLimit string resource
  | PodFieldOwned string string
  | NotOneContainer string
  | ContainerNotAnObject string
  | ContainerFieldOwned string string
  | VariableOwned string string
  | TemplateNotConfigured string string "string list"
  | ImageNotListed string string string string "string list"
  | AboveCeiling string resource string string string
  | NoTemplatesHere string string

definition pod_request_problems :: "string \<Rightarrow> pod_request \<Rightarrow> pod_problem list" where
  "pod_request_problems step request =
     (if \<not> is_label (pod_template request) then [TemplateNotAName step (pod_template request)] else [])
     @ (if image_parse (pod_image request) = None then [ImageUnreadable step (pod_image request)] else [])
     @ List.map_filter
         (\<lambda>(r, asked). case quantity_parse r asked of
                         Inl why \<Rightarrow> Some (QuantityUnreadable step r asked why) | Inr v \<Rightarrow> None)
         (pod_quantities request)"

record resource_values =
  rv_cpu :: "string option"
  rv_memory :: "string option"

fun rv_get :: "resource_values \<Rightarrow> resource \<Rightarrow> string option" where
  "rv_get vs Cpu = rv_cpu vs"
| "rv_get vs Memory = rv_memory vs"

record template_resources =
  tr_requests :: resource_values
  tr_limits :: resource_values
  tr_max :: resource_values

record pod_resources =
  pr_requests :: resource_values
  pr_limits :: resource_values

record pod_template =
  tp_images :: "string list"
  tp_resources :: template_resources
  tp_command :: "string list"
  tp_start_allowance :: u64
  tp_pod :: "(string, json) btree"

definition template_admits :: "pod_template \<Rightarrow> image_ref \<Rightarrow> bool" where
  "template_admits t im =
     list_ex (\<lambda>entry. same_repository entry im) (List.map_filter image_parse (tp_images t))"

definition pick :: "string option \<Rightarrow> string option \<Rightarrow> string option" where
  "pick asked otherwise = (case asked of Some q \<Rightarrow> Some q | None \<Rightarrow> otherwise)"

definition resources_for :: "pod_template \<Rightarrow> pod_request \<Rightarrow> pod_resources" where
  "resources_for t request =
     (let defaults = tp_resources t in
      \<lparr>pr_requests =
         \<lparr>rv_cpu = pick (pod_cpu request) (rv_cpu (tr_requests defaults)),
          rv_memory = pick (pod_memory request) (rv_memory (tr_requests defaults))\<rparr>,
       pr_limits =
         \<lparr>rv_cpu = pick (pod_cpu request) (rv_cpu (tr_limits defaults)),
          rv_memory = pick (pod_memory request) (rv_memory (tr_limits defaults))\<rparr>\<rparr>)"

text \<open>\<open>read\<close>: the problem of an unreadable text, and the quantity of a readable one.\<close>

definition section_read ::
  "string \<Rightarrow> string \<Rightarrow> resource \<Rightarrow> string option \<Rightarrow> pod_problem list \<times> int option" where
  "section_read name section r given =
     (case given of
        None \<Rightarrow> ([], None)
      | Some s \<Rightarrow>
          (case quantity_parse r s of
             Inl why \<Rightarrow> ([SectionUnreadable name section r s why], None)
           | Inr v \<Rightarrow> ([], Some v)))"

definition above :: "int option \<Rightarrow> int option \<Rightarrow> bool" where
  "above x y = (case (x, y) of (Some a, Some b) \<Rightarrow> a > b | _ \<Rightarrow> False)"

definition resource_problems_of :: "string \<Rightarrow> template_resources \<Rightarrow> resource \<Rightarrow> pod_problem list" where
  "resource_problems_of name rs r =
     (let (p1, request) = section_read name ''requests'' r (rv_get (tr_requests rs) r);
          (p2, limit) = section_read name ''limits'' r (rv_get (tr_limits rs) r);
          (p3, ceiling) = section_read name ''max'' r (rv_get (tr_max rs) r)
      in p1 @ p2 @ p3
         @ (if rv_get (tr_max rs) r = None then [CeilingMissing name r] else [])
         @ (if above request ceiling then [DefaultAboveCeiling name ''requests'' r] else [])
         @ (if above limit ceiling then [DefaultAboveCeiling name ''limits'' r] else [])
         @ (if above request limit then [RequestAboveLimit name r] else []))"

definition resource_problems :: "string \<Rightarrow> pod_template \<Rightarrow> pod_problem list" where
  "resource_problems name t =
     concat (map (resource_problems_of name (tp_resources t)) [Cpu, Memory])"

text \<open>The variables a container sets by name, in the order it lists them.\<close>

definition container_env :: "(string, json) btree \<Rightarrow> string list" where
  "container_env container =
     (case bt_get container ''env'' of
        Some (JArray entries) \<Rightarrow>
          List.map_filter (\<lambda>entry. Option.bind (json_get entry ''name'') as_str) entries
      | _ \<Rightarrow> [])"

definition container_problems :: "string \<Rightarrow> (string, json) btree \<Rightarrow> pod_problem list" where
  "container_problems name container =
     map (ContainerFieldOwned name)
       (filter (\<lambda>field. bt_get container field \<noteq> None) [''image'', ''resources'', ''command'', ''args''])
     @ map (VariableOwned name)
         (filter (\<lambda>variable. variable \<in> set OWNED_ENV) (container_env container))"

definition pod_problems :: "string \<Rightarrow> (string, json) btree \<Rightarrow> pod_problem list" where
  "pod_problems name pod =
     map (PodFieldOwned name)
       (filter (\<lambda>field. bt_get pod field \<noteq> None)
          [''restartPolicy'', ''activeDeadlineSeconds'', ''backoffLimit'', ''ttlSecondsAfterFinished''])
     @ (case bt_get pod ''containers'' of
          None \<Rightarrow> []
        | Some (JArray [container]) \<Rightarrow>
            (case container of
               JObject kvs \<Rightarrow> container_problems name kvs
             | _ \<Rightarrow> [ContainerNotAnObject name])
        | Some _ \<Rightarrow> [NotOneContainer name])"

definition image_entry_problems :: "string \<Rightarrow> string \<Rightarrow> pod_problem list" where
  "image_entry_problems name entry =
     (case image_parse entry of
        None \<Rightarrow> [ImageEntryUnreadable name entry]
      | Some im \<Rightarrow>
          if im_tag im \<noteq> None \<or> im_digest im \<noteq> None then [ImageEntryPinned name entry] else [])"

definition template_problems :: "string \<Rightarrow> pod_template \<Rightarrow> pod_problem list" where
  "template_problems name t =
     (if \<not> is_label name then [TemplateNameNotALabel name] else [])
     @ (if tp_images t = [] then [TemplateRunsNothing name] else [])
     @ concat (map (image_entry_problems name) (tp_images t))
     @ (if tp_command t = [] \<or> list_ex (\<lambda>word. word = []) (tp_command t) then [CommandEmpty name] else [])
     @ (if \<not> (1 \<le> tp_start_allowance t \<and> tp_start_allowance t \<le> 3600)
        then [AllowanceOutOfRange name] else [])
     @ resource_problems name t
     @ pod_problems name (tp_pod t)"

subsection \<open>The templates of a deployment\<close>

type_synonym pod_templates = "(string, pod_template) btree"

text \<open>\<open>PodTemplates::parse\<close> once serde has read the file.\<close>

definition templates_check :: "pod_templates \<Rightarrow> pod_problem list + pod_templates" where
  "templates_check templates =
     (let problems = concat (map (\<lambda>(name, t). template_problems name t) templates)
      in if problems = [] then Inr templates else Inl problems)"

definition request_refusals :: "pod_templates \<Rightarrow> string \<Rightarrow> pod_request \<Rightarrow> pod_problem list" where
  "request_refusals templates step request =
     (case bt_get templates (pod_template request) of
        None \<Rightarrow> [TemplateNotConfigured step (pod_template request) (bt_keys templates)]
      | Some t \<Rightarrow>
          (case image_parse (pod_image request) of
             Some im \<Rightarrow>
               if template_admits t im then []
               else [ImageNotListed step (pod_image request) (pod_template request) (image_name im) (tp_images t)]
           | None \<Rightarrow> [ImageUnreadable step (pod_image request)])
          @ List.map_filter
              (\<lambda>(r, asked).
                 let ceiling = rv_get (tr_max (tp_resources t)) r in
                 case quantity_parse r asked of
                   Inl why \<Rightarrow> Some (QuantityUnreadable step r asked why)
                 | Inr asked_value \<Rightarrow>
                     (case map_option (quantity_parse r) ceiling of
                        Some (Inr m) \<Rightarrow>
                          if asked_value > m
                          then Some (AboveCeiling step r asked (pod_template request)
                                 (case ceiling of None \<Rightarrow> [] | Some c \<Rightarrow> c))
                          else None
                      | _ \<Rightarrow> None))
              (pod_quantities request))"

definition container_step :: "plan_step \<Rightarrow> (string \<times> pod_request) option" where
  "container_step step =
     (case ps_runtime step of ContainerJob spec \<Rightarrow> Some (ps_id step, cj_pod spec) | _ \<Rightarrow> None)"

definition plan_refusals :: "execution_plan \<Rightarrow> pod_templates option \<Rightarrow> pod_problem list" where
  "plan_refusals plan templates =
     concat (map (\<lambda>(step, pod). case templates of
                    Some ts \<Rightarrow> request_refusals ts step pod
                  | None \<Rightarrow> [NoTemplatesHere step (pod_template pod)])
               (List.map_filter container_step (plan_steps plan)))"

definition job_name :: "crates \<Rightarrow> attempt_key \<Rightarrow> string" where
  "job_name C key = ''aiwatcher-'' @ take 32 (digest C (key_idempotency key))"

end
