(* ===== verification/Workflow_Def.thy ===== *)
theory Workflow_Def
  imports Question Pods
begin

text \<open>
  Authored workflows: \<open>definition/mod.rs\<close>. A definition is data, checked and ordered before
  anything is stored or started. \<open>compile_workflow_spec\<close> collects every problem (a constructor per
  sentence of the source) and otherwise seals the plan whose steps stand in the order of
  \<open>order_rounds\<close>: round by round, the steps none of whose dependencies is still to be placed.
  \<open>plan_json\<close> and \<open>spec_json\<close> are the serialisations serde derives for the plan and the definition.
\<close>

record approval_gate =
  ag_prompt :: string
  ag_role :: string
  ag_choices :: "string list"
  ag_timeout_seconds :: "u64 option"
  ag_on_timeout :: on_timeout

record workflow_input =
  wi_step :: string
  wi_output :: string

record workflow_task =
  wt_id :: string
  wt_task_ref :: string
  wt_queue :: string
  wt_pod :: "pod_request option"
  wt_approval :: "approval_gate option"
  wt_after :: "string list"
  wt_inputs :: "workflow_input list"
  wt_outputs :: "string list"
  wt_params :: "(string, json) btree"
  wt_retry :: retry_policy
  wt_timeout_seconds :: u64

record workflow_spec =
  ws_name :: string
  ws_version :: string
  ws_steps :: "workflow_task list"

definition answerable_role :: string where "answerable_role = ANSWERABLE_ROLE"

definition valid_name :: "string \<Rightarrow> bool" where
  "valid_name given =
     (given \<noteq> [] \<and> str_trim given = given \<and> int (length given) \<le> 512 \<and> \<not> list_ex is_control (utf8_chars given))"

definition spec_revision :: "crates \<Rightarrow> (workflow_spec \<Rightarrow> json) \<Rightarrow> workflow_spec \<Rightarrow> string" where
  "spec_revision C spec_json spec = digest C (canonical C (spec_json spec))"

subsection \<open>Problems\<close>

datatype workflow_problem =
    NameMalformed string
  | StepCount
  | StepIdsNotUnique
  | StepIdMalformed string
  | GateQuestion question_problem
  | GateNames string string
  | QueueMalformed string
  | TaskRefMalformed string
  | TimeoutOutOfRange string
  | RetryBudgetZero string
  | OutputsMalformed string
  | StepPod pod_problem
  | InputUndeclared string string string
  | InputAmbiguous string string
  | DependencyUnknown string string
  | DependencyCycle

type_synonym task_index = "(string, workflow_task) btree"

definition tasks_by_id :: "workflow_spec \<Rightarrow> task_index" where
  "tasks_by_id spec = bt_collect (map (\<lambda>step. (wt_id step, step)) (ws_steps spec))"

definition header_problems :: "workflow_spec \<Rightarrow> workflow_problem list" where
  "header_problems spec =
     List.map_filter
       (\<lambda>(label, given). if \<not> valid_name given \<or> CHR 0x40 \<in> set given then Some (NameMalformed label) else None)
       [(''name'', ws_name spec), (''version'', ws_version spec)]
     @ (if ws_steps spec = [] \<or> length (ws_steps spec) > 256 then [StepCount] else [])
     @ (if length (tasks_by_id spec) \<noteq> length (ws_steps spec) then [StepIdsNotUnique] else [])"

definition gate_problems :: "workflow_task \<Rightarrow> approval_gate \<Rightarrow> workflow_problem list" where
  "gate_problems step gate =
     map GateQuestion (question_problems (wt_id step) (ag_prompt gate) (ag_role gate) (ag_choices gate)
                         (ag_timeout_seconds gate) (ag_on_timeout gate))
     @ List.map_filter (\<lambda>(label, given). if given then Some (GateNames (wt_id step) label) else None)
         [(''task_ref'', wt_task_ref step \<noteq> []), (''queue'', wt_queue step \<noteq> []),
          (''pod'', wt_pod step \<noteq> None), (''outputs'', wt_outputs step \<noteq> []),
          (''timeout_seconds'', wt_timeout_seconds step \<noteq> 0), (''retry'', wt_retry step \<noteq> retry_default)]"

definition task_ref_ok :: "string \<Rightarrow> bool" where
  "task_ref_ok given =
     is_some_and (\<lambda>(name, version). valid_name name \<and> valid_name version \<and> CHR 0x40 \<notin> set version)
       (split_once CHR 0x40 given)"

definition work_problems :: "workflow_task \<Rightarrow> workflow_problem list" where
  "work_problems step =
     (if \<not> valid_name (wt_queue step) then [QueueMalformed (wt_id step)] else [])
     @ (if \<not> task_ref_ok (wt_task_ref step) then [TaskRefMalformed (wt_id step)] else [])
     @ (if wt_timeout_seconds step = 0 \<or> wt_timeout_seconds step > 604800
        then [TimeoutOutOfRange (wt_id step)] else [])
     @ (if max_attempts (wt_retry step) = 0 \<or> max_unavailable_attempts (wt_retry step) = 0
        then [RetryBudgetZero (wt_id step)] else [])
     @ (if list_ex (\<lambda>given. \<not> valid_name given) (wt_outputs step)
          \<or> card (set (wt_outputs step)) \<noteq> length (wt_outputs step)
        then [OutputsMalformed (wt_id step)] else [])
     @ (case wt_pod step of
          None \<Rightarrow> []
        | Some pod \<Rightarrow> map StepPod (pod_request_problems (wt_id step) pod))"

text \<open>The loop over the inputs, with the names read so far.\<close>

fun input_problems :: "task_index \<Rightarrow> string \<Rightarrow> string list \<Rightarrow> workflow_input list \<Rightarrow> workflow_problem list" where
  "input_problems tasks i seen [] = []"
| "input_problems tasks i seen (given # rest) =
     (if \<not> is_some_and (\<lambda>source. wi_output given \<in> set (wt_outputs source)) (bt_get tasks (wi_step given))
      then [InputUndeclared i (wi_step given) (wi_output given)] else [])
     @ (if wi_output given \<in> set seen then [InputAmbiguous i (wi_output given)] else [])
     @ input_problems tasks i (wi_output given # seen) rest"

definition task_parents :: "workflow_task \<Rightarrow> string list" where
  "task_parents step = wt_after step @ map wi_step (wt_inputs step)"

definition task_problems :: "task_index \<Rightarrow> workflow_task \<Rightarrow> workflow_problem list" where
  "task_problems tasks step =
     (if \<not> valid_name (wt_id step) then [StepIdMalformed (wt_id step)] else [])
     @ (case wt_approval step of Some gate \<Rightarrow> gate_problems step gate | None \<Rightarrow> work_problems step)
     @ input_problems tasks (wt_id step) [] (wt_inputs step)
     @ List.map_filter
         (\<lambda>parent. if bt_get tasks parent = None then Some (DependencyUnknown (wt_id step) parent) else None)
         (task_parents step)"

subsection \<open>The order\<close>

definition task_edges :: "workflow_spec \<Rightarrow> plan_edge list" where
  "task_edges spec =
     bt_keys (bt_collect (concat (map (\<lambda>step. map (\<lambda>parent. (PlanEdge parent (wt_id step), ()))
                                                  (task_parents step)) (ws_steps spec))))"

definition ready_round :: "plan_edge list \<Rightarrow> string list \<Rightarrow> string list" where
  "ready_round edges remaining =
     filter (\<lambda>i. list_all (\<lambda>edge. edge_from edge \<notin> set remaining) (filter (\<lambda>edge. edge_to edge = i) edges))
       remaining"

text \<open>The ids in order, and whether the loop was left because of a cycle.\<close>

function order_rounds :: "plan_edge list \<Rightarrow> string list \<Rightarrow> string list \<times> bool" where
  "order_rounds edges remaining =
     (if remaining = [] then ([], False)
      else let ready = ready_round edges remaining in
        if ready = [] then ([], True)
        else case order_rounds edges (filter (\<lambda>i. i \<notin> set ready) remaining) of
               (rest, cyclic) \<Rightarrow> (ready @ rest, cyclic))"
  by pat_completeness auto
termination
proof (relation "measure (\<lambda>(edges, remaining). length remaining)", goal_cases)
  case 1
  show ?case by simp
next
  case (2 edges remaining ready)
  then obtain i where "i \<in> set remaining" "i \<in> set ready"
    by (metis filter_is_subset last_in_set ready_round_def subsetD)
  then show ?case by (auto intro!: length_filter_less)
qed

declare order_rounds.simps [simp del]

subsection \<open>The plan\<close>

definition task_runtime :: "workflow_task \<Rightarrow> runtime_binding" where
  "task_runtime step =
     (case wt_approval step of
        Some gate \<Rightarrow>
          HumanInput \<lparr>hi_prompt = ag_prompt gate, hi_role = ag_role gate, hi_choices = ag_choices gate,
                      hi_block = None, hi_timeout_seconds = ag_timeout_seconds gate,
                      hi_on_timeout = ag_on_timeout gate\<rparr>
      | None \<Rightarrow>
          (case wt_pod step of
             Some pod \<Rightarrow>
               ContainerJob \<lparr>cj_task_ref = wt_task_ref step, cj_queue = wt_queue step,
                             cj_params = wt_params step, cj_pod = pod\<rparr>
           | None \<Rightarrow>
               PythonTask \<lparr>pt_task_ref = wt_task_ref step, pt_queue = wt_queue step,
                           pt_params = wt_params step\<rparr>))"

definition task_step :: "workflow_task \<Rightarrow> plan_step" where
  "task_step step =
     \<lparr>ps_id = wt_id step, ps_runtime = task_runtime step,
      ps_inputs = map (\<lambda>given. FromStep (wi_step given) (wi_output given)) (wt_inputs step),
      ps_outputs = map (\<lambda>name. \<lparr>out_name = name, out_kind = ArtRows, out_schema_ref = None\<rparr>) (wt_outputs step),
      ps_retry = (case wt_approval step of Some gate \<Rightarrow> retry_once | None \<Rightarrow> wt_retry step),
      ps_timeout_seconds = wt_timeout_seconds step, ps_cache = CacheNever\<rparr>"

definition workflow_problems :: "workflow_spec \<Rightarrow> workflow_problem list" where
  "workflow_problems spec =
     header_problems spec
     @ concat (map (task_problems (tasks_by_id spec)) (ws_steps spec))
     @ (if snd (order_rounds (task_edges spec) (bt_keys (tasks_by_id spec))) then [DependencyCycle] else [])"

definition ordered_tasks :: "workflow_spec \<Rightarrow> workflow_task list" where
  "ordered_tasks spec =
     List.map_filter (bt_get (tasks_by_id spec))
       (fst (order_rounds (task_edges spec) (bt_keys (tasks_by_id spec))))"

definition compile_workflow_spec ::
  "crates \<Rightarrow> (execution_plan \<Rightarrow> json) \<Rightarrow> (workflow_spec \<Rightarrow> json) \<Rightarrow> workflow_spec \<Rightarrow>
   workflow_problem list + execution_plan" where
  "compile_workflow_spec C plan_json spec_json spec =
     (if workflow_problems spec \<noteq> [] then Inl (workflow_problems spec)
      else Inr (seal C plan_json WorkflowKind (ws_name spec) (spec_revision C spec_json spec)
                  (map task_step (ordered_tasks spec)) (task_edges spec)))"

end
