(* ===== verification/Workflow_Props.thy ===== *)
theory Workflow_Props
  imports Workflow_Def Reach Progress "HOL-Library.Multiset"
begin

text \<open>
  What compiling an authored workflow promises: it accepts exactly the definitions
  \<open>workflow_ok\<close> describes, the plan it seals lists every step after the steps it depends on, reads
  only declared outputs of its parents, asks only questions a person can answer, and is one the
  decider starts and carries: the hypotheses of the engine's theorems on plans hold of it.
\<close>

subsection \<open>The order of the rounds\<close>

lemma ready_round_parents:
  "ready_round (plan_edges plan) remaining =
     filter (\<lambda>i. list_all (\<lambda>parent. parent \<notin> set remaining) (parents_of plan i)) remaining"
  by (simp add: ready_round_def parents_of_def list_all_iff)

lemma order_rounds_cyclic:
  "snd (order_rounds edges remaining) \<longleftrightarrow> \<not> acyclic_loop plan remaining" if "plan_edges plan = edges"
  using that
proof (induction edges remaining rule: order_rounds.induct)
  case (1 edges remaining)
  define ready where "ready = ready_round edges remaining"
  have loop: "acyclic_loop plan remaining =
      (if ready = [] then remaining = [] else acyclic_loop plan (filter (\<lambda>i. i \<notin> set ready) remaining))"
    using ready_round_parents [of plan remaining] 1(2)
    by (simp add: acyclic_loop.simps [of plan remaining] ready_def Let_def)
  have "remaining = [] \<Longrightarrow> ready = []" by (simp add: ready_def ready_round_def)
  then show ?case
  proof (cases "remaining = [] \<or> ready = []")
    case True
    with \<open>remaining = [] \<Longrightarrow> ready = []\<close> have "ready = []" by blast
    then show ?thesis
      by (auto simp: loop order_rounds.simps [of edges remaining] ready_def [symmetric] Let_def)
  next
    case False
    with 1 show ?thesis
      by (simp add: loop order_rounds.simps [of edges remaining] ready_def [symmetric] Let_def split_beta)
  qed
qed

lemma ready_round_sub: "i \<in> set (ready_round edges remaining) \<Longrightarrow> i \<in> set remaining"
  by (simp add: ready_round_def)

lemma ready_round_free:
  "i \<in> set (ready_round edges remaining) \<Longrightarrow> PlanEdge p i \<in> set edges \<Longrightarrow> p \<notin> set remaining"
  by (fastforce simp: ready_round_def list_all_iff)

lemma order_rounds_parts:
  assumes "distinct remaining"
  shows "distinct (fst (order_rounds edges remaining)) \<and>
    set (fst (order_rounds edges remaining)) \<subseteq> set remaining \<and>
    (\<not> snd (order_rounds edges remaining) \<longrightarrow> set remaining \<subseteq> set (fst (order_rounds edges remaining)))"
  using assms
proof (induction edges remaining rule: order_rounds.induct)
  case (1 edges remaining)
  define ready where "ready = ready_round edges remaining"
  show ?case
  proof (cases "remaining = [] \<or> ready = []")
    case True
    then show ?thesis by (auto simp: order_rounds.simps [of edges remaining] ready_def [symmetric] Let_def)
  next
    case False
    let ?rest = "filter (\<lambda>i. i \<notin> set ready) remaining"
    have ready: "distinct ready" "set ready \<subseteq> set remaining"
      using 1(2) ready_round_sub by (auto simp: ready_def ready_round_def)
    have "order_rounds edges remaining = (ready @ fst (order_rounds edges ?rest), snd (order_rounds edges ?rest))"
      using False by (simp add: order_rounds.simps [of edges remaining] ready_def [symmetric] Let_def split_beta)
    moreover have "distinct (fst (order_rounds edges ?rest)) \<and> set (fst (order_rounds edges ?rest)) \<subseteq> set ?rest \<and>
        (\<not> snd (order_rounds edges ?rest) \<longrightarrow> set ?rest \<subseteq> set (fst (order_rounds edges ?rest)))"
      using 1 False by (simp add: ready_def)
    ultimately show ?thesis using ready by auto
  qed
qed

text \<open>An id stands behind every id still to be placed that it depends on.\<close>

lemma order_rounds_parents_first:
  assumes "fst (order_rounds edges remaining) = xs @ i # ys" and "PlanEdge p i \<in> set edges"
    and "p \<in> set remaining" and "distinct remaining"
  shows "p \<in> set xs"
  using assms
proof (induction edges remaining arbitrary: xs rule: order_rounds.induct)
  case (1 edges remaining)
  define ready where "ready = ready_round edges remaining"
  have some: "remaining \<noteq> []" "ready \<noteq> []"
    using 1(2) by (auto simp: order_rounds.simps [of edges remaining] ready_def [symmetric] Let_def split: if_splits)
  let ?rest = "filter (\<lambda>i. i \<notin> set ready) remaining"
  have split: "ready @ fst (order_rounds edges ?rest) = xs @ i # ys"
    using 1(2) some by (simp add: order_rounds.simps [of edges remaining] ready_def [symmetric] Let_def split_beta)
  have "i \<notin> set ready" using ready_round_free 1(3,4) by (fastforce simp: ready_def)
  then obtain us where us: "xs = ready @ us" "fst (order_rounds edges ?rest) = us @ i # ys"
    using split by (auto simp: append_eq_append_conv2 Cons_eq_append_conv append_eq_Cons_conv)
  show ?case
  proof (cases "p \<in> set ready")
    case False
    with 1 some us show ?thesis by (auto simp: ready_def)
  qed (simp add: us)
qed

subsection \<open>The steps by their ids\<close>

lemma tasks_sound: "bt_get (tasks_by_id spec) i = Some step \<Longrightarrow> step \<in> set (ws_steps spec) \<and> wt_id step = i"
  by (auto simp: tasks_by_id_def bt_get_collect dest!: map_of_SomeD)

lemma tasks_ids: "fst ` set (tasks_by_id spec) = wt_id ` set (ws_steps spec)"
  by (simp add: tasks_by_id_def image_image)

lemma tasks_unique: "length (tasks_by_id spec) = length (ws_steps spec) \<longleftrightarrow> distinct (map wt_id (ws_steps spec))"
proof -
  have "distinct (map fst (tasks_by_id spec))" by (simp add: tasks_by_id_def bt_ok_distinct)
  then have "length (tasks_by_id spec) = card (set (map wt_id (ws_steps spec)))"
    using distinct_card [of "map fst (tasks_by_id spec)"] by (simp add: tasks_ids)
  then show ?thesis by (metis card_distinct distinct_card length_map)
qed

lemma tasks_get:
  assumes "distinct (map wt_id (ws_steps spec))" and "step \<in> set (ws_steps spec)"
  shows "bt_get (tasks_by_id spec) (wt_id step) = Some step"
proof -
  have "wt_id step \<in> fst ` set (tasks_by_id spec)" using assms(2) by (simp add: tasks_ids)
  then obtain other where other: "bt_get (tasks_by_id spec) (wt_id step) = Some other"
    using bt_get_dom by metis
  from tasks_sound [OF this] assms have "other = step" by (auto simp: distinct_map inj_on_def)
  with other show ?thesis by simp
qed

lemma tasks_get_iff:
  assumes "distinct (map wt_id (ws_steps spec))"
  shows "bt_get (tasks_by_id spec) i = Some step \<longleftrightarrow> step \<in> set (ws_steps spec) \<and> wt_id step = i"
  using tasks_get [OF assms] tasks_sound by blast

lemma task_edges_iff:
  "PlanEdge p i \<in> set (task_edges spec) \<longleftrightarrow> (\<exists>step \<in> set (ws_steps spec). wt_id step = i \<and> p \<in> set (task_parents step))"
  by (force simp: task_edges_def bt_keys_def image_iff)

lemma task_edges_sorted: "sorted_wrt (<) (task_edges spec)"
proof -
  have "bt_ok (bt_collect (concat (map (\<lambda>step. map (\<lambda>parent. (PlanEdge parent (wt_id step), ())) (task_parents step))
      (ws_steps spec))))" by (rule bt_ok_collect)
  then show ?thesis by (simp add: bt_ok_def bt_keys_def task_edges_def)
qed

text \<open>A plan that has nothing but the edges of the definition.\<close>

definition edges_only :: "workflow_spec \<Rightarrow> execution_plan" where
  "edges_only spec =
     \<lparr>plan_id = [], plan_kind = WorkflowKind, plan_name = [], plan_revision = [],
      plan_steps = [], plan_edges = task_edges spec\<rparr>"

definition dependencies :: "workflow_spec \<Rightarrow> (string \<times> string) set" where
  "dependencies spec = {(p, wt_id step) | p step. step \<in> set (ws_steps spec) \<and> p \<in> set (task_parents step)}"

lemma cycle_found:
  assumes "\<forall>step \<in> set (ws_steps spec). set (task_parents step) \<subseteq> wt_id ` set (ws_steps spec)"
  shows "snd (order_rounds (task_edges spec) (bt_keys (tasks_by_id spec))) \<longleftrightarrow> \<not> acyclic (dependencies spec)"
proof -
  have dep: "(a, b) \<in> dependencies spec \<longleftrightarrow> PlanEdge a b \<in> set (task_edges spec)" for a b
    by (auto simp: task_edges_iff dependencies_def)
  have "a \<in> wt_id ` set (ws_steps spec) \<and> b \<in> wt_id ` set (ws_steps spec)" if "(a, b) \<in> dependencies spec" for a b
    using that assms by (auto simp: dependencies_def subset_iff)
  then have "(a, b) \<in> edge_rel (edges_only spec) (wt_id ` set (ws_steps spec)) \<longleftrightarrow> (a, b) \<in> dependencies spec" for a b
    using dep by (auto simp: edge_rel_iff edges_only_def)
  then have "edge_rel (edges_only spec) (wt_id ` set (ws_steps spec)) = dependencies spec" by auto
  moreover have "set (bt_keys (tasks_by_id spec)) = wt_id ` set (ws_steps spec)"
    by (simp add: bt_keys_def tasks_ids)
  ultimately show ?thesis
    using order_rounds_cyclic [of "edges_only spec" "task_edges spec" "bt_keys (tasks_by_id spec)"]
    by (simp add: edges_only_def acyclic_loop_correct)
qed

subsection \<open>What is accepted\<close>

definition task_ok :: "workflow_task \<Rightarrow> bool" where
  "task_ok step \<longleftrightarrow>
     valid_name (wt_id step) \<and>
     (case wt_approval step of
        Some gate \<Rightarrow>
          question_problems (wt_id step) (ag_prompt gate) (ag_role gate) (ag_choices gate)
            (ag_timeout_seconds gate) (ag_on_timeout gate) = [] \<and>
          wt_task_ref step = [] \<and> wt_queue step = [] \<and> wt_pod step = None \<and> wt_outputs step = [] \<and>
          wt_timeout_seconds step = 0 \<and> wt_retry step = retry_default
      | None \<Rightarrow>
          valid_name (wt_queue step) \<and> task_ref_ok (wt_task_ref step) \<and>
          0 < wt_timeout_seconds step \<and> wt_timeout_seconds step \<le> 604800 \<and>
          0 < max_attempts (wt_retry step) \<and> 0 < max_unavailable_attempts (wt_retry step) \<and>
          list_all valid_name (wt_outputs step) \<and> distinct (wt_outputs step) \<and>
          is_none_or (\<lambda>pod. pod_request_problems (wt_id step) pod = []) (wt_pod step))"

definition references_ok :: "workflow_spec \<Rightarrow> workflow_task \<Rightarrow> bool" where
  "references_ok spec step \<longleftrightarrow>
     (\<forall>given \<in> set (wt_inputs step). \<exists>source \<in> set (ws_steps spec).
        wt_id source = wi_step given \<and> wi_output given \<in> set (wt_outputs source)) \<and>
     distinct (map wi_output (wt_inputs step)) \<and>
     (\<forall>parent \<in> set (wt_after step). \<exists>source \<in> set (ws_steps spec). wt_id source = parent)"

definition workflow_ok :: "workflow_spec \<Rightarrow> bool" where
  "workflow_ok spec \<longleftrightarrow>
     valid_name (ws_name spec) \<and> CHR 0x40 \<notin> set (ws_name spec) \<and>
     valid_name (ws_version spec) \<and> CHR 0x40 \<notin> set (ws_version spec) \<and>
     1 \<le> length (ws_steps spec) \<and> length (ws_steps spec) \<le> 256 \<and>
     distinct (map wt_id (ws_steps spec)) \<and>
     (\<forall>step \<in> set (ws_steps spec). task_ok step \<and> references_ok spec step) \<and>
     acyclic (dependencies spec)"

lemma list_filter_Nil [simp]:
  "List.map_filter f [] = []"
  "List.map_filter f (x # xs) = [] \<longleftrightarrow> f x = None \<and> List.map_filter f xs = []"
  by (simp_all add: List.map_filter_simps split: option.splits)

lemma work_problems_Nil:
  "work_problems step = [] \<longleftrightarrow>
     valid_name (wt_queue step) \<and> task_ref_ok (wt_task_ref step) \<and>
     0 < wt_timeout_seconds step \<and> wt_timeout_seconds step \<le> 604800 \<and>
     0 < max_attempts (wt_retry step) \<and> 0 < max_unavailable_attempts (wt_retry step) \<and>
     list_all valid_name (wt_outputs step) \<and> distinct (wt_outputs step) \<and>
     is_none_or (\<lambda>pod. pod_request_problems (wt_id step) pod = []) (wt_pod step)"
proof -
  have "card (set (wt_outputs step)) = length (wt_outputs step) \<longleftrightarrow> distinct (wt_outputs step)"
    by (metis card_distinct distinct_card)
  moreover have "list_ex (\<lambda>given. \<not> valid_name given) (wt_outputs step) \<longleftrightarrow> \<not> list_all valid_name (wt_outputs step)"
    by (auto simp: list_ex_iff list_all_iff)
  ultimately show ?thesis
    by (cases "wt_pod step") (auto simp: work_problems_def word_gt_0 not_le [symmetric])
qed

lemma gate_problems_Nil:
  "gate_problems step gate = [] \<longleftrightarrow>
     question_problems (wt_id step) (ag_prompt gate) (ag_role gate) (ag_choices gate)
       (ag_timeout_seconds gate) (ag_on_timeout gate) = [] \<and>
     wt_task_ref step = [] \<and> wt_queue step = [] \<and> wt_pod step = None \<and> wt_outputs step = [] \<and>
     wt_timeout_seconds step = 0 \<and> wt_retry step = retry_default"
  by (auto simp: gate_problems_def split: if_splits)

lemma input_problems_Nil:
  "input_problems tasks i seen inputs = [] \<longleftrightarrow>
     (\<forall>given \<in> set inputs. \<exists>source. bt_get tasks (wi_step given) = Some source \<and> wi_output given \<in> set (wt_outputs source))
     \<and> distinct (map wi_output inputs) \<and> set (map wi_output inputs) \<inter> set seen = {}"
  by (induction tasks i seen inputs rule: input_problems.induct) (auto simp: is_some_and_iff split: if_splits)

lemma parents_known:
  "List.map_filter (\<lambda>parent. if bt_get (tasks_by_id spec) parent = None then Some (DependencyUnknown i parent) else None) parents = []
   \<longleftrightarrow> set parents \<subseteq> wt_id ` set (ws_steps spec)"
  by (induction parents) (auto simp: bt_get_None_iff tasks_ids)

lemma task_problems_Nil:
  assumes "distinct (map wt_id (ws_steps spec))"
  shows "task_problems (tasks_by_id spec) step = [] \<longleftrightarrow> task_ok step \<and> references_ok spec step"
proof -
  have source: "(\<exists>source. bt_get (tasks_by_id spec) i = Some source \<and> P source)
      \<longleftrightarrow> (\<exists>source \<in> set (ws_steps spec). wt_id source = i \<and> P source)" for i P
    using tasks_sound tasks_get [OF assms] by metis
  have own: "(if \<not> valid_name (wt_id step) then [StepIdMalformed (wt_id step)] else []) = []
      \<and> (case wt_approval step of Some gate \<Rightarrow> gate_problems step gate | None \<Rightarrow> work_problems step) = []
      \<longleftrightarrow> task_ok step"
    by (cases "wt_approval step") (auto simp: task_ok_def gate_problems_Nil work_problems_Nil)
  have refs: "input_problems (tasks_by_id spec) (wt_id step) [] (wt_inputs step) = []
      \<and> set (task_parents step) \<subseteq> wt_id ` set (ws_steps spec) \<longleftrightarrow> references_ok spec step"
  proof -
    have "set (map wi_step (wt_inputs step)) \<subseteq> wt_id ` set (ws_steps spec)"
      if "\<forall>given \<in> set (wt_inputs step). \<exists>source \<in> set (ws_steps spec).
            wt_id source = wi_step given \<and> wi_output given \<in> set (wt_outputs source)"
      using that by (auto simp: image_iff) metis
    moreover have "set (wt_after step) \<subseteq> wt_id ` set (ws_steps spec) \<longleftrightarrow>
        (\<forall>parent \<in> set (wt_after step). \<exists>source \<in> set (ws_steps spec). wt_id source = parent)"
      by (auto simp: subset_iff image_iff)
    ultimately show ?thesis
      unfolding input_problems_Nil source references_ok_def task_parents_def set_append Un_subset_iff
      by simp blast
  qed
  show ?thesis
    unfolding task_problems_def append_is_Nil_conv parents_known own [symmetric] refs [symmetric] by blast
qed

lemma header_problems_Nil:
  "header_problems spec = [] \<longleftrightarrow>
     valid_name (ws_name spec) \<and> CHR 0x40 \<notin> set (ws_name spec) \<and>
     valid_name (ws_version spec) \<and> CHR 0x40 \<notin> set (ws_version spec) \<and>
     1 \<le> length (ws_steps spec) \<and> length (ws_steps spec) \<le> 256 \<and> distinct (map wt_id (ws_steps spec))"
  unfolding header_problems_def tasks_unique
  by (cases "ws_steps spec") (auto simp: not_less split: if_splits)

lemma workflow_problems_Nil: "workflow_problems spec = [] \<longleftrightarrow> workflow_ok spec"
proof (cases "distinct (map wt_id (ws_steps spec))")
  case True
  have refs: "references_ok spec step \<Longrightarrow> set (task_parents step) \<subseteq> wt_id ` set (ws_steps spec)" for step
    by (auto simp: references_ok_def task_parents_def image_iff) metis
  show ?thesis
  proof (cases "\<forall>step \<in> set (ws_steps spec). task_ok step \<and> references_ok spec step")
    case all: True
    with refs cycle_found [of spec] True show ?thesis
      by (simp add: workflow_problems_def header_problems_Nil task_problems_Nil [OF True] workflow_ok_def)
  next
    case False
    then show ?thesis
      by (auto simp: workflow_problems_def task_problems_Nil [OF True] workflow_ok_def)
  qed
qed (auto simp: workflow_problems_def header_problems_Nil workflow_ok_def)

lemma compiles_well_formed:
  "(\<exists>plan. compile_workflow_spec C plan_json spec_json spec = Inr plan) \<longleftrightarrow> workflow_ok spec"
  by (simp add: compile_workflow_spec_def workflow_problems_Nil)

text \<open>C27: A definition is compiled exactly when it is well formed: names, one to 256 steps of
  different ids, each step a complete task or a complete gate, each reference to a declared step or
  output, and dependencies without a cycle. Everything else is refused.\<close>

theorem compiles_exactly_the_well_formed:
  "(\<exists>plan. compile_workflow_spec C plan_json spec_json spec = Inr plan) \<longleftrightarrow> workflow_ok spec"
  by (rule compiles_well_formed)

subsection \<open>The sealed plan\<close>

lemma seal_fields [simp]:
  "plan_steps (seal C j kind name revision steps edges) = steps"
  "plan_name (seal C j kind name revision steps edges) = name"
  "plan_kind (seal C j kind name revision steps edges) = kind"
  "plan_revision (seal C j kind name revision steps edges) = revision"
  by (simp_all add: seal_def Let_def)

lemma seal_edge_set [simp]: "set (plan_edges (seal C j kind name revision steps edges)) = set edges"
  by (simp add: seal_edges)

lemma compiledE:
  assumes "compile_workflow_spec C plan_json spec_json spec = Inr plan"
  obtains "workflow_ok spec" and "workflow_problems spec = []"
    and "plan_steps plan = map task_step (ordered_tasks spec)"
    and "set (plan_edges plan) = set (task_edges spec)"
    and "plan_name plan = ws_name spec" and "plan_kind plan = WorkflowKind"
    and "plan_revision plan = spec_revision C spec_json spec"
  using assms by (auto simp: compile_workflow_spec_def workflow_problems_Nil split: if_splits)

lemma map_filter_get:
  "set ids \<subseteq> wt_id ` set (ws_steps spec) \<Longrightarrow> map wt_id (List.map_filter (bt_get (tasks_by_id spec)) ids) = ids"
proof (induction ids)
  case (Cons i ids)
  then have "i \<in> fst ` set (tasks_by_id spec)" by (simp add: tasks_ids)
  then obtain step where "bt_get (tasks_by_id spec) i = Some step" using bt_get_dom by metis
  with Cons tasks_sound [OF this] show ?case by (simp add: List.map_filter_simps)
qed simp

lemma ordered_ids: "map wt_id (ordered_tasks spec) = fst (order_rounds (task_edges spec) (bt_keys (tasks_by_id spec)))"
proof -
  have "distinct (bt_keys (tasks_by_id spec))" by (simp add: bt_keys_def tasks_by_id_def bt_ok_distinct)
  from order_rounds_parts [OF this, of "task_edges spec"]
  have "set (fst (order_rounds (task_edges spec) (bt_keys (tasks_by_id spec)))) \<subseteq> wt_id ` set (ws_steps spec)"
    by (auto simp: bt_keys_def tasks_ids [symmetric])
  then show ?thesis unfolding ordered_tasks_def by (rule map_filter_get)
qed

lemma ordered_complete:
  assumes "workflow_problems spec = []"
  shows "distinct (map wt_id (ordered_tasks spec))" and "set (ordered_tasks spec) = set (ws_steps spec)"
proof -
  have keys: "distinct (bt_keys (tasks_by_id spec))" by (simp add: bt_keys_def tasks_by_id_def bt_ok_distinct)
  have "\<not> snd (order_rounds (task_edges spec) (bt_keys (tasks_by_id spec)))"
    using assms by (auto simp: workflow_problems_def split: if_splits)
  with order_rounds_parts [OF keys, of "task_edges spec"]
  have "distinct (map wt_id (ordered_tasks spec)) \<and> set (map wt_id (ordered_tasks spec)) = set (bt_keys (tasks_by_id spec))"
    unfolding ordered_ids by blast
  then have parts: "distinct (map wt_id (ordered_tasks spec))"
    "wt_id ` set (ordered_tasks spec) = wt_id ` set (ws_steps spec)"
    by (simp_all add: bt_keys_def tasks_ids)
  show "distinct (map wt_id (ordered_tasks spec))" by (rule parts(1))
  have ids: "distinct (map wt_id (ws_steps spec))"
    using assms by (simp add: workflow_problems_Nil workflow_ok_def)
  have sub: "step \<in> set (ws_steps spec)" if "step \<in> set (ordered_tasks spec)" for step
    using that tasks_sound by (fastforce simp: ordered_tasks_def List.map_filter_def)
  moreover have "step \<in> set (ordered_tasks spec)" if step: "step \<in> set (ws_steps spec)" for step
  proof -
    obtain other where other: "other \<in> set (ordered_tasks spec)" "wt_id other = wt_id step"
      using parts(2) step by (metis imageE imageI)
    with sub step ids have "other = step" by (auto simp: distinct_map inj_on_def)
    with other show ?thesis by simp
  qed
  ultimately show "set (ordered_tasks spec) = set (ws_steps spec)" by blast
qed

text \<open>Where a plan lists its steps so that each comes after every step it depends on.\<close>

definition parents_listed_first :: "execution_plan \<Rightarrow> bool" where
  "parents_listed_first plan \<longleftrightarrow>
     (\<forall>before step after. plan_steps plan = before @ step # after \<longrightarrow>
        (\<forall>p \<in> set (parents_of plan (ps_id step)). p \<in> ps_id ` set before))"

text \<open>Each input of each step is an output that one of the step's parents declares.\<close>

definition inputs_declared :: "execution_plan \<Rightarrow> bool" where
  "inputs_declared plan \<longleftrightarrow>
     (\<forall>step \<in> set (plan_steps plan). \<forall>given \<in> set (ps_inputs step).
        \<exists>source name. given = FromStep (ps_id source) name \<and> source \<in> set (plan_steps plan) \<and>
          name \<in> out_name ` set (ps_outputs source) \<and> ps_id source \<in> set (parents_of plan (ps_id step)))"

lemma task_step_fields [simp]:
  "ps_id (task_step step) = wt_id step"
  "ps_inputs (task_step step) = map (\<lambda>given. FromStep (wi_step given) (wi_output given)) (wt_inputs step)"
  "out_name ` set (ps_outputs (task_step step)) = set (wt_outputs step)"
  "ps_runtime (task_step step) = task_runtime step"
  by (simp_all add: task_step_def image_image)

lemma compiled_ids: "map ps_id (map task_step steps) = map wt_id steps"
  by (simp add: comp_def)

lemma compiled_parents_first:
  assumes "compile_workflow_spec C plan_json spec_json spec = Inr plan"
  shows "parents_listed_first plan"
proof -
  obtain ok: "workflow_ok spec" "workflow_problems spec = []"
    and plan: "plan_steps plan = map task_step (ordered_tasks spec)" "set (plan_edges plan) = set (task_edges spec)"
    using assms by (rule compiledE)
  have keys: "distinct (bt_keys (tasks_by_id spec))" by (simp add: bt_keys_def tasks_by_id_def bt_ok_distinct)
  have "p \<in> ps_id ` set before"
    if split: "plan_steps plan = before @ step # after" and p: "p \<in> set (parents_of plan (ps_id step))"
    for before step after p
  proof -
    have "map ps_id (plan_steps plan) = fst (order_rounds (task_edges spec) (bt_keys (tasks_by_id spec)))"
      by (simp only: plan compiled_ids ordered_ids)
    then have ids: "fst (order_rounds (task_edges spec) (bt_keys (tasks_by_id spec)))
        = map ps_id before @ ps_id step # map ps_id after"
      using split by simp
    have edge: "PlanEdge p (ps_id step) \<in> set (task_edges spec)"
      using p plan(2) by (simp add: parents_of_iff)
    then have "p \<in> wt_id ` set (ws_steps spec)"
      using ok(1) by (auto simp: task_edges_iff workflow_ok_def references_ok_def task_parents_def image_iff) metis+
    then have "p \<in> set (bt_keys (tasks_by_id spec))" by (simp add: bt_keys_def tasks_ids)
    from order_rounds_parents_first [OF ids edge this keys] show ?thesis by simp
  qed
  then show ?thesis by (auto simp: parents_listed_first_def)
qed

lemma compiled_inputs:
  assumes "compile_workflow_spec C plan_json spec_json spec = Inr plan"
  shows "inputs_declared plan"
proof -
  obtain ok: "workflow_ok spec" "workflow_problems spec = []"
    and plan: "plan_steps plan = map task_step (ordered_tasks spec)" "set (plan_edges plan) = set (task_edges spec)"
    using assms by (rule compiledE)
  note steps = ordered_complete(2) [OF ok(2)]
  have "\<exists>source name. FromStep (wi_step given) (wi_output given) = FromStep (ps_id source) name \<and>
      source \<in> set (plan_steps plan) \<and> name \<in> out_name ` set (ps_outputs source) \<and>
      ps_id source \<in> set (parents_of plan (wt_id step))"
    if step: "step \<in> set (ws_steps spec)" and given: "given \<in> set (wt_inputs step)" for step given
  proof -
    obtain source where source: "source \<in> set (ws_steps spec)" "wt_id source = wi_step given"
      "wi_output given \<in> set (wt_outputs source)"
      using ok(1) step given unfolding workflow_ok_def references_ok_def by blast
    have "PlanEdge (wi_step given) (wt_id step) \<in> set (task_edges spec)"
      unfolding task_edges_iff using step given by (intro bexI [of _ step]) (auto simp: task_parents_def)
    with source show ?thesis
      by (intro exI [of _ "task_step source"] exI [of _ "wi_output given"])
        (simp add: plan parents_of_iff steps)
  qed
  then show ?thesis by (auto simp: inputs_declared_def plan steps)
qed

subsection \<open>What the engine may rely on\<close>

lemma compiled_in_order:
  assumes "compile_workflow_spec C plan_json spec_json spec = Inr plan"
  shows "distinct (map ps_id (plan_steps plan)) \<and> ps_id ` set (plan_steps plan) = wt_id ` set (ws_steps spec)
    \<and> parents_listed_first plan \<and> edges_known plan \<and> is_acyclic plan \<and> inputs_declared plan
    \<and> plan_steps plan \<noteq> []"
proof -
  obtain ok: "workflow_ok spec" "workflow_problems spec = []"
    and plan: "plan_steps plan = map task_step (ordered_tasks spec)" "set (plan_edges plan) = set (task_edges spec)"
    using assms by (rule compiledE)
  note steps = ordered_complete [OF ok(2)]
  have ids: "ps_id ` set (plan_steps plan) = wt_id ` set (ws_steps spec)"
    by (simp add: plan steps image_image)
  have edge: "edge_from e \<in> wt_id ` set (ws_steps spec) \<and> edge_to e \<in> wt_id ` set (ws_steps spec)"
    if "e \<in> set (task_edges spec)" for e
  proof -
    have "PlanEdge (edge_from e) (edge_to e) \<in> set (task_edges spec)" using that by simp
    then obtain step where "step \<in> set (ws_steps spec)" "wt_id step = edge_to e"
      "edge_from e \<in> set (task_parents step)" unfolding task_edges_iff by blast
    with ok(1) show ?thesis
      by (auto simp: workflow_ok_def references_ok_def task_parents_def image_iff) metis+
  qed
  have "edge_rel plan (ps_id ` set (plan_steps plan)) = dependencies spec"
  proof -
    have "(a, b) \<in> dependencies spec \<longleftrightarrow> PlanEdge a b \<in> set (task_edges spec)" for a b
      by (auto simp: task_edges_iff dependencies_def)
    with edge show ?thesis by (fastforce simp: edge_rel_iff ids plan(2))
  qed
  then have "is_acyclic plan" using ok(1) by (simp add: is_acyclic_edges workflow_ok_def)
  moreover have "edges_known plan" using edge by (auto simp: edges_known_def list_all_iff plan(2) ids)
  moreover have "distinct (map ps_id (plan_steps plan))" using steps(1) by (simp add: plan comp_def)
  moreover have "plan_steps plan \<noteq> []" using ids ok(1) by (auto simp: workflow_ok_def)
  ultimately show ?thesis using ids compiled_parents_first [OF assms] compiled_inputs [OF assms] by blast
qed

text \<open>C28: The plan an accepted definition compiles to has one step for each authored step, each listed
  after all the steps it depends on, no edge from outside the plan and no cycle, and every input of
  every step is an output that one of the step's parents declares.\<close>

theorem compiled_workflow_is_in_order:
  assumes "compile_workflow_spec C plan_json spec_json spec = Inr plan"
  shows "distinct (map ps_id (plan_steps plan)) \<and> ps_id ` set (plan_steps plan) = wt_id ` set (ws_steps spec)
    \<and> parents_listed_first plan \<and> edges_known plan \<and> is_acyclic plan \<and> inputs_declared plan"
  using compiled_in_order [OF assms] by blast

text \<open>Every gate of a compiled plan asks a question without problems.\<close>

lemma compiled_gates_ok:
  assumes "compile_workflow_spec C plan_json spec_json spec = Inr plan"
    and "step \<in> set (plan_steps plan)" and "ps_runtime step = HumanInput gate"
  shows "gate_ok (ps_id step) gate"
proof -
  obtain ok: "workflow_ok spec" "workflow_problems spec = []"
    and plan: "plan_steps plan = map task_step (ordered_tasks spec)"
    using assms(1) by (rule compiledE)
  then obtain task where task: "task \<in> set (ws_steps spec)" "step = task_step task"
    using assms(2) ordered_complete(2) [OF ok(2)] by auto
  then obtain asked where asked: "wt_approval task = Some asked"
    using assms(3) by (auto simp: task_runtime_def split: option.splits)
  have "task_ok task" using ok(1) task(1) by (simp add: workflow_ok_def)
  with asked show ?thesis
    using assms(3) by (auto simp: task(2) task_ok_def gate_ok_def task_runtime_def)
qed

lemma start_accepted:
  assumes "plan_steps (st_plan r) \<noteq> []" and "is_acyclic (st_plan r)"
    and "distinct (map ps_id (plan_steps (st_plan r)))"
  shows "\<exists>out e. decide C Empty (Command (StartExecution r)) cause now = Inr out \<and>
    replay (events_of out) = Active e \<and> reachable C e \<and> ex_plan e = st_plan r"
proof -
  have "\<exists>out. decide C Empty (Command (StartExecution r)) cause now = Inr out"
    using assms(1,2) by (simp add: decide_start_def Let_def)
  then obtain out where out: "decide C Empty (Command (StartExecution r)) cause now = Inr out" ..
  have e: "replay (events_of out) = Active (apply_all (started_execution r) (dispatch_events C (started_execution r) now))"
    by (rule start_replay [OF out])
  have "ex_plan (apply_all (started_execution r) (dispatch_events C (started_execution r) now)) = st_plan r" by simp
  with e out reachable.start [OF out assms(3) e] show ?thesis by blast
qed

text \<open>C29: A compiled workflow is one the engine carries. Its start is never refused, and the run it begins
  is one of the runs the engine's theorems speak of. A run of it in compiled mode, one the engine decides
  and no worker, that says it is running and is not being cancelled has some step pending, running or
  waiting for an answer, as long as every report came from the current attempt of a step that had not
  ended. And each question it stops at can be answered when it is asked.\<close>

theorem compiled_workflow_is_carried:
  assumes "compile_workflow_spec C plan_json spec_json spec = Inr plan" and "st_plan r = plan"
  shows "(\<exists>out e. decide C Empty (Command (StartExecution r)) cause now = Inr out \<and>
            replay (events_of out) = Active e \<and> reachable C e \<and> ex_plan e = plan)
    \<and> (\<forall>e. reachable C e \<and> ex_plan e = plan \<and> ex_mode e = Compiled \<and> \<not> ex_cancelling e
           \<and> state_type (ex_state e) = Running \<longrightarrow>
         (\<exists>i s. ex_step e i = Some s \<and> state_type (ss_state s) \<in> {Pending, Running, AwaitingInput}))
    \<and> (\<forall>step gate. step \<in> set (plan_steps plan) \<and> ps_runtime step = HumanInput gate \<longrightarrow>
         gate_ok (ps_id step) gate)"
proof -
  have facts: "distinct (map ps_id (plan_steps plan))" "edges_known plan" "is_acyclic plan" "plan_steps plan \<noteq> []"
    using compiled_in_order [OF assms(1)] by auto
  have "\<exists>out e. decide C Empty (Command (StartExecution r)) cause now = Inr out \<and>
      replay (events_of out) = Active e \<and> reachable C e \<and> ex_plan e = plan"
    using start_accepted [of r C cause now] facts by (simp add: assms(2))
  moreover have "\<exists>i s. ex_step e i = Some s \<and> state_type (ss_state s) \<in> {Pending, Running, AwaitingInput}"
    if "reachable C e \<and> ex_plan e = plan \<and> ex_mode e = Compiled \<and> \<not> ex_cancelling e
      \<and> state_type (ex_state e) = Running" for e
    using that facts(2) by (intro running_has_work) auto
  ultimately show ?thesis using compiled_gates_ok [OF assms(1)] by blast
qed

subsection \<open>The order of authoring\<close>

lemma bt_ext:
  assumes "bt_ok m" and "bt_ok m'" and "bt_get m = bt_get m'"
  shows "m = m'"
proof -
  have "fst ` set m = fst ` set m'" using assms(3) by (metis bt_get_None_iff subsetI subset_antisym)
  then have keys: "map fst m = map fst m'"
    using assms(1,2) by (intro strict_sorted_equal) (simp_all add: bt_ok_def)
  have entries: "map (\<lambda>k. (k, the (bt_get l k))) (map fst l) = l" if "bt_ok l" for l :: "('a, 'b) btree"
  proof -
    have "(fst kv, the (bt_get l (fst kv))) = kv" if "kv \<in> set l" for kv
      using bt_in_set_get [OF \<open>bt_ok l\<close>, of "fst kv" "snd kv"] that by simp
    then show ?thesis by (simp add: map_idI comp_def)
  qed
  show ?thesis using entries [OF assms(1)] entries [OF assms(2)] keys assms(3) by metis
qed

lemma tasks_permuted:
  assumes "mset (ws_steps a) = mset (ws_steps b)" and "distinct (map wt_id (ws_steps a))"
  shows "tasks_by_id a = tasks_by_id b"
proof (rule bt_ext)
  have set: "set (ws_steps a) = set (ws_steps b)" using assms(1) by (rule mset_eq_setD)
  have "mset (map wt_id (ws_steps a)) = mset (map wt_id (ws_steps b))" using assms(1) by simp
  with assms(2) have ids: "distinct (map wt_id (ws_steps b))" by (metis mset_eq_imp_distinct_iff)
  have same: "bt_get (tasks_by_id a) i = Some step \<longleftrightarrow> bt_get (tasks_by_id b) i = Some step" for i step
    using tasks_get_iff [OF assms(2)] tasks_get_iff [OF ids] set by simp
  show "bt_get (tasks_by_id a) = bt_get (tasks_by_id b)"
  proof
    fix i
    show "bt_get (tasks_by_id a) i = bt_get (tasks_by_id b) i"
      using same [of i] by (metis option.exhaust)
  qed
qed (simp_all add: tasks_by_id_def)

text \<open>The order in which steps are written does not matter: two definitions that differ in it are
  accepted or refused alike, and compile to the same steps in the same order with the same edges.\<close>

theorem authoring_order_is_irrelevant:
  assumes "mset (ws_steps a) = mset (ws_steps b)" and "ws_name a = ws_name b" and "ws_version a = ws_version b"
    and "compile_workflow_spec C plan_json spec_json a = Inr plan"
  shows "\<exists>plan'. compile_workflow_spec C plan_json spec_json b = Inr plan'
    \<and> plan_steps plan' = plan_steps plan \<and> plan_edges plan' = plan_edges plan"
proof -
  obtain ok: "workflow_ok a" using assms(4) by (rule compiledE)
  have set: "set (ws_steps a) = set (ws_steps b)" using assms(1) by (rule mset_eq_setD)
  have tasks: "tasks_by_id a = tasks_by_id b"
    using ok assms(1) by (intro tasks_permuted) (simp_all add: workflow_ok_def)
  have edges: "task_edges a = task_edges b"
  proof (rule strict_sorted_equal)
    have "PlanEdge p i \<in> set (task_edges a) \<longleftrightarrow> PlanEdge p i \<in> set (task_edges b)" for p i
      by (simp add: task_edges_iff set)
    then show "set (task_edges a) = set (task_edges b)" by (metis plan_edge.exhaust subsetI subset_antisym)
  qed (rule task_edges_sorted)+
  have "workflow_ok b"
  proof -
    have "mset (map wt_id (ws_steps a)) = mset (map wt_id (ws_steps b))" using assms(1) by simp
    then have "distinct (map wt_id (ws_steps b))"
      using ok mset_eq_imp_distinct_iff by (metis workflow_ok_def)
    moreover have "length (ws_steps a) = length (ws_steps b)" using assms(1) by (rule mset_eq_length)
    ultimately show ?thesis
      using ok set assms(2,3) by (simp add: workflow_ok_def references_ok_def dependencies_def)
  qed
  then obtain plan' where plan': "compile_workflow_spec C plan_json spec_json b = Inr plan'"
    using compiles_well_formed by blast
  have "ordered_tasks a = ordered_tasks b" by (simp add: ordered_tasks_def tasks edges)
  then show ?thesis
    using plan' assms(4) edges by (auto simp: compile_workflow_spec_def seal_edges split: if_splits)
qed

end
