(* ===== verification/Pods_Props.thy ===== *)
theory Pods_Props
  imports Pods
begin

text \<open>
  What the checks of a pod promise. A quantity that is read is the number written, rounded up, in
  millicores or bytes. Where the templates of a deployment passed their check and a plan's pods are
  not refused, each container runs an image of its template's list with no more than the ceiling
  the operator wrote, and one attempt has one job name, which Kubernetes can hold.
\<close>

subsection \<open>Quantities\<close>

lemma div_ceil_bounds:
  assumes "0 < d"
  shows "n \<le> div_ceil n d * d" and "(div_ceil n d - 1) * d < n"
proof -
  define q m where "q = n div d" and "m = n mod d"
  have n: "n = q * d + m" by (simp add: q_def m_def)
  have m: "0 \<le> m" "m < d" using assms by (simp_all add: m_def)
  have c: "div_ceil n d = q + (if m = 0 then 0 else 1)" by (simp add: div_ceil_def q_def m_def)
  show "n \<le> div_ceil n d * d" unfolding c using n m by (simp add: algebra_simps)
  show "(div_ceil n d - 1) * d < n" unfolding c using n m assms by (simp add: algebra_simps)
qed

lemma u128_digits_nonneg:
  assumes "list_all is_ascii_digit s"
  shows "0 \<le> u128_digits s"
proof -
  have "0 \<le> foldl (\<lambda>n c. 10 * n + (of_char c - 48)) n s" if "0 \<le> n" for n :: int
    using assms that
  proof (induction s arbitrary: n)
    case (Cons c s)
    have "(48 :: nat) \<le> of_char c" using Cons.prems(1) by (simp add: is_ascii_digit_def)
    then have "int 48 \<le> int (of_char c)" by (simp only: of_nat_le_iff)
    then have "(48 :: int) \<le> of_char c" by (simp add: of_nat_of_char)
    with Cons show ?case by simp
  qed simp
  then show ?thesis by (simp add: u128_digits_def)
qed

lemma split_once_None: "split_once c s = None \<longleftrightarrow> c \<notin> set s"
  by (induction s) auto

lemma split_once_first: "split_once c s = Some (a, b) \<Longrightarrow> c \<notin> set a"
  by (induction s arbitrary: a b) (auto split: if_splits)

lemma unit_nonneg: "quantity_unit r suffix = Some unit \<Longrightarrow> 0 \<le> unit"
  by (cases r) (auto simp: quantity_unit_def memory_units_def split: if_splits dest!: map_of_SomeD)

lemma checked128_Some [simp]: "checked128 n = Some m \<longleftrightarrow> m = n \<and> n < 2 ^ 128"
  by (auto simp: checked128_def)

lemma split_once_Some: "split_once c s = Some (a, b) \<Longrightarrow> s = a @ c # b"
  by (induction s arbitrary: a b) (auto split: if_splits)

text \<open>The number as it stands in the text: the digits before the point and the digits after it.\<close>

definition written :: "string \<Rightarrow> string \<Rightarrow> string \<Rightarrow> string" where
  "written whole fraction suffix =
     whole @ (if fraction = [] then [] else CHR ''.'' # fraction) @ suffix"

lemma quantity_parse_spec:
  assumes "quantity_parse r raw = Inr v"
  shows "\<exists>whole fraction suffix unit.
    raw = written whole fraction suffix \<and> quantity_unit r suffix = Some unit \<and>
    v = div_ceil ((u128_digits whole * 10 ^ length fraction + u128_digits fraction) * unit) (10 ^ length fraction)
    \<and> 0 < v"
proof -
  let ?counts = "\<lambda>c. is_ascii_digit c \<or> c = CHR ''.''"
  define number where "number = takeWhile ?counts raw"
  define suffix where "suffix = dropWhile ?counts raw"
  have raw: "raw = number @ suffix" by (simp add: number_def suffix_def)
  obtain whole fraction where split:
    "(case split_once CHR ''.'' number of None \<Rightarrow> (number, []) | Some p \<Rightarrow> p) = (whole, fraction)"
    by (metis surj_pair)
  have ok: "\<not> (number \<noteq> [] \<and> last number = CHR ''.'')"
    using assms unfolding quantity_parse_def Let_def
    by (auto simp: number_def [symmetric] split: if_splits prod.splits)
  have number: "number = whole @ (if fraction = [] then [] else CHR ''.'' # fraction)"
  proof (cases "split_once CHR ''.'' number")
    case None
    with split show ?thesis by simp
  next
    case (Some p)
    with split have p: "p = (whole, fraction)" by simp
    from Some p have n: "number = whole @ CHR ''.'' # fraction" by (simp add: split_once_Some)
    with ok have "fraction \<noteq> []" by auto
    with n show ?thesis by simp
  qed
  have "list_all is_ascii_digit whole"
  proof -
    have "?counts c" if "c \<in> set number" for c
      using set_takeWhileD [of c ?counts raw] that by (simp add: number_def)
    moreover have "set whole \<subseteq> set number" using number by auto
    moreover have "CHR ''.'' \<notin> set whole"
    proof (cases "split_once CHR ''.'' number")
      case None
      with split show ?thesis by (simp add: split_once_None)
    next
      case (Some p)
      with split split_once_first [of "CHR ''.''" number "fst p" "snd p"] show ?thesis by simp
    qed
    ultimately show ?thesis unfolding list_all_iff by blast
  qed
  then have whole: "0 \<le> u128_digits whole" by (rule u128_digits_nonneg)
  have fraction: "0 \<le> u128_digits fraction"
  proof (rule u128_digits_nonneg)
    show "list_all is_ascii_digit fraction"
      using assms unfolding quantity_parse_def Let_def number_def [symmetric] suffix_def [symmetric] split
      by (auto split: if_splits)
  qed
  obtain unit where unit: "quantity_unit r suffix = Some unit"
    using assms unfolding quantity_parse_def Let_def number_def [symmetric] suffix_def [symmetric] split
    by (auto split: if_splits option.splits)
  let ?scaled = "(u128_digits whole * 10 ^ length fraction + u128_digits fraction) * unit"
  have v: "v = div_ceil ?scaled (10 ^ length fraction) \<and> v \<noteq> 0"
    using assms unfolding quantity_parse_def Let_def number_def [symmetric] suffix_def [symmetric] split
    by (auto simp: unit bind_eq_Some_conv split: if_splits option.splits)
  moreover have "0 \<le> v"
  proof -
    have "0 \<le> ?scaled" using whole fraction unit_nonneg [OF unit] by simp
    moreover have "?scaled \<le> v * 10 ^ length fraction"
      using div_ceil_bounds(1) [of "10 ^ length fraction" ?scaled] v by simp
    ultimately have "0 \<le> v * 10 ^ length fraction" by linarith
    moreover have "0 < (10 :: int) ^ length fraction" by simp
    ultimately show ?thesis by (simp only: zero_le_mult_iff) linarith
  qed
  ultimately have "v = div_ceil ?scaled (10 ^ length fraction) \<and> 0 < v" by linarith
  with raw number unit show ?thesis
    by (intro exI [of _ whole] exI [of _ fraction] exI [of _ suffix] exI [of _ unit])
      (simp add: written_def)
qed

text \<open>C34: A quantity that is read is the number written times its unit, rounded up to a whole
  millicore or byte, and never zero: no text is read as a whole unit above what it says.\<close>

theorem quantity_is_rounded_up:
  assumes "quantity_parse r raw = Inr v"
  shows "\<exists>whole fraction suffix unit scale.
    raw = written whole fraction suffix \<and> quantity_unit r suffix = Some unit
    \<and> scale = 10 ^ length fraction \<and> 0 < v
    \<and> (u128_digits whole * scale + u128_digits fraction) * unit \<le> v * scale
    \<and> (v - 1) * scale < (u128_digits whole * scale + u128_digits fraction) * unit"
proof -
  obtain whole fraction suffix unit where w:
    "raw = written whole fraction suffix" "quantity_unit r suffix = Some unit" "0 < v"
    "v = div_ceil ((u128_digits whole * 10 ^ length fraction + u128_digits fraction) * unit) (10 ^ length fraction)"
    using quantity_parse_spec [OF assms] by blast
  have "0 < (10 :: int) ^ length fraction" by simp
  note bounds = div_ceil_bounds [OF this, of "(u128_digits whole * 10 ^ length fraction + u128_digits fraction) * unit"]
  with w show ?thesis by metis
qed

subsection \<open>Templates and requests\<close>

lemma map_filter_Nil: "List.map_filter f xs = [] \<longleftrightarrow> (\<forall>x \<in> set xs. f x = None)"
  by (induction xs) (auto simp: List.map_filter_simps split: option.splits)

lemma section_read_Nil:
  "fst (section_read name section r given) = [] \<longleftrightarrow> (\<forall>s. given = Some s \<longrightarrow> (\<exists>v. quantity_parse r s = Inr v))"
  by (auto simp: section_read_def split: option.splits sum.splits)

text \<open>The value of a text, where it has one.\<close>

definition quantity_of :: "resource \<Rightarrow> string option \<Rightarrow> int option" where
  "quantity_of r given =
     Option.bind given (\<lambda>s. case quantity_parse r s of Inl _ \<Rightarrow> None | Inr v \<Rightarrow> Some v)"

lemma section_read_snd: "snd (section_read name section r given) = quantity_of r given"
  by (auto simp: section_read_def quantity_of_def split: option.splits sum.splits)

lemma resource_problems_of_Nil:
  assumes "resource_problems_of name rs r = []"
  shows "\<exists>m. quantity_of r (rv_get (tr_max rs) r) = Some m
    \<and> (\<forall>s. rv_get (tr_requests rs) r = Some s \<longrightarrow> (\<exists>v. quantity_of r (Some s) = Some v \<and> v \<le> m))
    \<and> (\<forall>s. rv_get (tr_limits rs) r = Some s \<longrightarrow> (\<exists>v. quantity_of r (Some s) = Some v \<and> v \<le> m))
    \<and> \<not> above (quantity_of r (rv_get (tr_requests rs) r)) (quantity_of r (rv_get (tr_limits rs) r))"
proof -
  let ?read = "\<lambda>section given. section_read name section r given"
  have parts: "fst (?read ''requests'' (rv_get (tr_requests rs) r)) = []"
    "fst (?read ''limits'' (rv_get (tr_limits rs) r)) = []"
    "fst (?read ''max'' (rv_get (tr_max rs) r)) = []" "rv_get (tr_max rs) r \<noteq> None"
    "\<not> above (quantity_of r (rv_get (tr_requests rs) r)) (quantity_of r (rv_get (tr_max rs) r))"
    "\<not> above (quantity_of r (rv_get (tr_limits rs) r)) (quantity_of r (rv_get (tr_max rs) r))"
    "\<not> above (quantity_of r (rv_get (tr_requests rs) r)) (quantity_of r (rv_get (tr_limits rs) r))"
    using assms
    by (simp_all add: resource_problems_of_def Let_def case_prod_beta section_read_snd split: if_splits)
  then show ?thesis
    unfolding section_read_Nil by (fastforce simp: quantity_of_def above_def not_less split: option.splits)
qed

lemma template_resources_ok: "template_problems name t = [] \<Longrightarrow> resource_problems_of name (tp_resources t) r = []"
  by (cases r) (auto simp: template_problems_def resource_problems_def)

lemma templates_check_ok:
  "templates_check ts = Inr ts' \<Longrightarrow> bt_get ts name = Some t \<Longrightarrow> template_problems name t = []"
  by (auto simp: templates_check_def Let_def bt_get_def split: if_splits dest!: map_of_SomeD)

definition asked :: "pod_request \<Rightarrow> resource \<Rightarrow> string option" where
  "asked request r = (case r of Cpu \<Rightarrow> pod_cpu request | Memory \<Rightarrow> pod_memory request)"

lemma pod_quantities_mem: "(r, q) \<in> set (pod_quantities request) \<longleftrightarrow> asked request r = Some q"
  by (cases r) (auto simp: pod_quantities_def asked_def List.map_filter_simps split: option.splits)

lemma resources_for_get:
  "rv_get (pr_requests (resources_for t request)) r = pick (asked request r) (rv_get (tr_requests (tp_resources t)) r)"
  "rv_get (pr_limits (resources_for t request)) r = pick (asked request r) (rv_get (tr_limits (tp_resources t)) r)"
  by (cases r; simp add: resources_for_def Let_def asked_def)+

lemma request_refusals_Nil:
  assumes "request_refusals ts step request = []" and "bt_get ts (pod_template request) = Some t"
  shows "(\<exists>im. image_parse (pod_image request) = Some im \<and> template_admits t im)
    \<and> (\<forall>r q. asked request r = Some q \<longrightarrow>
         (\<exists>v. quantity_of r (Some q) = Some v \<and>
            (\<forall>m. quantity_of r (rv_get (tr_max (tp_resources t)) r) = Some m \<longrightarrow> v \<le> m)))"
proof (intro conjI allI impI)
  show "\<exists>im. image_parse (pod_image request) = Some im \<and> template_admits t im"
    using assms by (auto simp: request_refusals_def split: option.splits if_splits)
next
  fix r q
  assume q: "asked request r = Some q"
  then have "(r, q) \<in> set (pod_quantities request)" by (simp add: pod_quantities_mem)
  with assms show "\<exists>v. quantity_of r (Some q) = Some v \<and>
      (\<forall>m. quantity_of r (rv_get (tr_max (tp_resources t)) r) = Some m \<longrightarrow> v \<le> m)"
    by (fastforce simp: request_refusals_def map_filter_Nil Let_def quantity_of_def not_less
        split: option.splits sum.splits if_splits)
qed

lemma plan_refusals_step:
  assumes "plan_refusals plan (Some ts) = []" and "step \<in> set (plan_steps plan)"
    and "ps_runtime step = ContainerJob spec"
  shows "request_refusals ts (ps_id step) (cj_pod spec) = []"
proof -
  have "container_step step = Some (ps_id step, cj_pod spec)"
    using assms(3) by (simp add: container_step_def)
  then have "(ps_id step, cj_pod spec) \<in> set (List.map_filter container_step (plan_steps plan))"
    using assms(2) by (force simp: List.map_filter_def)
  with assms(1) show ?thesis by (fastforce simp: plan_refusals_def)
qed

text \<open>What a container is given of one resource lies under the ceiling of its template: each of the
  two quantities, where there is one, is readable and within it, and the request within the limit.\<close>

definition within_ceiling :: "pod_template \<Rightarrow> pod_resources \<Rightarrow> resource \<Rightarrow> bool" where
  "within_ceiling t given r \<longleftrightarrow>
     (case quantity_of r (rv_get (tr_max (tp_resources t)) r) of
        None \<Rightarrow> False
      | Some m \<Rightarrow>
          (\<forall>q \<in> {rv_get (pr_requests given) r, rv_get (pr_limits given) r}.
             is_none_or (\<lambda>s. is_some_and (\<lambda>v. v \<le> m) (quantity_of r (Some s))) q))
     \<and> \<not> above (quantity_of r (rv_get (pr_requests given) r)) (quantity_of r (rv_get (pr_limits given) r))"

lemma resources_within:
  assumes "resource_problems_of name (tp_resources t) r = []"
    and "\<And>q. asked request r = Some q \<Longrightarrow>
           \<exists>v. quantity_of r (Some q) = Some v \<and>
             (\<forall>m. quantity_of r (rv_get (tr_max (tp_resources t)) r) = Some m \<longrightarrow> v \<le> m)"
  shows "within_ceiling t (resources_for t request) r"
proof -
  obtain m where m: "quantity_of r (rv_get (tr_max (tp_resources t)) r) = Some m"
    and defaults: "\<And>s. rv_get (tr_requests (tp_resources t)) r = Some s \<Longrightarrow> \<exists>v. quantity_of r (Some s) = Some v \<and> v \<le> m"
      "\<And>s. rv_get (tr_limits (tp_resources t)) r = Some s \<Longrightarrow> \<exists>v. quantity_of r (Some s) = Some v \<and> v \<le> m"
      "\<not> above (quantity_of r (rv_get (tr_requests (tp_resources t)) r)) (quantity_of r (rv_get (tr_limits (tp_resources t)) r))"
    using resource_problems_of_Nil [OF assms(1)] by blast
  show ?thesis
  proof (cases "asked request r")
    case None
    have one: "is_none_or (\<lambda>s. is_some_and (\<lambda>v. v \<le> m) (quantity_of r (Some s))) q"
      if "\<And>s. q = Some s \<Longrightarrow> \<exists>v. quantity_of r (Some s) = Some v \<and> v \<le> m" for q
      using that by (cases q) auto
    from None m defaults(3) one [OF defaults(1)] one [OF defaults(2)] show ?thesis
      by (simp add: within_ceiling_def resources_for_get pick_def)
  next
    case (Some q)
    with assms(2) [OF Some] m show ?thesis
      by (auto simp: within_ceiling_def resources_for_get pick_def above_def)
  qed
qed

text \<open>C33: Where the templates loaded and no pod of a plan is refused, the container of every step
  runs an image its template lists, and each request and limit it is given is a quantity within the
  ceiling of the template; a request is never above the limit.\<close>

theorem pods_stay_under_the_ceiling:
  assumes "templates_check ts = Inr ts'" and "plan_refusals plan (Some ts) = []"
    and "step \<in> set (plan_steps plan)" and "ps_runtime step = ContainerJob spec"
  shows "\<exists>t im. bt_get ts (pod_template (cj_pod spec)) = Some t
    \<and> image_parse (pod_image (cj_pod spec)) = Some im \<and> template_admits t im
    \<and> (\<forall>r. within_ceiling t (resources_for t (cj_pod spec)) r)"
proof -
  note free = plan_refusals_step [OF assms(2-4)]
  then obtain t where t: "bt_get ts (pod_template (cj_pod spec)) = Some t"
    by (auto simp: request_refusals_def split: option.splits)
  note request = request_refusals_Nil [OF free t]
  have "within_ceiling t (resources_for t (cj_pod spec)) r" for r
    using request by (intro resources_within [OF template_resources_ok [OF templates_check_ok [OF assms(1) t]]]) blast
  with t request show ?thesis by blast
qed

text \<open>The ceiling bounds what is asked for and what the defaults say, and nothing else: a template
  without a default limit gives a step that asks for nothing no limit at all.\<close>

lemma no_default_no_limit:
  "asked request r = None \<Longrightarrow> rv_get (tr_limits (tp_resources t)) r = None \<Longrightarrow>
   rv_get (pr_limits (resources_for t request)) r = None"
  by (simp add: resources_for_get pick_def)

subsection \<open>The job of an attempt\<close>

lemma encode_hex_length [simp]: "length (encode_hex bytes) = 2 * length bytes"
  by (induction bytes) (simp_all add: encode_hex_def)

lemma encode_hex_append: "encode_hex (xs @ ys) = encode_hex xs @ encode_hex ys"
  by (simp add: encode_hex_def)

lemma hex_in_label: "c \<in> set ''0123456789abcdef'' \<Longrightarrow> (is_ascii_lowercase c \<or> is_ascii_digit c) \<and> c \<noteq> CHR ''-''"
  by (auto simp: is_ascii_lowercase_def is_ascii_digit_def)

lemma prefix_label: "list_all (\<lambda>b. is_ascii_lowercase b \<or> is_ascii_digit b \<or> b = CHR ''-'') ''aiwatcher-''"
  by code_simp

text \<open>The name of the job of an attempt is one Kubernetes can hold, and it is a function of the
  attempt: two attempts whose keys the first half of the digest tells apart have two jobs.\<close>

theorem one_attempt_has_one_job:
  assumes "\<And>s. length (sha256 C s) = 32"
    and "take 16 (sha256 C (key_idempotency key)) = take 16 (sha256 C (key_idempotency key'))
         \<Longrightarrow> key_idempotency key = key_idempotency key'"
  shows "is_label (job_name C key)
    \<and> (job_name C key = job_name C key' \<longleftrightarrow> key_idempotency key = key_idempotency key')"
proof -
  let ?hex = "take 32 (digest C (key_idempotency key))"
  have len: "length (take 32 (digest C s)) = 32" for s
    by (simp add: digest_def jobs_hex_encode assms(1))
  have alphabet: "set ?hex \<subseteq> set ''0123456789abcdef''"
    by (rule order_trans [OF set_take_subset]) (rule digest_alphabet)
  then have hex: "(is_ascii_lowercase c \<or> is_ascii_digit c) \<and> c \<noteq> CHR ''-''" if "c \<in> set ?hex" for c
    using that hex_in_label by blast
  have "?hex \<noteq> []" using len [of "key_idempotency key"] by auto
  then have "last ?hex \<noteq> CHR ''-''" using hex last_in_set by blast
  moreover have "list_all (\<lambda>b. is_ascii_lowercase b \<or> is_ascii_digit b \<or> b = CHR ''-'') ?hex"
    using hex by (auto simp: list_all_iff)
  ultimately have "is_label (job_name C key)"
    using \<open>?hex \<noteq> []\<close> len [of "key_idempotency key"] prefix_label
    by (simp add: is_label_def job_name_def)
  moreover have "key_idempotency key = key_idempotency key'" if "job_name C key = job_name C key'"
  proof (rule assms(2))
    have half: "take 32 (digest C s) = encode_hex (take 16 (sha256 C s))" for s
    proof -
      have "encode_hex (sha256 C s) = encode_hex (take 16 (sha256 C s)) @ encode_hex (drop 16 (sha256 C s))"
        by (simp only: encode_hex_append [symmetric] append_take_drop_id)
      moreover have "length (encode_hex (take 16 (sha256 C s))) = 32" using assms(1) [of s] by simp
      ultimately show ?thesis by (simp only: digest_def jobs_hex_encode) simp
    qed
    from that have "take 32 (digest C (key_idempotency key)) = take 32 (digest C (key_idempotency key'))"
      by (simp add: job_name_def)
    then show "take 16 (sha256 C (key_idempotency key)) = take 16 (sha256 C (key_idempotency key'))"
      unfolding half by (rule encode_hex_inj)
  qed
  moreover have "job_name C key = job_name C key'" if "key_idempotency key = key_idempotency key'"
    by (simp only: job_name_def that)
  ultimately show ?thesis by blast
qed

end
