(* ===== verification/Workflow_Demo.thy ===== *)
theory Workflow_Demo
  imports Workflow_Props Pods_Props
begin

text \<open>
  A concrete definition (a task, a gate, a step in a pod) and a concrete set of templates, at which
  the theorems on workflows and pods are applied.
\<close>

definition demo_task :: "string \<Rightarrow> workflow_task" where
  "demo_task i =
     \<lparr>wt_id = i, wt_task_ref = ''load@1'', wt_queue = ''etl'', wt_pod = None, wt_approval = None,
      wt_after = [], wt_inputs = [], wt_outputs = [''rows''], wt_params = [], wt_retry = retry_default,
      wt_timeout_seconds = 600\<rparr>"

definition demo_pod :: pod_request where
  "demo_pod = \<lparr>pod_template = ''small'', pod_image = ''planner/import:3'', pod_cpu = Some ''500m'', pod_memory = None\<rparr>"

definition demo_gate :: workflow_task where
  "demo_gate =
     \<lparr>wt_id = ''gate'', wt_task_ref = [], wt_queue = [], wt_pod = None,
      wt_approval = Some \<lparr>ag_prompt = ''publish?'', ag_role = ''admin'', ag_choices = [''yes'', ''no''],
                          ag_timeout_seconds = Some 86400, ag_on_timeout = TimeoutAnswer (JString ''no'')\<rparr>,
      wt_after = [''load''], wt_inputs = [], wt_outputs = [], wt_params = [], wt_retry = retry_default,
      wt_timeout_seconds = 0\<rparr>"

definition demo_publish :: workflow_task where
  "demo_publish =
     (demo_task ''amend'')\<lparr>wt_pod := Some demo_pod, wt_after := [''gate''],
        wt_inputs := [\<lparr>wi_step = ''load'', wi_output = ''rows''\<rparr>]\<rparr>"

definition demo_spec :: workflow_spec where
  "demo_spec = \<lparr>ws_name = ''nightly'', ws_version = ''7'', ws_steps = [demo_publish, demo_gate, demo_task ''load'']\<rparr>"

definition demo_spec_sorted :: workflow_spec where
  "demo_spec_sorted = demo_spec\<lparr>ws_steps := [demo_task ''load'', demo_gate, demo_publish]\<rparr>"

lemma demo_spec_ok: "workflow_problems demo_spec = []"
  by code_simp

lemma demo_order: "map wt_id (ordered_tasks demo_spec) = [''load'', ''gate'', ''amend'']"
  by code_simp

definition demo_compiled :: execution_plan where
  "demo_compiled =
     seal numbered_crates (\<lambda>_. JNull) WorkflowKind ''nightly''
       (spec_revision numbered_crates (\<lambda>_. JNull) demo_spec) (map task_step (ordered_tasks demo_spec))
       (task_edges demo_spec)"

lemma demo_compiles:
  "compile_workflow_spec numbered_crates (\<lambda>_. JNull) (\<lambda>_. JNull) demo_spec = Inr demo_compiled"
proof -
  have "ws_name demo_spec = ''nightly''" by (simp add: demo_spec_def)
  then show ?thesis by (simp add: compile_workflow_spec_def demo_spec_ok demo_compiled_def)
qed

theorem compiled_workflow_is_in_order_witness:
  "map ps_id (plan_steps demo_compiled) = [''load'', ''gate'', ''amend''] \<and> parents_listed_first demo_compiled
   \<and> is_acyclic demo_compiled \<and> inputs_declared demo_compiled"
  using compiled_workflow_is_in_order [OF demo_compiles] demo_order
  by (simp add: demo_compiled_def comp_def)

definition demo_start :: start_request where
  "demo_start =
     \<lparr>st_execution_id = ''run-1'', st_plan = demo_compiled, st_owner = OwnerLocal, st_mode = Compiled,
      st_payloads = External, st_requested_by = ''alice'', st_input = []\<rparr>"

theorem compiled_workflow_is_carried_witness:
  "\<exists>out e. decide numbered_crates Empty (Command (StartExecution demo_start)) ''m0'' 0 = Inr out
     \<and> reachable numbered_crates e \<and> ex_plan e = demo_compiled"
proof -
  have "st_plan demo_start = demo_compiled" by (simp add: demo_start_def)
  from compiled_workflow_is_carried [OF demo_compiles this, of "''m0''" 0]
  show ?thesis by blast
qed

theorem authoring_order_is_irrelevant_witness:
  "\<exists>plan'. compile_workflow_spec numbered_crates (\<lambda>_. JNull) (\<lambda>_. JNull) demo_spec_sorted = Inr plan'
     \<and> map ps_id (plan_steps plan') = [''load'', ''gate'', ''amend''] \<and> demo_spec_sorted \<noteq> demo_spec"
proof -
  have "demo_task ''load'' \<noteq> demo_publish" by (simp add: demo_publish_def demo_task_def)
  then have other: "demo_spec_sorted \<noteq> demo_spec" by (simp add: demo_spec_sorted_def demo_spec_def)
  have "mset (ws_steps demo_spec) = mset (ws_steps demo_spec_sorted)"
    "ws_name demo_spec = ws_name demo_spec_sorted" "ws_version demo_spec = ws_version demo_spec_sorted"
    by (simp_all add: demo_spec_sorted_def demo_spec_def)
  from authoring_order_is_irrelevant [OF this demo_compiles] demo_order other
  show ?thesis by (auto simp: demo_compiled_def comp_def)
qed

subsection \<open>Templates\<close>

definition small_template :: pod_template where
  "small_template =
     \<lparr>tp_images = [''docker.io/planner/import''],
      tp_resources =
        \<lparr>tr_requests = \<lparr>rv_cpu = Some ''250m'', rv_memory = Some ''256Mi''\<rparr>,
         tr_limits = \<lparr>rv_cpu = Some ''1'', rv_memory = Some ''0.5Gi''\<rparr>,
         tr_max = \<lparr>rv_cpu = Some ''2'', rv_memory = Some ''1Gi''\<rparr>\<rparr>,
      tp_command = [''worker'', ''run-attempt''], tp_start_allowance = 300, tp_pod = []\<rparr>"

definition small_templates :: pod_templates where
  "small_templates = [(''small'', small_template)]"

lemma small_templates_load: "templates_check small_templates = Inr small_templates"
  by code_simp

lemma demo_not_refused: "plan_refusals demo_compiled (Some small_templates) = []"
proof -
  have "plan_refusals demo_compiled (Some small_templates) =
      concat (map (\<lambda>(step, pod). request_refusals small_templates step pod)
        (List.map_filter container_step (map task_step (ordered_tasks demo_spec))))"
    by (simp add: plan_refusals_def demo_compiled_def)
  also have "\<dots> = []" by code_simp
  finally show ?thesis .
qed

theorem quantity_is_rounded_up_witness:
  "quantity_parse Cpu ''0.0001'' = Inr 1 \<and> quantity_parse Memory ''1.5Ki'' = Inr 1536
   \<and> quantity_parse Cpu ''0'' = Inl NotAboveZero \<and> quantity_parse Memory ''999999999999999999.000000001Ei'' = Inl LargerThanAnyNode
   \<and> (\<exists>whole fraction suffix unit. ''0.0001'' = written whole fraction suffix \<and> quantity_unit Cpu suffix = Some unit)"
proof -
  have one: "quantity_parse Cpu ''0.0001'' = Inr 1" by code_simp
  have "quantity_parse Memory ''1.5Ki'' = Inr 1536 \<and> quantity_parse Cpu ''0'' = Inl NotAboveZero
      \<and> quantity_parse Memory ''999999999999999999.000000001Ei'' = Inl LargerThanAnyNode" by code_simp
  with one quantity_is_rounded_up [OF one] show ?thesis by blast
qed

theorem pods_stay_under_the_ceiling_witness:
  "\<exists>t. bt_get small_templates ''small'' = Some t \<and> within_ceiling t (resources_for t demo_pod) Cpu
     \<and> within_ceiling t (resources_for t demo_pod) Memory
     \<and> rv_cpu (pr_limits (resources_for t demo_pod)) = Some ''500m''"
proof -
  let ?spec = "\<lparr>cj_task_ref = ''load@1'', cj_queue = ''etl'', cj_params = [], cj_pod = demo_pod\<rparr>"
  have "task_step demo_publish \<in> set (map task_step (ordered_tasks demo_spec))"
    using ordered_complete(2) [OF demo_spec_ok] by (simp add: demo_spec_def)
  then have step: "task_step demo_publish \<in> set (plan_steps demo_compiled)" by (simp add: demo_compiled_def)
  have "ps_runtime (task_step demo_publish) = ContainerJob ?spec"
    by (simp add: task_runtime_def demo_publish_def demo_task_def)
  from pods_stay_under_the_ceiling [OF small_templates_load demo_not_refused step this]
  show ?thesis by (auto simp: demo_pod_def resources_for_def pick_def Let_def)
qed

theorem one_attempt_has_one_job_witness:
  "is_label (job_name \<lparr>sha256 = (\<lambda>s. take 32 (as_bytes s @ replicate 32 0)), json_text = (\<lambda>_. [])\<rparr>
      (AttemptKey ''r'' ''s'' 1))
   \<and> job_name \<lparr>sha256 = (\<lambda>s. take 32 (as_bytes s @ replicate 32 0)), json_text = (\<lambda>_. [])\<rparr>
      (AttemptKey ''r'' ''s'' 1)
     \<noteq> job_name \<lparr>sha256 = (\<lambda>s. take 32 (as_bytes s @ replicate 32 0)), json_text = (\<lambda>_. [])\<rparr>
      (AttemptKey ''r'' ''s'' 2)"
proof -
  let ?C = "\<lparr>sha256 = (\<lambda>s. take 32 (as_bytes s @ replicate 32 0)), json_text = (\<lambda>_. [])\<rparr>"
  let ?one = "AttemptKey ''r'' ''s'' 1"
  let ?two = "AttemptKey ''r'' ''s'' 2"
  have len: "length (sha256 ?C s) = 32" for s by simp
  have differ: "take 16 (sha256 ?C (key_idempotency ?one)) \<noteq> take 16 (sha256 ?C (key_idempotency ?two))"
    "key_idempotency ?one \<noteq> key_idempotency ?two"
    by code_simp+
  show ?thesis
    using one_attempt_has_one_job [of ?C ?one ?two, OF len] differ by blast
qed

end
