(* ===== verification/Chain.thy ===== *)
theory Chain
  imports Question
begin

text \<open>
  A curation as a chain of blocks: \<open>engine.rs\<close> and the validation of \<open>pipeline.rs\<close> in
  \<open>aiwatcher-datasets\<close>. \<open>order_of\<close> returns the chain, head first, or every reason there is not one,
  a constructor per sentence of the source. A block's position on the canvas is presentation and
  is left out; \<open>json_text\<close> of the crates record measures the settings of a notebook.
\<close>

subsection \<open>Query engines\<close>

definition query_engines :: "query_engine list" where
  "query_engines = [EngineFlow, EngineDataFusion, EngineDuckDb]"

fun engine_as_str :: "query_engine \<Rightarrow> string" where
  "engine_as_str EngineFlow = ''flow''"
| "engine_as_str EngineDataFusion = ''datafusion''"
| "engine_as_str EngineDuckDb = ''duckdb''"

fun engine_label :: "query_engine \<Rightarrow> string" where
  "engine_label EngineFlow = ''Flow PHP''"
| "engine_label EngineDataFusion = ''DataFusion''"
| "engine_label EngineDuckDb = ''DuckDB''"

definition engine_is_flow :: "query_engine \<Rightarrow> bool" where
  "engine_is_flow engine = (engine = EngineFlow)"

definition engine_parse :: "string \<Rightarrow> query_engine option" where
  "engine_parse given = List.find (\<lambda>engine. engine_as_str engine = str_trim given) query_engines"

text \<open>The derived order: the order of declaration.\<close>

fun engine_rank :: "query_engine \<Rightarrow> nat" where
  "engine_rank EngineFlow = 0"
| "engine_rank EngineDataFusion = 1"
| "engine_rank EngineDuckDb = 2"

lemma engine_rank_inj [simp]: "engine_rank a = engine_rank b \<longleftrightarrow> a = b"
  by (cases a; cases b) simp_all

instantiation query_engine :: linorder
begin

definition less_eq_query_engine :: "query_engine \<Rightarrow> query_engine \<Rightarrow> bool" where
  "less_eq_query_engine a b \<longleftrightarrow> engine_rank a \<le> engine_rank b"

definition less_query_engine :: "query_engine \<Rightarrow> query_engine \<Rightarrow> bool" where
  "less_query_engine a b \<longleftrightarrow> engine_rank a < engine_rank b"

instance
  by standard (auto simp: less_eq_query_engine_def less_query_engine_def)

end

subsection \<open>Blocks\<close>

definition MAX_BLOCKS :: int where "MAX_BLOCKS = 24"
definition MAX_TITLE_BYTES :: int where "MAX_TITLE_BYTES = 120"
definition MAX_SETTINGS_BYTES :: int where "MAX_SETTINGS_BYTES = 32 * 1024"
definition MAX_ID_LENGTH :: int where "MAX_ID_LENGTH = 40"
definition MAX_PIPELINE_BYTES :: int where "MAX_PIPELINE_BYTES = 128 * 1024"
definition MAX_NAME_BYTES :: int where "MAX_NAME_BYTES = 160"

datatype block_spec =
    SourceBlock string "(string, string) btree"
  | TransformBlock string query_engine
  | NotebookBlock string "string option" "(string, json) btree"
  | ApprovalBlock string string "string list" "u64 option" on_timeout
  | ViewBlock "string option"

fun block_kind :: "block_spec \<Rightarrow> string" where
  "block_kind (SourceBlock _ _) = ''source''"
| "block_kind (TransformBlock _ _) = ''transform''"
| "block_kind (NotebookBlock _ _ _) = ''notebook''"
| "block_kind (ApprovalBlock _ _ _ _ _) = ''approval''"
| "block_kind (ViewBlock _) = ''view''"

record pipeline_block =
  pb_id :: string
  pb_title :: string
  pb_spec :: block_spec

record pipeline_edge =
  pe_from :: string
  pe_to :: string

record curation_pipeline =
  cp_name :: string
  cp_description :: string
  cp_blocks :: "pipeline_block list"
  cp_edges :: "pipeline_edge list"
  cp_revision :: string
  cp_saved_at :: instant

definition is_block_id :: "string \<Rightarrow> bool" where
  "is_block_id i =
     (i \<noteq> [] \<and> int (length i) \<le> MAX_ID_LENGTH \<and>
      list_all (\<lambda>c. is_ascii_lowercase c \<or> is_ascii_digit c \<or> c = CHR ''-'') i)"

definition is_notebook_name :: "string \<Rightarrow> bool" where
  "is_notebook_name name =
     (length name \<le> 64 \<and> name \<noteq> [] \<and> is_ascii_lowercase (hd name) \<and>
      list_all (\<lambda>c. is_ascii_lowercase c \<or> is_ascii_digit c \<or> c = CHR ''_'') (tl name))"

definition is_sha_digest :: "string \<Rightarrow> bool" where
  "is_sha_digest given = (length given = 64 \<and> list_all is_ascii_hexdigit given)"

text \<open>\<open>validate_name\<close> of the registry: slash-separated segments.\<close>

definition name_segment_ok :: "string \<Rightarrow> bool" where
  "name_segment_ok segment =
     (segment \<noteq> [] \<and> is_ascii_alphanumeric (hd segment) \<and>
      list_all (\<lambda>c. is_ascii_alphanumeric c \<or> c = CHR ''-'' \<or> c = CHR ''_'' \<or> c = CHR ''.'') (tl segment)
      \<and> segment \<noteq> ''.'' \<and> segment \<noteq> ''..'')"

datatype name_error = NameLength string | NameSegments string

definition registry_name :: "string \<Rightarrow> string \<Rightarrow> name_error + unit" where
  "registry_name name what =
     (if name = [] \<or> int (length name) > MAX_NAME_BYTES then Inl (NameLength what)
      else if list_ex (\<lambda>segment. \<not> name_segment_ok segment) (split_on CHR ''/'' name)
      then Inl (NameSegments what) else Inr ())"

subsection \<open>Problems\<close>

datatype chain_problem =
    NoBlocks
  | TooManyBlocks nat
  | NotABlockId string
  | SharedId string
  | TitleTooLong string nat
  | SourceUnnamed string
  | ArgumentsTooLong string nat
  | StepsTooLong string query_engine nat
  | NotANotebook string
  | RevisionNotADigest string
  | SettingsTooLong string nat
  | ApprovalQuestion question_problem
  | ViewNotADataset string string
  | UnknownBlock string string
  | SelfConnected string
  | FeedsMany string
  | FedByMany string
  | Loop
  | ManyHeads "string list"
  | Stranded "string list"
  | StartsElsewhere string string
  | SecondSource string
  | ManyEngines "(query_engine \<times> string) list"
  | FlowAfter string query_engine string string
  | AfterView string string

definition block_problems :: "crates \<Rightarrow> pipeline_block \<Rightarrow> chain_problem list" where
  "block_problems C block =
     (if int (length (pb_title block)) > MAX_TITLE_BYTES
      then [TitleTooLong (pb_id block) (length (pb_title block))] else [])
     @ (case pb_spec block of
          SourceBlock dataset arguments \<Rightarrow>
            (if str_trim dataset = [] then [SourceUnnamed (pb_id block)] else [])
            @ (let size = sum_list (map length (bt_values arguments)) in
               if int size > MAX_SETTINGS_BYTES then [ArgumentsTooLong (pb_id block) size] else [])
        | TransformBlock steps engine \<Rightarrow>
            (if int (length steps) > MAX_PIPELINE_BYTES then [StepsTooLong (pb_id block) engine (length steps)] else [])
        | NotebookBlock notebook revision params \<Rightarrow>
            (if \<not> is_notebook_name notebook then [NotANotebook notebook] else [])
            @ (if is_some_and (\<lambda>r. \<not> is_sha_digest r) revision then [RevisionNotADigest (pb_id block)] else [])
            @ (let size = length (json_text C (JObject params)) in
               if int size > MAX_SETTINGS_BYTES then [SettingsTooLong (pb_id block) size] else [])
        | ApprovalBlock prompt role choices timeout_seconds policy \<Rightarrow>
            map ApprovalQuestion (question_problems (pb_id block) prompt role choices timeout_seconds policy)
        | ViewBlock dataset \<Rightarrow>
            (case dataset of
               Some name \<Rightarrow>
                 if registry_name name ''dataset'' \<noteq> Inr () then [ViewNotADataset (pb_id block) name] else []
             | None \<Rightarrow> []))"

subsection \<open>Reading the canvas\<close>

type_synonym block_index = "(string, pipeline_block) btree"

fun read_blocks :: "crates \<Rightarrow> block_index \<Rightarrow> pipeline_block list \<Rightarrow> chain_problem list \<times> block_index" where
  "read_blocks C known [] = ([], known)"
| "read_blocks C known (block # rest) =
     (if \<not> is_block_id (pb_id block) then
        (case read_blocks C known rest of (problems, k) \<Rightarrow> (NotABlockId (pb_id block) # problems, k))
      else
        (case read_blocks C (bt_insert (pb_id block) block known) rest of
           (problems, k) \<Rightarrow>
             ((if bt_get known (pb_id block) \<noteq> None then [SharedId (pb_id block)] else [])
              @ block_problems C block @ problems, k)))"

text \<open>What the edges say so far: the next block of a block, and the blocks that have a parent.\<close>

record wiring =
  wr_problems :: "chain_problem list"
  wr_next :: "(string, string) btree"
  wr_fed :: "string list"

definition read_edge :: "block_index \<Rightarrow> wiring \<Rightarrow> pipeline_edge \<Rightarrow> wiring" where
  "read_edge known w edge =
     (let a = pe_from edge; b = pe_to edge in
      if bt_get known a = None \<or> bt_get known b = None
      then w\<lparr>wr_problems := wr_problems w @ [UnknownBlock a b]\<rparr>
      else if a = b then w\<lparr>wr_problems := wr_problems w @ [SelfConnected a]\<rparr>
      else w\<lparr>wr_problems := wr_problems w
                 @ (if bt_get (wr_next w) a \<noteq> None then [FeedsMany a] else [])
                 @ (if b \<in> set (wr_fed w) then [FedByMany b] else []),
             wr_next := bt_insert a b (wr_next w), wr_fed := b # wr_fed w\<rparr>)"

definition read_edges :: "block_index \<Rightarrow> pipeline_edge list \<Rightarrow> wiring" where
  "read_edges known edges =
     foldl (read_edge known) \<lparr>wr_problems = [], wr_next = [], wr_fed = []\<rparr> edges"

definition chain_heads :: "block_index \<Rightarrow> wiring \<Rightarrow> pipeline_block list" where
  "chain_heads known w = filter (\<lambda>block. pb_id block \<notin> set (wr_fed w)) (bt_values known)"

text \<open>
  The walk from the head. The index \<open>known[id]\<close> of the source panics on an unknown id; the lemmas
  show that the ids it is given are known.
\<close>

function walk_chain ::
  "block_index \<Rightarrow> (string, string) btree \<Rightarrow> string list \<Rightarrow> string option \<Rightarrow> pipeline_block list" where
  "walk_chain known following walked None = []"
| "walk_chain known following walked (Some i) =
     (if i \<in> set walked then []
      else case bt_get known i of
             None \<Rightarrow> []
           | Some block \<Rightarrow> block # walk_chain known following (i # walked) (bt_get following i))"
  by pat_completeness auto
termination
proof (relation "measure (\<lambda>(known, following, walked, cursor).
    card (fst ` set known - set walked) + (if cursor = None then 0 else 1))", goal_cases)
  case 1
  show ?case by simp
next
  case (2 known following walked i block)
  then have mem: "i \<in> fst ` set known - set walked" using bt_get_dom by fastforce
  have "fst ` set known - set (i # walked) = (fst ` set known - set walked) - {i}" by auto
  moreover have "card ((fst ` set known - set walked) - {i}) < card (fst ` set known - set walked)"
    using mem by (intro psubset_card_mono) auto
  ultimately show ?case by simp
qed

subsection \<open>The order of the kinds\<close>

definition transform_engine :: "pipeline_block \<Rightarrow> query_engine option" where
  "transform_engine block = (case pb_spec block of TransformBlock _ engine \<Rightarrow> Some engine | _ \<Rightarrow> None)"

definition is_source :: "pipeline_block \<Rightarrow> bool" where
  "is_source block = (case pb_spec block of SourceBlock _ _ \<Rightarrow> True | _ \<Rightarrow> False)"

definition is_view :: "pipeline_block \<Rightarrow> bool" where
  "is_view block = (case pb_spec block of ViewBlock _ \<Rightarrow> True | _ \<Rightarrow> False)"

text \<open>\<open>entry(engine).or_insert(id)\<close>: the first block of each engine.\<close>

fun engines_of :: "(query_engine, string) btree \<Rightarrow> pipeline_block list \<Rightarrow> (query_engine, string) btree" where
  "engines_of found [] = found"
| "engines_of found (block # rest) =
     (case transform_engine block of
        Some engine \<Rightarrow>
          engines_of (if bt_get found engine = None then bt_insert engine (pb_id block) found else found) rest
      | None \<Rightarrow> engines_of found rest)"

definition flow_after :: "pipeline_block \<Rightarrow> pipeline_block \<Rightarrow> chain_problem" where
  "flow_after block before =
     FlowAfter (pb_id block) (case transform_engine block of Some engine \<Rightarrow> engine | None \<Rightarrow> EngineFlow)
       (block_kind (pb_spec before)) (pb_id before)"

fun seal_problems ::
  "pipeline_block option \<Rightarrow> string option \<Rightarrow> pipeline_block list \<Rightarrow> chain_problem list" where
  "seal_problems sealed seen_view [] = []"
| "seal_problems sealed seen_view (block # rest) =
     (let sealed' = (case pb_spec block of
                       NotebookBlock _ _ _ \<Rightarrow> Some block
                     | ApprovalBlock _ _ _ _ _ \<Rightarrow> Some block
                     | _ \<Rightarrow> sealed)
      in (case pb_spec block of
            TransformBlock _ _ \<Rightarrow> (case sealed of Some before \<Rightarrow> [flow_after block before] | None \<Rightarrow> [])
          | _ \<Rightarrow> [])
         @ (case seen_view of Some view \<Rightarrow> [AfterView (pb_id block) view] | None \<Rightarrow> [])
         @ seal_problems sealed' (if is_view block then Some (pb_id block) else seen_view) rest)"

definition chain_problems :: "pipeline_block list \<Rightarrow> chain_problem list" where
  "chain_problems chain =
     (if \<not> is_source (hd chain) then [StartsElsewhere (pb_id (hd chain)) (block_kind (pb_spec (hd chain)))] else [])
     @ map (\<lambda>block. SecondSource (pb_id block)) (filter is_source (tl chain))
     @ (if length (engines_of [] chain) > 1 then [ManyEngines (engines_of [] chain)] else [])
     @ seal_problems None None chain"

subsection \<open>The chain\<close>

definition order_of ::
  "crates \<Rightarrow> pipeline_block list \<Rightarrow> pipeline_edge list \<Rightarrow> chain_problem list + pipeline_block list" where
  "order_of C blocks edges =
     (if blocks = [] then Inl [NoBlocks]
      else
        let (block_issues, known) = read_blocks C [] blocks;
            w = read_edges known edges;
            issues = (if int (length blocks) > MAX_BLOCKS then [TooManyBlocks (length blocks)] else [])
                     @ block_issues @ wr_problems w;
            heads = chain_heads known w;
            issues' = issues
              @ (if length heads \<noteq> 1 \<and> issues = []
                 then [if heads = [] then Loop else ManyHeads (map pb_id heads)] else [])
        in if issues' \<noteq> [] then Inl issues'
           else
             let chain = walk_chain known (wr_next w) [] (Some (pb_id (hd heads))) in
             if length chain \<noteq> length known
             then Inl [Stranded (filter (\<lambda>i. i \<notin> pb_id ` set chain) (bt_keys known))]
             else if chain_problems chain = [] then Inr chain else Inl (chain_problems chain))"

end
