(* ===== verification/Curation.thy ===== *)
theory Curation
  imports Chain Start
begin

text \<open>
  From an authored chain to a plan: \<open>compile.rs\<close>. A source and the transforms after it fold into one
  query step, each other block is a step of its own, and two cursors are carried along the chain:
  the step the next edge comes from and the step whose rows the next step reads. The generators of
  query text are the functions the query step is made of; \<open>json_text\<close> writes the string literals
  of the Python engines.
\<close>

definition QUERY_TIMEOUT_SECONDS :: u64 where "QUERY_TIMEOUT_SECONDS = 300"
definition NOTEBOOK_TIMEOUT_SECONDS :: u64 where "NOTEBOOK_TIMEOUT_SECONDS = 900"
definition PUBLISH_TIMEOUT_SECONDS :: u64 where "PUBLISH_TIMEOUT_SECONDS = 120"
definition NO_ATTEMPT_TIMER :: u64 where "NO_ATTEMPT_TIMER = 0"

subsection \<open>Query text\<close>

text \<open>\<open>str::lines\<close>: the parts between line feeds, without one carriage return at the end of each
  and without an empty part at the end of the text.\<close>

definition without_return :: "string \<Rightarrow> string" where
  "without_return line = (if line \<noteq> [] \<and> last line = CHR 0x0D then butlast line else line)"

definition str_lines :: "string \<Rightarrow> string list" where
  "str_lines given =
     (let parts = split_on CHR 0x0A given
      in map without_return (if last parts = [] then butlast parts else parts))"

definition numeric_literal :: "string \<Rightarrow> bool" where
  "numeric_literal given =
     (let body = (case given of [] \<Rightarrow> [] | c # rest \<Rightarrow> if c = CHR ''-'' then rest else given)
      in body \<noteq> []
         \<and> (case split_once CHR ''.'' body of
              None \<Rightarrow> body \<noteq> []
            | Some (whole, fraction) \<Rightarrow> whole \<noteq> [] \<and> fraction \<noteq> [])
         \<and> list_all (\<lambda>c. is_ascii_digit c \<or> c = CHR ''.'') body
         \<and> length (filter (\<lambda>c. c = CHR ''.'') body) \<le> 1)"

definition str_replace :: "char \<Rightarrow> string \<Rightarrow> string \<Rightarrow> string" where
  "str_replace c with_this given = concat (map (\<lambda>x. if x = c then with_this else [x]) given)"

definition backslash :: char where "backslash = CHR 0x5C"
definition quote :: char where "quote = CHR 0x27"

definition php_literal :: "string \<Rightarrow> string" where
  "php_literal given =
     (if numeric_literal given then given
      else quote # str_replace quote [backslash, quote]
                     (str_replace backslash [backslash, backslash] given) @ [quote])"

definition given_arguments :: "(string, string) btree \<Rightarrow> (string \<times> string) list" where
  "given_arguments arguments = filter (\<lambda>(name, given). str_trim given \<noteq> []) arguments"

fun read_call :: "block_spec \<Rightarrow> string" where
  "read_call (SourceBlock dataset arguments) =
     ''->read('' @ join_with '', ''
        (dataset # map (\<lambda>(name, given). name @ '': '' @ php_literal given) (given_arguments arguments)) @ '')''"
| "read_call other = ''->read(default)''"

definition transform_steps :: "pipeline_block \<Rightarrow> string option" where
  "transform_steps block = (case pb_spec block of TransformBlock steps _ \<Rightarrow> Some steps | _ \<Rightarrow> None)"

definition indented :: "string \<Rightarrow> string" where
  "indented line = ''    '' @ line"

definition flow_script :: "block_spec \<Rightarrow> pipeline_block list \<Rightarrow> string" where
  "flow_script source chain =
     (let steps = List.map_filter transform_steps chain in
      join_with [CHR 0x0A]
        ([''data_frame()'', indented (read_call source)]
         @ map indented (filter (\<lambda>line. line \<noteq> []) (map str_trim (str_lines (join_with [CHR 0x0A] steps))))
         @ [indented ''->write(to_output(truncate: false))'', indented ''->run();'']))"

definition PYTHON_KEYWORDS :: "string list" where
  "PYTHON_KEYWORDS =
     [''False'', ''None'', ''True'', ''and'', ''as'', ''assert'', ''async'', ''await'', ''break'',
      ''class'', ''continue'', ''def'', ''del'', ''elif'', ''else'', ''except'', ''finally'', ''for'',
      ''from'', ''global'', ''if'', ''import'', ''in'', ''is'', ''lambda'', ''nonlocal'', ''not'',
      ''or'', ''pass'', ''raise'', ''return'', ''try'', ''while'', ''with'', ''yield'']"

definition is_python_name :: "string \<Rightarrow> bool" where
  "is_python_name name =
     (case name of
        [] \<Rightarrow> False
      | c # rest \<Rightarrow>
          (c = CHR ''_'' \<or> is_ascii_lowercase c \<or> is_ascii_uppercase c)
          \<and> list_all (\<lambda>x. x = CHR ''_'' \<or> is_ascii_alphanumeric x) rest
          \<and> name \<notin> set PYTHON_KEYWORDS)"

definition python_string :: "crates \<Rightarrow> string \<Rightarrow> string" where
  "python_string C given = json_text C (JString given)"

fun python_arguments :: "crates \<Rightarrow> (string \<times> string) list \<Rightarrow> string + string list" where
  "python_arguments C [] = Inr []"
| "python_arguments C ((name, given) # rest) =
     (if str_trim given = [] then python_arguments C rest
      else if \<not> is_python_name name then Inl name
      else case python_arguments C rest of
             Inl refused \<Rightarrow> Inl refused
           | Inr parts \<Rightarrow> Inr ((name @ ''='' @ python_string C given) # parts))"

definition python_transform :: "pipeline_block \<Rightarrow> string option" where
  "python_transform block =
     (case transform_steps block of
        Some steps \<Rightarrow>
          if str_trim steps \<noteq> []
          then Some (''df = ('' @ [CHR 0x0A] @ str_trim steps @ [CHR 0x0A] @ '')'') else None
      | None \<Rightarrow> None)"

definition python_script :: "crates \<Rightarrow> block_spec \<Rightarrow> pipeline_block list \<Rightarrow> string + string" where
  "python_script C source chain =
     (let (dataset, arguments) = (case source of SourceBlock d a \<Rightarrow> (d, a) | _ \<Rightarrow> (''default'', []))
      in case python_arguments C arguments of
           Inl name \<Rightarrow> Inl name
         | Inr parts \<Rightarrow>
             Inr (join_with [CHR 0x0A]
               ((''df = read('' @ join_with '', '' (python_string C dataset # parts) @ '')'')
                # List.map_filter python_transform chain @ [''df''])))"

fun arguments_of :: "block_spec \<Rightarrow> (string, string) btree" where
  "arguments_of (SourceBlock dataset arguments) = arguments"
| "arguments_of other = []"

subsection \<open>The query step\<close>

datatype curation_problem =
    ChainProblem chain_problem
  | NotASource string
  | WrittenFor string query_engine query_engine
  | ArgumentName string string
  | QueryOutOfReach string
  | NotebookUnpinned string string
  | PublishesNowhere string
  | NoSteps

definition first_transform :: "pipeline_block list \<Rightarrow> (string \<times> query_engine) option" where
  "first_transform blocks =
     (case List.map_filter (\<lambda>block. map_option (Pair (pb_id block)) (transform_engine block)) blocks of
        [] \<Rightarrow> None | found # _ \<Rightarrow> Some found)"

definition query_runtime ::
  "crates \<Rightarrow> pipeline_block \<Rightarrow> pipeline_block list \<Rightarrow> query_engine \<Rightarrow> (string \<Rightarrow> query_step_spec) \<Rightarrow>
   curation_problem + runtime_binding" where
  "query_runtime C source blocks deployed spec =
     (let python = (\<lambda>bind. case python_script C (pb_spec source) blocks of
                      Inl name \<Rightarrow> Inl (ArgumentName (pb_id source) name)
                    | Inr script \<Rightarrow> Inr (bind (spec script)))
      in case first_transform blocks of
           Some (block, engine) \<Rightarrow>
             if engine \<noteq> deployed then Inl (WrittenFor block engine deployed)
             else (case deployed of
                     EngineFlow \<Rightarrow> Inr (FlowPhp (spec (flow_script (pb_spec source) blocks)))
                   | EngineDataFusion \<Rightarrow> python DataFusion
                   | EngineDuckDb \<Rightarrow> python DuckDb)
         | None \<Rightarrow>
             (case deployed of
                EngineFlow \<Rightarrow> Inr (FlowPhp (spec (flow_script (pb_spec source) blocks)))
              | EngineDataFusion \<Rightarrow> python DataFusion
              | EngineDuckDb \<Rightarrow> python DuckDb))"

definition reads_rows :: "string option \<Rightarrow> input_binding list" where
  "reads_rows step = (case step of None \<Rightarrow> [] | Some s \<Rightarrow> [FromStep s ''rows''])"

definition rows_output :: output_declaration where
  "rows_output = \<lparr>out_name = ''rows'', out_kind = ArtRows, out_schema_ref = None\<rparr>"

definition is_query_block :: "pipeline_block \<Rightarrow> bool" where
  "is_query_block block =
     (case pb_spec block of SourceBlock _ _ \<Rightarrow> True | TransformBlock _ _ \<Rightarrow> True | _ \<Rightarrow> False)"

subsection \<open>The compilation\<close>

record compilation =
  cm_problems :: "curation_problem list"
  cm_steps :: "plan_step list"
  cm_edges :: "plan_edge list"
  cm_previous :: "string option"
  cm_rows_from :: "string option"

definition query_step ::
  "crates \<Rightarrow> compile_options \<Rightarrow> pipeline_block \<Rightarrow> pipeline_block list \<Rightarrow> string \<Rightarrow>
   (string, string) btree \<Rightarrow> compilation" where
  "query_step C options source blocks dataset arguments =
     (let nothing = \<lparr>cm_problems = [], cm_steps = [], cm_edges = [], cm_previous = None, cm_rows_from = None\<rparr>;
          spec = (\<lambda>script. \<lparr>q_script = script,
                    q_source = \<lparr>src_dataset = dataset, src_arguments = arguments,
                                src_resolved_revision = None, src_window = co_window options, src_cursor = None\<rparr>,
                    q_blocks = map pb_id blocks\<rparr>)
      in case query_runtime C source blocks (co_engine options) spec of
           Inl problem \<Rightarrow> nothing\<lparr>cm_problems := [problem]\<rparr>
         | Inr runtime \<Rightarrow>
             nothing\<lparr>cm_steps :=
                [\<lparr>ps_id = pb_id source, ps_runtime = runtime, ps_inputs = [], ps_outputs = [rows_output],
                  ps_retry = retry_default,
                  ps_timeout_seconds = (case co_query_timeout options of
                                          None \<Rightarrow> QUERY_TIMEOUT_SECONDS | Some secs \<Rightarrow> secs),
                  ps_cache = CacheByContent\<rparr>],
                cm_previous := Some (pb_id source), cm_rows_from := Some (pb_id source)\<rparr>)"

text \<open>The end of a turn of the loop: the edge from the step before, and the cursor.\<close>

definition link_step :: "string \<Rightarrow> compilation \<Rightarrow> compilation" where
  "link_step i c =
     c\<lparr>cm_edges := cm_edges c @ (case cm_previous c of None \<Rightarrow> [] | Some before \<Rightarrow> [PlanEdge before i]),
       cm_previous := Some i\<rparr>"

definition push_step :: "plan_step \<Rightarrow> compilation \<Rightarrow> compilation" where
  "push_step step c = c\<lparr>cm_steps := cm_steps c @ [step]\<rparr>"

definition push_problem :: "curation_problem \<Rightarrow> compilation \<Rightarrow> compilation" where
  "push_problem problem c = c\<lparr>cm_problems := cm_problems c @ [problem]\<rparr>"

definition notebook_step ::
  "pipeline_block \<Rightarrow> string \<Rightarrow> string \<Rightarrow> (string, json) btree \<Rightarrow> string option \<Rightarrow> plan_step" where
  "notebook_step block notebook revision params rows_from =
     \<lparr>ps_id = pb_id block,
      ps_runtime = Marimo \<lparr>ma_notebook = notebook, ma_code_revision = revision, ma_params = params,
                           ma_block = Some (pb_id block)\<rparr>,
      ps_inputs = reads_rows rows_from, ps_outputs = [rows_output], ps_retry = retry_default,
      ps_timeout_seconds = NOTEBOOK_TIMEOUT_SECONDS, ps_cache = CacheByContent\<rparr>"

definition approval_step ::
  "pipeline_block \<Rightarrow> string \<Rightarrow> string \<Rightarrow> string list \<Rightarrow> u64 option \<Rightarrow> on_timeout \<Rightarrow> string option \<Rightarrow> plan_step" where
  "approval_step block prompt role choices timeout_seconds policy rows_from =
     \<lparr>ps_id = pb_id block,
      ps_runtime = HumanInput \<lparr>hi_prompt = prompt, hi_role = role, hi_choices = choices,
                               hi_block = Some (pb_id block), hi_timeout_seconds = timeout_seconds,
                               hi_on_timeout = policy\<rparr>,
      ps_inputs = reads_rows rows_from, ps_outputs = [], ps_retry = retry_once,
      ps_timeout_seconds = NO_ATTEMPT_TIMER, ps_cache = CacheNever\<rparr>"

definition publish_step ::
  "curation_pipeline \<Rightarrow> compile_options \<Rightarrow> pipeline_block \<Rightarrow> string \<Rightarrow> string option \<Rightarrow> plan_step" where
  "publish_step pipeline options block dataset rows_from =
     \<lparr>ps_id = pb_id block,
      ps_runtime = PublishDataset \<lparr>pd_dataset = dataset,
                                   pd_produced_by = cp_name pipeline @ ''@'' @ cp_revision pipeline,
                                   pd_block = Some (pb_id block)\<rparr>,
      ps_inputs = reads_rows rows_from, ps_outputs = [], ps_retry = retry_default,
      ps_timeout_seconds = (case co_query_timeout options of
                              None \<Rightarrow> PUBLISH_TIMEOUT_SECONDS
                            | Some query \<Rightarrow> max query PUBLISH_TIMEOUT_SECONDS),
      ps_cache = CacheNever\<rparr>"

definition compile_block ::
  "curation_pipeline \<Rightarrow> compile_options \<Rightarrow> compilation \<Rightarrow> pipeline_block \<Rightarrow> compilation" where
  "compile_block pipeline options c block =
     (case pb_spec block of
        SourceBlock _ _ \<Rightarrow> link_step (pb_id block) (push_problem (QueryOutOfReach (pb_id block)) c)
      | TransformBlock _ _ \<Rightarrow> link_step (pb_id block) (push_problem (QueryOutOfReach (pb_id block)) c)
      | NotebookBlock notebook revision params \<Rightarrow>
          (case revision of
             Some r \<Rightarrow>
               if r = [] then push_problem (NotebookUnpinned (pb_id block) notebook) c
               else link_step (pb_id block)
                      ((push_step (notebook_step block notebook r params (cm_rows_from c)) c)
                         \<lparr>cm_rows_from := Some (pb_id block)\<rparr>)
           | None \<Rightarrow> push_problem (NotebookUnpinned (pb_id block) notebook) c)
      | ApprovalBlock prompt role choices timeout_seconds policy \<Rightarrow>
          link_step (pb_id block)
            (push_step (approval_step block prompt role choices timeout_seconds policy (cm_rows_from c)) c)
      | ViewBlock dataset \<Rightarrow>
          (case dataset of
             Some name \<Rightarrow>
               if name = [] then push_problem (PublishesNowhere (pb_id block)) c
               else link_step (pb_id block) (push_step (publish_step pipeline options block name (cm_rows_from c)) c)
           | None \<Rightarrow> push_problem (PublishesNowhere (pb_id block)) c))"

definition compile_curation ::
  "crates \<Rightarrow> (execution_plan \<Rightarrow> json) \<Rightarrow> curation_pipeline \<Rightarrow> compile_options \<Rightarrow>
   curation_problem list + execution_plan" where
  "compile_curation C plan_json pipeline options =
     (case order_of C (cp_blocks pipeline) (cp_edges pipeline) of
        Inl problems \<Rightarrow> Inl (map ChainProblem problems)
      | Inr chain \<Rightarrow>
          let query = takeWhile is_query_block chain;
              start = (case query of
                         [] \<Rightarrow> Inr \<lparr>cm_problems = [], cm_steps = [], cm_edges = [], cm_previous = None,
                                   cm_rows_from = None\<rparr>
                       | source # _ \<Rightarrow>
                           (case pb_spec source of
                              SourceBlock dataset arguments \<Rightarrow>
                                Inr (query_step C options source query dataset arguments)
                            | _ \<Rightarrow> Inl [NotASource (pb_id source)]))
          in case start of
               Inl problems \<Rightarrow> Inl problems
             | Inr c0 \<Rightarrow>
                 let c = foldl (compile_block pipeline options) c0 (drop (length query) chain);
                     problems = cm_problems c
                       @ (if cm_steps c = [] \<and> cm_problems c = [] then [NoSteps] else [])
                 in if problems \<noteq> [] then Inl problems
                    else Inr (seal C plan_json CurationPipeline (cp_name pipeline) (cp_revision pipeline)
                                (cm_steps c) (cm_edges c)))"

end
