(* ===== verification/Chain_Props.thy ===== *)
theory Chain_Props
  imports Chain "HOL-Library.Multiset"
begin

text \<open>
  What \<open>order_of\<close> decides. \<open>chain_of\<close> says what a chain is without an algorithm: all the blocks,
  each once, in an order whose consecutive pairs are exactly the edges, a source first and only
  there, the transforms of one engine right after it and a view only at the end. The lemmas show
  that the reading of blocks and edges and the walk from the one head find that chain where there
  is one, and report a problem where there is none.
\<close>

subsection \<open>The blocks\<close>

lemma read_blocks_known:
  "read_blocks C known blocks = ([], k) \<longleftrightarrow>
     list_all (\<lambda>b. is_block_id (pb_id b) \<and> block_problems C b = []) blocks
     \<and> distinct (map pb_id blocks) \<and> fst ` set known \<inter> pb_id ` set blocks = {}
     \<and> k = foldl (\<lambda>m b. bt_insert (pb_id b) b m) known blocks"
proof (induction C known blocks rule: read_blocks.induct)
  case (2 C known block rest)
  show ?case
  proof (cases "is_block_id (pb_id block)")
    case True
    have "read_blocks C known (block # rest) = ([], k) \<longleftrightarrow>
        bt_get known (pb_id block) = None \<and> block_problems C block = []
        \<and> read_blocks C (bt_insert (pb_id block) block known) rest = ([], k)"
      using True by (auto split: prod.splits if_splits)
    also have "\<dots> \<longleftrightarrow> list_all (\<lambda>b. is_block_id (pb_id b) \<and> block_problems C b = []) (block # rest)
        \<and> distinct (map pb_id (block # rest)) \<and> fst ` set known \<inter> pb_id ` set (block # rest) = {}
        \<and> k = foldl (\<lambda>m b. bt_insert (pb_id b) b m) known (block # rest)"
      using "2.IH"(2) True by (auto simp: bt_get_None_iff)
    finally show ?thesis .
  qed (auto split: prod.splits)
qed auto

lemma known_of_blocks: "foldl (\<lambda>m b. bt_insert (pb_id b) b m) [] blocks = bt_collect (map (\<lambda>b. (pb_id b, b)) blocks)"
  by (simp add: bt_collect_def foldl_map)

definition index_of :: "pipeline_block list \<Rightarrow> block_index" where
  "index_of blocks = bt_collect (map (\<lambda>b. (pb_id b, b)) blocks)"

lemma index_get:
  "distinct (map pb_id blocks) \<Longrightarrow> bt_get (index_of blocks) i = Some b \<longleftrightarrow> b \<in> set blocks \<and> pb_id b = i"
proof -
  assume d: "distinct (map pb_id blocks)"
  have "bt_get (index_of blocks) i = map_of (map (\<lambda>b. (pb_id b, b)) (rev blocks)) i"
    by (simp add: index_of_def bt_get_collect rev_map)
  moreover have "distinct (map fst (map (\<lambda>b. (pb_id b, b)) (rev blocks)))"
    using d by (simp add: comp_def rev_map [symmetric])
  ultimately show ?thesis by (auto simp: map_of_eq_Some_iff)
qed

lemma index_keys: "fst ` set (index_of blocks) = pb_id ` set blocks"
  by (simp add: index_of_def image_image)

lemma index_ok [simp]: "bt_ok (index_of blocks)"
  by (simp add: index_of_def)

lemma index_length: "distinct (map pb_id blocks) \<Longrightarrow> length (index_of blocks) = length blocks"
proof -
  assume d: "distinct (map pb_id blocks)"
  have "length (index_of blocks) = card (fst ` set (index_of blocks))"
    using distinct_card [OF bt_ok_distinct [OF index_ok [of blocks]]] by simp
  also have "\<dots> = length blocks" using distinct_card [OF d] by (simp add: index_keys)
  finally show ?thesis .
qed

lemma index_values: "distinct (map pb_id blocks) \<Longrightarrow> set (bt_values (index_of blocks)) = set blocks"
proof -
  assume d: "distinct (map pb_id blocks)"
  have "b \<in> set (bt_values (index_of blocks)) \<longleftrightarrow> b \<in> set blocks" for b
  proof
    assume "b \<in> set (bt_values (index_of blocks))"
    then obtain i where "(i, b) \<in> set (index_of blocks)" by (auto simp: bt_values_def)
    from bt_in_set_get [OF index_ok this] show "b \<in> set blocks" by (simp add: index_get [OF d])
  next
    assume "b \<in> set blocks"
    then have "bt_get (index_of blocks) (pb_id b) = Some b" by (simp add: index_get [OF d])
    from bt_get_in_set [OF this] show "b \<in> set (bt_values (index_of blocks))" by (force simp: bt_values_def)
  qed
  then show ?thesis by blast
qed

subsection \<open>The edges\<close>

definition edge_pair :: "pipeline_edge \<Rightarrow> string \<times> string" where
  "edge_pair e = (pe_from e, pe_to e)"

lemma edge_pair_inj: "edge_pair a = edge_pair b \<longleftrightarrow> a = b"
  by (cases a; cases b) (simp add: edge_pair_def)

lemma read_edge_problems: "\<exists>ps. wr_problems (read_edge known w e) = wr_problems w @ ps"
  by (simp add: read_edge_def Let_def)

lemma read_edges_snoc: "read_edges known (es @ [e]) = read_edge known (read_edges known es) e"
  by (simp add: read_edges_def)

text \<open>Edges without problems: known ends, no loop on one block, each end used once.\<close>

definition wired :: "block_index \<Rightarrow> pipeline_edge list \<Rightarrow> bool" where
  "wired known es \<longleftrightarrow>
     (\<forall>e \<in> set es. pe_from e \<in> fst ` set known \<and> pe_to e \<in> fst ` set known \<and> pe_from e \<noteq> pe_to e)
     \<and> distinct (map pe_from es) \<and> distinct (map pe_to es)"

lemma read_edges_spec:
  "(wr_problems (read_edges known es) = [] \<longleftrightarrow> wired known es)
   \<and> (wired known es \<longrightarrow>
        (\<forall>a b. bt_get (wr_next (read_edges known es)) a = Some b \<longleftrightarrow> (a, b) \<in> edge_pair ` set es)
        \<and> set (wr_fed (read_edges known es)) = pe_to ` set es)"
proof (induction es rule: rev_induct)
  case Nil
  show ?case by (simp add: read_edges_def wired_def)
next
  case (snoc e es)
  let ?w = "read_edges known es"
  show ?case
  proof (cases "wired known es")
    case False
    then have "wr_problems ?w \<noteq> []" using snoc by simp
    then have "wr_problems (read_edges known (es @ [e])) \<noteq> []"
      using read_edge_problems [of known ?w e] by (auto simp: read_edges_snoc)
    moreover have "\<not> wired known (es @ [e])" using False by (auto simp: wired_def)
    ultimately show ?thesis by simp
  next
    case True
    with snoc have ih: "wr_problems ?w = []"
      "\<And>a b. bt_get (wr_next ?w) a = Some b \<longleftrightarrow> (a, b) \<in> edge_pair ` set es"
      "set (wr_fed ?w) = pe_to ` set es" by auto
    have none: "bt_get (wr_next ?w) a = None \<longleftrightarrow> a \<notin> pe_from ` set es" for a
    proof -
      have "a \<in> pe_from ` set es \<longleftrightarrow> (\<exists>b. (a, b) \<in> edge_pair ` set es)" by (auto simp: edge_pair_def)
      with ih(2) show ?thesis by (metis not_None_eq)
    qed
    have problems: "wr_problems (read_edges known (es @ [e])) = [] \<longleftrightarrow>
        pe_from e \<in> fst ` set known \<and> pe_to e \<in> fst ` set known \<and> pe_from e \<noteq> pe_to e
        \<and> pe_from e \<notin> pe_from ` set es \<and> pe_to e \<notin> pe_to ` set es"
      using ih(1,3) none by (auto simp: read_edges_snoc read_edge_def Let_def bt_get_None_iff)
    moreover have "wired known (es @ [e]) \<longleftrightarrow> \<dots>" using True by (auto simp: wired_def)
    ultimately have iff: "wr_problems (read_edges known (es @ [e])) = [] \<longleftrightarrow> wired known (es @ [e])" by simp
    have "(\<forall>a b. bt_get (wr_next (read_edges known (es @ [e]))) a = Some b \<longleftrightarrow> (a, b) \<in> edge_pair ` set (es @ [e]))
        \<and> set (wr_fed (read_edges known (es @ [e]))) = pe_to ` set (es @ [e])" if "wired known (es @ [e])"
    proof -
      from that problems iff have e: "bt_get known (pe_from e) \<noteq> None" "bt_get known (pe_to e) \<noteq> None"
        "pe_from e \<noteq> pe_to e" "pe_from e \<notin> pe_from ` set es" by (auto simp: bt_get_None_iff)
      have "(pe_from e, b) \<notin> edge_pair ` set es" for b using e(4) by (auto simp: edge_pair_def)
      with e ih(2,3) show ?thesis
        by (auto simp: read_edges_snoc read_edge_def Let_def edge_pair_def)
    qed
    with iff show ?thesis by blast
  qed
qed

subsection \<open>The walk\<close>

definition pairs :: "string list \<Rightarrow> (string \<times> string) list" where
  "pairs xs = zip xs (tl xs)"

lemma pairs_simps [simp]:
  "pairs [] = []" "pairs [x] = []" "pairs (x # y # zs) = (x, y) # pairs (y # zs)"
  by (simp_all add: pairs_def)

lemma pairs_fst: "map fst (pairs xs) = butlast xs"
  by (induction xs rule: induct_list012) simp_all

lemma pairs_snd: "map snd (pairs xs) = tl xs"
  by (induction xs rule: induct_list012) simp_all

lemma pairs_neq: "distinct xs \<Longrightarrow> (a, b) \<in> set (pairs xs) \<Longrightarrow> a \<noteq> b"
  by (induction xs rule: induct_list012) auto

lemma pairs_mem: "(a, b) \<in> set (pairs xs) \<Longrightarrow> a \<in> set xs \<and> b \<in> set xs"
  by (induction xs rule: induct_list012) auto

lemma pairs_before: "b \<in> set xs \<Longrightarrow> b \<noteq> hd xs \<Longrightarrow> \<exists>a. (a, b) \<in> set (pairs xs)"
  by (induction xs rule: induct_list012) auto

lemma distinct_pairs: "distinct xs \<Longrightarrow> distinct (pairs xs)"
  by (simp add: pairs_def distinct_zipI1)

fun follows :: "(string, string) btree \<Rightarrow> string list \<Rightarrow> bool" where
  "follows f [] = True"
| "follows f [i] = (bt_get f i = None)"
| "follows f (i # j # rest) = (bt_get f i = Some j \<and> follows f (j # rest))"

lemma walk_follows:
  "follows f (map pb_id rest) \<Longrightarrow> distinct (map pb_id rest) \<Longrightarrow> set walked \<inter> pb_id ` set rest = {} \<Longrightarrow>
   (\<forall>b \<in> set rest. bt_get known (pb_id b) = Some b) \<Longrightarrow> rest \<noteq> [] \<Longrightarrow>
   walk_chain known f walked (Some (pb_id (hd rest))) = rest"
proof (induction rest arbitrary: walked rule: induct_list012)
  case (3 b c rest)
  have "walk_chain known f (pb_id b # walked) (Some (pb_id (hd (c # rest)))) = c # rest"
    using 3 by (intro "3.IH"(2)) auto
  with 3 show ?case by simp
qed simp_all

lemma walk_sound:
  assumes "\<And>i b. bt_get known i = Some b \<Longrightarrow> pb_id b = i"
  shows "distinct (map pb_id (walk_chain known f walked cursor))
    \<and> set walked \<inter> pb_id ` set (walk_chain known f walked cursor) = {}
    \<and> (\<forall>b \<in> set (walk_chain known f walked cursor). bt_get known (pb_id b) = Some b)
    \<and> (walk_chain known f walked cursor \<noteq> [] \<longrightarrow> cursor = Some (pb_id (hd (walk_chain known f walked cursor))))
    \<and> (\<forall>(a, b) \<in> set (pairs (map pb_id (walk_chain known f walked cursor))). bt_get f a = Some b)"
  using assms
proof (induction known f walked cursor rule: walk_chain.induct)
  case (2 known f walked i)
  show ?case
  proof (cases "i \<in> set walked \<or> bt_get known i = None")
    case True
    then show ?thesis by (auto split: option.splits)
  next
    case False
    then obtain block where block: "bt_get known i = Some block" by auto
    let ?rest = "walk_chain known f (i # walked) (bt_get f i)"
    have eq: "walk_chain known f walked (Some i) = block # ?rest" using False block by simp
    have i: "pb_id block = i" using 2(2) [OF block] .
    have ih: "distinct (map pb_id ?rest) \<and> set (i # walked) \<inter> pb_id ` set ?rest = {}
      \<and> (\<forall>b \<in> set ?rest. bt_get known (pb_id b) = Some b)
      \<and> (?rest \<noteq> [] \<longrightarrow> bt_get f i = Some (pb_id (hd ?rest)))
      \<and> (\<forall>(a, b) \<in> set (pairs (map pb_id ?rest)). bt_get f a = Some b)"
      using False block 2 by blast
    have "\<forall>(a, b) \<in> set (pairs (map pb_id (block # ?rest))). bt_get f a = Some b"
      using ih i by (cases ?rest) auto
    with ih block i False show ?thesis unfolding eq by auto
  qed
qed simp

subsection \<open>The order of the kinds\<close>

definition seals :: "pipeline_block \<Rightarrow> bool" where
  "seals block = (case pb_spec block of NotebookBlock _ _ _ \<Rightarrow> True | ApprovalBlock _ _ _ _ _ \<Rightarrow> True | _ \<Rightarrow> False)"

definition is_transform :: "pipeline_block \<Rightarrow> bool" where
  "is_transform block = (transform_engine block \<noteq> None)"

definition kinds_ok :: "pipeline_block list \<Rightarrow> bool" where
  "kinds_ok chain \<longleftrightarrow>
     is_source (hd chain) \<and> list_all (\<lambda>b. \<not> is_source b) (tl chain)
     \<and> list_all (\<lambda>b. \<not> is_view b) (butlast chain)
     \<and> list_all (\<lambda>b. \<not> is_transform b) (dropWhile (\<lambda>b. \<not> seals b) chain)
     \<and> (\<forall>b \<in> set chain. \<forall>c \<in> set chain. is_transform b \<longrightarrow> is_transform c \<longrightarrow> transform_engine b = transform_engine c)"

lemma engines_of_ok: "bt_ok found \<Longrightarrow> bt_ok (engines_of found xs)"
  by (induction found xs rule: engines_of.induct) (auto split: option.splits)

lemma engines_of_keys: "fst ` set (engines_of found xs) = fst ` set found \<union> {e. \<exists>b \<in> set xs. transform_engine b = Some e}"
proof (induction found xs rule: engines_of.induct)
  case (2 found b rest)
  then show ?case by (cases "transform_engine b") (auto simp: bt_get_dom split: if_splits dest: bt_get_in_set)
qed simp

lemma one_engine:
  "length (engines_of [] chain) \<le> 1 \<longleftrightarrow>
     (\<forall>b \<in> set chain. \<forall>c \<in> set chain. is_transform b \<longrightarrow> is_transform c \<longrightarrow> transform_engine b = transform_engine c)"
proof -
  have "length (engines_of [] chain) = card (fst ` set (engines_of [] chain))"
    using distinct_card [OF bt_ok_distinct [OF engines_of_ok [OF bt_ok_Nil, of chain]]] by simp
  also have "\<dots> \<le> 1 \<longleftrightarrow> (\<forall>d \<in> fst ` set (engines_of [] chain). \<forall>e \<in> fst ` set (engines_of [] chain). d = e)"
    by (simp add: card_le_Suc0_iff_eq)
  also have "\<dots> \<longleftrightarrow>
     (\<forall>b \<in> set chain. \<forall>c \<in> set chain. is_transform b \<longrightarrow> is_transform c \<longrightarrow> transform_engine b = transform_engine c)"
    (is "?keys \<longleftrightarrow> ?blocks")
  proof
    assume keys: ?keys
    show ?blocks
    proof (intro ballI impI)
      fix b c
      assume bc: "b \<in> set chain" "c \<in> set chain" "is_transform b" "is_transform c"
      then obtain d e where engines: "transform_engine b = Some d" "transform_engine c = Some e"
        unfolding is_transform_def by blast
      then have mem: "d \<in> fst ` set (engines_of [] chain)" "e \<in> fst ` set (engines_of [] chain)"
        unfolding engines_of_keys using bc by blast+
      have "d = e" by (rule keys [rule_format, OF mem])
      with engines show "transform_engine b = transform_engine c" by simp
    qed
  next
    assume blocks: ?blocks
    show ?keys
    proof (intro ballI)
      fix d e
      assume "d \<in> fst ` set (engines_of [] chain)" "e \<in> fst ` set (engines_of [] chain)"
      then obtain b c where bc: "b \<in> set chain" "c \<in> set chain"
        "transform_engine b = Some d" "transform_engine c = Some e"
        unfolding engines_of_keys by simp blast
      then have "is_transform b" "is_transform c" by (simp_all add: is_transform_def)
      with blocks bc have "transform_engine b = transform_engine c" by blast
      with bc show "d = e" by simp
    qed
  qed
  finally show ?thesis .
qed

lemma seal_problems_Nil:
  "seal_problems sealed seen xs = [] \<longleftrightarrow>
     (seen \<noteq> None \<longrightarrow> xs = []) \<and> list_all (\<lambda>b. \<not> is_view b) (butlast xs)
     \<and> (sealed \<noteq> None \<longrightarrow> list_all (\<lambda>b. \<not> is_transform b) xs)
     \<and> list_all (\<lambda>b. \<not> is_transform b) (dropWhile (\<lambda>b. \<not> seals b) xs)"
proof (induction sealed seen xs rule: seal_problems.induct)
  case (2 sealed seen b rest)
  have drop: "list_all (\<lambda>b. \<not> is_transform b) rest \<Longrightarrow> list_all (\<lambda>b. \<not> is_transform b) (dropWhile (\<lambda>b. \<not> seals b) rest)"
    by (auto simp: list_all_iff dest: set_dropWhileD)
  show ?case
    using "2.IH" drop
    by (cases "pb_spec b"; cases sealed; cases seen; cases rest)
      (auto simp: Let_def seals_def is_transform_def transform_engine_def is_view_def)
qed simp

lemma chain_problems_Nil: "chain_problems chain = [] \<longleftrightarrow> kinds_ok chain"
  unfolding chain_problems_def append_is_Nil_conv seal_problems_Nil kinds_ok_def one_engine [symmetric]
  by (auto simp: list_all_iff filter_empty_conv split: if_splits)

subsection \<open>The chain\<close>

definition chain_of :: "crates \<Rightarrow> pipeline_block list \<Rightarrow> pipeline_edge list \<Rightarrow> pipeline_block list \<Rightarrow> bool" where
  "chain_of C blocks edges chain \<longleftrightarrow>
     blocks \<noteq> [] \<and> int (length blocks) \<le> MAX_BLOCKS
     \<and> list_all (\<lambda>b. is_block_id (pb_id b) \<and> block_problems C b = []) blocks
     \<and> distinct (map pb_id blocks) \<and> mset chain = mset blocks
     \<and> mset (map edge_pair edges) = mset (pairs (map pb_id chain))
     \<and> kinds_ok chain"

lemma wired_pairs:
  assumes "mset (map edge_pair edges) = mset (pairs ids)" and "distinct ids" and "fst ` set known = set ids"
  shows "wired known edges" and "edge_pair ` set edges = set (pairs ids)" and "pe_to ` set edges = set (tl ids)"
proof -
  show set: "edge_pair ` set edges = set (pairs ids)" using mset_eq_setD [OF assms(1)] by simp
  have "mset (map pe_from edges) = mset (butlast ids)"
  proof -
    have comp: "fst \<circ> edge_pair = pe_from" by (auto simp: edge_pair_def)
    show ?thesis
      using arg_cong [OF assms(1), of "image_mset fst"]
      by (simp only: mset_map [symmetric] map_map comp pairs_fst)
  qed
  then have froms: "distinct (map pe_from edges)"
    using assms(2) by (metis distinct_butlast mset_eq_imp_distinct_iff)
  have tos_eq: "mset (map pe_to edges) = mset (tl ids)"
  proof -
    have comp: "snd \<circ> edge_pair = pe_to" by (auto simp: edge_pair_def)
    show ?thesis
      using arg_cong [OF assms(1), of "image_mset snd"]
      by (simp only: mset_map [symmetric] map_map comp pairs_snd)
  qed
  then have tos: "distinct (map pe_to edges)"
    using assms(2) by (metis distinct_tl mset_eq_imp_distinct_iff)
  show "pe_to ` set edges = set (tl ids)" using mset_eq_setD [OF tos_eq] by simp
  have "pe_from e \<in> set ids \<and> pe_to e \<in> set ids \<and> pe_from e \<noteq> pe_to e" if "e \<in> set edges" for e
  proof -
    have "(pe_from e, pe_to e) \<in> set (pairs ids)" using that set by (force simp: edge_pair_def)
    with pairs_mem [OF this] pairs_neq [OF assms(2) this] show ?thesis by simp
  qed
  with froms tos show "wired known edges" by (auto simp: wired_def assms(3))
qed

lemma follows_pairs:
  assumes "distinct ids" and "\<And>a b. bt_get f a = Some b \<longleftrightarrow> (a, b) \<in> set (pairs ids)"
  shows "follows f ids"
proof -
  have last_free: "(last ids, b) \<notin> set (pairs ids)" if "ids \<noteq> []" for b
  proof
    assume "(last ids, b) \<in> set (pairs ids)"
    then have "last ids \<in> set (butlast ids)" by (metis image_eqI fst_conv pairs_fst set_map)
    with assms(1) that show False by (metis append_butlast_last_id distinct_butlast not_distinct_conv_prefix)
  qed
  have "follows f suffix" if "ids = prefix @ suffix" for prefix suffix
    using that
  proof (induction suffix arbitrary: prefix rule: induct_list012)
    case (2 i)
    then have "bt_get f i = None"
      using last_free assms(2) [of i] by (cases "bt_get f i") auto
    then show ?case by simp
  next
    case (3 i j rest)
    have "(i, j) \<in> set (pairs ids)"
      unfolding 3(3) by (induction prefix rule: induct_list012) auto
    with 3(2) [of "prefix @ [i]"] 3(3) show ?case by (simp add: assms(2))
  qed simp
  from this [of "[]" ids] show ?thesis by simp
qed

lemma distinct_singleton:
  assumes "distinct xs" and "set xs = {x}"
  shows "xs = [x]"
proof (cases xs)
  case (Cons y ys)
  with assms have "y = x" "set ys \<subseteq> {x}" "x \<notin> set ys" by auto
  then have "ys = []" by (cases ys) auto
  with Cons \<open>y = x\<close> show ?thesis by simp
qed (use assms in simp)

lemma heads_of_chain:
  assumes "distinct (map pb_id blocks)" and "set (wr_fed w) = pb_id ` set (tl chain)"
    and "set chain = set blocks" and "distinct (map pb_id chain)" and "chain \<noteq> []"
  shows "chain_heads (index_of blocks) w = [hd chain]"
proof -
  have "set (chain_heads (index_of blocks) w) = {hd chain}"
    using assms(2-5) by (cases chain) (auto simp: chain_heads_def index_values [OF assms(1)])
  moreover have "distinct (chain_heads (index_of blocks) w)"
  proof -
    have "map pb_id (bt_values (index_of blocks)) = bt_keys (index_of blocks)"
    proof -
      have "pb_id b = i" if "(i, b) \<in> set (index_of blocks)" for i b
        using bt_in_set_get [OF index_ok that] by (simp add: index_get [OF assms(1)])
      then show ?thesis by (auto simp: bt_values_def bt_keys_def)
    qed
    then have "distinct (bt_values (index_of blocks))"
      using bt_ok_distinct [OF index_ok [of blocks]] by (metis bt_keys_def distinct_map)
    then show ?thesis by (simp add: chain_heads_def)
  qed
  ultimately show ?thesis by (intro distinct_singleton)
qed

text \<open>The canvas read: known blocks, wired edges, exactly one head.\<close>

lemma order_of_Inr:
  "order_of C blocks edges = Inr chain \<longleftrightarrow>
     blocks \<noteq> [] \<and> int (length blocks) \<le> MAX_BLOCKS
     \<and> list_all (\<lambda>b. is_block_id (pb_id b) \<and> block_problems C b = []) blocks \<and> distinct (map pb_id blocks)
     \<and> wired (index_of blocks) edges
     \<and> length (chain_heads (index_of blocks) (read_edges (index_of blocks) edges)) = 1
     \<and> chain = walk_chain (index_of blocks) (wr_next (read_edges (index_of blocks) edges)) []
                 (Some (pb_id (hd (chain_heads (index_of blocks) (read_edges (index_of blocks) edges)))))
     \<and> length chain = length blocks \<and> kinds_ok chain"
proof -
  obtain issues known where read: "read_blocks C [] blocks = (issues, known)" by (metis surj_pair)
  have blocks: "issues = [] \<longleftrightarrow> list_all (\<lambda>b. is_block_id (pb_id b) \<and> block_problems C b = []) blocks
      \<and> distinct (map pb_id blocks)"
    and known: "issues = [] \<Longrightarrow> known = index_of blocks"
    using read_blocks_known [of C "[]" blocks] read known_of_blocks [of blocks] by (auto simp: index_of_def)
  show ?thesis
  proof (cases "issues = []")
    case True
    then have k: "known = index_of blocks" by (rule known)
    have d: "distinct (map pb_id blocks)" using True blocks by blast
    show ?thesis
      using read True blocks read_edges_spec [of "index_of blocks" edges]
      unfolding order_of_def Let_def read prod.case k chain_problems_Nil index_length [OF d]
      by (auto simp: chain_problems_Nil split: if_splits)
  next
    case False
    then show ?thesis using blocks by (auto simp: order_of_def Let_def read)
  qed
qed

lemma order_of_iff:
  "order_of C blocks edges = Inr chain \<longleftrightarrow> chain_of C blocks edges chain"
proof
  assume "order_of C blocks edges = Inr chain"
  then have o: "blocks \<noteq> []" "int (length blocks) \<le> MAX_BLOCKS"
    "list_all (\<lambda>b. is_block_id (pb_id b) \<and> block_problems C b = []) blocks" "distinct (map pb_id blocks)"
    "wired (index_of blocks) edges"
    "length (chain_heads (index_of blocks) (read_edges (index_of blocks) edges)) = 1"
    "chain = walk_chain (index_of blocks) (wr_next (read_edges (index_of blocks) edges)) []
       (Some (pb_id (hd (chain_heads (index_of blocks) (read_edges (index_of blocks) edges)))))"
    "length chain = length blocks" "kinds_ok chain"
    unfolding order_of_Inr by blast+
  let ?w = "read_edges (index_of blocks) edges"
  let ?ids = "map pb_id chain"
  have get: "bt_get (index_of blocks) i = Some b \<Longrightarrow> pb_id b = i" for i b
    by (simp add: index_get [OF o(4)])
  note edges = conjunct2 [OF read_edges_spec [of "index_of blocks" edges], rule_format, OF o(5)]
  note walk = walk_sound [of "index_of blocks", OF get, where f = "wr_next ?w" and walked = "[]"
      and cursor = "Some (pb_id (hd (chain_heads (index_of blocks) ?w)))", folded o(7)]
  have ids: "distinct ?ids" using walk by blast
  have sub: "set chain \<subseteq> set blocks" using walk by (auto simp: index_get [OF o(4)])
  have set: "set chain = set blocks"
    using sub ids o(4,8) by (metis card_subset_eq List.finite_set distinct_card distinct_map)
  have "chain \<noteq> []" using o(1,8) by auto
  then have head: "pb_id (hd (chain_heads (index_of blocks) ?w)) = hd ?ids"
    using walk by (simp add: hd_map)
  have unfed: "hd ?ids \<notin> pe_to ` set edges"
  proof -
    have "hd (chain_heads (index_of blocks) ?w) \<in> set (chain_heads (index_of blocks) ?w)"
      using o(6) by (intro hd_in_set) auto
    then show ?thesis using edges head by (auto simp: chain_heads_def)
  qed
  have forth: "set (pairs ?ids) \<subseteq> edge_pair ` set edges" using walk edges by auto
  have "(a, b) \<in> set (pairs ?ids)" if "(a, b) \<in> edge_pair ` set edges" for a b
  proof -
    from that obtain e where e: "e \<in> set edges" "a = pe_from e" "b = pe_to e" by (auto simp: edge_pair_def)
    have "b \<in> set ?ids" using e o(5) set by (auto simp: wired_def index_keys)
    moreover have "b \<in> pe_to ` set edges" using e by simp
    then have "b \<noteq> hd ?ids" using unfed by metis
    ultimately obtain p where p: "(p, b) \<in> set (pairs ?ids)" using pairs_before by blast
    then obtain e' where "e' \<in> set edges" "pe_from e' = p" "pe_to e' = b"
      using forth by (force simp: edge_pair_def)
    with e o(5) have "e' = e" by (auto simp: wired_def distinct_map inj_on_def)
    with \<open>pe_from e' = p\<close> e p show ?thesis by simp
  qed
  then have "edge_pair ` set edges = set (pairs ?ids)" using forth by (auto simp: edge_pair_def)
  moreover have "distinct (map edge_pair edges)"
    using o(5) by (auto simp: wired_def distinct_map inj_on_def edge_pair_def)
  ultimately have "mset (map edge_pair edges) = mset (pairs ?ids)"
    using distinct_pairs [OF ids] by (intro set_eq_iff_mset_eq_distinct [THEN iffD1]) simp_all
  moreover have "mset chain = mset blocks"
    using set ids o(4) by (intro set_eq_iff_mset_eq_distinct [THEN iffD1]) (auto simp: distinct_map)
  ultimately show "chain_of C blocks edges chain" using o by (simp add: chain_of_def)
next
  assume "chain_of C blocks edges chain"
  then have c: "blocks \<noteq> []" "int (length blocks) \<le> MAX_BLOCKS"
    "list_all (\<lambda>b. is_block_id (pb_id b) \<and> block_problems C b = []) blocks" "distinct (map pb_id blocks)"
    "mset chain = mset blocks" "mset (map edge_pair edges) = mset (pairs (map pb_id chain))" "kinds_ok chain"
    by (simp_all add: chain_of_def)
  let ?w = "read_edges (index_of blocks) edges"
  let ?ids = "map pb_id chain"
  have set: "set chain = set blocks" using c(5) by (rule mset_eq_setD)
  have "mset ?ids = mset (map pb_id blocks)" using c(5) by simp
  then have ids: "distinct ?ids" using c(4) by (metis mset_eq_imp_distinct_iff)
  have "fst ` set (index_of blocks) = set ?ids" by (simp add: index_keys set)
  note w = wired_pairs [OF c(6) ids this]
  note edges = conjunct2 [OF read_edges_spec [of "index_of blocks" edges], rule_format, OF w(1)]
  have "chain \<noteq> []" using c(1) set by auto
  have "set (wr_fed ?w) = pb_id ` set (tl chain)" using edges w(3) by (simp add: map_tl [symmetric])
  from heads_of_chain [OF c(4) this set ids \<open>chain \<noteq> []\<close>]
  have heads: "chain_heads (index_of blocks) ?w = [hd chain]" .
  have "follows (wr_next ?w) ?ids" using edges w(2) by (intro follows_pairs [OF ids]) auto
  from walk_follows [OF this ids, of "[]" "index_of blocks"]
  have "walk_chain (index_of blocks) (wr_next ?w) [] (Some (pb_id (hd chain))) = chain"
    using set \<open>chain \<noteq> []\<close> by (simp add: index_get [OF c(4)])
  moreover have "length chain = length blocks" using c(5) by (rule mset_eq_length)
  ultimately show "order_of C blocks edges = Inr chain"
    unfolding order_of_Inr using c w(1) heads by simp
qed

text \<open>C30: A canvas is read as the chain it draws: \<open>order_of\<close> returns a list exactly when that list is the
  chain of the blocks and edges, and reports problems exactly when there is no such chain.\<close>

theorem order_of_is_the_chain:
  "order_of C blocks edges = Inr chain \<longleftrightarrow> chain_of C blocks edges chain"
  by (rule order_of_iff)

end
