(* ===== verification/Curation_Props.thy ===== *)
theory Curation_Props
  imports Curation Chain_Props Workflow_Props
begin

text \<open>
  What compiling a curation promises: the plan is a chain whose first step is the query and whose
  other steps are the blocks after it, each step reads the rows of the last step before it that
  produced any, every block of the canvas is one that some step performs, and the engine carries
  the plan. The text generators keep a value a value: a quoted literal reads back as what was
  written, whatever it holds.
\<close>

subsection \<open>The fold\<close>

definition has_rows :: "plan_step \<Rightarrow> bool" where
  "has_rows step = (ps_outputs step \<noteq> [])"

definition producer :: "plan_step list \<Rightarrow> string option" where
  "producer steps = (if filter has_rows steps = [] then None else Some (ps_id (last (filter has_rows steps))))"

lemma producer_snoc: "producer (steps @ [step]) = (if has_rows step then Some (ps_id step) else producer steps)"
  by (simp add: producer_def)

text \<open>Each step reads the rows of the last step before it that produced rows, and nothing else.\<close>

definition rows_chained :: "plan_step list \<Rightarrow> bool" where
  "rows_chained steps \<longleftrightarrow>
     (\<forall>before step after. steps = before @ step # after \<longrightarrow> ps_inputs step = reads_rows (producer before))"

lemma rows_chained_Nil [simp]: "rows_chained []"
  by (simp add: rows_chained_def)

lemma rows_chained_snoc:
  "rows_chained (steps @ [step]) \<longleftrightarrow> rows_chained steps \<and> ps_inputs step = reads_rows (producer steps)"
proof
  assume all: "rows_chained (steps @ [step])"
  have "rows_chained steps"
    unfolding rows_chained_def
  proof (intro allI impI)
    fix before x after
    assume "steps = before @ x # after"
    then have "steps @ [step] = before @ x # (after @ [step])" by simp
    then show "ps_inputs x = reads_rows (producer before)" using all unfolding rows_chained_def by blast
  qed
  then show "rows_chained steps \<and> ps_inputs step = reads_rows (producer steps)"
    using all unfolding rows_chained_def by blast
next
  assume parts: "rows_chained steps \<and> ps_inputs step = reads_rows (producer steps)"
  show "rows_chained (steps @ [step])"
    unfolding rows_chained_def
  proof (intro allI impI)
    fix before x after
    assume split: "steps @ [step] = before @ x # after"
    show "ps_inputs x = reads_rows (producer before)"
    proof (cases after rule: rev_cases)
      case Nil
      with split parts show ?thesis by simp
    next
      case (snoc mid y)
      with split have "steps = before @ x # mid" by simp
      with parts show ?thesis unfolding rows_chained_def by blast
    qed
  qed
qed

definition linked :: "compilation \<Rightarrow> bool" where
  "linked c \<longleftrightarrow>
     cm_steps c \<noteq> []
     \<and> cm_edges c = map (\<lambda>(a, b). PlanEdge a b) (pairs (map ps_id (cm_steps c)))
     \<and> cm_previous c = Some (ps_id (last (cm_steps c)))
     \<and> cm_rows_from c = producer (cm_steps c) \<and> rows_chained (cm_steps c)"

lemma pairs_snoc: "xs \<noteq> [] \<Longrightarrow> pairs (xs @ [y]) = pairs xs @ [(last xs, y)]"
  by (induction xs rule: induct_list012) auto

text \<open>What a block needs beyond the shape of the chain, and the step it becomes.\<close>

definition block_pinned :: "pipeline_block \<Rightarrow> bool" where
  "block_pinned b =
     (case pb_spec b of
        NotebookBlock _ revision _ \<Rightarrow> is_some_and (\<lambda>r. r \<noteq> []) revision
      | ViewBlock dataset \<Rightarrow> is_some_and (\<lambda>name. name \<noteq> []) dataset
      | ApprovalBlock _ _ _ _ _ \<Rightarrow> True
      | _ \<Rightarrow> False)"

definition performs :: "pipeline_block \<Rightarrow> plan_step \<Rightarrow> bool" where
  "performs b step \<longleftrightarrow>
     ps_id step = pb_id b \<and> binding_blocks (ps_runtime step) = Some [pb_id b]
     \<and> (\<forall>gate. ps_runtime step = HumanInput gate \<longrightarrow>
          pb_spec b = ApprovalBlock (hi_prompt gate) (hi_role gate) (hi_choices gate)
                        (hi_timeout_seconds gate) (hi_on_timeout gate))"

lemma compile_block_problems: "\<exists>ps. cm_problems (compile_block p options c b) = cm_problems c @ ps \<and> (ps = [] \<longleftrightarrow> block_pinned b)"
  by (cases "pb_spec b")
    (auto simp: compile_block_def block_pinned_def push_problem_def push_step_def link_step_def is_some_and_iff
      split: option.splits)

lemma linked_snoc:
  assumes "linked c" and "ps_inputs step = reads_rows (cm_rows_from c)"
    and "rows = (if has_rows step then Some (ps_id step) else cm_rows_from c)"
  shows "linked (link_step (ps_id step) ((push_step step c)\<lparr>cm_rows_from := rows\<rparr>))"
  using assms
  by (simp add: linked_def link_step_def push_step_def producer_snoc rows_chained_snoc pairs_snoc last_map)

lemma compile_block_linked:
  assumes "linked c" and "block_pinned b"
  shows "linked (compile_block p options c b) \<and>
    (\<exists>step. cm_steps (compile_block p options c b) = cm_steps c @ [step] \<and> performs b step)"
proof -
  have step: "linked (compile_block p options c b) \<and>
      (\<exists>step. cm_steps (compile_block p options c b) = cm_steps c @ [step] \<and> performs b step)"
    if "compile_block p options c b = link_step (ps_id step) ((push_step step c)\<lparr>cm_rows_from := rows\<rparr>)"
      and "ps_inputs step = reads_rows (cm_rows_from c)"
      and "rows = (if has_rows step then Some (ps_id step) else cm_rows_from c)" and "performs b step" for step rows
    using linked_snoc [OF assms(1) that(2,3)] that(1,4) by (auto simp: link_step_def push_step_def)
  show ?thesis
  proof (cases "pb_spec b")
    case (NotebookBlock notebook revision params)
    with assms(2) obtain r where r: "revision = Some r" "r \<noteq> []"
      by (auto simp: block_pinned_def is_some_and_iff)
    show ?thesis
      by (rule step [of "notebook_step b notebook r params (cm_rows_from c)" "Some (pb_id b)"])
        (simp_all add: compile_block_def NotebookBlock r notebook_step_def has_rows_def performs_def option_list_def)
  next
    case (ApprovalBlock prompt role choices t policy)
    show ?thesis
      by (rule step [of "approval_step b prompt role choices t policy (cm_rows_from c)" "cm_rows_from c"])
        (simp_all add: compile_block_def ApprovalBlock approval_step_def has_rows_def performs_def option_list_def
          push_step_def)
  next
    case (ViewBlock dataset)
    with assms(2) obtain name where name: "dataset = Some name" "name \<noteq> []"
      by (auto simp: block_pinned_def is_some_and_iff)
    show ?thesis
      by (rule step [of "publish_step p options b name (cm_rows_from c)" "cm_rows_from c"])
        (simp_all add: compile_block_def ViewBlock name publish_step_def has_rows_def performs_def option_list_def
          push_step_def)
  qed (use assms(2) in \<open>simp_all add: block_pinned_def\<close>)
qed

lemma compile_blocks_problems:
  "cm_problems (foldl (compile_block p options) c bs) = [] \<longleftrightarrow> cm_problems c = [] \<and> list_all block_pinned bs"
proof (induction bs arbitrary: c)
  case (Cons b bs)
  obtain ps where "cm_problems (compile_block p options c b) = cm_problems c @ ps" "ps = [] \<longleftrightarrow> block_pinned b"
    using compile_block_problems by blast
  with Cons show ?case by auto
qed simp

lemma compile_blocks_linked:
  assumes "linked c" and "list_all block_pinned bs"
  shows "linked (foldl (compile_block p options) c bs) \<and>
    (\<exists>steps. cm_steps (foldl (compile_block p options) c bs) = cm_steps c @ steps \<and> list_all2 performs bs steps)"
  using assms
proof (induction bs arbitrary: c)
  case (Cons b bs)
  obtain step where b: "linked (compile_block p options c b)"
    "cm_steps (compile_block p options c b) = cm_steps c @ [step]" "performs b step"
    using compile_block_linked [of c b p options] Cons.prems by auto
  with Cons.IH [OF b(1)] Cons.prems obtain steps where
    "linked (foldl (compile_block p options) c (b # bs))"
    "cm_steps (foldl (compile_block p options) c (b # bs)) = (cm_steps c @ [step]) @ steps"
    "list_all2 performs bs steps" by auto
  with b(3) show ?case by (intro conjI exI [of _ "step # steps"]) auto
qed simp

subsection \<open>The plan\<close>

lemma query_runtime_blocks:
  assumes "query_runtime C source blocks engine spec = Inr runtime" and "\<And>script. q_blocks (spec script) = ids"
  shows "binding_blocks runtime = Some ids" and "runtime \<noteq> HumanInput gate"
  using assms
  by (auto simp: query_runtime_def Let_def split: option.splits prod.splits if_splits query_engine.splits sum.splits)

lemma query_step_linked:
  assumes "cm_problems (query_step C options source blocks dataset arguments) = []"
  shows "linked (query_step C options source blocks dataset arguments) \<and>
    (\<exists>step. cm_steps (query_step C options source blocks dataset arguments) = [step] \<and> ps_id step = pb_id source
       \<and> binding_blocks (ps_runtime step) = Some (map pb_id blocks) \<and> (\<forall>gate. ps_runtime step \<noteq> HumanInput gate))"
proof -
  let ?spec = "\<lambda>script. \<lparr>q_script = script,
    q_source = \<lparr>src_dataset = dataset, src_arguments = arguments, src_resolved_revision = None,
                src_window = co_window options, src_cursor = None\<rparr>, q_blocks = map pb_id blocks\<rparr>"
  obtain runtime where runtime: "query_runtime C source blocks (co_engine options) ?spec = Inr runtime"
    using assms by (cases "query_runtime C source blocks (co_engine options) ?spec")
      (auto simp: query_step_def Let_def)
  have "binding_blocks runtime = Some (map pb_id blocks)" "\<And>gate. runtime \<noteq> HumanInput gate"
    using query_runtime_blocks [OF runtime, of "map pb_id blocks"] by simp_all
  then show ?thesis
    using producer_snoc [of "[]"]
    by (simp add: query_step_def runtime linked_def has_rows_def rows_output_def rows_chained_snoc [of "[]", simplified]
        reads_rows_def producer_def)
qed

text \<open>A compilation that succeeds, taken apart.\<close>

lemma compiled_curationE:
  assumes "compile_curation C plan_json pipeline options = Inr plan"
  obtains chain c where "order_of C (cp_blocks pipeline) (cp_edges pipeline) = Inr chain"
    and "linked c" and "plan = seal C plan_json CurationPipeline (cp_name pipeline) (cp_revision pipeline)
                                 (cm_steps c) (cm_edges c)"
    and "map ps_id (cm_steps c) = pb_id (hd chain) # map pb_id (dropWhile is_query_block chain)"
    and "binding_blocks (ps_runtime (hd (cm_steps c))) = Some (map pb_id (takeWhile is_query_block chain))"
    and "\<forall>gate. ps_runtime (hd (cm_steps c)) \<noteq> HumanInput gate"
    and "list_all2 performs (dropWhile is_query_block chain) (tl (cm_steps c))"
    and "takeWhile is_query_block chain \<noteq> []"
proof -
  obtain chain where chain: "order_of C (cp_blocks pipeline) (cp_edges pipeline) = Inr chain"
    using assms by (auto simp: compile_curation_def split: sum.splits)
  have "kinds_ok chain" "blocks_of chain = set (cp_blocks pipeline)" if "blocks_of = set" for blocks_of
    using chain that by (auto simp: order_of_iff chain_of_def dest: mset_eq_setD)
  then have kinds: "kinds_ok chain" by blast
  let ?query = "takeWhile is_query_block chain" and ?rest = "dropWhile is_query_block chain"
  have "chain \<noteq> []" using chain by (auto simp: order_of_iff chain_of_def)
  then obtain source others where sc: "chain = source # others" by (cases chain) auto
  obtain dataset arguments where source: "pb_spec source = SourceBlock dataset arguments"
    using kinds sc by (auto simp: kinds_ok_def is_source_def split: block_spec.splits)
  then have query: "?query = source # takeWhile is_query_block others" by (simp add: sc is_query_block_def)
  have rest: "drop (length ?query) chain = ?rest" by (simp only: dropWhile_eq_drop)
  then have rest': "drop (Suc (length (takeWhile is_query_block others))) chain = ?rest" by (simp add: query)
  let ?begun = "query_step C options source ?query dataset arguments"
  let ?c = "foldl (compile_block pipeline options) ?begun ?rest"
  have problems: "cm_problems ?c = []" and
    plan: "plan = seal C plan_json CurationPipeline (cp_name pipeline) (cp_revision pipeline) (cm_steps ?c) (cm_edges ?c)"
    using assms unfolding compile_curation_def chain Let_def rest
    by (auto simp: query source rest' split: if_splits)
  have query_free: "cm_problems ?begun = []" and pinned: "list_all block_pinned ?rest"
    using problems by (simp_all add: compile_blocks_problems)
  from query_step_linked [OF query_free] obtain step where first: "linked ?begun" "cm_steps ?begun = [step]"
    "ps_id step = pb_id source" "binding_blocks (ps_runtime step) = Some (map pb_id ?query)"
    "\<forall>gate. ps_runtime step \<noteq> HumanInput gate" by blast
  from compile_blocks_linked [OF first(1) pinned] obtain steps where
    more: "linked ?c" "cm_steps ?c = [step] @ steps" "list_all2 performs ?rest steps"
    unfolding first(2) by blast
  have "map ps_id steps = map pb_id ?rest"
    using more(3) by (induction rule: list_all2_induct) (auto simp: performs_def)
  then have ids: "map ps_id (cm_steps ?c) = pb_id (hd chain) # map pb_id ?rest"
    unfolding more(2) using first(3) by (simp add: sc)
  have "?query \<noteq> []" unfolding query by simp
  moreover have "hd (cm_steps ?c) = step" "tl (cm_steps ?c) = steps" unfolding more(2) by simp_all
  ultimately show thesis
    using that [OF chain more(1) plan ids] first(4,5) more(3) by blast
qed

lemma pairs_acyclic:
  assumes "distinct ids" and "r \<subseteq> set (pairs ids)"
  shows "acyclic r"
proof (rule acyclicI_order)
  fix a b
  assume "(a, b) \<in> r"
  then have "(a, b) \<in> set (pairs ids)" using assms(2) by blast
  with assms(1) have "length (takeWhile (\<lambda>x. x \<noteq> a) ids) < length (takeWhile (\<lambda>x. x \<noteq> b) ids)"
    by (induction ids rule: induct_list012) (auto dest: pairs_mem)
  then show "- int (length (takeWhile (\<lambda>x. x \<noteq> b) ids)) < - int (length (takeWhile (\<lambda>x. x \<noteq> a) ids))" by simp
qed

lemma chain_ids_distinct:
  assumes "order_of C blocks edges = Inr chain"
  shows "distinct (map pb_id chain)"
proof -
  from assms have "mset chain = mset blocks" "distinct (map pb_id blocks)"
    by (simp_all add: order_of_iff chain_of_def)
  then have "mset (map pb_id chain) = mset (map pb_id blocks)" by simp
  then show ?thesis using \<open>distinct (map pb_id blocks)\<close> by (metis mset_eq_imp_distinct_iff)
qed

lemma curation_steps_distinct:
  assumes "order_of C blocks edges = Inr chain" and "takeWhile is_query_block chain \<noteq> []"
  shows "distinct (pb_id (hd chain) # map pb_id (dropWhile is_query_block chain))"
proof -
  obtain b rest where b: "takeWhile is_query_block chain = b # rest"
    using assms(2) by (cases "takeWhile is_query_block chain") auto
  then have split: "chain = (b # rest) @ dropWhile is_query_block chain"
    by (metis takeWhile_dropWhile_id)
  then have "map pb_id chain = map pb_id (b # rest) @ map pb_id (dropWhile is_query_block chain)"
    by (metis map_append)
  then have "distinct (map pb_id (b # rest) @ map pb_id (dropWhile is_query_block chain))"
    using chain_ids_distinct [OF assms(1)] by simp
  moreover have "hd chain = b" using split by (metis append_Cons list.sel(1))
  ultimately show ?thesis by simp
qed

text \<open>C31: A compiled curation is the chain somebody drew: its first step is one query that performs the
  source and every transform before the first other block, each further step performs one block, in
  the order of the chain and joined by one edge each, and each step reads the rows of the last step
  before it that produced any, so a gate in between changes nothing about what is read. Every block
  of the canvas leads to a step.\<close>

theorem compiled_curation_is_the_chain:
  assumes "compile_curation C plan_json pipeline options = Inr plan"
  shows "\<exists>chain. order_of C (cp_blocks pipeline) (cp_edges pipeline) = Inr chain
    \<and> map ps_id (plan_steps plan) = pb_id (hd chain) # map pb_id (dropWhile is_query_block chain)
    \<and> binding_blocks (ps_runtime (hd (plan_steps plan))) = Some (map pb_id (takeWhile is_query_block chain))
    \<and> list_all2 performs (dropWhile is_query_block chain) (tl (plan_steps plan))
    \<and> set (plan_edges plan) = (\<lambda>(a, b). PlanEdge a b) ` set (pairs (map ps_id (plan_steps plan)))
    \<and> rows_chained (plan_steps plan)
    \<and> (\<forall>b \<in> set (cp_blocks pipeline). step_for_block plan (pb_id b) \<noteq> None)"
  using assms
proof (rule compiled_curationE)
  fix chain c
  assume chain: "order_of C (cp_blocks pipeline) (cp_edges pipeline) = Inr chain" and c: "linked c"
    and plan: "plan = seal C plan_json CurationPipeline (cp_name pipeline) (cp_revision pipeline) (cm_steps c) (cm_edges c)"
    and ids: "map ps_id (cm_steps c) = pb_id (hd chain) # map pb_id (dropWhile is_query_block chain)"
    and first: "binding_blocks (ps_runtime (hd (cm_steps c))) = Some (map pb_id (takeWhile is_query_block chain))"
    and others: "list_all2 performs (dropWhile is_query_block chain) (tl (cm_steps c))"
  have "cm_steps c \<noteq> []" using c by (simp add: linked_def)
  have "step_for_block plan (pb_id b) \<noteq> None" if "b \<in> set (cp_blocks pipeline)" for b
  proof -
    have "b \<in> set chain" using chain that by (auto simp: order_of_iff chain_of_def dest: mset_eq_setD)
    then consider "b \<in> set (takeWhile is_query_block chain)" | "b \<in> set (dropWhile is_query_block chain)"
      by (metis Un_iff set_append takeWhile_dropWhile_id)
    then have "\<exists>step \<in> set (cm_steps c). \<exists>blocks. binding_blocks (ps_runtime step) = Some blocks \<and> pb_id b \<in> set blocks"
    proof cases
      case 1
      with first \<open>cm_steps c \<noteq> []\<close> show ?thesis by (intro bexI [of _ "hd (cm_steps c)"]) auto
    next
      case 2
      then obtain n where "n < length (dropWhile is_query_block chain)" "dropWhile is_query_block chain ! n = b"
        by (metis in_set_conv_nth)
      then have "performs b (tl (cm_steps c) ! n)" "tl (cm_steps c) ! n \<in> set (cm_steps c)"
        using others by (auto simp: list_all2_conv_all_nth intro: list.set_sel(2) [OF \<open>cm_steps c \<noteq> []\<close>])
      then show ?thesis by (intro bexI [of _ "tl (cm_steps c) ! n"]) (auto simp: performs_def)
    qed
    then obtain step blocks where "step \<in> set (plan_steps plan)"
      "binding_blocks (ps_runtime step) = Some blocks" "pb_id b \<in> set blocks" by (auto simp: plan)
    then show ?thesis unfolding step_for_block_def find_None_iff' by (intro notI) auto
  qed
  with chain ids first others c show ?thesis
    by (intro exI [of _ chain]) (simp add: plan linked_def)
qed

text \<open>The engine carries every compiled curation: the start is never refused, the run is one the
  engine's theorems speak of, and each question it stops at can be answered.\<close>

theorem compiled_curation_is_carried:
  assumes "compile_curation C plan_json pipeline options = Inr plan" and "st_plan r = plan"
  shows "(\<exists>out e. decide C Empty (Command (StartExecution r)) cause now = Inr out \<and>
            replay (events_of out) = Active e \<and> reachable C e \<and> ex_plan e = plan)
    \<and> distinct (map ps_id (plan_steps plan)) \<and> edges_known plan \<and> is_acyclic plan
    \<and> (\<forall>step gate. step \<in> set (plan_steps plan) \<and> ps_runtime step = HumanInput gate \<longrightarrow>
         gate_ok (ps_id step) gate)"
  using assms(1)
proof (rule compiled_curationE)
  fix chain c
  assume chain: "order_of C (cp_blocks pipeline) (cp_edges pipeline) = Inr chain" and c: "linked c"
    and plan: "plan = seal C plan_json CurationPipeline (cp_name pipeline) (cp_revision pipeline) (cm_steps c) (cm_edges c)"
    and ids: "map ps_id (cm_steps c) = pb_id (hd chain) # map pb_id (dropWhile is_query_block chain)"
    and first: "\<forall>gate. ps_runtime (hd (cm_steps c)) \<noteq> HumanInput gate"
    and others: "list_all2 performs (dropWhile is_query_block chain) (tl (cm_steps c))"
    and some: "takeWhile is_query_block chain \<noteq> []"
  have steps: "plan_steps plan = cm_steps c" "cm_steps c \<noteq> []" using c by (simp_all add: plan linked_def)
  have distinct: "distinct (map ps_id (plan_steps plan))"
    using curation_steps_distinct [OF chain some] by (simp add: steps ids)
  have edges: "set (plan_edges plan) = (\<lambda>(a, b). PlanEdge a b) ` set (pairs (map ps_id (plan_steps plan)))"
    using c by (simp add: plan linked_def)
  then have edge: "PlanEdge a b \<in> set (plan_edges plan) \<longleftrightarrow> (a, b) \<in> set (pairs (map ps_id (plan_steps plan)))" for a b
    by auto
  have known: "edges_known plan"
    using pairs_mem [of _ _ "map ps_id (plan_steps plan)"] by (fastforce simp: edges_known_def list_all_iff edges)
  have acyclic: "is_acyclic plan"
    unfolding is_acyclic_edges by (rule pairs_acyclic [OF distinct]) (auto simp: edge_rel_iff edge)
  have "gate_ok (ps_id step) gate" if "step \<in> set (plan_steps plan)" "ps_runtime step = HumanInput gate" for step gate
  proof -
    have "step \<in> set (tl (cm_steps c))"
      using that first steps by (cases "cm_steps c") auto
    then obtain b where b: "b \<in> set (dropWhile is_query_block chain)" "performs b step"
      using others by (metis in_set_conv_nth list_all2_conv_all_nth)
    have "b \<in> set chain" using set_dropWhileD [OF b(1)] by blast
    then have "block_problems C b = []"
      using chain by (auto simp: order_of_iff chain_of_def list_all_iff dest: mset_eq_setD)
    with b(2) that(2) show ?thesis
      by (auto simp: performs_def gate_ok_def block_problems_def)
  qed
  moreover have "\<exists>out e. decide C Empty (Command (StartExecution r)) cause now = Inr out \<and>
      replay (events_of out) = Active e \<and> reachable C e \<and> ex_plan e = plan"
    using start_accepted [of r C cause now] distinct acyclic steps by (simp add: assms(2))
  ultimately show ?thesis using distinct known acyclic by blast
qed

subsection \<open>Literals\<close>

text \<open>How the query language reads a single-quoted literal after its first quote: a backslash makes a
  quote or a backslash plain and is itself otherwise. The value, and the text after the literal.\<close>

fun quoted_body :: "string \<Rightarrow> (string \<times> string) option" where
  "quoted_body [] = None"
| "quoted_body (c # cs) =
     (if c = quote then Some ([], cs)
      else if c = backslash \<and> cs \<noteq> [] \<and> (hd cs = quote \<or> hd cs = backslash)
      then map_option (\<lambda>(body, rest). (hd cs # body, rest)) (quoted_body (tl cs))
      else map_option (\<lambda>(body, rest). (c # body, rest)) (quoted_body cs))"

definition escaped :: "string \<Rightarrow> string" where
  "escaped given = str_replace quote [backslash, quote] (str_replace backslash [backslash, backslash] given)"

lemma escaped_simps:
  "escaped [] = []"
  "escaped (c # cs) = (if c = backslash then [backslash, backslash] else if c = quote then [backslash, quote] else [c]) @ escaped cs"
  by (simp_all add: escaped_def str_replace_def quote_def backslash_def)

lemma quoted_escaped: "quoted_body (escaped given @ quote # rest) = Some (given, rest)"
proof (induction given)
  case Nil
  show ?case by (simp add: escaped_simps)
next
  case (Cons c cs)
  have "quote \<noteq> backslash" by (simp add: quote_def backslash_def)
  moreover have "escaped cs @ quote # rest \<noteq> []" by simp
  ultimately show ?case using Cons by (simp add: escaped_simps)
qed

text \<open>C32: A value stays a value: an argument is written into a query either as the plain number it is or
  as a quoted literal that reads back as exactly that value, quotes and backslashes in it included,
  and ends where the generator ended it.\<close>

theorem literal_reads_back:
  "if numeric_literal given
   then php_literal given = given \<and> list_all (\<lambda>c. is_ascii_digit c \<or> c = CHR ''.'' \<or> c = CHR ''-'') given
   else \<exists>body. php_literal given @ rest = quote # body \<and> quoted_body body = Some (given, rest)"
proof (cases "numeric_literal given")
  case True
  then have "list_all (\<lambda>c. is_ascii_digit c \<or> c = CHR ''.'' \<or> c = CHR ''-'') given"
    by (cases given) (auto simp: numeric_literal_def list_all_iff Let_def split: if_splits)
  with True show ?thesis by (simp add: php_literal_def)
next
  case False
  then show ?thesis
    using quoted_escaped [of given rest] by (simp add: php_literal_def escaped_def)
qed

end
