(* ===== verification/Curation_Demo.thy ===== *)
theory Curation_Demo
  imports Curation_Props
begin

text \<open>A concrete canvas, wired out of order, at which the theorems on curations are applied.\<close>

definition demo_blocks :: "pipeline_block list" where
  "demo_blocks =
     [\<lparr>pb_id = ''keep'', pb_title = [], pb_spec = ViewBlock (Some ''corpus/clean'')\<rparr>,
      \<lparr>pb_id = ''rows'', pb_title = [], pb_spec = SourceBlock ''runs'' [(''note'', [CHR 0x27])]\<rparr>,
      \<lparr>pb_id = ''ask'', pb_title = [],
       pb_spec = ApprovalBlock ''publish?'' ''editor'' [''yes'', ''no''] None TimeoutFail\<rparr>,
      \<lparr>pb_id = ''fold'', pb_title = [], pb_spec = TransformBlock ''->limit(5)'' EngineFlow\<rparr>]"

definition demo_edges :: "pipeline_edge list" where
  "demo_edges =
     [\<lparr>pe_from = ''ask'', pe_to = ''keep''\<rparr>, \<lparr>pe_from = ''rows'', pe_to = ''fold''\<rparr>,
      \<lparr>pe_from = ''fold'', pe_to = ''ask''\<rparr>]"

definition demo_pipeline :: curation_pipeline where
  "demo_pipeline =
     \<lparr>cp_name = ''clean'', cp_description = [], cp_blocks = demo_blocks, cp_edges = demo_edges,
      cp_revision = ''r1'', cp_saved_at = 0\<rparr>"

definition demo_options :: compile_options where
  "demo_options = \<lparr>co_window = None, co_engine = EngineFlow, co_query_timeout = Some 600\<rparr>"

definition plain_crates :: crates where
  "plain_crates = \<lparr>sha256 = as_bytes, json_text = (\<lambda>_. ''{}'')\<rparr>"

lemma canvas_order: "map_sum id (map pb_id) (order_of plain_crates demo_blocks demo_edges)
  = Inr [''rows'', ''fold'', ''ask'', ''keep'']"
  by code_simp

lemma canvas_chain: "\<exists>chain. order_of plain_crates demo_blocks demo_edges = Inr chain
  \<and> map pb_id chain = [''rows'', ''fold'', ''ask'', ''keep'']"
  using canvas_order by (cases "order_of plain_crates demo_blocks demo_edges") auto

text \<open>A loop, two heads and a transform behind a gate are refused for what they are.\<close>

lemma refused_canvases:
  "order_of plain_crates demo_blocks (\<lparr>pe_from = ''keep'', pe_to = ''rows''\<rparr> # demo_edges) = Inl [Loop]"
  "order_of plain_crates demo_blocks (tl demo_edges) = Inl [ManyHeads [''keep'', ''rows'']]"
  "order_of plain_crates demo_blocks
     [\<lparr>pe_from = ''rows'', pe_to = ''ask''\<rparr>, \<lparr>pe_from = ''ask'', pe_to = ''fold''\<rparr>, \<lparr>pe_from = ''fold'', pe_to = ''keep''\<rparr>]
   = Inl [FlowAfter ''fold'' EngineFlow ''approval'' ''ask'']"
  by code_simp+

lemma canvas_compiles_shape:
  "(case compile_curation plain_crates (\<lambda>_. JNull) demo_pipeline demo_options of
      Inl problems \<Rightarrow> None
    | Inr plan \<Rightarrow> Some (map (\<lambda>s. (ps_id s, ps_inputs s)) (plan_steps plan), plan_edges plan)) =
   Some ([(''rows'', []), (''ask'', [FromStep ''rows'' ''rows'']), (''keep'', [FromStep ''rows'' ''rows''])],
         [PlanEdge ''ask'' ''keep'', PlanEdge ''rows'' ''ask''])"
  by code_simp

lemma canvas_compiles:
  obtains plan where "compile_curation plain_crates (\<lambda>_. JNull) demo_pipeline demo_options = Inr plan"
    and "map ps_id (plan_steps plan) = [''rows'', ''ask'', ''keep'']"
    and "map ps_inputs (plan_steps plan) = [[], [FromStep ''rows'' ''rows''], [FromStep ''rows'' ''rows'']]"
proof -
  from canvas_compiles_shape obtain plan where plan:
    "compile_curation plain_crates (\<lambda>_. JNull) demo_pipeline demo_options = Inr plan"
    "map (\<lambda>s. (ps_id s, ps_inputs s)) (plan_steps plan) =
       [(''rows'', []), (''ask'', [FromStep ''rows'' ''rows'']), (''keep'', [FromStep ''rows'' ''rows''])]"
    by (auto split: sum.splits)
  have "map fst (map (\<lambda>s. (ps_id s, ps_inputs s)) (plan_steps plan)) = [''rows'', ''ask'', ''keep'']"
    "map snd (map (\<lambda>s. (ps_id s, ps_inputs s)) (plan_steps plan)) = [[], [FromStep ''rows'' ''rows''], [FromStep ''rows'' ''rows'']]"
    unfolding plan(2) by simp_all
  with that [OF plan(1)] show thesis by (simp add: comp_def)
qed

theorem compiled_curation_is_the_chain_witness:
  "\<exists>plan. compile_curation plain_crates (\<lambda>_. JNull) demo_pipeline demo_options = Inr plan
     \<and> map ps_id (plan_steps plan) = [''rows'', ''ask'', ''keep''] \<and> rows_chained (plan_steps plan)
     \<and> step_for_block plan ''fold'' \<noteq> None"
proof (rule canvas_compiles)
  fix plan
  assume plan: "compile_curation plain_crates (\<lambda>_. JNull) demo_pipeline demo_options = Inr plan"
    and ids: "map ps_id (plan_steps plan) = [''rows'', ''ask'', ''keep'']"
  have "\<lparr>pb_id = ''fold'', pb_title = [], pb_spec = TransformBlock ''->limit(5)'' EngineFlow\<rparr> \<in> set (cp_blocks demo_pipeline)"
    by (simp add: demo_pipeline_def demo_blocks_def)
  with compiled_curation_is_the_chain [OF plan] plan ids show ?thesis by force
qed

theorem compiled_curation_is_carried_witness:
  "\<exists>plan out e. compile_curation plain_crates (\<lambda>_. JNull) demo_pipeline demo_options = Inr plan
     \<and> decide plain_crates Empty (Command (StartExecution
         \<lparr>st_execution_id = ''run-1'', st_plan = plan, st_owner = OwnerLocal, st_mode = Compiled,
          st_payloads = External, st_requested_by = ''alice'', st_input = []\<rparr>)) ''m0'' 0 = Inr out
     \<and> reachable plain_crates e \<and> ex_plan e = plan"
proof (rule canvas_compiles)
  fix plan
  assume plan: "compile_curation plain_crates (\<lambda>_. JNull) demo_pipeline demo_options = Inr plan"
  let ?r = "\<lparr>st_execution_id = ''run-1'', st_plan = plan, st_owner = OwnerLocal, st_mode = Compiled,
    st_payloads = External, st_requested_by = ''alice'', st_input = []\<rparr>"
  have "st_plan ?r = plan" by simp
  from compiled_curation_is_carried [OF plan this, of "''m0''" 0] plan show ?thesis by blast
qed

end
