(* ===== verification/Run_Context.thy ===== *)
theory Run_Context
  imports Decide_Props
begin

text \<open>
  What a block was when it ran and what may be done with it: \<open>context.rs\<close>. The lists of actions
  exist so that no caller holds a second copy of the decider's mind; the theorems compare them with
  \<open>decide\<close>. They agree but for three edges, which the lemmas state: a second pause is accepted and
  not offered, an answer stays offered after the deadline of its question, and it is not offered for
  a step that is said to run.
\<close>

datatype context_action = OfferValidate | OfferTest | OfferEditor | OfferRetry | OfferAnswer

datatype run_action = OfferCancel | OfferPause | OfferResume

definition allowed_run_actions :: "state_type \<Rightarrow> run_action list" where
  "allowed_run_actions st =
     (if is_terminal st then []
      else if st = Paused then [OfferResume, OfferCancel]
      else [OfferPause, OfferCancel])"

record context_snapshot =
  cs_context_id :: string
  cs_kind :: definition_kind
  cs_name :: string
  cs_revision :: string
  cs_plan_id :: string
  cs_step_id :: string
  cs_runtime :: runtime_binding
  cs_parameters :: "(string, json) btree"
  cs_input_artifacts :: "artifact_ref list"
  cs_state :: "step_state option"
  cs_allowed :: "context_action list"

fun runtime_actions :: "runtime_kind \<Rightarrow> context_action list" where
  "runtime_actions KFlowPhp = [OfferValidate, OfferTest]"
| "runtime_actions KDataFusion = [OfferValidate, OfferTest]"
| "runtime_actions KDuckDb = [OfferValidate, OfferTest]"
| "runtime_actions KMarimo = [OfferTest, OfferEditor]"
| "runtime_actions _ = []"

definition allowed_for :: "runtime_kind \<Rightarrow> step_state option \<Rightarrow> bool \<Rightarrow> context_action list" where
  "allowed_for runtime st cancelling =
     (if is_some_and (\<lambda>s. state_type (ss_state s) = Running) st then []
      else runtime_actions runtime
        @ (case st of
             None \<Rightarrow> []
           | Some s \<Rightarrow>
               (if \<not> cancelling \<and> (state_type (ss_state s) = Failed \<or> state_type (ss_state s) = Crashed)
                then [OfferRetry] else [])
               @ (if ss_awaiting s \<noteq> None then [OfferAnswer] else [])))"

definition context_of_step :: "execution \<Rightarrow> string \<Rightarrow> context_snapshot option" where
  "context_of_step e i =
     map_option (\<lambda>step.
       let st = ex_step e i; attempt = (case st of None \<Rightarrow> 0 | Some s \<Rightarrow> ss_current_attempt s)
       in \<lparr>cs_context_id = idempotency_key (ex_id e) i attempt,
           cs_kind = plan_kind (ex_plan e), cs_name = plan_name (ex_plan e),
           cs_revision = plan_revision (ex_plan e), cs_plan_id = plan_id (ex_plan e), cs_step_id = i,
           cs_runtime = ps_runtime step, cs_parameters = ex_input e,
           cs_input_artifacts = resolved_inputs e i, cs_state = st,
           cs_allowed = allowed_for (binding_kind (ps_runtime step)) st (ex_cancelling e)\<rparr>)
       (plan_step_of (ex_plan e) i)"

definition context_of_block :: "execution_plan \<Rightarrow> string \<Rightarrow> context_snapshot option" where
  "context_of_block plan block =
     map_option (\<lambda>step.
       \<lparr>cs_context_id = plan_name plan @ ''@'' @ plan_revision plan @ ''/'' @ block,
        cs_kind = plan_kind plan, cs_name = plan_name plan, cs_revision = plan_revision plan,
        cs_plan_id = plan_id plan, cs_step_id = ps_id step, cs_runtime = ps_runtime step,
        cs_parameters = [], cs_input_artifacts = [], cs_state = None,
        cs_allowed = allowed_for (binding_kind (ps_runtime step)) None False\<rparr>)
       (step_for_block plan block)"

subsection \<open>Offered is accepted\<close>

lemma runtime_offers [simp]:
  "OfferRetry \<notin> set (runtime_actions k)" "OfferAnswer \<notin> set (runtime_actions k)"
  by (cases k; simp)+

lemma runtime_actions_simps [simp]: "is_terminal Paused = False"
  by (simp add: is_terminal_def)

lemma allowed_retry:
  "OfferRetry \<in> set (allowed_for k st cancelling) \<longleftrightarrow>
     (\<exists>s. st = Some s \<and> \<not> cancelling \<and> state_type (ss_state s) \<in> {Failed, Crashed})"
  by (cases st) (auto simp: allowed_for_def)

lemma allowed_answer:
  "OfferAnswer \<in> set (allowed_for k st cancelling) \<longleftrightarrow>
     (\<exists>s. st = Some s \<and> state_type (ss_state s) \<noteq> Running \<and> ss_awaiting s \<noteq> None)"
  by (cases st) (auto simp: allowed_for_def)

definition accepted :: "crates \<Rightarrow> execution \<Rightarrow> workflow_command \<Rightarrow> string \<Rightarrow> instant \<Rightarrow> bool" where
  "accepted C e command cause now \<longleftrightarrow> (\<exists>out. decide C (Active e) (Command command) cause now = Inr out)"

lemma accepted_pause: "accepted C e PauseExecution cause now \<longleftrightarrow> \<not> is_terminal (state_type (ex_state e))"
  by (simp add: accepted_def decide_pause_def)

lemma accepted_resume: "accepted C e ResumeExecution cause now \<longleftrightarrow> state_type (ex_state e) = Paused"
  by (simp add: accepted_def decide_resume_def)

lemma accepted_cancel: "accepted C e (CancelExecution reason) cause now \<longleftrightarrow> \<not> is_terminal (state_type (ex_state e))"
  by (simp add: accepted_def decide_cancel_def split: prod.splits)

lemma accepted_retry:
  "accepted C e (RetryStep i) cause now \<longleftrightarrow>
     (\<exists>s. ex_step e i = Some s \<and> \<not> ex_cancelling e \<and> state_type (ss_state s) \<in> {Failed, Crashed})"
  by (auto simp: accepted_def decide_retry_def step_of_def split: option.splits)

lemma accepted_provide:
  "accepted C e (ProvideInput i n by_whom response) cause now \<longleftrightarrow>
     (\<exists>s rq. ex_step e i = Some s \<and> ss_awaiting s = Some rq \<and> ss_current_attempt s = n
        \<and> is_none_or (\<lambda>deadline. now \<le> deadline) (rq_deadline rq) \<and> answer_allowed rq response)"
  by (auto simp: accepted_def decide_provide_def step_of_def is_some_and_def is_none_or_def
      split: option.splits if_splits)

lemma some_answer: "\<exists>response now. is_none_or (\<lambda>deadline. now \<le> deadline) (rq_deadline rq) \<and> answer_allowed rq response"
proof -
  have "answer_allowed rq (JString (hd (rq_choices rq)))"
    by (cases "rq_choices rq") (auto simp: answer_allowed_def)
  moreover have "is_none_or (\<lambda>deadline. (case rq_deadline rq of None \<Rightarrow> 0 | Some d \<Rightarrow> d) \<le> deadline) (rq_deadline rq)"
    by (cases "rq_deadline rq") simp_all
  ultimately show ?thesis by blast
qed

text \<open>What a run offers is what the decider accepts: it can be resumed or cancelled exactly when
  the offer stands, and paused exactly when the offer stands or it is paused already.\<close>

theorem offered_run_actions_are_accepted:
  "(OfferResume \<in> set (allowed_run_actions (state_type (ex_state e))) \<longleftrightarrow> accepted C e ResumeExecution cause now)
   \<and> (OfferCancel \<in> set (allowed_run_actions (state_type (ex_state e))) \<longleftrightarrow> accepted C e (CancelExecution reason) cause now)
   \<and> (OfferPause \<in> set (allowed_run_actions (state_type (ex_state e))) \<longleftrightarrow>
        accepted C e PauseExecution cause now \<and> state_type (ex_state e) \<noteq> Paused)"
  by (auto simp: allowed_run_actions_def accepted_pause accepted_resume accepted_cancel)

text \<open>C35: What a step of a run offers is what the decider accepts: a retry exactly when it would be
  taken, and an answer exactly when the step is not said to run and some answer at some time would
  be taken.\<close>

theorem offered_step_actions_are_accepted:
  assumes "context_of_step e i = Some ctx"
  shows "(OfferRetry \<in> set (cs_allowed ctx) \<longleftrightarrow> accepted C e (RetryStep i) cause now)
    \<and> (OfferAnswer \<in> set (cs_allowed ctx) \<longleftrightarrow>
         \<not> is_some_and (\<lambda>s. state_type (ss_state s) = Running) (ex_step e i)
         \<and> (\<exists>n by_whom response at. accepted C e (ProvideInput i n by_whom response) cause at))"
proof -
  obtain step where step: "plan_step_of (ex_plan e) i = Some step"
    using assms by (auto simp: context_of_step_def)
  with assms have ctx: "cs_allowed ctx = allowed_for (binding_kind (ps_runtime step)) (ex_step e i) (ex_cancelling e)"
    by (auto simp: context_of_step_def Let_def)
  have "(\<exists>n by_whom response at. accepted C e (ProvideInput i n by_whom response) cause at) \<longleftrightarrow>
      (\<exists>s rq. ex_step e i = Some s \<and> ss_awaiting s = Some rq)"
    unfolding accepted_provide using some_answer by metis
  then show ?thesis
    unfolding ctx allowed_retry allowed_answer accepted_retry by (cases "ex_step e i") auto
qed

text \<open>Past the deadline of a question, before its timer has been delivered, the answer is still
  offered and every answer is refused.\<close>

lemma answer_offered_past_the_deadline:
  assumes "plan_step_of (ex_plan e) i = Some step" and "ex_step e i = Some s"
    and "state_type (ss_state s) = AwaitingInput" and "ss_awaiting s = Some rq"
    and "rq_deadline rq = Some deadline" and "deadline < now"
  shows "\<exists>ctx. context_of_step e i = Some ctx \<and> OfferAnswer \<in> set (cs_allowed ctx)
    \<and> (\<forall>n by_whom response. \<not> accepted C e (ProvideInput i n by_whom response) cause now)"
  using assms by (simp add: context_of_step_def Let_def allowed_answer accepted_provide)

text \<open>The blocks of a revision: nothing about an attempt is offered.\<close>

lemma revision_offers_no_attempt:
  "context_of_block plan block = Some ctx \<Longrightarrow>
   OfferRetry \<notin> set (cs_allowed ctx) \<and> OfferAnswer \<notin> set (cs_allowed ctx) \<and> cs_state ctx = None"
  by (auto simp: context_of_block_def allowed_retry allowed_answer)

section \<open>A run that waits\<close>

text \<open>A run whose first step waits for an answer, at which the theorem on the actions a step
  offers is applied.\<close>

lemma demo_waiting_frame: "ex_plan (demo_waiting policy) = demo_plan [''a'', ''b''] [PlanEdge ''a'' ''b'']"
    "\<not> ex_cancelling (demo_waiting policy)"
  by (simp_all add: demo_waiting_def demo_at_def)

lemma demo_context:
  "\<exists>ctx. context_of_step (demo_waiting TimeoutFail) ''a'' = Some ctx \<and> cs_allowed ctx = [OfferAnswer]"
  by (simp add: context_of_step_def Let_def demo_waiting_step demo_plan_step demo_step_def allowed_for_def
      demo_running_def demo_waiting_frame)

theorem offered_step_actions_are_accepted_witness:
  "\<exists>n by_whom response at.
     accepted numbered_crates (demo_waiting TimeoutFail) (ProvideInput ''a'' n by_whom response) ''m1'' at"
proof -
  obtain ctx where ctx: "context_of_step (demo_waiting TimeoutFail) ''a'' = Some ctx"
    and offered: "OfferAnswer \<in> set (cs_allowed ctx)"
    using demo_context by auto
  from offered_step_actions_are_accepted [OF ctx, of numbered_crates "''m1''" 0] offered
  show ?thesis by blast
qed

end
