(* ===== verification/Event.thy ===== *)
theory Event
  imports Facts Checkpoint Strings
begin

text \<open>
  The event model of \<open>aiwatcher-core\<close>: the catalog of event types and the rule that makes spans of
  events (\<open>catalog.rs\<close>), stream names (\<open>stream.rs\<close>), the resolution of the four ids
  (\<open>context.rs\<close>) and the promotion of a producer's envelope to a record of the log
  (\<open>envelope.rs\<close>). Positions are natural numbers: no log holds \<open>2 ^ 64\<close> records. The message id
  that is generated for an envelope without one is an argument.
\<close>

subsection \<open>The catalog\<close>

datatype subject = SubRun | SubAgent | SubLlm | SubTool | SubStep | SubEval | SubWorkflow
  | SubExecution | SubClient | SubUnknown

fun subject_as_str :: "subject \<Rightarrow> string" where
  "subject_as_str SubRun = ''run''"
| "subject_as_str SubAgent = ''agent''"
| "subject_as_str SubLlm = ''llm''"
| "subject_as_str SubTool = ''tool''"
| "subject_as_str SubStep = ''step''"
| "subject_as_str SubEval = ''eval''"
| "subject_as_str SubWorkflow = ''workflow''"
| "subject_as_str SubExecution = ''execution''"
| "subject_as_str SubClient = ''client''"
| "subject_as_str SubUnknown = ''unknown''"

datatype phase = PhaseStart | PhasePoint | PhaseEnd bool

fun phase_is_start :: "phase \<Rightarrow> bool" where
  "phase_is_start PhaseStart = True"
| "phase_is_start _ = False"

fun phase_is_end :: "phase \<Rightarrow> bool" where
  "phase_is_end (PhaseEnd _) = True"
| "phase_is_end _ = False"

datatype event_type =
    TyRunStarted | TyRunCompleted | TyRunFailed | TyAgentStarted | TyAgentCompleted
    | TyAgentFailed | TyAgentMessage | TyLlmStarted | TyLlmFirstToken | TyLlmChunk
    | TyLlmCompleted | TyLlmFailed | TyToolStarted | TyToolCompleted | TyToolFailed
    | TyStepStarted | TyStepCompleted | TyStepFailed | TyEvalStarted | TyEvalCase
    | TyEvalCompleted | TyEvalFailed | TyWorkflowDeclared | TyArtifactProduced
    | TyExecutionRequested | TyExecutionStarted | TyExecutionPaused | TyExecutionAwaitingInput
    | TyExecutionResumed | TyExecutionCompleted | TyExecutionFailed | TyExecutionCancelled
    | TyClientCounted | TyUnknown string

text \<open>The rows the macro \<open>event_catalog!\<close> is given, in their order.\<close>

definition event_catalog :: "(event_type \<times> string \<times> subject \<times> phase) list" where
  "event_catalog =
     [(TyRunStarted, ''run.started'', SubRun, PhaseStart),
      (TyRunCompleted, ''run.completed'', SubRun, PhaseEnd True),
      (TyRunFailed, ''run.failed'', SubRun, PhaseEnd False),
      (TyAgentStarted, ''agent.started'', SubAgent, PhaseStart),
      (TyAgentCompleted, ''agent.completed'', SubAgent, PhaseEnd True),
      (TyAgentFailed, ''agent.failed'', SubAgent, PhaseEnd False),
      (TyAgentMessage, ''agent.message'', SubAgent, PhasePoint),
      (TyLlmStarted, ''llm.started'', SubLlm, PhaseStart),
      (TyLlmFirstToken, ''llm.first_token'', SubLlm, PhasePoint),
      (TyLlmChunk, ''llm.chunk'', SubLlm, PhasePoint),
      (TyLlmCompleted, ''llm.completed'', SubLlm, PhaseEnd True),
      (TyLlmFailed, ''llm.failed'', SubLlm, PhaseEnd False),
      (TyToolStarted, ''tool.started'', SubTool, PhaseStart),
      (TyToolCompleted, ''tool.completed'', SubTool, PhaseEnd True),
      (TyToolFailed, ''tool.failed'', SubTool, PhaseEnd False),
      (TyStepStarted, ''step.started'', SubStep, PhaseStart),
      (TyStepCompleted, ''step.completed'', SubStep, PhaseEnd True),
      (TyStepFailed, ''step.failed'', SubStep, PhaseEnd False),
      (TyEvalStarted, ''eval.started'', SubEval, PhaseStart),
      (TyEvalCase, ''eval.case'', SubEval, PhasePoint),
      (TyEvalCompleted, ''eval.completed'', SubEval, PhaseEnd True),
      (TyEvalFailed, ''eval.failed'', SubEval, PhaseEnd False),
      (TyWorkflowDeclared, ''workflow.declared'', SubWorkflow, PhasePoint),
      (TyArtifactProduced, ''artifact.produced'', SubWorkflow, PhasePoint),
      (TyExecutionRequested, ''execution.requested'', SubExecution, PhaseStart),
      (TyExecutionStarted, ''execution.started'', SubExecution, PhasePoint),
      (TyExecutionPaused, ''execution.paused'', SubExecution, PhasePoint),
      (TyExecutionAwaitingInput, ''execution.awaiting_input'', SubExecution, PhasePoint),
      (TyExecutionResumed, ''execution.resumed'', SubExecution, PhasePoint),
      (TyExecutionCompleted, ''execution.completed'', SubExecution, PhaseEnd True),
      (TyExecutionFailed, ''execution.failed'', SubExecution, PhaseEnd False),
      (TyExecutionCancelled, ''execution.cancelled'', SubExecution, PhaseEnd False),
      (TyClientCounted, ''client.counted'', SubClient, PhasePoint)]"

definition KNOWN_TYPES :: "event_type list" where
  "KNOWN_TYPES = map fst event_catalog"

definition type_as_str :: "event_type \<Rightarrow> string" where
  "type_as_str t =
     (case t of
        TyUnknown raw \<Rightarrow> raw
      | _ \<Rightarrow> (case map_of event_catalog t of Some (wire, _, _) \<Rightarrow> wire | None \<Rightarrow> []))"

definition type_parse :: "string \<Rightarrow> event_type" where
  "type_parse raw =
     (case List.find (\<lambda>(_, wire, _, _). wire = raw) event_catalog of
        Some (t, _) \<Rightarrow> t
      | None \<Rightarrow> TyUnknown raw)"

definition type_subject :: "event_type \<Rightarrow> subject" where
  "type_subject t = (case map_of event_catalog t of Some (_, s, _) \<Rightarrow> s | None \<Rightarrow> SubUnknown)"

definition type_phase :: "event_type \<Rightarrow> phase option" where
  "type_phase t = map_option (\<lambda>(_, _, p). p) (map_of event_catalog t)"

definition REMOTE_STEP_TYPES :: "string list" where
  "REMOTE_STEP_TYPES = [''retriever'', ''embedding'', ''reranker'']"

definition is_remote :: "string \<Rightarrow> bool" where
  "is_remote step_type \<longleftrightarrow> to_ascii_lowercase step_type \<in> set REMOTE_STEP_TYPES"

definition or_get :: "json \<Rightarrow> string list \<Rightarrow> json option" where
  "or_get data keys =
     foldr (\<lambda>k rest. case json_get data k of Some v \<Rightarrow> Some v | None \<Rightarrow> rest) keys None"

definition type_step_type :: "event_type \<Rightarrow> json \<Rightarrow> string option" where
  "type_step_type t data =
     (if type_subject t \<noteq> SubStep then None
      else Option.bind (or_get data [''step_type'', ''span_type'']) as_str)"

definition is_high_cardinality :: "event_type \<Rightarrow> bool" where
  "is_high_cardinality t \<longleftrightarrow> t = TyLlmChunk"

definition forms_span :: "event_type \<Rightarrow> bool" where
  "forms_span t \<longleftrightarrow> type_subject t \<notin> {SubEval, SubWorkflow, SubExecution, SubClient}"

definition or_default :: "string option \<Rightarrow> string" where
  "or_default x = (case x of None \<Rightarrow> ''default'' | Some s \<Rightarrow> s)"

definition type_span_key :: "event_type \<Rightarrow> string option \<Rightarrow> string option \<Rightarrow> string" where
  "type_span_key t call_id agent_id =
     (case type_subject t of
        SubRun \<Rightarrow> ''run''
      | SubAgent \<Rightarrow> ''agent:'' @ or_default agent_id
      | SubLlm \<Rightarrow> ''llm:'' @ or_default agent_id @ '':'' @ or_default call_id
      | SubTool \<Rightarrow> ''tool:'' @ or_default agent_id @ '':'' @ or_default call_id
      | SubStep \<Rightarrow> ''step:'' @ or_default agent_id @ '':'' @ or_default call_id
      | SubEval \<Rightarrow> ''eval''
      | SubWorkflow \<Rightarrow> ''workflow:'' @ type_as_str t
      | SubExecution \<Rightarrow> ''execution''
      | SubClient \<Rightarrow> ''client''
      | SubUnknown \<Rightarrow> ''event:'' @ type_as_str t)"

definition type_span_name :: "event_type \<Rightarrow> string option \<Rightarrow> string" where
  "type_span_name t target =
     (case type_subject t of
        SubLlm \<Rightarrow> (case target of Some model \<Rightarrow> ''chat '' @ model | None \<Rightarrow> ''chat'')
      | SubTool \<Rightarrow> (case target of Some tool \<Rightarrow> ''execute_tool '' @ tool | None \<Rightarrow> ''execute_tool'')
      | SubAgent \<Rightarrow> (case target of Some agent \<Rightarrow> ''invoke_agent '' @ agent | None \<Rightarrow> ''invoke_agent'')
      | SubRun \<Rightarrow> ''run''
      | SubStep \<Rightarrow> (case target of Some name \<Rightarrow> name | None \<Rightarrow> ''step'')
      | _ \<Rightarrow> type_as_str t)"

subsection \<open>Streams\<close>

record stream_name =
  sn_type :: string
  sn_id :: string

definition stream_for_run :: "string \<Rightarrow> stream_name" where
  "stream_for_run run_id = \<lparr>sn_type = ''run'', sn_id = run_id\<rparr>"

definition stream_text :: "stream_name \<Rightarrow> string" where
  "stream_text s = sn_type s @ '':'' @ sn_id s"

definition stream_parse :: "string \<Rightarrow> stream_name option" where
  "stream_parse raw =
     (case split_once CHR '':'' raw of
        None \<Rightarrow> None
      | Some (kind, name) \<Rightarrow>
          if kind = [] \<or> name = [] then None else Some \<lparr>sn_type = kind, sn_id = name\<rparr>)"

subsection \<open>The ids of an event\<close>

record seed_context =
  se_trace :: "trace_id option"
  se_span :: "span_id option"
  se_parent :: "span_id option"
  se_correlation :: "string option"
  se_causation :: "string option"

record observability_context =
  oc_trace :: trace_id
  oc_span :: span_id
  oc_parent :: "span_id option"
  oc_correlation :: string
  oc_causation :: string

definition or_else :: "'a option \<Rightarrow> 'a option \<Rightarrow> 'a option" where
  "or_else x y = (case x of None \<Rightarrow> y | Some a \<Rightarrow> Some a)"

definition unwrap_or :: "'a option \<Rightarrow> 'a \<Rightarrow> 'a" where
  "unwrap_or x d = (case x of None \<Rightarrow> d | Some a \<Rightarrow> a)"

definition resolve_context ::
  "seed_context \<Rightarrow> observability_context option \<Rightarrow> string \<Rightarrow> string \<Rightarrow> string \<Rightarrow> observability_context" where
  "resolve_context seed inherited run_id span_key message_id =
     (let trace = unwrap_or (or_else (se_trace seed) (map_option oc_trace inherited)) (trace_derive run_id);
          span = unwrap_or (se_span seed) (span_derive trace span_key);
          parent = or_else (se_parent seed) (map_option oc_span inherited);
          correlation = unwrap_or (or_else (se_correlation seed) (map_option oc_correlation inherited)) message_id;
          causation = unwrap_or (or_else (se_causation seed) (map_option oc_causation inherited)) correlation
      in \<lparr>oc_trace = trace, oc_span = span,
          oc_parent = (if parent = Some span then None else parent),
          oc_correlation = correlation, oc_causation = causation\<rparr>)"

subsection \<open>Envelopes and records\<close>

datatype envelope_kind = KindEvent | KindCommand

fun sdk_as_str :: "sdk \<Rightarrow> string" where
  "sdk_as_str SdkPython = ''python''"
| "sdk_as_str SdkTypescript = ''typescript''"
| "sdk_as_str SdkRust = ''rust''"
| "sdk_as_str (SdkOther raw) = raw"

definition sdk_parse :: "string \<Rightarrow> sdk" where
  "sdk_parse raw =
     (if raw = ''python'' then SdkPython else if raw = ''typescript'' then SdkTypescript
      else if raw = ''rust'' then SdkRust else SdkOther raw)"

record envelope =
  en_schema_version :: u16
  en_kind :: envelope_kind
  en_event_id :: "string option"
  en_event_type :: event_type
  en_occurred_at :: instant
  en_run_id :: string
  en_conversation_id :: "string option"
  en_workflow_id :: "string option"
  en_workflow_run_id :: "string option"
  en_agent_id :: "string option"
  en_variant_id :: "string option"
  en_published_by :: "string option"
  en_project :: "project_scope option"
  en_sequence :: "u64 option"
  en_run_sequence :: "u64 option"
  en_run_counted_from :: "instant option"
  en_trace_id :: "trace_id option"
  en_span_id :: "span_id option"
  en_parent_span_id :: "span_id option"
  en_correlation_id :: "string option"
  en_causation_id :: "string option"
  en_source :: event_source
  en_data :: json

definition producer_envelope :: "event_type \<Rightarrow> string \<Rightarrow> instant \<Rightarrow> event_source \<Rightarrow> envelope" where
  "producer_envelope t run_id occurred_at source =
     \<lparr>en_schema_version = SCHEMA_VERSION, en_kind = KindEvent, en_event_id = None, en_event_type = t,
      en_occurred_at = occurred_at, en_run_id = run_id, en_conversation_id = None,
      en_workflow_id = None, en_workflow_run_id = None, en_agent_id = None, en_variant_id = None,
      en_published_by = None, en_project = None, en_sequence = None, en_run_sequence = None,
      en_run_counted_from = None, en_trace_id = None, en_span_id = None, en_parent_span_id = None,
      en_correlation_id = None, en_causation_id = None, en_source = source, en_data = JNull\<rparr>"

definition en_call_id :: "envelope \<Rightarrow> string option" where
  "en_call_id e = Option.bind (or_get (en_data e) [''call_id'', ''tool_call_id'']) as_str"

definition en_workflow :: "envelope \<Rightarrow> string option" where
  "en_workflow e =
     or_else (en_workflow_id e)
       (Option.bind (or_get (en_data e) [''workflow'', ''workflow_id'', ''workflow_name'']) as_str)"

definition en_workflow_run :: "envelope \<Rightarrow> string option" where
  "en_workflow_run e =
     (case en_workflow e of
        None \<Rightarrow> None
      | Some _ \<Rightarrow>
          Some (unwrap_or (or_else (en_workflow_run_id e)
                  (Option.bind (or_get (en_data e) [''workflow_run_id'', ''workflow_run'']) as_str))
                (en_run_id e)))"

datatype envelope_error =
    UnsupportedSchemaVersion u16
  | MissingField string string string

definition en_validate :: "envelope \<Rightarrow> envelope_error option" where
  "en_validate e =
     (let missing = MissingField (unwrap_or (en_event_id e) ''<unset>'') (type_as_str (en_event_type e))
      in if en_schema_version e > SCHEMA_VERSION then Some (UnsupportedSchemaVersion (en_schema_version e))
         else if en_run_id e = [] then Some (missing ''run_id'')
         else if so_service (en_source e) = [] then Some (missing ''source.service'')
         else None)"

definition en_stream :: "envelope \<Rightarrow> stream_name" where
  "en_stream e = stream_for_run (en_run_id e)"

record recorded_metadata =
  rd_message_id :: string
  rd_stream_name :: stream_name
  rd_stream_position :: nat
  rd_global_position :: nat
  rd_checkpoint :: checkpoint
  rd_context :: observability_context
  rd_run_id :: string
  rd_conversation_id :: "string option"
  rd_workflow_id :: "string option"
  rd_workflow_run_id :: "string option"
  rd_agent_id :: "string option"
  rd_variant_id :: "string option"
  rd_published_by :: "string option"
  rd_project :: "project_scope option"
  rd_sequence :: "u64 option"
  rd_run_sequence :: "u64 option"
  rd_run_counted_from :: "instant option"
  rd_span_key :: string
  rd_schema_version :: u16
  rd_source :: event_source
  rd_occurred_at :: instant
  rd_ingested_at :: instant

record recorded_event =
  re_kind :: envelope_kind
  re_event_type :: event_type
  re_data :: json
  re_metadata :: recorded_metadata

definition en_record ::
  "envelope \<Rightarrow> string \<Rightarrow> nat \<Rightarrow> nat \<Rightarrow> instant \<Rightarrow> observability_context option \<Rightarrow> recorded_event" where
  "en_record e generated in_stream in_log ingested_at inherited =
     (let message_id = unwrap_or (en_event_id e) generated;
          span_key = type_span_key (en_event_type e) (en_call_id e) (en_agent_id e);
          seed = \<lparr>se_trace = en_trace_id e, se_span = en_span_id e, se_parent = en_parent_span_id e,
                  se_correlation = en_correlation_id e, se_causation = en_causation_id e\<rparr>;
          context = resolve_context seed inherited (en_run_id e) span_key message_id
      in \<lparr>re_kind = en_kind e, re_event_type = en_event_type e, re_data = en_data e,
          re_metadata =
            \<lparr>rd_message_id = message_id, rd_stream_name = stream_for_run (en_run_id e),
             rd_stream_position = in_stream, rd_global_position = in_log,
             rd_checkpoint = from_global_position (of_nat in_log), rd_context = context,
             rd_run_id = en_run_id e, rd_conversation_id = en_conversation_id e,
             rd_workflow_id = en_workflow e, rd_workflow_run_id = en_workflow_run e,
             rd_agent_id = en_agent_id e, rd_variant_id = en_variant_id e,
             rd_published_by = en_published_by e, rd_project = en_project e,
             rd_sequence = en_sequence e, rd_run_sequence = en_run_sequence e,
             rd_run_counted_from = en_run_counted_from e, rd_span_key = span_key,
             rd_schema_version = en_schema_version e, rd_source = en_source e,
             rd_occurred_at = en_occurred_at e, rd_ingested_at = ingested_at\<rparr>\<rparr>)"

definition re_position :: "recorded_event \<Rightarrow> nat" where
  "re_position r = rd_global_position (re_metadata r)"

definition re_stream :: "recorded_event \<Rightarrow> stream_name" where
  "re_stream r = rd_stream_name (re_metadata r)"

definition re_stream_position :: "recorded_event \<Rightarrow> nat" where
  "re_stream_position r = rd_stream_position (re_metadata r)"

definition re_checkpoint :: "recorded_event \<Rightarrow> checkpoint" where
  "re_checkpoint r = rd_checkpoint (re_metadata r)"

end
