(* ===== verification/Wal.thy ===== *)
theory Wal
  imports Event
begin

text \<open>
  The single-node durable log of \<open>aiwatcher-bus\<close> (\<open>adapters/wal.rs\<close>): one append-only file of JSON
  lines with the byte offsets of its records in memory, next to the in-memory bus
  (\<open>adapters/memory.rs\<close>) that tests use in its place. The file is its bytes; \<open>serde_json\<close> on a record
  is a pair of functions; what the operating system does to a write or an open is an argument.
  Positions and offsets are natural numbers.
\<close>

subsection \<open>Reading lines of bytes\<close>

definition newline :: char where "newline = CHR 0x0A"

text \<open>The rest of a text after one character of UTF-8, as \<open>str::from_utf8\<close> accepts it.\<close>

definition byte_in :: "nat \<Rightarrow> nat \<Rightarrow> char \<Rightarrow> bool" where
  "byte_in lo hi c \<longleftrightarrow> lo \<le> (of_char c :: nat) \<and> (of_char c :: nat) \<le> hi"

definition utf8_next :: "string \<Rightarrow> string option" where
  "utf8_next s =
     (case s of
        [] \<Rightarrow> None
      | b # s1 \<Rightarrow>
          if byte_in 0 0x7F b then Some s1
          else case s1 of
            [] \<Rightarrow> None
          | c # s2 \<Rightarrow>
              if byte_in 0xC2 0xDF b then (if byte_in 0x80 0xBF c then Some s2 else None)
              else case s2 of
                [] \<Rightarrow> None
              | d # s3 \<Rightarrow>
                  if byte_in 0xE0 0xEF b
                  then (if (if byte_in 0xE0 0xE0 b then byte_in 0xA0 0xBF c
                            else if byte_in 0xED 0xED b then byte_in 0x80 0x9F c
                            else byte_in 0x80 0xBF c) \<and> byte_in 0x80 0xBF d
                        then Some s3 else None)
                  else case s3 of
                    [] \<Rightarrow> None
                  | e # s4 \<Rightarrow>
                      if byte_in 0xF0 0xF4 b
                         \<and> (if byte_in 0xF0 0xF0 b then byte_in 0x90 0xBF c
                            else if byte_in 0xF4 0xF4 b then byte_in 0x80 0x8F c
                            else byte_in 0x80 0xBF c) \<and> byte_in 0x80 0xBF d \<and> byte_in 0x80 0xBF e
                      then Some s4 else None)"

lemma utf8_next_shorter: "utf8_next s = Some r \<Longrightarrow> length r < length s"
  by (auto simp: utf8_next_def split: list.splits if_splits)

function utf8_valid :: "string \<Rightarrow> bool" where
  "utf8_valid s = (if s = [] then True else case utf8_next s of None \<Rightarrow> False | Some r \<Rightarrow> utf8_valid r)"
  by pat_completeness auto
termination by (relation "measure length") (auto dest: utf8_next_shorter)

declare utf8_valid.simps [simp del]

datatype bus_error =
    BusInvalid envelope_error
  | BusDecode string
  | BusIo
  | BusCheckpoint checkpoint_error

definition bus_is_retryable :: "bus_error \<Rightarrow> bool" where
  "bus_is_retryable e \<longleftrightarrow> e = BusIo"

text \<open>\<open>read_line\<close>: the bytes up to and with the next newline, or to the end, and what is left; bytes
  that are not UTF-8 are an error of the reader.\<close>

definition read_line :: "string \<Rightarrow> bus_error + (string \<times> string)" where
  "read_line s =
     (let body = takeWhile (\<lambda>c. c \<noteq> newline) s; rest = dropWhile (\<lambda>c. c \<noteq> newline) s;
          line = body @ (if rest = [] then [] else [newline])
      in if utf8_valid line then Inr (line, tl rest) else Inl BusIo)"

definition ends_line :: "string \<Rightarrow> bool" where
  "ends_line line \<longleftrightarrow> line \<noteq> [] \<and> last line = newline"

definition str_trim_end :: "string \<Rightarrow> string" where
  "str_trim_end s = concat (rev (dropWhile is_white (rev (utf8_chars s))))"

text \<open>\<open>serde_json::to_string\<close> and \<open>from_str\<close> at a recorded event.\<close>

record line_codec =
  to_line :: "recorded_event \<Rightarrow> string option"
  of_line :: "string \<Rightarrow> recorded_event option"

subsection \<open>The file and its index\<close>

record wal_index =
  wi_offsets :: "nat list"
  wi_streams :: "(string, nat list) btree"
  wi_positions :: "(string, nat) btree"

record wal =
  wl_file :: string
  wl_index :: wal_index

definition index_empty :: wal_index where
  "index_empty = \<lparr>wi_offsets = [], wi_streams = [], wi_positions = []\<rparr>"

definition stream_list :: "(string, nat list) btree \<Rightarrow> string \<Rightarrow> nat list" where
  "stream_list m k = (case bt_get m k of None \<Rightarrow> [] | Some xs \<Rightarrow> xs)"

definition index_offset :: "string \<Rightarrow> nat \<Rightarrow> wal_index \<Rightarrow> wal_index" where
  "index_offset stream offset ix =
     ix\<lparr>wi_offsets := wi_offsets ix @ [offset],
        wi_streams := bt_insert stream (stream_list (wi_streams ix) stream @ [offset]) (wi_streams ix)\<rparr>"

definition index_event :: "recorded_event \<Rightarrow> nat \<Rightarrow> wal_index \<Rightarrow> wal_index" where
  "index_event e offset ix =
     (index_offset (stream_text (re_stream e)) offset ix)
       \<lparr>wi_positions := bt_insert (stream_text (re_stream e)) (re_stream_position e) (wi_positions ix)\<rparr>"

definition decode_checkpoint :: "nat \<Rightarrow> string" where
  "decode_checkpoint n = from_global_position (of_nat n)"

text \<open>The loop of \<open>scan\<close>. What is read so far parses, so the valid length is the offset.\<close>

lemma read_line_shorter: "read_line s = Inr (line, rest) \<Longrightarrow> line \<noteq> [] \<Longrightarrow> length rest < length s"
proof -
  assume read: "read_line s = Inr (line, rest)" and line: "line \<noteq> []"
  let ?body = "takeWhile (\<lambda>c. c \<noteq> newline) s" and ?rest = "dropWhile (\<lambda>c. c \<noteq> newline) s"
  have len: "length ?body + length ?rest = length s"
    by (metis length_append takeWhile_dropWhile_id)
  from read have rest: "rest = tl ?rest" and l: "line = ?body @ (if ?rest = [] then [] else [newline])"
    by (auto simp: read_line_def Let_def split: if_splits)
  show "length rest < length s"
  proof (cases "?rest = []")
    case True
    with l line have "?body \<noteq> []" by simp
    with True len rest show ?thesis by (cases ?body) auto
  next
    case False
    then have "length (tl ?rest) < length ?rest" by (cases ?rest) auto
    with len rest show ?thesis by simp
  qed
qed

function wal_scan :: "line_codec \<Rightarrow> nat \<Rightarrow> wal_index \<Rightarrow> string \<Rightarrow> bus_error + (wal_index \<times> nat)" where
  "wal_scan K offset ix s =
     (case read_line s of
        Inl e \<Rightarrow> Inl e
      | Inr (line, rest) \<Rightarrow>
          if line = [] then Inr (ix, offset)
          else if \<not> ends_line line then Inr (ix, offset)
          else case of_line K (str_trim_end line) of
                 None \<Rightarrow> Inl (BusDecode (decode_checkpoint (length (wi_offsets ix) + 1)))
               | Some e \<Rightarrow> wal_scan K (offset + length line) (index_event e offset ix) rest)"
  by pat_completeness auto
termination by (relation "measure (\<lambda>(K, offset, ix, s). length s)") (auto dest: read_line_shorter)

declare wal_scan.simps [simp del]

text \<open>\<open>open\<close>, on the bytes of the file; \<open>readable\<close> says whether the first opening of it, for the scan,
  succeeded. An incomplete last record is cut off.\<close>

definition wal_open :: "line_codec \<Rightarrow> bool \<Rightarrow> string \<Rightarrow> bus_error + wal" where
  "wal_open K readable file =
     (case (if readable then wal_scan K 0 index_empty file else Inr (index_empty, 0)) of
        Inl e \<Rightarrow> Inl e
      | Inr (ix, valid_len) \<Rightarrow> Inr \<lparr>wl_file = take valid_len file, wl_index = ix\<rparr>)"

subsection \<open>Appending\<close>

record append_result =
  ar_recorded :: "recorded_event list"
  ar_last_checkpoint :: checkpoint

definition last_checkpoint :: "recorded_event list \<Rightarrow> checkpoint" where
  "last_checkpoint recorded =
     (if recorded = [] then checkpoint_beginning else re_checkpoint (last recorded))"

definition next_position :: "(string, nat) btree \<Rightarrow> string \<Rightarrow> nat" where
  "next_position positions stream = unwrap_or (bt_get positions stream) 0 + 1"

record promotion =
  pr_positions :: "(string, nat) btree"
  pr_recorded :: "recorded_event list"
  pr_buffer :: string
  pr_relative :: "(string \<times> nat) list"

text \<open>The loop over the batch. The positions of the streams are those of the writer: they are moved
  on while the loop runs and are not put back when it returns early.\<close>

fun wal_promote ::
  "line_codec \<Rightarrow> nat \<Rightarrow> instant \<Rightarrow> promotion \<Rightarrow> (envelope \<times> string) list
     \<Rightarrow> bus_error option \<times> promotion" where
  "wal_promote K base now p [] = (None, p)"
| "wal_promote K base now p ((e, generated) # rest) =
     (case en_validate e of
        Some err \<Rightarrow> (Some (BusInvalid err), p)
      | None \<Rightarrow>
          let stream = stream_text (en_stream e);
              position = next_position (pr_positions p) stream;
              p = p\<lparr>pr_positions := bt_insert stream position (pr_positions p)\<rparr>;
              event = en_record e generated position (base + length (pr_recorded p) + 1) now None
          in case to_line K event of
               None \<Rightarrow> (Some (BusDecode (re_checkpoint event)), p)
             | Some line \<Rightarrow>
                 wal_promote K base now
                   (p\<lparr>pr_relative := pr_relative p @ [(stream, length (pr_buffer p))],
                      pr_buffer := pr_buffer p @ line @ [newline],
                      pr_recorded := pr_recorded p @ [event]\<rparr>) rest)"

text \<open>\<open>append\<close>. The argument \<open>failed\<close> is what the file system makes of the one write and its sync:
  \<open>None\<close> is success, \<open>Some n\<close> an error after the first \<open>n\<close> bytes of the buffer reached the file.\<close>

definition wal_append ::
  "line_codec \<Rightarrow> instant \<Rightarrow> (envelope \<times> string) list \<Rightarrow> nat option \<Rightarrow> wal
     \<Rightarrow> (bus_error + append_result) \<times> wal" where
  "wal_append K now batch failed w =
     (case wal_promote K (length (wi_offsets (wl_index w))) now
             \<lparr>pr_positions = wi_positions (wl_index w), pr_recorded = [], pr_buffer = [],
              pr_relative = []\<rparr> batch of
        (Some e, p) \<Rightarrow> (Inl e, w\<lparr>wl_index := (wl_index w)\<lparr>wi_positions := pr_positions p\<rparr>\<rparr>)
      | (None, p) \<Rightarrow>
          let ix = (wl_index w)\<lparr>wi_positions := pr_positions p\<rparr>; base_offset = length (wl_file w) in
          (case failed of
             Some n \<Rightarrow>
               (Inl BusIo, w\<lparr>wl_file := wl_file w @ take n (pr_buffer p), wl_index := ix\<rparr>)
           | None \<Rightarrow>
               (Inr \<lparr>ar_recorded = pr_recorded p, ar_last_checkpoint = last_checkpoint (pr_recorded p)\<rparr>,
                \<lparr>wl_file = wl_file w @ pr_buffer p,
                 wl_index = foldl (\<lambda>ix (stream, relative). index_offset stream (base_offset + relative) ix)
                              ix (pr_relative p)\<rparr>)))"

subsection \<open>Reading\<close>

text \<open>The records at the given offsets; a read past the end or of an incomplete line stops.\<close>

fun read_at_offsets :: "line_codec \<Rightarrow> string \<Rightarrow> nat list \<Rightarrow> bus_error + recorded_event list" where
  "read_at_offsets K file [] = Inr []"
| "read_at_offsets K file (offset # offsets) =
     (case read_line (drop offset file) of
        Inl e \<Rightarrow> Inl e
      | Inr (line, _) \<Rightarrow>
          if \<not> ends_line line then Inr []
          else case of_line K (str_trim_end line) of
                 None \<Rightarrow> Inl (BusDecode (''offset '' @ show_nat offset))
               | Some e \<Rightarrow> map_sum id (\<lambda>es. e # es) (read_at_offsets K file offsets))"

fun read_lines :: "line_codec \<Rightarrow> nat \<Rightarrow> nat \<Rightarrow> string \<Rightarrow> bus_error + recorded_event list" where
  "read_lines K position 0 s = Inr []"
| "read_lines K position (Suc limit) s =
     (case read_line s of
        Inl e \<Rightarrow> Inl e
      | Inr (line, rest) \<Rightarrow>
          if \<not> ends_line line then Inr []
          else case of_line K (str_trim_end line) of
                 None \<Rightarrow> Inl (BusDecode (decode_checkpoint (position + 1)))
               | Some e \<Rightarrow> map_sum id (\<lambda>es. e # es) (read_lines K (position + 1) limit rest))"

definition read_after :: "line_codec \<Rightarrow> wal \<Rightarrow> nat \<Rightarrow> nat \<Rightarrow> bus_error + recorded_event list" where
  "read_after K w after limit =
     (if after < length (wi_offsets (wl_index w))
      then read_lines K after limit (drop (wi_offsets (wl_index w) ! after) (wl_file w))
      else Inr [])"

definition checkpoint_position :: "checkpoint \<Rightarrow> nat" where
  "checkpoint_position c = (case global_position c of None \<Rightarrow> 0 | Some n \<Rightarrow> unat n)"

definition wal_read :: "line_codec \<Rightarrow> wal \<Rightarrow> checkpoint \<Rightarrow> nat \<Rightarrow> bus_error + recorded_event list" where
  "wal_read K w from limit = read_after K w (checkpoint_position from) limit"

definition wal_stream_offsets :: "wal \<Rightarrow> stream_name \<Rightarrow> nat list" where
  "wal_stream_offsets w stream = stream_list (wi_streams (wl_index w)) (stream_text stream)"

definition wal_read_stream :: "line_codec \<Rightarrow> wal \<Rightarrow> stream_name \<Rightarrow> bus_error + recorded_event list" where
  "wal_read_stream K w stream = read_at_offsets K (wl_file w) (wal_stream_offsets w stream)"

record stream_page =
  pg_events :: "recorded_event list"
  pg_next_cursor :: "nat option"
  pg_has_more :: bool

definition page_new :: "recorded_event list \<Rightarrow> bool \<Rightarrow> stream_page" where
  "page_new events has_more =
     \<lparr>pg_events = events,
      pg_next_cursor = (if has_more \<and> events \<noteq> [] then Some (re_stream_position (last events)) else None),
      pg_has_more = has_more\<rparr>"

text \<open>\<open>StreamPage::slice\<close>, the definition every override is to match.\<close>

definition page_slice :: "recorded_event list \<Rightarrow> nat option \<Rightarrow> nat \<Rightarrow> stream_page" where
  "page_slice events after limit =
     (let remaining = filter (\<lambda>e. is_none_or (\<lambda>cursor. cursor < re_stream_position e) after) events
      in page_new (take limit remaining) (limit < length remaining))"

definition wal_read_stream_page ::
  "line_codec \<Rightarrow> wal \<Rightarrow> stream_name \<Rightarrow> nat option \<Rightarrow> nat \<Rightarrow> bus_error + stream_page" where
  "wal_read_stream_page K w stream after limit =
     (let skip = unwrap_or after 0; offsets = wal_stream_offsets w stream
      in map_sum id (\<lambda>events. page_new events (skip + length events < length offsets))
           (read_at_offsets K (wl_file w) (take limit (drop skip offsets))))"

definition wal_head :: "wal \<Rightarrow> checkpoint" where
  "wal_head w =
     (let count = length (wi_offsets (wl_index w))
      in if count = 0 then checkpoint_beginning else from_global_position (of_nat count))"

subsection \<open>The bus in memory\<close>

record memory_bus =
  mb_events :: "recorded_event list"
  mb_positions :: "(string, nat) btree"

definition memory_bus_new :: memory_bus where
  "memory_bus_new = \<lparr>mb_events = [], mb_positions = []\<rparr>"

text \<open>The loop of its \<open>append\<close> pushes each event as it goes.\<close>

fun bus_push ::
  "instant \<Rightarrow> memory_bus \<Rightarrow> recorded_event list \<Rightarrow> (envelope \<times> string) list
     \<Rightarrow> (bus_error + recorded_event list) \<times> memory_bus" where
  "bus_push now b recorded [] = (Inr recorded, b)"
| "bus_push now b recorded ((e, generated) # rest) =
     (case en_validate e of
        Some err \<Rightarrow> (Inl (BusInvalid err), b)
      | None \<Rightarrow>
          let stream = stream_text (en_stream e);
              position = next_position (mb_positions b) stream;
              event = en_record e generated position (length (mb_events b) + 1) now None
          in bus_push now
               (b\<lparr>mb_positions := bt_insert stream position (mb_positions b),
                  mb_events := mb_events b @ [event]\<rparr>)
               (recorded @ [event]) rest)"

definition bus_append ::
  "instant \<Rightarrow> (envelope \<times> string) list \<Rightarrow> memory_bus \<Rightarrow> (bus_error + append_result) \<times> memory_bus" where
  "bus_append now batch b =
     (case bus_push now b [] batch of
        (Inl e, b') \<Rightarrow> (Inl e, b')
      | (Inr recorded, b') \<Rightarrow>
          (Inr \<lparr>ar_recorded = recorded, ar_last_checkpoint = last_checkpoint recorded\<rparr>, b'))"

definition bus_read :: "memory_bus \<Rightarrow> checkpoint \<Rightarrow> nat \<Rightarrow> recorded_event list" where
  "bus_read b from limit =
     take limit (filter (\<lambda>e. checkpoint_position from < re_position e) (mb_events b))"

definition bus_read_stream :: "memory_bus \<Rightarrow> stream_name \<Rightarrow> recorded_event list" where
  "bus_read_stream b stream = filter (\<lambda>e. re_stream e = stream) (mb_events b)"

definition bus_read_stream_page :: "memory_bus \<Rightarrow> stream_name \<Rightarrow> nat option \<Rightarrow> nat \<Rightarrow> stream_page" where
  "bus_read_stream_page b stream after limit =
     (let events = take (limit + 1)
            (filter (\<lambda>e. is_none_or (\<lambda>cursor. cursor < re_stream_position e) after)
              (bus_read_stream b stream))
      in page_new (take limit events) (limit < length events))"

definition bus_head :: "memory_bus \<Rightarrow> checkpoint" where
  "bus_head b = last_checkpoint (mb_events b)"

subsection \<open>Checkpoints of consumers\<close>

definition checkpoint_file :: "string \<Rightarrow> string" where
  "checkpoint_file processor_id =
     concat (map (\<lambda>ch. case ch of
                         [c] \<Rightarrow> if is_ascii_alphanumeric c \<or> c = CHR ''-'' \<or> c = CHR ''_'' then [c] else ''_''
                       | _ \<Rightarrow> ''_'') (utf8_chars processor_id))"

text \<open>The directory of checkpoints is the map of its files; a save is one rename.\<close>

definition checkpoint_load :: "(string, string) btree \<Rightarrow> string \<Rightarrow> bus_error + checkpoint option" where
  "checkpoint_load files processor_id =
     (case bt_get files (checkpoint_file processor_id) of
        None \<Rightarrow> Inr None
      | Some raw \<Rightarrow> map_sum BusCheckpoint Some (checkpoint_parse (str_trim raw)))"

definition checkpoint_save :: "string \<Rightarrow> checkpoint \<Rightarrow> (string, string) btree \<Rightarrow> (string, string) btree" where
  "checkpoint_save processor_id c files = bt_insert (checkpoint_file processor_id) c files"

end
