(* ===== verification/Wal_Props.thy ===== *)
theory Wal_Props
  imports Wal
begin

text \<open>
  What the file holds. A log \<^emph>\<open>stores\<close> a list of records when its file is their lines and its
  offsets are theirs; it \<^emph>\<open>holds\<close> them when the records are numbered one after another, in the log
  and in each stream, and the writer knows it. The lemmas say that scanning a file, appending to it
  and reading from it keep to this.
\<close>

subsection \<open>Bytes\<close>

lemma list4_cases [case_names none one two three more]:
  assumes "xs = [] \<Longrightarrow> P" and "\<And>a. xs = [a] \<Longrightarrow> P" and "\<And>a b. xs = [a, b] \<Longrightarrow> P"
    and "\<And>a b c. xs = [a, b, c] \<Longrightarrow> P" and "\<And>a b c d ys. xs = a # b # c # d # ys \<Longrightarrow> P"
  shows P
  using assms by (metis list.exhaust)

lemma utf8_valid_Nil [simp]: "utf8_valid []"
  by (simp add: utf8_valid.simps)

lemma utf8_next_append:
  assumes "utf8_next s = Some r"
  shows "utf8_next (s @ t) = Some (r @ t)"
proof -
  consider b where "s = [b]" | b c where "s = [b, c]" | b c d where "s = [b, c, d]"
    | b c d e s4 where "s = b # c # d # e # s4"
    using assms by (cases s rule: list4_cases) (auto simp: utf8_next_def)
  then show ?thesis
    using assms by cases (auto simp: utf8_next_def split: if_split_asm)
qed

lemma utf8_valid_append: "utf8_valid s \<Longrightarrow> utf8_valid t \<Longrightarrow> utf8_valid (s @ t)"
proof (induction s rule: utf8_valid.induct)
  case (1 s)
  show ?case
  proof (cases "s = []")
    case False
    with "1.prems" obtain r where r: "utf8_next s = Some r" "utf8_valid r"
      by (subst (asm) utf8_valid.simps) (auto split: option.splits)
    with False "1.IH" "1.prems" have "utf8_valid (r @ t)" by blast
    with r False show ?thesis
      by (subst utf8_valid.simps) (simp add: utf8_next_append)
  qed (use 1 in simp)
qed

lemma utf8_valid_newline [simp]: "utf8_valid [newline]"
  by (simp add: utf8_valid.simps utf8_next_def byte_in_def newline_def)

lemma utf8_chars_snoc: "\<not> is_continuation c \<Longrightarrow> utf8_chars (s @ [c]) = utf8_chars s @ [[c]]"
proof (induction s rule: utf8_chars.induct)
  case (2 b bs)
  have "takeWhile is_continuation (bs @ [c]) = takeWhile is_continuation bs"
    using 2 by (simp add: takeWhile_tail)
  moreover have "dropWhile is_continuation (bs @ [c]) = dropWhile is_continuation bs @ [c]"
    using 2 by (induction bs) auto
  ultimately show ?case using 2 by simp
qed simp

lemma trim_end_line:
  assumes "l \<noteq> []" and "last l = CHR 0x7D"
  shows "str_trim_end (l @ [newline]) = l"
proof -
  from assms obtain body where l: "l = body @ [CHR 0x7D]" by (metis append_butlast_last_id)
  have "utf8_chars (l @ [newline]) = utf8_chars l @ [[newline]]"
    by (simp add: utf8_chars_snoc newline_def is_continuation_def)
  also have "utf8_chars l = utf8_chars body @ [[CHR 0x7D]]"
    by (simp add: l utf8_chars_snoc is_continuation_def)
  finally have "utf8_chars (l @ [newline]) = (utf8_chars body @ [[CHR 0x7D]]) @ [[newline]]" .
  then show ?thesis
    by (simp add: str_trim_end_def is_white_def codes_def newline_def l)
qed

subsection \<open>Lines\<close>

text \<open>What is relied on of \<open>serde_json\<close> at given records: the text of a record is one line of UTF-8
  that ends an object, and reads back as the record.\<close>

definition codec_ok :: "line_codec \<Rightarrow> recorded_event list \<Rightarrow> bool" where
  "codec_ok K es \<longleftrightarrow>
     (\<forall>e \<in> set es. \<exists>l. to_line K e = Some l \<and> l \<noteq> [] \<and> last l = CHR 0x7D \<and> newline \<notin> set l
        \<and> utf8_valid l \<and> of_line K l = Some e)"

definition line_of :: "line_codec \<Rightarrow> recorded_event \<Rightarrow> string" where
  "line_of K e = unwrap_or (to_line K e) [] @ [newline]"

definition written :: "line_codec \<Rightarrow> recorded_event list \<Rightarrow> string" where
  "written K es = concat (map (line_of K) es)"

lemma written_simps [simp]: "written K [] = []" "written K (e # es) = line_of K e @ written K es"
  "written K (es @ fs) = written K es @ written K fs"
  by (simp_all add: written_def)

lemma codec_ok_simps [simp]: "codec_ok K []" "codec_ok K (es @ fs) \<longleftrightarrow> codec_ok K es \<and> codec_ok K fs"
  by (auto simp: codec_ok_def)

lemma codec_ok_Cons: "codec_ok K (e # es) \<longleftrightarrow> codec_ok K [e] \<and> codec_ok K es"
  by (simp add: codec_ok_def)

lemma line_facts:
  assumes "codec_ok K [e]"
  obtains l where "to_line K e = Some l" "line_of K e = l @ [newline]" "newline \<notin> set l" "utf8_valid l"
    "str_trim_end (l @ [newline]) = l" "of_line K l = Some e"
  using assms by (auto simp: codec_ok_def line_of_def unwrap_or_def trim_end_line)

lemma read_line_record:
  assumes "codec_ok K [e]"
  shows "read_line (line_of K e @ rest) = Inr (line_of K e, rest) \<and> ends_line (line_of K e)
    \<and> of_line K (str_trim_end (line_of K e)) = Some e"
proof -
  from assms obtain l where l: "line_of K e = l @ [newline]" "newline \<notin> set l" "utf8_valid l"
    "str_trim_end (l @ [newline]) = l" "of_line K l = Some e"
    by (rule line_facts)
  have body: "c \<noteq> newline" if "c \<in> set l" for c using that l(2) by metis
  have "takeWhile (\<lambda>c. c \<noteq> newline) (l @ newline # rest) = l"
    by (subst takeWhile_append2) (simp_all add: body)
  moreover have "dropWhile (\<lambda>c. c \<noteq> newline) (l @ newline # rest) = newline # rest"
    by (subst dropWhile_append2) (simp_all add: body)
  moreover have "utf8_valid (l @ [newline])" using l(3) by (simp add: utf8_valid_append)
  ultimately have "read_line (l @ newline # rest) = Inr (l @ [newline], rest)"
    by (simp add: read_line_def Let_def)
  with l show ?thesis by (simp add: ends_line_def)
qed

lemma read_line_tail:
  assumes "newline \<notin> set t"
  shows "read_line t = (if utf8_valid t then Inr (t, []) else Inl BusIo)"
proof -
  have body: "c \<noteq> newline" if "c \<in> set t" for c using that assms by metis
  have whole: "takeWhile (\<lambda>c. c \<noteq> newline) t = t" "dropWhile (\<lambda>c. c \<noteq> newline) t = []"
    by (simp_all add: takeWhile_eq_all_conv dropWhile_eq_Nil_conv body)
  show ?thesis unfolding read_line_def Let_def whole by simp
qed

lemma tail_ends: "newline \<notin> set t \<Longrightarrow> \<not> ends_line t"
  unfolding ends_line_def by (metis last_in_set)

lemma line_of_nonempty [simp]: "line_of K e \<noteq> []"
  by (simp add: line_of_def)

subsection \<open>The index\<close>

fun index_all :: "line_codec \<Rightarrow> nat \<Rightarrow> recorded_event list \<Rightarrow> wal_index \<Rightarrow> wal_index" where
  "index_all K offset [] ix = ix"
| "index_all K offset (e # es) ix =
     index_all K (offset + length (line_of K e)) es (index_event e offset ix)"

definition index_of_log :: "line_codec \<Rightarrow> recorded_event list \<Rightarrow> wal_index" where
  "index_of_log K es = index_all K 0 es index_empty"

lemma index_all_append:
  "index_all K offset (es @ fs) ix = index_all K (offset + length (written K es)) fs (index_all K offset es ix)"
  by (induction es arbitrary: offset ix) (simp_all add: add.assoc)

lemma index_log_snoc:
  "index_of_log K (es @ [e]) = index_event e (length (written K es)) (index_of_log K es)"
  by (simp add: index_of_log_def index_all_append)

lemma index_log_empty [simp]: "index_of_log K [] = index_empty"
  by (simp add: index_of_log_def)

lemma scan_log:
  assumes "codec_ok K es" and "newline \<notin> set tail"
  shows "wal_scan K offset ix (written K es @ tail) =
    (if utf8_valid tail then Inr (index_all K offset es ix, offset + length (written K es)) else Inl BusIo)"
  using assms
proof (induction es arbitrary: offset ix)
  case Nil
  note read = read_line_tail [OF Nil.prems(2)] and ends = tail_ends [OF Nil.prems(2)]
  have "wal_scan K offset ix tail = (if utf8_valid tail then Inr (ix, offset) else Inl BusIo)"
    unfolding wal_scan.simps [of K offset ix tail] read using ends by simp
  then show ?case by simp
next
  case (Cons e es)
  then have e: "codec_ok K [e]" and rest: "codec_ok K es" by (simp_all add: codec_ok_Cons [of K e es])
  note read = read_line_record [OF e, of "written K es @ tail"]
  have "wal_scan K offset ix (line_of K e @ written K es @ tail) =
      wal_scan K (offset + length (line_of K e)) (index_event e offset ix) (written K es @ tail)"
    unfolding wal_scan.simps [of K offset ix "line_of K e @ written K es @ tail"] using read by simp
  then show ?case by (simp add: Cons.IH [OF rest Cons.prems(2)] add.assoc)
qed

text \<open>The offset of a record is the length of the lines before it.\<close>

lemma log_offsets: "wi_offsets (index_of_log K es) = map (\<lambda>i. length (written K (take i es))) [0..<length es]"
proof (induction es rule: rev_induct)
  case (snoc e es)
  then show ?case by (simp add: index_log_snoc index_event_def index_offset_def)
qed (simp add: index_empty_def)

lemma stream_list_insert [simp]:
  "stream_list (bt_insert k xs m) k' = (if k' = k then xs else stream_list m k')"
  by (simp add: stream_list_def)

lemma log_streams:
  "stream_list (wi_streams (index_of_log K es)) k =
     map (\<lambda>i. length (written K (take i es)))
       (filter (\<lambda>i. stream_text (re_stream (es ! i)) = k) [0..<length es])"
proof (induction es rule: rev_induct)
  case (snoc e es)
  have same: "filter (\<lambda>i. stream_text (re_stream ((es @ [e]) ! i)) = k) [0..<length es]
      = filter (\<lambda>i. stream_text (re_stream (es ! i)) = k) [0..<length es]"
    by (rule filter_cong) (simp_all add: nth_append)
  have offsets: "map (\<lambda>i. length (written K (take i (es @ [e])))) (filter P [0..<length es])
      = map (\<lambda>i. length (written K (take i es))) (filter P [0..<length es])" for P
    by (rule map_cong) auto
  have "stream_list (wi_streams (index_of_log K (es @ [e]))) k =
      map (\<lambda>i. length (written K (take i es))) (filter (\<lambda>i. stream_text (re_stream (es ! i)) = k) [0..<length es])
      @ (if stream_text (re_stream e) = k then [length (written K es)] else [])"
    by (simp add: index_log_snoc index_event_def index_offset_def snoc [symmetric])
  also have "\<dots> = map (\<lambda>i. length (written K (take i (es @ [e]))))
      (filter (\<lambda>i. stream_text (re_stream ((es @ [e]) ! i)) = k) [0..<length (es @ [e])])"
    unfolding length_append_singleton upt_Suc_append [OF le0] filter_append map_append offsets same by simp
  finally show ?case .
qed (simp add: index_empty_def stream_list_def)

subsection \<open>Numbering\<close>

definition in_stream :: "recorded_event list \<Rightarrow> stream_name \<Rightarrow> recorded_event list" where
  "in_stream es s = filter (\<lambda>e. re_stream e = s) es"

definition comes_next :: "recorded_event list \<Rightarrow> recorded_event \<Rightarrow> bool" where
  "comes_next before e \<longleftrightarrow>
     re_position e = length before + 1 \<and> re_checkpoint e = from_global_position (of_nat (length before + 1))
     \<and> re_stream_position e = length (in_stream before (re_stream e)) + 1 \<and> sn_type (re_stream e) = ''run''"

definition numbered :: "recorded_event list \<Rightarrow> bool" where
  "numbered es \<longleftrightarrow> (\<forall>before e after. es = before @ e # after \<longrightarrow> comes_next before e)"

lemma numbered_Nil [simp]: "numbered []"
  by (simp add: numbered_def)

lemma numbered_snoc [simp]: "numbered (es @ [e]) \<longleftrightarrow> numbered es \<and> comes_next es e"
proof
  assume all: "numbered (es @ [e])"
  then have "comes_next es e" unfolding numbered_def by blast
  moreover have "comes_next before x" if "es = before @ x # after" for before x after
    using all that unfolding numbered_def by (metis append_Cons append_assoc)
  ultimately show "numbered es \<and> comes_next es e" unfolding numbered_def by blast
next
  assume both: "numbered es \<and> comes_next es e"
  show "numbered (es @ [e])" unfolding numbered_def
  proof (intro allI impI)
    fix before x after
    assume split: "es @ [e] = before @ x # after"
    show "comes_next before x"
    proof (cases after rule: rev_cases)
      case Nil
      with split both show ?thesis by simp
    next
      case (snoc front y)
      with split have "es = before @ x # front" by simp
      with both show ?thesis unfolding numbered_def by blast
    qed
  qed
qed

lemma numbered_prefix: "numbered (es @ fs) \<Longrightarrow> numbered es"
  by (induction fs rule: rev_induct) (simp_all flip: append_assoc)

lemma numbered_nth: "numbered es \<Longrightarrow> i < length es \<Longrightarrow> comes_next (take i es) (es ! i)"
  unfolding numbered_def using id_take_nth_drop by blast

lemma numbered_position: "numbered es \<Longrightarrow> i < length es \<Longrightarrow> re_position (es ! i) = i + 1"
  using numbered_nth [of es i] by (simp add: comes_next_def)

lemma run_streams: "numbered es \<Longrightarrow> \<forall>e \<in> set es. sn_type (re_stream e) = ''run''"
  by (metis comes_next_def in_set_conv_nth numbered_nth)

lemma stream_text_run:
  "sn_type a = ''run'' \<Longrightarrow> sn_type b = ''run'' \<Longrightarrow> stream_text a = stream_text b \<longleftrightarrow> a = b"
  by (cases a; cases b) (auto simp: stream_text_def)

text \<open>The events of a stream are its first, its second and so on.\<close>

lemma in_stream_positions:
  "numbered es \<Longrightarrow> map re_stream_position (in_stream es s) = [1..<length (in_stream es s) + 1]"
proof (induction es rule: rev_induct)
  case (snoc e es)
  then show ?case by (auto simp: in_stream_def comes_next_def)
qed (simp add: in_stream_def)

lemma position_of_stream:
  assumes "numbered es" and "sn_type s = ''run''"
  shows "next_position (wi_positions (index_of_log K es)) (stream_text s) = length (in_stream es s) + 1"
  using assms
proof (induction es rule: rev_induct)
  case Nil
  show ?case by (simp add: next_position_def index_empty_def in_stream_def unwrap_or_def)
next
  case (snoc e es)
  then have e: "comes_next es e" "sn_type (re_stream e) = ''run''" by (simp_all add: comes_next_def)
  show ?case
  proof (cases "re_stream e = s")
    case True
    with snoc e show ?thesis
      by (simp add: index_log_snoc index_event_def index_offset_def next_position_def unwrap_or_def
          in_stream_def comes_next_def)
  next
    case False
    with snoc e have "stream_text (re_stream e) \<noteq> stream_text s" by (simp add: stream_text_run)
    with snoc False show ?thesis
      by (simp add: index_log_snoc index_event_def index_offset_def next_position_def in_stream_def)
  qed
qed

section \<open>Stored and held\<close>

text \<open>
  What the file log promises: it reads like the bus in memory, opening its file again is the same
  log, and a write that was cut off leaves whole records. Then what it does not: a refused batch
  moves the positions of its streams on, and a failed write is not taken back.
\<close>

subsection \<open>Stored records\<close>

definition wal_stores :: "line_codec \<Rightarrow> wal \<Rightarrow> recorded_event list \<Rightarrow> bool" where
  "wal_stores K w es \<longleftrightarrow>
     wl_file w = written K es \<and> wi_offsets (wl_index w) = wi_offsets (index_of_log K es)
     \<and> wi_streams (wl_index w) = wi_streams (index_of_log K es) \<and> codec_ok K es"

definition wal_holds :: "line_codec \<Rightarrow> wal \<Rightarrow> recorded_event list \<Rightarrow> bool" where
  "wal_holds K w es \<longleftrightarrow>
     wl_file w = written K es \<and> wl_index w = index_of_log K es \<and> codec_ok K es \<and> numbered es"

lemma holds_stores: "wal_holds K w es \<Longrightarrow> wal_stores K w es"
  by (simp add: wal_holds_def wal_stores_def)

definition wal_of :: "line_codec \<Rightarrow> recorded_event list \<Rightarrow> wal" where
  "wal_of K es = \<lparr>wl_file = written K es, wl_index = index_of_log K es\<rparr>"

lemma holds_is: "wal_holds K w es \<longleftrightarrow> w = wal_of K es \<and> codec_ok K es \<and> numbered es"
  by (cases w) (auto simp: wal_holds_def wal_of_def)

lemma open_log:
  assumes "codec_ok K es" and "newline \<notin> set tail"
  shows "wal_open K True (written K es @ tail) = (if utf8_valid tail then Inr (wal_of K es) else Inl BusIo)"
  by (simp add: wal_open_def scan_log [OF assms] index_of_log_def wal_of_def)

subsection \<open>Reads\<close>

lemma read_lines_log:
  assumes "codec_ok K es"
  shows "read_lines K position limit (written K es) = Inr (take limit es)"
  using assms
proof (induction limit arbitrary: es position)
  case (Suc limit)
  show ?case
  proof (cases es)
    case Nil
    then show ?thesis by (simp add: read_line_def ends_line_def)
  next
    case (Cons e rest)
    with Suc.prems have e: "codec_ok K [e]" and rest: "codec_ok K rest"
      by (simp_all add: codec_ok_Cons [of K e rest])
    show ?thesis
      unfolding Cons written_simps read_lines.simps
      by (simp add: read_line_record [OF e] Suc.IH [OF rest])
  qed
qed simp

lemma drop_written: "i \<le> length es \<Longrightarrow> drop (length (written K (take i es))) (written K es) = written K (drop i es)"
  by (metis append_eq_conv_conj append_take_drop_id written_simps(3))

lemma codec_ok_drop: "codec_ok K es \<Longrightarrow> codec_ok K (drop i es)"
  by (metis append_take_drop_id codec_ok_simps(2))

lemma codec_ok_take: "codec_ok K es \<Longrightarrow> codec_ok K (take i es)"
  by (metis append_take_drop_id codec_ok_simps(2))

lemma stores_count: "wal_stores K w es \<Longrightarrow> length (wi_offsets (wl_index w)) = length es"
  by (simp add: wal_stores_def log_offsets)

lemma read_after_log:
  assumes "wal_stores K w es"
  shows "read_after K w n limit = Inr (take limit (drop n es))"
proof (cases "n < length es")
  case True
  with assms have "drop (wi_offsets (wl_index w) ! n) (wl_file w) = written K (drop n es)"
    by (simp add: wal_stores_def log_offsets drop_written)
  moreover have "codec_ok K (drop n es)" using assms by (simp add: wal_stores_def codec_ok_drop)
  ultimately show ?thesis using True stores_count [OF assms] by (simp add: read_after_def read_lines_log)
next
  case False
  with stores_count [OF assms] show ?thesis by (simp add: read_after_def)
qed

lemma read_offsets_log:
  assumes "codec_ok K es" and "\<And>i. i \<in> set is \<Longrightarrow> i < length es"
  shows "read_at_offsets K (written K es) (map (\<lambda>i. length (written K (take i es))) is) = Inr (map ((!) es) is)"
  using assms(2)
proof (induction "is")
  case (Cons i "is")
  then have i: "i < length es" by simp
  have split: "drop i es = es ! i # drop (Suc i) es" by (rule Cons_nth_drop_Suc [OF i, symmetric])
  have e: "codec_ok K [es ! i]"
    using codec_ok_drop [OF assms(1), of i] unfolding split codec_ok_Cons [of K "es ! i" "drop (Suc i) es"] ..
  have "drop (length (written K (take i es))) (written K es) = line_of K (es ! i) @ written K (drop (Suc i) es)"
    using i by (simp add: drop_written split)
  with Cons show ?case by (simp add: read_line_record [OF e])
qed simp

lemma filter_indices: "map ((!) es) (filter (\<lambda>i. P (es ! i)) [0..<length es]) = filter P es"
proof -
  have "filter P (map ((!) es) [0..<length es]) = map ((!) es) (filter (P \<circ> (!) es) [0..<length es])"
    by (rule filter_map)
  then show ?thesis by (simp add: map_nth comp_def)
qed

lemma stream_indices:
  assumes "wal_stores K w es" and "\<forall>e \<in> set es. sn_type (re_stream e) = ''run''" and "sn_type s = ''run''"
  shows "wal_stream_offsets w s =
    map (\<lambda>i. length (written K (take i es))) (filter (\<lambda>i. re_stream (es ! i) = s) [0..<length es])"
proof -
  have "filter (\<lambda>i. stream_text (re_stream (es ! i)) = stream_text s) [0..<length es]
      = filter (\<lambda>i. re_stream (es ! i) = s) [0..<length es]"
    by (rule filter_cong) (simp_all add: assms(2, 3) stream_text_run)
  then show ?thesis using assms(1) by (simp add: wal_stream_offsets_def wal_stores_def log_streams)
qed

text \<open>Any part of the offsets of a stream reads the same part of its events.\<close>

lemma read_stream_part:
  assumes "wal_stores K w es" and "\<forall>e \<in> set es. sn_type (re_stream e) = ''run''" and "sn_type s = ''run''"
  shows "read_at_offsets K (wl_file w) (take limit (drop skip (wal_stream_offsets w s)))
    = Inr (take limit (drop skip (in_stream es s)))"
    and "length (wal_stream_offsets w s) = length (in_stream es s)"
    and "wal_read_stream K w s = Inr (in_stream es s)"
proof -
  let ?is = "filter (\<lambda>i. re_stream (es ! i) = s) [0..<length es]"
  have stream: "map ((!) es) ?is = in_stream es s"
    unfolding in_stream_def by (rule filter_indices)
  have bytes: "wl_file w = written K es" and codec: "codec_ok K es"
    using assms(1) by (simp_all add: wal_stores_def)
  note offsets = stream_indices [OF assms]
  have part: "read_at_offsets K (wl_file w) (map (\<lambda>i. length (written K (take i es))) js) = Inr (map ((!) es) js)"
    if "set js \<subseteq> set ?is" for js
    unfolding bytes by (rule read_offsets_log [OF codec]) (use that in auto)
  have "set (take limit (drop skip ?is)) \<subseteq> set ?is"
    by (meson order_trans set_drop_subset set_take_subset)
  from part [OF this] show "read_at_offsets K (wl_file w) (take limit (drop skip (wal_stream_offsets w s)))
      = Inr (take limit (drop skip (in_stream es s)))"
    by (simp add: offsets take_map drop_map flip: stream)
  show "length (wal_stream_offsets w s) = length (in_stream es s)"
    by (simp add: offsets flip: stream)
  show "wal_read_stream K w s = Inr (in_stream es s)"
    using part [of ?is] by (simp add: wal_read_stream_def offsets stream)
qed

subsection \<open>Appends\<close>

definition position_event :: "(string, nat) btree \<Rightarrow> recorded_event \<Rightarrow> (string, nat) btree" where
  "position_event m e = bt_insert (stream_text (re_stream e)) (re_stream_position e) m"

lemma record_fields [simp]:
  "re_stream (en_record e g n m now c) = en_stream e"
  "re_stream_position (en_record e g n m now c) = n"
  "re_position (en_record e g n m now c) = m"
  "re_checkpoint (en_record e g n m now c) = from_global_position (of_nat m)"
  "sn_type (en_stream e) = ''run''"
  by (simp_all add: en_record_def re_stream_def re_stream_position_def re_position_def re_checkpoint_def
      en_stream_def stream_for_run_def Let_def)

text \<open>The offsets a batch is given, after those of the records before it.\<close>

definition relative_offsets :: "line_codec \<Rightarrow> recorded_event list \<Rightarrow> recorded_event list \<Rightarrow> (string \<times> nat) list" where
  "relative_offsets K before rs =
     map (\<lambda>i. (stream_text (re_stream (rs ! i)), length (written K (before @ take i rs)))) [0..<length rs]"

lemma relative_Cons:
  "relative_offsets K before (r # rs) =
     (stream_text (re_stream r), length (written K before)) # relative_offsets K (before @ [r]) rs"
  unfolding relative_offsets_def
  by (simp add: upt_conv_Cons map_Suc_upt [symmetric] del: upt_Suc)

lemma promote_log:
  assumes "wal_promote K base now p batch = (None, p')"
    and "pr_buffer p = written K (pr_recorded p)"
  shows "\<exists>rs. pr_recorded p' = pr_recorded p @ rs \<and> length rs = length batch
    \<and> pr_buffer p' = written K (pr_recorded p') \<and> pr_positions p' = foldl position_event (pr_positions p) rs
    \<and> pr_relative p' = pr_relative p @ relative_offsets K (pr_recorded p) rs"
  using assms
proof (induction batch arbitrary: p)
  case Nil
  then show ?case by (simp add: relative_offsets_def)
next
  case (Cons entry batch)
  obtain e g where entry: "entry = (e, g)" by (cases entry)
  let ?stream = "stream_text (en_stream e)" and ?n = "next_position (pr_positions p) (stream_text (en_stream e))"
  let ?r = "en_record e g ?n (base + length (pr_recorded p) + 1) now None"
  from Cons.prems(1) obtain line where ok: "en_validate e = None" and line: "to_line K ?r = Some line"
    and run: "wal_promote K base now
        (p\<lparr>pr_positions := bt_insert ?stream ?n (pr_positions p),
           pr_relative := pr_relative p @ [(?stream, length (pr_buffer p))],
           pr_buffer := pr_buffer p @ line @ [newline], pr_recorded := pr_recorded p @ [?r]\<rparr>) batch = (None, p')"
    by (auto simp: entry Let_def split: option.splits)
  have "line_of K ?r = line @ [newline]" using line by (simp add: line_of_def unwrap_or_def)
  with Cons.IH [OF run] Cons.prems(2) obtain rs where
    rs: "pr_recorded p' = (pr_recorded p @ [?r]) @ rs" "length rs = length batch"
      "pr_buffer p' = written K (pr_recorded p')"
      "pr_positions p' = foldl position_event (bt_insert ?stream ?n (pr_positions p)) rs"
      "pr_relative p' = (pr_relative p @ [(?stream, length (pr_buffer p))]) @ relative_offsets K (pr_recorded p @ [?r]) rs"
    by auto
  have "pr_positions p' = foldl position_event (pr_positions p) (?r # rs)"
    by (simp add: rs(4) position_event_def)
  moreover have "pr_relative p' = pr_relative p @ relative_offsets K (pr_recorded p) (?r # rs)"
    by (simp add: rs(5) relative_Cons Cons.prems(2))
  ultimately show ?case using rs(1-3) by (intro exI [of _ "?r # rs"]) simp
qed


lemma index_positions: "wi_positions (index_all K offset rs ix) = foldl position_event (wi_positions ix) rs"
  by (induction rs arbitrary: offset ix)
    (simp_all add: index_event_def index_offset_def position_event_def)

definition same_offsets :: "wal_index \<Rightarrow> wal_index \<Rightarrow> bool" where
  "same_offsets a b \<longleftrightarrow> wi_offsets a = wi_offsets b \<and> wi_streams a = wi_streams b"

lemma index_relative:
  assumes "same_offsets ix ix'"
  shows "same_offsets
    (foldl (\<lambda>ix (stream, relative). index_offset stream (base + relative) ix) ix (relative_offsets K before rs))
    (index_all K (base + length (written K before)) rs ix')"
  using assms
proof (induction rs arbitrary: before ix ix')
  case Nil
  then show ?case by (simp add: relative_offsets_def)
next
  case (Cons r rs)
  have "same_offsets (index_offset (stream_text (re_stream r)) (base + length (written K before)) ix)
      (index_event r (base + length (written K before)) ix')"
    using Cons.prems by (simp add: same_offsets_def index_offset_def index_event_def)
  from Cons.IH [OF this, of "before @ [r]"] show ?case by (simp add: relative_Cons add.assoc)
qed

lemma index_relative_positions:
  "wi_positions (foldl (\<lambda>ix (stream, relative). index_offset stream (base + relative) ix) ix xs) = wi_positions ix"
  by (induction xs arbitrary: ix) (auto simp: index_offset_def)

lemma index_all_cong:
  "same_offsets ix ix' \<Longrightarrow> same_offsets (index_all K offset rs ix) (index_all K offset rs ix')"
  by (induction rs arbitrary: offset ix ix') (simp_all add: same_offsets_def index_event_def index_offset_def)

text \<open>A batch that was written is stored behind what was stored before.\<close>

lemma append_stores:
  assumes "wal_stores K w es" and "wal_append K now batch None w = (Inr r, w')" and "codec_ok K (ar_recorded r)"
  shows "wal_stores K w' (es @ ar_recorded r)"
    and "wi_positions (wl_index w') = foldl position_event (wi_positions (wl_index w)) (ar_recorded r)"
    and "length (ar_recorded r) = length batch"
    and "ar_last_checkpoint r = last_checkpoint (ar_recorded r)"
proof -
  let ?p = "\<lparr>pr_positions = wi_positions (wl_index w), pr_recorded = [], pr_buffer = [], pr_relative = []\<rparr>"
  from assms(2) obtain p where run: "wal_promote K (length (wi_offsets (wl_index w))) now ?p batch = (None, p)"
    and r: "r = \<lparr>ar_recorded = pr_recorded p, ar_last_checkpoint = last_checkpoint (pr_recorded p)\<rparr>"
    and w': "w' = \<lparr>wl_file = wl_file w @ pr_buffer p,
       wl_index = foldl (\<lambda>ix (stream, relative). index_offset stream (length (wl_file w) + relative) ix)
         ((wl_index w)\<lparr>wi_positions := pr_positions p\<rparr>) (pr_relative p)\<rparr>"
    by (auto simp: wal_append_def Let_def split: prod.splits option.splits)
  from promote_log [OF run] obtain rs where
    rs: "pr_recorded p = rs" "length rs = length batch" "pr_buffer p = written K rs"
      "pr_positions p = foldl position_event (wi_positions (wl_index w)) rs"
      "pr_relative p = relative_offsets K [] rs"
    by auto
  show "length (ar_recorded r) = length batch" "ar_last_checkpoint r = last_checkpoint (ar_recorded r)"
    by (simp_all add: r rs)
  show "wi_positions (wl_index w') = foldl position_event (wi_positions (wl_index w)) (ar_recorded r)"
    by (simp add: w' r rs index_relative_positions)
  let ?ix = "(wl_index w)\<lparr>wi_positions := pr_positions p\<rparr>"
  have "same_offsets ?ix (index_of_log K es)"
    using assms(1) by (simp add: same_offsets_def wal_stores_def)
  from index_relative [OF this, of "length (wl_file w)" K "[]" rs]
  have "same_offsets (wl_index w') (index_of_log K (es @ rs))"
    using assms(1) by (simp add: w' rs index_of_log_def index_all_append wal_stores_def)
  with assms(1, 3) show "wal_stores K w' (es @ ar_recorded r)"
    by (simp add: wal_stores_def w' r rs same_offsets_def)
qed

text \<open>The loops of the two adapters go in step over envelopes that are taken.\<close>

lemma bus_push_extends: "snd (bus_push now b recorded batch) = b' \<Longrightarrow> \<exists>rs. mb_events b' = mb_events b @ rs"
proof (induction batch arbitrary: b recorded)
  case (Cons entry batch)
  obtain e g where entry: "entry = (e, g)" by (cases entry)
  show ?case
  proof (cases "en_validate e")
    case None
    with Cons show ?thesis by (fastforce simp: entry Let_def)
  next
    case (Some err)
    with Cons.prems show ?thesis by (simp add: entry)
  qed
qed simp

lemma push_in_step:
  assumes "bus_push now b recorded batch = (Inr out, b')" and "codec_ok K (mb_events b')"
    and "mb_events b = es @ pr_recorded p" and "mb_positions b = pr_positions p"
    and "recorded = pr_recorded p"
  shows "\<exists>p'. wal_promote K (length es) now p batch = (None, p') \<and> pr_recorded p' = out
    \<and> mb_events b' = es @ out \<and> mb_positions b' = pr_positions p'"
  using assms
proof (induction batch arbitrary: b recorded p)
  case Nil
  then show ?case by simp
next
  case (Cons entry batch)
  obtain e g where entry: "entry = (e, g)" by (cases entry)
  let ?stream = "stream_text (en_stream e)" and ?n = "next_position (pr_positions p) (stream_text (en_stream e))"
  let ?r = "en_record e g ?n (length es + length (pr_recorded p) + 1) now None"
  let ?b = "b\<lparr>mb_positions := bt_insert ?stream ?n (mb_positions b), mb_events := mb_events b @ [?r]\<rparr>"
  from Cons.prems have ok: "en_validate e = None" by (auto simp: entry split: option.splits)
  with Cons.prems have push: "bus_push now ?b (recorded @ [?r]) batch = (Inr out, b')"
    by (simp add: entry Let_def)
  from bus_push_extends [of now ?b "recorded @ [?r]" batch] push obtain rs
    where "mb_events b' = (mb_events b @ [?r]) @ rs" by auto
  with Cons.prems(2) obtain line where line: "to_line K ?r = Some line" by (auto simp: codec_ok_def)
  let ?p = "p\<lparr>pr_positions := bt_insert ?stream ?n (pr_positions p),
        pr_relative := pr_relative p @ [(?stream, length (pr_buffer p))],
        pr_buffer := pr_buffer p @ line @ [newline], pr_recorded := pr_recorded p @ [?r]\<rparr>"
  have "\<exists>p'. wal_promote K (length es) now ?p batch = (None, p') \<and> pr_recorded p' = out
      \<and> mb_events b' = es @ out \<and> mb_positions b' = pr_positions p'"
    by (rule Cons.IH [OF push Cons.prems(2)]) (simp_all add: Cons.prems(3-5))
  moreover have "wal_promote K (length es) now p (entry # batch) = wal_promote K (length es) now ?p batch"
    using line by (simp add: entry ok Let_def)
  ultimately show ?case by simp
qed

lemma push_numbered:
  assumes "bus_push now b recorded batch = (Inr out, b')" and "numbered (mb_events b)"
    and "mb_positions b = wi_positions (index_of_log K (mb_events b))"
  shows "numbered (mb_events b') \<and> mb_positions b' = wi_positions (index_of_log K (mb_events b'))"
  using assms
proof (induction batch arbitrary: b recorded)
  case (Cons entry batch)
  obtain e g where entry: "entry = (e, g)" by (cases entry)
  let ?stream = "stream_text (en_stream e)" and ?n = "next_position (mb_positions b) (stream_text (en_stream e))"
  let ?r = "en_record e g ?n (length (mb_events b) + 1) now None"
  let ?b = "b\<lparr>mb_positions := bt_insert ?stream ?n (mb_positions b), mb_events := mb_events b @ [?r]\<rparr>"
  from Cons.prems have "en_validate e = None" by (auto simp: entry split: option.splits)
  with Cons.prems have push: "bus_push now ?b (recorded @ [?r]) batch = (Inr out, b')"
    by (simp add: entry Let_def)
  have "?n = length (in_stream (mb_events b) (en_stream e)) + 1"
    unfolding Cons.prems(3) by (rule position_of_stream) (simp_all add: Cons.prems(2))
  then have "numbered (mb_events ?b)" using Cons.prems(2) by (simp add: comes_next_def)
  moreover have "mb_positions ?b = wi_positions (index_of_log K (mb_events ?b))"
    using Cons.prems(3) by (simp add: index_log_snoc index_event_def index_offset_def)
  ultimately show ?case using Cons.IH [OF push] by blast
qed simp

end
