(* ===== verification/Bus_Props.thy ===== *)
theory Bus_Props
  imports Wal_Props
begin

text \<open>
  The promises of the two buses. While every envelope is taken they are one log: the same results,
  the same reads, and a file that opens as the log that wrote it. A write that was cut off leaves a
  prefix of its records, as long as the cut does not fall inside a character. A batch that is refused
  makes the two differ, and makes pages of the file log skip events.
\<close>

subsection \<open>Two buses, one log\<close>

fun wal_run :: "line_codec \<Rightarrow> (instant \<times> (envelope \<times> string) list) list \<Rightarrow> wal
    \<Rightarrow> (bus_error + append_result) list \<times> wal" where
  "wal_run K [] w = ([], w)"
| "wal_run K ((now, batch) # rest) w =
     (case wal_append K now batch None w of
        (x, w1) \<Rightarrow> (case wal_run K rest w1 of (xs, w2) \<Rightarrow> (x # xs, w2)))"

fun bus_run :: "(instant \<times> (envelope \<times> string) list) list \<Rightarrow> memory_bus
    \<Rightarrow> (bus_error + append_result) list \<times> memory_bus" where
  "bus_run [] b = ([], b)"
| "bus_run ((now, batch) # rest) b =
     (case bus_append now batch b of
        (x, b1) \<Rightarrow> (case bus_run rest b1 of (xs, b2) \<Rightarrow> (x # xs, b2)))"

definition batch_valid :: "(envelope \<times> string) list \<Rightarrow> bool" where
  "batch_valid batch \<longleftrightarrow> (\<forall>entry \<in> set batch. en_validate (fst entry) = None)"

definition same_log :: "line_codec \<Rightarrow> wal \<Rightarrow> memory_bus \<Rightarrow> bool" where
  "same_log K w b \<longleftrightarrow>
     wal_holds K w (mb_events b) \<and> mb_positions b = wi_positions (index_of_log K (mb_events b))"

lemma valid_push: "batch_valid batch \<Longrightarrow> \<exists>out b'. bus_push now b recorded batch = (Inr out, b')"
proof (induction batch arbitrary: b recorded)
  case (Cons entry batch)
  then show ?case by (cases entry) (simp add: batch_valid_def Let_def)
qed simp

lemma bus_append_extends: "snd (bus_append now batch b) = b' \<Longrightarrow> \<exists>rs. mb_events b' = mb_events b @ rs"
  using bus_push_extends [of now b "[]" batch]
  by (auto simp: bus_append_def split: prod.splits sum.splits)

lemma bus_run_extends: "\<exists>rs. mb_events (snd (bus_run batches b)) = mb_events b @ rs"
proof (induction batches arbitrary: b)
  case (Cons entry batches)
  obtain now batch where entry: "entry = (now, batch)" by (cases entry)
  obtain x b1 where one: "bus_append now batch b = (x, b1)" by (cases "bus_append now batch b")
  obtain rs where rs: "mb_events b1 = mb_events b @ rs" using bus_append_extends [of now batch b b1] one by auto
  obtain rs' where "mb_events (snd (bus_run batches b1)) = mb_events b1 @ rs'" using Cons by blast
  with rs show ?case by (auto simp: entry one split: prod.splits)
qed simp

lemma append_in_step:
  assumes "same_log K w b" and "batch_valid batch" and "codec_ok K (mb_events (snd (bus_append now batch b)))"
  shows "\<exists>r w' b'. wal_append K now batch None w = (Inr r, w') \<and> bus_append now batch b = (Inr r, b')
    \<and> same_log K w' b' \<and> mb_events b' = mb_events b @ ar_recorded r"
proof -
  from assms(1) have holds: "wal_holds K w (mb_events b)"
    and positions: "mb_positions b = wi_positions (index_of_log K (mb_events b))"
    by (simp_all add: same_log_def)
  from valid_push [OF assms(2), of now b "[]"] obtain out b' where push: "bus_push now b [] batch = (Inr out, b')"
    by blast
  let ?r = "\<lparr>ar_recorded = out, ar_last_checkpoint = last_checkpoint out\<rparr>"
  have append: "bus_append now batch b = (Inr ?r, b')" using push by (simp add: bus_append_def)
  with assms(3) have codec: "codec_ok K (mb_events b')" by simp
  let ?p = "\<lparr>pr_positions = wi_positions (wl_index w), pr_recorded = [], pr_buffer = [], pr_relative = []\<rparr>"
  have count: "length (wi_offsets (wl_index w)) = length (mb_events b)"
    using stores_count [OF holds_stores [OF holds]] .
  have index: "wl_index w = index_of_log K (mb_events b)" using holds by (simp add: wal_holds_def)
  obtain p' where p': "wal_promote K (length (mb_events b)) now ?p batch = (None, p')" "pr_recorded p' = out"
    and grown: "mb_events b' = mb_events b @ out"
    using push_in_step [OF push codec, of "mb_events b" ?p] positions index by auto
  then obtain w' where file_append: "wal_append K now batch None w = (Inr ?r, w')"
    by (simp add: wal_append_def count Let_def)
  have "codec_ok K (ar_recorded ?r)" using codec grown by simp
  note stored = append_stores [OF holds_stores [OF holds] file_append this]
  have numbers: "numbered (mb_events b')" "mb_positions b' = wi_positions (index_of_log K (mb_events b'))"
    using push_numbered [OF push _ positions] holds by (auto simp: wal_holds_def)
  have "wi_positions (wl_index w') = wi_positions (index_of_log K (mb_events b'))"
    using stored(2) by (simp add: grown index index_of_log_def index_all_append index_positions)
  with stored(1) numbers codec have "same_log K w' b'"
    by (simp add: same_log_def wal_holds_def wal_stores_def grown)
  with file_append append grown show ?thesis by auto
qed

lemma run_in_step:
  assumes "same_log K w b" and "\<forall>entry \<in> set batches. batch_valid (snd entry)"
    and "codec_ok K (mb_events (snd (bus_run batches b)))"
  shows "fst (wal_run K batches w) = fst (bus_run batches b)
    \<and> same_log K (snd (wal_run K batches w)) (snd (bus_run batches b))"
  using assms
proof (induction batches arbitrary: w b)
  case (Cons entry batches)
  obtain now batch where entry: "entry = (now, batch)" by (cases entry)
  obtain x b1 where one: "bus_append now batch b = (x, b1)" by (cases "bus_append now batch b")
  have all: "codec_ok K (mb_events (snd (bus_run batches b1)))"
    using Cons.prems(3) by (simp add: entry one split: prod.splits)
  obtain rs where "mb_events (snd (bus_run batches b1)) = mb_events b1 @ rs"
    using bus_run_extends by blast
  with all one have "codec_ok K (mb_events (snd (bus_append now batch b)))" by simp
  from append_in_step [OF Cons.prems(1) _ this] Cons.prems(2) one obtain r w1
    where w1: "wal_append K now batch None w = (Inr r, w1)" "x = Inr r" "same_log K w1 b1"
    by (auto simp: entry)
  from Cons.IH [OF w1(3) _ all] Cons.prems(2) show ?case
    by (auto simp: entry one w1(1, 2) split: prod.splits)
qed simp

definition wal_new :: wal where
  "wal_new = \<lparr>wl_file = [], wl_index = index_empty\<rparr>"

lemma new_logs_same: "same_log K wal_new memory_bus_new"
  by (simp add: same_log_def wal_holds_def wal_new_def memory_bus_new_def index_empty_def)

lemma after_cursor:
  assumes "map re_stream_position es = [1..<length es + 1]"
  shows "filter (\<lambda>e. is_none_or (\<lambda>cursor. cursor < re_stream_position e) after) es = drop (unwrap_or after 0) es"
proof (cases after)
  case (Some n)
  have pos: "re_stream_position (es ! i) = i + 1" if "i < length es" for i
    using arg_cong [OF assms, of "\<lambda>xs. xs ! i"] that by (simp del: upt_Suc)
  have "filter (\<lambda>e. n < re_stream_position e) es = drop n es"
    using pos
  proof (induction es arbitrary: n rule: rev_induct)
    case (snoc e es)
    have "re_stream_position (es ! i) = i + 1" if "i < length es" for i
      using snoc.prems [of i] that by (simp add: nth_append)
    moreover have "re_stream_position e = length es + 1" using snoc.prems [of "length es"] by simp
    ultimately show ?case using snoc.IH by simp
  qed simp
  then show ?thesis by (simp add: Some unwrap_or_def)
qed (simp add: unwrap_or_def)

lemma last_position: "numbered es \<Longrightarrow> es \<noteq> [] \<Longrightarrow> re_checkpoint (last es) = from_global_position (of_nat (length es))"
  by (cases es rule: rev_cases) (simp_all add: comes_next_def)

lemma page_in_step:
  assumes "wal_holds K w es" and "sn_type s = ''run''"
  shows "wal_read_stream_page K w s after limit = Inr (page_slice (in_stream es s) after limit)"
proof -
  have numbers: "numbered es" using assms(1) by (simp add: wal_holds_def)
  note part = read_stream_part [OF holds_stores [OF assms(1)] run_streams [OF numbers] assms(2)]
  have "unwrap_or after 0 + length (take limit (drop (unwrap_or after 0) xs)) < length xs
      \<longleftrightarrow> limit < length (drop (unwrap_or after 0) xs)" for xs :: "recorded_event list"
    by auto
  then show ?thesis
    by (simp add: wal_read_stream_page_def part page_slice_def Let_def
        after_cursor [OF in_stream_positions [OF numbers]])
qed

lemma reads_in_step:
  assumes "same_log K w b"
  shows "wal_read K w from limit = Inr (bus_read b from limit)"
    and "wal_head w = bus_head b"
    and "wal_open K True (wl_file w) = Inr w"
    and "sn_type s = ''run'' \<Longrightarrow> wal_read_stream K w s = Inr (bus_read_stream b s)"
    and "sn_type s = ''run'' \<Longrightarrow> wal_read_stream_page K w s after limit = Inr (bus_read_stream_page b s after limit)"
proof -
  let ?es = "mb_events b"
  from assms have holds: "wal_holds K w ?es" by (simp add: same_log_def)
  then have numbers: "numbered ?es" and codec: "codec_ok K ?es" by (simp_all add: wal_holds_def)
  have "filter (\<lambda>e. n < re_position e) es = drop n es" if "numbered es" for n es
    using that by (induction es arbitrary: n rule: rev_induct) (simp_all add: comes_next_def)
  from this [OF numbers] show "wal_read K w from limit = Inr (bus_read b from limit)"
    by (simp add: wal_read_def read_after_log [OF holds_stores [OF holds]] bus_read_def)
  show "wal_head w = bus_head b"
    using stores_count [OF holds_stores [OF holds]] last_position [OF numbers]
    by (auto simp: wal_head_def bus_head_def last_checkpoint_def Let_def)
  show "wal_open K True (wl_file w) = Inr w"
    using open_log [OF codec, of "[]"] holds by (simp add: holds_is wal_of_def)
  show "wal_read_stream K w s = Inr (bus_read_stream b s)" if "sn_type s = ''run''"
    using read_stream_part(3) [OF holds_stores [OF holds] run_streams [OF numbers] that]
    by (simp add: bus_read_stream_def in_stream_def)
  have "bus_read_stream_page b s after limit = page_slice (in_stream ?es s) after limit"
    by (auto simp: bus_read_stream_page_def page_slice_def bus_read_stream_def in_stream_def Let_def min_def)
  then show "wal_read_stream_page K w s after limit = Inr (bus_read_stream_page b s after limit)"
    if "sn_type s = ''run''"
    using page_in_step [OF holds that] by simp
qed

text \<open>C36: Whatever batches of valid envelopes are appended, the file log answers each as the bus in memory
  does, reads the same from any position, in any stream and on any page, and is the log a process
  finds that opens its file again.\<close>

theorem file_log_reads_like_the_memory_log:
  assumes "\<forall>entry \<in> set batches. batch_valid (snd entry)" and "bus_run batches memory_bus_new = (answers, b)"
    and "codec_ok K (mb_events b)" and "wal_run K batches wal_new = (file_answers, w)"
  shows "file_answers = answers \<and> wal_open K True (wl_file w) = Inr w \<and> wal_head w = bus_head b
    \<and> (\<forall>from limit. wal_read K w from limit = Inr (bus_read b from limit))
    \<and> (\<forall>s after limit. sn_type s = ''run'' \<longrightarrow> wal_read_stream K w s = Inr (bus_read_stream b s)
         \<and> wal_read_stream_page K w s after limit = Inr (page_slice (bus_read_stream b s) after limit))"
proof -
  have "same_log K w b" and answers: "file_answers = answers"
    using run_in_step [OF new_logs_same assms(1), of K] assms(2-4) by auto
  note reads = reads_in_step [OF this(1)]
  have "wal_holds K w (mb_events b)" using \<open>same_log K w b\<close> by (simp add: same_log_def)
  note page = page_in_step [OF this]
  from answers reads(1-4) page show ?thesis
    by (simp add: bus_read_stream_def in_stream_def)
qed


subsection \<open>Writes that are cut off\<close>

lemma promote_numbered:
  assumes "wal_promote K (length es) now p batch = (None, p')" and "numbered (es @ pr_recorded p)"
    and "pr_positions p = wi_positions (index_of_log K (es @ pr_recorded p))"
  shows "numbered (es @ pr_recorded p')
    \<and> pr_positions p' = wi_positions (index_of_log K (es @ pr_recorded p'))"
  using assms
proof (induction batch arbitrary: p)
  case (Cons entry batch)
  obtain e g where entry: "entry = (e, g)" by (cases entry)
  let ?stream = "stream_text (en_stream e)" and ?n = "next_position (pr_positions p) (stream_text (en_stream e))"
  let ?r = "en_record e g ?n (length es + length (pr_recorded p) + 1) now None"
  from Cons.prems(1) obtain line where run: "wal_promote K (length es) now
        (p\<lparr>pr_positions := bt_insert ?stream ?n (pr_positions p),
           pr_relative := pr_relative p @ [(?stream, length (pr_buffer p))],
           pr_buffer := pr_buffer p @ line @ [newline], pr_recorded := pr_recorded p @ [?r]\<rparr>) batch = (None, p')"
    by (auto simp: entry Let_def split: option.splits)
  have "?n = length (in_stream (es @ pr_recorded p) (en_stream e)) + 1"
    unfolding Cons.prems(3) by (rule position_of_stream) (simp_all add: Cons.prems(2))
  then have "comes_next (es @ pr_recorded p) ?r" by (simp add: comes_next_def)
  with Cons.prems(2) have "numbered ((es @ pr_recorded p) @ [?r])" unfolding numbered_snoc by blast
  moreover have "bt_insert ?stream ?n (pr_positions p) = wi_positions (index_of_log K ((es @ pr_recorded p) @ [?r]))"
    unfolding index_log_snoc using Cons.prems(3) by (simp add: index_event_def index_offset_def)
  ultimately show ?case by (intro Cons.IH [OF run]) simp_all
qed simp

lemma append_holds:
  assumes "wal_holds K w es" and "wal_append K now batch None w = (Inr r, w')" and "codec_ok K (ar_recorded r)"
  shows "wal_holds K w' (es @ ar_recorded r)"
proof -
  from assms(1) have index: "wl_index w = index_of_log K es" and numbers: "numbered es"
    by (simp_all add: wal_holds_def)
  let ?p = "\<lparr>pr_positions = wi_positions (wl_index w), pr_recorded = [], pr_buffer = [], pr_relative = []\<rparr>"
  note count = stores_count [OF holds_stores [OF assms(1)]]
  from assms(2) obtain p where run: "wal_promote K (length es) now ?p batch = (None, p)"
    and r: "ar_recorded r = pr_recorded p"
    by (auto simp: wal_append_def Let_def count split: prod.splits option.splits)
  from promote_numbered [OF run] numbers index have "numbered (es @ ar_recorded r)" by (simp add: r)
  moreover note stored = append_stores [OF holds_stores [OF assms(1)] assms(2, 3)]
  moreover have "wi_positions (wl_index w') = wi_positions (index_of_log K (es @ ar_recorded r))"
    using stored(2) by (simp add: index index_of_log_def index_all_append index_positions)
  ultimately show ?thesis by (simp add: wal_holds_def wal_stores_def)
qed

lemma cut_lines:
  assumes "codec_ok K rs"
  shows "\<exists>j tail. take n (written K rs) = written K (take j rs) @ tail \<and> newline \<notin> set tail"
  using assms
proof (induction rs arbitrary: n)
  case Nil
  show ?case by (intro exI [of _ 0] exI [of _ "[]"]) simp
next
  case (Cons r rs)
  then have r: "codec_ok K [r]" and rest: "codec_ok K rs" by (simp_all add: codec_ok_Cons [of K r rs])
  from r obtain l where l: "line_of K r = l @ [newline]" "newline \<notin> set l" by (rule line_facts)
  show ?case
  proof (cases "n \<le> length l")
    case True
    have "newline \<notin> set (take n l)" using l(2) by (meson in_set_takeD)
    with True l(1) show ?thesis by (intro exI [of _ 0] exI [of _ "take n l"]) simp
  next
    case False
    obtain j tail where "take (n - length (line_of K r)) (written K rs) = written K (take j rs) @ tail"
      and "newline \<notin> set tail"
      using Cons.IH [OF rest] by blast
    moreover have "take (n - length l) (newline # written K rs) = newline # take (n - Suc (length l)) (written K rs)"
      using False by (simp add: take_Cons')
    ultimately show ?thesis using False l(1) by (intro exI [of _ "Suc j"] exI [of _ tail]) simp
  qed
qed

text \<open>C37: A write that fails after any number of bytes leaves the whole records among them and a piece of
  the next one. Opening the file then gives the log of the whole records, if the piece does not end
  inside a character; if it does, the log does not open.\<close>

theorem cut_write_leaves_whole_records:
  assumes "wal_holds K w es" and "wal_append K now batch None w = (Inr r, w1)" and "codec_ok K (ar_recorded r)"
    and "wal_append K now batch (Some n) w = (answer, w2)"
  shows "answer = Inl BusIo \<and>
    (\<exists>j tail. wl_file w2 = written K (es @ take j (ar_recorded r)) @ tail \<and> newline \<notin> set tail
       \<and> wal_holds K (wal_of K (es @ take j (ar_recorded r))) (es @ take j (ar_recorded r))
       \<and> wal_open K True (wl_file w2) =
           (if utf8_valid tail then Inr (wal_of K (es @ take j (ar_recorded r))) else Inl BusIo))"
proof -
  let ?p = "\<lparr>pr_positions = wi_positions (wl_index w), pr_recorded = [], pr_buffer = [], pr_relative = []\<rparr>"
  from assms(2) obtain p where run: "wal_promote K (length (wi_offsets (wl_index w))) now ?p batch = (None, p)"
    and r: "ar_recorded r = pr_recorded p"
    by (auto simp: wal_append_def Let_def split: prod.splits option.splits)
  with promote_log [OF run] have buffer: "pr_buffer p = written K (ar_recorded r)" by auto
  from run assms(4) have answer: "answer = Inl BusIo" and bytes: "wl_file w2 = wl_file w @ take n (pr_buffer p)"
    by (auto simp: wal_append_def Let_def)
  from cut_lines [OF assms(3)] obtain j tail where
    cut: "take n (written K (ar_recorded r)) = written K (take j (ar_recorded r)) @ tail" "newline \<notin> set tail"
    by blast
  let ?es = "es @ take j (ar_recorded r)"
  have holds: "wal_holds K w1 (es @ ar_recorded r)" by (rule append_holds [OF assms(1-3)])
  then have codec: "codec_ok K ?es" by (simp add: wal_holds_def codec_ok_take)
  have "es @ ar_recorded r = ?es @ drop j (ar_recorded r)" by simp
  with holds have "numbered ?es" unfolding wal_holds_def by (metis numbered_prefix)
  with codec have "wal_holds K (wal_of K ?es) ?es" by (simp add: holds_is)
  moreover have "wl_file w2 = written K ?es @ tail"
    using assms(1) cut(1) by (simp add: bytes buffer wal_holds_def)
  moreover note open_log [OF codec cut(2)]
  ultimately show ?thesis using answer cut(2) by metis
qed

lemma torn_character: "\<not> utf8_valid [CHR 0xC3]"
  by (simp add: utf8_valid.simps utf8_next_def byte_in_def)

text \<open>The process that goes on after such a failure appends behind the piece, and the record it adds
  cannot be read back: the file does not open any more.\<close>

lemma torn_line_is_corrupt:
  assumes "codec_ok K es" and "codec_ok K [x]" and "to_line K x = Some l" and "newline \<notin> set piece"
    and "utf8_valid piece" and "of_line K (piece @ l) = None"
  shows "wal_open K True (written K es @ piece @ line_of K x @ later)
    = Inl (BusDecode (decode_checkpoint (length es + 1)))"
proof -
  from assms(2, 3) have l: "line_of K x = l @ [newline]" "newline \<notin> set l" "utf8_valid l" "l \<noteq> []" "last l = CHR 0x7D"
    by (auto simp: codec_ok_def line_of_def unwrap_or_def)
  let ?s = "piece @ line_of K x @ later"
  have body: "c \<noteq> newline" if "c \<in> set (piece @ l)" for c using that assms(4) l(2) by auto
  have s: "?s = (piece @ l) @ newline # later" by (simp add: l(1))
  have "takeWhile (\<lambda>c. c \<noteq> newline) ?s = piece @ l"
    unfolding s by (subst takeWhile_append2) (use body in auto)
  moreover have "dropWhile (\<lambda>c. c \<noteq> newline) ?s = newline # later"
    unfolding s by (subst dropWhile_append2) (use body in auto)
  moreover have "utf8_valid ((piece @ l) @ [newline])"
    using assms(5) l(3) by (intro utf8_valid_append) simp_all
  ultimately have read: "read_line ?s = Inr ((piece @ l) @ [newline], later)"
    by (simp add: read_line_def Let_def)
  have "str_trim_end ((piece @ l) @ [newline]) = piece @ l"
    by (rule trim_end_line) (use l in simp_all)
  then have stuck: "wal_scan K offset ix ?s = Inl (BusDecode (decode_checkpoint (length (wi_offsets ix) + 1)))" for offset ix
    unfolding wal_scan.simps [of K offset ix ?s] read using assms(6) by (simp add: ends_line_def)
  have "wal_scan K offset ix (written K es @ ?s)
      = Inl (BusDecode (decode_checkpoint (length (wi_offsets ix) + length es + 1)))" for offset ix
    using assms(1)
  proof (induction es arbitrary: offset ix)
    case Nil
    then show ?case by (simp only: written_simps append_Nil stuck list.size add_0_right)
  next
    case (Cons e es)
    then have e: "codec_ok K [e]" and rest: "codec_ok K es" by (simp_all add: codec_ok_Cons [of K e es])
    have "wal_scan K offset ix (line_of K e @ written K es @ ?s) =
        wal_scan K (offset + length (line_of K e)) (index_event e offset ix) (written K es @ ?s)"
      unfolding wal_scan.simps [of K offset ix "line_of K e @ written K es @ ?s"]
      using read_line_record [OF e, of "written K es @ ?s"] by simp
    with Cons.IH [OF rest] show ?case
      by (simp add: index_event_def index_offset_def)
  qed
  from this [of 0 index_empty] show ?thesis by (simp add: wal_open_def index_empty_def)
qed

text \<open>A file that could not be opened for the scan is taken for an empty one and cut to nothing.\<close>

lemma failed_first_open_empties_the_log: "wal_open K False bytes = Inr wal_new"
  by (simp add: wal_open_def wal_new_def)


subsection \<open>A batch that is refused\<close>

text \<open>The in-memory bus keeps the events before the invalid one; the file log keeps none of them and
  yet has moved the positions of their streams on.\<close>

text \<open>C40: A batch that is refused for its second envelope writes nothing. The next two events of the same
  run are written and read back, and a reader that has seen the first of them is told that its
  stream holds nothing more, where the page that every log is to give holds the second.\<close>

theorem refused_batch_hides_events:
  assumes "wal_holds K w es" and "en_validate e = None" and "en_validate bad = Some err"
    and "wal_append K now ((e, g) # (bad, g') # rest) None w = (Inl (BusInvalid err), w1)"
    and "wal_append K now' [(x, gx), (y, gy)] None w1 = (Inr r, w2)" and "codec_ok K (ar_recorded r)"
    and "en_run_id x = en_run_id e" and "en_run_id y = en_run_id e" and "0 < limit"
  shows "wl_file w1 = wl_file w \<and>
    (\<exists>ex ey. ar_recorded r = [ex, ey]
       \<and> wal_read_stream K w2 (en_stream e) = Inr (in_stream es (en_stream e) @ [ex, ey])
       \<and> wal_read_stream_page K w2 (en_stream e) (Some (re_stream_position ex)) limit = Inr (page_new [] False)
       \<and> page_slice (in_stream es (en_stream e) @ [ex, ey]) (Some (re_stream_position ex)) limit
           = page_new [ey] False)"
proof -
  let ?s = "en_stream e" and ?m = "length (in_stream es (en_stream e))"
  let ?positions = "wi_positions (wl_index w)"
  from assms(1) have index: "wl_index w = index_of_log K es" and numbers: "numbered es"
    by (simp_all add: wal_holds_def)
  have streams: "en_stream x = ?s" "en_stream y = ?s"
    using assms(7, 8) by (simp_all add: en_stream_def)
  have at: "next_position ?positions (stream_text ?s) = ?m + 1"
    unfolding index by (rule position_of_stream [OF numbers]) simp
  from assms(2-4) have w1: "w1 = w\<lparr>wl_index := (wl_index w)\<lparr>wi_positions := bt_insert (stream_text ?s) (?m + 1) ?positions\<rparr>\<rparr>"
    by (auto simp: wal_append_def Let_def at split: option.splits)
  then have stores: "wal_stores K w1 es" using holds_stores [OF assms(1)] by (simp add: wal_stores_def)
  from stores_count [OF stores] assms(5) obtain ex ey where
    r: "ar_recorded r = [ex, ey]" and ex: "re_stream_position ex = ?m + 2" "re_stream ex = ?s"
    and ey: "re_stream_position ey = ?m + 3" "re_stream ey = ?s"
    by (auto simp: wal_append_def Let_def w1 streams next_position_def unwrap_or_def split: option.splits)
  have all: "wal_stores K w2 (es @ [ex, ey])" using append_stores(1) [OF stores assms(5, 6)] by (simp add: r)
  have run: "\<forall>z \<in> set (es @ [ex, ey]). sn_type (re_stream z) = ''run''"
    using run_streams [OF numbers] ex(2) ey(2) by auto
  have stream: "in_stream (es @ [ex, ey]) ?s = in_stream es ?s @ [ex, ey]"
    by (simp add: in_stream_def ex ey)
  have "sn_type ?s = ''run''" by simp
  note part = read_stream_part [OF all run this, unfolded stream]
  have "wal_read_stream_page K w2 ?s (Some (re_stream_position ex)) limit = Inr (page_new [] False)"
    by (simp add: wal_read_stream_page_def part ex unwrap_or_def Let_def)
  moreover have "filter (\<lambda>z. ?m + 2 < re_stream_position z) (in_stream es ?s) = []"
  proof -
    have "re_stream_position z < ?m + 1" if "z \<in> set (in_stream es ?s)" for z
    proof -
      have "re_stream_position z \<in> set (map re_stream_position (in_stream es ?s))" using that by simp
      then show ?thesis unfolding in_stream_positions [OF numbers] by auto
    qed
    then show ?thesis by (fastforce simp: filter_empty_conv)
  qed
  then have "page_slice (in_stream es ?s @ [ex, ey]) (Some (re_stream_position ex)) limit = page_new [ey] False"
    using assms(9) by (cases limit) (simp_all add: page_slice_def ex ey)
  ultimately show ?thesis using part(3) r by (simp add: w1)
qed

end
