(* ===== verification/Bus_Tail.thy ===== *)
theory Bus_Tail
  imports Bus_Props
begin

text \<open>
  A subscription to the file log (\<open>subscribe\<close> of \<open>wal.rs\<close>): it takes a receiver of the live channel,
  reads the head, replays the file in batches, says that it has caught up and then follows the
  channel. An append holds the writer's lock until its records are on disk and sends them to the
  channel only after it has let go of it. The step relation interleaves appends, sends and the
  subscriber; its parameter says which append may send next. Reading one batch of the file is one step,
  on the records an append has finished writing: a reader that meets a record before it is indexed
  and synced is not told apart from one that comes after.
\<close>

definition BROADCAST_CAPACITY :: nat where "BROADCAST_CAPACITY = 4096"

datatype start_from = FromBeginning | FromNow | FromAfter checkpoint

record subscribe_options =
  sb_from :: start_from
  sb_batch_size :: nat
  sb_stream :: "stream_name option"

datatype source_message = MsgEvent recorded_event | MsgCaughtUp checkpoint

datatype tail_phase = Opening | Replaying | Live | Over

text \<open>\<open>su_queues\<close> holds, for each append that has let go of the lock, the records it has still to send.\<close>

record subscription =
  su_wal :: wal
  su_queues :: "recorded_event list list"
  su_channel :: "recorded_event list"
  su_phase :: tail_phase
  su_from :: nat
  su_delivered :: nat
  su_sent :: "source_message list"

definition matches_stream :: "subscribe_options \<Rightarrow> recorded_event \<Rightarrow> bool" where
  "matches_stream opts e \<longleftrightarrow> is_none_or (\<lambda>s. re_stream e = s) (sb_stream opts)"

definition subscription_start :: "wal \<Rightarrow> recorded_event list list \<Rightarrow> subscription" where
  "subscription_start w queues =
     \<lparr>su_wal = w, su_queues = queues, su_channel = [], su_phase = Opening, su_from = 0,
      su_delivered = 0, su_sent = []\<rparr>"

definition from_position :: "subscribe_options \<Rightarrow> nat \<Rightarrow> nat" where
  "from_position opts head =
     (case sb_from opts of FromBeginning \<Rightarrow> 0 | FromNow \<Rightarrow> head | FromAfter c \<Rightarrow> checkpoint_position c)"

definition tail_open :: "subscribe_options \<Rightarrow> subscription \<Rightarrow> subscription" where
  "tail_open opts s =
     (let from = from_position opts (length (wi_offsets (wl_index (su_wal s))))
      in s\<lparr>su_from := from, su_delivered := from, su_phase := Replaying\<rparr>)"

definition tail_replay :: "line_codec \<Rightarrow> subscribe_options \<Rightarrow> subscription \<Rightarrow> subscription" where
  "tail_replay K opts s =
     (case read_after K (su_wal s) (su_delivered s) (max (sb_batch_size opts) 1) of
        Inl _ \<Rightarrow> s\<lparr>su_phase := Over\<rparr>
      | Inr events \<Rightarrow>
          if events = []
          then s\<lparr>su_sent := su_sent s @ [MsgCaughtUp (from_global_position (of_nat (su_delivered s)))],
                 su_phase := Live\<rparr>
          else s\<lparr>su_delivered := re_position (last events),
                 su_sent := su_sent s @ map MsgEvent (filter (matches_stream opts) events)\<rparr>)"

definition tail_receive :: "subscribe_options \<Rightarrow> subscription \<Rightarrow> subscription" where
  "tail_receive opts s =
     (if BROADCAST_CAPACITY < length (su_channel s) then s\<lparr>su_phase := Over\<rparr>
      else case su_channel s of
             [] \<Rightarrow> s
           | e # rest \<Rightarrow>
               if re_position e \<le> su_delivered s then s\<lparr>su_channel := rest\<rparr>
               else s\<lparr>su_channel := rest, su_delivered := re_position e,
                      su_sent := su_sent s @ (if matches_stream opts e then [MsgEvent e] else [])\<rparr>)"

text \<open>An append is one whose records \<open>serde_json\<close> reads back.\<close>

inductive tail_step ::
  "line_codec \<Rightarrow> subscribe_options \<Rightarrow> (recorded_event list list \<Rightarrow> nat \<Rightarrow> bool)
     \<Rightarrow> subscription \<Rightarrow> subscription \<Rightarrow> bool"
  for K opts turn where
  appended: "wal_append K now batch None (su_wal s) = (Inr r, w) \<Longrightarrow> codec_ok K (ar_recorded r) \<Longrightarrow>
    tail_step K opts turn s (s\<lparr>su_wal := w, su_queues := su_queues s @ [ar_recorded r]\<rparr>)"
| published: "i < length (su_queues s) \<Longrightarrow> su_queues s ! i = e # rest \<Longrightarrow> turn (su_queues s) i \<Longrightarrow>
    tail_step K opts turn s (s\<lparr>su_queues := (su_queues s)[i := rest], su_channel := su_channel s @ [e]\<rparr>)"
| opened: "su_phase s = Opening \<Longrightarrow> tail_step K opts turn s (tail_open opts s)"
| replayed: "su_phase s = Replaying \<Longrightarrow> tail_step K opts turn s (tail_replay K opts s)"
| received: "su_phase s = Live \<Longrightarrow> su_channel s \<noteq> [] \<Longrightarrow> tail_step K opts turn s (tail_receive opts s)"

text \<open>Each append sends when all before it have sent everything, or whenever it likes.\<close>

definition in_turn :: "recorded_event list list \<Rightarrow> nat \<Rightarrow> bool" where
  "in_turn queues i \<longleftrightarrow> (\<forall>j < i. queues ! j = [])"

definition any_turn :: "recorded_event list list \<Rightarrow> nat \<Rightarrow> bool" where
  "any_turn queues i \<longleftrightarrow> True"

fun as_event :: "source_message \<Rightarrow> recorded_event option" where
  "as_event (MsgEvent e) = Some e"
| "as_event (MsgCaughtUp _) = None"

definition given :: "subscription \<Rightarrow> recorded_event list" where
  "given s = List.map_filter as_event (su_sent s)"

definition nothing_to_send :: "subscription \<Rightarrow> bool" where
  "nothing_to_send s \<longleftrightarrow> su_channel s = [] \<and> concat (su_queues s) = []"

subsection \<open>In turn, nothing is missed\<close>

definition between :: "nat \<Rightarrow> nat \<Rightarrow> recorded_event list \<Rightarrow> recorded_event list" where
  "between from end_at es = drop from (take end_at es)"

text \<open>The channel and the queues hold the end of the log, after the first \<open>k\<close> records.\<close>

definition tail_ok :: "line_codec \<Rightarrow> subscribe_options \<Rightarrow> subscription \<Rightarrow> recorded_event list \<Rightarrow> nat \<Rightarrow> bool" where
  "tail_ok K opts s es k \<longleftrightarrow>
     wal_holds K (su_wal s) es \<and> k \<le> length es \<and> su_channel s @ concat (su_queues s) = drop k es
     \<and> given s = filter (matches_stream opts) (between (su_from s) (su_delivered s) es)
     \<and> su_from s \<le> su_delivered s \<and> (su_delivered s \<le> length es \<or> su_delivered s = su_from s)
     \<and> (su_phase s = Live \<longrightarrow> k \<le> su_delivered s)"

lemma given_simps [simp]:
  "given (s\<lparr>su_sent := su_sent s @ ms\<rparr>) = given s @ List.map_filter as_event ms"
  "given (s\<lparr>su_delivered := d, su_sent := su_sent s @ ms\<rparr>) = given s @ List.map_filter as_event ms"
  "given (s\<lparr>su_channel := c, su_delivered := d, su_sent := su_sent s @ ms\<rparr>) = given s @ List.map_filter as_event ms"
  "given (s\<lparr>su_phase := p\<rparr>) = given s" "given (s\<lparr>su_channel := c\<rparr>) = given s"
  "given (s\<lparr>su_delivered := d\<rparr>) = given s" "given (s\<lparr>su_from := d\<rparr>) = given s"
  "given (s\<lparr>su_wal := w\<rparr>) = given s" "given (s\<lparr>su_queues := q\<rparr>) = given s"
  by (simp_all add: given_def map_filter_def)

lemma map_filter_events [simp]: "List.map_filter as_event (map MsgEvent es) = es"
  by (induction es) (simp_all add: map_filter_simps)

lemma between_same [simp]: "between d d es = []"
  by (simp add: between_def)

lemma between_append:
  "from \<le> d \<Longrightarrow> d \<le> length es \<or> d = from \<Longrightarrow> between from d (es @ rs) = between from d es"
  by (auto simp: between_def)

lemma between_more:
  assumes "from \<le> d" and "d + length xs \<le> length es" and "xs = take (length xs) (drop d es)"
  shows "between from (d + length xs) es = between from d es @ xs"
proof -
  have "take (d + length xs) es = take d es @ xs" using assms(3) by (simp add: take_add)
  with assms(1, 2) show ?thesis by (simp add: between_def)
qed

lemma concat_in_turn:
  assumes "i < length qs" and "qs ! i = e # rest" and "in_turn qs i"
  shows "concat qs = e # concat (qs[i := rest])"
proof -
  have "take i qs = replicate i []"
    using assms(1, 3) by (intro nth_equalityI) (simp_all add: in_turn_def)
  then have "concat (take i qs) = []" by simp
  moreover have "qs = take i qs @ (e # rest) # drop (Suc i) qs"
    using id_take_nth_drop [OF assms(1)] assms(2) by simp
  ultimately have "concat qs = e # rest @ concat (drop (Suc i) qs)"
    by (metis append_Cons append_Nil concat.simps(2) concat_append)
  then show ?thesis using assms(1) \<open>concat (take i qs) = []\<close> by (simp add: upd_conv_take_nth_drop)
qed

lemma replay_ok:
  assumes "tail_ok K opts s es k" and "su_phase s = Replaying"
  shows "tail_ok K opts (tail_replay K opts s) es k"
proof -
  let ?d = "su_delivered s"
  define n where "n = max (sb_batch_size opts) 1"
  then have n: "0 < n" by simp
  from assms(1) have holds: "wal_holds K (su_wal s) es" by (simp add: tail_ok_def)
  let ?events = "take n (drop ?d es)"
  have "read_after K (su_wal s) ?d n = Inr ?events"
    by (rule read_after_log [OF holds_stores [OF holds]])
  then have replay: "tail_replay K opts s =
      (if ?events = []
       then s\<lparr>su_sent := su_sent s @ [MsgCaughtUp (from_global_position (of_nat ?d))], su_phase := Live\<rparr>
       else s\<lparr>su_delivered := re_position (last ?events),
              su_sent := su_sent s @ map MsgEvent (filter (matches_stream opts) ?events)\<rparr>)"
    unfolding tail_replay_def n_def by simp
  show ?thesis
  proof (cases "?events = []")
    case True
    with n have "length es \<le> ?d" by simp
    with assms True show ?thesis
      by (simp add: replay tail_ok_def given_def map_filter_def)
  next
    case False
    let ?m = "length ?events"
    from False have m: "0 < ?m" "?d + ?m \<le> length es" by (auto simp: min_def)
    have last_is: "last ?events = es ! (?d + ?m - 1)"
      using False m by (simp add: last_conv_nth)
    have "numbered es" using holds by (simp add: wal_holds_def)
    moreover have "?d + ?m - 1 < length es" using m by linarith
    ultimately have "re_position (last ?events) = ?d + ?m - 1 + 1"
      unfolding last_is by (rule numbered_position)
    with m have position: "re_position (last ?events) = ?d + ?m" by linarith
    have prefix: "?events = take ?m (drop ?d es)" by (metis append_eq_conv_conj append_take_drop_id)
    have "between (su_from s) (?d + ?m) es = between (su_from s) ?d es @ ?events"
      by (rule between_more [OF _ m(2) prefix]) (use assms(1) in \<open>simp add: tail_ok_def\<close>)
    with assms False position m show ?thesis
      by (simp add: replay tail_ok_def)
  qed
qed

lemma receive_ok:
  assumes "tail_ok K opts s es k" and "su_phase s = Live" and "su_channel s \<noteq> []"
  shows "\<exists>k. tail_ok K opts (tail_receive opts s) es k"
proof (cases "BROADCAST_CAPACITY < length (su_channel s)")
  case True
  with assms show ?thesis by (auto simp: tail_receive_def tail_ok_def)
next
  case False
  from assms(3) obtain e rest where channel: "su_channel s = e # rest" by (cases "su_channel s") auto
  let ?d = "su_delivered s"
  from assms(1) channel have rest: "e # rest @ concat (su_queues s) = drop k es" by (simp add: tail_ok_def)
  then have k: "k < length es" by (metis drop_all list.distinct(1) not_le_imp_less)
  with rest have e: "e = es ! k" and rest: "rest @ concat (su_queues s) = drop (Suc k) es"
    by (simp_all add: Cons_nth_drop_Suc [symmetric])
  have numbers: "numbered es" using assms(1) by (simp add: tail_ok_def wal_holds_def)
  have position: "re_position e = k + 1" using numbered_position [OF numbers k] by (simp add: e)
  show ?thesis
  proof (cases "k + 1 \<le> ?d")
    case True
    with assms False channel k rest position have "tail_ok K opts (tail_receive opts s) es (Suc k)"
      by (simp add: tail_receive_def tail_ok_def)
    then show ?thesis ..
  next
    case behind: False
    with assms(1, 2) have d: "?d = k" by (simp add: tail_ok_def)
    have "between (su_from s) (?d + length [e]) es = between (su_from s) ?d es @ [e]"
      by (rule between_more) (use assms(1) d k e in \<open>auto simp: tail_ok_def take_Suc_conv_app_nth
          Cons_nth_drop_Suc [symmetric]\<close>)
    with assms False channel k rest position d have "tail_ok K opts (tail_receive opts s) es (Suc k)"
      by (auto simp: tail_receive_def tail_ok_def given_def map_filter_simps map_filter_def)
    then show ?thesis ..
  qed
qed

lemma tail_step_ok:
  assumes "tail_step K opts in_turn s s'" and "tail_ok K opts s es k"
    and "su_phase s = Opening \<longrightarrow> given s = []"
  shows "(\<exists>es k. tail_ok K opts s' es k) \<and> (su_phase s' = Opening \<longrightarrow> given s' = [])"
  using assms
proof cases
  case (appended now batch r w)
  from assms(2) have "wal_holds K w (es @ ar_recorded r)"
    unfolding tail_ok_def using append_holds [OF _ appended(2, 3)] by blast
  with assms(2) have "tail_ok K opts s' (es @ ar_recorded r) k"
    by (auto simp: appended(1) tail_ok_def between_append)
  with assms(3) show ?thesis by (auto simp: appended(1))
next
  case (published i e rest)
  from assms(2) have "tail_ok K opts s' es k"
    using concat_in_turn [OF published(2-4)] by (simp add: published(1) tail_ok_def)
  with assms(3) show ?thesis by (auto simp: published(1))
next
  case opened
  with assms(2, 3) have "tail_ok K opts s' es k" by (simp add: tail_open_def Let_def tail_ok_def)
  with opened show ?thesis by (auto simp: tail_open_def Let_def)
next
  case replayed
  then have "tail_ok K opts s' es k" using replay_ok [OF assms(2)] by simp
  moreover have "su_phase s' \<noteq> Opening"
    using replayed by (auto simp: tail_replay_def split: sum.splits)
  ultimately show ?thesis by blast
next
  case received
  then have "\<exists>k. tail_ok K opts s' es k" using receive_ok [OF assms(2)] by simp
  moreover have "su_phase s' \<noteq> Opening"
    using received by (auto simp: tail_receive_def split: list.splits)
  ultimately show ?thesis by blast
qed

text \<open>C38: Whatever was being sent when the subscription was opened, and however appends, sends and the
  subscriber interleave, if appends send in turn then a subscriber is given exactly the events of its
  stream between where it started and where it is, each once and in their order. When it follows the
  channel and nothing is left to send, that is everything the log holds after where it started.\<close>

theorem subscription_misses_nothing:
  assumes "wal_holds K w es" and "concat queues = drop k es" and "k \<le> length es"
    and "(tail_step K opts in_turn)\<^sup>*\<^sup>* (subscription_start w queues) s"
  shows "\<exists>es. wal_holds K (su_wal s) es
    \<and> given s = filter (matches_stream opts) (between (su_from s) (su_delivered s) es)
    \<and> (su_phase s = Live \<and> nothing_to_send s \<longrightarrow> given s = filter (matches_stream opts) (drop (su_from s) es))"
proof -
  from assms(4) have "(\<exists>es k. tail_ok K opts s es k) \<and> (su_phase s = Opening \<longrightarrow> given s = [])"
  proof (induction rule: rtranclp_induct)
    case base
    have "tail_ok K opts (subscription_start w queues) es k"
      using assms(1-3) by (simp add: tail_ok_def subscription_start_def given_def map_filter_simps between_def)
    then show ?case by (auto simp: subscription_start_def given_def map_filter_simps)
  next
    case (step s s')
    then show ?case using tail_step_ok by blast
  qed
  then obtain es k where ok: "tail_ok K opts s es k" by blast
  have "given s = filter (matches_stream opts) (drop (su_from s) es)" if "su_phase s = Live" "nothing_to_send s"
  proof -
    from ok that(2) have "drop k es = []" unfolding tail_ok_def nothing_to_send_def by (metis append_Nil)
    with ok that(1) have "length es \<le> su_delivered s" by (auto simp: tail_ok_def)
    with ok show ?thesis by (simp add: tail_ok_def between_def)
  qed
  with ok show ?thesis by (auto simp: tail_ok_def)
qed

subsection \<open>Out of turn, an event is lost\<close>

text \<open>C39: The code does not make them take turns. Two appends that write one after the other and send in
  the other order leave a subscriber that has caught up without the first event, for good: nothing
  is left to send, and its place in the log is behind the second.\<close>

theorem racing_appends_lose_an_event:
  assumes "su_phase s = Live" and "nothing_to_send s" and "su_queues s = []"
    and "wal_holds K (su_wal s) es" and "su_delivered s = length es"
    and "wal_append K t1 one None (su_wal s) = (Inr r1, w1)" and "ar_recorded r1 = [a]" and "codec_ok K [a]"
    and "wal_append K t2 two None w1 = (Inr r2, w2)" and "ar_recorded r2 = [b]" and "codec_ok K [b]"
    and "matches_stream opts b"
  shows "\<exists>s'. (tail_step K opts any_turn)\<^sup>*\<^sup>* s s' \<and> su_phase s' = Live \<and> nothing_to_send s'
    \<and> wal_holds K (su_wal s') (es @ [a, b]) \<and> given s' = given s @ [b] \<and> su_delivered s' = length es + 2"
proof -
  let ?s1 = "s\<lparr>su_wal := w1, su_queues := [[a]]\<rparr>"
  let ?s2 = "s\<lparr>su_wal := w2, su_queues := [[a], [b]]\<rparr>"
  let ?s3 = "s\<lparr>su_wal := w2, su_queues := [[a], []], su_channel := [b]\<rparr>"
  let ?s4 = "s\<lparr>su_wal := w2, su_queues := [[], []], su_channel := [b, a]\<rparr>"
  let ?s5 = "tail_receive opts ?s4"
  let ?s6 = "tail_receive opts ?s5"
  have holds1: "wal_holds K w1 (es @ [a])"
    using append_holds [OF assms(4, 6)] assms(7, 8) by simp
  then have holds2: "wal_holds K w2 (es @ [a, b])"
    using append_holds [OF holds1 assms(9)] assms(10, 11) by simp
  then have "numbered (es @ [a, b])" by (simp add: wal_holds_def)
  from numbered_position [OF this, of "length es"] numbered_position [OF this, of "length es + 1"]
  have a: "re_position a = length es + 1" and b: "re_position b = length es + 2"
    by (simp_all add: nth_append)
  have channel: "su_channel s = []" using assms(2) by (simp add: nothing_to_send_def)
  have "tail_step K opts any_turn s ?s1"
    using tail_step.appended [of K t1 one s r1 w1 opts any_turn] assms(3, 6-8) by simp
  moreover have "tail_step K opts any_turn ?s1 ?s2"
    using tail_step.appended [of K t2 two ?s1 r2 w2 opts any_turn] assms(9-11) by simp
  moreover have "tail_step K opts any_turn ?s2 ?s3"
    using tail_step.published [of 1 ?s2 b "[]" any_turn K opts] channel by (simp add: any_turn_def)
  moreover have "tail_step K opts any_turn ?s3 ?s4"
    using tail_step.published [of 0 ?s3 a "[]" any_turn K opts] by (simp add: any_turn_def)
  moreover have s5: "?s5 = s\<lparr>su_wal := w2, su_queues := [[], []], su_channel := [a],
      su_delivered := length es + 2, su_sent := su_sent s @ [MsgEvent b]\<rparr>"
    using assms(5, 12) b by (simp add: tail_receive_def BROADCAST_CAPACITY_def)
  moreover have "tail_step K opts any_turn ?s4 ?s5"
    by (rule tail_step.received) (simp_all add: assms(1))
  moreover have "tail_step K opts any_turn ?s5 ?s6"
    unfolding s5 by (rule tail_step.received) (simp_all add: assms(1))
  ultimately have "(tail_step K opts any_turn)\<^sup>*\<^sup>* s ?s6"
    by (meson converse_rtranclp_into_rtranclp rtranclp.rtrancl_refl)
  moreover have "?s6 = s\<lparr>su_wal := w2, su_queues := [[], []], su_channel := [],
      su_delivered := length es + 2, su_sent := su_sent s @ [MsgEvent b]\<rparr>"
    unfolding s5 using a by (simp add: tail_receive_def BROADCAST_CAPACITY_def)
  ultimately show ?thesis
    using holds2 assms(1) by (intro exI [of _ ?s6]) (simp add: nothing_to_send_def given_def map_filter_def)
qed

end
