(* ===== verification/Bus_Demo.thy ===== *)
theory Bus_Demo
  imports Bus_Tail
begin

text \<open>A run of three events on which the theorems about the log are applied. A record is written as
  its message id in braces.\<close>

definition demo_envelope :: envelope where
  "demo_envelope = producer_envelope TyRunStarted ''r1'' 0 (source_new ''app'' SdkRust)"

definition nameless_envelope :: envelope where
  "nameless_envelope = demo_envelope\<lparr>en_run_id := []\<rparr>"

definition demo_record :: "string \<Rightarrow> nat \<Rightarrow> nat \<Rightarrow> recorded_event" where
  "demo_record m n position = en_record demo_envelope m n position 0 None"

definition braced :: "recorded_event \<Rightarrow> string" where
  "braced e = ''{'' @ rd_message_id (re_metadata e) @ ''}''"

definition demo_codec :: "recorded_event list \<Rightarrow> line_codec" where
  "demo_codec es = \<lparr>to_line = (\<lambda>e. Some (braced e)), of_line = (\<lambda>l. List.find (\<lambda>e. braced e = l) es)\<rparr>"

lemma demo_envelope_facts [simp]:
  "en_validate demo_envelope = None" "en_run_id demo_envelope = ''r1''"
  "en_stream demo_envelope = \<lparr>sn_type = ''run'', sn_id = ''r1''\<rparr>"
  by (simp_all add: demo_envelope_def producer_envelope_def en_validate_def source_new_def Let_def
      en_stream_def stream_for_run_def)

lemma demo_record_id [simp]: "rd_message_id (re_metadata (demo_record m n position)) = m"
  by (simp add: demo_record_def en_record_def Let_def demo_envelope_def producer_envelope_def unwrap_or_def)

lemma demo_record_eq: "en_record demo_envelope m n position 0 None = demo_record m n position"
  by (simp add: demo_record_def)

lemma demo_record_fields [simp]:
  "re_stream (demo_record m n position) = \<lparr>sn_type = ''run'', sn_id = ''r1''\<rparr>"
  "re_stream_position (demo_record m n position) = n"
  "re_position (demo_record m n position) = position"
  by (simp_all add: demo_record_def)

lemma braced_ok:
  "utf8_valid ''{m1}''" "utf8_valid ''{m2}''" "utf8_valid ''{m3}''"
  by (simp_all add: utf8_valid.simps utf8_next_def byte_in_def)

lemma demo_codec_ok:
  "codec_ok (demo_codec [demo_record ''m1'' a b, demo_record ''m2'' c d, demo_record ''m3'' i j])
     [demo_record ''m1'' a b, demo_record ''m2'' c d, demo_record ''m3'' i j]"
  using braced_ok by (simp add: codec_ok_def demo_codec_def braced_def newline_def)

definition demo_events :: "recorded_event list" where
  "demo_events = [demo_record ''m1'' 1 1, demo_record ''m2'' 2 2, demo_record ''m3'' 3 3]"

definition demo_batches :: "(instant \<times> (envelope \<times> string) list) list" where
  "demo_batches = [(0, [(demo_envelope, ''m1''), (demo_envelope, ''m2'')]), (0, [(demo_envelope, ''m3'')])]"

lemma demo_codec_events: "codec_ok (demo_codec demo_events) demo_events"
  unfolding demo_events_def by (rule demo_codec_ok)

lemma demo_bus_run: "mb_events (snd (bus_run demo_batches memory_bus_new)) = demo_events"
  by (simp add: demo_batches_def memory_bus_new_def bus_append_def demo_events_def demo_record_eq
      next_position_def unwrap_or_def Let_def numeral_2_eq_2 numeral_3_eq_3)

theorem file_log_reads_like_the_memory_log_witness:
  "wal_read_stream (demo_codec demo_events) (snd (wal_run (demo_codec demo_events) demo_batches wal_new))
     (en_stream demo_envelope) = Inr demo_events"
proof -
  let ?K = "demo_codec demo_events"
  obtain answers b where b: "bus_run demo_batches memory_bus_new = (answers, b)"
    by (cases "bus_run demo_batches memory_bus_new")
  obtain file_answers w where w: "wal_run ?K demo_batches wal_new = (file_answers, w)"
    by (cases "wal_run ?K demo_batches wal_new")
  have events: "mb_events b = demo_events" using demo_bus_run b by simp
  have "\<forall>entry \<in> set demo_batches. batch_valid (snd entry)"
    by (simp add: demo_batches_def batch_valid_def)
  from file_log_reads_like_the_memory_log [OF this b _ w] demo_codec_events events
  have "wal_read_stream ?K w (en_stream demo_envelope) = Inr (bus_read_stream b (en_stream demo_envelope))"
    by simp
  moreover have "bus_read_stream b (en_stream demo_envelope) = demo_events"
    by (simp add: bus_read_stream_def events demo_events_def)
  ultimately show ?thesis unfolding w snd_conv by simp
qed

lemma new_log_holds: "wal_holds K wal_new []"
  by (simp add: wal_holds_def wal_new_def)

lemma demo_append:
  "wal_append (demo_codec es) 0 [(demo_envelope, m)] None wal_new =
     (Inr \<lparr>ar_recorded = [demo_record m 1 1], ar_last_checkpoint = re_checkpoint (demo_record m 1 1)\<rparr>,
      wal_of (demo_codec es) [demo_record m 1 1])"
  by (simp add: wal_append_def wal_new_def index_empty_def demo_codec_def demo_record_eq next_position_def
      unwrap_or_def Let_def last_checkpoint_def wal_of_def line_of_def index_of_log_def index_event_def
      index_offset_def stream_list_def)

text \<open>Three bytes of the first record reach the file: the log opens as the empty one.\<close>

theorem cut_write_leaves_whole_records_witness:
  "wal_open (demo_codec demo_events) True
      (wl_file (snd (wal_append (demo_codec demo_events) 0 [(demo_envelope, ''m1'')] (Some 3) wal_new))) =
     Inr (wal_of (demo_codec demo_events) [])"
proof -
  let ?K = "demo_codec demo_events" and ?r = "demo_record ''m1'' 1 1"
  obtain answer w2 where w2: "wal_append ?K 0 [(demo_envelope, ''m1'')] (Some 3) wal_new = (answer, w2)"
    by (cases "wal_append ?K 0 [(demo_envelope, ''m1'')] (Some 3) wal_new")
  then have bytes: "wl_file w2 = ''{m1''"
    by (auto simp: wal_append_def wal_new_def index_empty_def demo_codec_def demo_record_eq braced_def Let_def
        next_position_def unwrap_or_def)
  have line: "line_of ?K ?r = ''{m1}'' @ [newline]" by (simp add: line_of_def demo_codec_def braced_def unwrap_or_def)
  have codec: "codec_ok ?K [?r]"
    using demo_codec_events codec_ok_Cons [of ?K ?r "tl demo_events"] by (simp add: demo_events_def)
  obtain j tail where cut: "wl_file w2 = written ?K (take j [?r]) @ tail"
    and opened: "wal_open ?K True (wl_file w2) = (if utf8_valid tail then Inr (wal_of ?K (take j [?r])) else Inl BusIo)"
    using cut_write_leaves_whole_records [OF new_log_holds demo_append [of demo_events "''m1''"] _ w2] codec by auto
  have "take j [?r] = []"
  proof (cases j)
    case (Suc i)
    then have "length (wl_file w2) \<ge> 5" by (simp add: cut line del: One_nat_def)
    then show ?thesis by (simp add: bytes)
  qed simp
  moreover have "utf8_valid ''{m1''" by (simp add: utf8_valid.simps utf8_next_def byte_in_def)
  moreover have "tail = ''{m1''" using cut bytes calculation(1) by simp
  ultimately show ?thesis using opened unfolding w2 snd_conv by metis
qed

definition late_events :: "recorded_event list" where
  "late_events = [demo_record ''m1'' 9 9, demo_record ''m2'' 2 1, demo_record ''m3'' 3 2]"

theorem refused_batch_hides_events_witness:
  "\<exists>w ex ey. wal_read_stream (demo_codec late_events) w (en_stream demo_envelope) = Inr [ex, ey]
     \<and> wal_read_stream_page (demo_codec late_events) w (en_stream demo_envelope) (Some 2) 10 = Inr (page_new [] False)
     \<and> page_slice [ex, ey] (Some 2) 10 = page_new [ey] False"
proof -
  let ?K = "demo_codec late_events" and ?e = "demo_envelope"
  have bad: "en_validate nameless_envelope = Some (MissingField ''<unset>'' ''run.started'' ''run_id'')"
    by (simp add: nameless_envelope_def demo_envelope_def producer_envelope_def en_validate_def Let_def
        unwrap_or_def type_as_str_def event_catalog_def)
  let ?w1 = "wal_new\<lparr>wl_index := index_empty\<lparr>wi_positions := [(''run:r1'', 1)]\<rparr>\<rparr>"
  have refused: "wal_append ?K 0 [(?e, ''m1''), (nameless_envelope, ''x'')] None wal_new
      = (Inl (BusInvalid (MissingField ''<unset>'' ''run.started'' ''run_id'')), ?w1)"
    by (simp add: wal_append_def wal_new_def index_empty_def bad demo_codec_def next_position_def
        unwrap_or_def Let_def stream_text_def)
  obtain r w2 where next_batch: "wal_append ?K 0 [(?e, ''m2''), (?e, ''m3'')] None ?w1 = (Inr r, w2)"
    and r: "ar_recorded r = [demo_record ''m2'' 2 1, demo_record ''m3'' 3 2]"
    by (simp add: wal_append_def wal_new_def index_empty_def demo_codec_def demo_record_eq next_position_def
        unwrap_or_def Let_def stream_text_def numeral_2_eq_2 numeral_3_eq_3)
  have "codec_ok ?K late_events" unfolding late_events_def by (rule demo_codec_ok)
  then have "codec_ok ?K (ar_recorded r)"
    using codec_ok_Cons [of ?K "demo_record ''m1'' 9 9" "ar_recorded r"] by (simp add: late_events_def r)
  from refused_batch_hides_events [OF new_log_holds _ bad refused next_batch this, of 10]
  show ?thesis by (auto simp: r in_stream_def numeral_2_eq_2)
qed

subsection \<open>Subscribers\<close>

definition from_now :: subscribe_options where
  "from_now = \<lparr>sb_from = FromNow, sb_batch_size = 256, sb_stream = None\<rparr>"

definition demo_live :: subscription where
  "demo_live = (subscription_start wal_new [])\<lparr>su_phase := Live, su_sent := [MsgCaughtUp (from_global_position 0)]\<rparr>"

lemma demo_goes_live: "(tail_step K from_now turn)\<^sup>*\<^sup>* (subscription_start wal_new []) demo_live"
proof -
  let ?open = "tail_open from_now (subscription_start wal_new [])"
  have "tail_step K from_now turn (subscription_start wal_new []) ?open"
    by (rule tail_step.opened) (simp add: subscription_start_def)
  moreover have "tail_step K from_now turn ?open (tail_replay K from_now ?open)"
    by (rule tail_step.replayed) (simp add: tail_open_def Let_def)
  moreover have "tail_replay K from_now ?open = demo_live"
    by (simp add: tail_replay_def tail_open_def subscription_start_def wal_new_def index_empty_def read_after_def
        from_position_def from_now_def demo_live_def)
  ultimately show ?thesis by (metis converse_rtranclp_into_rtranclp rtranclp.rtrancl_refl)
qed

theorem subscription_misses_nothing_witness:
  "\<exists>s. given s = [demo_record ''m1'' 1 1] \<and> su_phase s = Live"
proof -
  let ?K = "demo_codec demo_events" and ?r = "demo_record ''m1'' 1 1"
  let ?w = "wal_of ?K [?r]"
  let ?s1 = "demo_live\<lparr>su_wal := ?w, su_queues := [[?r]]\<rparr>"
  let ?s2 = "demo_live\<lparr>su_wal := ?w, su_queues := [[]], su_channel := [?r]\<rparr>"
  let ?s3 = "tail_receive from_now ?s2"
  have codec: "codec_ok ?K [?r]"
    using demo_codec_events codec_ok_Cons [of ?K ?r "tl demo_events"] by (simp add: demo_events_def)
  have live: "su_wal demo_live = wal_new" "su_queues demo_live = []" "su_channel demo_live = []"
    "su_phase demo_live = Live" "su_delivered demo_live = 0" "su_from demo_live = 0"
    by (simp_all add: demo_live_def subscription_start_def)
  have "tail_step ?K from_now in_turn demo_live ?s1"
    using tail_step.appended [of ?K 0 "[(demo_envelope, ''m1'')]" demo_live _ ?w from_now in_turn]
      demo_append [of demo_events "''m1''"] codec live by simp
  moreover have "tail_step ?K from_now in_turn ?s1 ?s2"
    using tail_step.published [of 0 ?s1 ?r "[]" in_turn ?K from_now] live by (simp add: in_turn_def)
  moreover have "tail_step ?K from_now in_turn ?s2 ?s3"
    by (rule tail_step.received) (simp_all add: live)
  ultimately have steps: "(tail_step ?K from_now in_turn)\<^sup>*\<^sup>* (subscription_start wal_new []) ?s3"
    using demo_goes_live [of ?K in_turn] by (meson rtranclp.rtrancl_into_rtrancl)
  have s3: "su_phase ?s3 = Live" "nothing_to_send ?s3" "su_from ?s3 = 0" "su_wal ?s3 = ?w"
    by (simp_all add: tail_receive_def live BROADCAST_CAPACITY_def nothing_to_send_def)
  from subscription_misses_nothing [OF new_log_holds _ _ steps, of 0] s3 obtain es where
    es: "wal_holds ?K ?w es" "given ?s3 = filter (matches_stream from_now) es"
    by auto
  have "wal_holds ?K ?w [?r]"
    using append_holds [OF new_log_holds demo_append [of demo_events "''m1''"]] codec by simp
  with es(1) have "length es = 1" "es = [?r]"
  proof -
    have "written ?K es = written ?K [?r]" "length (wi_offsets (wl_index ?w)) = length es"
      using es(1) \<open>wal_holds ?K ?w [?r]\<close> stores_count [OF holds_stores [OF es(1)]] by (simp_all add: wal_holds_def)
    then show one: "length es = 1"
      using stores_count [OF holds_stores [OF \<open>wal_holds ?K ?w [?r]\<close>]] by simp
    have "Inr (take 1 (drop 0 es)) = (Inr (take 1 (drop 0 [?r])) :: bus_error + recorded_event list)"
      using read_after_log [OF holds_stores [OF es(1)], of 0 1]
        read_after_log [OF holds_stores [OF \<open>wal_holds ?K ?w [?r]\<close>], of 0 1] by simp
    with one show "es = [?r]" by simp
  qed
  with es(2) s3(1) show ?thesis by (intro exI [of _ ?s3]) (simp add: matches_stream_def from_now_def)
qed

theorem racing_appends_lose_an_event_witness:
  "\<exists>s. (tail_step (demo_codec demo_events) from_now any_turn)\<^sup>*\<^sup>* demo_live s \<and> nothing_to_send s
     \<and> wal_holds (demo_codec demo_events) (su_wal s) [demo_record ''m1'' 1 1, demo_record ''m2'' 2 2]
     \<and> given s = [demo_record ''m2'' 2 2]"
proof -
  let ?K = "demo_codec demo_events" and ?a = "demo_record ''m1'' 1 1" and ?b = "demo_record ''m2'' 2 2"
  have codec: "codec_ok ?K [?a]" "codec_ok ?K [?b]"
    using demo_codec_events by (simp_all add: codec_ok_def demo_events_def)
  have live: "su_wal demo_live = wal_new" "su_queues demo_live = []" "nothing_to_send demo_live"
    "su_phase demo_live = Live" "su_delivered demo_live = length ([] :: recorded_event list)" "given demo_live = []"
    by (simp_all add: demo_live_def subscription_start_def nothing_to_send_def given_def map_filter_simps)
  obtain r2 w2 where second: "wal_append ?K 0 [(demo_envelope, ''m2'')] None (wal_of ?K [?a]) = (Inr r2, w2)"
    and r2: "ar_recorded r2 = [?b]"
    by (simp add: wal_append_def wal_of_def index_of_log_def index_event_def index_offset_def stream_list_def
        index_empty_def demo_codec_def demo_record_eq next_position_def unwrap_or_def Let_def numeral_2_eq_2)
  have "wal_holds ?K (su_wal demo_live) []" by (simp add: live new_log_holds)
  from racing_appends_lose_an_event [OF live(4, 3, 2) this live(5), of 0 "[(demo_envelope, ''m1'')]" _ _ ?a 0
      "[(demo_envelope, ''m2'')]" r2 w2 ?b from_now] demo_append [of demo_events "''m1''"] codec second r2
  show ?thesis by (auto simp: live matches_stream_def from_now_def)
qed

end
