(* ===== verification/Spec2Isabelle.thy ===== *)
theory Spec2Isabelle
  imports Progress Reactor_Demo Stop_Signal Outbox Iam_Demo Scheduler_Demo Exact_Text
    Workflow_Demo Curation_Demo Run_Context Bus_Demo
begin

text \<open>
  A verification development of aiwatcher, a server that runs workflows of steps and keeps what
  they did: the Rust workspace under \<open>src/crates\<close>. What is modelled is the execution engine
  (\<open>aiwatcher-execution\<close> and the scheduler of \<open>aiwatcher-server\<close>), the vocabulary and values it rests on
  (\<open>aiwatcher-core\<close>, \<open>aiwatcher-jobs\<close>), the chains of \<open>aiwatcher-datasets\<close> that compile to plans, the
  control plane of \<open>aiwatcher-iam\<close> and the durable event log of \<open>aiwatcher-bus\<close>. This theory holds no
  definitions: it imports the others and describes them.

  \<^bold>\<open>How the program works.\<close> A person or a schedule asks for a run. The request is compiled to a plan, a
  graph of steps each bound to a runtime. One pure function, \<open>decide\<close>, takes the state folded from the
  events of a run and one input and answers with commands and events; another, \<open>evolve\<close>, folds an event
  into the state. The handler loads a stream, decides, and appends input, events, commands, the new
  projection, the rows of the claim table, timers and publications in one transaction of the store.
  Reactors claim the rows of dispatched attempts under a lease, perform them in a runtime, and settle them
  with an input of their own. Hosted runs are decided by an outside worker that appends its batches. A
  publisher puts the published facts on the event log, from which the rest of the product reads. Which
  project a run belongs to is a scope every store operation checks; who may act in a project is the
  control plane's policy.

  \<^bold>\<open>Theories and sources.\<close> Unless another crate is named, a file is in \<open>aiwatcher-execution/src\<close>.

  \<^item> Shared vocabulary. \<open>Prelude\<close>: words, instants as integral nanoseconds, ordered maps as key-ordered
    association lists (locale \<open>table\<close>), rendering of numbers. \<open>Strings\<close>: what checks read of a text, a list
    of its UTF-8 bytes. \<open>Ids\<close>, \<open>Json\<close>, \<open>Jobs\<close>: \<open>ids.rs\<close> of the core, \<open>serde_json\<close> values, and the states,
    leases and failures of \<open>aiwatcher-jobs\<close> (locale \<open>leased\<close>). \<open>Checkpoint\<close>, \<open>Exact\<close>, \<open>Exact_Props\<close>,
    \<open>Exact_Text\<close>: \<open>checkpoint.rs\<close> and \<open>exact.rs\<close> of the core.
  \<^item> The decider. \<open>Plan\<close> (\<open>plan.rs\<close>), \<open>State\<close> (\<open>state.rs\<close>), \<open>Message\<close> (\<open>message.rs\<close>), \<open>Images\<close> and \<open>Cache\<close>
    (\<open>pods.rs\<close>, \<open>cache.rs\<close>), \<open>Decide\<close> (\<open>decide.rs\<close>, every arm). \<open>Evolve\<close> is its lemma library (locales
    \<open>event_emission\<close> and \<open>emission\<close>: what every emission keeps every decision keeps), \<open>Decide_Props\<close> what one
    decision promises, \<open>Reach\<close> the reachable runs as an inductive step relation with their invariant, and
    \<open>Progress\<close> that none of them stands still while it runs. \<open>Run_Context\<close> (\<open>context.rs\<close>): which actions a step offers.
  \<^item> The store. \<open>Claim\<close> (\<open>claim.rs\<close>), \<open>Scope\<close> (\<open>scope.rs\<close>), \<open>Timers\<close> (data of \<open>hosted.rs\<close>), \<open>Slot\<close>
    (\<open>schedule/slot.rs\<close>), \<open>Store\<close> (\<open>store/mod.rs\<close>, \<open>store/memory.rs\<close>: the record \<open>inner\<close> is what the lock
    guards, one definition per operation). \<open>Store_Inv\<close> states the log behind it as the locale \<open>event_log\<close>;
    \<open>Store_Props\<close>, \<open>Store_Claims\<close> and \<open>Store_Retention\<close> hold the properties, \<open>Store_Demo\<close> the instances.
  \<^item> Around the store. \<open>Facts\<close> (\<open>facts.rs\<close>), \<open>Handler\<close> (\<open>handler.rs\<close>), \<open>Hosted\<close> (\<open>hosted.rs\<close>), \<open>Outbox\<close>
    (\<open>outbox.rs\<close>), \<open>Activity\<close> and \<open>Stop_Signal\<close> (\<open>activity.rs\<close>, \<open>authority.rs\<close>, \<open>artifact/\<close>), \<open>Reactor\<close>
    (\<open>reactor.rs\<close>), \<open>Start\<close> (\<open>start.rs\<close>), each with a \<open>_Props\<close> theory and instances in a \<open>_Demo\<close> theory.
  \<^item> Schedules. \<open>Schedule_Rule\<close> (\<open>schedule/rule.rs\<close>), \<open>Schedule_Store\<close> (\<open>schedule/store.rs\<close>), \<open>Scheduler\<close>
    (\<open>execution/scheduler.rs\<close> of \<open>aiwatcher-server\<close>), with \<open>Schedule_Props\<close>, \<open>Scheduler_Props\<close>,
    \<open>Schedule_Demo\<close> and \<open>Scheduler_Demo\<close>.
  \<^item> What is authored. \<open>Question\<close> (\<open>human_input.rs\<close> of the core), \<open>Pods\<close> (\<open>pods.rs\<close>), \<open>Workflow_Def\<close>
    (\<open>definition/mod.rs\<close>), \<open>Chain\<close> (\<open>engine.rs\<close> and \<open>pipeline.rs\<close> of \<open>aiwatcher-datasets\<close>), \<open>Curation\<close>
    (\<open>compile.rs\<close>), with their \<open>_Props\<close> theories, \<open>Workflow_Demo\<close> and \<open>Curation_Demo\<close>.
  \<^item> The control plane. \<open>Iam_Model\<close>, \<open>Iam_Policy\<close>, \<open>Iam_Store\<close> (\<open>model.rs\<close>, \<open>policy.rs\<close>, \<open>memory.rs\<close> and
    \<open>retention.rs\<close> of \<open>aiwatcher-iam\<close>), with \<open>Iam_Valid\<close>, \<open>Iam_Props\<close>, \<open>Iam_Trail\<close> and \<open>Iam_Demo\<close>.
  \<^item> The log. \<open>Event\<close> (\<open>catalog.rs\<close>, \<open>stream.rs\<close>, \<open>context.rs\<close>, \<open>envelope.rs\<close> of the core), \<open>Wal\<close>
    (\<open>ports.rs\<close>, \<open>adapters/wal.rs\<close>, \<open>adapters/memory.rs\<close> of \<open>aiwatcher-bus\<close>), \<open>Wal_Props\<close>, \<open>Bus_Props\<close>,
    \<open>Bus_Tail\<close> (a live subscription as a step relation) and \<open>Bus_Demo\<close>.

  \<^bold>\<open>How the code is read.\<close> A struct is a record, an enum a datatype with the same constructors, \<open>Result\<close> a
  sum whose left side is the error, \<open>Option\<close> an option; a method on \<open>&mut self\<close> takes the state and returns
  its answer with the state it leaves. Counters the code keeps at a width are words or carry their bound;
  log positions, versions and byte offsets are natural numbers, since no log holds \<open>2 ^ 64\<close> records.
  Instants are integers. A \<open>BTreeMap\<close> and a \<open>HashMap\<close> whose order nobody reads are \<open>btree\<close>. Wording of
  messages is kept where a caller reads it and a constructor per sentence where only a person does.

  \<^bold>\<open>Parameters.\<close> Code that is not in the repository is an argument. \<open>crates\<close> holds \<open>sha256\<close> and \<open>json_text\<close>
  (crates \<open>sha2\<close> and \<open>serde_json\<close>): a theorem that needs two digests apart says so of those two texts. The
  time-zone database is a \<open>zone\<close> with \<open>zone_ok\<close>, the documented consistency of local offsets. The derived
  serialization of a plan, an envelope or a record is a function, for the log a pair \<open>line_codec\<close> with
  \<open>codec_ok\<close>: a record is written on one line of valid UTF-8 and read back, exactly, which for numbers with a
  fraction is more than \<open>serde_json\<close> without its \<open>float_roundtrip\<close> feature promises. Object stores, executors,
  authorities, registries and fresh ids are functions or values. What the rest of the system does between
  two calls of one operation is a function on the store, \<open>en_others\<close> for the handler, \<open>re_between\<close> for a
  reactor, \<open>sr_others\<close> for a tick; a theorem asks at most that it consists of operations of the store
  (\<open>store_steps\<close>). Each theorem with such a hypothesis is applied to concrete functions.

  \<^bold>\<open>Bounds and recursion.\<close> The handler's retry loop has the code's four passes; a drain passes over
  \<open>OUTBOX_BATCH\<close> (128) rows at a time and ends since each pass removes some; leases last 300 seconds; a
  broadcast channel holds \<open>BROADCAST_CAPACITY\<close> (4096) events. No definition
  carries fuel. The loops over a plan (cycle check, reachability, skipping downstream, ordering in rounds,
  walking a chain), over the dates of an interval and over the bytes of a file end by a measure given with
  them: the unvisited steps or blocks, the dates or the bytes left. The exponent of a decimal is an \<open>i64\<close> in
  the source and an integer here; \<open>tame\<close> marks the decimals whose exponents stay clear of that width.

  \<^bold>\<open>Interfaces.\<close> \<open>table\<close> is an ordered map, interpreted on \<open>btree\<close>. \<open>leased\<close> is a lease that one holder keeps
  until it runs out, interpreted on attempt rows (\<open>Claim\<close>), schedule slots (\<open>Slot\<close>) and the decider's lease
  (\<open>Timers\<close>). \<open>event_log\<close> is a log that appends whole requests, interpreted on the store in memory
  (\<open>Store_Inv\<close>); the handler's theorems rest on it. \<open>emission\<close> carries a property from one emitted message
  to every decision, interpreted on causality and on the order of commands (\<open>Evolve\<close>).

  \<^bold>\<open>What is shown.\<close> Of the decider: decisions are caused by their input, carry distinct derived ids, retry
  within the budget, skip exactly what is downstream; every run whose reports came from current attempts of
  unfinished steps (\<open>input_fresh\<close>, which \<open>decide\<close> itself does not check) is well-formed and causally ordered, and
  one in compiled mode that runs and is not being cancelled has a step in hand. Of the store and its clients:
  an append is all or nothing, nothing but a sweep rewrites a history, an attempt that was claimed or renewed
  is given to nobody while that lease runs, an outcome is recorded once, work another name took over
  writes nothing, no operation crosses its binding but through rows an append itself names, a drain sends
  what it can read and nothing else, and whatever the inputs are, every stored run is what the decider's own
  decisions made. What others do in between is a list of operations (\<open>operation\<close>, \<open>operate_all\<close>), each theorem
  naming those it excludes. Of starts and schedules: a repeated request is one run, and while the clock does not
  go back and one scheduler moves the cursor every slot is considered once, changes of the clocks included. Of what is authored: a document compiles exactly when it is well-formed, in order, and
  is carried by the engine; generated text quotes what it was given. Of the control plane: access is a
  live grant, standing changes only by authority, every audit number is accounted for. Of the log: the file
  reads as the bus in memory, survives a cut write, and a subscription misses nothing when appends send in
  turn (a batch it reads from the file is one step of the model). Some theorems record what the code does not promise: a late failure reopens a completed step, a
  slot left due is not started again, a guest administrator can make an owner, racing appends lose an event,
  a refused batch hides events from a page.

  \<^bold>\<open>What is not modelled.\<close> The file, Postgres and DuckDB adapters of the ports (the same contracts over
  I/O), the artifact and object stores, the HTTP routes, sessions and sign-in, the projector's read models,
  evaluation, prompts, training, annotation and alert registries, exports, the operator tools, metrics and
  logging, doubles and tests. They are input, output and rendering, third-party cryptography, or folds of
  the log that take no part in deciding a run. Within the modelled files: progress as a floating number,
  conversions of decimals to doubles, the serde glue, and the parsing of a UUID.
\<close>

end
